(* ===== verification/Prelude.thy ===== *)
theory Prelude
  imports Main "HOL-Library.Word" "HOL-Library.Sublist"
begin

text \<open>
  Shared vocabulary of the development: the C++ integer widths as word types, byte strings,
  results that carry an error, and the value of a little-endian sequence of digits. The lemmas
  about digit sequences serve the byte codecs (base 256) and the 256-bit integers (base
  \<open>2 ^ 32\<close>) alike. The collection \<open>le_simps\<close> gathers the rewrite rules on digit
  values, the collection \<open>res_simps\<close> those on results.
\<close>

unbundle bit_operations_syntax

named_theorems le_simps \<open>values of little-endian digit sequences\<close>
named_theorems res_simps \<open>results that carry an error\<close>

type_synonym u8 = "8 word"
type_synonym u16 = "16 word"
type_synonym u32 = "32 word"
type_synonym u64 = "64 word"
type_synonym bytes = "u8 list"

section \<open>Results\<close>

text \<open>A throwing, asserting or early-returning function yields \<open>Inl\<close> its error.\<close>

definition res_bind :: "'e + 'a \<Rightarrow> ('a \<Rightarrow> 'e + 'b) \<Rightarrow> 'e + 'b" where
  "res_bind r f = (case r of Inl e \<Rightarrow> Inl e | Inr x \<Rightarrow> f x)"

lemma res_bind_simps [simp, res_simps]:
  "res_bind (Inl e) f = Inl e"
  "res_bind (Inr x) f = f x"
  by (simp_all add: res_bind_def)

lemma res_bind_Inr_iff [res_simps]:
  "res_bind r f = Inr y \<longleftrightarrow> (\<exists>x. r = Inr x \<and> f x = Inr y)"
  by (auto simp: res_bind_def split: sum.splits)

lemma res_bind_Inl_iff [res_simps]:
  "res_bind r f = Inl e \<longleftrightarrow> r = Inl e \<or> (\<exists>x. r = Inr x \<and> f x = Inl e)"
  by (auto simp: res_bind_def split: sum.splits)

lemma res_bind_cong [fundef_cong]:
  assumes "r = r'" and "\<And>x. r' = Inr x \<Longrightarrow> f x = f' x"
  shows "res_bind r f = res_bind r' f'"
  using assms by (auto simp: res_bind_def split: sum.splits)

section \<open>Little-endian digit sequences\<close>

text \<open>The value of a list of digits, least significant first; the base is the word's modulus.\<close>

primrec le_val :: "'a::len word list \<Rightarrow> nat" where
  "le_val [] = 0"
| "le_val (w # ws) = unat w + 2 ^ LENGTH('a) * le_val ws"

text \<open>The \<open>n\<close> lowest digits of a number.\<close>

primrec le_digits :: "nat \<Rightarrow> nat \<Rightarrow> 'a::len word list" where
  "le_digits 0 x = []"
| "le_digits (Suc n) x = of_nat x # le_digits n (x div 2 ^ LENGTH('a))"

lemma length_le_digits [simp]: "length (le_digits n x) = n"
  by (induction n arbitrary: x) auto

lemma le_digits_numeral:
  "(le_digits (numeral k) x :: 'a::len word list) = of_nat x # le_digits (pred_numeral k) (x div 2 ^ LENGTH('a))"
  by (simp add: numeral_eq_Suc)

lemma le_val_bound: "le_val (ws :: 'a::len word list) < 2 ^ (LENGTH('a) * length ws)"
proof (induction ws)
  case Nil
  then show ?case by simp
next
  case (Cons w ws)
  let ?B = "2 ^ LENGTH('a) :: nat"
  have "unat w < ?B" by simp
  moreover have "Suc (le_val ws) \<le> 2 ^ (LENGTH('a) * length ws)"
    using Cons.IH by simp
  then have "?B * Suc (le_val ws) \<le> ?B * 2 ^ (LENGTH('a) * length ws)"
    by (rule mult_le_mono2)
  ultimately have "unat w + ?B * le_val ws < ?B * 2 ^ (LENGTH('a) * length ws)"
    unfolding mult_Suc_right by linarith
  then show ?case by (simp add: power_add)
qed

lemma le_val_append [le_simps]:
  "le_val (xs @ ys :: 'a::len word list) = le_val xs + 2 ^ (LENGTH('a) * length xs) * le_val ys"
  by (induction xs) (simp_all add: algebra_simps power_add)

lemma le_val_replicate_0 [le_simps]: "le_val (replicate n 0) = 0"
  by (induction n) auto

lemma le_val_eq_0_iff [le_simps]: "le_val ws = 0 \<longleftrightarrow> (\<forall>w\<in>set ws. w = 0)"
  by (induction ws) (auto simp: unat_eq_0)

lemma le_val_digits [le_simps]:
  "le_val (le_digits n x :: 'a::len word list) = x mod 2 ^ (LENGTH('a) * n)"
proof (induction n arbitrary: x)
  case 0
  then show ?case by simp
next
  case (Suc n)
  have "x mod 2 ^ (LENGTH('a) * Suc n)
      = x mod 2 ^ LENGTH('a) + 2 ^ LENGTH('a) * (x div 2 ^ LENGTH('a) mod 2 ^ (LENGTH('a) * n))"
    by (simp add: power_add mod_mult2_eq)
  then show ?case by (simp add: Suc.IH unsigned_of_nat take_bit_eq_mod)
qed

lemma le_digits_val [le_simps]: "le_digits (length ws) (le_val ws) = ws"
  by (induction ws) (simp_all add: div_add1_eq)

lemma le_val_inject:
  assumes "length xs = length ys" and "le_val xs = le_val ys"
  shows "xs = ys"
  by (metis assms le_digits_val)

text \<open>A bit of the value is a bit of one digit.\<close>

lemma bit_add_mult_pow:
  fixes a b :: nat
  assumes "a < 2 ^ L"
  shows "bit (a + 2 ^ L * b) n \<longleftrightarrow> (if n < L then bit a n else bit b (n - L))"
proof (cases "n < L")
  case True
  then have "(2::nat) ^ L = 2 ^ n * (2 * 2 ^ (L - n - 1))"
    by (metis Suc_diff_Suc add_diff_inverse_nat diff_diff_left less_imp_le_nat
        not_less plus_1_eq_Suc power_Suc power_add add.commute)
  then have "(a + 2 ^ L * b) div 2 ^ n = a div 2 ^ n + 2 * 2 ^ (L - n - 1) * b"
    by (simp add: mult.assoc)
  with True show ?thesis by (simp add: bit_iff_odd)
next
  case False
  then have "(2::nat) ^ n = 2 ^ L * 2 ^ (n - L)"
    by (metis le_add_diff_inverse not_less power_add)
  then have "(a + 2 ^ L * b) div 2 ^ n = (a + 2 ^ L * b) div 2 ^ L div 2 ^ (n - L)"
    by (simp add: div_mult2_eq)
  also have "(a + 2 ^ L * b) div 2 ^ L = b"
    using assms by simp
  finally show ?thesis using False by (simp add: bit_iff_odd)
qed

lemma bit_le_val:
  "bit (le_val (ws :: 'a::len word list)) n
     \<longleftrightarrow> n div LENGTH('a) < length ws \<and> bit (ws ! (n div LENGTH('a))) (n mod LENGTH('a))"
proof (induction ws arbitrary: n)
  case Nil
  then show ?case by simp
next
  case (Cons w ws)
  have eq: "bit (le_val (w # ws)) n
      \<longleftrightarrow> (if n < LENGTH('a) then bit (unat w) n else bit (le_val ws) (n - LENGTH('a)))"
    unfolding le_val.simps by (rule bit_add_mult_pow) simp
  show ?case
  proof (cases "n < LENGTH('a)")
    case True
    then show ?thesis unfolding eq by (simp add: bit_unsigned_iff)
  next
    case False
    then have "n div LENGTH('a) = Suc ((n - LENGTH('a)) div LENGTH('a))"
      and "(n - LENGTH('a)) mod LENGTH('a) = n mod LENGTH('a)"
      by (simp_all add: le_div_geq le_mod_geq)
    with False show ?thesis unfolding eq by (simp add: Cons.IH)
  qed
qed

section \<open>Words read as numbers\<close>

lemma unat_ucast_mod: "unat (ucast (w :: 'a::len word) :: 'b::len word) = unat w mod 2 ^ LENGTH('b)"
  by (simp add: unsigned_ucast_eq take_bit_eq_mod)

lemma unat_ucast_up:
  "LENGTH('a) \<le> LENGTH('b) \<Longrightarrow> unat (ucast (w :: 'a::len word) :: 'b::len word) = unat w"
  by (simp add: unat_ucast_mod order_less_le_trans [OF unsigned_less])

lemma unat_drop_bit: "unat (drop_bit n w) = unat w div 2 ^ n"
  by (subst unat_drop_bit_eq) (rule drop_bit_eq_div)

lemma unat_add_nowrap:
  "unat a + unat b < 2 ^ LENGTH('a) \<Longrightarrow> unat (a + b :: 'a::len word) = unat a + unat b"
  by (simp add: unat_word_ariths)

lemma unat_mult_nowrap:
  "unat a * unat b < 2 ^ LENGTH('a) \<Longrightarrow> unat (a * b :: 'a::len word) = unat a * unat b"
  by (simp add: unat_word_ariths)

lemma u8_less: "unat (w :: u8) < 256"
  using unsigned_less [of w, where 'a = nat] by simp

lemma unat_of_nat_mod: "unat (of_nat n :: 'a::len word) = n mod 2 ^ LENGTH('a)"
  by (simp add: unsigned_of_nat take_bit_eq_mod)

lemma u32_less: "unat (w :: u32) < 2 ^ 32"
  by (rule order_less_le_trans [OF unsigned_less]) simp

lemma u64_less: "unat (w :: u64) < 2 ^ 64"
  by (rule order_less_le_trans [OF unsigned_less]) simp

lemma unat_mod_size [simp]:
  "unat (x8 :: u8) mod 256 = unat x8"
  "unat (x16 :: u16) mod 65536 = unat x16"
  "unat (x32 :: u32) mod 4294967296 = unat x32"
  "unat (x64 :: u64) mod 18446744073709551616 = unat x64"
  by (rule mod_less, rule order_less_le_trans [OF unsigned_less], simp)+

text \<open>One step of a carry chain: the low digit is kept, the quotient moves on.\<close>

lemma carry_step:
  fixes n y B M :: nat
  shows "n mod B + B * ((n div B + y) mod M) = (n + B * y) mod (B * M)"
proof (cases "B = 0")
  case False
  then have "(n + B * y) div B = n div B + y" and "(n + B * y) mod B = n mod B" by simp_all
  then show ?thesis by (simp add: mod_mult2_eq)
qed simp

lemma bit_top_iff:
  assumes "(x :: nat) < 2 ^ Suc m"
  shows "bit x m \<longleftrightarrow> 2 ^ m \<le> x"
proof -
  have "x div 2 ^ m < 2" using assms by (intro less_mult_imp_div_less) simp
  moreover have "x div 2 ^ m = 0 \<longleftrightarrow> x < 2 ^ m" by (simp add: div_eq_0_iff)
  ultimately have "odd (x div 2 ^ m) \<longleftrightarrow> \<not> x < 2 ^ m" by (cases "x div 2 ^ m = 0") (auto simp: less_2_cases_iff)
  then show ?thesis by (simp add: bit_iff_odd not_less)
qed

lemma unat_and_mask: "unat (w AND mask n :: 'a::len word) = unat w mod 2 ^ n"
proof -
  have "w AND mask n = take_bit n w" by (simp only: take_bit_eq_mask)
  then show ?thesis by (simp only: unsigned_take_bit_eq) (rule take_bit_eq_mod)
qed

lemma bit_unat_iff: "bit (unat (w :: 'a::len word)) i \<longleftrightarrow> bit w i"
  using bit_imp_le_length [of w i] by (auto simp: bit_unsigned_iff)

lemma bit_less_of_unat_less:
  assumes "unat (c :: 'a::len word) < 2 ^ k" "bit c i"
  shows "i < k"
proof -
  have "take_bit k (unat c) = unat c" using assms(1) by (simp add: take_bit_nat_eq_self)
  moreover have "bit (unat c) i" using assms(2) by (simp add: bit_unat_iff)
  ultimately have "bit (take_bit k (unat c)) i" by simp
  then show ?thesis by (simp add: bit_take_bit_iff)
qed

lemma and_push_bit_one: "(w :: 'a::len word) AND push_bit p 1 \<noteq> 0 \<longleftrightarrow> bit w p"
  using and_exp_eq_0_iff_not_bit [of w p] by (simp add: push_bit_eq_mult)

lemma pow256: "(256::nat) ^ k = 2 ^ (8 * k)"
  by (simp add: power_mult)

section \<open>Short lists\<close>

lemma upt_numerals:
  "[0..<8] = [0, 1, 2, 3, 4, 5, 6, 7]"
  "[0..<16] = [0, 1, 2, 3, 4, 5, 6, 7, 8, 9, 10, 11, 12, 13, 14, 15]"
  by (simp_all add: upt_rec)

lemma replicate_numeral: "replicate (numeral k) x = x # replicate (pred_numeral k) x"
  by (simp add: numeral_eq_Suc)

lemma list_nth_eq:
  "length xs = 1 \<Longrightarrow> xs = [xs ! 0]"
  "length xs = 2 \<Longrightarrow> xs = [xs ! 0, xs ! 1]"
  "length xs = 3 \<Longrightarrow> xs = [xs ! 0, xs ! 1, xs ! 2]"
  "length xs = 5 \<Longrightarrow> xs = [xs ! 0, xs ! 1, xs ! 2, xs ! 3, xs ! 4]"
  "length xs = 8 \<Longrightarrow> xs = [xs ! 0, xs ! 1, xs ! 2, xs ! 3, xs ! 4, xs ! 5, xs ! 6, xs ! 7]"
  by (auto intro!: nth_equalityI simp: less_Suc_eq numeral_eq_Suc)

lemma concat_map_5:
  "length xs = 5 \<Longrightarrow> concat (map f xs) = f (xs ! 0) @ f (xs ! 1) @ f (xs ! 2) @ f (xs ! 3) @ f (xs ! 4)"
  by (subst list_nth_eq(4) [of xs]) simp_all

lemma concat_map_8:
  "length xs = 8 \<Longrightarrow> concat (map f xs) =
     f (xs ! 0) @ f (xs ! 1) @ f (xs ! 2) @ f (xs ! 3) @ f (xs ! 4) @ f (xs ! 5) @ f (xs ! 6) @ f (xs ! 7)"
  by (subst list_nth_eq(5) [of xs]) simp_all

end
