(* ===== verification/CryptoCommon.thy ===== *)
theory CryptoCommon
  imports Prelude
begin

text \<open>
  \<^verbatim>\<open>src/crypto/common.h\<close>: reading and writing fixed-width integers in a byte
  buffer. A pointer into a buffer is the list of bytes from that position on; a write yields the
  bytes stored.
\<close>

definition ReadLE16 :: "bytes \<Rightarrow> u16" where
  "ReadLE16 ptr = of_nat (le_val (take 2 ptr))"

definition ReadLE32 :: "bytes \<Rightarrow> u32" where
  "ReadLE32 ptr = of_nat (le_val (take 4 ptr))"

definition ReadLE64 :: "bytes \<Rightarrow> u64" where
  "ReadLE64 ptr = of_nat (le_val (take 8 ptr))"

definition WriteLE16 :: "u16 \<Rightarrow> bytes" where
  "WriteLE16 x = le_digits 2 (unat x)"

definition WriteLE32 :: "u32 \<Rightarrow> bytes" where
  "WriteLE32 x = le_digits 4 (unat x)"

definition WriteLE64 :: "u64 \<Rightarrow> bytes" where
  "WriteLE64 x = le_digits 8 (unat x)"

definition ReadBE32 :: "bytes \<Rightarrow> u32" where
  "ReadBE32 ptr = of_nat (le_val (rev (take 4 ptr)))"

definition ReadBE64 :: "bytes \<Rightarrow> u64" where
  "ReadBE64 ptr = of_nat (le_val (rev (take 8 ptr)))"

definition WriteBE32 :: "u32 \<Rightarrow> bytes" where
  "WriteBE32 x = rev (le_digits 4 (unat x))"

definition WriteBE64 :: "u64 \<Rightarrow> bytes" where
  "WriteBE64 x = rev (le_digits 8 (unat x))"

lemma length_Write [simp]:
  "length (WriteLE16 x16) = 2" "length (WriteLE32 x) = 4" "length (WriteLE64 x64) = 8"
  "length (WriteBE32 x) = 4" "length (WriteBE64 x64) = 8"
  by (simp_all add: WriteLE16_def WriteLE32_def WriteLE64_def WriteBE32_def WriteBE64_def)

lemma ReadLE_WriteLE [simp]:
  "ReadLE16 (WriteLE16 x16 @ r) = x16"
  "ReadLE32 (WriteLE32 x32 @ r) = x32"
  "ReadLE64 (WriteLE64 x64 @ r) = x64"
  by (simp_all add: ReadLE16_def WriteLE16_def ReadLE32_def WriteLE32_def ReadLE64_def WriteLE64_def
      le_val_digits word_unat_eq_iff unsigned_of_nat take_bit_eq_mod)

lemma ReadBE_WriteBE [simp]:
  "ReadBE32 (WriteBE32 x32 @ r) = x32"
  "ReadBE64 (WriteBE64 x64 @ r) = x64"
  by (simp_all add: ReadBE32_def WriteBE32_def ReadBE64_def WriteBE64_def
      le_val_digits word_unat_eq_iff unsigned_of_nat take_bit_eq_mod)

lemma unat_ReadLE32: "unat (ReadLE32 ptr) = le_val (take 4 ptr)"
proof -
  have "le_val (take 4 ptr) < 2 ^ (8 * length (take 4 ptr))" using le_val_bound [of "take 4 ptr"] by simp
  also have "\<dots> \<le> 2 ^ 32" by (rule power_increasing) simp_all
  finally show ?thesis by (simp add: ReadLE32_def unsigned_of_nat take_bit_eq_mod)
qed

lemma unat_ReadLE16: "unat (ReadLE16 ptr) = le_val (take 2 ptr)"
proof -
  have "le_val (take 2 ptr) < 2 ^ (8 * length (take 2 ptr))" using le_val_bound [of "take 2 ptr"] by simp
  also have "\<dots> \<le> 2 ^ 16" by (rule power_increasing) simp_all
  finally show ?thesis by (simp add: ReadLE16_def unsigned_of_nat take_bit_eq_mod)
qed

lemma WriteLE32_ReadLE32: "4 \<le> length ptr \<Longrightarrow> WriteLE32 (ReadLE32 ptr) = take 4 ptr"
  using le_digits_val [of "take 4 ptr"] by (simp add: WriteLE32_def unat_ReadLE32 min_absorb2)

end
