(* ===== verification/BlockHash.thy ===== *)
theory BlockHash
  imports CryptoCommon
begin

text \<open>
  What the hash classes of \<^verbatim>\<open>src/crypto\<close> have in common: a chaining state, a buffer
  that holds the bytes of an unfinished block, and a count of the bytes written. The body of
  \<open>Write\<close> is the same in \<^verbatim>\<open>sha1.cpp\<close>, \<^verbatim>\<open>ripemd160.cpp\<close> and
  \<^verbatim>\<open>sha512.cpp\<close>, up to the block size and the transformation, and is modelled once;
  \<^verbatim>\<open>sha256.cpp\<close> has its own. The locale \<open>block_hasher\<close> says what a \<open>Write\<close> has to
  be for the class to compute the iterated hash of all that was written, however it was split.
\<close>

section \<open>The hash object\<close>

text \<open>The buffer is uninitialised in the source until bytes are written; zeros stand for that.\<close>

record 'w hasher =
  hs :: "'w list"
  hbuf :: bytes
  hbytes :: u64

definition memcpy_at :: "bytes \<Rightarrow> nat \<Rightarrow> bytes \<Rightarrow> bytes" where
  "memcpy_at dst off src = take off dst @ src @ drop (off + length src) dst"

text \<open>The loop of \<open>Write\<close> over the full blocks of its argument.\<close>

function block_loop ::
  "nat \<Rightarrow> ('w list \<Rightarrow> bytes \<Rightarrow> 'w list) \<Rightarrow> 'w hasher \<Rightarrow> bytes \<Rightarrow> 'w hasher \<times> bytes" where
  "block_loop B f h data =
     (if 0 < B \<and> B \<le> length data
      then block_loop B f (h\<lparr>hs := f (hs h) data, hbytes := hbytes h + of_nat B\<rparr>) (drop B data)
      else (h, data))"
  by pat_completeness auto
termination
  by (relation "measure (\<lambda>(B, f, h, data). length data)") auto

declare block_loop.simps [simp del]

text \<open>The rest of \<open>Write\<close> once the buffer is dealt with: full blocks, then a copy of what remains.\<close>

definition block_tail ::
  "nat \<Rightarrow> ('w list \<Rightarrow> bytes \<Rightarrow> 'w list) \<Rightarrow> 'w hasher \<Rightarrow> bytes \<Rightarrow> nat \<Rightarrow> 'w hasher" where
  "block_tail B f h data bufsize =
     (let (h, data) = block_loop B f h data
      in if data \<noteq> []
         then h\<lparr>hbuf := memcpy_at (hbuf h) bufsize data, hbytes := hbytes h + of_nat (length data)\<rparr>
         else h)"

definition block_write ::
  "nat \<Rightarrow> ('w list \<Rightarrow> bytes \<Rightarrow> 'w list) \<Rightarrow> 'w hasher \<Rightarrow> bytes \<Rightarrow> 'w hasher" where
  "block_write B f h data =
     (let bufsize = unat (hbytes h) mod B;
          (h, data, bufsize) =
            (if bufsize \<noteq> 0 \<and> bufsize + length data \<ge> B
             then (let buf = memcpy_at (hbuf h) bufsize (take (B - bufsize) data)
                   in (h\<lparr>hbuf := buf, hbytes := hbytes h + of_nat (B - bufsize), hs := f (hs h) buf\<rparr>,
                       drop (B - bufsize) data, 0))
             else (h, data, bufsize))
      in block_tail B f h data bufsize)"

text \<open>The first \<open>n\<close> bytes of the padding array, a byte \<open>0x80\<close> and zeros.\<close>

definition pad_bytes :: "nat \<Rightarrow> bytes" where
  "pad_bytes n = take n (0x80 # replicate 127 0)"

section \<open>The iterated hash\<close>

text \<open>What the classes compute: the blocks of a message, one after the other, and what is left over.\<close>

function md_absorb :: "nat \<Rightarrow> ('w list \<Rightarrow> bytes \<Rightarrow> 'w list) \<Rightarrow> 'w list \<Rightarrow> bytes \<Rightarrow> 'w list" where
  "md_absorb B f s m =
     (if 0 < B \<and> B \<le> length m then md_absorb B f (f s (take B m)) (drop B m) else s)"
  by pat_completeness auto
termination
  by (relation "measure (\<lambda>(B, f, s, m). length m)") auto

declare md_absorb.simps [simp del]

definition md_rest :: "nat \<Rightarrow> bytes \<Rightarrow> bytes" where
  "md_rest B m = drop (B * (length m div B)) m"

text \<open>The padded message: \<open>0x80\<close>, as few zeros as fill a block with the length field, that field.\<close>

definition md_pad :: "nat \<Rightarrow> bytes \<Rightarrow> bytes \<Rightarrow> bytes" where
  "md_pad B lenfield m =
     m @ 0x80 # replicate ((B - (length m + 1 + length lenfield) mod B) mod B) 0 @ lenfield"

text \<open>The object stands for the bytes written so far.\<close>

definition hashed :: "nat \<Rightarrow> ('w list \<Rightarrow> bytes \<Rightarrow> 'w list) \<Rightarrow> 'w list \<Rightarrow> 'w hasher \<Rightarrow> bytes \<Rightarrow> bool" where
  "hashed B f iv h m \<longleftrightarrow>
     hs h = md_absorb B f iv m \<and> take (length m mod B) (hbuf h) = md_rest B m \<and>
     length (hbuf h) = B \<and> hbytes h = of_nat (length m)"

lemma md_absorb_short: "length m < B \<Longrightarrow> md_absorb B f s m = s"
  by (subst md_absorb.simps) simp

lemma md_absorb_step: "0 < B \<Longrightarrow> B \<le> length m \<Longrightarrow> md_absorb B f s m = md_absorb B f (f s (take B m)) (drop B m)"
  by (subst md_absorb.simps) simp

lemma length_md_rest: "length (md_rest B m) = length m mod B"
  by (simp add: md_rest_def minus_mult_div_eq_mod)

lemma md_rest_short: "length m < B \<Longrightarrow> md_rest B m = m"
  by (simp add: md_rest_def)

lemma md_rest_step: "0 < B \<Longrightarrow> B \<le> length m \<Longrightarrow> md_rest B (drop B m) = md_rest B m"
  by (simp add: md_rest_def le_div_geq [of B "length m"] add.commute)

lemma md_split:
  "0 < B \<Longrightarrow> md_absorb B f s (m @ d) = md_absorb B f (md_absorb B f s m) (md_rest B m @ d) \<and>
     md_rest B (m @ d) = md_rest B (md_rest B m @ d)"
proof (induction B f s m rule: md_absorb.induct)
  case (1 B f s m)
  show ?case
  proof (cases "B \<le> length m")
    case True
    have "md_absorb B f s (m @ d) = md_absorb B f (f s (take B m)) (drop B m @ d)"
      using True 1(2) by (subst md_absorb_step) simp_all
    moreover have "md_rest B (m @ d) = md_rest B (drop B m @ d)"
      using True 1(2) md_rest_step [of B "m @ d"] by simp
    ultimately show ?thesis using 1(1) True 1(2) by (simp add: md_absorb_step [of B m] md_rest_step)
  next
    case False
    then show ?thesis by (simp add: md_absorb_short md_rest_short)
  qed
qed

lemma block_loop_spec:
  assumes "0 < B" "\<And>s x. f s (take B x) = f s x"
  shows "block_loop B f h d =
    (h\<lparr>hs := md_absorb B f (hs h) d, hbytes := hbytes h + of_nat (B * (length d div B))\<rparr>, md_rest B d)"
  using assms
proof (induction B f h d rule: block_loop.induct)
  case (1 B f h d)
  show ?case
  proof (cases "B \<le> length d")
    case True
    then have "length d div B = Suc ((length d - B) div B)" using 1(2) by (simp add: le_div_geq)
    then show ?thesis using True 1 1(3) [of "hs h" d]
      by (subst block_loop.simps) (simp add: md_absorb_step [of B d] md_rest_step [symmetric] algebra_simps)
  next
    case False
    then show ?thesis by (subst block_loop.simps) (simp add: md_absorb_short md_rest_short)
  qed
qed

text \<open>Through the bindings of a transformation written out round by round.\<close>

lemma length_Let: "(\<And>x. length (f x) = n) \<Longrightarrow> length (Let v f) = n"
  by simp

lemma length_case_prod: "(\<And>a b. length (f a b) = n) \<Longrightarrow> length (case_prod f p) = n"
  by (cases p) simp

text \<open>The zeros the classes count, \<open>(2 B - k - bytes mod B) mod B\<close>, are the ones the padding needs.\<close>

lemma pad_count:
  fixes n k B :: nat
  assumes "0 < k" "k \<le> B"
  shows "(2 * B - k - n mod B) mod B = (B - (n + k) mod B) mod B"
proof -
  define r where "r = n mod B"
  have r: "r < B" using assms by (simp add: r_def)
  have "(n + k) mod B = (r + k) mod B" by (simp add: r_def mod_add_left_eq)
  moreover have "(2 * B - k - r) mod B = (B - (r + k) mod B) mod B"
  proof (cases "r + k < B")
    case True
    then have "2 * B - k - r = B + (B - (r + k))" by simp
    then have "(2 * B - k - r) mod B = (B - (r + k)) mod B" by (simp only: mod_add_self1)
    then show ?thesis using True by simp
  next
    case False
    then have "(r + k) mod B = r + k - B" using r assms by (simp add: le_mod_geq mod_if)
    moreover have "2 * B - k - r = B - (r + k - B)" using False r assms by simp
    ultimately show ?thesis by simp
  qed
  ultimately show ?thesis by (simp add: r_def)
qed

section \<open>The contract of a hash class\<close>

text \<open>
  A class with block size \<open>B\<close>, transformation \<open>f\<close>, initial state \<open>iv\<close>, and \<open>wr\<close> its
  \<open>Write\<close>: the transformation reads one block only, and \<open>Write\<close> buffers and transforms as
  \<open>block_write\<close> does.
\<close>

locale block_hasher =
  fixes B :: nat
    and f :: "'w list \<Rightarrow> bytes \<Rightarrow> 'w list"
    and iv :: "'w list"
    and wr :: "'w hasher \<Rightarrow> bytes \<Rightarrow> 'w hasher"
  assumes B_pos: "0 < B"
    and B_dvd: "B dvd 2 ^ 64"
    and f_block: "f s (take B x) = f s x"
    and wr_buffers: "length (hbuf h) = B \<Longrightarrow> wr h data = block_write B f h data"
begin

abbreviation stands_for :: "'w hasher \<Rightarrow> bytes \<Rightarrow> bool" where
  "stands_for \<equiv> hashed B f iv"

lemma bufsize: "hbytes h = of_nat (length m) \<Longrightarrow> unat (hbytes h) mod B = length m mod B"
  using B_dvd by (simp add: unat_of_nat_mod mod_mod_cancel)

lemma stands_for_init: "hs h = iv \<Longrightarrow> length (hbuf h) = B \<Longrightarrow> hbytes h = 0 \<Longrightarrow> stands_for h []"
  using B_pos by (simp add: hashed_def md_absorb_short md_rest_short)

lemma loop_spec: "block_loop B f h d =
    (h\<lparr>hs := md_absorb B f (hs h) d, hbytes := hbytes h + of_nat (B * (length d div B))\<rparr>, md_rest B d)"
  by (rule block_loop_spec) (simp_all add: B_pos f_block)

text \<open>From a block boundary, the loop and the last copy take in the whole argument.\<close>

lemma absorb_aligned:
  fixes h :: "'w hasher" and d :: bytes
  assumes "length (hbuf h) = B" "hbytes h = of_nat n" "B dvd n"
  defines "r \<equiv> block_tail B f h d 0"
  shows "hs r = md_absorb B f (hs h) d" "take (length d mod B) (hbuf r) = md_rest B d"
    "length (hbuf r) = B" "hbytes r = of_nat (n + length d)"
proof -
  define h' d' where "h' = fst (block_loop B f h d)" and "d' = snd (block_loop B f h d)"
  have r: "r = (if d' \<noteq> [] then h'\<lparr>hbuf := memcpy_at (hbuf h') 0 d', hbytes := hbytes h' + of_nat (length d')\<rparr> else h')"
    by (simp add: r_def h'_def d'_def block_tail_def case_prod_beta)
  have loop: "h' = h\<lparr>hs := md_absorb B f (hs h) d, hbytes := hbytes h + of_nat (B * (length d div B))\<rparr>"
    and rest: "d' = md_rest B d"
    by (simp_all add: h'_def d'_def loop_spec)
  have len: "length d' = length d mod B" "length d' < B" using B_pos by (simp_all add: rest length_md_rest)
  have bytes: "hbytes h' + of_nat (length d') = of_nat (n + length d)"
    unfolding loop len(1) using assms(2) by (simp flip: of_nat_add of_nat_mult add: add.assoc)
  show "hs r = md_absorb B f (hs h) d" by (simp add: r loop)
  show "take (length d mod B) (hbuf r) = md_rest B d"
    using len by (cases "d' = []") (auto simp: r rest memcpy_at_def)
  show "length (hbuf r) = B" using assms(1) len by (simp add: r loop memcpy_at_def)
  show "hbytes r = of_nat (n + length d)" using bytes by (cases "d' = []") (simp_all add: r)
qed

lemma stands_for_write:
  assumes "stands_for h m"
  shows "stands_for (wr h d) (m @ d)"
proof -
  from assms have h: "hs h = md_absorb B f iv m" "take (length m mod B) (hbuf h) = md_rest B m"
    "length (hbuf h) = B" "hbytes h = of_nat (length m)" by (simp_all add: hashed_def)
  let ?p = "md_rest B m" and ?b = "length m mod B"
  have lp: "length ?p = ?b" and bB: "?b < B" using B_pos by (simp_all add: length_md_rest)
  have sp: "md_absorb B f iv (m @ d) = md_absorb B f (hs h) (?p @ d)"
    "md_rest B (m @ d) = md_rest B (?p @ d)" using md_split [OF B_pos, of f iv m d] h(1) by simp_all
  have wr: "wr h d = block_write B f h d" by (rule wr_buffers [OF h(3)])
  have bs: "unat (hbytes h) mod B = ?b" by (rule bufsize [OF h(4)])
  consider (fill) "?b \<noteq> 0" "B \<le> ?b + length d" | (keep) "?b \<noteq> 0" "?b + length d < B" | (aligned) "?b = 0"
    by linarith
  then show ?thesis
  proof cases
    case fill
    define buf where "buf = memcpy_at (hbuf h) ?b (take (B - ?b) d)"
    define h1 where "h1 = h\<lparr>hbuf := buf, hbytes := hbytes h + of_nat (B - ?b), hs := f (hs h) buf\<rparr>"
    have buf: "buf = ?p @ take (B - ?b) d" using fill bB h(2,3) by (simp add: buf_def memcpy_at_def)
    have tk: "take B (?p @ d) = buf" "drop B (?p @ d) = drop (B - ?b) d" "B \<le> length (?p @ d)"
      using fill lp bB by (simp_all add: buf)
    have h1: "length (hbuf h1) = B" "hbytes h1 = of_nat (length m + (B - ?b))" "B dvd length m + (B - ?b)"
    proof -
      show "length (hbuf h1) = B" using fill bB lp by (simp add: h1_def buf)
      show "hbytes h1 = of_nat (length m + (B - ?b))" by (simp add: h1_def h(4))
      have "length m + (B - ?b) = B * (length m div B) + B"
        using bB mult_div_mod_eq [of B "length m"] by linarith
      then show "B dvd length m + (B - ?b)" by simp
    qed
    note al = absorb_aligned [OF h1, of "drop (B - ?b) d"]
    have ab: "md_absorb B f (hs h) (?p @ d) = md_absorb B f (hs h1) (drop (B - ?b) d)"
      unfolding md_absorb_step [OF B_pos tk(3)] tk by (simp add: h1_def)
    have rs: "md_rest B (?p @ d) = md_rest B (drop (B - ?b) d)"
      using md_rest_step [OF B_pos tk(3)] tk(2) by simp
    have ln: "length (drop (B - ?b) d) mod B = length (m @ d) mod B"
      using rs sp(2) length_md_rest [of B "drop (B - ?b) d"] length_md_rest [of B "m @ d"] by simp
    have nb: "length m + (B - ?b) + length (drop (B - ?b) d) = length (m @ d)" using fill bB by simp
    have "wr h d = block_tail B f h1 (drop (B - ?b) d) 0"
      using fill by (simp add: wr block_write_def bs Let_def flip: buf_def h1_def)
    then show ?thesis unfolding hashed_def sp ab rs
      using al(1,3) al(2) [unfolded ln] al(4) [unfolded nb] by simp
  next
    case keep
    have "length m + length d = B * (length m div B) + (?b + length d)"
      using div_mult_mod_eq [of "length m" B] by (simp add: mult.commute)
    then have md: "(length m + length d) mod B = ?b + length d"
      using keep(2) by (metis mod_less mod_mult_self4)
    have lt: "length (?p @ d) < B" using keep lp by simp
    have "wr h d = block_tail B f h d ?b" using keep by (simp add: wr block_write_def bs)
    also have "\<dots> = (if d \<noteq> [] then h\<lparr>hbuf := memcpy_at (hbuf h) ?b d, hbytes := hbytes h + of_nat (length d)\<rparr> else h)"
      using keep by (simp add: block_tail_def block_loop.simps)
    finally have w: "wr h d = \<dots>" .
    show ?thesis unfolding hashed_def sp w md_absorb_short [OF lt] md_rest_short [OF lt] length_append md
      using keep(2) lp h by (cases "d = []") (simp_all add: memcpy_at_def)
  next
    case aligned
    then have dv: "B dvd length m" and p: "?p = []" using lp by (auto simp: dvd_eq_mod_eq_0)
    have "wr h d = block_tail B f h d 0" using aligned by (simp add: wr block_write_def bs)
    moreover have "length (m @ d) mod B = length d mod B" using dv by (auto simp: dvd_def)
    ultimately show ?thesis unfolding hashed_def sp p using absorb_aligned [OF h(3,4) dv, of d] by simp
  qed
qed

lemma stands_for_writes: "stands_for h m \<Longrightarrow> stands_for (foldl wr h ds) (m @ concat ds)"
  by (induction ds arbitrary: h m) (simp_all add: stands_for_write flip: append_assoc)

lemma stands_for_padded:
  assumes "stands_for h m" "n = 1 + (B - (length m + 1 + length lenfield) mod B) mod B" "B \<le> 128"
  shows "hs (wr (wr h (pad_bytes n)) lenfield) = md_absorb B f iv (md_pad B lenfield m)"
proof -
  have "pad_bytes n = 0x80 # replicate (n - 1) 0"
  proof -
    have "(B - (length m + 1 + length lenfield) mod B) mod B < B" using B_pos by simp
    then have "n - 1 \<le> 127" using assms(2,3) by simp
    then show ?thesis using assms(2) by (simp add: pad_bytes_def min_def)
  qed
  then have "m @ pad_bytes n @ lenfield = md_pad B lenfield m" using assms(2) by (simp add: md_pad_def)
  moreover have "stands_for (wr (wr h (pad_bytes n)) lenfield) ((m @ pad_bytes n) @ lenfield)"
    by (intro stands_for_write assms(1))
  ultimately show ?thesis by (simp add: hashed_def)
qed

end

end
