(* ===== verification/Sha256.thy ===== *)
theory Sha256
  imports BlockHash
begin

text \<open>
  \<^verbatim>\<open>src/crypto/sha256.cpp\<close>: the portable SHA-256. \<open>Transform\<close> and
  \<open>TransformD64\<close> are written out round by round in the source and here; they are compared with
  the compression function of FIPS 180-4. The vectorised routines that the program may select at
  start-up (SSE4, AVX2, SHA-NI) are assembler and intrinsics and are not modelled.
\<close>

section \<open>Rounds\<close>

definition sha256_Ch :: "u32 \<Rightarrow> u32 \<Rightarrow> u32 \<Rightarrow> u32" where
  "sha256_Ch x y z = z XOR (x AND (y XOR z))"

definition sha256_Maj :: "u32 \<Rightarrow> u32 \<Rightarrow> u32 \<Rightarrow> u32" where
  "sha256_Maj x y z = (x AND y) OR (z AND (x OR y))"

definition sha256_Sigma0 :: "u32 \<Rightarrow> u32" where
  "sha256_Sigma0 x = (drop_bit 2 x OR push_bit 30 x) XOR (drop_bit 13 x OR push_bit 19 x) XOR (drop_bit 22 x OR push_bit 10 x)"

definition sha256_Sigma1 :: "u32 \<Rightarrow> u32" where
  "sha256_Sigma1 x = (drop_bit 6 x OR push_bit 26 x) XOR (drop_bit 11 x OR push_bit 21 x) XOR (drop_bit 25 x OR push_bit 7 x)"

definition sha256_sigma0 :: "u32 \<Rightarrow> u32" where
  "sha256_sigma0 x = (drop_bit 7 x OR push_bit 25 x) XOR (drop_bit 18 x OR push_bit 14 x) XOR drop_bit 3 x"

definition sha256_sigma1 :: "u32 \<Rightarrow> u32" where
  "sha256_sigma1 x = (drop_bit 17 x OR push_bit 15 x) XOR (drop_bit 19 x OR push_bit 13 x) XOR drop_bit 10 x"

text \<open>One round: the new values of the two reference arguments, \<open>d\<close> and \<open>h\<close>.\<close>

definition sha256_Round ::
  "u32 \<Rightarrow> u32 \<Rightarrow> u32 \<Rightarrow> u32 \<Rightarrow> u32 \<Rightarrow> u32 \<Rightarrow> u32 \<Rightarrow> u32 \<Rightarrow> u32 \<Rightarrow> u32 \<times> u32" where
  "sha256_Round a b c d e f g h k =
     (let t1 = h + sha256_Sigma1 e + sha256_Ch e f g + k;
          t2 = sha256_Sigma0 a + sha256_Maj a b c
      in (d + t1, t1 + t2))"

definition sha256_Initialize :: "u32 list" where
  "sha256_Initialize =
     [0x6a09e667, 0xbb67ae85, 0x3c6ef372, 0xa54ff53a, 0x510e527f, 0x9b05688c, 0x1f83d9ab, 0x5be0cd19]"

text \<open>The body of the loop of \<open>Transform\<close>: one block of 64 bytes.\<close>

definition sha256_block :: "u32 list \<Rightarrow> bytes \<Rightarrow> u32 list" where
  "sha256_block s chunk =
     (let a = s ! 0; b = s ! 1; c = s ! 2; d = s ! 3; e = s ! 4; f = s ! 5; g = s ! 6; h = s ! 7;
          w0 = ReadBE32 chunk;
          (d, h) = sha256_Round a b c d e f g h (0x428a2f98 + w0);
          w1 = ReadBE32 (drop 4 chunk);
          (c, g) = sha256_Round h a b c d e f g (0x71374491 + w1);
          w2 = ReadBE32 (drop 8 chunk);
          (b, f) = sha256_Round g h a b c d e f (0xb5c0fbcf + w2);
          w3 = ReadBE32 (drop 12 chunk);
          (a, e) = sha256_Round f g h a b c d e (0xe9b5dba5 + w3);
          w4 = ReadBE32 (drop 16 chunk);
          (h, d) = sha256_Round e f g h a b c d (0x3956c25b + w4);
          w5 = ReadBE32 (drop 20 chunk);
          (g, c) = sha256_Round d e f g h a b c (0x59f111f1 + w5);
          w6 = ReadBE32 (drop 24 chunk);
          (f, b) = sha256_Round c d e f g h a b (0x923f82a4 + w6);
          w7 = ReadBE32 (drop 28 chunk);
          (e, a) = sha256_Round b c d e f g h a (0xab1c5ed5 + w7);
          w8 = ReadBE32 (drop 32 chunk);
          (d, h) = sha256_Round a b c d e f g h (0xd807aa98 + w8);
          w9 = ReadBE32 (drop 36 chunk);
          (c, g) = sha256_Round h a b c d e f g (0x12835b01 + w9);
          w10 = ReadBE32 (drop 40 chunk);
          (b, f) = sha256_Round g h a b c d e f (0x243185be + w10);
          w11 = ReadBE32 (drop 44 chunk);
          (a, e) = sha256_Round f g h a b c d e (0x550c7dc3 + w11);
          w12 = ReadBE32 (drop 48 chunk);
          (h, d) = sha256_Round e f g h a b c d (0x72be5d74 + w12);
          w13 = ReadBE32 (drop 52 chunk);
          (g, c) = sha256_Round d e f g h a b c (0x80deb1fe + w13);
          w14 = ReadBE32 (drop 56 chunk);
          (f, b) = sha256_Round c d e f g h a b (0x9bdc06a7 + w14);
          w15 = ReadBE32 (drop 60 chunk);
          (e, a) = sha256_Round b c d e f g h a (0xc19bf174 + w15);
          w0 = w0 + (sha256_sigma1 w14 + w9 + sha256_sigma0 w1);
          (d, h) = sha256_Round a b c d e f g h (0xe49b69c1 + w0);
          w1 = w1 + (sha256_sigma1 w15 + w10 + sha256_sigma0 w2);
          (c, g) = sha256_Round h a b c d e f g (0xefbe4786 + w1);
          w2 = w2 + (sha256_sigma1 w0 + w11 + sha256_sigma0 w3);
          (b, f) = sha256_Round g h a b c d e f (0x0fc19dc6 + w2);
          w3 = w3 + (sha256_sigma1 w1 + w12 + sha256_sigma0 w4);
          (a, e) = sha256_Round f g h a b c d e (0x240ca1cc + w3);
          w4 = w4 + (sha256_sigma1 w2 + w13 + sha256_sigma0 w5);
          (h, d) = sha256_Round e f g h a b c d (0x2de92c6f + w4);
          w5 = w5 + (sha256_sigma1 w3 + w14 + sha256_sigma0 w6);
          (g, c) = sha256_Round d e f g h a b c (0x4a7484aa + w5);
          w6 = w6 + (sha256_sigma1 w4 + w15 + sha256_sigma0 w7);
          (f, b) = sha256_Round c d e f g h a b (0x5cb0a9dc + w6);
          w7 = w7 + (sha256_sigma1 w5 + w0 + sha256_sigma0 w8);
          (e, a) = sha256_Round b c d e f g h a (0x76f988da + w7);
          w8 = w8 + (sha256_sigma1 w6 + w1 + sha256_sigma0 w9);
          (d, h) = sha256_Round a b c d e f g h (0x983e5152 + w8);
          w9 = w9 + (sha256_sigma1 w7 + w2 + sha256_sigma0 w10);
          (c, g) = sha256_Round h a b c d e f g (0xa831c66d + w9);
          w10 = w10 + (sha256_sigma1 w8 + w3 + sha256_sigma0 w11);
          (b, f) = sha256_Round g h a b c d e f (0xb00327c8 + w10);
          w11 = w11 + (sha256_sigma1 w9 + w4 + sha256_sigma0 w12);
          (a, e) = sha256_Round f g h a b c d e (0xbf597fc7 + w11);
          w12 = w12 + (sha256_sigma1 w10 + w5 + sha256_sigma0 w13);
          (h, d) = sha256_Round e f g h a b c d (0xc6e00bf3 + w12);
          w13 = w13 + (sha256_sigma1 w11 + w6 + sha256_sigma0 w14);
          (g, c) = sha256_Round d e f g h a b c (0xd5a79147 + w13);
          w14 = w14 + (sha256_sigma1 w12 + w7 + sha256_sigma0 w15);
          (f, b) = sha256_Round c d e f g h a b (0x06ca6351 + w14);
          w15 = w15 + (sha256_sigma1 w13 + w8 + sha256_sigma0 w0);
          (e, a) = sha256_Round b c d e f g h a (0x14292967 + w15);
          w0 = w0 + (sha256_sigma1 w14 + w9 + sha256_sigma0 w1);
          (d, h) = sha256_Round a b c d e f g h (0x27b70a85 + w0);
          w1 = w1 + (sha256_sigma1 w15 + w10 + sha256_sigma0 w2);
          (c, g) = sha256_Round h a b c d e f g (0x2e1b2138 + w1);
          w2 = w2 + (sha256_sigma1 w0 + w11 + sha256_sigma0 w3);
          (b, f) = sha256_Round g h a b c d e f (0x4d2c6dfc + w2);
          w3 = w3 + (sha256_sigma1 w1 + w12 + sha256_sigma0 w4);
          (a, e) = sha256_Round f g h a b c d e (0x53380d13 + w3);
          w4 = w4 + (sha256_sigma1 w2 + w13 + sha256_sigma0 w5);
          (h, d) = sha256_Round e f g h a b c d (0x650a7354 + w4);
          w5 = w5 + (sha256_sigma1 w3 + w14 + sha256_sigma0 w6);
          (g, c) = sha256_Round d e f g h a b c (0x766a0abb + w5);
          w6 = w6 + (sha256_sigma1 w4 + w15 + sha256_sigma0 w7);
          (f, b) = sha256_Round c d e f g h a b (0x81c2c92e + w6);
          w7 = w7 + (sha256_sigma1 w5 + w0 + sha256_sigma0 w8);
          (e, a) = sha256_Round b c d e f g h a (0x92722c85 + w7);
          w8 = w8 + (sha256_sigma1 w6 + w1 + sha256_sigma0 w9);
          (d, h) = sha256_Round a b c d e f g h (0xa2bfe8a1 + w8);
          w9 = w9 + (sha256_sigma1 w7 + w2 + sha256_sigma0 w10);
          (c, g) = sha256_Round h a b c d e f g (0xa81a664b + w9);
          w10 = w10 + (sha256_sigma1 w8 + w3 + sha256_sigma0 w11);
          (b, f) = sha256_Round g h a b c d e f (0xc24b8b70 + w10);
          w11 = w11 + (sha256_sigma1 w9 + w4 + sha256_sigma0 w12);
          (a, e) = sha256_Round f g h a b c d e (0xc76c51a3 + w11);
          w12 = w12 + (sha256_sigma1 w10 + w5 + sha256_sigma0 w13);
          (h, d) = sha256_Round e f g h a b c d (0xd192e819 + w12);
          w13 = w13 + (sha256_sigma1 w11 + w6 + sha256_sigma0 w14);
          (g, c) = sha256_Round d e f g h a b c (0xd6990624 + w13);
          w14 = w14 + (sha256_sigma1 w12 + w7 + sha256_sigma0 w15);
          (f, b) = sha256_Round c d e f g h a b (0xf40e3585 + w14);
          w15 = w15 + (sha256_sigma1 w13 + w8 + sha256_sigma0 w0);
          (e, a) = sha256_Round b c d e f g h a (0x106aa070 + w15);
          w0 = w0 + (sha256_sigma1 w14 + w9 + sha256_sigma0 w1);
          (d, h) = sha256_Round a b c d e f g h (0x19a4c116 + w0);
          w1 = w1 + (sha256_sigma1 w15 + w10 + sha256_sigma0 w2);
          (c, g) = sha256_Round h a b c d e f g (0x1e376c08 + w1);
          w2 = w2 + (sha256_sigma1 w0 + w11 + sha256_sigma0 w3);
          (b, f) = sha256_Round g h a b c d e f (0x2748774c + w2);
          w3 = w3 + (sha256_sigma1 w1 + w12 + sha256_sigma0 w4);
          (a, e) = sha256_Round f g h a b c d e (0x34b0bcb5 + w3);
          w4 = w4 + (sha256_sigma1 w2 + w13 + sha256_sigma0 w5);
          (h, d) = sha256_Round e f g h a b c d (0x391c0cb3 + w4);
          w5 = w5 + (sha256_sigma1 w3 + w14 + sha256_sigma0 w6);
          (g, c) = sha256_Round d e f g h a b c (0x4ed8aa4a + w5);
          w6 = w6 + (sha256_sigma1 w4 + w15 + sha256_sigma0 w7);
          (f, b) = sha256_Round c d e f g h a b (0x5b9cca4f + w6);
          w7 = w7 + (sha256_sigma1 w5 + w0 + sha256_sigma0 w8);
          (e, a) = sha256_Round b c d e f g h a (0x682e6ff3 + w7);
          w8 = w8 + (sha256_sigma1 w6 + w1 + sha256_sigma0 w9);
          (d, h) = sha256_Round a b c d e f g h (0x748f82ee + w8);
          w9 = w9 + (sha256_sigma1 w7 + w2 + sha256_sigma0 w10);
          (c, g) = sha256_Round h a b c d e f g (0x78a5636f + w9);
          w10 = w10 + (sha256_sigma1 w8 + w3 + sha256_sigma0 w11);
          (b, f) = sha256_Round g h a b c d e f (0x84c87814 + w10);
          w11 = w11 + (sha256_sigma1 w9 + w4 + sha256_sigma0 w12);
          (a, e) = sha256_Round f g h a b c d e (0x8cc70208 + w11);
          w12 = w12 + (sha256_sigma1 w10 + w5 + sha256_sigma0 w13);
          (h, d) = sha256_Round e f g h a b c d (0x90befffa + w12);
          w13 = w13 + (sha256_sigma1 w11 + w6 + sha256_sigma0 w14);
          (g, c) = sha256_Round d e f g h a b c (0xa4506ceb + w13);
          (f, b) = sha256_Round c d e f g h a b (0xbef9a3f7 + (w14 + sha256_sigma1 w12 + w7 + sha256_sigma0 w15));
          (e, a) = sha256_Round b c d e f g h a (0xc67178f2 + (w15 + sha256_sigma1 w13 + w8 + sha256_sigma0 w0))
      in [s ! 0 + a, s ! 1 + b, s ! 2 + c, s ! 3 + d, s ! 4 + e, s ! 5 + f, s ! 6 + g, s ! 7 + h])"

fun sha256_Transform :: "u32 list \<Rightarrow> bytes \<Rightarrow> nat \<Rightarrow> u32 list" where
  "sha256_Transform s chunk 0 = s"
| "sha256_Transform s chunk (Suc blocks) = sha256_Transform (sha256_block s chunk) (drop 64 chunk) blocks"

text \<open>
  \<open>TransformD64\<close>, the double hash of a 64-byte block, is three blocks of rounds written out; the
  second and the third have the padding's share of the message schedule folded into constants.
\<close>

definition sha256_D64_1 :: "bytes \<Rightarrow> u32 list" where
  "sha256_D64_1 inp =
     (let a = 0x6a09e667; b = 0xbb67ae85; c = 0x3c6ef372; d = 0xa54ff53a; e = 0x510e527f; f = 0x9b05688c; g = 0x1f83d9ab; h = 0x5be0cd19;
          w0 = ReadBE32 inp;
          (d, h) = sha256_Round a b c d e f g h (0x428a2f98 + w0);
          w1 = ReadBE32 (drop 4 inp);
          (c, g) = sha256_Round h a b c d e f g (0x71374491 + w1);
          w2 = ReadBE32 (drop 8 inp);
          (b, f) = sha256_Round g h a b c d e f (0xb5c0fbcf + w2);
          w3 = ReadBE32 (drop 12 inp);
          (a, e) = sha256_Round f g h a b c d e (0xe9b5dba5 + w3);
          w4 = ReadBE32 (drop 16 inp);
          (h, d) = sha256_Round e f g h a b c d (0x3956c25b + w4);
          w5 = ReadBE32 (drop 20 inp);
          (g, c) = sha256_Round d e f g h a b c (0x59f111f1 + w5);
          w6 = ReadBE32 (drop 24 inp);
          (f, b) = sha256_Round c d e f g h a b (0x923f82a4 + w6);
          w7 = ReadBE32 (drop 28 inp);
          (e, a) = sha256_Round b c d e f g h a (0xab1c5ed5 + w7);
          w8 = ReadBE32 (drop 32 inp);
          (d, h) = sha256_Round a b c d e f g h (0xd807aa98 + w8);
          w9 = ReadBE32 (drop 36 inp);
          (c, g) = sha256_Round h a b c d e f g (0x12835b01 + w9);
          w10 = ReadBE32 (drop 40 inp);
          (b, f) = sha256_Round g h a b c d e f (0x243185be + w10);
          w11 = ReadBE32 (drop 44 inp);
          (a, e) = sha256_Round f g h a b c d e (0x550c7dc3 + w11);
          w12 = ReadBE32 (drop 48 inp);
          (h, d) = sha256_Round e f g h a b c d (0x72be5d74 + w12);
          w13 = ReadBE32 (drop 52 inp);
          (g, c) = sha256_Round d e f g h a b c (0x80deb1fe + w13);
          w14 = ReadBE32 (drop 56 inp);
          (f, b) = sha256_Round c d e f g h a b (0x9bdc06a7 + w14);
          w15 = ReadBE32 (drop 60 inp);
          (e, a) = sha256_Round b c d e f g h a (0xc19bf174 + w15);
          w0 = w0 + (sha256_sigma1 w14 + w9 + sha256_sigma0 w1);
          (d, h) = sha256_Round a b c d e f g h (0xe49b69c1 + w0);
          w1 = w1 + (sha256_sigma1 w15 + w10 + sha256_sigma0 w2);
          (c, g) = sha256_Round h a b c d e f g (0xefbe4786 + w1);
          w2 = w2 + (sha256_sigma1 w0 + w11 + sha256_sigma0 w3);
          (b, f) = sha256_Round g h a b c d e f (0x0fc19dc6 + w2);
          w3 = w3 + (sha256_sigma1 w1 + w12 + sha256_sigma0 w4);
          (a, e) = sha256_Round f g h a b c d e (0x240ca1cc + w3);
          w4 = w4 + (sha256_sigma1 w2 + w13 + sha256_sigma0 w5);
          (h, d) = sha256_Round e f g h a b c d (0x2de92c6f + w4);
          w5 = w5 + (sha256_sigma1 w3 + w14 + sha256_sigma0 w6);
          (g, c) = sha256_Round d e f g h a b c (0x4a7484aa + w5);
          w6 = w6 + (sha256_sigma1 w4 + w15 + sha256_sigma0 w7);
          (f, b) = sha256_Round c d e f g h a b (0x5cb0a9dc + w6);
          w7 = w7 + (sha256_sigma1 w5 + w0 + sha256_sigma0 w8);
          (e, a) = sha256_Round b c d e f g h a (0x76f988da + w7);
          w8 = w8 + (sha256_sigma1 w6 + w1 + sha256_sigma0 w9);
          (d, h) = sha256_Round a b c d e f g h (0x983e5152 + w8);
          w9 = w9 + (sha256_sigma1 w7 + w2 + sha256_sigma0 w10);
          (c, g) = sha256_Round h a b c d e f g (0xa831c66d + w9);
          w10 = w10 + (sha256_sigma1 w8 + w3 + sha256_sigma0 w11);
          (b, f) = sha256_Round g h a b c d e f (0xb00327c8 + w10);
          w11 = w11 + (sha256_sigma1 w9 + w4 + sha256_sigma0 w12);
          (a, e) = sha256_Round f g h a b c d e (0xbf597fc7 + w11);
          w12 = w12 + (sha256_sigma1 w10 + w5 + sha256_sigma0 w13);
          (h, d) = sha256_Round e f g h a b c d (0xc6e00bf3 + w12);
          w13 = w13 + (sha256_sigma1 w11 + w6 + sha256_sigma0 w14);
          (g, c) = sha256_Round d e f g h a b c (0xd5a79147 + w13);
          w14 = w14 + (sha256_sigma1 w12 + w7 + sha256_sigma0 w15);
          (f, b) = sha256_Round c d e f g h a b (0x06ca6351 + w14);
          w15 = w15 + (sha256_sigma1 w13 + w8 + sha256_sigma0 w0);
          (e, a) = sha256_Round b c d e f g h a (0x14292967 + w15);
          w0 = w0 + (sha256_sigma1 w14 + w9 + sha256_sigma0 w1);
          (d, h) = sha256_Round a b c d e f g h (0x27b70a85 + w0);
          w1 = w1 + (sha256_sigma1 w15 + w10 + sha256_sigma0 w2);
          (c, g) = sha256_Round h a b c d e f g (0x2e1b2138 + w1);
          w2 = w2 + (sha256_sigma1 w0 + w11 + sha256_sigma0 w3);
          (b, f) = sha256_Round g h a b c d e f (0x4d2c6dfc + w2);
          w3 = w3 + (sha256_sigma1 w1 + w12 + sha256_sigma0 w4);
          (a, e) = sha256_Round f g h a b c d e (0x53380d13 + w3);
          w4 = w4 + (sha256_sigma1 w2 + w13 + sha256_sigma0 w5);
          (h, d) = sha256_Round e f g h a b c d (0x650a7354 + w4);
          w5 = w5 + (sha256_sigma1 w3 + w14 + sha256_sigma0 w6);
          (g, c) = sha256_Round d e f g h a b c (0x766a0abb + w5);
          w6 = w6 + (sha256_sigma1 w4 + w15 + sha256_sigma0 w7);
          (f, b) = sha256_Round c d e f g h a b (0x81c2c92e + w6);
          w7 = w7 + (sha256_sigma1 w5 + w0 + sha256_sigma0 w8);
          (e, a) = sha256_Round b c d e f g h a (0x92722c85 + w7);
          w8 = w8 + (sha256_sigma1 w6 + w1 + sha256_sigma0 w9);
          (d, h) = sha256_Round a b c d e f g h (0xa2bfe8a1 + w8);
          w9 = w9 + (sha256_sigma1 w7 + w2 + sha256_sigma0 w10);
          (c, g) = sha256_Round h a b c d e f g (0xa81a664b + w9);
          w10 = w10 + (sha256_sigma1 w8 + w3 + sha256_sigma0 w11);
          (b, f) = sha256_Round g h a b c d e f (0xc24b8b70 + w10);
          w11 = w11 + (sha256_sigma1 w9 + w4 + sha256_sigma0 w12);
          (a, e) = sha256_Round f g h a b c d e (0xc76c51a3 + w11);
          w12 = w12 + (sha256_sigma1 w10 + w5 + sha256_sigma0 w13);
          (h, d) = sha256_Round e f g h a b c d (0xd192e819 + w12);
          w13 = w13 + (sha256_sigma1 w11 + w6 + sha256_sigma0 w14);
          (g, c) = sha256_Round d e f g h a b c (0xd6990624 + w13);
          w14 = w14 + (sha256_sigma1 w12 + w7 + sha256_sigma0 w15);
          (f, b) = sha256_Round c d e f g h a b (0xf40e3585 + w14);
          w15 = w15 + (sha256_sigma1 w13 + w8 + sha256_sigma0 w0);
          (e, a) = sha256_Round b c d e f g h a (0x106aa070 + w15);
          w0 = w0 + (sha256_sigma1 w14 + w9 + sha256_sigma0 w1);
          (d, h) = sha256_Round a b c d e f g h (0x19a4c116 + w0);
          w1 = w1 + (sha256_sigma1 w15 + w10 + sha256_sigma0 w2);
          (c, g) = sha256_Round h a b c d e f g (0x1e376c08 + w1);
          w2 = w2 + (sha256_sigma1 w0 + w11 + sha256_sigma0 w3);
          (b, f) = sha256_Round g h a b c d e f (0x2748774c + w2);
          w3 = w3 + (sha256_sigma1 w1 + w12 + sha256_sigma0 w4);
          (a, e) = sha256_Round f g h a b c d e (0x34b0bcb5 + w3);
          w4 = w4 + (sha256_sigma1 w2 + w13 + sha256_sigma0 w5);
          (h, d) = sha256_Round e f g h a b c d (0x391c0cb3 + w4);
          w5 = w5 + (sha256_sigma1 w3 + w14 + sha256_sigma0 w6);
          (g, c) = sha256_Round d e f g h a b c (0x4ed8aa4a + w5);
          w6 = w6 + (sha256_sigma1 w4 + w15 + sha256_sigma0 w7);
          (f, b) = sha256_Round c d e f g h a b (0x5b9cca4f + w6);
          w7 = w7 + (sha256_sigma1 w5 + w0 + sha256_sigma0 w8);
          (e, a) = sha256_Round b c d e f g h a (0x682e6ff3 + w7);
          w8 = w8 + (sha256_sigma1 w6 + w1 + sha256_sigma0 w9);
          (d, h) = sha256_Round a b c d e f g h (0x748f82ee + w8);
          w9 = w9 + (sha256_sigma1 w7 + w2 + sha256_sigma0 w10);
          (c, g) = sha256_Round h a b c d e f g (0x78a5636f + w9);
          w10 = w10 + (sha256_sigma1 w8 + w3 + sha256_sigma0 w11);
          (b, f) = sha256_Round g h a b c d e f (0x84c87814 + w10);
          w11 = w11 + (sha256_sigma1 w9 + w4 + sha256_sigma0 w12);
          (a, e) = sha256_Round f g h a b c d e (0x8cc70208 + w11);
          w12 = w12 + (sha256_sigma1 w10 + w5 + sha256_sigma0 w13);
          (h, d) = sha256_Round e f g h a b c d (0x90befffa + w12);
          w13 = w13 + (sha256_sigma1 w11 + w6 + sha256_sigma0 w14);
          (g, c) = sha256_Round d e f g h a b c (0xa4506ceb + w13);
          (f, b) = sha256_Round c d e f g h a b (0xbef9a3f7 + (w14 + sha256_sigma1 w12 + w7 + sha256_sigma0 w15));
          (e, a) = sha256_Round b c d e f g h a (0xc67178f2 + (w15 + sha256_sigma1 w13 + w8 + sha256_sigma0 w0))
      in [a + 0x6a09e667, b + 0xbb67ae85, c + 0x3c6ef372, d + 0xa54ff53a, e + 0x510e527f, f + 0x9b05688c, g + 0x1f83d9ab, h + 0x5be0cd19])"

definition sha256_D64_2 :: "u32 list \<Rightarrow> u32 list" where
  "sha256_D64_2 t =
     (let a = t ! 0; b = t ! 1; c = t ! 2; d = t ! 3; e = t ! 4; f = t ! 5; g = t ! 6; h = t ! 7;
          (d, h) = sha256_Round a b c d e f g h 0xc28a2f98;
          (c, g) = sha256_Round h a b c d e f g 0x71374491;
          (b, f) = sha256_Round g h a b c d e f 0xb5c0fbcf;
          (a, e) = sha256_Round f g h a b c d e 0xe9b5dba5;
          (h, d) = sha256_Round e f g h a b c d 0x3956c25b;
          (g, c) = sha256_Round d e f g h a b c 0x59f111f1;
          (f, b) = sha256_Round c d e f g h a b 0x923f82a4;
          (e, a) = sha256_Round b c d e f g h a 0xab1c5ed5;
          (d, h) = sha256_Round a b c d e f g h 0xd807aa98;
          (c, g) = sha256_Round h a b c d e f g 0x12835b01;
          (b, f) = sha256_Round g h a b c d e f 0x243185be;
          (a, e) = sha256_Round f g h a b c d e 0x550c7dc3;
          (h, d) = sha256_Round e f g h a b c d 0x72be5d74;
          (g, c) = sha256_Round d e f g h a b c 0x80deb1fe;
          (f, b) = sha256_Round c d e f g h a b 0x9bdc06a7;
          (e, a) = sha256_Round b c d e f g h a 0xc19bf374;
          (d, h) = sha256_Round a b c d e f g h 0x649b69c1;
          (c, g) = sha256_Round h a b c d e f g 0xf0fe4786;
          (b, f) = sha256_Round g h a b c d e f 0x0fe1edc6;
          (a, e) = sha256_Round f g h a b c d e 0x240cf254;
          (h, d) = sha256_Round e f g h a b c d 0x4fe9346f;
          (g, c) = sha256_Round d e f g h a b c 0x6cc984be;
          (f, b) = sha256_Round c d e f g h a b 0x61b9411e;
          (e, a) = sha256_Round b c d e f g h a 0x16f988fa;
          (d, h) = sha256_Round a b c d e f g h 0xf2c65152;
          (c, g) = sha256_Round h a b c d e f g 0xa88e5a6d;
          (b, f) = sha256_Round g h a b c d e f 0xb019fc65;
          (a, e) = sha256_Round f g h a b c d e 0xb9d99ec7;
          (h, d) = sha256_Round e f g h a b c d 0x9a1231c3;
          (g, c) = sha256_Round d e f g h a b c 0xe70eeaa0;
          (f, b) = sha256_Round c d e f g h a b 0xfdb1232b;
          (e, a) = sha256_Round b c d e f g h a 0xc7353eb0;
          (d, h) = sha256_Round a b c d e f g h 0x3069bad5;
          (c, g) = sha256_Round h a b c d e f g 0xcb976d5f;
          (b, f) = sha256_Round g h a b c d e f 0x5a0f118f;
          (a, e) = sha256_Round f g h a b c d e 0xdc1eeefd;
          (h, d) = sha256_Round e f g h a b c d 0x0a35b689;
          (g, c) = sha256_Round d e f g h a b c 0xde0b7a04;
          (f, b) = sha256_Round c d e f g h a b 0x58f4ca9d;
          (e, a) = sha256_Round b c d e f g h a 0xe15d5b16;
          (d, h) = sha256_Round a b c d e f g h 0x007f3e86;
          (c, g) = sha256_Round h a b c d e f g 0x37088980;
          (b, f) = sha256_Round g h a b c d e f 0xa507ea32;
          (a, e) = sha256_Round f g h a b c d e 0x6fab9537;
          (h, d) = sha256_Round e f g h a b c d 0x17406110;
          (g, c) = sha256_Round d e f g h a b c 0x0d8cd6f1;
          (f, b) = sha256_Round c d e f g h a b 0xcdaa3b6d;
          (e, a) = sha256_Round b c d e f g h a 0xc0bbbe37;
          (d, h) = sha256_Round a b c d e f g h 0x83613bda;
          (c, g) = sha256_Round h a b c d e f g 0xdb48a363;
          (b, f) = sha256_Round g h a b c d e f 0x0b02e931;
          (a, e) = sha256_Round f g h a b c d e 0x6fd15ca7;
          (h, d) = sha256_Round e f g h a b c d 0x521afaca;
          (g, c) = sha256_Round d e f g h a b c 0x31338431;
          (f, b) = sha256_Round c d e f g h a b 0x6ed41a95;
          (e, a) = sha256_Round b c d e f g h a 0x6d437890;
          (d, h) = sha256_Round a b c d e f g h 0xc39c91f2;
          (c, g) = sha256_Round h a b c d e f g 0x9eccabbd;
          (b, f) = sha256_Round g h a b c d e f 0xb5c9a0e6;
          (a, e) = sha256_Round f g h a b c d e 0x532fb63c;
          (h, d) = sha256_Round e f g h a b c d 0xd2c741c6;
          (g, c) = sha256_Round d e f g h a b c 0x07237ea3;
          (f, b) = sha256_Round c d e f g h a b 0xa4954b68;
          (e, a) = sha256_Round b c d e f g h a 0x4c191d76
      in [t ! 0 + a, t ! 1 + b, t ! 2 + c, t ! 3 + d, t ! 4 + e, t ! 5 + f, t ! 6 + g, t ! 7 + h])"

definition sha256_D64_3 :: "u32 list \<Rightarrow> bytes" where
  "sha256_D64_3 w =
     (let w0 = w ! 0; w1 = w ! 1; w2 = w ! 2; w3 = w ! 3; w4 = w ! 4; w5 = w ! 5; w6 = w ! 6; w7 = w ! 7;
          a = 0x6a09e667; b = 0xbb67ae85; c = 0x3c6ef372; d = 0xa54ff53a; e = 0x510e527f; f = 0x9b05688c; g = 0x1f83d9ab; h = 0x5be0cd19;
          (d, h) = sha256_Round a b c d e f g h (0x428a2f98 + w0);
          (c, g) = sha256_Round h a b c d e f g (0x71374491 + w1);
          (b, f) = sha256_Round g h a b c d e f (0xb5c0fbcf + w2);
          (a, e) = sha256_Round f g h a b c d e (0xe9b5dba5 + w3);
          (h, d) = sha256_Round e f g h a b c d (0x3956c25b + w4);
          (g, c) = sha256_Round d e f g h a b c (0x59f111f1 + w5);
          (f, b) = sha256_Round c d e f g h a b (0x923f82a4 + w6);
          (e, a) = sha256_Round b c d e f g h a (0xab1c5ed5 + w7);
          (d, h) = sha256_Round a b c d e f g h 0x5807aa98;
          (c, g) = sha256_Round h a b c d e f g 0x12835b01;
          (b, f) = sha256_Round g h a b c d e f 0x243185be;
          (a, e) = sha256_Round f g h a b c d e 0x550c7dc3;
          (h, d) = sha256_Round e f g h a b c d 0x72be5d74;
          (g, c) = sha256_Round d e f g h a b c 0x80deb1fe;
          (f, b) = sha256_Round c d e f g h a b 0x9bdc06a7;
          (e, a) = sha256_Round b c d e f g h a 0xc19bf274;
          w0 = w0 + (sha256_sigma0 w1);
          (d, h) = sha256_Round a b c d e f g h (0xe49b69c1 + w0);
          w1 = w1 + (0xa00000 + sha256_sigma0 w2);
          (c, g) = sha256_Round h a b c d e f g (0xefbe4786 + w1);
          w2 = w2 + (sha256_sigma1 w0 + sha256_sigma0 w3);
          (b, f) = sha256_Round g h a b c d e f (0x0fc19dc6 + w2);
          w3 = w3 + (sha256_sigma1 w1 + sha256_sigma0 w4);
          (a, e) = sha256_Round f g h a b c d e (0x240ca1cc + w3);
          w4 = w4 + (sha256_sigma1 w2 + sha256_sigma0 w5);
          (h, d) = sha256_Round e f g h a b c d (0x2de92c6f + w4);
          w5 = w5 + (sha256_sigma1 w3 + sha256_sigma0 w6);
          (g, c) = sha256_Round d e f g h a b c (0x4a7484aa + w5);
          w6 = w6 + (sha256_sigma1 w4 + 0x100 + sha256_sigma0 w7);
          (f, b) = sha256_Round c d e f g h a b (0x5cb0a9dc + w6);
          w7 = w7 + (sha256_sigma1 w5 + w0 + 0x11002000);
          (e, a) = sha256_Round b c d e f g h a (0x76f988da + w7);
          w8 = 0x80000000 + sha256_sigma1 w6 + w1;
          (d, h) = sha256_Round a b c d e f g h (0x983e5152 + w8);
          w9 = sha256_sigma1 w7 + w2;
          (c, g) = sha256_Round h a b c d e f g (0xa831c66d + w9);
          w10 = sha256_sigma1 w8 + w3;
          (b, f) = sha256_Round g h a b c d e f (0xb00327c8 + w10);
          w11 = sha256_sigma1 w9 + w4;
          (a, e) = sha256_Round f g h a b c d e (0xbf597fc7 + w11);
          w12 = sha256_sigma1 w10 + w5;
          (h, d) = sha256_Round e f g h a b c d (0xc6e00bf3 + w12);
          w13 = sha256_sigma1 w11 + w6;
          (g, c) = sha256_Round d e f g h a b c (0xd5a79147 + w13);
          w14 = sha256_sigma1 w12 + w7 + 0x400022;
          (f, b) = sha256_Round c d e f g h a b (0x06ca6351 + w14);
          w15 = 0x100 + sha256_sigma1 w13 + w8 + sha256_sigma0 w0;
          (e, a) = sha256_Round b c d e f g h a (0x14292967 + w15);
          w0 = w0 + (sha256_sigma1 w14 + w9 + sha256_sigma0 w1);
          (d, h) = sha256_Round a b c d e f g h (0x27b70a85 + w0);
          w1 = w1 + (sha256_sigma1 w15 + w10 + sha256_sigma0 w2);
          (c, g) = sha256_Round h a b c d e f g (0x2e1b2138 + w1);
          w2 = w2 + (sha256_sigma1 w0 + w11 + sha256_sigma0 w3);
          (b, f) = sha256_Round g h a b c d e f (0x4d2c6dfc + w2);
          w3 = w3 + (sha256_sigma1 w1 + w12 + sha256_sigma0 w4);
          (a, e) = sha256_Round f g h a b c d e (0x53380d13 + w3);
          w4 = w4 + (sha256_sigma1 w2 + w13 + sha256_sigma0 w5);
          (h, d) = sha256_Round e f g h a b c d (0x650a7354 + w4);
          w5 = w5 + (sha256_sigma1 w3 + w14 + sha256_sigma0 w6);
          (g, c) = sha256_Round d e f g h a b c (0x766a0abb + w5);
          w6 = w6 + (sha256_sigma1 w4 + w15 + sha256_sigma0 w7);
          (f, b) = sha256_Round c d e f g h a b (0x81c2c92e + w6);
          w7 = w7 + (sha256_sigma1 w5 + w0 + sha256_sigma0 w8);
          (e, a) = sha256_Round b c d e f g h a (0x92722c85 + w7);
          w8 = w8 + (sha256_sigma1 w6 + w1 + sha256_sigma0 w9);
          (d, h) = sha256_Round a b c d e f g h (0xa2bfe8a1 + w8);
          w9 = w9 + (sha256_sigma1 w7 + w2 + sha256_sigma0 w10);
          (c, g) = sha256_Round h a b c d e f g (0xa81a664b + w9);
          w10 = w10 + (sha256_sigma1 w8 + w3 + sha256_sigma0 w11);
          (b, f) = sha256_Round g h a b c d e f (0xc24b8b70 + w10);
          w11 = w11 + (sha256_sigma1 w9 + w4 + sha256_sigma0 w12);
          (a, e) = sha256_Round f g h a b c d e (0xc76c51a3 + w11);
          w12 = w12 + (sha256_sigma1 w10 + w5 + sha256_sigma0 w13);
          (h, d) = sha256_Round e f g h a b c d (0xd192e819 + w12);
          w13 = w13 + (sha256_sigma1 w11 + w6 + sha256_sigma0 w14);
          (g, c) = sha256_Round d e f g h a b c (0xd6990624 + w13);
          w14 = w14 + (sha256_sigma1 w12 + w7 + sha256_sigma0 w15);
          (f, b) = sha256_Round c d e f g h a b (0xf40e3585 + w14);
          w15 = w15 + (sha256_sigma1 w13 + w8 + sha256_sigma0 w0);
          (e, a) = sha256_Round b c d e f g h a (0x106aa070 + w15);
          w0 = w0 + (sha256_sigma1 w14 + w9 + sha256_sigma0 w1);
          (d, h) = sha256_Round a b c d e f g h (0x19a4c116 + w0);
          w1 = w1 + (sha256_sigma1 w15 + w10 + sha256_sigma0 w2);
          (c, g) = sha256_Round h a b c d e f g (0x1e376c08 + w1);
          w2 = w2 + (sha256_sigma1 w0 + w11 + sha256_sigma0 w3);
          (b, f) = sha256_Round g h a b c d e f (0x2748774c + w2);
          w3 = w3 + (sha256_sigma1 w1 + w12 + sha256_sigma0 w4);
          (a, e) = sha256_Round f g h a b c d e (0x34b0bcb5 + w3);
          w4 = w4 + (sha256_sigma1 w2 + w13 + sha256_sigma0 w5);
          (h, d) = sha256_Round e f g h a b c d (0x391c0cb3 + w4);
          w5 = w5 + (sha256_sigma1 w3 + w14 + sha256_sigma0 w6);
          (g, c) = sha256_Round d e f g h a b c (0x4ed8aa4a + w5);
          w6 = w6 + (sha256_sigma1 w4 + w15 + sha256_sigma0 w7);
          (f, b) = sha256_Round c d e f g h a b (0x5b9cca4f + w6);
          w7 = w7 + (sha256_sigma1 w5 + w0 + sha256_sigma0 w8);
          (e, a) = sha256_Round b c d e f g h a (0x682e6ff3 + w7);
          w8 = w8 + (sha256_sigma1 w6 + w1 + sha256_sigma0 w9);
          (d, h) = sha256_Round a b c d e f g h (0x748f82ee + w8);
          w9 = w9 + (sha256_sigma1 w7 + w2 + sha256_sigma0 w10);
          (c, g) = sha256_Round h a b c d e f g (0x78a5636f + w9);
          w10 = w10 + (sha256_sigma1 w8 + w3 + sha256_sigma0 w11);
          (b, f) = sha256_Round g h a b c d e f (0x84c87814 + w10);
          w11 = w11 + (sha256_sigma1 w9 + w4 + sha256_sigma0 w12);
          (a, e) = sha256_Round f g h a b c d e (0x8cc70208 + w11);
          w12 = w12 + (sha256_sigma1 w10 + w5 + sha256_sigma0 w13);
          (h, d) = sha256_Round e f g h a b c d (0x90befffa + w12);
          w13 = w13 + (sha256_sigma1 w11 + w6 + sha256_sigma0 w14);
          (g, c) = sha256_Round d e f g h a b c (0xa4506ceb + w13);
          (f, b) = sha256_Round c d e f g h a b (0xbef9a3f7 + (w14 + sha256_sigma1 w12 + w7 + sha256_sigma0 w15));
          (e, a) = sha256_Round b c d e f g h a (0xc67178f2 + (w15 + sha256_sigma1 w13 + w8 + sha256_sigma0 w0))
      in WriteBE32 (a + 0x6a09e667) @ WriteBE32 (b + 0xbb67ae85) @ WriteBE32 (c + 0x3c6ef372) @ WriteBE32 (d + 0xa54ff53a) @ WriteBE32 (e + 0x510e527f) @ WriteBE32 (f + 0x9b05688c) @ WriteBE32 (g + 0x1f83d9ab) @ WriteBE32 (h + 0x5be0cd19))"

definition sha256_TransformD64 :: "bytes \<Rightarrow> bytes" where
  "sha256_TransformD64 inp = sha256_D64_3 (sha256_D64_2 (sha256_D64_1 inp))"

section \<open>The class \<open>CSHA256\<close>\<close>

definition CSHA256_init :: "u32 hasher" where
  "CSHA256_init = \<lparr>hs = sha256_Initialize, hbuf = replicate 64 0, hbytes = 0\<rparr>"

definition CSHA256_Write :: "u32 hasher \<Rightarrow> bytes \<Rightarrow> u32 hasher" where
  "CSHA256_Write h data =
     (let bufsize = unat (hbytes h) mod 64;
          (h, data, bufsize) =
            (if bufsize \<noteq> 0 \<and> bufsize + length data \<ge> 64
             then (let buf = memcpy_at (hbuf h) bufsize (take (64 - bufsize) data)
                   in (h\<lparr>hbuf := buf, hbytes := hbytes h + of_nat (64 - bufsize),
                         hs := sha256_Transform (hs h) buf 1\<rparr>,
                       drop (64 - bufsize) data, 0))
             else (h, data, bufsize));
          (h, data) =
            (if length data \<ge> 64
             then (let blocks = length data div 64
                   in (h\<lparr>hs := sha256_Transform (hs h) data blocks, hbytes := hbytes h + of_nat (64 * blocks)\<rparr>,
                       drop (64 * blocks) data))
             else (h, data))
      in if data \<noteq> []
         then h\<lparr>hbuf := memcpy_at (hbuf h) bufsize data, hbytes := hbytes h + of_nat (length data)\<rparr>
         else h)"

datatype sha256_error = length_error

definition CSHA256_FinalizeNoPadding :: "u32 hasher \<Rightarrow> bool \<Rightarrow> sha256_error + bytes" where
  "CSHA256_FinalizeNoPadding h enforce_compression =
     (if enforce_compression \<and> hbytes h \<noteq> 64 then Inl length_error
      else Inr (WriteBE32 (hs h ! 0) @ WriteBE32 (hs h ! 1) @ WriteBE32 (hs h ! 2) @ WriteBE32 (hs h ! 3) @
                WriteBE32 (hs h ! 4) @ WriteBE32 (hs h ! 5) @ WriteBE32 (hs h ! 6) @ WriteBE32 (hs h ! 7)))"

text \<open>The object \<open>Finalize\<close> leaves, and the hash.\<close>

definition CSHA256_Finalize :: "u32 hasher \<Rightarrow> u32 hasher \<times> (sha256_error + bytes)" where
  "CSHA256_Finalize h =
     (let sizedesc = WriteBE64 (push_bit 3 (hbytes h));
          h1 = CSHA256_Write h (pad_bytes (1 + (119 - unat (hbytes h) mod 64) mod 64));
          h2 = CSHA256_Write h1 sizedesc
      in (h2, CSHA256_FinalizeNoPadding h2 False))"

definition CSHA256_Reset :: "u32 hasher \<Rightarrow> u32 hasher" where
  "CSHA256_Reset h = h\<lparr>hbytes := 0, hs := sha256_Initialize\<rparr>"

text \<open>\<open>SHA256D64\<close> when none of the vectorised routines was selected: one block after the other.\<close>

fun SHA256D64 :: "bytes \<Rightarrow> nat \<Rightarrow> bytes" where
  "SHA256D64 inp 0 = []"
| "SHA256D64 inp (Suc blocks) = sha256_TransformD64 inp @ SHA256D64 (drop 64 inp) blocks"

section \<open>The compression function of FIPS 180-4\<close>

text \<open>The standard's definitions, with its rotations, round constants and message schedule.\<close>

definition fips_K256 :: "u32 list" where
  "fips_K256 =
     [0x428a2f98, 0x71374491, 0xb5c0fbcf, 0xe9b5dba5, 0x3956c25b, 0x59f111f1, 0x923f82a4, 0xab1c5ed5] @
     [0xd807aa98, 0x12835b01, 0x243185be, 0x550c7dc3, 0x72be5d74, 0x80deb1fe, 0x9bdc06a7, 0xc19bf174] @
     [0xe49b69c1, 0xefbe4786, 0x0fc19dc6, 0x240ca1cc, 0x2de92c6f, 0x4a7484aa, 0x5cb0a9dc, 0x76f988da] @
     [0x983e5152, 0xa831c66d, 0xb00327c8, 0xbf597fc7, 0xc6e00bf3, 0xd5a79147, 0x06ca6351, 0x14292967] @
     [0x27b70a85, 0x2e1b2138, 0x4d2c6dfc, 0x53380d13, 0x650a7354, 0x766a0abb, 0x81c2c92e, 0x92722c85] @
     [0xa2bfe8a1, 0xa81a664b, 0xc24b8b70, 0xc76c51a3, 0xd192e819, 0xd6990624, 0xf40e3585, 0x106aa070] @
     [0x19a4c116, 0x1e376c08, 0x2748774c, 0x34b0bcb5, 0x391c0cb3, 0x4ed8aa4a, 0x5b9cca4f, 0x682e6ff3] @
     [0x748f82ee, 0x78a5636f, 0x84c87814, 0x8cc70208, 0x90befffa, 0xa4506ceb, 0xbef9a3f7, 0xc67178f2]"

definition fips_Ch :: "'a::len word \<Rightarrow> 'a word \<Rightarrow> 'a word \<Rightarrow> 'a word" where
  "fips_Ch x y z = (x AND y) XOR (NOT x AND z)"

definition fips_Maj :: "'a::len word \<Rightarrow> 'a word \<Rightarrow> 'a word \<Rightarrow> 'a word" where
  "fips_Maj x y z = (x AND y) XOR (x AND z) XOR (y AND z)"

definition fips_Sigma0 :: "u32 \<Rightarrow> u32" where
  "fips_Sigma0 x = word_rotr 2 x XOR word_rotr 13 x XOR word_rotr 22 x"

definition fips_Sigma1 :: "u32 \<Rightarrow> u32" where
  "fips_Sigma1 x = word_rotr 6 x XOR word_rotr 11 x XOR word_rotr 25 x"

definition fips_sigma0 :: "u32 \<Rightarrow> u32" where
  "fips_sigma0 x = word_rotr 7 x XOR word_rotr 18 x XOR drop_bit 3 x"

definition fips_sigma1 :: "u32 \<Rightarrow> u32" where
  "fips_sigma1 x = word_rotr 17 x XOR word_rotr 19 x XOR drop_bit 10 x"

primrec fips_schedule :: "u32 list \<Rightarrow> nat \<Rightarrow> u32 list" where
  "fips_schedule m 0 = m"
| "fips_schedule m (Suc n) =
     (let ws = fips_schedule m n
      in ws @ [fips_sigma1 (ws ! (n + 14)) + ws ! (n + 9) + fips_sigma0 (ws ! (n + 1)) + ws ! n])"

type_synonym fips_vars = "u32 \<times> u32 \<times> u32 \<times> u32 \<times> u32 \<times> u32 \<times> u32 \<times> u32"

fun fips_round :: "u32 \<Rightarrow> u32 \<Rightarrow> fips_vars \<Rightarrow> fips_vars" where
  "fips_round k w (a, b, c, d, e, f, g, h) =
     (let T1 = h + fips_Sigma1 e + fips_Ch e f g + k + w;
          T2 = fips_Sigma0 a + fips_Maj a b c
      in (T1 + T2, a, b, c, d + T1, e, f, g))"

primrec fips_rounds :: "u32 list \<Rightarrow> fips_vars \<Rightarrow> nat \<Rightarrow> fips_vars" where
  "fips_rounds ws v 0 = v"
| "fips_rounds ws v (Suc t) = fips_round (fips_K256 ! t) (ws ! t) (fips_rounds ws v t)"

definition fips_compress :: "u32 list \<Rightarrow> u32 list \<Rightarrow> u32 list" where
  "fips_compress H m =
     (case fips_rounds (fips_schedule m 48) (H ! 0, H ! 1, H ! 2, H ! 3, H ! 4, H ! 5, H ! 6, H ! 7) 64 of
        (a, b, c, d, e, f, g, h) \<Rightarrow>
          [H ! 0 + a, H ! 1 + b, H ! 2 + c, H ! 3 + d, H ! 4 + e, H ! 5 + f, H ! 6 + g, H ! 7 + h])"

section \<open>The unrolled code computes the standard's function\<close>

lemma word_rotr_eq:
  fixes x :: "'a::len word"
  assumes "0 < n" "n < LENGTH('a)"
  shows "word_rotr n x = drop_bit n x OR push_bit (LENGTH('a) - n) x"
proof (rule bit_word_eqI)
  fix i assume i: "i < LENGTH('a)"
  show "bit (word_rotr n x) i \<longleftrightarrow> bit (drop_bit n x OR push_bit (LENGTH('a) - n) x) i"
  proof (cases "i + n < LENGTH('a)")
    case True
    then have "\<not> LENGTH('a) - n \<le> i" by linarith
    then show ?thesis using True i assms by (simp add: bit_word_rotr_iff bit_or_iff bit_drop_bit_eq bit_push_bit_iff ac_simps)
  next
    case False
    then have "(i + n) mod LENGTH('a) = i - (LENGTH('a) - n)" using i assms by (simp add: le_mod_geq)
    moreover have "\<not> bit x (n + i)" using False by (simp add: not_less bit_word.rep_eq impossible_bit add.commute)
    moreover have "LENGTH('a) - n \<le> i" using False by linarith
    ultimately show ?thesis using False i assms
      by (simp add: bit_word_rotr_iff bit_or_iff bit_drop_bit_eq bit_push_bit_iff)
  qed
qed

lemma sha256_functions:
  "sha256_Ch x y z = fips_Ch x y z"
  "sha256_Maj x y z = fips_Maj x y z"
  "sha256_Sigma0 x = fips_Sigma0 x"
  "sha256_Sigma1 x = fips_Sigma1 x"
  "sha256_sigma0 x = fips_sigma0 x"
  "sha256_sigma1 x = fips_sigma1 x"
  subgoal by (rule bit_word_eqI) (auto simp: sha256_Ch_def fips_Ch_def bit_simps)
  subgoal by (rule bit_word_eqI) (auto simp: sha256_Maj_def fips_Maj_def bit_simps)
  by (simp_all add: sha256_Sigma0_def fips_Sigma0_def sha256_Sigma1_def fips_Sigma1_def
      sha256_sigma0_def fips_sigma0_def sha256_sigma1_def fips_sigma1_def word_rotr_eq)

text \<open>
  The working variables as two sequences: \<open>a\<close> and \<open>e\<close> after each round, the initial
  \<open>d, c, b\<close> and \<open>h, g, f\<close> in front. A round of the code is one step of both.
\<close>

definition seq_A :: "u32 list \<Rightarrow> fips_vars \<Rightarrow> nat \<Rightarrow> u32" where
  "seq_A ws v i = (case v of (a, b, c, d, e, f, g, h) \<Rightarrow>
     if i = 0 then d else if i = 1 then c else if i = 2 then b else fst (fips_rounds ws v (i - 3)))"

definition seq_E :: "u32 list \<Rightarrow> fips_vars \<Rightarrow> nat \<Rightarrow> u32" where
  "seq_E ws v i = (case v of (a, b, c, d, e, f, g, h) \<Rightarrow>
     if i = 0 then h else if i = 1 then g else if i = 2 then f
     else fst (snd (snd (snd (snd (fips_rounds ws v (i - 3)))))))"

lemma fips_rounds_seq:
  "fips_rounds ws v t =
     (seq_A ws v (t + 3), seq_A ws v (t + 2), seq_A ws v (t + 1), seq_A ws v t,
      seq_E ws v (t + 3), seq_E ws v (t + 2), seq_E ws v (t + 1), seq_E ws v t)"
proof (induction t)
  case 0
  obtain a b c d e f g h where "v = (a, b, c, d, e, f, g, h)" by (cases v) auto
  then show ?case by (simp add: seq_A_def seq_E_def)
next
  case (Suc t)
  have A: "fst (fips_rounds ws v (Suc t)) = seq_A ws v (Suc t + 3)"
    and E: "fst (snd (snd (snd (snd (fips_rounds ws v (Suc t)))))) = seq_E ws v (Suc t + 3)"
    by (cases v; simp add: seq_A_def seq_E_def)+
  from A E show ?case by (simp add: Suc.IH Let_def numeral_eq_Suc)
qed

lemma sha256_Round_seq:
  assumes "i1 = t + 1" "i2 = t + 2" "i3 = t + 3" "kw = fips_K256 ! t + ws ! t"
  shows "sha256_Round (seq_A ws v i3) (seq_A ws v i2) (seq_A ws v i1) (seq_A ws v t)
           (seq_E ws v i3) (seq_E ws v i2) (seq_E ws v i1) (seq_E ws v t) kw
         = (seq_E ws v (t + 4), seq_A ws v (t + 4))"
proof -
  have "fips_rounds ws v (Suc t) = fips_round (fips_K256 ! t) (ws ! t) (fips_rounds ws v t)" by simp
  then show ?thesis unfolding fips_rounds_seq assms sha256_Round_def sha256_functions
    by (simp add: Let_def numeral_eq_Suc add.assoc)
qed

lemma length_fips_schedule [simp]: "length (fips_schedule m n) = length m + n"
  by (induction n) (simp_all add: Let_def)

lemma fips_schedule_stable:
  "i < length m + n \<Longrightarrow> n \<le> k \<Longrightarrow> fips_schedule m k ! i = fips_schedule m n ! i"
proof (induction k)
  case (Suc k)
  then show ?case by (cases "n = Suc k") (simp_all add: Let_def nth_append)
qed simp

lemma fips_schedule_rec:
  assumes "length m = 16" "t < 48" "W = fips_schedule m 48"
  shows "W ! (t + 16) = fips_sigma1 (W ! (t + 14)) + W ! (t + 9) + fips_sigma0 (W ! (t + 1)) + W ! t"
proof -
  have s: "W ! i = fips_schedule m t ! i" if "i < 16 + t" for i
    using that assms fips_schedule_stable [of i m t 48] by simp
  have "W ! (t + 16) = fips_schedule m (Suc t) ! (t + 16)"
    using assms fips_schedule_stable [of "t + 16" m "Suc t" 48] by simp
  also have "\<dots> = fips_sigma1 (fips_schedule m t ! (t + 14)) + fips_schedule m t ! (t + 9)
      + fips_sigma0 (fips_schedule m t ! (t + 1)) + fips_schedule m t ! t"
    using assms(1) by (simp add: Let_def nth_append)
  finally show ?thesis by (simp only: s [of "t + 14"] s [of "t + 9"] s [of "t + 1"] s [of t])
qed

lemma fips_K256_nth:
  "fips_K256 ! 0 = 0x428a2f98"
  "fips_K256 ! 1 = 0x71374491"
  "fips_K256 ! 2 = 0xb5c0fbcf"
  "fips_K256 ! 3 = 0xe9b5dba5"
  "fips_K256 ! 4 = 0x3956c25b"
  "fips_K256 ! 5 = 0x59f111f1"
  "fips_K256 ! 6 = 0x923f82a4"
  "fips_K256 ! 7 = 0xab1c5ed5"
  "fips_K256 ! 8 = 0xd807aa98"
  "fips_K256 ! 9 = 0x12835b01"
  "fips_K256 ! 10 = 0x243185be"
  "fips_K256 ! 11 = 0x550c7dc3"
  "fips_K256 ! 12 = 0x72be5d74"
  "fips_K256 ! 13 = 0x80deb1fe"
  "fips_K256 ! 14 = 0x9bdc06a7"
  "fips_K256 ! 15 = 0xc19bf174"
  "fips_K256 ! 16 = 0xe49b69c1"
  "fips_K256 ! 17 = 0xefbe4786"
  "fips_K256 ! 18 = 0x0fc19dc6"
  "fips_K256 ! 19 = 0x240ca1cc"
  "fips_K256 ! 20 = 0x2de92c6f"
  "fips_K256 ! 21 = 0x4a7484aa"
  "fips_K256 ! 22 = 0x5cb0a9dc"
  "fips_K256 ! 23 = 0x76f988da"
  "fips_K256 ! 24 = 0x983e5152"
  "fips_K256 ! 25 = 0xa831c66d"
  "fips_K256 ! 26 = 0xb00327c8"
  "fips_K256 ! 27 = 0xbf597fc7"
  "fips_K256 ! 28 = 0xc6e00bf3"
  "fips_K256 ! 29 = 0xd5a79147"
  "fips_K256 ! 30 = 0x06ca6351"
  "fips_K256 ! 31 = 0x14292967"
  "fips_K256 ! 32 = 0x27b70a85"
  "fips_K256 ! 33 = 0x2e1b2138"
  "fips_K256 ! 34 = 0x4d2c6dfc"
  "fips_K256 ! 35 = 0x53380d13"
  "fips_K256 ! 36 = 0x650a7354"
  "fips_K256 ! 37 = 0x766a0abb"
  "fips_K256 ! 38 = 0x81c2c92e"
  "fips_K256 ! 39 = 0x92722c85"
  "fips_K256 ! 40 = 0xa2bfe8a1"
  "fips_K256 ! 41 = 0xa81a664b"
  "fips_K256 ! 42 = 0xc24b8b70"
  "fips_K256 ! 43 = 0xc76c51a3"
  "fips_K256 ! 44 = 0xd192e819"
  "fips_K256 ! 45 = 0xd6990624"
  "fips_K256 ! 46 = 0xf40e3585"
  "fips_K256 ! 47 = 0x106aa070"
  "fips_K256 ! 48 = 0x19a4c116"
  "fips_K256 ! 49 = 0x1e376c08"
  "fips_K256 ! 50 = 0x2748774c"
  "fips_K256 ! 51 = 0x34b0bcb5"
  "fips_K256 ! 52 = 0x391c0cb3"
  "fips_K256 ! 53 = 0x4ed8aa4a"
  "fips_K256 ! 54 = 0x5b9cca4f"
  "fips_K256 ! 55 = 0x682e6ff3"
  "fips_K256 ! 56 = 0x748f82ee"
  "fips_K256 ! 57 = 0x78a5636f"
  "fips_K256 ! 58 = 0x84c87814"
  "fips_K256 ! 59 = 0x8cc70208"
  "fips_K256 ! 60 = 0x90befffa"
  "fips_K256 ! 61 = 0xa4506ceb"
  "fips_K256 ! 62 = 0xbef9a3f7"
  "fips_K256 ! 63 = 0xc67178f2"
  by (simp_all add: fips_K256_def)

text \<open>The three spellings of a step of the schedule in the code.\<close>

lemma schedule_step:
  assumes "length m = 16" "W = fips_schedule m 48"
  shows "t14 = t + 14 \<Longrightarrow> t9 = t + 9 \<Longrightarrow> t1 = t + 1 \<Longrightarrow> t < 48 \<Longrightarrow>
      W ! t + (sha256_sigma1 (W ! t14) + W ! t9 + sha256_sigma0 (W ! t1)) = W ! (t + 16)"
    and "t14 = t + 14 \<Longrightarrow> t9 = t + 9 \<Longrightarrow> t1 = t + 1 \<Longrightarrow> t < 48 \<Longrightarrow>
      W ! t + sha256_sigma1 (W ! t14) + W ! t9 + sha256_sigma0 (W ! t1) = W ! (t + 16)"
  using fips_schedule_rec [OF assms(1) _ assms(2)] by (simp_all add: sha256_functions ac_simps)

definition be_words :: "bytes \<Rightarrow> u32 list" where
  "be_words chunk = map (\<lambda>i. ReadBE32 (drop (4 * i) chunk)) [0..<16]"

lemma length_be_words [simp]: "length (be_words chunk) = 16"
  by (simp add: be_words_def)

lemma schedule_prefix: "i < 16 \<Longrightarrow> fips_schedule (be_words chunk) 48 ! i = ReadBE32 (drop (4 * i) chunk)"
  using fips_schedule_stable [of i "be_words chunk" 0 48] by (simp add: be_words_def)

lemma seq_init:
  "seq_A ws (a, b, c, d, e, f, g, h) 0 = d" "seq_A ws (a, b, c, d, e, f, g, h) 1 = c"
  "seq_A ws (a, b, c, d, e, f, g, h) 2 = b" "seq_A ws (a, b, c, d, e, f, g, h) 3 = a"
  "seq_E ws (a, b, c, d, e, f, g, h) 0 = h" "seq_E ws (a, b, c, d, e, f, g, h) 1 = g"
  "seq_E ws (a, b, c, d, e, f, g, h) 2 = f" "seq_E ws (a, b, c, d, e, f, g, h) 3 = e"
  by (simp_all add: seq_A_def seq_E_def)

lemma sha256_block_seq:
  assumes m: "length m = 16" "W = fips_schedule m 48"
    and r: "\<And>i. i < 16 \<Longrightarrow> ReadBE32 (drop (4 * i) chunk) = W ! i"
    and s: "s ! 0 = seq_A W v 3" "s ! 1 = seq_A W v 2" "s ! 2 = seq_A W v 1" "s ! 3 = seq_A W v 0"
           "s ! 4 = seq_E W v 3" "s ! 5 = seq_E W v 2" "s ! 6 = seq_E W v 1" "s ! 7 = seq_E W v 0"
  shows "sha256_block s chunk =
    [s ! 0 + seq_A W v 67, s ! 1 + seq_A W v 66, s ! 2 + seq_A W v 65, s ! 3 + seq_A W v 64,
     s ! 4 + seq_E W v 67, s ! 5 + seq_E W v 66, s ! 6 + seq_E W v 65, s ! 7 + seq_E W v 64]"
proof -
  have r': "ReadBE32 (drop 4 chunk) = W ! 1" "ReadBE32 (drop 8 chunk) = W ! 2" "ReadBE32 (drop 12 chunk) = W ! 3" "ReadBE32 (drop 16 chunk) = W ! 4" "ReadBE32 (drop 20 chunk) = W ! 5" "ReadBE32 (drop 24 chunk) = W ! 6" "ReadBE32 (drop 28 chunk) = W ! 7" "ReadBE32 (drop 32 chunk) = W ! 8" "ReadBE32 (drop 36 chunk) = W ! 9" "ReadBE32 (drop 40 chunk) = W ! 10" "ReadBE32 (drop 44 chunk) = W ! 11" "ReadBE32 (drop 48 chunk) = W ! 12" "ReadBE32 (drop 52 chunk) = W ! 13" "ReadBE32 (drop 56 chunk) = W ! 14" "ReadBE32 (drop 60 chunk) = W ! 15" "ReadBE32 chunk = W ! 0"
    using r [of 0] r [of 1] r [of 2] r [of 3] r [of 4] r [of 5] r [of 6] r [of 7] r [of 8] r [of 9] r [of 10] r [of 11] r [of 12] r [of 13] r [of 14] r [of 15] by simp_all
  show ?thesis
    unfolding sha256_block_def s r'
    by (simp add: Let_def sha256_Round_seq schedule_step [OF m] fips_K256_nth del: One_nat_def cong: let_weak_cong prod.case_cong_weak)
qed

text \<open>\<open>Transform\<close> on one block is the compression function.\<close>

lemma sha256_block_compress: "sha256_block s chunk = fips_compress s (be_words chunk)"
proof -
  define W where "W = fips_schedule (be_words chunk) 48"
  let ?v = "(s ! 0, s ! 1, s ! 2, s ! 3, s ! 4, s ! 5, s ! 6, s ! 7)"
  have "sha256_block s chunk =
    [s ! 0 + seq_A W ?v 67, s ! 1 + seq_A W ?v 66, s ! 2 + seq_A W ?v 65, s ! 3 + seq_A W ?v 64,
     s ! 4 + seq_E W ?v 67, s ! 5 + seq_E W ?v 66, s ! 6 + seq_E W ?v 65, s ! 7 + seq_E W ?v 64]"
    by (rule sha256_block_seq [where m = "be_words chunk"])
      (simp_all only: length_be_words W_def schedule_prefix seq_init)
  then show ?thesis by (simp add: fips_compress_def W_def fips_rounds_seq)
qed

lemma fips_compress_seq:
  assumes "W = fips_schedule m 48" "v = (H ! 0, H ! 1, H ! 2, H ! 3, H ! 4, H ! 5, H ! 6, H ! 7)"
  shows "fips_compress H m =
    [H ! 0 + seq_A W v 67, H ! 1 + seq_A W v 66, H ! 2 + seq_A W v 65, H ! 3 + seq_A W v 64,
     H ! 4 + seq_E W v 67, H ! 5 + seq_E W v 66, H ! 6 + seq_E W v 65, H ! 7 + seq_E W v 64]"
  by (simp add: fips_compress_def assms fips_rounds_seq)

section \<open>The double hash of 64 bytes\<close>

lemma sha256_D64_1_block: "sha256_D64_1 inp = sha256_block sha256_Initialize inp"
proof -
  have n: "sha256_Initialize ! 0 = 0x6a09e667" "sha256_Initialize ! 1 = 0xbb67ae85" "sha256_Initialize ! 2 = 0x3c6ef372" "sha256_Initialize ! 3 = 0xa54ff53a" "sha256_Initialize ! 4 = 0x510e527f" "sha256_Initialize ! 5 = 0x9b05688c" "sha256_Initialize ! 6 = 0x1f83d9ab" "sha256_Initialize ! 7 = 0x5be0cd19"
    by (simp_all add: sha256_Initialize_def)
  show ?thesis unfolding sha256_D64_1_def sha256_block_def n
    by (simp only: add.commute [of _ "0x6a09e667 :: u32"] add.commute [of _ "0xbb67ae85 :: u32"] add.commute [of _ "0x3c6ef372 :: u32"] add.commute [of _ "0xa54ff53a :: u32"] add.commute [of _ "0x510e527f :: u32"] add.commute [of _ "0x9b05688c :: u32"] add.commute [of _ "0x1f83d9ab :: u32"] add.commute [of _ "0x5be0cd19 :: u32"])
qed

text \<open>The padding block of a 64-byte message, and its schedule.\<close>

definition pad64_words :: "u32 list" where
  "pad64_words = [0x80000000, 0, 0, 0, 0, 0, 0, 0, 0, 0, 0, 0, 0, 0, 0, 512]"

lemma pad64_schedule:
  "fips_schedule pad64_words 48 =
     [0x80000000, 0x0, 0x0, 0x0, 0x0, 0x0, 0x0, 0x0,
      0x0, 0x0, 0x0, 0x0, 0x0, 0x0, 0x0, 0x200,
      0x80000000, 0x1400000, 0x205000, 0x5088, 0x22000800, 0x22550014, 0x5089742, 0xa0000020,
      0x5a880000, 0x5c9400, 0x16d49d, 0xfa801f00, 0xd33225d0, 0x11675959, 0xf6e6bfda, 0xb30c1549,
      0x8b2b050, 0x9d7c4c27, 0xce2a393, 0x88e6e1ea, 0xa52b4335, 0x67a16f49, 0xd732016f, 0x4eeb2e91,
      0x5dbf55e5, 0x8eee2335, 0xe2bc5ec2, 0xa83f4394, 0x45ad78f7, 0x36f3d0cd, 0xd99c05e8, 0xb0511dc7,
      0x69bc7ac4, 0xbd11375b, 0xe3ba71e5, 0x3b209ff2, 0x18feee17, 0xe25ad9e7, 0x13375046, 0x515089d,
      0x4f0d0f04, 0x2627484e, 0x310128d2, 0xc668b434, 0x420841cc, 0x62d311b8, 0xe59ba771, 0x85a7a484]"
  unfolding sha256_functions(5,6) [symmetric] by code_simp

lemma sha256_D64_2_block:
  assumes "length t = 8"
  shows "sha256_D64_2 t = fips_compress t pad64_words"
proof -
  define W where "W = fips_schedule pad64_words 48"
  define v where "v = (t ! 0, t ! 1, t ! 2, t ! 3, t ! 4, t ! 5, t ! 6, t ! 7)"
  have w: "W ! 0 = 0x80000000"
    "W ! 1 = 0x0"
    "W ! 2 = 0x0"
    "W ! 3 = 0x0"
    "W ! 4 = 0x0"
    "W ! 5 = 0x0"
    "W ! 6 = 0x0"
    "W ! 7 = 0x0"
    "W ! 8 = 0x0"
    "W ! 9 = 0x0"
    "W ! 10 = 0x0"
    "W ! 11 = 0x0"
    "W ! 12 = 0x0"
    "W ! 13 = 0x0"
    "W ! 14 = 0x0"
    "W ! 15 = 0x200"
    "W ! 16 = 0x80000000"
    "W ! 17 = 0x1400000"
    "W ! 18 = 0x205000"
    "W ! 19 = 0x5088"
    "W ! 20 = 0x22000800"
    "W ! 21 = 0x22550014"
    "W ! 22 = 0x5089742"
    "W ! 23 = 0xa0000020"
    "W ! 24 = 0x5a880000"
    "W ! 25 = 0x5c9400"
    "W ! 26 = 0x16d49d"
    "W ! 27 = 0xfa801f00"
    "W ! 28 = 0xd33225d0"
    "W ! 29 = 0x11675959"
    "W ! 30 = 0xf6e6bfda"
    "W ! 31 = 0xb30c1549"
    "W ! 32 = 0x8b2b050"
    "W ! 33 = 0x9d7c4c27"
    "W ! 34 = 0xce2a393"
    "W ! 35 = 0x88e6e1ea"
    "W ! 36 = 0xa52b4335"
    "W ! 37 = 0x67a16f49"
    "W ! 38 = 0xd732016f"
    "W ! 39 = 0x4eeb2e91"
    "W ! 40 = 0x5dbf55e5"
    "W ! 41 = 0x8eee2335"
    "W ! 42 = 0xe2bc5ec2"
    "W ! 43 = 0xa83f4394"
    "W ! 44 = 0x45ad78f7"
    "W ! 45 = 0x36f3d0cd"
    "W ! 46 = 0xd99c05e8"
    "W ! 47 = 0xb0511dc7"
    "W ! 48 = 0x69bc7ac4"
    "W ! 49 = 0xbd11375b"
    "W ! 50 = 0xe3ba71e5"
    "W ! 51 = 0x3b209ff2"
    "W ! 52 = 0x18feee17"
    "W ! 53 = 0xe25ad9e7"
    "W ! 54 = 0x13375046"
    "W ! 55 = 0x515089d"
    "W ! 56 = 0x4f0d0f04"
    "W ! 57 = 0x2627484e"
    "W ! 58 = 0x310128d2"
    "W ! 59 = 0xc668b434"
    "W ! 60 = 0x420841cc"
    "W ! 61 = 0x62d311b8"
    "W ! 62 = 0xe59ba771"
    "W ! 63 = 0x85a7a484"
    unfolding W_def pad64_schedule by simp_all
  have kw: "fips_K256 ! 0 + W ! 0 = 0xc28a2f98"
    "fips_K256 ! 1 + W ! 1 = 0x71374491"
    "fips_K256 ! 2 + W ! 2 = 0xb5c0fbcf"
    "fips_K256 ! 3 + W ! 3 = 0xe9b5dba5"
    "fips_K256 ! 4 + W ! 4 = 0x3956c25b"
    "fips_K256 ! 5 + W ! 5 = 0x59f111f1"
    "fips_K256 ! 6 + W ! 6 = 0x923f82a4"
    "fips_K256 ! 7 + W ! 7 = 0xab1c5ed5"
    "fips_K256 ! 8 + W ! 8 = 0xd807aa98"
    "fips_K256 ! 9 + W ! 9 = 0x12835b01"
    "fips_K256 ! 10 + W ! 10 = 0x243185be"
    "fips_K256 ! 11 + W ! 11 = 0x550c7dc3"
    "fips_K256 ! 12 + W ! 12 = 0x72be5d74"
    "fips_K256 ! 13 + W ! 13 = 0x80deb1fe"
    "fips_K256 ! 14 + W ! 14 = 0x9bdc06a7"
    "fips_K256 ! 15 + W ! 15 = 0xc19bf374"
    "fips_K256 ! 16 + W ! 16 = 0x649b69c1"
    "fips_K256 ! 17 + W ! 17 = 0xf0fe4786"
    "fips_K256 ! 18 + W ! 18 = 0xfe1edc6"
    "fips_K256 ! 19 + W ! 19 = 0x240cf254"
    "fips_K256 ! 20 + W ! 20 = 0x4fe9346f"
    "fips_K256 ! 21 + W ! 21 = 0x6cc984be"
    "fips_K256 ! 22 + W ! 22 = 0x61b9411e"
    "fips_K256 ! 23 + W ! 23 = 0x16f988fa"
    "fips_K256 ! 24 + W ! 24 = 0xf2c65152"
    "fips_K256 ! 25 + W ! 25 = 0xa88e5a6d"
    "fips_K256 ! 26 + W ! 26 = 0xb019fc65"
    "fips_K256 ! 27 + W ! 27 = 0xb9d99ec7"
    "fips_K256 ! 28 + W ! 28 = 0x9a1231c3"
    "fips_K256 ! 29 + W ! 29 = 0xe70eeaa0"
    "fips_K256 ! 30 + W ! 30 = 0xfdb1232b"
    "fips_K256 ! 31 + W ! 31 = 0xc7353eb0"
    "fips_K256 ! 32 + W ! 32 = 0x3069bad5"
    "fips_K256 ! 33 + W ! 33 = 0xcb976d5f"
    "fips_K256 ! 34 + W ! 34 = 0x5a0f118f"
    "fips_K256 ! 35 + W ! 35 = 0xdc1eeefd"
    "fips_K256 ! 36 + W ! 36 = 0xa35b689"
    "fips_K256 ! 37 + W ! 37 = 0xde0b7a04"
    "fips_K256 ! 38 + W ! 38 = 0x58f4ca9d"
    "fips_K256 ! 39 + W ! 39 = 0xe15d5b16"
    "fips_K256 ! 40 + W ! 40 = 0x7f3e86"
    "fips_K256 ! 41 + W ! 41 = 0x37088980"
    "fips_K256 ! 42 + W ! 42 = 0xa507ea32"
    "fips_K256 ! 43 + W ! 43 = 0x6fab9537"
    "fips_K256 ! 44 + W ! 44 = 0x17406110"
    "fips_K256 ! 45 + W ! 45 = 0xd8cd6f1"
    "fips_K256 ! 46 + W ! 46 = 0xcdaa3b6d"
    "fips_K256 ! 47 + W ! 47 = 0xc0bbbe37"
    "fips_K256 ! 48 + W ! 48 = 0x83613bda"
    "fips_K256 ! 49 + W ! 49 = 0xdb48a363"
    "fips_K256 ! 50 + W ! 50 = 0xb02e931"
    "fips_K256 ! 51 + W ! 51 = 0x6fd15ca7"
    "fips_K256 ! 52 + W ! 52 = 0x521afaca"
    "fips_K256 ! 53 + W ! 53 = 0x31338431"
    "fips_K256 ! 54 + W ! 54 = 0x6ed41a95"
    "fips_K256 ! 55 + W ! 55 = 0x6d437890"
    "fips_K256 ! 56 + W ! 56 = 0xc39c91f2"
    "fips_K256 ! 57 + W ! 57 = 0x9eccabbd"
    "fips_K256 ! 58 + W ! 58 = 0xb5c9a0e6"
    "fips_K256 ! 59 + W ! 59 = 0x532fb63c"
    "fips_K256 ! 60 + W ! 60 = 0xd2c741c6"
    "fips_K256 ! 61 + W ! 61 = 0x7237ea3"
    "fips_K256 ! 62 + W ! 62 = 0xa4954b68"
    "fips_K256 ! 63 + W ! 63 = 0x4c191d76"
    unfolding fips_K256_nth w by simp_all
  have t: "t ! 0 = seq_A W v 3" "t ! 1 = seq_A W v 2" "t ! 2 = seq_A W v 1" "t ! 3 = seq_A W v 0"
       "t ! 4 = seq_E W v 3" "t ! 5 = seq_E W v 2" "t ! 6 = seq_E W v 1" "t ! 7 = seq_E W v 0"
    by (simp_all only: v_def seq_init)
  have "sha256_D64_2 t =
    [t ! 0 + seq_A W v 67, t ! 1 + seq_A W v 66, t ! 2 + seq_A W v 65, t ! 3 + seq_A W v 64,
     t ! 4 + seq_E W v 67, t ! 5 + seq_E W v 66, t ! 6 + seq_E W v 65, t ! 7 + seq_E W v 64]"
    unfolding sha256_D64_2_def t
    by (simp add: Let_def sha256_Round_seq kw del: One_nat_def cong: let_weak_cong prod.case_cong_weak)
  then show ?thesis by (simp only: fips_compress_seq [OF W_def v_def])
qed

text \<open>The third block hashes eight words with the padding of a 32-byte message behind them.\<close>

lemma D64_3_schedule:
  assumes "m ! 8 = 0x80000000" "\<forall>i. 9 \<le> i \<and> i < 15 \<longrightarrow> m ! i = 0" "m ! 15 = 256" "length m = 16"
    and W: "W = fips_schedule m 48"
  shows
    "W ! 8 = 0x80000000" "W ! 9 = 0" "W ! 10 = 0" "W ! 11 = 0" "W ! 12 = 0" "W ! 13 = 0" "W ! 14 = 0" "W ! 15 = 256"
    "W ! 0 + sha256_sigma0 (W ! 1) = W ! 16"
    "W ! 1 + (0xa00000 + sha256_sigma0 (W ! 2)) = W ! 17"
    "W ! 2 + (sha256_sigma1 (W ! 16) + sha256_sigma0 (W ! 3)) = W ! 18"
    "W ! 3 + (sha256_sigma1 (W ! 17) + sha256_sigma0 (W ! 4)) = W ! 19"
    "W ! 4 + (sha256_sigma1 (W ! 18) + sha256_sigma0 (W ! 5)) = W ! 20"
    "W ! 5 + (sha256_sigma1 (W ! 19) + sha256_sigma0 (W ! 6)) = W ! 21"
    "W ! 6 + (sha256_sigma1 (W ! 20) + 0x100 + sha256_sigma0 (W ! 7)) = W ! 22"
    "W ! 7 + (sha256_sigma1 (W ! 21) + W ! 16 + 0x11002000) = W ! 23"
    "0x80000000 + sha256_sigma1 (W ! 22) + W ! 17 = W ! 24"
    "sha256_sigma1 (W ! 23) + W ! 18 = W ! 25"
    "sha256_sigma1 (W ! 24) + W ! 19 = W ! 26"
    "sha256_sigma1 (W ! 25) + W ! 20 = W ! 27"
    "sha256_sigma1 (W ! 26) + W ! 21 = W ! 28"
    "sha256_sigma1 (W ! 27) + W ! 22 = W ! 29"
    "sha256_sigma1 (W ! 28) + W ! 23 + 0x400022 = W ! 30"
    "0x100 + sha256_sigma1 (W ! 29) + W ! 24 + sha256_sigma0 (W ! 16) = W ! 31"
proof -
  have p: "W ! i = m ! i" if "i < 16" for i
    using that assms fips_schedule_stable [of i m 0 48] by simp
  have c: "sha256_sigma1 0 = 0" "sha256_sigma0 0 = 0" "sha256_sigma1 0x100 = 0xa00000"
    "sha256_sigma0 0x80000000 = 0x11002000" "sha256_sigma0 0x100 = 0x400022"
    by (simp_all add: sha256_sigma0_def sha256_sigma1_def) 
  have r: "W ! (t + 16) = W ! t + (sha256_sigma1 (W ! (t + 14)) + W ! (t + 9) + sha256_sigma0 (W ! (t + 1)))"
    if "t < 48" for t using that fips_schedule_rec [OF assms(4) that W] by (simp add: sha256_functions ac_simps)
  show w: "W ! 8 = 0x80000000" "W ! 9 = 0" "W ! 10 = 0" "W ! 11 = 0" "W ! 12 = 0" "W ! 13 = 0" "W ! 14 = 0" "W ! 15 = 256"
    using assms(1-3) by (simp_all add: p)
  show "W ! 0 + sha256_sigma0 (W ! 1) = W ! 16"
    "W ! 1 + (0xa00000 + sha256_sigma0 (W ! 2)) = W ! 17"
    "W ! 2 + (sha256_sigma1 (W ! 16) + sha256_sigma0 (W ! 3)) = W ! 18"
    "W ! 3 + (sha256_sigma1 (W ! 17) + sha256_sigma0 (W ! 4)) = W ! 19"
    "W ! 4 + (sha256_sigma1 (W ! 18) + sha256_sigma0 (W ! 5)) = W ! 20"
    "W ! 5 + (sha256_sigma1 (W ! 19) + sha256_sigma0 (W ! 6)) = W ! 21"
    "W ! 6 + (sha256_sigma1 (W ! 20) + 0x100 + sha256_sigma0 (W ! 7)) = W ! 22"
    "W ! 7 + (sha256_sigma1 (W ! 21) + W ! 16 + 0x11002000) = W ! 23"
    "0x80000000 + sha256_sigma1 (W ! 22) + W ! 17 = W ! 24"
    "sha256_sigma1 (W ! 23) + W ! 18 = W ! 25"
    "sha256_sigma1 (W ! 24) + W ! 19 = W ! 26"
    "sha256_sigma1 (W ! 25) + W ! 20 = W ! 27"
    "sha256_sigma1 (W ! 26) + W ! 21 = W ! 28"
    "sha256_sigma1 (W ! 27) + W ! 22 = W ! 29"
    "sha256_sigma1 (W ! 28) + W ! 23 + 0x400022 = W ! 30"
    "0x100 + sha256_sigma1 (W ! 29) + W ! 24 + sha256_sigma0 (W ! 16) = W ! 31"
    using r [of 0] r [of 1] r [of 2] r [of 3] r [of 4] r [of 5] r [of 6] r [of 7] r [of 8] r [of 9] r [of 10] r [of 11] r [of 12] r [of 13] r [of 14] r [of 15]
    by (simp_all add: w c ac_simps del: One_nat_def)
qed

lemma sha256_D64_3_block:
  assumes "length w = 8"
  shows "sha256_D64_3 w = concat (map WriteBE32 (fips_compress sha256_Initialize (w @ [0x80000000, 0, 0, 0, 0, 0, 0, 256])))"
proof -
  define m where "m = w @ [0x80000000, 0, 0, 0, 0, 0, 0, 256]"
  define W where "W = fips_schedule m 48"
  define v where "v = (sha256_Initialize ! 0, sha256_Initialize ! 1, sha256_Initialize ! 2, sha256_Initialize ! 3,
    sha256_Initialize ! 4, sha256_Initialize ! 5, sha256_Initialize ! 6, sha256_Initialize ! 7)"
  have n: "sha256_Initialize ! 0 = 0x6a09e667" "sha256_Initialize ! 1 = 0xbb67ae85" "sha256_Initialize ! 2 = 0x3c6ef372" "sha256_Initialize ! 3 = 0xa54ff53a" "sha256_Initialize ! 4 = 0x510e527f" "sha256_Initialize ! 5 = 0x9b05688c" "sha256_Initialize ! 6 = 0x1f83d9ab" "sha256_Initialize ! 7 = 0x5be0cd19"
    by (simp_all add: sha256_Initialize_def)
  have m: "m ! 8 = 0x80000000" "\<forall>i. 9 \<le> i \<and> i < 15 \<longrightarrow> m ! i = 0" "m ! 15 = 256" "length m = 16"
    using assms by (auto simp: m_def nth_append nth_Cons')
  have p: "w ! i = W ! i" if "i < 8" for i
    using that assms fips_schedule_stable [of i m 0 48] by (simp add: W_def m_def nth_append)
  have iv: "0x6a09e667 = seq_A W v 3" "0xbb67ae85 = seq_A W v 2" "0x3c6ef372 = seq_A W v 1" "0xa54ff53a = seq_A W v 0" "0x510e527f = seq_E W v 3" "0x9b05688c = seq_E W v 2" "0x1f83d9ab = seq_E W v 1" "0x5be0cd19 = seq_E W v 0"
    unfolding v_def seq_init n by simp_all
  have kw: "fips_K256 ! 8 + W ! 8 = 0x5807aa98" "fips_K256 ! 9 + W ! 9 = 0x12835b01" "fips_K256 ! 10 + W ! 10 = 0x243185be" "fips_K256 ! 11 + W ! 11 = 0x550c7dc3" "fips_K256 ! 12 + W ! 12 = 0x72be5d74" "fips_K256 ! 13 + W ! 13 = 0x80deb1fe" "fips_K256 ! 14 + W ! 14 = 0x9bdc06a7" "fips_K256 ! 15 + W ! 15 = 0xc19bf274"
    unfolding fips_K256_nth D64_3_schedule(1-8) [OF m W_def] by simp_all
  have w: "w ! 0 = W ! 0" "w ! 1 = W ! 1" "w ! 2 = W ! 2" "w ! 3 = W ! 3" "w ! 4 = W ! 4" "w ! 5 = W ! 5" "w ! 6 = W ! 6" "w ! 7 = W ! 7" by (simp_all add: p)
  have "sha256_D64_3 w = concat (map WriteBE32
    [seq_A W v 67 + sha256_Initialize ! 0, seq_A W v 66 + sha256_Initialize ! 1, seq_A W v 65 + sha256_Initialize ! 2,
     seq_A W v 64 + sha256_Initialize ! 3, seq_E W v 67 + sha256_Initialize ! 4, seq_E W v 66 + sha256_Initialize ! 5,
     seq_E W v 65 + sha256_Initialize ! 6, seq_E W v 64 + sha256_Initialize ! 7])"
    unfolding sha256_D64_3_def n iv w
    by (simp add: Let_def sha256_Round_seq schedule_step [OF m(4) W_def] fips_K256_nth(1-8,17-64) D64_3_schedule(9-24) [OF m W_def] kw
        del: One_nat_def cong: let_weak_cong prod.case_cong_weak)
  then show ?thesis by (simp only: fips_compress_seq [OF W_def v_def] m_def [symmetric] add.commute)
qed

section \<open>\<open>CSHA256\<close> as a block hasher\<close>

text \<open>The SHA-256 of the standard: the compression function over the blocks of the padded message.\<close>

definition fips_sha256 :: "bytes \<Rightarrow> bytes" where
  "fips_sha256 m =
     concat (map WriteBE32 (md_absorb 64 (\<lambda>s b. fips_compress s (be_words b)) sha256_Initialize
       (md_pad 64 (WriteBE64 (of_nat (8 * length m))) m)))"

lemma ReadBE32_take: "k + 4 \<le> n \<Longrightarrow> ReadBE32 (drop k (take n x)) = ReadBE32 (drop k x)"
  by (simp add: ReadBE32_def drop_take min_def)

lemma sha256_block_take: "sha256_block s (take 64 x) = sha256_block s x"
proof -
  have "be_words (take 64 x) = be_words x" by (simp add: be_words_def ReadBE32_take)
  then show ?thesis by (simp only: sha256_block_compress)
qed

lemma sha256_Transform_absorb:
  "sha256_Transform s d (length d div 64) = md_absorb 64 sha256_block s d"
proof (induction "length d div 64" arbitrary: s d)
  case 0
  then have "length d < 64" by (simp add: div_eq_0_iff)
  then show ?case using 0 by (simp add: md_absorb_short flip: 0)
next
  case (Suc n)
  then have "64 \<le> length d" by (metis Suc_neq_Zero div_less not_less)
  moreover from this have "n = length (drop 64 d) div 64" using Suc(2) by (simp add: le_div_geq)
  ultimately show ?case using Suc(1) [of "drop 64 d" "sha256_block s d"]
    by (simp add: md_absorb_step sha256_block_take flip: Suc(2))
qed

lemma CSHA256_Write_eq: "CSHA256_Write h data = block_write 64 sha256_block h data"
proof -
  have loop: "block_loop 64 sha256_block h d =
    (if 64 \<le> length d
     then (let blocks = length d div 64
           in (h\<lparr>hs := sha256_Transform (hs h) d blocks, hbytes := hbytes h + of_nat (64 * blocks)\<rparr>,
               drop (64 * blocks) d))
     else (h, d))" for h d
    by (simp add: Let_def block_loop_spec sha256_block_take sha256_Transform_absorb md_rest_def md_absorb_short)
  have one: "sha256_Transform s c 1 = sha256_block s c" for s c by simp
  show ?thesis unfolding CSHA256_Write_def block_write_def block_tail_def loop one by (rule refl)
qed

interpretation sha256: block_hasher 64 sha256_block sha256_Initialize CSHA256_Write
  by unfold_locales (simp_all add: sha256_block_take CSHA256_Write_eq)

lemma length_fips_compress: "length (fips_compress s m) = 8"
  by (simp add: fips_compress_def split: prod.splits)

lemma pad_count_64: "(119 - n mod 64) mod 64 = (64 - (n + 1 + 8) mod 64) mod (64::nat)"
  using pad_count [of 9 64 n] by (simp add: add.commute)

lemma length_absorb_sha256: "length (md_absorb 64 (\<lambda>s b. fips_compress s (be_words b)) sha256_Initialize m) = 8"
proof -
  have "length s = 8 \<Longrightarrow> length (md_absorb 64 (\<lambda>s b. fips_compress s (be_words b)) s m) = 8" for s
    by (induction "64::nat" "\<lambda>s b. fips_compress s (be_words b)" s m rule: md_absorb.induct)
      (subst md_absorb.simps, simp add: length_fips_compress)
  then show ?thesis by (simp add: sha256_Initialize_def)
qed

lemma CSHA256_Finalize_hash:
  assumes "sha256.stands_for h m"
  shows "snd (CSHA256_Finalize h) = Inr (fips_sha256 m)"
proof -
  have hb: "hbytes h = of_nat (length m)" using assms by (simp add: hashed_def)
  have f: "sha256_block = (\<lambda>s b. fips_compress s (be_words b))" by (simp add: fun_eq_iff sha256_block_compress)
  let ?H = "md_absorb 64 (\<lambda>s b. fips_compress s (be_words b)) sha256_Initialize
       (md_pad 64 (WriteBE64 (of_nat (8 * length m))) m)"
  have sz: "push_bit 3 (hbytes h) = of_nat (8 * length m)"
    by (simp add: hb push_bit_eq_mult)
  have n: "1 + (119 - unat (hbytes h) mod 64) mod 64 = 1 + (64 - (length m + 1 + length (WriteBE64 (of_nat (8 * length m)))) mod 64) mod 64"
    using pad_count_64 [of "length m"] sha256.bufsize [OF hb] by simp
  have "hs (CSHA256_Write (CSHA256_Write h (pad_bytes (1 + (119 - unat (hbytes h) mod 64) mod 64)))
      (WriteBE64 (push_bit 3 (hbytes h)))) = ?H"
    unfolding sz using sha256.stands_for_padded [OF assms n] by (simp add: f)
  then show ?thesis
    by (simp add: CSHA256_Finalize_def CSHA256_FinalizeNoPadding_def fips_sha256_def Let_def
        concat_map_8 [OF length_absorb_sha256])
qed

lemma CSHA256_init_stands: "sha256.stands_for CSHA256_init []"
  by (rule sha256.stands_for_init) (simp_all add: CSHA256_init_def)

lemma CSHA256_Reset_stands: "length (hbuf h) = 64 \<Longrightarrow> sha256.stands_for (CSHA256_Reset h) []"
  by (rule sha256.stands_for_init) (simp_all add: CSHA256_Reset_def)

lemma length_fips_sha256: "length (fips_sha256 m) = 32"
  by (simp add: fips_sha256_def concat_map_8 [OF length_absorb_sha256])

lemma CSHA256_pieces: "snd (CSHA256_Finalize (foldl CSHA256_Write CSHA256_init ds)) = Inr (fips_sha256 (concat ds))"
  using CSHA256_Finalize_hash [OF sha256.stands_for_writes [OF CSHA256_init_stands]] by simp

text \<open>
  C28. \<open>CSHA256\<close> computes SHA-256. However a message is split over calls of \<open>Write\<close>, and
  whether the object is new or comes from \<open>Reset\<close> after earlier use, \<open>Finalize\<close> returns the
  hash FIPS 180-4 defines: its compression function (its own round constants, schedule and
  rotations) over the blocks of the padded message. For messages of \<open>2^61\<close> bytes and more the
  length field is the bit count modulo \<open>2^64\<close>, in the standard's domain it is the bit count.
\<close>

theorem CSHA256_computes_sha256:
  assumes "length (hbuf h) = 64"
  shows "snd (CSHA256_Finalize (foldl CSHA256_Write CSHA256_init ds)) = Inr (fips_sha256 (concat ds)) \<and>
         snd (CSHA256_Finalize (foldl CSHA256_Write (CSHA256_Reset h) ds)) = Inr (fips_sha256 (concat ds))"
  using CSHA256_pieces [of ds]
    CSHA256_Finalize_hash [OF sha256.stands_for_writes [OF CSHA256_Reset_stands [OF assms]], of ds]
  by simp

theorem CSHA256_computes_sha256_witness:
  "snd (CSHA256_Finalize (foldl CSHA256_Write CSHA256_init [[0x61], [0x62, 0x63]])) = Inr (fips_sha256 [0x61, 0x62, 0x63]) \<and>
   snd (CSHA256_Finalize (foldl CSHA256_Write (CSHA256_Reset CSHA256_init) [[0x61], [0x62, 0x63]]))
     = Inr (fips_sha256 [0x61, 0x62, 0x63])"
  using CSHA256_computes_sha256 [of CSHA256_init "[[0x61], [0x62, 0x63]]"] by (simp add: CSHA256_init_def)

section \<open>The double hash of 64-byte blocks\<close>

lemma be_words_append:
  assumes "length ws = n" "n \<le> 16"
  shows "be_words (concat (map WriteBE32 ws) @ r) = ws @ map (\<lambda>i. ReadBE32 (drop (4 * i) r)) [0..<16 - n]"
proof -
  have len: "length (concat (map WriteBE32 xs)) = 4 * length xs" for xs by (induction xs) simp_all
  have rd: "ReadBE32 (drop (4 * i) (concat (map WriteBE32 xs) @ r)) = xs ! i" if "i < length xs" for i xs
    using that
  proof (induction xs arbitrary: i)
    case (Cons x xs)
    then show ?case
    proof (cases i)
      case (Suc j)
      then have "drop (4 * i) (concat (map WriteBE32 (x # xs)) @ r) = drop (4 * j) (concat (map WriteBE32 xs) @ r)"
        by simp
      then show ?thesis using Cons Suc by simp
    qed simp
  qed simp
  have "[0..<16] = [0..<n] @ map (\<lambda>i. i + n) [0..<16 - n]"
    using assms(2) upt_add_eq_append [of 0 n "16 - n"] by (simp add: map_add_upt)
  then show ?thesis using assms(1)
    by (auto simp: be_words_def rd comp_def simp del: drop_append intro!: nth_equalityI) (simp add: len)
qed

lemma fips_sha256_64:
  assumes "length inp = 64"
  shows "fips_sha256 inp = concat (map WriteBE32 (fips_compress (fips_compress sha256_Initialize (be_words inp)) pad64_words))"
proof -
  define p :: bytes where "p = 0x80 # replicate 55 0 @ WriteBE64 512"
  have pad: "md_pad 64 (WriteBE64 (of_nat (8 * length inp))) inp = inp @ p"
    using assms by (simp add: md_pad_def p_def)
  have w: "be_words p = pad64_words"
    by (simp add: be_words_def p_def pad64_words_def upt_numerals replicate_numeral ReadBE32_def WriteBE64_def
        le_digits_numeral)
  have lp: "length p = 64" by (simp add: p_def)
  have "md_absorb 64 f s (inp @ p) = f (f s inp) p" for f :: "u32 list \<Rightarrow> bytes \<Rightarrow> u32 list" and s
    using assms lp by (simp add: md_absorb_step md_absorb_short)
  then show ?thesis unfolding fips_sha256_def pad by (simp only: w)
qed

lemma fips_sha256_32:
  assumes "length ws = 8"
  shows "fips_sha256 (concat (map WriteBE32 ws)) =
    concat (map WriteBE32 (fips_compress sha256_Initialize (ws @ [0x80000000, 0, 0, 0, 0, 0, 0, 256])))"
proof -
  define p :: bytes where "p = 0x80 # replicate 23 0 @ WriteBE64 256"
  let ?m = "concat (map WriteBE32 ws)"
  have len: "length ?m = 32" using assms by (simp add: concat_map_8)
  have pad: "md_pad 64 (WriteBE64 (of_nat (8 * length ?m))) ?m = ?m @ p"
    using len by (simp add: md_pad_def p_def)
  have "map (\<lambda>i. ReadBE32 (drop (4 * i) p)) [0..<16 - 8] = [0x80000000, 0, 0, 0, 0, 0, 0, 256]"
    by (simp add: p_def upt_numerals replicate_numeral ReadBE32_def WriteBE64_def le_digits_numeral)
  then have w: "be_words (?m @ p) = ws @ [0x80000000, 0, 0, 0, 0, 0, 0, 256]"
    using be_words_append [OF assms, of p] by simp
  have lp: "length (?m @ p) = 64" using len by (simp add: p_def)
  have "md_absorb 64 f s x = f s x" if "length x = 64" for f :: "u32 list \<Rightarrow> bytes \<Rightarrow> u32 list" and s x
    using that by (simp add: md_absorb_step md_absorb_short)
  then show ?thesis unfolding fips_sha256_def pad using lp by (simp only: w)
qed

lemma TransformD64_double:
  assumes "length inp = 64"
  shows "sha256_TransformD64 inp = fips_sha256 (fips_sha256 inp)"
  unfolding sha256_TransformD64_def sha256_D64_1_block sha256_block_compress
    sha256_D64_2_block [OF length_fips_compress] sha256_D64_3_block [OF length_fips_compress]
    fips_sha256_64 [OF assms] fips_sha256_32 [OF length_fips_compress] ..

lemma sha256_block_prefix: "sha256_TransformD64 (take 64 inp) = sha256_TransformD64 inp"
  by (simp add: sha256_TransformD64_def sha256_D64_1_block sha256_block_take)

lemma SHA256D64_blocks:
  "\<forall>b\<in>set bs. length b = 64 \<Longrightarrow> SHA256D64 (concat bs) (length bs) = concat (map (\<lambda>b. fips_sha256 (fips_sha256 b)) bs)"
proof (induction bs)
  case (Cons b bs)
  then have "sha256_TransformD64 (b @ concat bs) = fips_sha256 (fips_sha256 b)"
    using sha256_block_prefix [of "b @ concat bs"] TransformD64_double [of b] by simp
  then show ?case using Cons by simp
qed simp

text \<open>
  \<open>SHA256D64\<close>, the routine behind the Merkle tree, is double SHA-256: on \<open>n\<close> blocks of 64
  bytes it writes, for each of them in order, what \<open>CSHA256\<close> gives for what \<open>CSHA256\<close> gives for
  the block. Its three unrolled transformations, in two of which the padding has been folded into the
  constants of the rounds, lose nothing.
\<close>

theorem SHA256D64_is_double_sha256:
  assumes "\<forall>b\<in>set bs. length b = 64"
  shows "SHA256D64 (concat bs) (length bs) =
    concat (map (\<lambda>b. case snd (CSHA256_Finalize (CSHA256_Write CSHA256_init b)) of
                       Inr h1 \<Rightarrow> (case snd (CSHA256_Finalize (CSHA256_Write CSHA256_init h1)) of
                                   Inr h2 \<Rightarrow> h2 | Inl _ \<Rightarrow> [])
                     | Inl _ \<Rightarrow> []) bs)"
proof -
  have "snd (CSHA256_Finalize (CSHA256_Write CSHA256_init m)) = Inr (fips_sha256 m)" for m
    using CSHA256_pieces [of "[m]"] by simp
  then show ?thesis by (simp add: SHA256D64_blocks [OF assms])
qed

theorem SHA256D64_is_double_sha256_witness:
  "SHA256D64 (concat [replicate 64 1]) (length [replicate 64 1 :: bytes]) =
    concat (map (\<lambda>b. case snd (CSHA256_Finalize (CSHA256_Write CSHA256_init b)) of
                       Inr h1 \<Rightarrow> (case snd (CSHA256_Finalize (CSHA256_Write CSHA256_init h1)) of
                                   Inr h2 \<Rightarrow> h2 | Inl _ \<Rightarrow> [])
                     | Inl _ \<Rightarrow> []) [replicate 64 1])"
  by (rule SHA256D64_is_double_sha256) simp

end
