(* ===== verification/Ripemd160.thy ===== *)
theory Ripemd160
  imports BlockHash
begin

text \<open>\<^verbatim>\<open>src/crypto/ripemd160.cpp\<close>: RIPEMD-160, written out round by round, and the class
  \<open>CRIPEMD160\<close>.\<close>

section \<open>Rounds\<close>

definition ripemd160_f1 :: "u32 \<Rightarrow> u32 \<Rightarrow> u32 \<Rightarrow> u32" where
  "ripemd160_f1 x y z = x XOR y XOR z"

definition ripemd160_f2 :: "u32 \<Rightarrow> u32 \<Rightarrow> u32 \<Rightarrow> u32" where
  "ripemd160_f2 x y z = (x AND y) OR (NOT x AND z)"

definition ripemd160_f3 :: "u32 \<Rightarrow> u32 \<Rightarrow> u32 \<Rightarrow> u32" where
  "ripemd160_f3 x y z = (x OR NOT y) XOR z"

definition ripemd160_f4 :: "u32 \<Rightarrow> u32 \<Rightarrow> u32 \<Rightarrow> u32" where
  "ripemd160_f4 x y z = (x AND z) OR (y AND NOT z)"

definition ripemd160_f5 :: "u32 \<Rightarrow> u32 \<Rightarrow> u32 \<Rightarrow> u32" where
  "ripemd160_f5 x y z = x XOR (y OR NOT z)"

definition ripemd160_Initialize :: "u32 list" where
  "ripemd160_Initialize = [0x67452301, 0xefcdab89, 0x98badcfe, 0x10325476, 0xc3d2e1f0]"

definition ripemd160_rol :: "u32 \<Rightarrow> nat \<Rightarrow> u32" where
  "ripemd160_rol x i = push_bit i x OR drop_bit (32 - i) x"

text \<open>A round gives the new values of its reference arguments \<open>a\<close> and \<open>c\<close>.\<close>

definition ripemd160_Round ::
  "u32 \<Rightarrow> u32 \<Rightarrow> u32 \<Rightarrow> u32 \<Rightarrow> u32 \<Rightarrow> u32 \<Rightarrow> u32 \<Rightarrow> u32 \<Rightarrow> nat \<Rightarrow> u32 \<times> u32" where
  "ripemd160_Round a b c d e f x k r = (ripemd160_rol (a + f + x + k) r + e, ripemd160_rol c 10)"

definition ripemd160_R11 :: "u32 \<Rightarrow> u32 \<Rightarrow> u32 \<Rightarrow> u32 \<Rightarrow> u32 \<Rightarrow> u32 \<Rightarrow> nat \<Rightarrow> u32 \<times> u32" where
  "ripemd160_R11 a b c d e x r = ripemd160_Round a b c d e (ripemd160_f1 b c d) x 0 r"

definition ripemd160_R21 :: "u32 \<Rightarrow> u32 \<Rightarrow> u32 \<Rightarrow> u32 \<Rightarrow> u32 \<Rightarrow> u32 \<Rightarrow> nat \<Rightarrow> u32 \<times> u32" where
  "ripemd160_R21 a b c d e x r = ripemd160_Round a b c d e (ripemd160_f2 b c d) x 0x5a827999 r"

definition ripemd160_R31 :: "u32 \<Rightarrow> u32 \<Rightarrow> u32 \<Rightarrow> u32 \<Rightarrow> u32 \<Rightarrow> u32 \<Rightarrow> nat \<Rightarrow> u32 \<times> u32" where
  "ripemd160_R31 a b c d e x r = ripemd160_Round a b c d e (ripemd160_f3 b c d) x 0x6ed9eba1 r"

definition ripemd160_R41 :: "u32 \<Rightarrow> u32 \<Rightarrow> u32 \<Rightarrow> u32 \<Rightarrow> u32 \<Rightarrow> u32 \<Rightarrow> nat \<Rightarrow> u32 \<times> u32" where
  "ripemd160_R41 a b c d e x r = ripemd160_Round a b c d e (ripemd160_f4 b c d) x 0x8f1bbcdc r"

definition ripemd160_R51 :: "u32 \<Rightarrow> u32 \<Rightarrow> u32 \<Rightarrow> u32 \<Rightarrow> u32 \<Rightarrow> u32 \<Rightarrow> nat \<Rightarrow> u32 \<times> u32" where
  "ripemd160_R51 a b c d e x r = ripemd160_Round a b c d e (ripemd160_f5 b c d) x 0xa953fd4e r"

definition ripemd160_R12 :: "u32 \<Rightarrow> u32 \<Rightarrow> u32 \<Rightarrow> u32 \<Rightarrow> u32 \<Rightarrow> u32 \<Rightarrow> nat \<Rightarrow> u32 \<times> u32" where
  "ripemd160_R12 a b c d e x r = ripemd160_Round a b c d e (ripemd160_f5 b c d) x 0x50a28be6 r"

definition ripemd160_R22 :: "u32 \<Rightarrow> u32 \<Rightarrow> u32 \<Rightarrow> u32 \<Rightarrow> u32 \<Rightarrow> u32 \<Rightarrow> nat \<Rightarrow> u32 \<times> u32" where
  "ripemd160_R22 a b c d e x r = ripemd160_Round a b c d e (ripemd160_f4 b c d) x 0x5c4dd124 r"

definition ripemd160_R32 :: "u32 \<Rightarrow> u32 \<Rightarrow> u32 \<Rightarrow> u32 \<Rightarrow> u32 \<Rightarrow> u32 \<Rightarrow> nat \<Rightarrow> u32 \<times> u32" where
  "ripemd160_R32 a b c d e x r = ripemd160_Round a b c d e (ripemd160_f3 b c d) x 0x6d703ef3 r"

definition ripemd160_R42 :: "u32 \<Rightarrow> u32 \<Rightarrow> u32 \<Rightarrow> u32 \<Rightarrow> u32 \<Rightarrow> u32 \<Rightarrow> nat \<Rightarrow> u32 \<times> u32" where
  "ripemd160_R42 a b c d e x r = ripemd160_Round a b c d e (ripemd160_f2 b c d) x 0x7a6d76e9 r"

definition ripemd160_R52 :: "u32 \<Rightarrow> u32 \<Rightarrow> u32 \<Rightarrow> u32 \<Rightarrow> u32 \<Rightarrow> u32 \<Rightarrow> nat \<Rightarrow> u32 \<times> u32" where
  "ripemd160_R52 a b c d e x r = ripemd160_Round a b c d e (ripemd160_f1 b c d) x 0 r"

definition ripemd160_Transform :: "u32 list \<Rightarrow> bytes \<Rightarrow> u32 list" where
  "ripemd160_Transform s chunk =
     (let a1 = s ! 0; b1 = s ! 1; c1 = s ! 2; d1 = s ! 3; e1 = s ! 4;
          a2 = a1; b2 = b1; c2 = c1; d2 = d1; e2 = e1;
          w0 = ReadLE32 chunk; w1 = ReadLE32 (drop 4 chunk); w2 = ReadLE32 (drop 8 chunk); w3 = ReadLE32 (drop 12 chunk);
          w4 = ReadLE32 (drop 16 chunk); w5 = ReadLE32 (drop 20 chunk); w6 = ReadLE32 (drop 24 chunk); w7 = ReadLE32 (drop 28 chunk);
          w8 = ReadLE32 (drop 32 chunk); w9 = ReadLE32 (drop 36 chunk); w10 = ReadLE32 (drop 40 chunk); w11 = ReadLE32 (drop 44 chunk);
          w12 = ReadLE32 (drop 48 chunk); w13 = ReadLE32 (drop 52 chunk); w14 = ReadLE32 (drop 56 chunk); w15 = ReadLE32 (drop 60 chunk);
          (a1, c1) = ripemd160_R11 a1 b1 c1 d1 e1 w0 11;
          (a2, c2) = ripemd160_R12 a2 b2 c2 d2 e2 w5 8;
          (e1, b1) = ripemd160_R11 e1 a1 b1 c1 d1 w1 14;
          (e2, b2) = ripemd160_R12 e2 a2 b2 c2 d2 w14 9;
          (d1, a1) = ripemd160_R11 d1 e1 a1 b1 c1 w2 15;
          (d2, a2) = ripemd160_R12 d2 e2 a2 b2 c2 w7 9;
          (c1, e1) = ripemd160_R11 c1 d1 e1 a1 b1 w3 12;
          (c2, e2) = ripemd160_R12 c2 d2 e2 a2 b2 w0 11;
          (b1, d1) = ripemd160_R11 b1 c1 d1 e1 a1 w4 5;
          (b2, d2) = ripemd160_R12 b2 c2 d2 e2 a2 w9 13;
          (a1, c1) = ripemd160_R11 a1 b1 c1 d1 e1 w5 8;
          (a2, c2) = ripemd160_R12 a2 b2 c2 d2 e2 w2 15;
          (e1, b1) = ripemd160_R11 e1 a1 b1 c1 d1 w6 7;
          (e2, b2) = ripemd160_R12 e2 a2 b2 c2 d2 w11 15;
          (d1, a1) = ripemd160_R11 d1 e1 a1 b1 c1 w7 9;
          (d2, a2) = ripemd160_R12 d2 e2 a2 b2 c2 w4 5;
          (c1, e1) = ripemd160_R11 c1 d1 e1 a1 b1 w8 11;
          (c2, e2) = ripemd160_R12 c2 d2 e2 a2 b2 w13 7;
          (b1, d1) = ripemd160_R11 b1 c1 d1 e1 a1 w9 13;
          (b2, d2) = ripemd160_R12 b2 c2 d2 e2 a2 w6 7;
          (a1, c1) = ripemd160_R11 a1 b1 c1 d1 e1 w10 14;
          (a2, c2) = ripemd160_R12 a2 b2 c2 d2 e2 w15 8;
          (e1, b1) = ripemd160_R11 e1 a1 b1 c1 d1 w11 15;
          (e2, b2) = ripemd160_R12 e2 a2 b2 c2 d2 w8 11;
          (d1, a1) = ripemd160_R11 d1 e1 a1 b1 c1 w12 6;
          (d2, a2) = ripemd160_R12 d2 e2 a2 b2 c2 w1 14;
          (c1, e1) = ripemd160_R11 c1 d1 e1 a1 b1 w13 7;
          (c2, e2) = ripemd160_R12 c2 d2 e2 a2 b2 w10 14;
          (b1, d1) = ripemd160_R11 b1 c1 d1 e1 a1 w14 9;
          (b2, d2) = ripemd160_R12 b2 c2 d2 e2 a2 w3 12;
          (a1, c1) = ripemd160_R11 a1 b1 c1 d1 e1 w15 8;
          (a2, c2) = ripemd160_R12 a2 b2 c2 d2 e2 w12 6;
          (e1, b1) = ripemd160_R21 e1 a1 b1 c1 d1 w7 7;
          (e2, b2) = ripemd160_R22 e2 a2 b2 c2 d2 w6 9;
          (d1, a1) = ripemd160_R21 d1 e1 a1 b1 c1 w4 6;
          (d2, a2) = ripemd160_R22 d2 e2 a2 b2 c2 w11 13;
          (c1, e1) = ripemd160_R21 c1 d1 e1 a1 b1 w13 8;
          (c2, e2) = ripemd160_R22 c2 d2 e2 a2 b2 w3 15;
          (b1, d1) = ripemd160_R21 b1 c1 d1 e1 a1 w1 13;
          (b2, d2) = ripemd160_R22 b2 c2 d2 e2 a2 w7 7;
          (a1, c1) = ripemd160_R21 a1 b1 c1 d1 e1 w10 11;
          (a2, c2) = ripemd160_R22 a2 b2 c2 d2 e2 w0 12;
          (e1, b1) = ripemd160_R21 e1 a1 b1 c1 d1 w6 9;
          (e2, b2) = ripemd160_R22 e2 a2 b2 c2 d2 w13 8;
          (d1, a1) = ripemd160_R21 d1 e1 a1 b1 c1 w15 7;
          (d2, a2) = ripemd160_R22 d2 e2 a2 b2 c2 w5 9;
          (c1, e1) = ripemd160_R21 c1 d1 e1 a1 b1 w3 15;
          (c2, e2) = ripemd160_R22 c2 d2 e2 a2 b2 w10 11;
          (b1, d1) = ripemd160_R21 b1 c1 d1 e1 a1 w12 7;
          (b2, d2) = ripemd160_R22 b2 c2 d2 e2 a2 w14 7;
          (a1, c1) = ripemd160_R21 a1 b1 c1 d1 e1 w0 12;
          (a2, c2) = ripemd160_R22 a2 b2 c2 d2 e2 w15 7;
          (e1, b1) = ripemd160_R21 e1 a1 b1 c1 d1 w9 15;
          (e2, b2) = ripemd160_R22 e2 a2 b2 c2 d2 w8 12;
          (d1, a1) = ripemd160_R21 d1 e1 a1 b1 c1 w5 9;
          (d2, a2) = ripemd160_R22 d2 e2 a2 b2 c2 w12 7;
          (c1, e1) = ripemd160_R21 c1 d1 e1 a1 b1 w2 11;
          (c2, e2) = ripemd160_R22 c2 d2 e2 a2 b2 w4 6;
          (b1, d1) = ripemd160_R21 b1 c1 d1 e1 a1 w14 7;
          (b2, d2) = ripemd160_R22 b2 c2 d2 e2 a2 w9 15;
          (a1, c1) = ripemd160_R21 a1 b1 c1 d1 e1 w11 13;
          (a2, c2) = ripemd160_R22 a2 b2 c2 d2 e2 w1 13;
          (e1, b1) = ripemd160_R21 e1 a1 b1 c1 d1 w8 12;
          (e2, b2) = ripemd160_R22 e2 a2 b2 c2 d2 w2 11;
          (d1, a1) = ripemd160_R31 d1 e1 a1 b1 c1 w3 11;
          (d2, a2) = ripemd160_R32 d2 e2 a2 b2 c2 w15 9;
          (c1, e1) = ripemd160_R31 c1 d1 e1 a1 b1 w10 13;
          (c2, e2) = ripemd160_R32 c2 d2 e2 a2 b2 w5 7;
          (b1, d1) = ripemd160_R31 b1 c1 d1 e1 a1 w14 6;
          (b2, d2) = ripemd160_R32 b2 c2 d2 e2 a2 w1 15;
          (a1, c1) = ripemd160_R31 a1 b1 c1 d1 e1 w4 7;
          (a2, c2) = ripemd160_R32 a2 b2 c2 d2 e2 w3 11;
          (e1, b1) = ripemd160_R31 e1 a1 b1 c1 d1 w9 14;
          (e2, b2) = ripemd160_R32 e2 a2 b2 c2 d2 w7 8;
          (d1, a1) = ripemd160_R31 d1 e1 a1 b1 c1 w15 9;
          (d2, a2) = ripemd160_R32 d2 e2 a2 b2 c2 w14 6;
          (c1, e1) = ripemd160_R31 c1 d1 e1 a1 b1 w8 13;
          (c2, e2) = ripemd160_R32 c2 d2 e2 a2 b2 w6 6;
          (b1, d1) = ripemd160_R31 b1 c1 d1 e1 a1 w1 15;
          (b2, d2) = ripemd160_R32 b2 c2 d2 e2 a2 w9 14;
          (a1, c1) = ripemd160_R31 a1 b1 c1 d1 e1 w2 14;
          (a2, c2) = ripemd160_R32 a2 b2 c2 d2 e2 w11 12;
          (e1, b1) = ripemd160_R31 e1 a1 b1 c1 d1 w7 8;
          (e2, b2) = ripemd160_R32 e2 a2 b2 c2 d2 w8 13;
          (d1, a1) = ripemd160_R31 d1 e1 a1 b1 c1 w0 13;
          (d2, a2) = ripemd160_R32 d2 e2 a2 b2 c2 w12 5;
          (c1, e1) = ripemd160_R31 c1 d1 e1 a1 b1 w6 6;
          (c2, e2) = ripemd160_R32 c2 d2 e2 a2 b2 w2 14;
          (b1, d1) = ripemd160_R31 b1 c1 d1 e1 a1 w13 5;
          (b2, d2) = ripemd160_R32 b2 c2 d2 e2 a2 w10 13;
          (a1, c1) = ripemd160_R31 a1 b1 c1 d1 e1 w11 12;
          (a2, c2) = ripemd160_R32 a2 b2 c2 d2 e2 w0 13;
          (e1, b1) = ripemd160_R31 e1 a1 b1 c1 d1 w5 7;
          (e2, b2) = ripemd160_R32 e2 a2 b2 c2 d2 w4 7;
          (d1, a1) = ripemd160_R31 d1 e1 a1 b1 c1 w12 5;
          (d2, a2) = ripemd160_R32 d2 e2 a2 b2 c2 w13 5;
          (c1, e1) = ripemd160_R41 c1 d1 e1 a1 b1 w1 11;
          (c2, e2) = ripemd160_R42 c2 d2 e2 a2 b2 w8 15;
          (b1, d1) = ripemd160_R41 b1 c1 d1 e1 a1 w9 12;
          (b2, d2) = ripemd160_R42 b2 c2 d2 e2 a2 w6 5;
          (a1, c1) = ripemd160_R41 a1 b1 c1 d1 e1 w11 14;
          (a2, c2) = ripemd160_R42 a2 b2 c2 d2 e2 w4 8;
          (e1, b1) = ripemd160_R41 e1 a1 b1 c1 d1 w10 15;
          (e2, b2) = ripemd160_R42 e2 a2 b2 c2 d2 w1 11;
          (d1, a1) = ripemd160_R41 d1 e1 a1 b1 c1 w0 14;
          (d2, a2) = ripemd160_R42 d2 e2 a2 b2 c2 w3 14;
          (c1, e1) = ripemd160_R41 c1 d1 e1 a1 b1 w8 15;
          (c2, e2) = ripemd160_R42 c2 d2 e2 a2 b2 w11 14;
          (b1, d1) = ripemd160_R41 b1 c1 d1 e1 a1 w12 9;
          (b2, d2) = ripemd160_R42 b2 c2 d2 e2 a2 w15 6;
          (a1, c1) = ripemd160_R41 a1 b1 c1 d1 e1 w4 8;
          (a2, c2) = ripemd160_R42 a2 b2 c2 d2 e2 w0 14;
          (e1, b1) = ripemd160_R41 e1 a1 b1 c1 d1 w13 9;
          (e2, b2) = ripemd160_R42 e2 a2 b2 c2 d2 w5 6;
          (d1, a1) = ripemd160_R41 d1 e1 a1 b1 c1 w3 14;
          (d2, a2) = ripemd160_R42 d2 e2 a2 b2 c2 w12 9;
          (c1, e1) = ripemd160_R41 c1 d1 e1 a1 b1 w7 5;
          (c2, e2) = ripemd160_R42 c2 d2 e2 a2 b2 w2 12;
          (b1, d1) = ripemd160_R41 b1 c1 d1 e1 a1 w15 6;
          (b2, d2) = ripemd160_R42 b2 c2 d2 e2 a2 w13 9;
          (a1, c1) = ripemd160_R41 a1 b1 c1 d1 e1 w14 8;
          (a2, c2) = ripemd160_R42 a2 b2 c2 d2 e2 w9 12;
          (e1, b1) = ripemd160_R41 e1 a1 b1 c1 d1 w5 6;
          (e2, b2) = ripemd160_R42 e2 a2 b2 c2 d2 w7 5;
          (d1, a1) = ripemd160_R41 d1 e1 a1 b1 c1 w6 5;
          (d2, a2) = ripemd160_R42 d2 e2 a2 b2 c2 w10 15;
          (c1, e1) = ripemd160_R41 c1 d1 e1 a1 b1 w2 12;
          (c2, e2) = ripemd160_R42 c2 d2 e2 a2 b2 w14 8;
          (b1, d1) = ripemd160_R51 b1 c1 d1 e1 a1 w4 9;
          (b2, d2) = ripemd160_R52 b2 c2 d2 e2 a2 w12 8;
          (a1, c1) = ripemd160_R51 a1 b1 c1 d1 e1 w0 15;
          (a2, c2) = ripemd160_R52 a2 b2 c2 d2 e2 w15 5;
          (e1, b1) = ripemd160_R51 e1 a1 b1 c1 d1 w5 5;
          (e2, b2) = ripemd160_R52 e2 a2 b2 c2 d2 w10 12;
          (d1, a1) = ripemd160_R51 d1 e1 a1 b1 c1 w9 11;
          (d2, a2) = ripemd160_R52 d2 e2 a2 b2 c2 w4 9;
          (c1, e1) = ripemd160_R51 c1 d1 e1 a1 b1 w7 6;
          (c2, e2) = ripemd160_R52 c2 d2 e2 a2 b2 w1 12;
          (b1, d1) = ripemd160_R51 b1 c1 d1 e1 a1 w12 8;
          (b2, d2) = ripemd160_R52 b2 c2 d2 e2 a2 w5 5;
          (a1, c1) = ripemd160_R51 a1 b1 c1 d1 e1 w2 13;
          (a2, c2) = ripemd160_R52 a2 b2 c2 d2 e2 w8 14;
          (e1, b1) = ripemd160_R51 e1 a1 b1 c1 d1 w10 12;
          (e2, b2) = ripemd160_R52 e2 a2 b2 c2 d2 w7 6;
          (d1, a1) = ripemd160_R51 d1 e1 a1 b1 c1 w14 5;
          (d2, a2) = ripemd160_R52 d2 e2 a2 b2 c2 w6 8;
          (c1, e1) = ripemd160_R51 c1 d1 e1 a1 b1 w1 12;
          (c2, e2) = ripemd160_R52 c2 d2 e2 a2 b2 w2 13;
          (b1, d1) = ripemd160_R51 b1 c1 d1 e1 a1 w3 13;
          (b2, d2) = ripemd160_R52 b2 c2 d2 e2 a2 w13 6;
          (a1, c1) = ripemd160_R51 a1 b1 c1 d1 e1 w8 14;
          (a2, c2) = ripemd160_R52 a2 b2 c2 d2 e2 w14 5;
          (e1, b1) = ripemd160_R51 e1 a1 b1 c1 d1 w11 11;
          (e2, b2) = ripemd160_R52 e2 a2 b2 c2 d2 w0 15;
          (d1, a1) = ripemd160_R51 d1 e1 a1 b1 c1 w6 8;
          (d2, a2) = ripemd160_R52 d2 e2 a2 b2 c2 w3 13;
          (c1, e1) = ripemd160_R51 c1 d1 e1 a1 b1 w15 5;
          (c2, e2) = ripemd160_R52 c2 d2 e2 a2 b2 w9 11;
          (b1, d1) = ripemd160_R51 b1 c1 d1 e1 a1 w13 6;
          (b2, d2) = ripemd160_R52 b2 c2 d2 e2 a2 w11 11
      in [s ! 1 + c1 + d2, s ! 2 + d1 + e2, s ! 3 + e1 + a2, s ! 4 + a1 + b2, s ! 0 + b1 + c2])"

section \<open>The class\<close>

definition CRIPEMD160_init :: "u32 hasher" where
  "CRIPEMD160_init = \<lparr>hs = ripemd160_Initialize, hbuf = replicate 64 0, hbytes = 0\<rparr>"

definition CRIPEMD160_Write :: "u32 hasher \<Rightarrow> bytes \<Rightarrow> u32 hasher" where
  "CRIPEMD160_Write = block_write 64 ripemd160_Transform"

definition CRIPEMD160_Finalize :: "u32 hasher \<Rightarrow> u32 hasher \<times> bytes" where
  "CRIPEMD160_Finalize h =
     (let sizedesc = WriteLE64 (push_bit 3 (hbytes h));
          h1 = CRIPEMD160_Write h (pad_bytes (1 + (119 - unat (hbytes h) mod 64) mod 64));
          h2 = CRIPEMD160_Write h1 sizedesc
      in (h2, WriteLE32 (hs h2 ! 0) @ WriteLE32 (hs h2 ! 1) @ WriteLE32 (hs h2 ! 2) @ WriteLE32 (hs h2 ! 3) @
              WriteLE32 (hs h2 ! 4)))"

definition CRIPEMD160_Reset :: "u32 hasher \<Rightarrow> u32 hasher" where
  "CRIPEMD160_Reset h = h\<lparr>hbytes := 0, hs := ripemd160_Initialize\<rparr>"

section \<open>\<open>CRIPEMD160\<close> as a block hasher\<close>

text \<open>The iterated hash of the padded message.\<close>

definition ripemd160_hash :: "bytes \<Rightarrow> bytes" where
  "ripemd160_hash m =
     concat (map WriteLE32 (md_absorb 64 ripemd160_Transform ripemd160_Initialize
       (md_pad 64 (WriteLE64 (of_nat (8 * length m))) m)))"

lemma ripemd160_Transform_take: "ripemd160_Transform s (take 64 x) = ripemd160_Transform s x"
proof -
  have r: "ReadLE32 (take 64 x) = ReadLE32 x"
    "ReadLE32 (drop 4 (take 64 x)) = ReadLE32 (drop 4 x)"
    "ReadLE32 (drop 8 (take 64 x)) = ReadLE32 (drop 8 x)"
    "ReadLE32 (drop 12 (take 64 x)) = ReadLE32 (drop 12 x)"
    "ReadLE32 (drop 16 (take 64 x)) = ReadLE32 (drop 16 x)"
    "ReadLE32 (drop 20 (take 64 x)) = ReadLE32 (drop 20 x)"
    "ReadLE32 (drop 24 (take 64 x)) = ReadLE32 (drop 24 x)"
    "ReadLE32 (drop 28 (take 64 x)) = ReadLE32 (drop 28 x)"
    "ReadLE32 (drop 32 (take 64 x)) = ReadLE32 (drop 32 x)"
    "ReadLE32 (drop 36 (take 64 x)) = ReadLE32 (drop 36 x)"
    "ReadLE32 (drop 40 (take 64 x)) = ReadLE32 (drop 40 x)"
    "ReadLE32 (drop 44 (take 64 x)) = ReadLE32 (drop 44 x)"
    "ReadLE32 (drop 48 (take 64 x)) = ReadLE32 (drop 48 x)"
    "ReadLE32 (drop 52 (take 64 x)) = ReadLE32 (drop 52 x)"
    "ReadLE32 (drop 56 (take 64 x)) = ReadLE32 (drop 56 x)"
    "ReadLE32 (drop 60 (take 64 x)) = ReadLE32 (drop 60 x)"
    by (simp_all add: ReadLE32_def drop_take min_def)
  show ?thesis unfolding ripemd160_Transform_def r by (rule refl)
qed

interpretation ripemd160: block_hasher 64 ripemd160_Transform ripemd160_Initialize CRIPEMD160_Write
  by unfold_locales (simp_all add: ripemd160_Transform_take CRIPEMD160_Write_def)

lemma length_ripemd160_Transform: "length (ripemd160_Transform s b) = 5"
  unfolding ripemd160_Transform_def by (intro length_Let length_case_prod) simp

lemma length_ripemd160_absorb: "length (md_absorb 64 ripemd160_Transform ripemd160_Initialize m) = 5"
proof -
  have "length s = 5 \<Longrightarrow> length (md_absorb 64 ripemd160_Transform s m) = 5" for s
    by (induction "64::nat" "ripemd160_Transform" s m rule: md_absorb.induct)
      (subst md_absorb.simps, simp add: length_ripemd160_Transform)
  then show ?thesis by (simp add: ripemd160_Initialize_def)
qed

lemma CRIPEMD160_Finalize_hash:
  assumes "ripemd160.stands_for h m"
  shows "snd (CRIPEMD160_Finalize h) = ripemd160_hash m"
proof -
  have hb: "hbytes h = of_nat (length m)" using assms by (simp add: hashed_def)
  have sz: "push_bit 3 (hbytes h) = of_nat (8 * length m)" by (simp add: hb push_bit_eq_mult)
  let ?L = "(WriteLE64 (of_nat (8 * length m)))"
  have n: "1 + (119 - unat (hbytes h) mod 64) mod 64 = 1 + (64 - (length m + 1 + length ?L) mod 64) mod 64"
    using pad_count [of 9 64 "length m"] ripemd160.bufsize [OF hb] by (simp add: add.commute)
  show ?thesis
    unfolding CRIPEMD160_Finalize_def ripemd160_hash_def concat_map_5 [OF length_ripemd160_absorb]
    using ripemd160.stands_for_padded [OF assms n] by (simp add: Let_def sz)
qed

lemma CRIPEMD160_init_stands: "ripemd160.stands_for CRIPEMD160_init []"
  by (rule ripemd160.stands_for_init) (simp_all add: CRIPEMD160_init_def)

lemma CRIPEMD160_Reset_stands: "length (hbuf h) = 64 \<Longrightarrow> ripemd160.stands_for (CRIPEMD160_Reset h) []"
  by (rule ripemd160.stands_for_init) (simp_all add: CRIPEMD160_Reset_def)

end
