(* ===== verification/Sha1.thy ===== *)
theory Sha1
  imports BlockHash
begin

text \<open>\<^verbatim>\<open>src/crypto/sha1.cpp\<close>: SHA-1, written out round by round, and the class
  \<open>CSHA1\<close>.\<close>

section \<open>Rounds\<close>

text \<open>A round gives the new values of its reference arguments \<open>b\<close> and \<open>e\<close>.\<close>

definition sha1_Round ::
  "u32 \<Rightarrow> u32 \<Rightarrow> u32 \<Rightarrow> u32 \<Rightarrow> u32 \<Rightarrow> u32 \<Rightarrow> u32 \<Rightarrow> u32 \<Rightarrow> u32 \<times> u32" where
  "sha1_Round a b c d e f k w =
     (push_bit 30 b OR drop_bit 2 b, e + ((push_bit 5 a OR drop_bit 27 a) + f + k + w))"

definition sha1_f1 :: "u32 \<Rightarrow> u32 \<Rightarrow> u32 \<Rightarrow> u32" where
  "sha1_f1 b c d = d XOR (b AND (c XOR d))"

definition sha1_f2 :: "u32 \<Rightarrow> u32 \<Rightarrow> u32 \<Rightarrow> u32" where
  "sha1_f2 b c d = b XOR c XOR d"

definition sha1_f3 :: "u32 \<Rightarrow> u32 \<Rightarrow> u32 \<Rightarrow> u32" where
  "sha1_f3 b c d = (b AND c) OR (d AND (b OR c))"

definition sha1_left :: "u32 \<Rightarrow> u32" where
  "sha1_left x = push_bit 1 x OR drop_bit 31 x"

definition sha1_Initialize :: "u32 list" where
  "sha1_Initialize = [0x67452301, 0xefcdab89, 0x98badcfe, 0x10325476, 0xc3d2e1f0]"

definition sha1_k1 :: u32 where
  "sha1_k1 = 0x5a827999"

definition sha1_k2 :: u32 where
  "sha1_k2 = 0x6ed9eba1"

definition sha1_k3 :: u32 where
  "sha1_k3 = 0x8f1bbcdc"

definition sha1_k4 :: u32 where
  "sha1_k4 = 0xca62c1d6"

definition sha1_Transform :: "u32 list \<Rightarrow> bytes \<Rightarrow> u32 list" where
  "sha1_Transform s chunk =
     (let a = s ! 0; b = s ! 1; c = s ! 2; d = s ! 3; e = s ! 4;
          w0 = ReadBE32 chunk;
          (b, e) = sha1_Round a b c d e (sha1_f1 b c d) sha1_k1 w0;
          w1 = ReadBE32 (drop 4 chunk);
          (a, d) = sha1_Round e a b c d (sha1_f1 a b c) sha1_k1 w1;
          w2 = ReadBE32 (drop 8 chunk);
          (e, c) = sha1_Round d e a b c (sha1_f1 e a b) sha1_k1 w2;
          w3 = ReadBE32 (drop 12 chunk);
          (d, b) = sha1_Round c d e a b (sha1_f1 d e a) sha1_k1 w3;
          w4 = ReadBE32 (drop 16 chunk);
          (c, a) = sha1_Round b c d e a (sha1_f1 c d e) sha1_k1 w4;
          w5 = ReadBE32 (drop 20 chunk);
          (b, e) = sha1_Round a b c d e (sha1_f1 b c d) sha1_k1 w5;
          w6 = ReadBE32 (drop 24 chunk);
          (a, d) = sha1_Round e a b c d (sha1_f1 a b c) sha1_k1 w6;
          w7 = ReadBE32 (drop 28 chunk);
          (e, c) = sha1_Round d e a b c (sha1_f1 e a b) sha1_k1 w7;
          w8 = ReadBE32 (drop 32 chunk);
          (d, b) = sha1_Round c d e a b (sha1_f1 d e a) sha1_k1 w8;
          w9 = ReadBE32 (drop 36 chunk);
          (c, a) = sha1_Round b c d e a (sha1_f1 c d e) sha1_k1 w9;
          w10 = ReadBE32 (drop 40 chunk);
          (b, e) = sha1_Round a b c d e (sha1_f1 b c d) sha1_k1 w10;
          w11 = ReadBE32 (drop 44 chunk);
          (a, d) = sha1_Round e a b c d (sha1_f1 a b c) sha1_k1 w11;
          w12 = ReadBE32 (drop 48 chunk);
          (e, c) = sha1_Round d e a b c (sha1_f1 e a b) sha1_k1 w12;
          w13 = ReadBE32 (drop 52 chunk);
          (d, b) = sha1_Round c d e a b (sha1_f1 d e a) sha1_k1 w13;
          w14 = ReadBE32 (drop 56 chunk);
          (c, a) = sha1_Round b c d e a (sha1_f1 c d e) sha1_k1 w14;
          w15 = ReadBE32 (drop 60 chunk);
          (b, e) = sha1_Round a b c d e (sha1_f1 b c d) sha1_k1 w15;
          w0 = sha1_left (w0 XOR w13 XOR w8 XOR w2);
          (a, d) = sha1_Round e a b c d (sha1_f1 a b c) sha1_k1 w0;
          w1 = sha1_left (w1 XOR w14 XOR w9 XOR w3);
          (e, c) = sha1_Round d e a b c (sha1_f1 e a b) sha1_k1 w1;
          w2 = sha1_left (w2 XOR w15 XOR w10 XOR w4);
          (d, b) = sha1_Round c d e a b (sha1_f1 d e a) sha1_k1 w2;
          w3 = sha1_left (w3 XOR w0 XOR w11 XOR w5);
          (c, a) = sha1_Round b c d e a (sha1_f1 c d e) sha1_k1 w3;
          w4 = sha1_left (w4 XOR w1 XOR w12 XOR w6);
          (b, e) = sha1_Round a b c d e (sha1_f2 b c d) sha1_k2 w4;
          w5 = sha1_left (w5 XOR w2 XOR w13 XOR w7);
          (a, d) = sha1_Round e a b c d (sha1_f2 a b c) sha1_k2 w5;
          w6 = sha1_left (w6 XOR w3 XOR w14 XOR w8);
          (e, c) = sha1_Round d e a b c (sha1_f2 e a b) sha1_k2 w6;
          w7 = sha1_left (w7 XOR w4 XOR w15 XOR w9);
          (d, b) = sha1_Round c d e a b (sha1_f2 d e a) sha1_k2 w7;
          w8 = sha1_left (w8 XOR w5 XOR w0 XOR w10);
          (c, a) = sha1_Round b c d e a (sha1_f2 c d e) sha1_k2 w8;
          w9 = sha1_left (w9 XOR w6 XOR w1 XOR w11);
          (b, e) = sha1_Round a b c d e (sha1_f2 b c d) sha1_k2 w9;
          w10 = sha1_left (w10 XOR w7 XOR w2 XOR w12);
          (a, d) = sha1_Round e a b c d (sha1_f2 a b c) sha1_k2 w10;
          w11 = sha1_left (w11 XOR w8 XOR w3 XOR w13);
          (e, c) = sha1_Round d e a b c (sha1_f2 e a b) sha1_k2 w11;
          w12 = sha1_left (w12 XOR w9 XOR w4 XOR w14);
          (d, b) = sha1_Round c d e a b (sha1_f2 d e a) sha1_k2 w12;
          w13 = sha1_left (w13 XOR w10 XOR w5 XOR w15);
          (c, a) = sha1_Round b c d e a (sha1_f2 c d e) sha1_k2 w13;
          w14 = sha1_left (w14 XOR w11 XOR w6 XOR w0);
          (b, e) = sha1_Round a b c d e (sha1_f2 b c d) sha1_k2 w14;
          w15 = sha1_left (w15 XOR w12 XOR w7 XOR w1);
          (a, d) = sha1_Round e a b c d (sha1_f2 a b c) sha1_k2 w15;
          w0 = sha1_left (w0 XOR w13 XOR w8 XOR w2);
          (e, c) = sha1_Round d e a b c (sha1_f2 e a b) sha1_k2 w0;
          w1 = sha1_left (w1 XOR w14 XOR w9 XOR w3);
          (d, b) = sha1_Round c d e a b (sha1_f2 d e a) sha1_k2 w1;
          w2 = sha1_left (w2 XOR w15 XOR w10 XOR w4);
          (c, a) = sha1_Round b c d e a (sha1_f2 c d e) sha1_k2 w2;
          w3 = sha1_left (w3 XOR w0 XOR w11 XOR w5);
          (b, e) = sha1_Round a b c d e (sha1_f2 b c d) sha1_k2 w3;
          w4 = sha1_left (w4 XOR w1 XOR w12 XOR w6);
          (a, d) = sha1_Round e a b c d (sha1_f2 a b c) sha1_k2 w4;
          w5 = sha1_left (w5 XOR w2 XOR w13 XOR w7);
          (e, c) = sha1_Round d e a b c (sha1_f2 e a b) sha1_k2 w5;
          w6 = sha1_left (w6 XOR w3 XOR w14 XOR w8);
          (d, b) = sha1_Round c d e a b (sha1_f2 d e a) sha1_k2 w6;
          w7 = sha1_left (w7 XOR w4 XOR w15 XOR w9);
          (c, a) = sha1_Round b c d e a (sha1_f2 c d e) sha1_k2 w7;
          w8 = sha1_left (w8 XOR w5 XOR w0 XOR w10);
          (b, e) = sha1_Round a b c d e (sha1_f3 b c d) sha1_k3 w8;
          w9 = sha1_left (w9 XOR w6 XOR w1 XOR w11);
          (a, d) = sha1_Round e a b c d (sha1_f3 a b c) sha1_k3 w9;
          w10 = sha1_left (w10 XOR w7 XOR w2 XOR w12);
          (e, c) = sha1_Round d e a b c (sha1_f3 e a b) sha1_k3 w10;
          w11 = sha1_left (w11 XOR w8 XOR w3 XOR w13);
          (d, b) = sha1_Round c d e a b (sha1_f3 d e a) sha1_k3 w11;
          w12 = sha1_left (w12 XOR w9 XOR w4 XOR w14);
          (c, a) = sha1_Round b c d e a (sha1_f3 c d e) sha1_k3 w12;
          w13 = sha1_left (w13 XOR w10 XOR w5 XOR w15);
          (b, e) = sha1_Round a b c d e (sha1_f3 b c d) sha1_k3 w13;
          w14 = sha1_left (w14 XOR w11 XOR w6 XOR w0);
          (a, d) = sha1_Round e a b c d (sha1_f3 a b c) sha1_k3 w14;
          w15 = sha1_left (w15 XOR w12 XOR w7 XOR w1);
          (e, c) = sha1_Round d e a b c (sha1_f3 e a b) sha1_k3 w15;
          w0 = sha1_left (w0 XOR w13 XOR w8 XOR w2);
          (d, b) = sha1_Round c d e a b (sha1_f3 d e a) sha1_k3 w0;
          w1 = sha1_left (w1 XOR w14 XOR w9 XOR w3);
          (c, a) = sha1_Round b c d e a (sha1_f3 c d e) sha1_k3 w1;
          w2 = sha1_left (w2 XOR w15 XOR w10 XOR w4);
          (b, e) = sha1_Round a b c d e (sha1_f3 b c d) sha1_k3 w2;
          w3 = sha1_left (w3 XOR w0 XOR w11 XOR w5);
          (a, d) = sha1_Round e a b c d (sha1_f3 a b c) sha1_k3 w3;
          w4 = sha1_left (w4 XOR w1 XOR w12 XOR w6);
          (e, c) = sha1_Round d e a b c (sha1_f3 e a b) sha1_k3 w4;
          w5 = sha1_left (w5 XOR w2 XOR w13 XOR w7);
          (d, b) = sha1_Round c d e a b (sha1_f3 d e a) sha1_k3 w5;
          w6 = sha1_left (w6 XOR w3 XOR w14 XOR w8);
          (c, a) = sha1_Round b c d e a (sha1_f3 c d e) sha1_k3 w6;
          w7 = sha1_left (w7 XOR w4 XOR w15 XOR w9);
          (b, e) = sha1_Round a b c d e (sha1_f3 b c d) sha1_k3 w7;
          w8 = sha1_left (w8 XOR w5 XOR w0 XOR w10);
          (a, d) = sha1_Round e a b c d (sha1_f3 a b c) sha1_k3 w8;
          w9 = sha1_left (w9 XOR w6 XOR w1 XOR w11);
          (e, c) = sha1_Round d e a b c (sha1_f3 e a b) sha1_k3 w9;
          w10 = sha1_left (w10 XOR w7 XOR w2 XOR w12);
          (d, b) = sha1_Round c d e a b (sha1_f3 d e a) sha1_k3 w10;
          w11 = sha1_left (w11 XOR w8 XOR w3 XOR w13);
          (c, a) = sha1_Round b c d e a (sha1_f3 c d e) sha1_k3 w11;
          w12 = sha1_left (w12 XOR w9 XOR w4 XOR w14);
          (b, e) = sha1_Round a b c d e (sha1_f2 b c d) sha1_k4 w12;
          w13 = sha1_left (w13 XOR w10 XOR w5 XOR w15);
          (a, d) = sha1_Round e a b c d (sha1_f2 a b c) sha1_k4 w13;
          w14 = sha1_left (w14 XOR w11 XOR w6 XOR w0);
          (e, c) = sha1_Round d e a b c (sha1_f2 e a b) sha1_k4 w14;
          w15 = sha1_left (w15 XOR w12 XOR w7 XOR w1);
          (d, b) = sha1_Round c d e a b (sha1_f2 d e a) sha1_k4 w15;
          w0 = sha1_left (w0 XOR w13 XOR w8 XOR w2);
          (c, a) = sha1_Round b c d e a (sha1_f2 c d e) sha1_k4 w0;
          w1 = sha1_left (w1 XOR w14 XOR w9 XOR w3);
          (b, e) = sha1_Round a b c d e (sha1_f2 b c d) sha1_k4 w1;
          w2 = sha1_left (w2 XOR w15 XOR w10 XOR w4);
          (a, d) = sha1_Round e a b c d (sha1_f2 a b c) sha1_k4 w2;
          w3 = sha1_left (w3 XOR w0 XOR w11 XOR w5);
          (e, c) = sha1_Round d e a b c (sha1_f2 e a b) sha1_k4 w3;
          w4 = sha1_left (w4 XOR w1 XOR w12 XOR w6);
          (d, b) = sha1_Round c d e a b (sha1_f2 d e a) sha1_k4 w4;
          w5 = sha1_left (w5 XOR w2 XOR w13 XOR w7);
          (c, a) = sha1_Round b c d e a (sha1_f2 c d e) sha1_k4 w5;
          w6 = sha1_left (w6 XOR w3 XOR w14 XOR w8);
          (b, e) = sha1_Round a b c d e (sha1_f2 b c d) sha1_k4 w6;
          w7 = sha1_left (w7 XOR w4 XOR w15 XOR w9);
          (a, d) = sha1_Round e a b c d (sha1_f2 a b c) sha1_k4 w7;
          w8 = sha1_left (w8 XOR w5 XOR w0 XOR w10);
          (e, c) = sha1_Round d e a b c (sha1_f2 e a b) sha1_k4 w8;
          w9 = sha1_left (w9 XOR w6 XOR w1 XOR w11);
          (d, b) = sha1_Round c d e a b (sha1_f2 d e a) sha1_k4 w9;
          w10 = sha1_left (w10 XOR w7 XOR w2 XOR w12);
          (c, a) = sha1_Round b c d e a (sha1_f2 c d e) sha1_k4 w10;
          w11 = sha1_left (w11 XOR w8 XOR w3 XOR w13);
          (b, e) = sha1_Round a b c d e (sha1_f2 b c d) sha1_k4 w11;
          w12 = sha1_left (w12 XOR w9 XOR w4 XOR w14);
          (a, d) = sha1_Round e a b c d (sha1_f2 a b c) sha1_k4 w12;
          (e, c) = sha1_Round d e a b c (sha1_f2 e a b) sha1_k4 (sha1_left (w13 XOR w10 XOR w5 XOR w15));
          (d, b) = sha1_Round c d e a b (sha1_f2 d e a) sha1_k4 (sha1_left (w14 XOR w11 XOR w6 XOR w0));
          (c, a) = sha1_Round b c d e a (sha1_f2 c d e) sha1_k4 (sha1_left (w15 XOR w12 XOR w7 XOR w1))
      in [s ! 0 + a, s ! 1 + b, s ! 2 + c, s ! 3 + d, s ! 4 + e])"

section \<open>The class\<close>

definition CSHA1_init :: "u32 hasher" where
  "CSHA1_init = \<lparr>hs = sha1_Initialize, hbuf = replicate 64 0, hbytes = 0\<rparr>"

definition CSHA1_Write :: "u32 hasher \<Rightarrow> bytes \<Rightarrow> u32 hasher" where
  "CSHA1_Write = block_write 64 sha1_Transform"

definition CSHA1_Finalize :: "u32 hasher \<Rightarrow> u32 hasher \<times> bytes" where
  "CSHA1_Finalize h =
     (let sizedesc = WriteBE64 (push_bit 3 (hbytes h));
          h1 = CSHA1_Write h (pad_bytes (1 + (119 - unat (hbytes h) mod 64) mod 64));
          h2 = CSHA1_Write h1 sizedesc
      in (h2, WriteBE32 (hs h2 ! 0) @ WriteBE32 (hs h2 ! 1) @ WriteBE32 (hs h2 ! 2) @ WriteBE32 (hs h2 ! 3) @
              WriteBE32 (hs h2 ! 4)))"

definition CSHA1_Reset :: "u32 hasher \<Rightarrow> u32 hasher" where
  "CSHA1_Reset h = h\<lparr>hbytes := 0, hs := sha1_Initialize\<rparr>"

section \<open>\<open>CSHA1\<close> as a block hasher\<close>

text \<open>The iterated hash of the padded message.\<close>

definition sha1_hash :: "bytes \<Rightarrow> bytes" where
  "sha1_hash m =
     concat (map WriteBE32 (md_absorb 64 sha1_Transform sha1_Initialize
       (md_pad 64 (WriteBE64 (of_nat (8 * length m))) m)))"

lemma sha1_Transform_take: "sha1_Transform s (take 64 x) = sha1_Transform s x"
proof -
  have r: "ReadBE32 (take 64 x) = ReadBE32 x"
    "ReadBE32 (drop 4 (take 64 x)) = ReadBE32 (drop 4 x)"
    "ReadBE32 (drop 8 (take 64 x)) = ReadBE32 (drop 8 x)"
    "ReadBE32 (drop 12 (take 64 x)) = ReadBE32 (drop 12 x)"
    "ReadBE32 (drop 16 (take 64 x)) = ReadBE32 (drop 16 x)"
    "ReadBE32 (drop 20 (take 64 x)) = ReadBE32 (drop 20 x)"
    "ReadBE32 (drop 24 (take 64 x)) = ReadBE32 (drop 24 x)"
    "ReadBE32 (drop 28 (take 64 x)) = ReadBE32 (drop 28 x)"
    "ReadBE32 (drop 32 (take 64 x)) = ReadBE32 (drop 32 x)"
    "ReadBE32 (drop 36 (take 64 x)) = ReadBE32 (drop 36 x)"
    "ReadBE32 (drop 40 (take 64 x)) = ReadBE32 (drop 40 x)"
    "ReadBE32 (drop 44 (take 64 x)) = ReadBE32 (drop 44 x)"
    "ReadBE32 (drop 48 (take 64 x)) = ReadBE32 (drop 48 x)"
    "ReadBE32 (drop 52 (take 64 x)) = ReadBE32 (drop 52 x)"
    "ReadBE32 (drop 56 (take 64 x)) = ReadBE32 (drop 56 x)"
    "ReadBE32 (drop 60 (take 64 x)) = ReadBE32 (drop 60 x)"
    by (simp_all add: ReadBE32_def drop_take min_def)
  show ?thesis unfolding sha1_Transform_def r by (rule refl)
qed

interpretation sha1: block_hasher 64 sha1_Transform sha1_Initialize CSHA1_Write
  by unfold_locales (simp_all add: sha1_Transform_take CSHA1_Write_def)

lemma length_sha1_Transform: "length (sha1_Transform s b) = 5"
  unfolding sha1_Transform_def by (intro length_Let length_case_prod) simp

lemma length_sha1_absorb: "length (md_absorb 64 sha1_Transform sha1_Initialize m) = 5"
proof -
  have "length s = 5 \<Longrightarrow> length (md_absorb 64 sha1_Transform s m) = 5" for s
    by (induction "64::nat" "sha1_Transform" s m rule: md_absorb.induct)
      (subst md_absorb.simps, simp add: length_sha1_Transform)
  then show ?thesis by (simp add: sha1_Initialize_def)
qed

lemma CSHA1_Finalize_hash:
  assumes "sha1.stands_for h m"
  shows "snd (CSHA1_Finalize h) = sha1_hash m"
proof -
  have hb: "hbytes h = of_nat (length m)" using assms by (simp add: hashed_def)
  have sz: "push_bit 3 (hbytes h) = of_nat (8 * length m)" by (simp add: hb push_bit_eq_mult)
  let ?L = "(WriteBE64 (of_nat (8 * length m)))"
  have n: "1 + (119 - unat (hbytes h) mod 64) mod 64 = 1 + (64 - (length m + 1 + length ?L) mod 64) mod 64"
    using pad_count [of 9 64 "length m"] sha1.bufsize [OF hb] by (simp add: add.commute)
  show ?thesis
    unfolding CSHA1_Finalize_def sha1_hash_def concat_map_5 [OF length_sha1_absorb]
    using sha1.stands_for_padded [OF assms n] by (simp add: Let_def sz)
qed

lemma CSHA1_init_stands: "sha1.stands_for CSHA1_init []"
  by (rule sha1.stands_for_init) (simp_all add: CSHA1_init_def)

lemma CSHA1_Reset_stands: "length (hbuf h) = 64 \<Longrightarrow> sha1.stands_for (CSHA1_Reset h) []"
  by (rule sha1.stands_for_init) (simp_all add: CSHA1_Reset_def)

end
