(* ===== verification/Hash.thy ===== *)
theory Hash
  imports Sha256 Ripemd160 Sha1 Sha512
begin

text \<open>
  \<^verbatim>\<open>src/hash.h\<close>, \<^verbatim>\<open>src/hash.cpp\<close>,
  \<^verbatim>\<open>src/crypto/hmac_sha256.cpp\<close> and \<^verbatim>\<open>src/crypto/hmac_sha512.cpp\<close>:
  the double hash, the hash of public keys and scripts, HMAC, and the hash of the Bloom filter. A
  pointer and a length are the bytes they delimit. \<open>CHash256\<close> and \<open>CHash160\<close> hold one
  \<open>CSHA256\<close>, so that object is their state.
\<close>

section \<open>\<open>CHash256\<close> and \<open>CHash160\<close>\<close>

definition CHash256_Write :: "u32 hasher \<Rightarrow> bytes \<Rightarrow> u32 hasher" where
  "CHash256_Write ctx data = CSHA256_Write ctx data"

definition CHash256_Finalize :: "u32 hasher \<Rightarrow> u32 hasher \<times> (sha256_error + bytes)" where
  "CHash256_Finalize ctx =
     (case CSHA256_Finalize ctx of
        (sha, Inl e) \<Rightarrow> (sha, Inl e)
      | (sha, Inr buf) \<Rightarrow> CSHA256_Finalize (CSHA256_Write (CSHA256_Reset sha) buf))"

definition CHash256_Reset :: "u32 hasher \<Rightarrow> u32 hasher" where
  "CHash256_Reset ctx = CSHA256_Reset ctx"

definition CHash160_Write :: "u32 hasher \<Rightarrow> bytes \<Rightarrow> u32 hasher" where
  "CHash160_Write ctx data = CSHA256_Write ctx data"

definition CHash160_Finalize :: "u32 hasher \<Rightarrow> u32 hasher \<times> (sha256_error + bytes)" where
  "CHash160_Finalize ctx =
     (case CSHA256_Finalize ctx of
        (sha, Inl e) \<Rightarrow> (sha, Inl e)
      | (sha, Inr buf) \<Rightarrow> (sha, Inr (snd (CRIPEMD160_Finalize (CRIPEMD160_Write CRIPEMD160_init buf)))))"

definition CHash160_Reset :: "u32 hasher \<Rightarrow> u32 hasher" where
  "CHash160_Reset ctx = CSHA256_Reset ctx"

section \<open>Hashes of byte ranges\<close>

definition Hash1 :: "bytes \<Rightarrow> sha256_error + bytes" where
  "Hash1 p = snd (CHash256_Finalize (CHash256_Write CSHA256_init p))"

definition Hash2 :: "bytes \<Rightarrow> bytes \<Rightarrow> sha256_error + bytes" where
  "Hash2 p1 p2 = snd (CHash256_Finalize (CHash256_Write (CHash256_Write CSHA256_init p1) p2))"

definition Hash3 :: "bytes \<Rightarrow> bytes \<Rightarrow> bytes \<Rightarrow> sha256_error + bytes" where
  "Hash3 p1 p2 p3 =
     snd (CHash256_Finalize (CHash256_Write (CHash256_Write (CHash256_Write CSHA256_init p1) p2) p3))"

definition Hash160 :: "bytes \<Rightarrow> sha256_error + bytes" where
  "Hash160 p = snd (CHash160_Finalize (CHash160_Write CSHA256_init p))"

text \<open>\<open>CHashWriter\<close>: what is serialized into the stream is hashed.\<close>

definition CHashWriter_write :: "u32 hasher \<Rightarrow> bytes \<Rightarrow> u32 hasher" where
  "CHashWriter_write ctx pch = CHash256_Write ctx pch"

definition CHashWriter_GetHash :: "u32 hasher \<Rightarrow> sha256_error + bytes" where
  "CHashWriter_GetHash ctx = snd (CHash256_Finalize ctx)"

section \<open>HMAC\<close>

record CHMAC_SHA256 =
  outer256 :: "u32 hasher"
  inner256 :: "u32 hasher"

definition hmac256_rkey :: "bytes \<Rightarrow> bytes" where
  "hmac256_rkey key =
     (if length key \<le> 64 then key @ replicate (64 - length key) 0
      else (case snd (CSHA256_Finalize (CSHA256_Write CSHA256_init key)) of
              Inr h \<Rightarrow> h | Inl _ \<Rightarrow> []) @ replicate 32 0)"

definition CHMAC_SHA256_init :: "bytes \<Rightarrow> CHMAC_SHA256" where
  "CHMAC_SHA256_init key =
     (let rkey = hmac256_rkey key;
          rkey = map (\<lambda>b. b XOR 0x5c) rkey;
          outer = CSHA256_Write CSHA256_init rkey;
          rkey = map (\<lambda>b. b XOR (0x5c XOR 0x36)) rkey;
          inner = CSHA256_Write CSHA256_init rkey
      in \<lparr>outer256 = outer, inner256 = inner\<rparr>)"

definition CHMAC_SHA256_Write :: "CHMAC_SHA256 \<Rightarrow> bytes \<Rightarrow> CHMAC_SHA256" where
  "CHMAC_SHA256_Write h data = h\<lparr>inner256 := CSHA256_Write (inner256 h) data\<rparr>"

definition CHMAC_SHA256_Finalize :: "CHMAC_SHA256 \<Rightarrow> sha256_error + bytes" where
  "CHMAC_SHA256_Finalize h =
     (case snd (CSHA256_Finalize (inner256 h)) of
        Inl e \<Rightarrow> Inl e
      | Inr temp \<Rightarrow> snd (CSHA256_Finalize (CSHA256_Write (outer256 h) temp)))"

record CHMAC_SHA512 =
  outer512 :: "u64 hasher"
  inner512 :: "u64 hasher"

definition hmac512_rkey :: "bytes \<Rightarrow> bytes" where
  "hmac512_rkey key =
     (if length key \<le> 128 then key @ replicate (128 - length key) 0
      else snd (CSHA512_Finalize (CSHA512_Write CSHA512_init key)) @ replicate 64 0)"

definition CHMAC_SHA512_init :: "bytes \<Rightarrow> CHMAC_SHA512" where
  "CHMAC_SHA512_init key =
     (let rkey = hmac512_rkey key;
          rkey = map (\<lambda>b. b XOR 0x5c) rkey;
          outer = CSHA512_Write CSHA512_init rkey;
          rkey = map (\<lambda>b. b XOR (0x5c XOR 0x36)) rkey;
          inner = CSHA512_Write CSHA512_init rkey
      in \<lparr>outer512 = outer, inner512 = inner\<rparr>)"

definition CHMAC_SHA512_Write :: "CHMAC_SHA512 \<Rightarrow> bytes \<Rightarrow> CHMAC_SHA512" where
  "CHMAC_SHA512_Write h data = h\<lparr>inner512 := CSHA512_Write (inner512 h) data\<rparr>"

definition CHMAC_SHA512_Finalize :: "CHMAC_SHA512 \<Rightarrow> bytes" where
  "CHMAC_SHA512_Finalize h =
     (let temp = snd (CSHA512_Finalize (inner512 h))
      in snd (CSHA512_Finalize (CSHA512_Write (outer512 h) temp)))"

section \<open>MurmurHash3 and BIP32\<close>

definition ROTL32 :: "u32 \<Rightarrow> nat \<Rightarrow> u32" where
  "ROTL32 x r = push_bit r x OR drop_bit (32 - r) x"

fun murmur_body :: "nat \<Rightarrow> bytes \<Rightarrow> u32 \<Rightarrow> u32" where
  "murmur_body 0 blocks h1 = h1"
| "murmur_body (Suc i) blocks h1 =
     (let k1 = ReadLE32 blocks;
          k1 = k1 * 0xcc9e2d51;
          k1 = ROTL32 k1 15;
          k1 = k1 * 0x1b873593;
          h1 = h1 XOR k1;
          h1 = ROTL32 h1 13;
          h1 = h1 * 5 + 0xe6546b64
      in murmur_body i (drop 4 blocks) h1)"

text \<open>The cases of the switch fall through, from the third byte of the tail to the first.\<close>

definition murmur_tail :: "bytes \<Rightarrow> u32 \<Rightarrow> u32" where
  "murmur_tail tail h1 =
     (let n = length tail;
          k1 = (0 :: u32);
          k1 = (if n = 3 then k1 XOR push_bit 16 (ucast (tail ! 2)) else k1);
          k1 = (if n \<ge> 2 then k1 XOR push_bit 8 (ucast (tail ! 1)) else k1)
      in if n \<ge> 1
         then (let k1 = k1 XOR ucast (tail ! 0);
                   k1 = k1 * 0xcc9e2d51;
                   k1 = ROTL32 k1 15;
                   k1 = k1 * 0x1b873593
               in h1 XOR k1)
         else h1)"

definition MurmurHash3 :: "u32 \<Rightarrow> bytes \<Rightarrow> u32" where
  "MurmurHash3 nHashSeed vDataToHash =
     (let h1 = nHashSeed;
          nblocks = length vDataToHash div 4;
          h1 = (if length vDataToHash > 0
                then murmur_tail (drop (4 * nblocks) vDataToHash) (murmur_body nblocks vDataToHash h1)
                else h1);
          h1 = h1 XOR of_nat (length vDataToHash);
          h1 = h1 XOR drop_bit 16 h1;
          h1 = h1 * 0x85ebca6b;
          h1 = h1 XOR drop_bit 13 h1;
          h1 = h1 * 0xc2b2ae35;
          h1 = h1 XOR drop_bit 16 h1
      in h1)"

definition BIP32Hash :: "bytes \<Rightarrow> u32 \<Rightarrow> u8 \<Rightarrow> bytes \<Rightarrow> bytes" where
  "BIP32Hash chainCode nChild header data =
     (let num = [ucast (drop_bit 24 nChild AND 0xff), ucast (drop_bit 16 nChild AND 0xff),
                 ucast (drop_bit 8 nChild AND 0xff), ucast (nChild AND 0xff)]
      in CHMAC_SHA512_Finalize
           (CHMAC_SHA512_Write (CHMAC_SHA512_Write (CHMAC_SHA512_Write (CHMAC_SHA512_init chainCode) [header])
              (take 32 data)) num))"

section \<open>What they compute\<close>

lemma sha256_result_buffer:
  assumes "sha256.stands_for h m"
  shows "length (hbuf (fst (CSHA256_Finalize h))) = 64"
proof -
  have "sha256.stands_for (CSHA256_Write (CSHA256_Write h x) y) ((m @ x) @ y)" for x y
    by (intro sha256.stands_for_write assms)
  then show ?thesis by (simp add: CSHA256_Finalize_def Let_def hashed_def)
qed

lemma CHash256_Finalize_hash:
  assumes "sha256.stands_for h m"
  shows "snd (CHash256_Finalize h) = Inr (fips_sha256 (fips_sha256 m))"
proof -
  obtain h' where h': "CSHA256_Finalize h = (h', Inr (fips_sha256 m))" "length (hbuf h') = 64"
    using CSHA256_Finalize_hash [OF assms] sha256_result_buffer [OF assms] by (cases "CSHA256_Finalize h") auto
  have "sha256.stands_for (CSHA256_Write (CSHA256_Reset h') (fips_sha256 m)) ([] @ fips_sha256 m)"
    by (intro sha256.stands_for_write CSHA256_Reset_stands h'(2))
  from CSHA256_Finalize_hash [OF this] show ?thesis by (simp add: CHash256_Finalize_def h')
qed

lemma CHash160_Finalize_hash:
  assumes "sha256.stands_for h m"
  shows "snd (CHash160_Finalize h) = Inr (ripemd160_hash (fips_sha256 m))"
proof -
  obtain h' where h': "CSHA256_Finalize h = (h', Inr (fips_sha256 m))"
    using CSHA256_Finalize_hash [OF assms] by (cases "CSHA256_Finalize h") auto
  have "ripemd160.stands_for (CRIPEMD160_Write CRIPEMD160_init (fips_sha256 m)) ([] @ fips_sha256 m)"
    by (intro ripemd160.stands_for_write CRIPEMD160_init_stands)
  from CRIPEMD160_Finalize_hash [OF this] show ?thesis by (simp add: CHash160_Finalize_def h')
qed

lemmas hash_objects = CHash256_Write_def CHash160_Write_def CHashWriter_write_def CHashWriter_GetHash_def
  Hash1_def Hash2_def Hash3_def Hash160_def

lemma Hash_results:
  "Hash1 a = Inr (fips_sha256 (fips_sha256 a))"
  "Hash2 a b = Inr (fips_sha256 (fips_sha256 (a @ b)))"
  "Hash3 a b c = Inr (fips_sha256 (fips_sha256 (a @ b @ c)))"
  "Hash160 a = Inr (ripemd160_hash (fips_sha256 a))"
  using CHash256_Finalize_hash [OF sha256.stands_for_writes [OF CSHA256_init_stands, of "[a]"]]
    CHash256_Finalize_hash [OF sha256.stands_for_writes [OF CSHA256_init_stands, of "[a, b]"]]
    CHash256_Finalize_hash [OF sha256.stands_for_writes [OF CSHA256_init_stands, of "[a, b, c]"]]
    CHash160_Finalize_hash [OF sha256.stands_for_writes [OF CSHA256_init_stands, of "[a]"]]
  by (simp_all add: hash_objects)

text \<open>
  The hash objects are streaming and total. Whatever the pieces written to them,
  \<open>CRIPEMD160\<close>, \<open>CSHA1\<close> and \<open>CSHA512\<close> give the iterated hash of the padded
  concatenation, \<open>CHashWriter\<close> the double SHA-256 and \<open>CHash160\<close> the RIPEMD-160 of the
  SHA-256 of the concatenation, and the error of \<open>FinalizeNoPadding\<close> is never raised; in
  particular the two- and three-range \<open>Hash\<close> are the one-range \<open>Hash\<close> of the joined ranges.
\<close>

theorem hash_objects_streaming:
  "snd (CRIPEMD160_Finalize (foldl CRIPEMD160_Write CRIPEMD160_init ds)) = ripemd160_hash (concat ds) \<and>
   snd (CSHA1_Finalize (foldl CSHA1_Write CSHA1_init ds)) = sha1_hash (concat ds) \<and>
   snd (CSHA512_Finalize (foldl CSHA512_Write CSHA512_init ds)) = sha512_hash (concat ds) \<and>
   CHashWriter_GetHash (foldl CHashWriter_write CSHA256_init ds) = Inr (fips_sha256 (fips_sha256 (concat ds))) \<and>
   snd (CHash160_Finalize (foldl CHash160_Write CSHA256_init ds)) = Inr (ripemd160_hash (fips_sha256 (concat ds))) \<and>
   Hash2 a b = Hash1 (a @ b) \<and> Hash3 a b c = Hash1 (a @ b @ c)"
proof (intro conjI)
  have w: "CHashWriter_write = CSHA256_Write" "CHash160_Write = CSHA256_Write"
    by (simp_all add: fun_eq_iff hash_objects)
  note s = sha256.stands_for_writes [OF CSHA256_init_stands, of ds, simplified]
  show "CHashWriter_GetHash (foldl CHashWriter_write CSHA256_init ds) = Inr (fips_sha256 (fips_sha256 (concat ds)))"
    by (simp add: w CHashWriter_GetHash_def CHash256_Finalize_hash [OF s])
  show "snd (CHash160_Finalize (foldl CHash160_Write CSHA256_init ds)) = Inr (ripemd160_hash (fips_sha256 (concat ds)))"
    by (simp add: w CHash160_Finalize_hash [OF s])
  show "snd (CRIPEMD160_Finalize (foldl CRIPEMD160_Write CRIPEMD160_init ds)) = ripemd160_hash (concat ds)"
    using CRIPEMD160_Finalize_hash [OF ripemd160.stands_for_writes [OF CRIPEMD160_init_stands]] by simp
  show "snd (CSHA1_Finalize (foldl CSHA1_Write CSHA1_init ds)) = sha1_hash (concat ds)"
    using CSHA1_Finalize_hash [OF sha1.stands_for_writes [OF CSHA1_init_stands]] by simp
  show "snd (CSHA512_Finalize (foldl CSHA512_Write CSHA512_init ds)) = sha512_hash (concat ds)"
    using CSHA512_Finalize_hash [OF sha512.stands_for_writes [OF CSHA512_init_stands]] by simp
qed (simp_all add: Hash_results)

section \<open>HMAC\<close>

text \<open>The construction of RFC 2104 over a hash \<open>H\<close> with block size \<open>B\<close>.\<close>

definition rfc2104 :: "nat \<Rightarrow> (bytes \<Rightarrow> bytes) \<Rightarrow> bytes \<Rightarrow> bytes \<Rightarrow> bytes" where
  "rfc2104 B H key m =
     (let k = (if length key > B then H key else key);
          k0 = k @ replicate (B - length k) 0
      in H (map (\<lambda>b. b XOR 0x5c) k0 @ H (map (\<lambda>b. b XOR 0x36) k0 @ m)))"

lemma xor_opad_ipad: "((b :: u8) XOR 0x5c) XOR (0x5c XOR 0x36) = b XOR 0x36"
  by (simp add: xor.assoc [symmetric]) (simp add: xor.assoc)

lemma hmac_inner_pads: "map (\<lambda>b. b XOR (0x5c XOR 0x36)) (map (\<lambda>b. b XOR 0x5c) k) = map (\<lambda>b. b XOR 0x36) (k :: bytes)"
  by (simp only: map_map comp_def xor_opad_ipad)

lemma inner_writes:
  "inner256 (foldl CHMAC_SHA256_Write h ds) = foldl CSHA256_Write (inner256 h) ds"
  "outer256 (foldl CHMAC_SHA256_Write h ds) = outer256 h"
  "inner512 (foldl CHMAC_SHA512_Write g ds) = foldl CSHA512_Write (inner512 g) ds"
  "outer512 (foldl CHMAC_SHA512_Write g ds) = outer512 g"
  by (induction ds arbitrary: h g) (simp_all add: CHMAC_SHA256_Write_def CHMAC_SHA512_Write_def)

lemma length_sha512_hash: "length (sha512_hash m) = 64"
  by (simp add: sha512_hash_def concat_map_8 [OF length_sha512_absorb])

text \<open>
  \<open>CHMAC_SHA256\<close> and \<open>CHMAC_SHA512\<close> are HMAC. For every key, short or longer than a
  block, and every way of splitting the message, \<open>Finalize\<close> returns the value of RFC 2104 for
  the underlying hash; the second in-place exclusive-or of the key turns the outer pad into the
  inner one.
\<close>

theorem hmac_is_rfc2104:
  "CHMAC_SHA256_Finalize (foldl CHMAC_SHA256_Write (CHMAC_SHA256_init key) ds)
     = Inr (rfc2104 64 fips_sha256 key (concat ds)) \<and>
   CHMAC_SHA512_Finalize (foldl CHMAC_SHA512_Write (CHMAC_SHA512_init key) ds)
     = rfc2104 128 sha512_hash key (concat ds)"
proof
  have k: "hmac256_rkey key = (let k = (if length key > 64 then fips_sha256 key else key) in k @ replicate (64 - length k) 0)"
    using CSHA256_pieces [of "[key]"] by (simp add: hmac256_rkey_def length_fips_sha256)
  have i: "snd (CSHA256_Finalize (foldl CSHA256_Write (CSHA256_Write CSHA256_init x) ys)) = Inr (fips_sha256 (x @ concat ys))" for x ys
    using CSHA256_pieces [of "x # ys"] by simp
  have o: "snd (CSHA256_Finalize (CSHA256_Write (CSHA256_Write CSHA256_init x) y)) = Inr (fips_sha256 (x @ y))" for x y
    using i [of x "[y]"] by simp
  show "CHMAC_SHA256_Finalize (foldl CHMAC_SHA256_Write (CHMAC_SHA256_init key) ds)
     = Inr (rfc2104 64 fips_sha256 key (concat ds))"
    unfolding CHMAC_SHA256_Finalize_def inner_writes CHMAC_SHA256_init_def Let_def hmac_inner_pads
    by (simp add: i o k rfc2104_def Let_def)
next
  have f: "snd (CSHA512_Finalize (foldl CSHA512_Write CSHA512_init ys)) = sha512_hash (concat ys)" for ys
    using CSHA512_Finalize_hash [OF sha512.stands_for_writes [OF CSHA512_init_stands]] by simp
  have k: "hmac512_rkey key = (let k = (if length key > 128 then sha512_hash key else key) in k @ replicate (128 - length k) 0)"
    using f [of "[key]"] by (simp add: hmac512_rkey_def length_sha512_hash)
  have i: "snd (CSHA512_Finalize (foldl CSHA512_Write (CSHA512_Write CSHA512_init x) ys)) = sha512_hash (x @ concat ys)" for x ys
    using f [of "x # ys"] by simp
  have o: "snd (CSHA512_Finalize (CSHA512_Write (CSHA512_Write CSHA512_init x) y)) = sha512_hash (x @ y)" for x y
    using i [of x "[y]"] by simp
  show "CHMAC_SHA512_Finalize (foldl CHMAC_SHA512_Write (CHMAC_SHA512_init key) ds)
     = rfc2104 128 sha512_hash key (concat ds)"
    unfolding CHMAC_SHA512_Finalize_def inner_writes CHMAC_SHA512_init_def Let_def hmac_inner_pads
    by (simp add: i o k rfc2104_def Let_def)
qed

end
