(* ===== verification/Script.thy ===== *)
theory Script
  imports CryptoCommon
begin

text \<open>
  \<^verbatim>\<open>src/script/script.h\<close> and \<^verbatim>\<open>src/script/script.cpp\<close>: opcodes, the
  numbers of the script language, the serialized script and its parser, the script templates
  the wallet and the consensus code recognise, and the count of signature operations.

  A script is its byte string. An iterator into a script is the list of the bytes from its
  position to the end of the script, so \<open>pc < end()\<close> is \<open>pc \<noteq> []\<close> and
  \<open>end() - pc\<close> is \<open>length pc\<close>. \<open>GetOp2\<close> moves the iterator even when it fails,
  and the model keeps that. The \<open>m_value\<close> of a \<open>CScriptNum\<close> is the integer an
  \<open>int64_t\<close> holds; numbers enter from at most five bytes, so no sum or difference the
  interpreter forms leaves that range. Reads outside a script, undefined in C++, are the error
  \<open>OutOfBounds\<close>.
\<close>

section \<open>Opcodes\<close>

abbreviation OP_0 :: u8 where
  "OP_0 \<equiv> 0x00"

abbreviation OP_FALSE :: u8 where
  "OP_FALSE \<equiv> 0x00"

abbreviation OP_PUSHDATA1 :: u8 where
  "OP_PUSHDATA1 \<equiv> 0x4c"

abbreviation OP_PUSHDATA2 :: u8 where
  "OP_PUSHDATA2 \<equiv> 0x4d"

abbreviation OP_PUSHDATA4 :: u8 where
  "OP_PUSHDATA4 \<equiv> 0x4e"

abbreviation OP_1NEGATE :: u8 where
  "OP_1NEGATE \<equiv> 0x4f"

abbreviation OP_RESERVED :: u8 where
  "OP_RESERVED \<equiv> 0x50"

abbreviation OP_1 :: u8 where
  "OP_1 \<equiv> 0x51"

abbreviation OP_TRUE :: u8 where
  "OP_TRUE \<equiv> 0x51"

abbreviation OP_2 :: u8 where
  "OP_2 \<equiv> 0x52"

abbreviation OP_3 :: u8 where
  "OP_3 \<equiv> 0x53"

abbreviation OP_4 :: u8 where
  "OP_4 \<equiv> 0x54"

abbreviation OP_5 :: u8 where
  "OP_5 \<equiv> 0x55"

abbreviation OP_6 :: u8 where
  "OP_6 \<equiv> 0x56"

abbreviation OP_7 :: u8 where
  "OP_7 \<equiv> 0x57"

abbreviation OP_8 :: u8 where
  "OP_8 \<equiv> 0x58"

abbreviation OP_9 :: u8 where
  "OP_9 \<equiv> 0x59"

abbreviation OP_10 :: u8 where
  "OP_10 \<equiv> 0x5a"

abbreviation OP_11 :: u8 where
  "OP_11 \<equiv> 0x5b"

abbreviation OP_12 :: u8 where
  "OP_12 \<equiv> 0x5c"

abbreviation OP_13 :: u8 where
  "OP_13 \<equiv> 0x5d"

abbreviation OP_14 :: u8 where
  "OP_14 \<equiv> 0x5e"

abbreviation OP_15 :: u8 where
  "OP_15 \<equiv> 0x5f"

abbreviation OP_16 :: u8 where
  "OP_16 \<equiv> 0x60"

abbreviation OP_NOP :: u8 where
  "OP_NOP \<equiv> 0x61"

abbreviation OP_VER :: u8 where
  "OP_VER \<equiv> 0x62"

abbreviation OP_IF :: u8 where
  "OP_IF \<equiv> 0x63"

abbreviation OP_NOTIF :: u8 where
  "OP_NOTIF \<equiv> 0x64"

abbreviation OP_VERIF :: u8 where
  "OP_VERIF \<equiv> 0x65"

abbreviation OP_VERNOTIF :: u8 where
  "OP_VERNOTIF \<equiv> 0x66"

abbreviation OP_ELSE :: u8 where
  "OP_ELSE \<equiv> 0x67"

abbreviation OP_ENDIF :: u8 where
  "OP_ENDIF \<equiv> 0x68"

abbreviation OP_VERIFY :: u8 where
  "OP_VERIFY \<equiv> 0x69"

abbreviation OP_RETURN :: u8 where
  "OP_RETURN \<equiv> 0x6a"

abbreviation OP_TOALTSTACK :: u8 where
  "OP_TOALTSTACK \<equiv> 0x6b"

abbreviation OP_FROMALTSTACK :: u8 where
  "OP_FROMALTSTACK \<equiv> 0x6c"

abbreviation OP_2DROP :: u8 where
  "OP_2DROP \<equiv> 0x6d"

abbreviation OP_2DUP :: u8 where
  "OP_2DUP \<equiv> 0x6e"

abbreviation OP_3DUP :: u8 where
  "OP_3DUP \<equiv> 0x6f"

abbreviation OP_2OVER :: u8 where
  "OP_2OVER \<equiv> 0x70"

abbreviation OP_2ROT :: u8 where
  "OP_2ROT \<equiv> 0x71"

abbreviation OP_2SWAP :: u8 where
  "OP_2SWAP \<equiv> 0x72"

abbreviation OP_IFDUP :: u8 where
  "OP_IFDUP \<equiv> 0x73"

abbreviation OP_DEPTH :: u8 where
  "OP_DEPTH \<equiv> 0x74"

abbreviation OP_DROP :: u8 where
  "OP_DROP \<equiv> 0x75"

abbreviation OP_DUP :: u8 where
  "OP_DUP \<equiv> 0x76"

abbreviation OP_NIP :: u8 where
  "OP_NIP \<equiv> 0x77"

abbreviation OP_OVER :: u8 where
  "OP_OVER \<equiv> 0x78"

abbreviation OP_PICK :: u8 where
  "OP_PICK \<equiv> 0x79"

abbreviation OP_ROLL :: u8 where
  "OP_ROLL \<equiv> 0x7a"

abbreviation OP_ROT :: u8 where
  "OP_ROT \<equiv> 0x7b"

abbreviation OP_SWAP :: u8 where
  "OP_SWAP \<equiv> 0x7c"

abbreviation OP_TUCK :: u8 where
  "OP_TUCK \<equiv> 0x7d"

abbreviation OP_CAT :: u8 where
  "OP_CAT \<equiv> 0x7e"

abbreviation OP_SUBSTR :: u8 where
  "OP_SUBSTR \<equiv> 0x7f"

abbreviation OP_LEFT :: u8 where
  "OP_LEFT \<equiv> 0x80"

abbreviation OP_RIGHT :: u8 where
  "OP_RIGHT \<equiv> 0x81"

abbreviation OP_SIZE :: u8 where
  "OP_SIZE \<equiv> 0x82"

abbreviation OP_INVERT :: u8 where
  "OP_INVERT \<equiv> 0x83"

abbreviation OP_AND :: u8 where
  "OP_AND \<equiv> 0x84"

abbreviation OP_OR :: u8 where
  "OP_OR \<equiv> 0x85"

abbreviation OP_XOR :: u8 where
  "OP_XOR \<equiv> 0x86"

abbreviation OP_EQUAL :: u8 where
  "OP_EQUAL \<equiv> 0x87"

abbreviation OP_EQUALVERIFY :: u8 where
  "OP_EQUALVERIFY \<equiv> 0x88"

abbreviation OP_RESERVED1 :: u8 where
  "OP_RESERVED1 \<equiv> 0x89"

abbreviation OP_RESERVED2 :: u8 where
  "OP_RESERVED2 \<equiv> 0x8a"

abbreviation OP_1ADD :: u8 where
  "OP_1ADD \<equiv> 0x8b"

abbreviation OP_1SUB :: u8 where
  "OP_1SUB \<equiv> 0x8c"

abbreviation OP_2MUL :: u8 where
  "OP_2MUL \<equiv> 0x8d"

abbreviation OP_2DIV :: u8 where
  "OP_2DIV \<equiv> 0x8e"

abbreviation OP_NEGATE :: u8 where
  "OP_NEGATE \<equiv> 0x8f"

abbreviation OP_ABS :: u8 where
  "OP_ABS \<equiv> 0x90"

abbreviation OP_NOT :: u8 where
  "OP_NOT \<equiv> 0x91"

abbreviation OP_0NOTEQUAL :: u8 where
  "OP_0NOTEQUAL \<equiv> 0x92"

abbreviation OP_ADD :: u8 where
  "OP_ADD \<equiv> 0x93"

abbreviation OP_SUB :: u8 where
  "OP_SUB \<equiv> 0x94"

abbreviation OP_MUL :: u8 where
  "OP_MUL \<equiv> 0x95"

abbreviation OP_DIV :: u8 where
  "OP_DIV \<equiv> 0x96"

abbreviation OP_MOD :: u8 where
  "OP_MOD \<equiv> 0x97"

abbreviation OP_LSHIFT :: u8 where
  "OP_LSHIFT \<equiv> 0x98"

abbreviation OP_RSHIFT :: u8 where
  "OP_RSHIFT \<equiv> 0x99"

abbreviation OP_BOOLAND :: u8 where
  "OP_BOOLAND \<equiv> 0x9a"

abbreviation OP_BOOLOR :: u8 where
  "OP_BOOLOR \<equiv> 0x9b"

abbreviation OP_NUMEQUAL :: u8 where
  "OP_NUMEQUAL \<equiv> 0x9c"

abbreviation OP_NUMEQUALVERIFY :: u8 where
  "OP_NUMEQUALVERIFY \<equiv> 0x9d"

abbreviation OP_NUMNOTEQUAL :: u8 where
  "OP_NUMNOTEQUAL \<equiv> 0x9e"

abbreviation OP_LESSTHAN :: u8 where
  "OP_LESSTHAN \<equiv> 0x9f"

abbreviation OP_GREATERTHAN :: u8 where
  "OP_GREATERTHAN \<equiv> 0xa0"

abbreviation OP_LESSTHANOREQUAL :: u8 where
  "OP_LESSTHANOREQUAL \<equiv> 0xa1"

abbreviation OP_GREATERTHANOREQUAL :: u8 where
  "OP_GREATERTHANOREQUAL \<equiv> 0xa2"

abbreviation OP_MIN :: u8 where
  "OP_MIN \<equiv> 0xa3"

abbreviation OP_MAX :: u8 where
  "OP_MAX \<equiv> 0xa4"

abbreviation OP_WITHIN :: u8 where
  "OP_WITHIN \<equiv> 0xa5"

abbreviation OP_RIPEMD160 :: u8 where
  "OP_RIPEMD160 \<equiv> 0xa6"

abbreviation OP_SHA1 :: u8 where
  "OP_SHA1 \<equiv> 0xa7"

abbreviation OP_SHA256 :: u8 where
  "OP_SHA256 \<equiv> 0xa8"

abbreviation OP_HASH160 :: u8 where
  "OP_HASH160 \<equiv> 0xa9"

abbreviation OP_HASH256 :: u8 where
  "OP_HASH256 \<equiv> 0xaa"

abbreviation OP_CODESEPARATOR :: u8 where
  "OP_CODESEPARATOR \<equiv> 0xab"

abbreviation OP_CHECKSIG :: u8 where
  "OP_CHECKSIG \<equiv> 0xac"

abbreviation OP_CHECKSIGVERIFY :: u8 where
  "OP_CHECKSIGVERIFY \<equiv> 0xad"

abbreviation OP_CHECKMULTISIG :: u8 where
  "OP_CHECKMULTISIG \<equiv> 0xae"

abbreviation OP_CHECKMULTISIGVERIFY :: u8 where
  "OP_CHECKMULTISIGVERIFY \<equiv> 0xaf"

abbreviation OP_CHECKCRYPTOCONDITION :: u8 where
  "OP_CHECKCRYPTOCONDITION \<equiv> 0xcc"

abbreviation OP_CHECKCRYPTOCONDITIONVERIFY :: u8 where
  "OP_CHECKCRYPTOCONDITIONVERIFY \<equiv> 0xcd"

abbreviation OP_NOP1 :: u8 where
  "OP_NOP1 \<equiv> 0xb0"

abbreviation OP_NOP2 :: u8 where
  "OP_NOP2 \<equiv> 0xb1"

abbreviation OP_CHECKLOCKTIMEVERIFY :: u8 where
  "OP_CHECKLOCKTIMEVERIFY \<equiv> 0xb1"

abbreviation OP_NOP3 :: u8 where
  "OP_NOP3 \<equiv> 0xb2"

abbreviation OP_NOP4 :: u8 where
  "OP_NOP4 \<equiv> 0xb3"

abbreviation OP_NOP5 :: u8 where
  "OP_NOP5 \<equiv> 0xb4"

abbreviation OP_NOP6 :: u8 where
  "OP_NOP6 \<equiv> 0xb5"

abbreviation OP_NOP7 :: u8 where
  "OP_NOP7 \<equiv> 0xb6"

abbreviation OP_NOP8 :: u8 where
  "OP_NOP8 \<equiv> 0xb7"

abbreviation OP_NOP9 :: u8 where
  "OP_NOP9 \<equiv> 0xb8"

abbreviation OP_NOP10 :: u8 where
  "OP_NOP10 \<equiv> 0xb9"

abbreviation OP_SMALLDATA :: u8 where
  "OP_SMALLDATA \<equiv> 0xf9"

abbreviation OP_CRYPTOCONDITION :: u8 where
  "OP_CRYPTOCONDITION \<equiv> 0xfc"

abbreviation OP_INVALIDOPCODE :: u8 where
  "OP_INVALIDOPCODE \<equiv> 0xff"
definition MAX_SCRIPT_ELEMENT_SIZE :: nat where
  "MAX_SCRIPT_ELEMENT_SIZE = 520"

definition MAX_SCRIPT_CRYPTOCONDITION_FULFILLMENT_SIZE :: nat where
  "MAX_SCRIPT_CRYPTOCONDITION_FULFILLMENT_SIZE = 2048"

definition MAX_SCRIPT_SIZE :: nat where
  "MAX_SCRIPT_SIZE = 10000"

definition LOCKTIME_THRESHOLD :: nat where
  "LOCKTIME_THRESHOLD = 500000000"

type_synonym script = bytes

datatype script_error_kind = ScriptNumOverflow | NonMinimalNumber | AssertFailed | OutOfBounds

section \<open>Script numbers\<close>

record CScriptNum =
  m_value :: int

definition nDefaultMaxNumSize :: nat where
  "nDefaultMaxNumSize = 4"

definition set_vch :: "bytes \<Rightarrow> int" where
  "set_vch vch =
     (if vch = [] then 0
      else let result = int (le_val vch)
           in if last vch AND 0x80 \<noteq> 0
              then - (result AND NOT (push_bit (8 * (length vch - 1)) 0x80))
              else result)"

text \<open>The constructor from bytes: the size limit, then the minimality rule when it is asked for.\<close>

definition scriptnum_from_vch :: "bytes \<Rightarrow> bool \<Rightarrow> nat \<Rightarrow> script_error_kind + CScriptNum" where
  "scriptnum_from_vch vch fRequireMinimal nMaxNumSize =
     (if length vch > nMaxNumSize then Inl ScriptNumOverflow
      else if fRequireMinimal \<and> length vch > 0 \<and> last vch AND 0x7f = 0 \<and>
              (length vch \<le> 1 \<or> vch ! (length vch - 2) AND 0x80 = 0)
           then Inl NonMinimalNumber
      else Inr \<lparr>m_value = set_vch vch\<rparr>)"

fun abs_bytes :: "nat \<Rightarrow> bytes" where
  "abs_bytes absvalue = (if absvalue = 0 then [] else of_nat absvalue # abs_bytes (absvalue div 256))"

declare abs_bytes.simps [simp del]

definition scriptnum_serialize :: "int \<Rightarrow> bytes" where
  "scriptnum_serialize value =
     (if value = 0 then []
      else let neg = value < 0;
               result = abs_bytes (nat \<bar>value\<bar>)
           in if last result AND 0x80 \<noteq> 0 then result @ [if neg then 0x80 else 0]
              else if neg then butlast result @ [last result OR 0x80]
              else result)"

definition getvch :: "CScriptNum \<Rightarrow> bytes" where
  "getvch n = scriptnum_serialize (m_value n)"

definition getint :: "CScriptNum \<Rightarrow> int" where
  "getint n = (if m_value n > 2 ^ 31 - 1 then 2 ^ 31 - 1
               else if m_value n < - (2 ^ 31) then - (2 ^ 31)
               else m_value n)"

definition scriptnum_neg :: "CScriptNum \<Rightarrow> script_error_kind + CScriptNum" where
  "scriptnum_neg n = (if m_value n = - (2 ^ 63) then Inl AssertFailed else Inr \<lparr>m_value = - m_value n\<rparr>)"

definition scriptnum_add_assign :: "CScriptNum \<Rightarrow> int \<Rightarrow> script_error_kind + CScriptNum" where
  "scriptnum_add_assign n rhs =
     (if rhs = 0 \<or> (rhs > 0 \<and> m_value n \<le> 2 ^ 63 - 1 - rhs) \<or> (rhs < 0 \<and> m_value n \<ge> - (2 ^ 63) - rhs)
      then Inr \<lparr>m_value = m_value n + rhs\<rparr> else Inl AssertFailed)"

definition scriptnum_sub_assign :: "CScriptNum \<Rightarrow> int \<Rightarrow> script_error_kind + CScriptNum" where
  "scriptnum_sub_assign n rhs =
     (if rhs = 0 \<or> (rhs > 0 \<and> m_value n \<ge> - (2 ^ 63) + rhs) \<or> (rhs < 0 \<and> m_value n \<le> 2 ^ 63 - 1 + rhs)
      then Inr \<lparr>m_value = m_value n - rhs\<rparr> else Inl AssertFailed)"

section \<open>Building scripts\<close>

definition push_opcode :: "script \<Rightarrow> u8 \<Rightarrow> script" where
  "push_opcode s opcode = s @ [opcode]"

definition push_vector :: "script \<Rightarrow> bytes \<Rightarrow> script" where
  "push_vector s b =
     (if length b < unat OP_PUSHDATA1 then s @ [of_nat (length b)] @ b
      else if length b \<le> 0xff then s @ [OP_PUSHDATA1, of_nat (length b)] @ b
      else if length b \<le> 0xffff then s @ [OP_PUSHDATA2] @ WriteLE16 (of_nat (length b)) @ b
      else s @ [OP_PUSHDATA4] @ WriteLE32 (of_nat (length b)) @ b)"

definition push_int64 :: "script \<Rightarrow> int \<Rightarrow> script" where
  "push_int64 s n =
     (if n = - 1 \<or> (n \<ge> 1 \<and> n \<le> 16) then s @ [of_int (n + (uint OP_1 - 1))]
      else if n = 0 then s @ [OP_0]
      else push_vector s (scriptnum_serialize n))"

definition push_scriptnum :: "script \<Rightarrow> CScriptNum \<Rightarrow> script" where
  "push_scriptnum s b = push_vector s (getvch b)"

definition DecodeOP_N :: "u8 \<Rightarrow> script_error_kind + nat" where
  "DecodeOP_N opcode =
     (if opcode = OP_0 then Inr 0
      else if OP_1 \<le> opcode \<and> opcode \<le> OP_16 then Inr (unat opcode - (unat OP_1 - 1))
      else Inl AssertFailed)"

definition EncodeOP_N :: "int \<Rightarrow> script_error_kind + u8" where
  "EncodeOP_N n =
     (if \<not> (n \<ge> 0 \<and> n \<le> 16) then Inl AssertFailed
      else if n = 0 then Inr OP_0 else Inr (of_int (uint OP_1 + n - 1)))"

section \<open>Parsing\<close>

text \<open>What \<open>GetOp2\<close> returns and leaves in its reference arguments.\<close>

record getop =
  go_ok :: bool
  go_pc :: bytes
  go_opcode :: u8
  go_data :: bytes

definition getop_fail :: "bytes \<Rightarrow> getop" where
  "getop_fail pc = \<lparr>go_ok = False, go_pc = pc, go_opcode = OP_INVALIDOPCODE, go_data = []\<rparr>"

definition getop_push :: "u8 \<Rightarrow> bytes \<Rightarrow> nat \<Rightarrow> getop" where
  "getop_push opcode pc nSize =
     (if length pc < nSize then getop_fail pc
      else \<lparr>go_ok = True, go_pc = drop nSize pc, go_opcode = opcode, go_data = take nSize pc\<rparr>)"

definition GetOp2 :: "bytes \<Rightarrow> getop" where
  "GetOp2 pc =
     (case pc of
        [] \<Rightarrow> getop_fail []
      | opcode # pc1 \<Rightarrow>
          if opcode \<le> OP_PUSHDATA4 then
            if opcode < OP_PUSHDATA1 then getop_push opcode pc1 (unat opcode)
            else if opcode = OP_PUSHDATA1 then
              (if length pc1 < 1 then getop_fail pc1
               else getop_push opcode (drop 1 pc1) (unat (pc1 ! 0)))
            else if opcode = OP_PUSHDATA2 then
              (if length pc1 < 2 then getop_fail pc1
               else getop_push opcode (drop 2 pc1) (unat (ReadLE16 pc1)))
            else
              (if length pc1 < 4 then getop_fail pc1
               else getop_push opcode (drop 4 pc1) (unat (ReadLE32 pc1)))
          else \<lparr>go_ok = True, go_pc = pc1, go_opcode = opcode, go_data = []\<rparr>)"

lemma GetOp2_shorter: "pc \<noteq> [] \<Longrightarrow> length (go_pc (GetOp2 pc)) < length pc"
  by (auto simp: GetOp2_def getop_push_def getop_fail_def split: list.splits)

section \<open>Script templates and scans\<close>

function IsPushOnly :: "bytes \<Rightarrow> bool" where
  "IsPushOnly pc =
     (if pc = [] then True
      else let g = GetOp2 pc
           in if \<not> go_ok g then False
              else if go_opcode g > OP_16 then False
              else IsPushOnly (go_pc g))"
  by pat_completeness auto
termination
  by (relation "measure length") (auto simp: GetOp2_shorter)

declare IsPushOnly.simps [simp del]

function sigop_loop :: "bool \<Rightarrow> bytes \<Rightarrow> u8 \<Rightarrow> nat \<Rightarrow> nat" where
  "sigop_loop fAccurate pc lastOpcode n =
     (if pc = [] then n
      else let g = GetOp2 pc; opcode = go_opcode g
           in if \<not> go_ok g then n
              else let n' = (if opcode = OP_CHECKSIG \<or> opcode = OP_CHECKSIGVERIFY then n + 1
                             else if opcode = OP_CHECKMULTISIG \<or> opcode = OP_CHECKMULTISIGVERIFY
                             then (if fAccurate \<and> lastOpcode \<ge> OP_1 \<and> lastOpcode \<le> OP_16
                                   then n + (case DecodeOP_N lastOpcode of Inr k \<Rightarrow> k | Inl _ \<Rightarrow> 0)
                                   else n + 20)
                             else n)
                   in sigop_loop fAccurate (go_pc g) opcode n')"
  by pat_completeness auto
termination
  by (relation "measure (\<lambda>(f, pc, l, n). length pc)") (auto simp: GetOp2_shorter)

declare sigop_loop.simps [simp del]

definition GetSigOpCount :: "script \<Rightarrow> bool \<Rightarrow> nat" where
  "GetSigOpCount s fAccurate = sigop_loop fAccurate s OP_INVALIDOPCODE 0"

definition IsPayToPublicKeyHash :: "script \<Rightarrow> bool" where
  "IsPayToPublicKeyHash s \<longleftrightarrow>
     length s = 25 \<and> s ! 0 = OP_DUP \<and> s ! 1 = OP_HASH160 \<and> s ! 2 = 0x14 \<and>
     s ! 23 = OP_EQUALVERIFY \<and> s ! 24 = OP_CHECKSIG"

definition IsPayToPublicKey :: "script \<Rightarrow> bool" where
  "IsPayToPublicKey s \<longleftrightarrow> length s = 35 \<and> s ! 0 = 33 \<and> s ! 34 = OP_CHECKSIG"

definition IsPayToScriptHash :: "script \<Rightarrow> bool" where
  "IsPayToScriptHash s \<longleftrightarrow>
     length s = 23 \<and> s ! 0 = OP_HASH160 \<and> s ! 1 = 0x14 \<and> s ! 22 = OP_EQUAL"

text \<open>The last push of a script that pushes only, as the P2SH count reads it; \<open>None\<close> is \<open>return 0\<close>.\<close>

function last_push :: "bytes \<Rightarrow> bytes \<Rightarrow> bytes option" where
  "last_push pc data =
     (if pc = [] then Some data
      else let g = GetOp2 pc
           in if \<not> go_ok g then None
              else if go_opcode g > OP_16 then None
              else last_push (go_pc g) (go_data g))"
  by pat_completeness auto
termination
  by (relation "measure (\<lambda>(pc, d). length pc)") (auto simp: GetOp2_shorter)

declare last_push.simps [simp del]

definition GetSigOpCountP2SH :: "script \<Rightarrow> script \<Rightarrow> nat" where
  "GetSigOpCountP2SH s scriptSig =
     (if \<not> IsPayToScriptHash s then GetSigOpCount s True
      else case last_push scriptSig [] of
             None \<Rightarrow> 0
           | Some data \<Rightarrow> GetSigOpCount data True)"

text \<open>
  \<open>GetBalancedData\<close> from an iterator: the flag it returns, the iterator it leaves and the
  solutions it collects.
\<close>

function balanced_loop :: "bytes \<Rightarrow> int \<Rightarrow> bytes list \<Rightarrow> bool \<times> bytes list" where
  "balanced_loop pc netPushes vSolutions =
     (if pc = [] then (netPushes = 0, vSolutions)
      else let g = GetOp2 pc; opcode = go_opcode g; data = go_data g
           in if \<not> go_ok g then (False, vSolutions)
              else if opcode = OP_DROP then
                (if netPushes - 1 < 0 then (False, vSolutions)
                 else balanced_loop (go_pc g) (netPushes - 1) vSolutions)
              else if opcode = OP_0 then
                balanced_loop (go_pc g) (netPushes + 1) (vSolutions @ [[0]])
              else if opcode \<ge> OP_1 \<and> opcode \<le> OP_16 then
                balanced_loop (go_pc g) (netPushes + 1) (vSolutions @ [[(opcode - OP_1) + 1]])
              else if opcode > 0 \<and> opcode \<le> OP_PUSHDATA4 \<and> length data > 0 then
                balanced_loop (go_pc g) (netPushes + 1) (vSolutions @ [data])
              else (False, vSolutions))"
  by pat_completeness auto
termination
  by (relation "measure (\<lambda>(pc, n, v). length pc)") (auto simp: GetOp2_shorter)

declare balanced_loop.simps [simp del]

definition GetBalancedData :: "bytes \<Rightarrow> bool \<times> bytes list" where
  "GetBalancedData pc = balanced_loop pc 0 []"

text \<open>
  In \<open>GetPushedData\<close> a failing \<open>GetOp\<close> does not end the loop: it goes on from where the
  iterator was left.
\<close>

function pushed_loop :: "bytes \<Rightarrow> bytes list \<Rightarrow> bool \<times> bytes list" where
  "pushed_loop pc vData =
     (if pc = [] then (vData \<noteq> [], vData)
      else let g = GetOp2 pc; opcode = go_opcode g; data = go_data g
           in if go_ok g then
                (if opcode = OP_0 then pushed_loop (go_pc g) (vData @ [[0]])
                 else if opcode \<ge> OP_1 \<and> opcode \<le> OP_16 then
                   pushed_loop (go_pc g) (vData @ [[(opcode - OP_1) + 1]])
                 else if opcode > 0 \<and> opcode \<le> OP_PUSHDATA4 \<and> length data > 0 then
                   pushed_loop (go_pc g) (vData @ [data])
                 else (False, vData))
              else pushed_loop (go_pc g) vData)"
  by pat_completeness auto
termination
  by (relation "measure (\<lambda>(pc, v). length pc)") (auto simp: GetOp2_shorter)

declare pushed_loop.simps [simp del]

definition GetPushedData :: "bytes \<Rightarrow> bool \<times> bytes list" where
  "GetPushedData pc = pushed_loop pc []"

definition GetOpretData :: "script \<Rightarrow> (bool \<times> bytes list) option" where
  "GetOpretData s =
     (let g = GetOp2 s
      in if go_ok g \<and> go_opcode g = OP_RETURN then Some (GetPushedData (go_pc g)) else None)"

text \<open>The sub-script and the parameters are returned when the script is a crypto-condition output.\<close>

definition IsPayToCryptoCondition :: "script \<Rightarrow> (script \<times> bytes list) option" where
  "IsPayToCryptoCondition s =
     (let g = GetOp2 s
      in if go_ok g \<and> go_opcode g > OP_0 \<and> go_opcode g < OP_PUSHDATA1 then
           (let h = GetOp2 (go_pc g)
            in if go_ok h \<and> go_opcode h = OP_CHECKCRYPTOCONDITION then
                 (case GetBalancedData (go_pc h) of
                    (True, vParams) \<Rightarrow> Some (take (length s - length (go_pc h)) s, vParams)
                  | (False, _) \<Rightarrow> None)
               else None)
         else None)"

definition EVAL_IMPORTCOIN :: u8 where
  "EVAL_IMPORTCOIN = 0xe2"

definition script_IsCoinImport :: "script \<Rightarrow> script_error_kind + bool" where
  "script_IsCoinImport s =
     (let g = GetOp2 s
      in if go_ok g \<and> go_opcode g > OP_0 \<and> go_opcode g \<le> OP_PUSHDATA4 then
           (case go_data g of [] \<Rightarrow> Inl OutOfBounds | d # _ \<Rightarrow> Inr (d = EVAL_IMPORTCOIN))
         else Inr False)"

definition IsWitnessProgram :: "script \<Rightarrow> (nat \<times> bytes) option" where
  "IsWitnessProgram s =
     (if length s < 4 \<or> length s > 42 then None
      else if s ! 0 \<noteq> OP_0 \<and> (s ! 0 < OP_1 \<or> s ! 0 > OP_16) then None
      else if unat (s ! 1) + 2 = length s then
        (case DecodeOP_N (s ! 0) of Inr version \<Rightarrow> Some (version, drop 2 s) | Inl _ \<Rightarrow> None)
      else None)"

text \<open>
  The byte after the first push is read at position \<open>size + 1\<close>, without a check that the
  script has that many bytes; the time itself is the little-endian value of the pushed bytes.
\<close>

definition IsCheckLockTimeVerify :: "script \<Rightarrow> script_error_kind + int option" where
  "IsCheckLockTimeVerify s =
     (let g = GetOp2 s; param = go_data g
      in if go_ok g \<and> length param < 6 then
           (if length param + 1 < length s
            then Inr (if s ! (length param + 1) = OP_CHECKLOCKTIMEVERIFY then Some (int (le_val param)) else None)
            else Inl OutOfBounds)
         else Inr None)"

definition IsOpReturn :: "script \<Rightarrow> bool" where
  "IsOpReturn s \<longleftrightarrow> length s > 0 \<and> s ! 0 = OP_RETURN"

definition IsUnspendable :: "script \<Rightarrow> bool" where
  "IsUnspendable s \<longleftrightarrow> (length s > 0 \<and> hd s = OP_RETURN) \<or> length s > MAX_SCRIPT_SIZE"

end
