(* ===== verification/ScriptProps.thy ===== *)
theory ScriptProps
  imports Script
begin

text \<open>
  What \<^verbatim>\<open>script.h\<close> promises of its two encodings: script numbers (the byte strings
  the interpreter does arithmetic on) and pushes (what \<open>operator<<\<close> writes and
  \<open>GetOp\<close> reads back).
\<close>

section \<open>Script numbers\<close>

lemma abs_bytes_0 [simp]: "abs_bytes 0 = []"
  by (subst abs_bytes.simps) simp

lemma abs_bytes_pos: "0 < n \<Longrightarrow> abs_bytes n = of_nat n # abs_bytes (n div 256)"
  by (subst abs_bytes.simps) simp

lemma abs_bytes_eq_Nil_iff [simp]: "abs_bytes n = [] \<longleftrightarrow> n = 0"
  by (cases "n = 0") (simp_all add: abs_bytes_pos)

lemma le_val_abs_bytes [le_simps, simp]: "le_val (abs_bytes n) = n"
proof (induction n rule: abs_bytes.induct)
  case (1 n)
  then show ?case by (cases "n = 0") (simp_all add: abs_bytes_pos unsigned_of_nat take_bit_eq_mod)
qed

lemma last_abs_bytes: "0 < n \<Longrightarrow> last (abs_bytes n) \<noteq> 0"
proof (induction n rule: abs_bytes.induct)
  case (1 n)
  show ?case
  proof (cases "n div 256 = 0")
    case True
    then have "n < 256" by (simp add: div_eq_0_iff)
    then have "unat (of_nat n :: u8) = n" by (simp add: unsigned_of_nat take_bit_eq_mod)
    moreover have "abs_bytes n = [of_nat n]" using 1(2) True by (simp add: abs_bytes_pos)
    ultimately show ?thesis using 1(2) by auto
  next
    case False
    then show ?thesis using 1 by (simp add: abs_bytes_pos)
  qed
qed

text \<open>The byte strings without a zero at the end are the fixed points of \<open>abs_bytes\<close>.\<close>

lemma abs_bytes_le_val: "bs = [] \<or> last bs \<noteq> 0 \<Longrightarrow> abs_bytes (le_val bs) = bs"
proof (induction bs)
  case (Cons b bs)
  have pos: "0 < le_val (b # bs)"
  proof (rule ccontr)
    assume "\<not> 0 < le_val (b # bs)"
    then have "le_val (b # bs) = 0" by simp
    then have "\<forall>w\<in>set (b # bs). w = 0" by (simp only: le_val_eq_0_iff)
    then show False using Cons.prems last_in_set [of "b # bs"] by auto
  qed
  have dm: "le_val (b # bs) div 256 = le_val bs" using u8_less [of b] by simp
  have om: "(of_nat (le_val (b # bs)) :: u8) = b"
    unfolding word_unat_eq_iff unat_of_nat_mod using u8_less [of b] by simp
  have "bs = [] \<or> last bs \<noteq> 0" using Cons.prems by (auto split: if_splits)
  from Cons.IH [OF this] show ?case unfolding abs_bytes_pos [OF pos] dm om by simp
qed simp

lemma and_0x80_iff: "(b :: u8) AND 0x80 = 0 \<longleftrightarrow> \<not> bit b 7"
  using and_exp_eq_0_iff_not_bit [of b 7] by simp

lemma bit7_iff: "bit (b :: u8) 7 \<longleftrightarrow> 128 \<le> unat b"
proof -
  have "bit (unat b) 7 \<longleftrightarrow> 2 ^ 7 \<le> unat b"
    by (rule bit_top_iff) (use unsigned_less [of b, where 'a = nat] in simp)
  then show ?thesis by (simp add: bit_unat_iff)
qed

lemma unat_or_0x80: "unat ((b :: u8) OR 0x80) = unat b mod 128 + 128"
proof -
  have e: "bit (0x80 :: u8) n \<longleftrightarrow> n = 7" for n
  proof -
    have "(0x80 :: u8) = 2 ^ 7" by simp
    then show ?thesis by (simp only: bit_exp_iff) auto
  qed
  have "(b :: u8) OR 0x80 = (b AND mask 7) OR 0x80"
    by (rule bit_word_eqI, simp only: bit_or_iff bit_and_iff bit_mask_iff e) auto
  also have "\<dots> = (b AND mask 7) + 0x80"
    by (rule disjunctive_add_eq_or [symmetric], rule bit_word_eqI,
        simp only: bit_and_iff bit_mask_iff e) auto
  finally have eq: "(b :: u8) OR 0x80 = (b AND mask 7) + 0x80" .
  have u: "unat (b AND mask 7) = unat b mod 128" by (simp add: unat_and_mask)
  show ?thesis unfolding eq by (subst unat_add_nowrap) (simp_all add: u)
qed

lemma and_0x7f_iff: "(b :: u8) AND 0x7f = 0 \<longleftrightarrow> unat b mod 128 = 0"
proof -
  have "(b AND 0x7f) = b AND mask 7" by (simp add: mask_eq_exp_minus_1)
  then show ?thesis by (simp add: word_unat_eq_iff unat_and_mask)
qed

lemma clear_top_bit:
  assumes "v < 2 ^ k"
  shows "int (v + 2 ^ k) AND NOT (2 ^ k) = int v"
proof (rule bit_eqI)
  fix i
  have b1: "bit (v + 2 ^ k) i \<longleftrightarrow> (if i < k then bit v i else i = k)"
    using bit_add_mult_pow [OF assms, of 1 i] bit_1_iff [of "i - k", where 'a = nat] by (auto simp del: One_nat_def)
  have b0: "i < k" if "bit v i"
    using that assms by (metis bit_take_bit_iff take_bit_nat_eq_self)
  show "bit (int (v + 2 ^ k) AND NOT (2 ^ k)) i = bit (int v) i"
    unfolding bit_and_iff bit_not_iff_eq bit_of_nat_iff b1 bit_exp_iff using b0 by auto
qed

text \<open>The value of a number's bytes: the magnitude of the low bits, negated by the top bit.\<close>

lemma set_vch_snoc:
  "set_vch (bs @ [b]) =
     (let mag = int (le_val bs + 2 ^ (8 * length bs) * (unat b mod 128))
      in if 128 \<le> unat b then - mag else mag)"
proof (cases "128 \<le> unat b")
  case False
  then have "unat b mod 128 = unat b" by simp
  with False show ?thesis
    by (simp add: set_vch_def and_0x80_iff bit7_iff le_val_append)
next
  case True
  let ?L = "8 * length bs" and ?m = "unat b mod 128"
  have lt: "le_val bs < 2 ^ ?L" using le_val_bound [of bs] by simp
  have ub: "unat b = ?m + 128"
    using True u8_less [of b] le_mod_geq [of 128 "unat b"] by simp
  have "le_val bs + 2 ^ ?L * ?m < 2 ^ ?L * 128"
  proof -
    have "2 ^ ?L * (?m + 1) \<le> 2 ^ ?L * (128::nat)"
      by (rule mult_le_mono2) (use mod_less_divisor [of 128 "unat b"] in linarith)
    then show ?thesis using lt unfolding distrib_left mult_1_right by linarith
  qed
  then have small: "le_val bs + 2 ^ ?L * ?m < 2 ^ (?L + 7)" by (simp add: power_add)
  let ?v = "le_val bs + 2 ^ ?L * ?m"
  have v: "le_val (bs @ [b]) = ?v + 2 ^ (?L + 7)"
  proof -
    have "2 ^ ?L * unat b = 2 ^ ?L * ?m + 2 ^ ?L * 128" by (subst ub) (rule distrib_left)
    then show ?thesis by (simp add: le_val_append power_add)
  qed
  have "int (?v + 2 ^ (?L + 7)) AND NOT (push_bit ?L 0x80) = int ?v"
    using clear_top_bit [OF small] by (simp add: push_bit_eq_mult power_add mult.commute)
  with True show ?thesis
    by (simp add: set_vch_def and_0x80_iff bit7_iff v Let_def)
qed

text \<open>The number's bytes, read from the digits of its magnitude.\<close>

lemma serialize_cases:
  assumes "v \<noteq> 0"
  obtains bs b where
    "abs_bytes (nat \<bar>v\<bar>) = bs @ [b]" "b \<noteq> 0"
    "nat \<bar>v\<bar> = le_val bs + 2 ^ (8 * length bs) * unat b"
    "scriptnum_serialize v =
       (if 128 \<le> unat b then bs @ [b, if v < 0 then 0x80 else 0]
        else if v < 0 then bs @ [b OR 0x80] else bs @ [b])"
proof -
  let ?n = "nat \<bar>v\<bar>"
  have "abs_bytes ?n \<noteq> []" using assms by simp
  then obtain bs b where bs: "abs_bytes ?n = bs @ [b]" by (cases "abs_bytes ?n" rule: rev_exhaust) auto
  moreover have "b \<noteq> 0" using last_abs_bytes [of ?n] assms bs by simp
  moreover have "?n = le_val bs + 2 ^ (8 * length bs) * unat b"
  proof -
    have "?n = le_val (bs @ [b])" using bs le_val_abs_bytes [of ?n] by simp
    then show ?thesis by (simp add: le_val_append)
  qed
  moreover have "scriptnum_serialize v =
       (if 128 \<le> unat b then bs @ [b, if v < 0 then 0x80 else 0]
        else if v < 0 then bs @ [b OR 0x80] else bs @ [b])"
    using assms by (simp add: scriptnum_serialize_def bs and_0x80_iff bit7_iff Let_def)
  ultimately show thesis by (rule that)
qed

lemma set_vch_serialize: "set_vch (scriptnum_serialize v) = v"
proof (cases "v = 0")
  case True
  then show ?thesis by (simp add: scriptnum_serialize_def set_vch_def)
next
  case False
  then obtain bs b where b: "nat \<bar>v\<bar> = le_val bs + 2 ^ (8 * length bs) * unat b"
    and s: "scriptnum_serialize v =
       (if 128 \<le> unat b then bs @ [b, if v < 0 then 0x80 else 0]
        else if v < 0 then bs @ [b OR 0x80] else bs @ [b])"
    by (rule serialize_cases)
  have vi: "int (le_val bs + 2 ^ (8 * length bs) * unat b) = \<bar>v\<bar>" by (subst b [symmetric]) simp
  show ?thesis
  proof (cases "128 \<le> unat b")
    case True
    then have "scriptnum_serialize v = (bs @ [b]) @ [if v < 0 then 0x80 else 0]" by (simp add: s)
    moreover have "le_val (bs @ [b]) = le_val bs + 2 ^ (8 * length bs) * unat b" by (simp add: le_val_append)
    ultimately show ?thesis using vi by (simp only: set_vch_snoc Let_def) (auto split: if_splits)
  next
    case F: False
    then show ?thesis using vi by (auto simp: s set_vch_snoc unat_or_0x80 Let_def simp del: of_nat_add)
  qed
qed

text \<open>The encodings the minimality rule lets through are the ones \<open>serialize\<close> writes.\<close>

lemma serialize_set_vch_top:
  assumes "unat b mod 128 \<noteq> 0"
  shows "scriptnum_serialize (set_vch (bs @ [b])) = bs @ [b]"
proof -
  define c :: u8 where "c = b AND 0x7f"
  have uc: "unat c = unat b mod 128" using unat_and_mask [of b 7] by (simp add: c_def mask_eq_exp_minus_1)
  define mag where "mag = le_val bs + 2 ^ (8 * length bs) * (unat b mod 128)"
  have mag: "mag = le_val (bs @ [c])" by (simp add: mag_def le_val_append uc)
  have "c \<noteq> 0" using uc assms by auto
  then have ab: "abs_bytes mag = bs @ [c]" unfolding mag by (intro abs_bytes_le_val) simp
  have pos: "mag \<noteq> 0" using assms by (simp add: mag_def)
  have "unat c < 128" using uc by simp
  then have nc: "last (bs @ [c]) AND 0x80 = 0" by (simp add: and_0x80_iff bit7_iff)
  show ?thesis
  proof (cases "128 \<le> unat b")
    case True
    then have v: "set_vch (bs @ [b]) = - int mag" by (simp add: set_vch_snoc Let_def mag_def)
    have "c OR 0x80 = b"
      using True u8_less [of b] uc le_mod_geq [of 128 "unat b"] by (simp add: word_unat_eq_iff unat_or_0x80)
    then show ?thesis unfolding v scriptnum_serialize_def using pos nc ab by (simp add: Let_def)
  next
    case False
    then have v: "set_vch (bs @ [b]) = int mag" by (simp add: set_vch_snoc Let_def mag_def)
    have "c = b" using False uc by (simp add: word_unat_eq_iff)
    then show ?thesis unfolding v scriptnum_serialize_def using pos nc ab by (simp add: Let_def)
  qed
qed

lemma serialize_set_vch_sign:
  assumes "unat b mod 128 = 0" "128 \<le> unat c"
  shows "scriptnum_serialize (set_vch (bs @ [c, b])) = bs @ [c, b]"
proof -
  let ?mag = "le_val (bs @ [c])"
  have cn: "c \<noteq> 0" using assms(2) by auto
  then have ab: "abs_bytes ?mag = bs @ [c]" by (intro abs_bytes_le_val) simp
  then have pos: "?mag \<noteq> 0" by (metis abs_bytes_0 append_is_Nil_conv not_Cons_self)
  have b: "b = (if 128 \<le> unat b then 0x80 else 0)"
    using assms(1) u8_less [of b] by (auto simp: word_unat_eq_iff le_mod_geq)
  have v: "set_vch (bs @ [c, b]) = (if 128 \<le> unat b then - int ?mag else int ?mag)"
    using set_vch_snoc [of "bs @ [c]" b] assms(1) by (simp add: Let_def)
  have "last (bs @ [c]) AND 0x80 \<noteq> 0" using assms(2) by (simp add: and_0x80_iff bit7_iff)
  then show ?thesis unfolding v scriptnum_serialize_def using pos ab b
    by (cases "128 \<le> unat b") (simp_all add: Let_def)
qed

lemma serialize_minimal:
  "v \<noteq> 0 \<Longrightarrow> \<not> (last (scriptnum_serialize v) AND 0x7f = 0 \<and>
     (length (scriptnum_serialize v) \<le> 1 \<or>
      scriptnum_serialize v ! (length (scriptnum_serialize v) - 2) AND 0x80 = 0))"
proof -
  assume "v \<noteq> 0"
  then obtain bs b where "b \<noteq> 0" and s: "scriptnum_serialize v =
       (if 128 \<le> unat b then bs @ [b, if v < 0 then 0x80 else 0]
        else if v < 0 then bs @ [b OR 0x80] else bs @ [b])"
    by (rule serialize_cases)
  moreover from \<open>b \<noteq> 0\<close> have "unat b \<noteq> 0" by (simp add: unat_eq_0)
  ultimately show ?thesis
    by (auto simp: and_0x7f_iff and_0x80_iff bit7_iff unat_or_0x80 nth_append)
qed

lemma length_serialize_le:
  assumes "0 < k"
  shows "length (scriptnum_serialize v) \<le> k \<longleftrightarrow> \<bar>v\<bar> < 2 ^ (8 * k - 1)"
proof (cases "v = 0")
  case True
  then show ?thesis by (simp add: scriptnum_serialize_def)
next
  case False
  then obtain bs b where b: "b \<noteq> 0" "nat \<bar>v\<bar> = le_val bs + 2 ^ (8 * length bs) * unat b"
    and s: "scriptnum_serialize v =
       (if 128 \<le> unat b then bs @ [b, if v < 0 then 0x80 else 0]
        else if v < 0 then bs @ [b OR 0x80] else bs @ [b])"
    by (rule serialize_cases)
  let ?l = "length bs" and ?n = "le_val bs + 2 ^ (8 * length bs) * unat b"
  have abs: "\<bar>v\<bar> = int ?n" by (subst b(2) [symmetric]) simp
  have mono: "(2::nat) ^ i \<le> 2 ^ j" if "i \<le> j" for i j using that by (rule power_increasing) simp
  have lo: "2 ^ (8 * ?l) * c \<le> ?n" if "c \<le> unat b" for c
    using mult_le_mono2 [OF that, of "2 ^ (8 * ?l)"] by linarith
  have hi: "?n < 2 ^ (8 * ?l) * c" if "unat b < c" for c
  proof -
    have "2 ^ (8 * ?l) * (unat b + 1) \<le> 2 ^ (8 * ?l) * c" using that by (intro mult_le_mono2) simp
    moreover have "le_val bs < 2 ^ (8 * ?l)" using le_val_bound [of bs] by simp
    ultimately show ?thesis unfolding distrib_left mult_1_right by linarith
  qed
  have ub: "unat b < 256" "1 \<le> unat b" using u8_less [of b] b(1) by (simp_all add: Suc_le_eq unat_gt_0)
  have "length (scriptnum_serialize v) \<le> k \<longleftrightarrow> ?n < 2 ^ (8 * k - 1)"
  proof (cases "128 \<le> unat b")
    case True
    have L: "length (scriptnum_serialize v) = ?l + 2" using True by (simp add: s)
    have lo': "2 ^ (8 * ?l + 7) \<le> ?n" and hi': "?n < 2 ^ (8 * ?l + 8)"
      using lo [OF True] hi [OF ub(1)] by (simp_all add: power_add)
    show ?thesis unfolding L
    proof (cases "?l + 2 \<le> k")
      case True
      then have "(2::nat) ^ (8 * ?l + 8) \<le> 2 ^ (8 * k - 1)" by (intro mono) linarith
      with True hi' show "(?l + 2 \<le> k) = (?n < 2 ^ (8 * k - 1))" by linarith
    next
      case False
      then have "(2::nat) ^ (8 * k - 1) \<le> 2 ^ (8 * ?l + 7)" by (intro mono) linarith
      with False lo' show "(?l + 2 \<le> k) = (?n < 2 ^ (8 * k - 1))" by linarith
    qed
  next
    case F: False
    have L: "length (scriptnum_serialize v) = ?l + 1" using F by (simp add: s)
    have lo': "2 ^ (8 * ?l) \<le> ?n" and hi': "?n < 2 ^ (8 * ?l + 7)"
      using lo [OF ub(2)] hi [of 128] F by (simp_all add: power_add)
    show ?thesis unfolding L
    proof (cases "?l + 1 \<le> k")
      case True
      then have "(2::nat) ^ (8 * ?l + 7) \<le> 2 ^ (8 * k - 1)" by (intro mono) linarith
      with True hi' show "(?l + 1 \<le> k) = (?n < 2 ^ (8 * k - 1))" by linarith
    next
      case False
      then have "(2::nat) ^ (8 * k - 1) \<le> 2 ^ (8 * ?l)" by (intro mono) linarith
      with False lo' show "(?l + 1 \<le> k) = (?n < 2 ^ (8 * k - 1))" by linarith
    qed
  qed
  then show ?thesis unfolding abs by (simp only: of_nat_less_iff [where 'a = int, symmetric] of_nat_power of_nat_numeral)
qed

text \<open>
  C31. Script numbers are canonical. With the minimality rule on, and a size limit of at most eight
  bytes, \<open>CScriptNum(vch, true, k)\<close> accepts exactly the byte strings that \<open>getvch\<close> writes for
  a number below \<open>2 ^ (8 k - 1)\<close> in magnitude (for the default limit of four bytes:
  \<open>-2^31 + 1\<close> to \<open>2^31 - 1\<close>), and reads that number back: no second spelling of a number
  gets through, and none is misread.
\<close>

theorem scriptnum_canonical:
  assumes "0 < k" "k \<le> 8"
  shows "scriptnum_from_vch vch True k = Inr n \<longleftrightarrow> vch = getvch n \<and> \<bar>m_value n\<bar> < 2 ^ (8 * k - 1)"
proof
  assume acc: "scriptnum_from_vch vch True k = Inr n"
  then have len: "length vch \<le> k" and n: "m_value n = set_vch vch"
    and min: "\<not> (0 < length vch \<and> last vch AND 0x7f = 0 \<and>
                 (length vch \<le> 1 \<or> vch ! (length vch - 2) AND 0x80 = 0))"
    by (auto simp: scriptnum_from_vch_def split: if_splits)
  have "scriptnum_serialize (set_vch vch) = vch"
  proof (cases vch rule: rev_cases)
    case Nil
    then show ?thesis by (simp add: set_vch_def scriptnum_serialize_def)
  next
    case (snoc cs b)
    show ?thesis
    proof (cases "unat b mod 128 = 0")
      case True
      then have "b AND 0x7f = 0" by (simp add: and_0x7f_iff)
      then obtain bs c where cs: "cs = bs @ [c]" and c: "c AND 0x80 \<noteq> 0"
        using min snoc by (cases cs rule: rev_cases) (auto simp: nth_append)
      then show ?thesis using True serialize_set_vch_sign [of b c bs]
        by (simp add: snoc and_0x80_iff bit7_iff)
    qed (simp add: snoc serialize_set_vch_top)
  qed
  then show "vch = getvch n \<and> \<bar>m_value n\<bar> < 2 ^ (8 * k - 1)"
    using len length_serialize_le [OF assms(1), of "m_value n"] by (simp add: getvch_def n)
next
  assume v: "vch = getvch n \<and> \<bar>m_value n\<bar> < 2 ^ (8 * k - 1)"
  then have "length vch \<le> k" using length_serialize_le [OF assms(1), of "m_value n"] by (simp add: getvch_def)
  moreover have "m_value n = 0 \<Longrightarrow> vch = []" using v by (simp add: getvch_def scriptnum_serialize_def)
  ultimately show "scriptnum_from_vch vch True k = Inr n"
    using v serialize_minimal [of "m_value n"] set_vch_serialize [of "m_value n"]
    by (cases "m_value n = 0") (auto simp: scriptnum_from_vch_def getvch_def)
qed

theorem scriptnum_canonical_witness:
  "scriptnum_from_vch [0xff, 0x80] True 4 = Inr \<lparr>m_value = - 255\<rparr>
     \<longleftrightarrow> [0xff, 0x80] = getvch \<lparr>m_value = - 255\<rparr> \<and> \<bar>m_value \<lparr>m_value = - 255\<rparr>\<bar> < 2 ^ (8 * 4 - 1)"
  by (rule scriptnum_canonical) simp_all

section \<open>Pushes\<close>

lemma getop_push_exact: "length b = n \<Longrightarrow> getop_push op (b @ r) n =
    \<lparr>go_ok = True, go_pc = r, go_opcode = op, go_data = b\<rparr>"
  by (simp add: getop_push_def)

lemma push_vector_append: "push_vector s b = s @ push_vector [] b"
  by (simp add: push_vector_def)

lemma GetOp2_direct:
  assumes "length b < 76"
  shows "GetOp2 (of_nat (length b) # b @ r) =
    \<lparr>go_ok = True, go_pc = r, go_opcode = of_nat (length b), go_data = b\<rparr>"
proof -
  have u: "unat (of_nat (length b) :: u8) = length b" using assms by (simp add: unat_of_nat_mod)
  have "(of_nat (length b) :: u8) < OP_PUSHDATA1" using assms u by (simp add: word_less_nat_alt)
  then show ?thesis using u by (simp add: GetOp2_def getop_push_exact order.strict_implies_order
        order_less_le_trans [of _ OP_PUSHDATA1 OP_PUSHDATA4])
qed

lemma GetOp2_push_vector:
  assumes "length b < 2 ^ 32"
  shows "let g = GetOp2 (push_vector [] b @ r)
         in go_ok g \<and> go_pc g = r \<and> go_data g = b \<and> go_opcode g \<le> OP_PUSHDATA4"
proof -
  consider "length b < 76" | "76 \<le> length b" "length b \<le> 0xff"
    | "0xff < length b" "length b \<le> 0xffff" | "0xffff < length b" by linarith
  then show ?thesis
  proof cases
    case 1
    then have "unat (of_nat (length b) :: u8) = length b" by (simp add: unat_of_nat_mod)
    then show ?thesis using 1 GetOp2_direct [of b r]
      by (simp add: push_vector_def Let_def word_le_nat_alt)
  next
    case 2
    then have "unat (of_nat (length b) :: u8) = length b" by (simp add: unat_of_nat_mod)
    then show ?thesis using 2 by (simp add: push_vector_def GetOp2_def getop_push_exact Let_def)
  next
    case 3
    then have "unat (of_nat (length b) :: u16) = length b" by (simp add: unat_of_nat_mod)
    then show ?thesis using 3 by (simp add: push_vector_def GetOp2_def getop_push_exact Let_def)
  next
    case 4
    then have "unat (of_nat (length b) :: u32) = length b" using assms by (simp add: unat_of_nat_mod)
    then show ?thesis using 4 by (simp add: push_vector_def GetOp2_def getop_push_exact Let_def)
  qed
qed

lemma push_vector_pos: "0 < length (push_vector [] b)"
  by (simp add: push_vector_def)

text \<open>
  What is pushed is parsed back. After \<open>script << data\<close>, \<open>GetOp\<close> at the place where the
  script ended before returns a push opcode and exactly \<open>data\<close>, and leaves the iterator behind
  the push, whatever follows; the four encodings (direct, PUSHDATA1, 2 and 4) are all covered.
\<close>

theorem push_GetOp_roundtrip:
  assumes "length data < 2 ^ 32"
  shows "let g = GetOp2 (drop (length s) (push_vector s data) @ r)
         in go_ok g \<and> go_pc g = r \<and> go_data g = data \<and> go_opcode g \<le> OP_PUSHDATA4"
  using GetOp2_push_vector [OF assms] push_vector_append [of s data] by simp

theorem push_GetOp_roundtrip_witness:
  "let g = GetOp2 (drop (length [OP_DUP]) (push_vector [OP_DUP] [1, 2, 3]) @ [OP_EQUAL])
   in go_ok g \<and> go_pc g = [OP_EQUAL] \<and> go_data g = [1, 2, 3] \<and> go_opcode g \<le> OP_PUSHDATA4"
  by (rule push_GetOp_roundtrip) simp

section \<open>Templates\<close>

lemma decompose3:
  assumes "length s = i + m + k"
  obtains a b c where "s = a @ b @ c" "length a = i" "length b = m" "length c = k"
  using assms by (metis append_take_drop_id length_take length_drop min_absorb2 le_add1 add_diff_cancel_left' add.assoc)

text \<open>
  The script templates are exactly the scripts built by \<open>operator<<\<close>: pay-to-public-key-hash is
  \<open>OP_DUP OP_HASH160 h OP_EQUALVERIFY OP_CHECKSIG\<close>, pay-to-script-hash is
  \<open>OP_HASH160 h OP_EQUAL\<close>, for some twenty bytes \<open>h\<close>, and pay-to-public-key is a push of
  thirty-three bytes and \<open>OP_CHECKSIG\<close>.
\<close>

theorem templates_are_built:
  "(IsPayToPublicKeyHash s \<longleftrightarrow> (\<exists>h. length h = 20 \<and>
      s = push_opcode (push_opcode (push_vector (push_opcode (push_opcode [] OP_DUP) OP_HASH160) h)
            OP_EQUALVERIFY) OP_CHECKSIG)) \<and>
   (IsPayToScriptHash s \<longleftrightarrow> (\<exists>h. length h = 20 \<and>
      s = push_opcode (push_vector (push_opcode [] OP_HASH160) h) OP_EQUAL)) \<and>
   (IsPayToPublicKey s \<longleftrightarrow> (\<exists>k. length k = 33 \<and> s = push_opcode (push_vector [] k) OP_CHECKSIG))"
proof (intro conjI iffI)
  assume h: "IsPayToPublicKeyHash s"
  then have "length s = 3 + 20 + 2" by (simp add: IsPayToPublicKeyHash_def)
  then obtain a b c where s: "s = a @ b @ c" "length a = 3" "length b = 20" "length c = 2" by (rule decompose3)
  then show "\<exists>h. length h = 20 \<and>
      s = push_opcode (push_opcode (push_vector (push_opcode (push_opcode [] OP_DUP) OP_HASH160) h)
            OP_EQUALVERIFY) OP_CHECKSIG"
    using h list_nth_eq(3) [of a] list_nth_eq(2) [of c]
    by (intro exI [of _ b]) (simp add: IsPayToPublicKeyHash_def push_opcode_def push_vector_def nth_append)
next
  assume h: "IsPayToScriptHash s"
  then have "length s = 2 + 20 + 1" by (simp add: IsPayToScriptHash_def)
  then obtain a b c where s: "s = a @ b @ c" "length a = 2" "length b = 20" "length c = 1" by (rule decompose3)
  then show "\<exists>h. length h = 20 \<and> s = push_opcode (push_vector (push_opcode [] OP_HASH160) h) OP_EQUAL"
    using h list_nth_eq(2) [of a] list_nth_eq(1) [of c]
    by (intro exI [of _ b]) (simp add: IsPayToScriptHash_def push_opcode_def push_vector_def nth_append)
next
  assume h: "IsPayToPublicKey s"
  then have "length s = 1 + 33 + 1" by (simp add: IsPayToPublicKey_def)
  then obtain a b c where s: "s = a @ b @ c" "length a = 1" "length b = 33" "length c = 1" by (rule decompose3)
  then show "\<exists>k. length k = 33 \<and> s = push_opcode (push_vector [] k) OP_CHECKSIG"
    using h list_nth_eq(1) [of a] list_nth_eq(1) [of c]
    by (intro exI [of _ b]) (simp add: IsPayToPublicKey_def push_opcode_def push_vector_def nth_append)
qed (auto simp: IsPayToPublicKeyHash_def IsPayToScriptHash_def IsPayToPublicKey_def push_opcode_def
      push_vector_def nth_append)

end
