(* ===== verification/Interpreter.thy ===== *)
theory Interpreter
  imports Hash ScriptProps
begin

text \<open>
  \<^verbatim>\<open>src/script/interpreter.cpp\<close>: the script interpreter and the verification of an
  input. A stack is the list of its elements, the top first; \<open>vfExec\<close> likewise, the innermost
  conditional first. Each case of the switch of \<open>EvalScript\<close> is a definition of its own.

  Failures: \<open>Err e\<close> is \<open>return set_error(serror, e)\<close>. An exception thrown inside
  \<open>EvalScript\<close> is caught there and is \<open>Err SCRIPT_ERR_UNKNOWN_ERROR\<close>. A failed
  \<open>assert\<close>, which ends the process, is \<open>Abort\<close>. A routine that returns false without
  setting \<open>serror\<close> leaves the value set on entry, \<open>SCRIPT_ERR_UNKNOWN_ERROR\<close>.

  What the interpreter takes from outside is the record \<open>script_env\<close>: the flags, the signature
  checker's three virtual functions, \<open>CPubKey::CheckLowS\<close> (libsecp256k1) and
  \<open>IsCryptoConditionsEnabled\<close> (a global of the chain).
\<close>

section \<open>Errors, flags and environment\<close>

datatype ScriptError =
    SCRIPT_ERR_OK | SCRIPT_ERR_UNKNOWN_ERROR | SCRIPT_ERR_EVAL_FALSE | SCRIPT_ERR_OP_RETURN
  | SCRIPT_ERR_SCRIPT_SIZE | SCRIPT_ERR_PUSH_SIZE | SCRIPT_ERR_OP_COUNT | SCRIPT_ERR_STACK_SIZE
  | SCRIPT_ERR_SIG_COUNT | SCRIPT_ERR_PUBKEY_COUNT
  | SCRIPT_ERR_VERIFY | SCRIPT_ERR_EQUALVERIFY | SCRIPT_ERR_CHECKMULTISIGVERIFY
  | SCRIPT_ERR_CHECKSIGVERIFY | SCRIPT_ERR_NUMEQUALVERIFY
  | SCRIPT_ERR_BAD_OPCODE | SCRIPT_ERR_DISABLED_OPCODE | SCRIPT_ERR_INVALID_STACK_OPERATION
  | SCRIPT_ERR_INVALID_ALTSTACK_OPERATION | SCRIPT_ERR_UNBALANCED_CONDITIONAL
  | SCRIPT_ERR_NEGATIVE_LOCKTIME | SCRIPT_ERR_UNSATISFIED_LOCKTIME
  | SCRIPT_ERR_SIG_HASHTYPE | SCRIPT_ERR_SIG_DER | SCRIPT_ERR_MINIMALDATA | SCRIPT_ERR_SIG_PUSHONLY
  | SCRIPT_ERR_SIG_HIGH_S | SCRIPT_ERR_SIG_NULLDUMMY | SCRIPT_ERR_PUBKEYTYPE | SCRIPT_ERR_CLEANSTACK
  | SCRIPT_ERR_DISCOURAGE_UPGRADABLE_NOPS | SCRIPT_ERR_ERROR_COUNT
  | SCRIPT_ERR_CRYPTOCONDITION_VERIFY | SCRIPT_ERR_CRYPTOCONDITION_INVALID_FULFILLMENT

datatype eval_fail = Err ScriptError | Abort

abbreviation SIGHASH_ALL :: u8 where
  "SIGHASH_ALL \<equiv> 1"

abbreviation SIGHASH_NONE :: u8 where
  "SIGHASH_NONE \<equiv> 2"

abbreviation SIGHASH_SINGLE :: u8 where
  "SIGHASH_SINGLE \<equiv> 3"

abbreviation SIGHASH_ANYONECANPAY :: u8 where
  "SIGHASH_ANYONECANPAY \<equiv> 0x80"

abbreviation SCRIPT_VERIFY_P2SH :: nat where
  "SCRIPT_VERIFY_P2SH \<equiv> 0"

abbreviation SCRIPT_VERIFY_STRICTENC :: nat where
  "SCRIPT_VERIFY_STRICTENC \<equiv> 1"

abbreviation SCRIPT_VERIFY_LOW_S :: nat where
  "SCRIPT_VERIFY_LOW_S \<equiv> 3"

abbreviation SCRIPT_VERIFY_NULLDUMMY :: nat where
  "SCRIPT_VERIFY_NULLDUMMY \<equiv> 4"

abbreviation SCRIPT_VERIFY_SIGPUSHONLY :: nat where
  "SCRIPT_VERIFY_SIGPUSHONLY \<equiv> 5"

abbreviation SCRIPT_VERIFY_MINIMALDATA :: nat where
  "SCRIPT_VERIFY_MINIMALDATA \<equiv> 6"

abbreviation SCRIPT_VERIFY_DISCOURAGE_UPGRADABLE_NOPS :: nat where
  "SCRIPT_VERIFY_DISCOURAGE_UPGRADABLE_NOPS \<equiv> 7"

abbreviation SCRIPT_VERIFY_CLEANSTACK :: nat where
  "SCRIPT_VERIFY_CLEANSTACK \<equiv> 8"

abbreviation SCRIPT_VERIFY_CHECKLOCKTIMEVERIFY :: nat where
  "SCRIPT_VERIFY_CHECKLOCKTIMEVERIFY \<equiv> 9"

text \<open>A flag is named by its bit number in the word of flags.\<close>

record script_env =
  flags :: u32
  CheckSig :: "bytes \<Rightarrow> bytes \<Rightarrow> script \<Rightarrow> u32 \<Rightarrow> bool"
  CheckLockTime :: "CScriptNum \<Rightarrow> bool"
  CheckCryptoCondition :: "bytes \<Rightarrow> bytes \<Rightarrow> script \<Rightarrow> u32 \<Rightarrow> int"
  CheckLowS :: "bytes \<Rightarrow> bool"
  CryptoConditionsEnabled :: bool
  consensusBranchId :: u32

definition has_flag :: "script_env \<Rightarrow> nat \<Rightarrow> bool" where
  "has_flag env b \<longleftrightarrow> bit (flags env) b"

record eval_state =
  es_stack :: "bytes list"
  es_alt :: "bytes list"
  es_exec :: "bool list"
  es_opcount :: int

type_synonym eval_result = "eval_fail + eval_state"

abbreviation invalid_stack :: "eval_fail + 'a" where
  "invalid_stack \<equiv> Inl (Err SCRIPT_ERR_INVALID_STACK_OPERATION)"

section \<open>Encodings\<close>

definition CastToBool :: "bytes \<Rightarrow> bool" where
  "CastToBool vch \<longleftrightarrow>
     (case dropWhile (\<lambda>b. b = 0) vch of
        [] \<Rightarrow> False
      | b # rest \<Rightarrow> \<not> (rest = [] \<and> b = 0x80))"

definition IsCompressedOrUncompressedPubKey :: "bytes \<Rightarrow> bool" where
  "IsCompressedOrUncompressedPubKey vchPubKey =
     (if length vchPubKey < 33 then False
      else if vchPubKey ! 0 = 0x04 then length vchPubKey = 65
      else if vchPubKey ! 0 = 0x02 \<or> vchPubKey ! 0 = 0x03 then length vchPubKey = 33
      else False)"

definition IsValidSignatureEncoding :: "bytes \<Rightarrow> bool" where
  "IsValidSignatureEncoding sig =
     (if length sig < 9 then False
      else if length sig > 73 then False
      else if sig ! 0 \<noteq> 0x30 then False
      else if unat (sig ! 1) \<noteq> length sig - 3 then False
      else let lenR = unat (sig ! 3)
           in if 5 + lenR \<ge> length sig then False
              else let lenS = unat (sig ! (5 + lenR))
                   in if lenR + lenS + 7 \<noteq> length sig then False
                      else if sig ! 2 \<noteq> 0x02 then False
                      else if lenR = 0 then False
                      else if sig ! 4 AND 0x80 \<noteq> 0 then False
                      else if lenR > 1 \<and> sig ! 4 = 0 \<and> sig ! 5 AND 0x80 = 0 then False
                      else if sig ! (lenR + 4) \<noteq> 0x02 then False
                      else if lenS = 0 then False
                      else if sig ! (lenR + 6) AND 0x80 \<noteq> 0 then False
                      else if lenS > 1 \<and> sig ! (lenR + 6) = 0 \<and> sig ! (lenR + 7) AND 0x80 = 0 then False
                      else True)"

text \<open>On a well-formed signature with a high S the error word is left as it was on entry.\<close>

definition IsLowDERSignature :: "script_env \<Rightarrow> bytes \<Rightarrow> eval_fail + unit" where
  "IsLowDERSignature env vchSig =
     (if \<not> IsValidSignatureEncoding vchSig then Inl (Err SCRIPT_ERR_SIG_DER)
      else if CheckLowS env (take (length vchSig - 1) vchSig) then Inr ()
      else Inl (Err SCRIPT_ERR_UNKNOWN_ERROR))"

definition IsDefinedHashtypeSignature :: "bytes \<Rightarrow> bool" where
  "IsDefinedHashtypeSignature vchSig =
     (if length vchSig = 0 then False
      else let nHashType = vchSig ! (length vchSig - 1) AND NOT SIGHASH_ANYONECANPAY
           in \<not> (nHashType < SIGHASH_ALL \<or> nHashType > SIGHASH_SINGLE))"

definition CheckSignatureEncoding :: "script_env \<Rightarrow> bytes \<Rightarrow> eval_fail + unit" where
  "CheckSignatureEncoding env vchSig =
     (if length vchSig = 0 then Inr ()
      else if \<not> IsValidSignatureEncoding vchSig then Inl (Err SCRIPT_ERR_SIG_DER)
      else res_bind (if has_flag env SCRIPT_VERIFY_LOW_S then IsLowDERSignature env vchSig else Inr ())
        (\<lambda>_. if has_flag env SCRIPT_VERIFY_STRICTENC \<and> \<not> IsDefinedHashtypeSignature vchSig
              then Inl (Err SCRIPT_ERR_SIG_HASHTYPE) else Inr ()))"

definition CheckPubKeyEncoding :: "script_env \<Rightarrow> bytes \<Rightarrow> eval_fail + unit" where
  "CheckPubKeyEncoding env vchPubKey =
     (if has_flag env SCRIPT_VERIFY_STRICTENC \<and> \<not> IsCompressedOrUncompressedPubKey vchPubKey
      then Inl (Err SCRIPT_ERR_PUBKEYTYPE) else Inr ())"

definition CheckMinimalPush :: "bytes \<Rightarrow> u8 \<Rightarrow> bool" where
  "CheckMinimalPush data opcode =
     (if length data = 0 then opcode = OP_0
      else if length data = 1 \<and> data ! 0 \<ge> 1 \<and> data ! 0 \<le> 16 then opcode = OP_1 + (data ! 0 - 1)
      else if length data = 1 \<and> data ! 0 = 0x81 then opcode = OP_1NEGATE
      else if length data \<le> 75 then unat opcode = length data
      else if length data \<le> 255 then opcode = OP_PUSHDATA1
      else if length data \<le> 65535 then opcode = OP_PUSHDATA2
      else True)"

text \<open>Stack elements read as numbers: the exceptions of \<open>CScriptNum\<close> end the script.\<close>

definition lift_num :: "script_error_kind + 'a \<Rightarrow> eval_fail + 'a" where
  "lift_num r = (case r of
       Inr x \<Rightarrow> Inr x
     | Inl AssertFailed \<Rightarrow> Inl Abort
     | Inl _ \<Rightarrow> Inl (Err SCRIPT_ERR_UNKNOWN_ERROR))"

definition stack_num :: "script_env \<Rightarrow> bytes \<Rightarrow> nat \<Rightarrow> eval_fail + CScriptNum" where
  "stack_num env vch nMaxNumSize = lift_num (scriptnum_from_vch vch (has_flag env SCRIPT_VERIFY_MINIMALDATA) nMaxNumSize)"

abbreviation num_of_bool :: "bool \<Rightarrow> CScriptNum" where
  "num_of_bool b \<equiv> \<lparr>m_value = (if b then 1 else 0)\<rparr>"

abbreviation vch_of_bool :: "bool \<Rightarrow> bytes" where
  "vch_of_bool b \<equiv> (if b then [1] else [])"

section \<open>Push and control opcodes\<close>

definition ev_push_value :: "u8 \<Rightarrow> eval_state \<Rightarrow> eval_result" where
  "ev_push_value opcode st =
     (let bn = \<lparr>m_value = uint opcode - (uint OP_1 - 1)\<rparr>
      in Inr (st\<lparr>es_stack := getvch bn # es_stack st\<rparr>))"

definition ev_checklocktimeverify :: "script_env \<Rightarrow> eval_state \<Rightarrow> eval_result" where
  "ev_checklocktimeverify env st =
     (if \<not> has_flag env SCRIPT_VERIFY_CHECKLOCKTIMEVERIFY
      then (if has_flag env SCRIPT_VERIFY_DISCOURAGE_UPGRADABLE_NOPS
            then Inl (Err SCRIPT_ERR_DISCOURAGE_UPGRADABLE_NOPS) else Inr st)
      else case es_stack st of
             [] \<Rightarrow> invalid_stack
           | vch # _ \<Rightarrow>
               res_bind (stack_num env vch 5)
                 (\<lambda>nLockTime. if m_value nLockTime < 0 then Inl (Err SCRIPT_ERR_NEGATIVE_LOCKTIME)
                              else if \<not> CheckLockTime env nLockTime then Inl (Err SCRIPT_ERR_UNSATISFIED_LOCKTIME)
                              else Inr st))"

definition ev_upgradable_nop :: "script_env \<Rightarrow> eval_state \<Rightarrow> eval_result" where
  "ev_upgradable_nop env st =
     (if has_flag env SCRIPT_VERIFY_DISCOURAGE_UPGRADABLE_NOPS
      then Inl (Err SCRIPT_ERR_DISCOURAGE_UPGRADABLE_NOPS) else Inr st)"

definition ev_if :: "u8 \<Rightarrow> bool \<Rightarrow> eval_state \<Rightarrow> eval_result" where
  "ev_if opcode fExec st =
     (if fExec
      then (case es_stack st of
              [] \<Rightarrow> Inl (Err SCRIPT_ERR_UNBALANCED_CONDITIONAL)
            | vch # rest \<Rightarrow>
                (let fValue = CastToBool vch;
                     fValue = (if opcode = OP_NOTIF then \<not> fValue else fValue)
                 in Inr (st\<lparr>es_stack := rest, es_exec := fValue # es_exec st\<rparr>)))
      else Inr (st\<lparr>es_exec := False # es_exec st\<rparr>))"

definition ev_else :: "eval_state \<Rightarrow> eval_result" where
  "ev_else st =
     (case es_exec st of
        [] \<Rightarrow> Inl (Err SCRIPT_ERR_UNBALANCED_CONDITIONAL)
      | f # fs \<Rightarrow> Inr (st\<lparr>es_exec := (\<not> f) # fs\<rparr>))"

definition ev_endif :: "eval_state \<Rightarrow> eval_result" where
  "ev_endif st =
     (case es_exec st of
        [] \<Rightarrow> Inl (Err SCRIPT_ERR_UNBALANCED_CONDITIONAL)
      | f # fs \<Rightarrow> Inr (st\<lparr>es_exec := fs\<rparr>))"

definition ev_verify :: "eval_state \<Rightarrow> eval_result" where
  "ev_verify st =
     (case es_stack st of
        [] \<Rightarrow> invalid_stack
      | vch # rest \<Rightarrow> if CastToBool vch then Inr (st\<lparr>es_stack := rest\<rparr>) else Inl (Err SCRIPT_ERR_VERIFY))"

definition ev_return :: "eval_state \<Rightarrow> eval_result" where
  "ev_return st = Inl (Err SCRIPT_ERR_OP_RETURN)"

section \<open>Stack opcodes\<close>

definition ev_toaltstack :: "eval_state \<Rightarrow> eval_result" where
  "ev_toaltstack st =
     (case es_stack st of
        x # s \<Rightarrow> Inr (st\<lparr>es_stack := s, es_alt := x # es_alt st\<rparr>)
      | _ \<Rightarrow> invalid_stack)"

definition ev_fromaltstack :: "eval_state \<Rightarrow> eval_result" where
  "ev_fromaltstack st =
     (case es_alt st of
        x # s \<Rightarrow> Inr (st\<lparr>es_stack := x # es_stack st, es_alt := s\<rparr>)
      | _ \<Rightarrow> Inl (Err SCRIPT_ERR_INVALID_ALTSTACK_OPERATION))"

definition ev_2drop :: "eval_state \<Rightarrow> eval_result" where
  "ev_2drop st =
     (case es_stack st of
        x2 # x1 # s \<Rightarrow> Inr (st\<lparr>es_stack := s\<rparr>)
      | _ \<Rightarrow> invalid_stack)"

definition ev_2dup :: "eval_state \<Rightarrow> eval_result" where
  "ev_2dup st =
     (case es_stack st of
        x2 # x1 # s \<Rightarrow> Inr (st\<lparr>es_stack := x2 # x1 # x2 # x1 # s\<rparr>)
      | _ \<Rightarrow> invalid_stack)"

definition ev_3dup :: "eval_state \<Rightarrow> eval_result" where
  "ev_3dup st =
     (case es_stack st of
        x3 # x2 # x1 # s \<Rightarrow> Inr (st\<lparr>es_stack := x3 # x2 # x1 # x3 # x2 # x1 # s\<rparr>)
      | _ \<Rightarrow> invalid_stack)"

definition ev_2over :: "eval_state \<Rightarrow> eval_result" where
  "ev_2over st =
     (case es_stack st of
        x4 # x3 # x2 # x1 # s \<Rightarrow> Inr (st\<lparr>es_stack := x2 # x1 # x4 # x3 # x2 # x1 # s\<rparr>)
      | _ \<Rightarrow> invalid_stack)"

definition ev_2rot :: "eval_state \<Rightarrow> eval_result" where
  "ev_2rot st =
     (case es_stack st of
        x6 # x5 # x4 # x3 # x2 # x1 # s \<Rightarrow> Inr (st\<lparr>es_stack := x2 # x1 # x6 # x5 # x4 # x3 # s\<rparr>)
      | _ \<Rightarrow> invalid_stack)"

definition ev_2swap :: "eval_state \<Rightarrow> eval_result" where
  "ev_2swap st =
     (case es_stack st of
        x4 # x3 # x2 # x1 # s \<Rightarrow> Inr (st\<lparr>es_stack := x2 # x1 # x4 # x3 # s\<rparr>)
      | _ \<Rightarrow> invalid_stack)"

definition ev_ifdup :: "eval_state \<Rightarrow> eval_result" where
  "ev_ifdup st =
     (case es_stack st of
        x # s \<Rightarrow> Inr (if CastToBool x then st\<lparr>es_stack := x # x # s\<rparr> else st)
      | _ \<Rightarrow> invalid_stack)"

definition ev_depth :: "eval_state \<Rightarrow> eval_result" where
  "ev_depth st =
     (let bn = \<lparr>m_value = int (length (es_stack st))\<rparr>
      in Inr (st\<lparr>es_stack := getvch bn # es_stack st\<rparr>))"

definition ev_drop :: "eval_state \<Rightarrow> eval_result" where
  "ev_drop st =
     (case es_stack st of
        x # s \<Rightarrow> Inr (st\<lparr>es_stack := s\<rparr>)
      | _ \<Rightarrow> invalid_stack)"

definition ev_dup :: "eval_state \<Rightarrow> eval_result" where
  "ev_dup st =
     (case es_stack st of
        x # s \<Rightarrow> Inr (st\<lparr>es_stack := x # x # s\<rparr>)
      | _ \<Rightarrow> invalid_stack)"

definition ev_nip :: "eval_state \<Rightarrow> eval_result" where
  "ev_nip st =
     (case es_stack st of
        x2 # x1 # s \<Rightarrow> Inr (st\<lparr>es_stack := x2 # s\<rparr>)
      | _ \<Rightarrow> invalid_stack)"

definition ev_over :: "eval_state \<Rightarrow> eval_result" where
  "ev_over st =
     (case es_stack st of
        x2 # x1 # s \<Rightarrow> Inr (st\<lparr>es_stack := x1 # x2 # x1 # s\<rparr>)
      | _ \<Rightarrow> invalid_stack)"

definition ev_pick_roll :: "script_env \<Rightarrow> u8 \<Rightarrow> eval_state \<Rightarrow> eval_result" where
  "ev_pick_roll env opcode st =
     (if length (es_stack st) < 2 then invalid_stack
      else res_bind (stack_num env (hd (es_stack st)) nDefaultMaxNumSize)
        (\<lambda>num. let n = getint num; s = tl (es_stack st)
               in if n < 0 \<or> n \<ge> int (length s) then invalid_stack
                  else let vch = s ! nat n;
                           s = (if opcode = OP_ROLL then take (nat n) s @ drop (nat n + 1) s else s)
                       in Inr (st\<lparr>es_stack := vch # s\<rparr>)))"

definition ev_rot :: "eval_state \<Rightarrow> eval_result" where
  "ev_rot st =
     (case es_stack st of
        x3 # x2 # x1 # s \<Rightarrow> Inr (st\<lparr>es_stack := x1 # x3 # x2 # s\<rparr>)
      | _ \<Rightarrow> invalid_stack)"

definition ev_swap :: "eval_state \<Rightarrow> eval_result" where
  "ev_swap st =
     (case es_stack st of
        x2 # x1 # s \<Rightarrow> Inr (st\<lparr>es_stack := x1 # x2 # s\<rparr>)
      | _ \<Rightarrow> invalid_stack)"

definition ev_tuck :: "eval_state \<Rightarrow> eval_result" where
  "ev_tuck st =
     (case es_stack st of
        x2 # x1 # s \<Rightarrow> Inr (st\<lparr>es_stack := x2 # x1 # x2 # s\<rparr>)
      | _ \<Rightarrow> invalid_stack)"

definition ev_size :: "eval_state \<Rightarrow> eval_result" where
  "ev_size st =
     (case es_stack st of
        x # s \<Rightarrow> Inr (st\<lparr>es_stack := getvch \<lparr>m_value = int (length x)\<rparr> # x # s\<rparr>)
      | _ \<Rightarrow> invalid_stack)"

definition ev_equal :: "u8 \<Rightarrow> eval_state \<Rightarrow> eval_result" where
  "ev_equal opcode st =
     (case es_stack st of
        x2 # x1 # s \<Rightarrow>
          (let fEqual = (x1 = x2)
           in if opcode = OP_EQUALVERIFY
              then (if fEqual then Inr (st\<lparr>es_stack := s\<rparr>) else Inl (Err SCRIPT_ERR_EQUALVERIFY))
              else Inr (st\<lparr>es_stack := vch_of_bool fEqual # s\<rparr>))
      | _ \<Rightarrow> invalid_stack)"

section \<open>Numeric opcodes\<close>

definition unary_num :: "u8 \<Rightarrow> CScriptNum \<Rightarrow> eval_fail + CScriptNum" where
  "unary_num opcode bn =
     (if opcode = OP_1ADD then lift_num (scriptnum_add_assign bn 1)
      else if opcode = OP_1SUB then lift_num (scriptnum_sub_assign bn 1)
      else if opcode = OP_NEGATE then lift_num (scriptnum_neg bn)
      else if opcode = OP_ABS then (if m_value bn < 0 then lift_num (scriptnum_neg bn) else Inr bn)
      else if opcode = OP_NOT then Inr (num_of_bool (m_value bn = 0))
      else if opcode = OP_0NOTEQUAL then Inr (num_of_bool (m_value bn \<noteq> 0))
      else Inl Abort)"

definition ev_unary :: "script_env \<Rightarrow> u8 \<Rightarrow> eval_state \<Rightarrow> eval_result" where
  "ev_unary env opcode st =
     (case es_stack st of
        x # s \<Rightarrow>
          res_bind (stack_num env x nDefaultMaxNumSize)
            (\<lambda>bn. res_bind (unary_num opcode bn)
              (\<lambda>bn. Inr (st\<lparr>es_stack := getvch bn # s\<rparr>)))
      | _ \<Rightarrow> invalid_stack)"

definition binary_num :: "u8 \<Rightarrow> CScriptNum \<Rightarrow> CScriptNum \<Rightarrow> eval_fail + CScriptNum" where
  "binary_num opcode bn1 bn2 =
     (let v1 = m_value bn1; v2 = m_value bn2
      in if opcode = OP_ADD then Inr \<lparr>m_value = v1 + v2\<rparr>
         else if opcode = OP_SUB then Inr \<lparr>m_value = v1 - v2\<rparr>
         else if opcode = OP_BOOLAND then Inr (num_of_bool (v1 \<noteq> 0 \<and> v2 \<noteq> 0))
         else if opcode = OP_BOOLOR then Inr (num_of_bool (v1 \<noteq> 0 \<or> v2 \<noteq> 0))
         else if opcode = OP_NUMEQUAL then Inr (num_of_bool (v1 = v2))
         else if opcode = OP_NUMEQUALVERIFY then Inr (num_of_bool (v1 = v2))
         else if opcode = OP_NUMNOTEQUAL then Inr (num_of_bool (v1 \<noteq> v2))
         else if opcode = OP_LESSTHAN then Inr (num_of_bool (v1 < v2))
         else if opcode = OP_GREATERTHAN then Inr (num_of_bool (v1 > v2))
         else if opcode = OP_LESSTHANOREQUAL then Inr (num_of_bool (v1 \<le> v2))
         else if opcode = OP_GREATERTHANOREQUAL then Inr (num_of_bool (v1 \<ge> v2))
         else if opcode = OP_MIN then Inr (if v1 < v2 then bn1 else bn2)
         else if opcode = OP_MAX then Inr (if v1 > v2 then bn1 else bn2)
         else Inl Abort)"

definition ev_binary :: "script_env \<Rightarrow> u8 \<Rightarrow> eval_state \<Rightarrow> eval_result" where
  "ev_binary env opcode st =
     (case es_stack st of
        x2 # x1 # s \<Rightarrow>
          res_bind (stack_num env x1 nDefaultMaxNumSize) (\<lambda>bn1.
          res_bind (stack_num env x2 nDefaultMaxNumSize) (\<lambda>bn2.
          res_bind (binary_num opcode bn1 bn2) (\<lambda>bn.
            if opcode = OP_NUMEQUALVERIFY
            then (if CastToBool (getvch bn) then Inr (st\<lparr>es_stack := s\<rparr>)
                  else Inl (Err SCRIPT_ERR_NUMEQUALVERIFY))
            else Inr (st\<lparr>es_stack := getvch bn # s\<rparr>))))
      | _ \<Rightarrow> invalid_stack)"

definition ev_within :: "script_env \<Rightarrow> eval_state \<Rightarrow> eval_result" where
  "ev_within env st =
     (case es_stack st of
        x3 # x2 # x1 # s \<Rightarrow>
          res_bind (stack_num env x1 nDefaultMaxNumSize) (\<lambda>bn1.
          res_bind (stack_num env x2 nDefaultMaxNumSize) (\<lambda>bn2.
          res_bind (stack_num env x3 nDefaultMaxNumSize) (\<lambda>bn3.
            let fValue = (m_value bn2 \<le> m_value bn1 \<and> m_value bn1 < m_value bn3)
            in Inr (st\<lparr>es_stack := vch_of_bool fValue # s\<rparr>))))
      | _ \<Rightarrow> invalid_stack)"

section \<open>Crypto opcodes\<close>

definition ev_hash_value :: "u8 \<Rightarrow> bytes \<Rightarrow> sha256_error + bytes" where
  "ev_hash_value opcode vch =
     (if opcode = OP_RIPEMD160 then Inr (snd (CRIPEMD160_Finalize (CRIPEMD160_Write CRIPEMD160_init vch)))
      else if opcode = OP_SHA1 then Inr (snd (CSHA1_Finalize (CSHA1_Write CSHA1_init vch)))
      else if opcode = OP_SHA256 then snd (CSHA256_Finalize (CSHA256_Write CSHA256_init vch))
      else if opcode = OP_HASH160 then snd (CHash160_Finalize (CHash160_Write CSHA256_init vch))
      else snd (CHash256_Finalize (CHash256_Write CSHA256_init vch)))"

definition ev_hash :: "u8 \<Rightarrow> eval_state \<Rightarrow> eval_result" where
  "ev_hash opcode st =
     (case es_stack st of
        x # s \<Rightarrow>
          (case ev_hash_value opcode x of
             Inr vchHash \<Rightarrow> Inr (st\<lparr>es_stack := vchHash # s\<rparr>)
           | Inl _ \<Rightarrow> Inl (Err SCRIPT_ERR_UNKNOWN_ERROR))
      | _ \<Rightarrow> invalid_stack)"

definition ev_checksig :: "script_env \<Rightarrow> script \<Rightarrow> u8 \<Rightarrow> eval_state \<Rightarrow> eval_result" where
  "ev_checksig env script opcode st =
     (case es_stack st of
        vchPubKey # vchSig # s \<Rightarrow>
          res_bind (CheckSignatureEncoding env vchSig) (\<lambda>_.
          res_bind (CheckPubKeyEncoding env vchPubKey) (\<lambda>_.
            let fSuccess = CheckSig env vchSig vchPubKey script (consensusBranchId env)
            in if opcode = OP_CHECKSIGVERIFY
               then (if fSuccess then Inr (st\<lparr>es_stack := s\<rparr>) else Inl (Err SCRIPT_ERR_CHECKSIGVERIFY))
               else Inr (st\<lparr>es_stack := vch_of_bool fSuccess # s\<rparr>)))
      | _ \<Rightarrow> invalid_stack)"

text \<open>
  The loop of \<open>OP_CHECKMULTISIG\<close>. \<open>stacktop(-i)\<close> is element \<open>i - 1\<close> of the stack; the two
  counts are \<open>int\<close> in the source.
\<close>

function multisig_loop ::
  "script_env \<Rightarrow> script \<Rightarrow> bytes list \<Rightarrow> nat \<Rightarrow> nat \<Rightarrow> int \<Rightarrow> int \<Rightarrow> eval_fail + bool" where
  "multisig_loop env script stack isig ikey nSigsCount nKeysCount =
     (if nSigsCount > 0
      then (let vchSig = stack ! (isig - 1); vchPubKey = stack ! (ikey - 1)
            in case CheckSignatureEncoding env vchSig of
                 Inl e \<Rightarrow> Inl e
               | Inr _ \<Rightarrow>
                   (case CheckPubKeyEncoding env vchPubKey of
                      Inl e \<Rightarrow> Inl e
                    | Inr _ \<Rightarrow>
                        (let fOk = CheckSig env vchSig vchPubKey script (consensusBranchId env);
                             isig = (if fOk then isig + 1 else isig);
                             nSigsCount = (if fOk then nSigsCount - 1 else nSigsCount);
                             ikey = ikey + 1;
                             nKeysCount = nKeysCount - 1
                         in if nSigsCount > nKeysCount then Inr False
                            else multisig_loop env script stack isig ikey nSigsCount nKeysCount)))
      else Inr True)"
  by pat_completeness auto
termination
  by (relation "measure (\<lambda>(env, script, stack, isig, ikey, nSigsCount, nKeysCount). nat nKeysCount)")
    (auto split: if_splits)

declare multisig_loop.simps [simp del]

definition ev_checkmultisig :: "script_env \<Rightarrow> script \<Rightarrow> u8 \<Rightarrow> eval_state \<Rightarrow> eval_result" where
  "ev_checkmultisig env script opcode st =
     (let stack = es_stack st
      in if length stack < 1 then invalid_stack
         else res_bind (stack_num env (stack ! 0) nDefaultMaxNumSize) (\<lambda>nk.
           let nKeysCount = getint nk
           in if nKeysCount < 0 \<or> nKeysCount > 20 then Inl (Err SCRIPT_ERR_PUBKEY_COUNT)
              else let nOpCount = es_opcount st + nKeysCount
                   in if nOpCount > 201 then Inl (Err SCRIPT_ERR_OP_COUNT)
                      else let ikey = 2; i = 2 + nat nKeysCount
                           in if length stack < i then invalid_stack
                              else res_bind (stack_num env (stack ! (i - 1)) nDefaultMaxNumSize) (\<lambda>ns.
                                let nSigsCount = getint ns
                                in if nSigsCount < 0 \<or> nSigsCount > nKeysCount then Inl (Err SCRIPT_ERR_SIG_COUNT)
                                   else let isig = i + 1; i = i + 1 + nat nSigsCount
                                        in if length stack < i then invalid_stack
                                           else res_bind (multisig_loop env script stack isig ikey nSigsCount nKeysCount)
                                             (\<lambda>fSuccess.
                                               case drop (i - 1) stack of
                                                 [] \<Rightarrow> invalid_stack
                                               | dummy # s \<Rightarrow>
                                                   if has_flag env SCRIPT_VERIFY_NULLDUMMY \<and> length dummy > 0
                                                   then Inl (Err SCRIPT_ERR_SIG_NULLDUMMY)
                                                   else if opcode = OP_CHECKMULTISIGVERIFY
                                                   then (if fSuccess then Inr (st\<lparr>es_stack := s, es_opcount := nOpCount\<rparr>)
                                                         else Inl (Err SCRIPT_ERR_CHECKMULTISIGVERIFY))
                                                   else Inr (st\<lparr>es_stack := vch_of_bool fSuccess # s, es_opcount := nOpCount\<rparr>)))))"

definition ev_checkcryptocondition :: "script_env \<Rightarrow> script \<Rightarrow> u8 \<Rightarrow> eval_state \<Rightarrow> eval_result" where
  "ev_checkcryptocondition env script opcode st =
     (if \<not> CryptoConditionsEnabled env then Inl (Err SCRIPT_ERR_BAD_OPCODE)
      else case es_stack st of
             cond # ffill # s \<Rightarrow>
               (let fResult = CheckCryptoCondition env cond ffill script (consensusBranchId env)
                in if fResult = - 1 then Inl (Err SCRIPT_ERR_CRYPTOCONDITION_INVALID_FULFILLMENT)
                   else if opcode = OP_CHECKCRYPTOCONDITIONVERIFY
                   then (if fResult = 1 then Inr (st\<lparr>es_stack := s\<rparr>)
                         else Inl (Err SCRIPT_ERR_CRYPTOCONDITION_VERIFY))
                   else Inr (st\<lparr>es_stack := vch_of_bool (fResult = 1) # s\<rparr>))
           | _ \<Rightarrow> invalid_stack)"

section \<open>The interpreter loop\<close>

definition disabled_opcode :: "u8 \<Rightarrow> bool" where
  "disabled_opcode opcode \<longleftrightarrow>
     opcode = OP_CAT \<or> opcode = OP_SUBSTR \<or> opcode = OP_LEFT \<or> opcode = OP_RIGHT \<or> opcode = OP_INVERT \<or>
     opcode = OP_AND \<or> opcode = OP_OR \<or> opcode = OP_XOR \<or> opcode = OP_2MUL \<or> opcode = OP_2DIV \<or>
     opcode = OP_MUL \<or> opcode = OP_DIV \<or> opcode = OP_MOD \<or> opcode = OP_LSHIFT \<or> opcode = OP_RSHIFT \<or>
     opcode = OP_CODESEPARATOR"

text \<open>The switch over the opcode.\<close>

definition ev_switch :: "script_env \<Rightarrow> script \<Rightarrow> bool \<Rightarrow> u8 \<Rightarrow> eval_state \<Rightarrow> eval_result" where
  "ev_switch env script fExec opcode st =
     (if opcode = OP_1NEGATE \<or> (OP_1 \<le> opcode \<and> opcode \<le> OP_16) then ev_push_value opcode st
      else if opcode = OP_NOP then Inr st
      else if opcode = OP_CHECKLOCKTIMEVERIFY then ev_checklocktimeverify env st
      else if opcode = OP_NOP1 \<or> (OP_NOP3 \<le> opcode \<and> opcode \<le> OP_NOP10) then ev_upgradable_nop env st
      else if opcode = OP_IF \<or> opcode = OP_NOTIF then ev_if opcode fExec st
      else if opcode = OP_ELSE then ev_else st
      else if opcode = OP_ENDIF then ev_endif st
      else if opcode = OP_VERIFY then ev_verify st
      else if opcode = OP_RETURN then ev_return st
      else if opcode = OP_TOALTSTACK then ev_toaltstack st
      else if opcode = OP_FROMALTSTACK then ev_fromaltstack st
      else if opcode = OP_2DROP then ev_2drop st
      else if opcode = OP_2DUP then ev_2dup st
      else if opcode = OP_3DUP then ev_3dup st
      else if opcode = OP_2OVER then ev_2over st
      else if opcode = OP_2ROT then ev_2rot st
      else if opcode = OP_2SWAP then ev_2swap st
      else if opcode = OP_IFDUP then ev_ifdup st
      else if opcode = OP_DEPTH then ev_depth st
      else if opcode = OP_DROP then ev_drop st
      else if opcode = OP_DUP then ev_dup st
      else if opcode = OP_NIP then ev_nip st
      else if opcode = OP_OVER then ev_over st
      else if opcode = OP_PICK \<or> opcode = OP_ROLL then ev_pick_roll env opcode st
      else if opcode = OP_ROT then ev_rot st
      else if opcode = OP_SWAP then ev_swap st
      else if opcode = OP_TUCK then ev_tuck st
      else if opcode = OP_SIZE then ev_size st
      else if opcode = OP_EQUAL \<or> opcode = OP_EQUALVERIFY then ev_equal opcode st
      else if opcode = OP_1ADD \<or> opcode = OP_1SUB \<or> opcode = OP_NEGATE \<or> opcode = OP_ABS \<or>
              opcode = OP_NOT \<or> opcode = OP_0NOTEQUAL then ev_unary env opcode st
      else if opcode = OP_ADD \<or> opcode = OP_SUB \<or> (OP_BOOLAND \<le> opcode \<and> opcode \<le> OP_MAX)
           then ev_binary env opcode st
      else if opcode = OP_WITHIN then ev_within env st
      else if OP_RIPEMD160 \<le> opcode \<and> opcode \<le> OP_HASH256 then ev_hash opcode st
      else if opcode = OP_CHECKSIG \<or> opcode = OP_CHECKSIGVERIFY then ev_checksig env script opcode st
      else if opcode = OP_CHECKMULTISIG \<or> opcode = OP_CHECKMULTISIGVERIFY then ev_checkmultisig env script opcode st
      else if opcode = OP_CHECKCRYPTOCONDITION \<or> opcode = OP_CHECKCRYPTOCONDITIONVERIFY
           then ev_checkcryptocondition env script opcode st
      else Inl (Err SCRIPT_ERR_BAD_OPCODE))"

text \<open>One turn of the loop, after \<open>GetOp\<close>.\<close>

definition ev_turn :: "script_env \<Rightarrow> script \<Rightarrow> u8 \<Rightarrow> bytes \<Rightarrow> eval_state \<Rightarrow> eval_result" where
  "ev_turn env script opcode vchPushValue st =
     (let fExec = (\<forall>b\<in>set (es_exec st). b)
      in if length vchPushValue > MAX_SCRIPT_ELEMENT_SIZE then Inl (Err SCRIPT_ERR_PUSH_SIZE)
         else let st = (if opcode > OP_16 then st\<lparr>es_opcount := es_opcount st + 1\<rparr> else st)
              in if opcode > OP_16 \<and> es_opcount st > 201 then Inl (Err SCRIPT_ERR_OP_COUNT)
                 else if disabled_opcode opcode then Inl (Err SCRIPT_ERR_DISABLED_OPCODE)
                 else res_bind
                   (if fExec \<and> opcode \<le> OP_PUSHDATA4
                    then (if has_flag env SCRIPT_VERIFY_MINIMALDATA \<and> \<not> CheckMinimalPush vchPushValue opcode
                          then Inl (Err SCRIPT_ERR_MINIMALDATA)
                          else Inr (st\<lparr>es_stack := vchPushValue # es_stack st\<rparr>))
                    else if fExec \<or> (OP_IF \<le> opcode \<and> opcode \<le> OP_ENDIF)
                    then ev_switch env script fExec opcode st
                    else Inr st)
                   (\<lambda>st. if length (es_stack st) + length (es_alt st) > 1000
                         then Inl (Err SCRIPT_ERR_STACK_SIZE) else Inr st))"

function eval_loop :: "script_env \<Rightarrow> script \<Rightarrow> bytes \<Rightarrow> eval_state \<Rightarrow> eval_result" where
  "eval_loop env script pc st =
     (if pc = [] then Inr st
      else let g = GetOp2 pc
           in if \<not> go_ok g then Inl (Err SCRIPT_ERR_BAD_OPCODE)
              else case ev_turn env script (go_opcode g) (go_data g) st of
                     Inl e \<Rightarrow> Inl e
                   | Inr st \<Rightarrow> eval_loop env script (go_pc g) st)"
  by pat_completeness auto
termination
  by (relation "measure (\<lambda>(env, script, pc, st). length pc)") (auto simp: GetOp2_shorter)

declare eval_loop.simps [simp del]

definition EvalScript :: "script_env \<Rightarrow> bytes list \<Rightarrow> script \<Rightarrow> eval_fail + bytes list" where
  "EvalScript env stack script =
     (if length script > MAX_SCRIPT_SIZE then Inl (Err SCRIPT_ERR_SCRIPT_SIZE)
      else res_bind (eval_loop env script script \<lparr>es_stack = stack, es_alt = [], es_exec = [], es_opcount = 0\<rparr>)
        (\<lambda>st. if es_exec st \<noteq> [] then Inl (Err SCRIPT_ERR_UNBALANCED_CONDITIONAL) else Inr (es_stack st)))"

section \<open>Verifying an input\<close>

text \<open>\<open>TransactionSignatureChecker::CheckLockTime\<close> for a transaction's lock time and the input's sequence number.\<close>

definition tx_CheckLockTime :: "u32 \<Rightarrow> u32 \<Rightarrow> CScriptNum \<Rightarrow> bool" where
  "tx_CheckLockTime txLockTime nSequence nLockTime =
     (if \<not> ((unat txLockTime < LOCKTIME_THRESHOLD \<and> m_value nLockTime < int LOCKTIME_THRESHOLD) \<or>
            (unat txLockTime \<ge> LOCKTIME_THRESHOLD \<and> m_value nLockTime \<ge> int LOCKTIME_THRESHOLD)) then False
      else if m_value nLockTime > int (unat txLockTime) then False
      else if nSequence = 0xffffffff then False
      else True)"

definition EvalCryptoConditionSig :: "bytes list \<Rightarrow> script \<Rightarrow> eval_fail + bytes list" where
  "EvalCryptoConditionSig stack scriptSig =
     (let g = GetOp2 scriptSig
      in if \<not> go_ok g then Inl (Err SCRIPT_ERR_BAD_OPCODE)
         else if go_opcode g = 0 \<or> go_opcode g > OP_PUSHDATA4 then invalid_stack
         else if go_pc g \<noteq> [] then invalid_stack
         else if length (go_data g) > MAX_SCRIPT_CRYPTOCONDITION_FULFILLMENT_SIZE then Inl (Err SCRIPT_ERR_PUSH_SIZE)
         else Inr (go_data g # stack))"

text \<open>The result on the stack: empty or false ends the verification.\<close>

definition stack_true :: "bytes list \<Rightarrow> eval_fail + unit" where
  "stack_true stack =
     (case stack of
        [] \<Rightarrow> Inl (Err SCRIPT_ERR_EVAL_FALSE)
      | vch # _ \<Rightarrow> if CastToBool vch then Inr () else Inl (Err SCRIPT_ERR_EVAL_FALSE))"

definition verify_p2sh :: "script_env \<Rightarrow> script \<Rightarrow> bytes list \<Rightarrow> eval_fail + bytes list" where
  "verify_p2sh env scriptSig stackCopy =
     (if \<not> IsPushOnly scriptSig then Inl (Err SCRIPT_ERR_SIG_PUSHONLY)
      else case stackCopy of
             [] \<Rightarrow> Inl Abort
           | pubKey2 # stack \<Rightarrow>
               res_bind (EvalScript env stack pubKey2) (\<lambda>stack.
               res_bind (stack_true stack) (\<lambda>_. Inr stack)))"

definition VerifyScript :: "script_env \<Rightarrow> script \<Rightarrow> script \<Rightarrow> eval_fail + unit" where
  "VerifyScript env scriptSig scriptPubKey =
     (if has_flag env SCRIPT_VERIFY_SIGPUSHONLY \<and> \<not> IsPushOnly scriptSig then Inl (Err SCRIPT_ERR_SIG_PUSHONLY)
      else res_bind
        (if CryptoConditionsEnabled env \<and> IsPayToCryptoCondition scriptPubKey \<noteq> None
         then EvalCryptoConditionSig [] scriptSig
         else EvalScript env [] scriptSig) (\<lambda>stackCopy.
      res_bind (EvalScript env stackCopy scriptPubKey) (\<lambda>stack.
      res_bind (stack_true stack) (\<lambda>_.
      res_bind
        (if has_flag env SCRIPT_VERIFY_P2SH \<and> IsPayToScriptHash scriptPubKey
         then verify_p2sh env scriptSig stackCopy else Inr stack) (\<lambda>stack.
      if has_flag env SCRIPT_VERIFY_CLEANSTACK
      then (if \<not> has_flag env SCRIPT_VERIFY_P2SH then Inl Abort
            else if length stack \<noteq> 1 then Inl (Err SCRIPT_ERR_CLEANSTACK)
            else Inr ())
      else Inr ())))))"

section \<open>The cases of the switch\<close>

lemma if_rule: "(c \<Longrightarrow> P a) \<Longrightarrow> (\<not> c \<Longrightarrow> P b) \<Longrightarrow> P (if c then a else b)"
  by simp

lemma ev_switch_rule:
  assumes "P (ev_push_value opcode st)" "P (Inr st)" "P (ev_checklocktimeverify env st)" "P (ev_upgradable_nop env st)"
    "P (ev_if opcode fExec st)" "P (ev_else st)" "P (ev_endif st)" "P (ev_verify st)" "P (ev_return st)"
    "P (ev_toaltstack st)" "P (ev_fromaltstack st)" "P (ev_2drop st)" "P (ev_2dup st)" "P (ev_3dup st)"
    "P (ev_2over st)" "P (ev_2rot st)" "P (ev_2swap st)" "P (ev_ifdup st)" "P (ev_depth st)" "P (ev_drop st)"
    "P (ev_dup st)" "P (ev_nip st)" "P (ev_over st)" "P (ev_pick_roll env opcode st)" "P (ev_rot st)"
    "P (ev_swap st)" "P (ev_tuck st)" "P (ev_size st)" "P (ev_equal opcode st)"
    "opcode = OP_1ADD \<or> opcode = OP_1SUB \<or> opcode = OP_NEGATE \<or> opcode = OP_ABS \<or> opcode = OP_NOT \<or>
       opcode = OP_0NOTEQUAL \<Longrightarrow> P (ev_unary env opcode st)"
    "opcode = OP_ADD \<or> opcode = OP_SUB \<or> (OP_BOOLAND \<le> opcode \<and> opcode \<le> OP_MAX) \<Longrightarrow> P (ev_binary env opcode st)"
    "P (ev_within env st)" "P (ev_hash opcode st)" "P (ev_checksig env script opcode st)"
    "P (ev_checkmultisig env script opcode st)" "P (ev_checkcryptocondition env script opcode st)"
    "P (Inl (Err SCRIPT_ERR_BAD_OPCODE))"
  shows "P (ev_switch env script fExec opcode st)"
  unfolding ev_switch_def
  by (rule if_rule [where P = P], rule assms, assumption?)+ (rule assms)

end
