(* ===== verification/InterpreterProps.thy ===== *)
theory InterpreterProps
  imports Interpreter "HOL-Library.Sublist"
begin

text \<open>
  What the interpreter guarantees: its resource limits, that no \<open>assert\<close> can fail while a
  script runs, what a successful run says about the script, and what the standard outputs mean.
\<close>

section \<open>Numbers on the stack are small\<close>

lemma set_vch_bound: "vch \<noteq> [] \<Longrightarrow> \<bar>set_vch vch\<bar> < 2 ^ (8 * length vch - 1)"
proof (cases vch rule: rev_cases)
  case (snoc bs b)
  have "le_val bs < 2 ^ (8 * length bs)" using le_val_bound [of bs] by simp
  moreover have "2 ^ (8 * length bs) * (unat b mod 128 + 1) \<le> 2 ^ (8 * length bs) * (128::nat)"
    by (rule mult_le_mono2) (use mod_less_divisor [of 128 "unat b"] in linarith)
  ultimately have "le_val bs + 2 ^ (8 * length bs) * (unat b mod 128) < 2 ^ (8 * length bs) * 128"
    unfolding distrib_left mult_1_right by linarith
  also have "\<dots> = 2 ^ (8 * length vch - 1)" by (simp add: snoc power_add)
  finally have "int (le_val bs + 2 ^ (8 * length bs) * (unat b mod 128)) < int (2 ^ (8 * length vch - 1))"
    by (simp only: of_nat_less_iff)
  then show ?thesis by (auto simp: snoc set_vch_snoc Let_def not_le simp del: of_nat_add of_nat_mult)
qed simp

lemma stack_num_bound:
  assumes "stack_num env vch k = Inr n" "0 < k"
  shows "\<bar>m_value n\<bar> < 2 ^ (8 * k - 1)"
proof -
  from assms have n: "m_value n = set_vch vch" "length vch \<le> k"
    by (auto simp: stack_num_def lift_num_def scriptnum_from_vch_def split: sum.splits script_error_kind.splits if_splits)
  show ?thesis
  proof (cases "vch = []")
    case True
    then show ?thesis by (simp add: n set_vch_def)
  next
    case False
    have "\<bar>m_value n\<bar> < 2 ^ (8 * length vch - 1)" using set_vch_bound [OF False] n by simp
    also have "\<dots> \<le> 2 ^ (8 * k - 1)" using n(2) by (intro power_increasing) simp_all
    finally show ?thesis .
  qed
qed

lemma stack_num_4: "stack_num env vch nDefaultMaxNumSize = Inr n \<Longrightarrow> \<bar>m_value n\<bar> < 2 ^ 31"
  using stack_num_bound [of env vch nDefaultMaxNumSize n] by (simp add: nDefaultMaxNumSize_def)

lemma stack_num_no_abort: "stack_num env vch k \<noteq> Inl Abort"
  by (auto simp: stack_num_def lift_num_def scriptnum_from_vch_def split: sum.splits script_error_kind.splits if_splits)

lemma length_getvch: "\<bar>m_value n\<bar> < 2 ^ 63 \<Longrightarrow> length (getvch n) \<le> 8"
  using length_serialize_le [of 8 "m_value n"] by (simp add: getvch_def)

lemma length_getvch_nat: "v < 2 ^ 63 \<Longrightarrow> length (getvch \<lparr>m_value = int v\<rparr>) \<le> 8"
  using of_nat_less_iff [of v "2 ^ 63", where 'a = int] by (intro length_getvch) simp

lemma lift_num_assign:
  "lift_num (scriptnum_add_assign n r) = Inr m \<Longrightarrow> m_value m = m_value n + r"
  "lift_num (scriptnum_sub_assign n r) = Inr m \<Longrightarrow> m_value m = m_value n - r"
  "lift_num (scriptnum_neg n) = Inr m \<Longrightarrow> m_value m = - m_value n"
  by (auto simp: lift_num_def scriptnum_add_assign_def scriptnum_sub_assign_def scriptnum_neg_def
      simp del: power_numeral split: if_splits)

lemma lift_num_assign_ok:
  assumes "\<bar>m_value n\<bar> < 2 ^ 31"
  shows "lift_num (scriptnum_add_assign n 1) \<noteq> Inl Abort" "lift_num (scriptnum_sub_assign n 1) \<noteq> Inl Abort"
    "lift_num (scriptnum_neg n) \<noteq> Inl Abort"
  using assms by (simp_all add: lift_num_def scriptnum_add_assign_def scriptnum_sub_assign_def scriptnum_neg_def)

lemma unary_num_result:
  assumes "unary_num opcode bn = Inr r" "\<bar>m_value bn\<bar> < 2 ^ 31"
  shows "\<bar>m_value r\<bar> < 2 ^ 32"
proof -
  have "r = bn \<or> m_value r \<in> {0, 1, - m_value bn, m_value bn + 1, m_value bn - 1}"
    using assms(1) unfolding unary_num_def
    by (auto split: if_splits dest!: lift_num_assign)
  then show ?thesis using assms(2) by auto
qed

lemma binary_num_result:
  assumes "binary_num opcode b1 b2 = Inr r" "\<bar>m_value b1\<bar> < 2 ^ 31" "\<bar>m_value b2\<bar> < 2 ^ 31"
  shows "\<bar>m_value r\<bar> < 2 ^ 32"
proof -
  have "r = b1 \<or> r = b2 \<or> m_value r \<in> {0, 1, m_value b1 + m_value b2, m_value b1 - m_value b2}"
    using assms(1) unfolding binary_num_def Let_def by (auto split: if_splits)
  then show ?thesis using assms(2,3) by auto
qed

lemma unary_num_no_abort:
  assumes "\<bar>m_value bn\<bar> < 2 ^ 31"
    "opcode = OP_1ADD \<or> opcode = OP_1SUB \<or> opcode = OP_NEGATE \<or> opcode = OP_ABS \<or> opcode = OP_NOT \<or> opcode = OP_0NOTEQUAL"
  shows "unary_num opcode bn \<noteq> Inl Abort"
  using assms(2) lift_num_assign_ok [OF assms(1)] by (auto simp: unary_num_def)

lemma byte_range_cases:
  assumes "OP_BOOLAND \<le> (opcode :: u8)" "opcode \<le> OP_MAX"
  shows "opcode = OP_BOOLAND \<or> opcode = OP_BOOLOR \<or> opcode = OP_NUMEQUAL \<or> opcode = OP_NUMEQUALVERIFY \<or>
    opcode = OP_NUMNOTEQUAL \<or> opcode = OP_LESSTHAN \<or> opcode = OP_GREATERTHAN \<or> opcode = OP_LESSTHANOREQUAL \<or>
    opcode = OP_GREATERTHANOREQUAL \<or> opcode = OP_MIN \<or> opcode = OP_MAX"
proof -
  have "unat opcode \<in> {0x9a..0xa4}" using assms by (simp add: word_le_nat_alt)
  then have "unat opcode \<in> {0x9a, 0x9b, 0x9c, 0x9d, 0x9e, 0x9f, 0xa0, 0xa1, 0xa2, 0xa3, 0xa4}"
    unfolding atLeastAtMost_iff insert_iff empty_iff by presburger
  then show ?thesis by (simp add: word_unat_eq_iff)
qed

lemma binary_num_no_abort:
  assumes "opcode = OP_ADD \<or> opcode = OP_SUB \<or> (OP_BOOLAND \<le> opcode \<and> opcode \<le> OP_MAX)"
  shows "binary_num opcode b1 b2 \<noteq> Inl Abort"
  using assms byte_range_cases [of opcode] by (auto simp: binary_num_def Let_def)

section \<open>Limits\<close>

definition small_elements :: "bytes list \<Rightarrow> bool" where
  "small_elements s \<longleftrightarrow> (\<forall>x\<in>set s. length x \<le> MAX_SCRIPT_ELEMENT_SIZE)"

definition within_limits :: "eval_state \<Rightarrow> bool" where
  "within_limits st \<longleftrightarrow>
     small_elements (es_stack st) \<and> small_elements (es_alt st) \<and>
     length (es_stack st) + length (es_alt st) \<le> 1000 \<and> es_opcount st \<le> 201"

lemma small_elements_simps [simp]:
  "small_elements []"
  "small_elements (x # s) \<longleftrightarrow> length x \<le> MAX_SCRIPT_ELEMENT_SIZE \<and> small_elements s"
  "small_elements (s @ t) \<longleftrightarrow> small_elements s \<and> small_elements t"
  by (auto simp: small_elements_def)

lemma small_elements_parts:
  "small_elements s \<Longrightarrow> small_elements (take n s)" "small_elements s \<Longrightarrow> small_elements (drop n s)"
  "small_elements s \<Longrightarrow> n < length s \<Longrightarrow> length (s ! n) \<le> MAX_SCRIPT_ELEMENT_SIZE"
  by (auto simp: small_elements_def dest: in_set_takeD in_set_dropD)

lemma small_getvch: "\<bar>m_value n\<bar> < 2 ^ 63 \<Longrightarrow> length (getvch n) \<le> MAX_SCRIPT_ELEMENT_SIZE"
  using length_getvch [of n] by (simp add: MAX_SCRIPT_ELEMENT_SIZE_def)

lemma one_small [simp]: "Suc 0 \<le> MAX_SCRIPT_ELEMENT_SIZE"
  by (simp add: MAX_SCRIPT_ELEMENT_SIZE_def)

lemma small_vch_of_bool [simp]: "length (vch_of_bool b) \<le> MAX_SCRIPT_ELEMENT_SIZE"
  by (simp add: MAX_SCRIPT_ELEMENT_SIZE_def)

text \<open>
  What a successful step leaves: small elements and a count of operations in bounds. (The bound on the
  number of elements is checked after each step.)
\<close>

definition res_all :: "('a \<Rightarrow> bool) \<Rightarrow> 'e + 'a \<Rightarrow> bool" where
  "res_all Q r \<longleftrightarrow> (case r of Inl e \<Rightarrow> True | Inr x \<Rightarrow> Q x)"

lemma res_all_simps [simp]: "res_all Q (Inl e)" "res_all Q (Inr x) \<longleftrightarrow> Q x"
  by (simp_all add: res_all_def)

lemma res_all_bind: "(\<And>x. r = Inr x \<Longrightarrow> res_all Q (f x)) \<Longrightarrow> res_all Q (res_bind r f)"
  by (cases r) auto

abbreviation good_step :: "eval_result \<Rightarrow> bool" where
  "good_step \<equiv> res_all (\<lambda>st. small_elements (es_stack st) \<and> small_elements (es_alt st) \<and> es_opcount st \<le> 201)"

lemmas stack_op_defs = ev_upgradable_nop_def ev_if_def ev_else_def ev_endif_def ev_verify_def ev_return_def
  ev_toaltstack_def ev_fromaltstack_def ev_2drop_def ev_2dup_def ev_3dup_def ev_2over_def ev_2rot_def ev_2swap_def
  ev_ifdup_def ev_drop_def ev_dup_def ev_nip_def ev_over_def ev_rot_def ev_swap_def ev_tuck_def ev_equal_def

lemma good_stack_ops:
  assumes "within_limits st"
  shows "good_step (ev_upgradable_nop env st)" "good_step (ev_if opcode fExec st)" "good_step (ev_else st)"
    "good_step (ev_endif st)" "good_step (ev_verify st)" "good_step (ev_return st)"
    "good_step (ev_toaltstack st)" "good_step (ev_fromaltstack st)" "good_step (ev_2drop st)"
    "good_step (ev_2dup st)" "good_step (ev_3dup st)" "good_step (ev_2over st)" "good_step (ev_2rot st)"
    "good_step (ev_2swap st)" "good_step (ev_ifdup st)" "good_step (ev_drop st)" "good_step (ev_dup st)"
    "good_step (ev_nip st)" "good_step (ev_over st)" "good_step (ev_rot st)" "good_step (ev_swap st)"
    "good_step (ev_tuck st)" "good_step (ev_equal opcode st)" "good_step (Inr st)"
  using assms unfolding within_limits_def stack_op_defs Let_def by (auto split: list.splits)

lemma good_numeric_pushes:
  assumes "within_limits st"
  shows "good_step (ev_push_value opcode st)" "good_step (ev_depth st)" "good_step (ev_size st)"
proof -
  have a: "0 \<le> uint opcode" by simp
  have b: "uint opcode < 256" using uint_lt2p [of opcode] by simp
  from a b have "\<bar>uint opcode - 80\<bar> < 9223372036854775808" by linarith
  then have "\<bar>uint opcode - (uint OP_1 - 1)\<bar> < 2 ^ 63" by simp
  then show "good_step (ev_push_value opcode st)"
    using assms by (simp add: ev_push_value_def within_limits_def Let_def small_getvch)
  have "length (es_stack st) < 2 ^ 63" using assms by (simp add: within_limits_def)
  from length_getvch_nat [OF this] show "good_step (ev_depth st)"
    using assms by (simp add: ev_depth_def within_limits_def Let_def MAX_SCRIPT_ELEMENT_SIZE_def)
  show "good_step (ev_size st)"
  proof (cases "es_stack st")
    case (Cons x s)
    then have "length x < 2 ^ 63" using assms by (simp add: within_limits_def MAX_SCRIPT_ELEMENT_SIZE_def)
    from length_getvch_nat [OF this] show ?thesis
      using assms Cons by (simp add: ev_size_def within_limits_def MAX_SCRIPT_ELEMENT_SIZE_def)
  qed (simp add: ev_size_def)
qed

lemma good_numeric_ops:
  assumes "within_limits st"
  shows "good_step (ev_checklocktimeverify env st)" "good_step (ev_pick_roll env opcode st)"
    "good_step (ev_unary env opcode st)" "good_step (ev_binary env opcode st)"
    "good_step (ev_within env st)"
proof -
  have se: "small_elements (es_stack st)" "small_elements (es_alt st)" "es_opcount st \<le> 201"
    using assms by (simp_all add: within_limits_def)
  show "good_step (ev_checklocktimeverify env st)"
    using se by (auto simp: ev_checklocktimeverify_def intro!: res_all_bind split: list.splits)
  show "good_step (ev_pick_roll env opcode st)"
    using se unfolding ev_pick_roll_def Let_def
    by (cases "es_stack st") (auto simp: small_elements_parts nat_less_iff intro!: res_all_bind)
  show "good_step (ev_within env st)"
    using se by (auto simp: ev_within_def Let_def
        intro!: res_all_bind split: list.splits)
  show "good_step (ev_unary env opcode st)"
  proof (cases "es_stack st")
    case (Cons x s)
    show ?thesis unfolding ev_unary_def Cons list.case
    proof (intro res_all_bind)
      fix bn r assume "stack_num env x nDefaultMaxNumSize = Inr bn"
      then have b: "\<bar>m_value bn\<bar> < 2 ^ 31" by (rule stack_num_4)
      assume "unary_num opcode bn = Inr r"
      from unary_num_result [OF this b] have "\<bar>m_value r\<bar> < 2 ^ 63" by simp
      then show "good_step (Inr (st\<lparr>es_stack := getvch r # s\<rparr>))" using se Cons by (simp add: small_getvch)
    qed
  qed (simp add: ev_unary_def)
  show "good_step (ev_binary env opcode st)"
  proof (cases "\<exists>x2 x1 s. es_stack st = x2 # x1 # s")
    case True
    then obtain x2 x1 s where Cons: "es_stack st = x2 # x1 # s" by blast
    show ?thesis unfolding ev_binary_def Cons list.case
    proof (intro res_all_bind)
      fix b1 b2 r assume "stack_num env x1 nDefaultMaxNumSize = Inr b1" "stack_num env x2 nDefaultMaxNumSize = Inr b2"
      then have b: "\<bar>m_value b1\<bar> < 2 ^ 31" "\<bar>m_value b2\<bar> < 2 ^ 31" by (simp_all only: stack_num_4)
      assume "binary_num opcode b1 b2 = Inr r"
      from binary_num_result [OF this b] have "\<bar>m_value r\<bar> < 2 ^ 63" by simp
      then show "good_step (if opcode = OP_NUMEQUALVERIFY
         then if CastToBool (getvch r) then Inr (st\<lparr>es_stack := s\<rparr>) else Inl (Err SCRIPT_ERR_NUMEQUALVERIFY)
         else Inr (st\<lparr>es_stack := getvch r # s\<rparr>))" using se Cons by (simp add: small_getvch)
    qed
  qed (auto simp: ev_binary_def split: list.splits)
qed

lemma hash_lengths:
  "length (ripemd160_hash m) = 20" "length (sha1_hash m) = 20" "length (fips_sha256 m) = 32"
  by (simp_all add: ripemd160_hash_def concat_map_5 [OF length_ripemd160_absorb] sha1_hash_def
      concat_map_5 [OF length_sha1_absorb] length_fips_sha256)

text \<open>The hash opcodes, as functions of the element they replace.\<close>

lemma ev_hash_value_eq:
  "ev_hash_value opcode x = Inr (if opcode = OP_RIPEMD160 then ripemd160_hash x
     else if opcode = OP_SHA1 then sha1_hash x
     else if opcode = OP_SHA256 then fips_sha256 x
     else if opcode = OP_HASH160 then ripemd160_hash (fips_sha256 x)
     else fips_sha256 (fips_sha256 x))"
proof -
  have "snd (CRIPEMD160_Finalize (CRIPEMD160_Write CRIPEMD160_init x)) = ripemd160_hash x"
    using CRIPEMD160_Finalize_hash [OF ripemd160.stands_for_write [OF CRIPEMD160_init_stands]] by simp
  moreover have "snd (CSHA1_Finalize (CSHA1_Write CSHA1_init x)) = sha1_hash x"
    using CSHA1_Finalize_hash [OF sha1.stands_for_write [OF CSHA1_init_stands]] by simp
  moreover have "snd (CSHA256_Finalize (CSHA256_Write CSHA256_init x)) = Inr (fips_sha256 x)"
    using CSHA256_pieces [of "[x]"] by simp
  ultimately show ?thesis using Hash_results(1,4) [of x]
    by (simp add: ev_hash_value_def Hash1_def Hash160_def)
qed

lemma CheckEncoding_no_abort: "CheckSignatureEncoding env s \<noteq> Inl Abort" "CheckPubKeyEncoding env k \<noteq> Inl Abort"
  by (auto simp: CheckSignatureEncoding_def CheckPubKeyEncoding_def IsLowDERSignature_def res_bind_Inl_iff)

lemma multisig_loop_no_abort: "multisig_loop env script stack isig ikey ns nk \<noteq> Inl Abort"
proof (induction env script stack isig ikey ns nk rule: multisig_loop.induct)
  case (1 env script stack isig ikey ns nk)
  then show ?case
    by (subst multisig_loop.simps) (auto simp: Let_def CheckEncoding_no_abort split: sum.splits)
qed

lemma good_crypto_ops:
  assumes "within_limits st"
  shows "good_step (ev_hash opcode st)" "good_step (ev_checksig env script opcode st)"
    "good_step (ev_checkmultisig env script opcode st)" "good_step (ev_checkcryptocondition env script opcode st)"
proof -
  have se: "small_elements (es_stack st)" "small_elements (es_alt st)" "es_opcount st \<le> 201"
    using assms by (simp_all add: within_limits_def)
  show "good_step (ev_hash opcode st)"
    using se by (auto simp: ev_hash_def ev_hash_value_eq hash_lengths MAX_SCRIPT_ELEMENT_SIZE_def split: list.splits)
  show "good_step (ev_checksig env script opcode st)"
    using se by (auto simp: ev_checksig_def Let_def intro!: res_all_bind split: list.splits)
  show "good_step (ev_checkcryptocondition env script opcode st)"
    using se by (auto simp: ev_checkcryptocondition_def Let_def split: list.splits)
  show "good_step (ev_checkmultisig env script opcode st)"
    unfolding ev_checkmultisig_def Let_def
  proof (intro if_rule [where P = good_step] res_all_bind)
    fix nk ns ok
    let ?d = "drop (2 + nat (getint nk) + 1 + nat (getint ns) - 1) (es_stack st)"
    assume "\<not> 201 < es_opcount st + getint nk"
    then show "good_step (case ?d of [] \<Rightarrow> invalid_stack
       | dummy # s \<Rightarrow> if has_flag env SCRIPT_VERIFY_NULLDUMMY \<and> 0 < length dummy then Inl (Err SCRIPT_ERR_SIG_NULLDUMMY)
         else if opcode = OP_CHECKMULTISIGVERIFY
         then if ok then Inr (st\<lparr>es_stack := s, es_opcount := es_opcount st + getint nk\<rparr>)
              else Inl (Err SCRIPT_ERR_CHECKMULTISIGVERIFY)
         else Inr (st\<lparr>es_stack := vch_of_bool ok # s, es_opcount := es_opcount st + getint nk\<rparr>))"
      using se small_elements_parts(2) [OF se(1), of "2 + nat (getint nk) + 1 + nat (getint ns) - 1"]
      by (cases ?d) auto
  qed simp_all
qed

lemma ev_switch_no_abort: "ev_switch env script fExec opcode st \<noteq> Inl Abort"
proof (rule ev_switch_rule)
  show "opcode = OP_1ADD \<or> opcode = OP_1SUB \<or> opcode = OP_NEGATE \<or> opcode = OP_ABS \<or> opcode = OP_NOT \<or>
      opcode = OP_0NOTEQUAL \<Longrightarrow> ev_unary env opcode st \<noteq> Inl Abort"
    by (auto simp: ev_unary_def res_bind_Inl_iff stack_num_no_abort unary_num_no_abort dest: stack_num_4 split: list.splits)
  show "opcode = OP_ADD \<or> opcode = OP_SUB \<or> (OP_BOOLAND \<le> opcode \<and> opcode \<le> OP_MAX) \<Longrightarrow>
      ev_binary env opcode st \<noteq> Inl Abort"
    using binary_num_no_abort [of opcode]
    by (auto simp: ev_binary_def res_bind_Inl_iff stack_num_no_abort split: list.splits if_splits)
  show "ev_checkmultisig env script opcode st \<noteq> Inl Abort"
    by (auto simp: ev_checkmultisig_def Let_def res_bind_Inl_iff stack_num_no_abort multisig_loop_no_abort
        split: list.splits if_splits)
qed (auto simp: stack_op_defs ev_push_value_def ev_depth_def ev_size_def ev_checklocktimeverify_def ev_pick_roll_def
    ev_within_def ev_hash_def ev_hash_value_eq ev_checksig_def ev_checkcryptocondition_def Let_def res_bind_Inl_iff
    stack_num_no_abort CheckEncoding_no_abort split: list.splits if_splits)

lemma ev_switch_good: "within_limits st \<Longrightarrow> good_step (ev_switch env script fExec opcode st)"
  by (rule ev_switch_rule)
    ((rule good_stack_ops good_numeric_pushes good_numeric_ops good_crypto_ops; assumption)+, simp)

text \<open>The ways a turn of the loop can succeed.\<close>

lemma ev_turn_cases:
  assumes "ev_turn env script opcode d st = Inr st'"
  obtains st1 where "st1 = (if opcode > OP_16 then st\<lparr>es_opcount := es_opcount st + 1\<rparr> else st)"
    "length d \<le> MAX_SCRIPT_ELEMENT_SIZE" "opcode > OP_16 \<longrightarrow> es_opcount st1 \<le> 201" "\<not> disabled_opcode opcode"
    "length (es_stack st') + length (es_alt st') \<le> 1000"
    "st' = st1\<lparr>es_stack := d # es_stack st1\<rparr> \<or> st' = st1 \<or>
     (\<exists>fExec. ev_switch env script fExec opcode st1 = Inr st')"
proof -
  define fExec where "fExec = (\<forall>b\<in>set (es_exec st). b)"
  define st1 where "st1 = (if opcode > OP_16 then st\<lparr>es_opcount := es_opcount st + 1\<rparr> else st)"
  define r where "r = (if fExec \<and> opcode \<le> OP_PUSHDATA4
      then (if has_flag env SCRIPT_VERIFY_MINIMALDATA \<and> \<not> CheckMinimalPush d opcode
            then Inl (Err SCRIPT_ERR_MINIMALDATA) else Inr (st1\<lparr>es_stack := d # es_stack st1\<rparr>))
      else if fExec \<or> (OP_IF \<le> opcode \<and> opcode \<le> OP_ENDIF) then ev_switch env script fExec opcode st1
      else Inr st1)"
  have "ev_turn env script opcode d st =
     (if length d > MAX_SCRIPT_ELEMENT_SIZE then Inl (Err SCRIPT_ERR_PUSH_SIZE)
      else if opcode > OP_16 \<and> es_opcount st1 > 201 then Inl (Err SCRIPT_ERR_OP_COUNT)
      else if disabled_opcode opcode then Inl (Err SCRIPT_ERR_DISABLED_OPCODE)
      else res_bind r (\<lambda>st. if length (es_stack st) + length (es_alt st) > 1000
                         then Inl (Err SCRIPT_ERR_STACK_SIZE) else Inr st))"
    unfolding ev_turn_def Let_def r_def st1_def fExec_def by (rule refl)
  with assms have "length d \<le> MAX_SCRIPT_ELEMENT_SIZE" "opcode > OP_16 \<longrightarrow> es_opcount st1 \<le> 201"
    "\<not> disabled_opcode opcode" "length (es_stack st') + length (es_alt st') \<le> 1000" "r = Inr st'"
    by (auto simp: res_bind_Inr_iff not_less split: if_splits)
  moreover from \<open>r = Inr st'\<close> have "st' = st1\<lparr>es_stack := d # es_stack st1\<rparr> \<or> st' = st1 \<or>
     (\<exists>fExec. ev_switch env script fExec opcode st1 = Inr st')"
    unfolding r_def by (metis Inl_Inr_False sum.inject(2))
  ultimately show thesis using st1_def by (intro that) simp_all
qed

lemma ev_turn_good:
  assumes "within_limits st" "ev_turn env script opcode d st = Inr st'"
  shows "within_limits st'"
  using assms(2)
proof (cases rule: ev_turn_cases)
  case (1 st1)
  have w: "within_limits st1" using 1(1,3) assms(1) by (auto simp: within_limits_def)
  have "small_elements (es_stack st') \<and> small_elements (es_alt st') \<and> es_opcount st' \<le> 201"
    using 1(6)
  proof (elim disjE exE)
    fix fExec assume "ev_switch env script fExec opcode st1 = Inr st'"
    then show ?thesis using ev_switch_good [OF w, of env script fExec opcode] by simp
  qed (use w 1(2) in \<open>simp_all add: within_limits_def\<close>)
  then show ?thesis using 1(5) by (simp add: within_limits_def)
qed

section \<open>Running a script\<close>

text \<open>The configurations a run goes through: the bytes still to be read, and the state.\<close>

inductive eval_reaches :: "script_env \<Rightarrow> script \<Rightarrow> bytes \<times> eval_state \<Rightarrow> bytes \<times> eval_state \<Rightarrow> bool"
  for env :: script_env and script :: script where
  here: "eval_reaches env script c c"
| turn: "eval_reaches env script c (pc, st) \<Longrightarrow> pc \<noteq> [] \<Longrightarrow> go_ok (GetOp2 pc) \<Longrightarrow>
    ev_turn env script (go_opcode (GetOp2 pc)) (go_data (GetOp2 pc)) st = Inr st' \<Longrightarrow>
    eval_reaches env script c (go_pc (GetOp2 pc), st')"

inductive_cases eval_reachesE: "eval_reaches env script c c'"

lemma eval_reaches_limits:
  assumes "eval_reaches env script c c'" "within_limits (snd c)"
  shows "within_limits (snd c')"
  using assms by (induction rule: eval_reaches.induct) (auto dest: ev_turn_good)

lemma eval_reaches_step:
  assumes "eval_reaches env script (go_pc (GetOp2 pc), st') c'" "pc \<noteq> []" "go_ok (GetOp2 pc)"
    "ev_turn env script (go_opcode (GetOp2 pc)) (go_data (GetOp2 pc)) st = Inr st'"
  shows "eval_reaches env script (pc, st) c'"
  using assms(1)
proof (induction "(go_pc (GetOp2 pc), st')" c' rule: eval_reaches.induct)
  case here
  show ?case by (rule eval_reaches.turn [OF eval_reaches.here assms(2-4)])
next
  case (turn pc1 st1 st2)
  then show ?case by (intro eval_reaches.turn)
qed

lemma eval_loop_reaches: "eval_loop env script pc st = Inr st' \<Longrightarrow> eval_reaches env script (pc, st) ([], st')"
proof (induction env script pc st rule: eval_loop.induct)
  case (1 env script pc st)
  from 1(2) show ?case
    by (subst (asm) eval_loop.simps)
      (auto simp: Let_def split: if_splits sum.splits intro: eval_reaches.here eval_reaches_step 1(1))
qed

lemma ev_turn_no_abort: "ev_turn env script opcode d st \<noteq> Inl Abort"
  by (auto simp: ev_turn_def Let_def res_bind_Inl_iff ev_switch_no_abort split: if_splits)

lemma eval_loop_no_abort: "eval_loop env script pc st \<noteq> Inl Abort"
proof (induction env script pc st rule: eval_loop.induct)
  case (1 env script pc st)
  then show ?case
    by (subst eval_loop.simps) (auto simp: Let_def ev_turn_no_abort split: sum.splits)
qed

abbreviation start_state :: "bytes list \<Rightarrow> eval_state" where
  "start_state stack \<equiv> \<lparr>es_stack = stack, es_alt = [], es_exec = [], es_opcount = 0\<rparr>"

lemma start_limits: "small_elements stack \<Longrightarrow> length stack \<le> 1000 \<Longrightarrow> within_limits (start_state stack)"
  by (simp add: within_limits_def)

lemma EvalScript_limits:
  assumes "small_elements stack" "length stack \<le> 1000" "EvalScript env stack script = Inr stack'"
  shows "small_elements stack'" "length stack' \<le> 1000"
proof -
  from assms(3) obtain st where st: "eval_loop env script script (start_state stack) = Inr st" "stack' = es_stack st"
    by (auto simp: EvalScript_def res_bind_Inr_iff split: if_splits)
  from eval_reaches_limits [OF eval_loop_reaches [OF st(1)]] start_limits [OF assms(1,2)]
  show "small_elements stack'" "length stack' \<le> 1000" by (simp_all add: within_limits_def st(2))
qed

lemma EvalScript_no_abort: "EvalScript env stack script \<noteq> Inl Abort"
  by (auto simp: EvalScript_def res_bind_Inl_iff eval_loop_no_abort split: if_splits)


abbreviation no_checks :: script_env where
  "no_checks \<equiv> \<lparr>flags = 0, CheckSig = (\<lambda>_ _ _ _. False), CheckLockTime = (\<lambda>_. False),
     CheckCryptoCondition = (\<lambda>_ _ _ _. 0), CheckLowS = (\<lambda>_. False), CryptoConditionsEnabled = False,
     consensusBranchId = 0\<rparr>"


section \<open>Single steps\<close>

lemma GetOp2_opcode: "op > OP_PUSHDATA4 \<Longrightarrow> GetOp2 (op # r) = \<lparr>go_ok = True, go_pc = r, go_opcode = op, go_data = []\<rparr>"
  by (simp add: GetOp2_def not_le)

lemma eval_loop_Nil [simp]: "eval_loop env script [] st = Inr st"
  by (subst eval_loop.simps) simp

lemma eval_loop_step:
  "pc \<noteq> [] \<Longrightarrow> go_ok (GetOp2 pc) \<Longrightarrow> eval_loop env script pc st =
     res_bind (ev_turn env script (go_opcode (GetOp2 pc)) (go_data (GetOp2 pc)) st) (eval_loop env script (go_pc (GetOp2 pc)))"
  by (subst eval_loop.simps) (simp add: Let_def res_bind_def)

lemma eval_loop_opcode:
  "op > OP_PUSHDATA4 \<Longrightarrow> eval_loop env script (op # r) st =
     res_bind (ev_turn env script op [] st) (eval_loop env script r)"
  by (simp add: eval_loop_step GetOp2_opcode)

lemma eval_loop_push:
  assumes "length b < 2 ^ 32"
  shows "eval_loop env script (push_vector [] b @ r) st =
    res_bind (ev_turn env script (go_opcode (GetOp2 (push_vector [] b @ r))) b st) (eval_loop env script r)"
proof -
  let ?pc = "push_vector [] b @ r"
  have "?pc \<noteq> []" "go_ok (GetOp2 ?pc)" "go_pc (GetOp2 ?pc) = r" "go_data (GetOp2 ?pc) = b"
    using GetOp2_push_vector [OF assms, of r] push_vector_pos [of b] by (auto simp: Let_def)
  then show ?thesis using eval_loop_step [of ?pc env script st] by simp
qed

lemma hash160_empty_stack:
  "es_stack st = [] \<Longrightarrow> es_exec st = [] \<Longrightarrow> es_opcount st < 201 \<Longrightarrow>
     ev_turn env script OP_HASH160 [] st = Inl (Err SCRIPT_ERR_INVALID_STACK_OPERATION)"
  by (simp add: ev_turn_def disabled_opcode_def ev_switch_def ev_hash_def Let_def)

lemma EvalScript_p2sh_empty:
  assumes "IsPayToScriptHash s"
  shows "EvalScript env [] s = Inl (Err SCRIPT_ERR_INVALID_STACK_OPERATION)"
proof -
  from assms obtain r where s: "s = OP_HASH160 # r" "length s = 23"
    by (cases s) (auto simp: IsPayToScriptHash_def)
  then show ?thesis
    by (simp add: EvalScript_def MAX_SCRIPT_SIZE_def eval_loop_opcode hash160_empty_stack)
qed

lemma EvalCryptoConditionSig_no_abort: "EvalCryptoConditionSig stack s \<noteq> Inl Abort"
  by (simp add: EvalCryptoConditionSig_def Let_def)

lemma stack_true_no_abort: "stack_true s \<noteq> Inl Abort"
  by (simp add: stack_true_def split: list.splits)

lemma verify_p2sh_no_abort:
  "IsPayToScriptHash pk \<Longrightarrow> EvalScript env stackCopy pk = Inr stack \<Longrightarrow> verify_p2sh env sig stackCopy \<noteq> Inl Abort"
  using EvalScript_p2sh_empty [of pk env] EvalScript_no_abort stack_true_no_abort
  by (auto simp: verify_p2sh_def res_bind_Inl_iff split: list.splits if_splits)

text \<open>
  C32. Verification cannot be made to fail an \<open>assert\<close>. The only \<open>assert\<close> of
  \<open>VerifyScript\<close> and of the interpreter it runs that any scripts can reach is the one against a
  caller that asks for \<open>CLEANSTACK\<close> without \<open>P2SH\<close>; in particular the stack restored for a
  pay-to-script-hash output is never empty, and no sum of script numbers overflows.
\<close>

theorem VerifyScript_asserts:
  assumes "VerifyScript env scriptSig scriptPubKey = Inl Abort"
  shows "has_flag env SCRIPT_VERIFY_CLEANSTACK \<and> \<not> has_flag env SCRIPT_VERIFY_P2SH"
proof (rule ccontr)
  assume "\<not> ?thesis"
  with assms verify_p2sh_no_abort [of scriptPubKey env] show False
    unfolding VerifyScript_def res_bind_Inl_iff
    by (auto simp: res_bind_Inl_iff EvalScript_no_abort EvalCryptoConditionSig_no_abort stack_true_no_abort split: if_splits)
qed

theorem VerifyScript_asserts_witness:
  "VerifyScript (no_checks\<lparr>flags := 256\<rparr>) [OP_1] [] = Inl Abort \<and>
   has_flag (no_checks\<lparr>flags := 256\<rparr>) SCRIPT_VERIFY_CLEANSTACK \<and> \<not> has_flag (no_checks\<lparr>flags := 256\<rparr>) SCRIPT_VERIFY_P2SH"
proof -
  have p: "ev_push_value OP_1 (start_state []) = Inr (start_state [[1]])"
    by (simp add: ev_push_value_def getvch_def scriptnum_serialize_def abs_bytes_pos)
  have t: "ev_turn env script OP_1 [] (start_state []) = Inr (start_state [[1]])" for env script
    by (simp add: ev_turn_def disabled_opcode_def MAX_SCRIPT_ELEMENT_SIZE_def ev_switch_def p)
  have "VerifyScript (no_checks\<lparr>flags := 256\<rparr>) [OP_1] [] = Inl Abort"
    by (simp add: VerifyScript_def EvalScript_def MAX_SCRIPT_SIZE_def eval_loop_opcode t stack_true_def CastToBool_def
        has_flag_def IsPayToScriptHash_def bit_numeral_rec)
  with VerifyScript_asserts [OF this] show ?thesis by simp
qed

section \<open>Unspendable outputs\<close>

lemma op_return_turn:
  "es_exec st = [] \<Longrightarrow> es_opcount st < 201 \<Longrightarrow> ev_turn env script OP_RETURN [] st = Inl (Err SCRIPT_ERR_OP_RETURN)"
  by (simp add: ev_turn_def disabled_opcode_def ev_switch_def ev_return_def Let_def)

lemma EvalScript_unspendable:
  assumes "IsUnspendable s"
  shows "EvalScript env stack s \<in> {Inl (Err SCRIPT_ERR_OP_RETURN), Inl (Err SCRIPT_ERR_SCRIPT_SIZE)}"
proof (cases "length s > MAX_SCRIPT_SIZE")
  case True
  then show ?thesis by (simp add: EvalScript_def)
next
  case False
  with assms obtain r where "s = OP_RETURN # r" by (cases s) (auto simp: IsUnspendable_def)
  with False show ?thesis by (simp add: EvalScript_def eval_loop_opcode op_return_turn)
qed

text \<open>
  What \<open>IsUnspendable\<close> calls unspendable cannot be spent: for such an output script, no
  \<open>scriptSig\<close>, no flags and no signature checker make \<open>VerifyScript\<close> succeed, which is what
  lets the coin database drop the output.
\<close>

theorem unspendable_never_verifies:
  assumes "IsUnspendable scriptPubKey"
  shows "VerifyScript env scriptSig scriptPubKey \<noteq> Inr ()"
proof
  assume "VerifyScript env scriptSig scriptPubKey = Inr ()"
  then obtain stack stack' where "EvalScript env stack scriptPubKey = Inr stack'"
    by (auto simp: VerifyScript_def res_bind_Inr_iff split: if_splits)
  with EvalScript_unspendable [OF assms, of env stack] show False by auto
qed

theorem unspendable_never_verifies_witness:
  "VerifyScript no_checks [OP_1] [OP_RETURN, 1, 7] \<noteq> Inr ()"
  by (rule unspendable_never_verifies) (simp add: IsUnspendable_def)

section \<open>What a successful run says about the script\<close>

text \<open>The opcodes of a script with their push data, when all of it can be parsed.\<close>

function script_ops :: "bytes \<Rightarrow> (u8 \<times> bytes) list option" where
  "script_ops pc =
     (if pc = [] then Some []
      else let g = GetOp2 pc
           in if go_ok g then map_option ((#) (go_opcode g, go_data g)) (script_ops (go_pc g)) else None)"
  by pat_completeness auto
termination
  by (relation "measure length") (auto simp: GetOp2_shorter)

declare script_ops.simps [simp del]

abbreviation keeps_count :: "eval_state \<Rightarrow> eval_result \<Rightarrow> bool" where
  "keeps_count st \<equiv> res_all (\<lambda>st'. es_opcount st \<le> es_opcount st' \<and> (es_opcount st \<le> 201 \<longrightarrow> es_opcount st' \<le> 201))"

lemma multisig_keeps_count: "keeps_count st (ev_checkmultisig env script opcode st)"
  unfolding ev_checkmultisig_def Let_def
  by (intro if_rule [where P = "keeps_count st"] res_all_bind) (simp_all split: list.splits)

lemma ev_switch_opcount: "keeps_count st (ev_switch env script fExec opcode st)"
  by (rule ev_switch_rule)
    (auto simp: multisig_keeps_count stack_op_defs ev_push_value_def ev_depth_def ev_size_def
      ev_checklocktimeverify_def ev_pick_roll_def ev_within_def ev_hash_def ev_hash_value_eq ev_checksig_def
      ev_checkcryptocondition_def ev_unary_def ev_binary_def Let_def intro!: res_all_bind split: list.splits)

lemma ev_turn_counts:
  assumes "ev_turn env script opcode d st = Inr st'" "es_opcount st \<le> 201"
  shows "length d \<le> MAX_SCRIPT_ELEMENT_SIZE" "\<not> disabled_opcode opcode"
    "es_opcount st + (if opcode > OP_16 then 1 else 0) \<le> es_opcount st'" "es_opcount st' \<le> 201"
proof -
  from assms(1) obtain st1 where c: "st1 = (if opcode > OP_16 then st\<lparr>es_opcount := es_opcount st + 1\<rparr> else st)"
    "length d \<le> MAX_SCRIPT_ELEMENT_SIZE" "opcode > OP_16 \<longrightarrow> es_opcount st1 \<le> 201" "\<not> disabled_opcode opcode"
    "st' = st1\<lparr>es_stack := d # es_stack st1\<rparr> \<or> st' = st1 \<or> (\<exists>fExec. ev_switch env script fExec opcode st1 = Inr st')"
    by (rule ev_turn_cases)
  have "es_opcount st1 \<le> es_opcount st' \<and> (es_opcount st1 \<le> 201 \<longrightarrow> es_opcount st' \<le> 201)"
    using c(5)
  proof (elim disjE exE)
    fix fExec assume "ev_switch env script fExec opcode st1 = Inr st'"
    then show ?thesis using ev_switch_opcount [of st1 env script fExec opcode] by simp
  qed simp_all
  moreover have "es_opcount st1 \<le> 201" using c(1,3) assms(2) by auto
  ultimately show "es_opcount st + (if opcode > OP_16 then 1 else 0) \<le> es_opcount st'" "es_opcount st' \<le> 201"
    using c(1) by (auto split: if_splits)
  show "length d \<le> MAX_SCRIPT_ELEMENT_SIZE" "\<not> disabled_opcode opcode" by (fact c)+
qed

lemma eval_loop_wellformed:
  "eval_loop env script pc st = Inr st' \<Longrightarrow> es_opcount st \<le> 201 \<Longrightarrow>
     \<exists>ops. script_ops pc = Some ops \<and> (\<forall>(op, d)\<in>set ops. \<not> disabled_opcode op \<and> length d \<le> MAX_SCRIPT_ELEMENT_SIZE) \<and>
       es_opcount st + int (length (filter (\<lambda>(op, d). op > OP_16) ops)) \<le> es_opcount st' \<and> es_opcount st' \<le> 201"
proof (induction env script pc st rule: eval_loop.induct)
  case (1 env script pc st)
  show ?case
  proof (cases "pc = []")
    case True
    then show ?thesis using 1 by (simp add: script_ops.simps)
  next
    case False
    let ?g = "GetOp2 pc"
    from False 1(2) obtain st1 where ok: "go_ok ?g" and turn: "ev_turn env script (go_opcode ?g) (go_data ?g) st = Inr st1"
      and rest: "eval_loop env script (go_pc ?g) st1 = Inr st'"
      by (subst (asm) eval_loop.simps) (auto simp: Let_def split: if_splits sum.splits)
    note c = ev_turn_counts [OF turn 1(3)]
    obtain ops where "script_ops (go_pc ?g) = Some ops"
      "\<forall>(op, d)\<in>set ops. \<not> disabled_opcode op \<and> length d \<le> MAX_SCRIPT_ELEMENT_SIZE"
      "es_opcount st1 + int (length (filter (\<lambda>(op, d). op > OP_16) ops)) \<le> es_opcount st'" "es_opcount st' \<le> 201"
      using 1(1) [OF False refl _ turn] ok rest c(4) by auto
    then show ?thesis using False ok c by (subst script_ops.simps) (auto simp: Let_def split: if_splits)
  qed
qed

text \<open>
  C16. A script that runs to success is well formed throughout, also in the branches that were not
  executed: it has at most 10000 bytes, every instruction of it can be parsed, none is a disabled
  opcode, no push is longer than 520 bytes, and at most 201 instructions count as operations.
\<close>

theorem successful_script_wellformed:
  assumes "EvalScript env stack script = Inr stack'"
  shows "length script \<le> MAX_SCRIPT_SIZE \<and>
    (\<exists>ops. script_ops script = Some ops \<and>
       (\<forall>(op, d)\<in>set ops. \<not> disabled_opcode op \<and> length d \<le> MAX_SCRIPT_ELEMENT_SIZE) \<and>
       length (filter (\<lambda>(op, d). op > OP_16) ops) \<le> 201)"
proof -
  from assms obtain st where "length script \<le> MAX_SCRIPT_SIZE"
    and "eval_loop env script script (start_state stack) = Inr st"
    by (auto simp: EvalScript_def res_bind_Inr_iff split: if_splits)
  with eval_loop_wellformed [of env script script "start_state stack" st] show ?thesis by auto
qed

theorem successful_script_wellformed_witness:
  "EvalScript no_checks [[5]] [OP_DUP] = Inr [[5], [5]] \<and> length [OP_DUP] \<le> MAX_SCRIPT_SIZE \<and>
    (\<exists>ops. script_ops [OP_DUP] = Some ops \<and>
       (\<forall>(op, d)\<in>set ops. \<not> disabled_opcode op \<and> length d \<le> MAX_SCRIPT_ELEMENT_SIZE) \<and>
       length (filter (\<lambda>(op, d). op > OP_16) ops) \<le> 201)"
proof -
  have "EvalScript no_checks [[5]] [OP_DUP] = Inr [[5], [5]]"
    by (simp add: EvalScript_def MAX_SCRIPT_SIZE_def eval_loop_opcode ev_turn_def disabled_opcode_def ev_switch_def
        ev_dup_def Let_def)
  with successful_script_wellformed [OF this] show ?thesis by blast
qed

section \<open>\<open>OP_CHECKMULTISIG\<close>\<close>

text \<open>The loop over the keys finds an order-preserving assignment of the signatures if there is one.\<close>

lemma multisig_loop_emb:
  assumes "drop (isig - 1) stack = sigs @ r1" "drop (ikey - 1) stack = keys @ r2" "length sigs \<le> length keys"
    "\<forall>s\<in>set sigs. CheckSignatureEncoding env s = Inr ()" "\<forall>k\<in>set keys. CheckPubKeyEncoding env k = Inr ()"
    "0 < isig" "0 < ikey"
  shows "multisig_loop env script stack isig ikey (int (length sigs)) (int (length keys)) =
    Inr (list_emb (\<lambda>s k. CheckSig env s k script (consensusBranchId env)) sigs keys)"
  using assms
proof (induction keys arbitrary: sigs isig ikey)
  case Nil
  then show ?case by (subst multisig_loop.simps) simp
next
  case (Cons k keys)
  show ?case
  proof (cases sigs)
    case Nil
    then show ?thesis by (subst multisig_loop.simps) simp
  next
    case (Cons s ss)
    have s: "stack ! (isig - Suc 0) = s" and k: "stack ! (ikey - Suc 0) = k"
      using Cons.prems(1,2) Cons by (metis One_nat_def append_Cons nth_via_drop)+
    have d: "drop n stack = tl (drop (n - 1) stack)" if "0 < n" for n
      using that by (cases n) (simp_all add: drop_Suc tl_drop)
    have ds: "drop (isig + 1 - 1) stack = ss @ r1" "drop (ikey + 1 - 1) stack = keys @ r2"
      using d [of isig] d [of ikey] Cons.prems(1,2,6,7) Cons by simp_all
    have enc: "CheckSignatureEncoding env s = Inr ()" "CheckPubKeyEncoding env k = Inr ()"
      using Cons.prems(4,5) Cons by simp_all
    let ?ok = "\<lambda>s k. CheckSig env s k script (consensusBranchId env)"
    show ?thesis
    proof (cases "?ok s k")
      case True
      have "multisig_loop env script stack (isig + 1) (ikey + 1) (int (length ss)) (int (length keys)) = Inr (list_emb ?ok ss keys)"
        using Cons.prems(3-5) Cons ds by (intro Cons.IH) simp_all
      then show ?thesis using True Cons Cons.prems(3)
        by (subst multisig_loop.simps) (simp add: Let_def s k enc)
    next
      case False
      show ?thesis
      proof (cases "length sigs \<le> length keys")
        case True
        have "multisig_loop env script stack isig (ikey + 1) (int (length sigs)) (int (length keys)) = Inr (list_emb ?ok sigs keys)"
          using Cons.prems ds(2) True by (intro Cons.IH) simp_all
        then show ?thesis using False True Cons
          by (subst multisig_loop.simps) (simp add: Let_def s k enc)
      next
        case nofit: False
        then have "\<not> list_emb ?ok sigs keys" using list_emb_length [of ?ok sigs keys] by auto
        then show ?thesis using False nofit Cons
          by (subst multisig_loop.simps) (simp add: Let_def s k enc)
      qed
    qed
  qed
qed

lemma stack_num_getvch:
  assumes "\<bar>m_value n\<bar> < 2 ^ 31"
  shows "stack_num env (getvch n) nDefaultMaxNumSize = Inr n"
proof -
  have "length (getvch n) \<le> 4" using length_serialize_le [of 4 "m_value n"] assms by (simp add: getvch_def)
  moreover have "m_value n = 0 \<Longrightarrow> getvch n = []" by (simp add: getvch_def scriptnum_serialize_def)
  ultimately show ?thesis
    using serialize_minimal [of "m_value n"] set_vch_serialize [of "m_value n"]
    by (cases "m_value n = 0")
      (auto simp: stack_num_def lift_num_def scriptnum_from_vch_def nDefaultMaxNumSize_def getvch_def)
qed

lemma stack_num_of_nat:
  assumes "k \<le> 20"
  shows "stack_num env (getvch \<lparr>m_value = int k\<rparr>) nDefaultMaxNumSize = Inr \<lparr>m_value = int k\<rparr>"
    "getint \<lparr>m_value = int k\<rparr> = int k"
  using assms by (auto simp: getint_def intro!: stack_num_getvch)

text \<open>
  C17. \<open>OP_CHECKMULTISIG\<close> accepts exactly when the signatures can be assigned, in order, to keys that
  verify them. On a stack with \<open>n \<le> 20\<close> keys, \<open>m \<le> n\<close> signatures and the extra element, all
  properly encoded and with room in the operation count, the opcode consumes them all, counts
  \<open>n\<close> operations and leaves true if there is an order-preserving embedding of the list of
  signatures into the list of keys that pairs each signature with a key it checks under, and false
  otherwise: the single pass over the keys, which never goes back, misses no assignment.
\<close>

theorem checkmultisig_spec:
  assumes "length keys \<le> 20" "length sigs \<le> length keys" "es_opcount st + int (length keys) \<le> 201"
    and stack: "es_stack st = getvch \<lparr>m_value = int (length keys)\<rparr> # keys @
                 getvch \<lparr>m_value = int (length sigs)\<rparr> # sigs @ dummy # rest"
    and enc: "\<forall>s\<in>set sigs. CheckSignatureEncoding env s = Inr ()" "\<forall>k\<in>set keys. CheckPubKeyEncoding env k = Inr ()"
    and dummy: "has_flag env SCRIPT_VERIFY_NULLDUMMY \<longrightarrow> dummy = []"
  shows "ev_checkmultisig env script OP_CHECKMULTISIG st =
    Inr (st\<lparr>es_stack :=
             vch_of_bool (list_emb (\<lambda>s k. CheckSig env s k script (consensusBranchId env)) sigs keys) # rest,
           es_opcount := es_opcount st + int (length keys)\<rparr>)"
proof -
  let ?n = "length keys" and ?m = "length sigs" and ?s = "es_stack st"
  have loop: "multisig_loop env script ?s (2 + ?n + 1) 2 (int ?m) (int ?n) =
    Inr (list_emb (\<lambda>s k. CheckSig env s k script (consensusBranchId env)) sigs keys)"
    by (rule multisig_loop_emb [OF _ _ assms(2) enc]) (simp_all add: stack)
  have nth: "?s ! 0 = getvch \<lparr>m_value = int ?n\<rparr>" "?s ! (2 + ?n - 1) = getvch \<lparr>m_value = int ?m\<rparr>"
    "drop (2 + ?n + 1 + ?m - 1) ?s = dummy # rest" "length ?s = ?n + ?m + 3 + length rest"
    by (simp_all add: stack nth_append)
  show ?thesis unfolding ev_checkmultisig_def Let_def
    using assms(1-3) dummy
    by (simp add: nth(1,4) stack_num_of_nat)
      (auto simp: nth(2,3,4) [simplified] stack_num_of_nat loop [simplified])
qed

theorem checkmultisig_spec_witness:
  "ev_checkmultisig (no_checks\<lparr>CheckSig := \<lambda>s k _ _. s = [] \<and> k = [2]\<rparr>) [] OP_CHECKMULTISIG
      (start_state (getvch \<lparr>m_value = 2\<rparr> # [[1], [2]] @ getvch \<lparr>m_value = 1\<rparr> # [[]] @ [] # [])) =
    Inr ((start_state (getvch \<lparr>m_value = 2\<rparr> # [[1], [2]] @ getvch \<lparr>m_value = 1\<rparr> # [[]] @ [] # []))
         \<lparr>es_stack := vch_of_bool True # [], es_opcount := 2\<rparr>)"
proof -
  have "CheckSignatureEncoding env [] = Inr ()" for env by (simp add: CheckSignatureEncoding_def)
  then show ?thesis
    using checkmultisig_spec [where keys = "[[1], [2]]" and sigs = "[[]]" and dummy = "[]" and rest = "[]" and script = "[]"
        and env = "no_checks\<lparr>CheckSig := \<lambda>s k _ _. s = [] \<and> k = [2]\<rparr>"
        and st = "start_state (getvch \<lparr>m_value = 2\<rparr> # [[1], [2]] @ getvch \<lparr>m_value = 1\<rparr> # [[]] @ [] # [])"]
    by (simp add: CheckPubKeyEncoding_def has_flag_def)
qed

section \<open>Pay to public key hash\<close>

lemma push_opcode_of:
  assumes "length b \<le> 65535"
  shows "go_opcode (GetOp2 (push_vector [] b @ r)) =
    (if length b < 76 then of_nat (length b) else if length b \<le> 255 then OP_PUSHDATA1 else OP_PUSHDATA2)"
proof -
  consider "length b < 76" | "76 \<le> length b" "length b \<le> 0xff" | "0xff < length b" by linarith
  then show ?thesis
  proof cases
    case 1
    then show ?thesis using GetOp2_direct [of b r] by (simp add: push_vector_def)
  next
    case 2
    then have "unat (of_nat (length b) :: u8) = length b" by (simp add: unat_of_nat_mod)
    then show ?thesis using 2 by (simp add: push_vector_def GetOp2_def getop_push_exact)
  next
    case 3
    then have "unat (of_nat (length b) :: u16) = length b" using assms by (simp add: unat_of_nat_mod)
    then show ?thesis using 3 assms by (simp add: push_vector_def GetOp2_def getop_push_exact)
  qed
qed

lemma small_opcode: "length b < 76 \<Longrightarrow> unat (of_nat (length b) :: u8) = length b"
  by (simp add: unat_of_nat_mod)

lemma push_opcode_small: "(op :: u8) \<le> OP_PUSHDATA4 \<Longrightarrow> \<not> op > OP_16"
  by (simp add: word_le_nat_alt word_less_nat_alt)

text \<open>A push of two bytes or more with \<open>operator<<\<close> is minimal, so executing it pushes the data.\<close>

lemma ev_turn_push:
  assumes "2 \<le> length b" "length b \<le> MAX_SCRIPT_ELEMENT_SIZE" "es_exec st = []"
    "length (es_stack st) + length (es_alt st) < 1000"
  shows "ev_turn env script (go_opcode (GetOp2 (push_vector [] b @ r))) b st = Inr (st\<lparr>es_stack := b # es_stack st\<rparr>)"
proof -
  let ?op = "go_opcode (GetOp2 (push_vector [] b @ r))"
  have b: "length b \<le> 520" using assms(2) by (simp add: MAX_SCRIPT_ELEMENT_SIZE_def)
  then have op: "?op = (if length b < 76 then of_nat (length b) else if length b \<le> 255 then OP_PUSHDATA1 else OP_PUSHDATA2)"
    by (intro push_opcode_of) simp
  have le: "?op \<le> OP_PUSHDATA4" using small_opcode [of b] by (simp add: op word_le_nat_alt)
  then have "\<not> ?op > OP_16" "\<not> disabled_opcode ?op"
    by (auto simp: disabled_opcode_def push_opcode_small)
  moreover have "CheckMinimalPush b ?op"
    using assms(1) b small_opcode [of b] by (auto simp: CheckMinimalPush_def op)
  ultimately show ?thesis using assms le by (simp add: ev_turn_def Let_def)
qed

abbreviation p2pkh :: "bytes \<Rightarrow> script" where
  "p2pkh h \<equiv> push_opcode (push_opcode (push_vector (push_opcode (push_opcode [] OP_DUP) OP_HASH160) h)
     OP_EQUALVERIFY) OP_CHECKSIG"

lemma p2pkh_eq: "p2pkh h = [OP_DUP, OP_HASH160] @ push_vector [] h @ [OP_EQUALVERIFY, OP_CHECKSIG]"
  by (simp add: push_opcode_def push_vector_append [of "[OP_DUP, OP_HASH160]"])

lemma length_p2pkh: "length h = 20 \<Longrightarrow> length (p2pkh h) = 25"
  by (simp add: push_opcode_def push_vector_def)

lemma eval_p2pkh:
  assumes h: "length h = 20"
  shows "EvalScript env [pk, sig] (p2pkh h) =
    (if ripemd160_hash (fips_sha256 pk) \<noteq> h then Inl (Err SCRIPT_ERR_EQUALVERIFY)
     else res_bind (CheckSignatureEncoding env sig) (\<lambda>_.
          res_bind (CheckPubKeyEncoding env pk) (\<lambda>_.
            Inr [vch_of_bool (CheckSig env sig pk (p2pkh h) (consensusBranchId env))])))"
proof -
  let ?s = "p2pkh h" and ?x = "ripemd160_hash (fips_sha256 pk)"
  let ?st = "\<lambda>stack n. \<lparr>es_stack = stack, es_alt = [], es_exec = [], es_opcount = n\<rparr>"
  have dup: "ev_turn env ?s OP_DUP [] (?st [pk, sig] 0) = Inr (?st [pk, pk, sig] 1)"
    by (simp add: ev_turn_def disabled_opcode_def ev_switch_def ev_dup_def Let_def)
  have hash: "ev_turn env ?s OP_HASH160 [] (?st [pk, pk, sig] 1) = Inr (?st [?x, pk, sig] 2)"
    by (simp add: ev_turn_def disabled_opcode_def ev_switch_def ev_hash_def ev_hash_value_eq Let_def)
  have push: "ev_turn env ?s (go_opcode (GetOp2 (push_vector [] h @ r))) h (?st [?x, pk, sig] 2) = Inr (?st [h, ?x, pk, sig] 2)" for r
    using h by (subst ev_turn_push) (simp_all add: MAX_SCRIPT_ELEMENT_SIZE_def)
  have eqv: "ev_turn env ?s OP_EQUALVERIFY [] (?st [h, ?x, pk, sig] 2) =
      (if ?x = h then Inr (?st [pk, sig] 3) else Inl (Err SCRIPT_ERR_EQUALVERIFY))"
    by (simp add: ev_turn_def disabled_opcode_def ev_switch_def ev_equal_def Let_def)
  have chk: "ev_turn env ?s OP_CHECKSIG [] (?st [pk, sig] 3) =
      res_bind (CheckSignatureEncoding env sig) (\<lambda>_. res_bind (CheckPubKeyEncoding env pk) (\<lambda>_.
        Inr (?st [vch_of_bool (CheckSig env sig pk ?s (consensusBranchId env))] 4)))"
    by (simp add: ev_turn_def disabled_opcode_def ev_switch_def ev_checksig_def Let_def res_bind_def split: sum.split)
  have "eval_loop env ?s ?s (?st [pk, sig] 0) =
      (if ?x = h then res_bind (CheckSignatureEncoding env sig) (\<lambda>_. res_bind (CheckPubKeyEncoding env pk) (\<lambda>_.
        Inr (?st [vch_of_bool (CheckSig env sig pk ?s (consensusBranchId env))] 4))) else Inl (Err SCRIPT_ERR_EQUALVERIFY))"
    by (subst (2) p2pkh_eq)
      (simp add: eval_loop_opcode eval_loop_push h dup hash push eqv chk res_bind_def split: sum.split)
  then show ?thesis
    by (simp add: EvalScript_def length_p2pkh [OF h] MAX_SCRIPT_SIZE_def res_bind_def split: sum.split)
qed

lemma push_two_eq: "push_vector (push_vector [] sig) pk = push_vector [] sig @ push_vector [] pk"
  by (rule push_vector_append)

lemma eval_two_pushes:
  assumes "2 \<le> length sig" "length sig \<le> MAX_SCRIPT_ELEMENT_SIZE" "2 \<le> length pk" "length pk \<le> MAX_SCRIPT_ELEMENT_SIZE"
  shows "EvalScript env [] (push_vector (push_vector [] sig) pk) = Inr [pk, sig]"
proof -
  have l: "length (push_vector [] b) \<le> 5 + length b" for b by (simp add: push_vector_def)
  have b: "length sig \<le> 520" "length pk \<le> 520" using assms by (simp_all add: MAX_SCRIPT_ELEMENT_SIZE_def)
  have n: "\<not> MAX_SCRIPT_SIZE < length (push_vector (push_vector [] sig) pk)"
    unfolding push_two_eq using l [of sig] l [of pk] b by (simp add: MAX_SCRIPT_SIZE_def)
  have e: "eval_loop env script (push_vector [] pk) st = res_bind (ev_turn env script (go_opcode (GetOp2 (push_vector [] pk @ []))) pk st) Inr"
    for script st using eval_loop_push [of pk env script "[]" st] b by (simp add: res_bind_def split: sum.split)
  show ?thesis using assms b
    by (simp add: EvalScript_def n) (simp add: push_two_eq eval_loop_push ev_turn_push e del: append_Nil2)
qed

lemma p2pkh_not_special: "length h = 20 \<Longrightarrow> IsPayToCryptoCondition (p2pkh h) = None \<and> \<not> IsPayToScriptHash (p2pkh h)"
  by (simp add: IsPayToCryptoCondition_def IsPayToScriptHash_def length_p2pkh p2pkh_eq GetOp2_opcode Let_def)

lemma push_only_two:
  assumes "2 \<le> length sig" "length sig \<le> MAX_SCRIPT_ELEMENT_SIZE" "2 \<le> length pk" "length pk \<le> MAX_SCRIPT_ELEMENT_SIZE"
  shows "IsPushOnly (push_vector (push_vector [] sig) pk)"
proof -
  have one: "IsPushOnly (push_vector [] b @ r) = IsPushOnly r" if "length b \<le> MAX_SCRIPT_ELEMENT_SIZE" for b r
  proof -
    have "go_opcode (GetOp2 (push_vector [] b @ r)) \<le> OP_PUSHDATA4 \<and> go_ok (GetOp2 (push_vector [] b @ r)) \<and>
        go_pc (GetOp2 (push_vector [] b @ r)) = r"
      using GetOp2_push_vector [of b r] that by (simp add: Let_def MAX_SCRIPT_ELEMENT_SIZE_def)
    moreover from this have "\<not> go_opcode (GetOp2 (push_vector [] b @ r)) > OP_16"
      by (simp add: push_opcode_small)
    ultimately show ?thesis using push_vector_pos [of b] by (subst IsPushOnly.simps) (auto simp: Let_def)
  qed
  have "IsPushOnly []" by (subst IsPushOnly.simps) simp
  with one [of sig "push_vector [] pk"] one [of pk "[]"] assms show ?thesis by (simp add: push_two_eq)
qed

text \<open>
  C18. What spending a pay-to-public-key-hash output means. With the input script that pushes a
  signature and a public key of two to 520 bytes, \<open>VerifyScript\<close> accepts exactly when the RIPEMD-160 of the
  SHA-256 of the key is the hash in the output, the encodings of signature and key are acceptable under the
  flags, and the checker accepts the signature for the key and the output script; whatever the flags, as
  long as \<open>CLEANSTACK\<close> comes with \<open>P2SH\<close>.
\<close>

theorem p2pkh_verifies:
  assumes "length h = 20" "2 \<le> length sig" "length sig \<le> MAX_SCRIPT_ELEMENT_SIZE"
    "2 \<le> length pk" "length pk \<le> MAX_SCRIPT_ELEMENT_SIZE"
    "has_flag env SCRIPT_VERIFY_CLEANSTACK \<longrightarrow> has_flag env SCRIPT_VERIFY_P2SH"
  shows "VerifyScript env (push_vector (push_vector [] sig) pk) (p2pkh h) = Inr () \<longleftrightarrow>
    ripemd160_hash (fips_sha256 pk) = h \<and> CheckSignatureEncoding env sig = Inr () \<and>
    CheckPubKeyEncoding env pk = Inr () \<and> CheckSig env sig pk (p2pkh h) (consensusBranchId env)"
proof -
  have st: "stack_true [vch_of_bool b] = (if b then Inr () else Inl (Err SCRIPT_ERR_EVAL_FALSE))" for b
    by (simp add: stack_true_def CastToBool_def)
  show ?thesis
    unfolding VerifyScript_def eval_two_pushes [OF assms(2-5)] res_bind_simps eval_p2pkh [OF assms(1)]
    using push_only_two [OF assms(2-5)] p2pkh_not_special [OF assms(1)] assms(6) eval_two_pushes [OF assms(2-5), of env]
    by (auto simp: res_bind_Inr_iff st eval_p2pkh [OF assms(1)] split: if_splits)
qed

theorem p2pkh_verifies_witness:
  "let pk = replicate 33 2; sig = [0x30, 6, 2, 1, 1, 2, 1, 1, 1]; h = ripemd160_hash (fips_sha256 pk)
   in VerifyScript (no_checks\<lparr>CheckSig := \<lambda>s k _ _. s = sig \<and> k = pk\<rparr>)
        (push_vector (push_vector [] sig) pk) (p2pkh h) = Inr ()"
  unfolding Let_def
  by (subst p2pkh_verifies)
    (simp_all add: hash_lengths MAX_SCRIPT_ELEMENT_SIZE_def has_flag_def CheckSignatureEncoding_def CheckPubKeyEncoding_def
      IsValidSignatureEncoding_def)

end
