(* ===== verification/Serialize.thy ===== *)
theory Serialize
  imports CryptoCommon
begin

text \<open>
  \<^verbatim>\<open>src/serialize.h\<close> and the byte stream of \<^verbatim>\<open>src/streams.h\<close>. A reader takes
  the bytes still unread and yields a value with the bytes that follow it, or the
  \<open>std::ios_base::failure\<close> it throws. The locale \<open>codec\<close> is the contract between a
  \<open>Serialize\<close> and its \<open>Unserialize\<close>: what was written is read back, whatever follows it in the
  stream. Its extension \<open>strict_codec\<close> says in addition that the reader accepts nothing else.
  The lemmas proved in the locales are what the containers and the transaction formats rest on;
  the integers, the compact sizes and the variable-length integers interpret them here.
\<close>

named_theorems rd_simps \<open>running a reader\<close>

datatype ser_error =
    EndOfData | IgnoreNegative | NonCanonicalSize | SizeTooLarge | NonCanonicalOptional
  | StringLimit | LeadByte | WrongProofType | UnknownTransactionFormat | SerAssert

type_synonym 'a reader = "bytes \<Rightarrow> ser_error + ('a \<times> bytes)"

definition rd_return :: "'a \<Rightarrow> 'a reader" where
  "rd_return x s = Inr (x, s)"

definition rd_fail :: "ser_error \<Rightarrow> 'a reader" where
  "rd_fail e s = Inl e"

definition rd_bind :: "'a reader \<Rightarrow> ('a \<Rightarrow> 'b reader) \<Rightarrow> 'b reader" where
  "rd_bind m f s = res_bind (m s) (\<lambda>(x, r). f x r)"

lemma rd_basic [simp, rd_simps]: "rd_return x s = Inr (x, s)" "rd_fail e s = Inl e"
  by (simp_all add: rd_return_def rd_fail_def)

lemma rd_bind_eq: "m s = Inr (x, r) \<Longrightarrow> rd_bind m f s = f x r"
  by (simp add: rd_bind_def)

lemma rd_bind_fail: "m s = Inl e \<Longrightarrow> rd_bind m f s = Inl e"
  by (simp add: rd_bind_def)

lemma rd_bind_Inr_iff [rd_simps]:
  "rd_bind m f s = Inr (y, r) \<longleftrightarrow> (\<exists>x r'. m s = Inr (x, r') \<and> f x r' = Inr (y, r))"
  by (auto simp: rd_bind_def res_bind_Inr_iff)

section \<open>The data stream\<close>

record CDataStream =
  vch :: bytes
  nReadPos :: nat

text \<open>What a reader of the stream still sees.\<close>

definition unread :: "CDataStream \<Rightarrow> bytes" where
  "unread ds = drop (nReadPos ds) (vch ds)"

text \<open>The next read position is an \<open>unsigned int\<close>, so the sum is taken modulo \<open>2 ^ 32\<close>.\<close>

definition DataStream_read :: "CDataStream \<Rightarrow> nat \<Rightarrow> ser_error + (bytes \<times> CDataStream)" where
  "DataStream_read ds nSize =
     (if nSize = 0 then Inr ([], ds)
      else let nReadPosNext = (nReadPos ds + nSize) mod 2 ^ 32
           in if nReadPosNext \<ge> length (vch ds)
              then if nReadPosNext > length (vch ds) then Inl EndOfData
                   else Inr (take nSize (drop (nReadPos ds) (vch ds)), \<lparr>vch = [], nReadPos = 0\<rparr>)
              else Inr (take nSize (drop (nReadPos ds) (vch ds)), ds\<lparr>nReadPos := nReadPosNext\<rparr>))"

definition DataStream_ignore :: "CDataStream \<Rightarrow> int \<Rightarrow> ser_error + CDataStream" where
  "DataStream_ignore ds nSize =
     (if nSize < 0 then Inl IgnoreNegative
      else let nReadPosNext = (nReadPos ds + nat nSize) mod 2 ^ 32
           in if nReadPosNext \<ge> length (vch ds)
              then if nReadPosNext > length (vch ds) then Inl EndOfData
                   else Inr \<lparr>vch = [], nReadPos = 0\<rparr>
              else Inr (ds\<lparr>nReadPos := nReadPosNext\<rparr>))"

definition DataStream_write :: "CDataStream \<Rightarrow> bytes \<Rightarrow> CDataStream" where
  "DataStream_write ds pch = ds\<lparr>vch := vch ds @ pch\<rparr>"

definition DataStream_Compact :: "CDataStream \<Rightarrow> CDataStream" where
  "DataStream_Compact ds = \<lparr>vch = drop (nReadPos ds) (vch ds), nReadPos = 0\<rparr>"

definition DataStream_Rewind :: "CDataStream \<Rightarrow> nat \<Rightarrow> CDataStream option" where
  "DataStream_Rewind ds n = (if n > nReadPos ds then None else Some (ds\<lparr>nReadPos := nReadPos ds - n\<rparr>))"

text \<open>The same operations on the unread bytes.\<close>

definition stream_read :: "nat \<Rightarrow> bytes reader" where
  "stream_read n s = (if n \<le> length s then Inr (take n s, drop n s) else Inl EndOfData)"

definition stream_ignore :: "int \<Rightarrow> unit reader" where
  "stream_ignore n s =
     (if n < 0 then Inl IgnoreNegative else if nat n \<le> length s then Inr ((), drop (nat n) s) else Inl EndOfData)"

text \<open>
  The buffer with its read position implements reading from the unread bytes, as long as positions
  fit in 32 bits; the buffer is cleared when its end is reached, which no reader notices.
\<close>

definition stream_inv :: "CDataStream \<Rightarrow> bool" where
  "stream_inv ds \<longleftrightarrow> nReadPos ds \<le> length (vch ds) \<and> length (vch ds) < 2 ^ 32"

lemma DataStream_read_refines:
  assumes "stream_inv ds" "nReadPos ds + n < 2 ^ 32"
  shows "map_sum id (map_prod id unread) (DataStream_read ds n) = stream_read n (unread ds)"
    and "DataStream_read ds n = Inr (b, ds') \<Longrightarrow> stream_inv ds'"
  using assms
  by (auto simp: DataStream_read_def stream_read_def unread_def stream_inv_def Let_def add.commute split: if_splits)

lemma DataStream_ignore_refines:
  assumes "stream_inv ds" "nReadPos ds + nat n < 2 ^ 32"
  shows "map_sum id unread (DataStream_ignore ds n) = map_sum id snd (stream_ignore n (unread ds))"
    and "DataStream_ignore ds n = Inr ds' \<Longrightarrow> stream_inv ds'"
  using assms
  by (auto simp: DataStream_ignore_def stream_ignore_def unread_def stream_inv_def Let_def add.commute split: if_splits)

lemma DataStream_write_refines:
  "stream_inv ds \<Longrightarrow> unread (DataStream_write ds b) = unread ds @ b"
  by (simp add: unread_def DataStream_write_def stream_inv_def)

lemma DataStream_Compact_refines: "unread (DataStream_Compact ds) = unread ds"
  by (simp add: unread_def DataStream_Compact_def)

lemma stream_read_append [simp, rd_simps]: "length b = n \<Longrightarrow> stream_read n (b @ r) = Inr (b, r)"
  by (auto simp: stream_read_def)

lemma stream_read_Inr:
  "stream_read n s = Inr (b, r) \<longleftrightarrow> s = b @ r \<and> length b = n"
  by (auto simp: stream_read_def)

section \<open>Fixed-width integers\<close>

definition ser_writedata8 :: "u8 \<Rightarrow> bytes" where
  "ser_writedata8 obj = [obj]"

definition ser_writedata16 :: "u16 \<Rightarrow> bytes" where
  "ser_writedata16 obj = WriteLE16 obj"

definition ser_writedata32 :: "u32 \<Rightarrow> bytes" where
  "ser_writedata32 obj = WriteLE32 obj"

definition ser_writedata32be :: "u32 \<Rightarrow> bytes" where
  "ser_writedata32be obj = WriteBE32 obj"

definition ser_writedata64 :: "u64 \<Rightarrow> bytes" where
  "ser_writedata64 obj = WriteLE64 obj"

definition ser_readdata8 :: "u8 reader" where
  "ser_readdata8 = rd_bind (stream_read 1) (\<lambda>b. rd_return (hd b))"

definition ser_readdata16 :: "u16 reader" where
  "ser_readdata16 = rd_bind (stream_read 2) (\<lambda>b. rd_return (ReadLE16 b))"

definition ser_readdata32 :: "u32 reader" where
  "ser_readdata32 = rd_bind (stream_read 4) (\<lambda>b. rd_return (ReadLE32 b))"

definition ser_readdata32be :: "u32 reader" where
  "ser_readdata32be = rd_bind (stream_read 4) (\<lambda>b. rd_return (ReadBE32 b))"

definition ser_readdata64 :: "u64 reader" where
  "ser_readdata64 = rd_bind (stream_read 8) (\<lambda>b. rd_return (ReadLE64 b))"

text \<open>A \<open>bool\<close> is one byte; every byte but zero reads as true.\<close>

definition Serialize_bool :: "bool \<Rightarrow> bytes" where
  "Serialize_bool a = ser_writedata8 (if a then 1 else 0)"

definition Unserialize_bool :: "bool reader" where
  "Unserialize_bool = rd_bind ser_readdata8 (\<lambda>f. rd_return (f \<noteq> 0))"

section \<open>Compact sizes\<close>

abbreviation MAX_SIZE :: nat where
  "MAX_SIZE \<equiv> 0x02000000"

definition GetSizeOfCompactSize :: "u64 \<Rightarrow> nat" where
  "GetSizeOfCompactSize nSize =
     (if nSize < 253 then 1 else if nSize \<le> 0xFFFF then 3 else if nSize \<le> 0xFFFFFFFF then 5 else 9)"

definition WriteCompactSize :: "u64 \<Rightarrow> bytes" where
  "WriteCompactSize nSize =
     (if nSize < 253 then ser_writedata8 (ucast nSize)
      else if nSize \<le> 0xFFFF then ser_writedata8 253 @ ser_writedata16 (ucast nSize)
      else if nSize \<le> 0xFFFFFFFF then ser_writedata8 254 @ ser_writedata32 (ucast nSize)
      else ser_writedata8 255 @ ser_writedata64 nSize)"

definition ReadCompactSize :: "u64 reader" where
  "ReadCompactSize =
     rd_bind ser_readdata8 (\<lambda>chSize.
     rd_bind
       (if chSize < 253 then rd_return (ucast chSize)
        else if chSize = 253
          then rd_bind ser_readdata16 (\<lambda>n. if n < 253 then rd_fail NonCanonicalSize else rd_return (ucast n))
        else if chSize = 254
          then rd_bind ser_readdata32 (\<lambda>n. if n < 0x10000 then rd_fail NonCanonicalSize else rd_return (ucast n))
        else rd_bind ser_readdata64 (\<lambda>n. if n < 0x100000000 then rd_fail NonCanonicalSize else rd_return n))
       (\<lambda>nSizeRet. if nSizeRet > of_nat MAX_SIZE then rd_fail SizeTooLarge else rd_return nSizeRet))"

section \<open>Variable-length integers\<close>

text \<open>
  The template is instantiated at 32 and 64 bits. \<open>varint_tmp n len\<close> is the part of the buffer
  \<open>tmp\<close> from index \<open>len\<close> on that the writing loop fills; the bytes are then written from the last
  to the first.
\<close>

lemma varint_step_less:
  fixes n :: "'a::len word"
  assumes "\<not> n \<le> 0x7F"
  shows "unat (drop_bit 7 n - 1) + 1 = unat n div 128" "127 < unat n"
proof -
  have "unat (0x7F :: 'a word) = 127 mod 2 ^ LENGTH('a)" by (simp add: unsigned_numeral take_bit_eq_mod)
  moreover have "unat (0x7F :: 'a word) < unat n" using assms by (simp add: not_le word_less_nat_alt)
  moreover have "unat n < 2 ^ LENGTH('a)" by simp
  ultimately show less: "127 < unat n"
  proof (cases "7 \<le> LENGTH('a)")
    case True
    then have "(2::nat) ^ 7 \<le> 2 ^ LENGTH('a)" by (rule power_increasing) simp
    with \<open>unat (0x7F :: 'a word) = 127 mod 2 ^ LENGTH('a)\<close> \<open>unat (0x7F :: 'a word) < unat n\<close>
    show ?thesis by simp
  next
    case False
    have "127 < a" if "\<not> 7 \<le> m" "a < 2 ^ m" "127 mod 2 ^ m < a" for a m :: nat
    proof -
      have "m \<in> {0, 1, 2, 3, 4, 5, 6}" using that(1) by auto
      with that show ?thesis by auto
    qed
    from this [OF False \<open>unat n < 2 ^ LENGTH('a)\<close>] \<open>unat (0x7F :: 'a word) = 127 mod 2 ^ LENGTH('a)\<close>
      \<open>unat (0x7F :: 'a word) < unat n\<close>
    show ?thesis by simp
  qed
  then have "0 < unat (drop_bit 7 n)" by (simp add: unat_drop_bit div_greater_zero_iff)
  then have "drop_bit 7 n \<noteq> 0" by (rule contrapos_pn) simp
  then have "unat (drop_bit 7 n - 1) = unat (drop_bit 7 n) - 1" by (rule unat_minus_one)
  with \<open>0 < unat (drop_bit 7 n)\<close> show "unat (drop_bit 7 n - 1) + 1 = unat n div 128"
    by (simp add: unat_drop_bit)
qed

function varint_tmp :: "'a::len word \<Rightarrow> nat \<Rightarrow> bytes" where
  "varint_tmp n len =
     ((ucast (n AND 0x7F) OR (if len \<noteq> 0 then 0x80 else 0)) #
      (if n \<le> 0x7F then [] else varint_tmp (drop_bit 7 n - 1) (len + 1)))"
  by pat_completeness auto
termination
proof (relation "measure (\<lambda>(n, _). unat n)")
  fix n :: "'a word" and len :: nat
  assume "\<not> n \<le> 0x7F"
  from varint_step_less [OF this] show "((drop_bit 7 n - 1, len + 1), n, len) \<in> measure (\<lambda>(n, _). unat n)"
    by simp
qed simp

declare varint_tmp.simps [simp del]

definition WriteVarInt :: "'a::len word \<Rightarrow> bytes" where
  "WriteVarInt n = rev (varint_tmp n 0)"

function GetSizeOfVarInt :: "'a::len word \<Rightarrow> nat" where
  "GetSizeOfVarInt n = (if n \<le> 0x7F then 1 else 1 + GetSizeOfVarInt (drop_bit 7 n - 1))"
  by pat_completeness auto
termination
proof (relation "measure unat")
  fix n :: "'a word"
  assume "\<not> n \<le> 0x7F"
  from varint_step_less [OF this] show "(drop_bit 7 n - 1, n) \<in> measure unat" by simp
qed simp

declare GetSizeOfVarInt.simps [simp del]

fun read_varint :: "'a::len word \<Rightarrow> 'a word reader" where
  "read_varint n [] = Inl EndOfData"
| "read_varint n (chData # r) =
     (let n' = push_bit 7 n OR ucast (chData AND 0x7F)
      in if chData AND 0x80 \<noteq> 0 then read_varint (n' + 1) r else Inr (n', r))"

definition ReadVarInt :: "'a::len word reader" where
  "ReadVarInt = read_varint 0"

text \<open>
  The same template at the signed type \<open>int\<close>: the comparison with \<open>0x7F\<close> is signed, so the
  loop stops at once for a negative number and writes its lowest seven bits.
\<close>

definition WriteVarInt_int :: "int \<Rightarrow> bytes" where
  "WriteVarInt_int n = (if n < 0 then [word_of_int n AND 0x7F] else WriteVarInt (word_of_int n :: u32))"

definition ReadVarInt_int :: "int reader" where
  "ReadVarInt_int = rd_bind (ReadVarInt :: u32 reader) (\<lambda>n. rd_return (sint n))"

section \<open>Containers\<close>

definition read_size :: "nat reader" where
  "read_size = rd_bind ReadCompactSize (\<lambda>n. rd_return (unat n))"

fun read_n :: "nat \<Rightarrow> 'a reader \<Rightarrow> 'a list reader" where
  "read_n 0 u = rd_return []"
| "read_n (Suc n) u = rd_bind u (\<lambda>x. rd_bind (read_n n u) (\<lambda>xs. rd_return (x # xs)))"

definition Serialize_vector :: "('a \<Rightarrow> bytes) \<Rightarrow> 'a list \<Rightarrow> bytes" where
  "Serialize_vector ser v = WriteCompactSize (of_nat (length v)) @ concat (map ser v)"

definition Unserialize_vector :: "'a reader \<Rightarrow> 'a list reader" where
  "Unserialize_vector u = rd_bind read_size (\<lambda>nSize. read_n nSize u)"

text \<open>
  The code allocates the elements in batches of \<open>5000000 / sizeof(T)\<close>, so that a bogus size
  cannot exhaust the memory; the loop as it is written, for a batch of at least one element.
\<close>

function vector_batches :: "nat \<Rightarrow> 'a reader \<Rightarrow> nat \<Rightarrow> nat \<Rightarrow> 'a list \<Rightarrow> 'a list reader" where
  "vector_batches batch u nSize nMid v =
     (if nMid < nSize \<and> 0 < batch
      then let nMid' = (if nMid + batch > nSize then nSize else nMid + batch)
           in rd_bind (read_n (nMid' - nMid) u) (\<lambda>xs. vector_batches batch u nSize nMid' (v @ xs))
      else rd_return v)"
  by pat_completeness auto
termination by (relation "measure (\<lambda>(_, _, nSize, nMid, _). nSize - nMid)") auto

declare vector_batches.simps [simp del]

definition Unserialize_vector_batched :: "nat \<Rightarrow> 'a reader \<Rightarrow> 'a list reader" where
  "Unserialize_vector_batched batch u = rd_bind read_size (\<lambda>nSize. vector_batches batch u nSize 0 [])"

text \<open>Vectors of bytes are one blob, again read in blocks of at most \<open>5000000\<close> bytes.\<close>

definition Serialize_bytes :: "bytes \<Rightarrow> bytes" where
  "Serialize_bytes v = WriteCompactSize (of_nat (length v)) @ v"

function bytes_blocks :: "nat \<Rightarrow> nat \<Rightarrow> bytes \<Rightarrow> bytes reader" where
  "bytes_blocks nSize i v =
     (if i < nSize
      then let blk = min (nSize - i) (1 + 4999999)
           in rd_bind (stream_read blk) (\<lambda>b. bytes_blocks nSize (i + blk) (v @ b))
      else rd_return v)"
  by pat_completeness auto
termination by (relation "measure (\<lambda>(nSize, i, _). nSize - i)") auto

declare bytes_blocks.simps [simp del]

definition Unserialize_bytes :: "bytes reader" where
  "Unserialize_bytes = rd_bind read_size (\<lambda>nSize. bytes_blocks nSize 0 [])"

text \<open>A string is read in one piece; a limited string is checked against its limit first.\<close>

definition Unserialize_string :: "bytes reader" where
  "Unserialize_string = rd_bind read_size (\<lambda>nSize. if nSize \<noteq> 0 then stream_read nSize else rd_return [])"

definition Unserialize_LimitedString :: "nat \<Rightarrow> bytes reader" where
  "Unserialize_LimitedString Limit =
     rd_bind read_size (\<lambda>size. if size > Limit then rd_fail StringLimit
                              else if size \<noteq> 0 then stream_read size else rd_return [])"

definition Serialize_optional :: "('a \<Rightarrow> bytes) \<Rightarrow> 'a option \<Rightarrow> bytes" where
  "Serialize_optional ser item =
     (case item of Some x \<Rightarrow> ser_writedata8 1 @ ser x | None \<Rightarrow> ser_writedata8 0)"

definition Unserialize_optional :: "'a reader \<Rightarrow> 'a option reader" where
  "Unserialize_optional u =
     rd_bind ser_readdata8 (\<lambda>discriminant.
       if discriminant = 0 then rd_return None
       else if discriminant = 1 then rd_bind u (\<lambda>x. rd_return (Some x))
       else rd_fail NonCanonicalOptional)"

text \<open>An array has no length prefix, a pair is its two components.\<close>

definition Serialize_array :: "('a \<Rightarrow> bytes) \<Rightarrow> 'a list \<Rightarrow> bytes" where
  "Serialize_array ser item = concat (map ser item)"

definition Unserialize_array :: "nat \<Rightarrow> 'a reader \<Rightarrow> 'a list reader" where
  "Unserialize_array N u = read_n N u"

definition Serialize_pair :: "('a \<Rightarrow> bytes) \<Rightarrow> ('b \<Rightarrow> bytes) \<Rightarrow> 'a \<times> 'b \<Rightarrow> bytes" where
  "Serialize_pair ser1 ser2 item = ser1 (fst item) @ ser2 (snd item)"

definition Unserialize_pair :: "'a reader \<Rightarrow> 'b reader \<Rightarrow> ('a \<times> 'b) reader" where
  "Unserialize_pair u1 u2 = rd_bind u1 (\<lambda>x. rd_bind u2 (\<lambda>y. rd_return (x, y)))"

section \<open>The contract of a codec\<close>

locale codec =
  fixes ser :: "'a \<Rightarrow> bytes" and unser :: "'a reader" and ok :: "'a \<Rightarrow> bool"
  assumes read_back: "ok x \<Longrightarrow> unser (ser x @ r) = Inr (x, r)"
begin

lemma read_back_all: "ok x \<Longrightarrow> unser (ser x) = Inr (x, [])"
  using read_back [of x "[]"] by simp

lemma bind_read_back: "ok x \<Longrightarrow> rd_bind unser f (ser x @ r) = f x r"
  by (rule rd_bind_eq) (rule read_back)

text \<open>No two encodings agree, not even when one is followed by other bytes.\<close>

lemma prefix_free:
  assumes "ok x" "ok y" "ser x @ r = ser y @ r'"
  shows "x = y \<and> r = r'"
proof -
  from read_back [OF assms(1), of r] have "unser (ser y @ r') = Inr (x, r)" unfolding assms(3) .
  then have "Inr (y, r') = (Inr (x, r) :: ser_error + 'a \<times> bytes)" unfolding read_back [OF assms(2)] .
  then show ?thesis by simp
qed

lemma read_n_back:
  "\<forall>x\<in>set xs. ok x \<Longrightarrow> read_n (length xs) unser (concat (map ser xs) @ r) = Inr (xs, r)"
  by (induction xs) (simp_all add: bind_read_back rd_bind_eq)

lemma array_back: "length xs = N \<Longrightarrow> \<forall>x\<in>set xs. ok x \<Longrightarrow> Unserialize_array N unser (Serialize_array ser xs @ r) = Inr (xs, r)"
  using read_n_back [of xs r] by (simp add: Unserialize_array_def Serialize_array_def)

end

locale strict_codec = codec +
  assumes only_read: "unser s = Inr (x, r) \<Longrightarrow> ok x \<and> s = ser x @ r"
begin

lemma read_iff: "unser s = Inr (x, r) \<longleftrightarrow> ok x \<and> s = ser x @ r"
  using only_read read_back by blast

lemma read_n_iff:
  "read_n n unser s = Inr (xs, r) \<longleftrightarrow> length xs = n \<and> (\<forall>x\<in>set xs. ok x) \<and> s = concat (map ser xs) @ r"
proof (induction n arbitrary: s xs)
  case (Suc n)
  show ?case
    by (cases xs) (auto simp: rd_bind_Inr_iff read_iff Suc.IH)
qed auto

end

section \<open>The basic codecs\<close>

lemma digits_of_word_val:
  assumes "length b = n" "LENGTH('w::len) = 8 * n"
  shows "le_digits n (unat (of_nat (le_val b) :: 'w word)) = (b :: bytes)"
proof -
  have "le_val b < 2 ^ LENGTH('w)" using le_val_bound [of b] assms by simp
  then have "unat (of_nat (le_val b) :: 'w word) = le_val b" by (simp add: unat_of_nat_mod)
  then show ?thesis using le_digits_val [of b] assms(1) by simp
qed

lemma WriteLE_ReadLE:
  "length b = 2 \<Longrightarrow> WriteLE16 (ReadLE16 b) = b"
  "length b = 4 \<Longrightarrow> WriteLE32 (ReadLE32 b) = b"
  "length b = 8 \<Longrightarrow> WriteLE64 (ReadLE64 b) = b"
  "length b = 4 \<Longrightarrow> WriteBE32 (ReadBE32 b) = b"
  unfolding WriteLE16_def ReadLE16_def WriteLE32_def ReadLE32_def WriteLE64_def ReadLE64_def WriteBE32_def ReadBE32_def
  by (simp_all add: digits_of_word_val)

lemma ReadLE_Write_all:
  "ReadLE16 (WriteLE16 x16) = x16" "ReadLE32 (WriteLE32 x32) = x32" "ReadLE64 (WriteLE64 x64) = x64"
  "ReadBE32 (WriteBE32 x32) = x32"
  using ReadLE_WriteLE [where r = "[]"] ReadBE_WriteBE [where r = "[]"] by simp_all

interpretation ser8: strict_codec ser_writedata8 ser_readdata8 "\<lambda>_. True"
  by unfold_locales
    (auto simp: ser_writedata8_def ser_readdata8_def rd_bind_def stream_read_def length_Suc_conv
      res_bind_Inr_iff take_Suc_conv_app_nth Suc_le_length_iff split: if_splits)

interpretation ser16: strict_codec ser_writedata16 ser_readdata16 "\<lambda>_. True"
  by unfold_locales
    (auto simp: ser_writedata16_def ser_readdata16_def rd_bind_eq ReadLE_Write_all rd_bind_Inr_iff stream_read_Inr WriteLE_ReadLE)

interpretation ser32: strict_codec ser_writedata32 ser_readdata32 "\<lambda>_. True"
  by unfold_locales
    (auto simp: ser_writedata32_def ser_readdata32_def rd_bind_eq ReadLE_Write_all rd_bind_Inr_iff stream_read_Inr WriteLE_ReadLE)

interpretation ser32be: strict_codec ser_writedata32be ser_readdata32be "\<lambda>_. True"
  by unfold_locales
    (auto simp: ser_writedata32be_def ser_readdata32be_def rd_bind_eq ReadLE_Write_all rd_bind_Inr_iff stream_read_Inr WriteLE_ReadLE)

interpretation ser64: strict_codec ser_writedata64 ser_readdata64 "\<lambda>_. True"
  by unfold_locales
    (auto simp: ser_writedata64_def ser_readdata64_def rd_bind_eq ReadLE_Write_all rd_bind_Inr_iff stream_read_Inr WriteLE_ReadLE)

interpretation bool: codec Serialize_bool Unserialize_bool "\<lambda>_. True"
  by unfold_locales (simp add: Serialize_bool_def Unserialize_bool_def ser8.bind_read_back)

interpretation blob: strict_codec "\<lambda>b. b" "stream_read n" "\<lambda>b. length b = n" for n
  by unfold_locales (auto simp: stream_read_Inr)

section \<open>Compact sizes\<close>

lemma word_range_nat:
  "(n :: u64) < 253 \<longleftrightarrow> unat n < 253" "n \<le> 0xFFFF \<longleftrightarrow> unat n \<le> 0xFFFF" "n \<le> 0xFFFFFFFF \<longleftrightarrow> unat n \<le> 0xFFFFFFFF"
  "n < 0x100000000 \<longleftrightarrow> unat n < 0x100000000" "n > 0x02000000 \<longleftrightarrow> unat n > 0x02000000"
  "(m :: u32) < 0x10000 \<longleftrightarrow> unat m < 0x10000" "(k :: u16) < 253 \<longleftrightarrow> unat k < 253" "(b :: u8) < 253 \<longleftrightarrow> unat b < 253"
  by (simp_all add: word_less_nat_alt word_le_nat_alt)

lemma ucast_back:
  "unat (n :: u64) < 256 \<Longrightarrow> ucast (ucast n :: u8) = n"
  "unat (n :: u64) \<le> 0xFFFF \<Longrightarrow> ucast (ucast n :: u16) = n"
  "unat (n :: u64) \<le> 0xFFFFFFFF \<Longrightarrow> ucast (ucast n :: u32) = n"
  by (simp_all add: word_unat_eq_iff unat_ucast_mod)

lemma unat_ucast_64:
  "unat (ucast (b :: u8) :: u64) = unat b" "unat (ucast (k :: u16) :: u64) = unat k" "unat (ucast (m :: u32) :: u64) = unat m"
  by (rule unat_ucast_up; simp)+

lemma ucast_size_less:
  "ucast (ucast b :: u64) = (b :: u8)" "ucast (ucast k :: u64) = (k :: u16)" "ucast (ucast m :: u64) = (m :: u32)"
  by (simp_all only: word_unat_eq_iff unat_ucast_64 unat_ucast_mod [where 'a = 64]) simp_all

lemma word_max: "unat (k :: u16) \<le> 0xFFFF" "unat (m :: u32) \<le> 0xFFFFFFFF" "\<not> 0xFFFF < unat (k :: u16)" "\<not> 0xFFFFFFFF < unat (k :: u16)" "\<not> 0xFFFFFFFF < unat (m :: u32)"
  using unsigned_less [of k, where 'a = nat] u32_less [of m] by simp_all

interpretation csize: strict_codec WriteCompactSize ReadCompactSize "\<lambda>n. unat n \<le> MAX_SIZE"
proof
  fix n :: u64 and r
  assume n: "unat n \<le> MAX_SIZE"
  have m: "unat (ucast n :: u16) = unat n" if "unat n \<le> 0xFFFF" using that by (simp add: unat_ucast_mod)
  have k: "unat (ucast n :: u32) = unat n" using n by (simp add: unat_ucast_mod)
  have b: "unat (ucast n :: u8) = unat n" if "unat n < 253" using that by (simp add: unat_ucast_mod)
  show "ReadCompactSize (WriteCompactSize n @ r) = Inr (n, r)"
    using n m k b
    by (simp add: WriteCompactSize_def ReadCompactSize_def word_range_nat ser8.bind_read_back ser16.bind_read_back
        ser32.bind_read_back ser64.bind_read_back ucast_back rd_bind_eq)
next
  fix s n r
  assume "ReadCompactSize s = Inr (n, r)"
  then obtain b r' where b: "s = ser_writedata8 b @ r'" and n: "\<not> unat n > MAX_SIZE"
    and cases: "(if b < 253 then rd_return (ucast b)
        else if b = 253
          then rd_bind ser_readdata16 (\<lambda>n. if n < 253 then rd_fail NonCanonicalSize else rd_return (ucast n))
        else if b = 254
          then rd_bind ser_readdata32 (\<lambda>n. if n < 0x10000 then rd_fail NonCanonicalSize else rd_return (ucast n))
        else rd_bind ser_readdata64 (\<lambda>n. if n < 0x100000000 then rd_fail NonCanonicalSize else rd_return n)) r' = Inr (n, r)"
    by (auto simp: ReadCompactSize_def rd_bind_Inr_iff ser8.read_iff word_range_nat split: if_splits)
  have "s = WriteCompactSize n @ r"
  proof (cases "b < 253")
    case True
    then show ?thesis using cases b
      by (auto simp: WriteCompactSize_def word_range_nat ucast_size_less unat_ucast_64)
  next
    case False
    then have "b = 253 \<or> b = 254 \<or> b = 255"
      using u8_less [of b] by (auto simp: word_range_nat word_unat_eq_iff)
    with cases b False show ?thesis
      by (auto simp: word_max unat_ucast_64 rd_bind_Inr_iff ser16.read_iff ser32.read_iff ser64.read_iff WriteCompactSize_def
          word_range_nat ucast_size_less not_less not_le split: if_splits)
  qed
  with n show "unat n \<le> MAX_SIZE \<and> s = WriteCompactSize n @ r" by simp
qed

section \<open>Variable-length integers\<close>

lemma varint_byte:
  fixes n :: "'a::len word" and len :: nat
  defines "b \<equiv> ucast (n AND 0x7F) OR (if len \<noteq> 0 then 0x80 else 0) :: u8"
  shows "b AND 0x80 \<noteq> 0 \<longleftrightarrow> len \<noteq> 0" "ucast (b AND 0x7F) = n AND 0x7F"
proof -
  have m: "(0x7F :: 'a word) = mask 7" "(0x7F :: u8) = mask 7" by (simp_all add: mask_eq_exp_minus_1)
  have b: "bit (0x80 :: u8) i \<longleftrightarrow> i = 7" for i
    using bit_exp_iff [where 'a = u8, of 7 i] by auto
  have bits: "bit (if len \<noteq> 0 then 0x80 else 0 :: u8) i \<longleftrightarrow> len \<noteq> 0 \<and> i = 7" for i
    using b by simp
  show "ucast (b AND 0x7F) = n AND 0x7F"
    unfolding m b_def by (rule bit_eqI) (simp only: bit_and_iff bit_or_iff bit_unsigned_iff bit_mask_iff bits, auto simp: bit_imp_le_length)
  show "b AND 0x80 \<noteq> 0 \<longleftrightarrow> len \<noteq> 0"
  proof -
    have "bit (b AND 0x80) i \<longleftrightarrow> len \<noteq> 0 \<and> i = 7" for i
      unfolding m b_def by (simp only: bit_and_iff bit_or_iff bit_unsigned_iff bit_mask_iff bits b, auto)
    then show ?thesis by (metis bit_0_eq bot_apply bot_bool_def bit_eqI)
  qed
qed

lemma varint_rejoin: "push_bit 7 (drop_bit 7 n) OR (n AND 0x7F) = (n :: 'a::len word)"
proof -
  have m: "(0x7F :: 'a::len word) = mask 7" by (simp add: mask_eq_exp_minus_1)
  show ?thesis unfolding m by (rule bit_eqI) (auto simp: bit_simps)
qed

lemma read_varint_byte:
  "read_varint m ((ucast (n AND 0x7F) OR (if len \<noteq> 0 then 0x80 else 0)) # r) =
     (if len \<noteq> (0::nat) then read_varint ((push_bit 7 m OR (n AND 0x7F)) + 1) r else Inr (push_bit 7 m OR (n AND 0x7F), r))"
  by (simp only: read_varint.simps Let_def varint_byte)

lemma read_varint_tmp:
  "read_varint 0 (rev (varint_tmp n len) @ r) = (if len = 0 then Inr (n, r) else read_varint (n + 1) r)"
proof (induction n len arbitrary: r rule: varint_tmp.induct)
  case (1 n len)
  show ?case
  proof (cases "n \<le> 0x7F")
    case True
    have "unat (0x7F :: 'a word) \<le> 127" by (simp add: unsigned_numeral take_bit_eq_mod)
    with True have "unat n \<le> 127" unfolding word_le_nat_alt by (rule order_trans)
    then have "unat n mod 2 ^ 7 = unat n" by simp
    moreover have m: "(0x7F :: 'a word) = mask 7" by (simp add: mask_eq_exp_minus_1)
    ultimately have "n AND 0x7F = n" unfolding m by (simp only: word_unat_eq_iff unat_and_mask)
    then have "read_varint 0 ((ucast (n AND 0x7F) OR (if len \<noteq> 0 then 0x80 else 0)) # r) =
        (if len = 0 then Inr (n, r) else read_varint (n + 1) r)"
      by (subst read_varint_byte) simp
    then show ?thesis using True by (subst varint_tmp.simps) (simp only: if_True rev.simps append.simps)
  next
    case False
    have "read_varint (drop_bit 7 n) ((ucast (n AND 0x7F) OR (if len \<noteq> 0 then 0x80 else 0)) # r) =
        (if len = 0 then Inr (n, r) else read_varint (n + 1) r)"
      by (subst read_varint_byte) (simp add: varint_rejoin)
    moreover have "read_varint 0 (rev (varint_tmp (drop_bit 7 n - 1) (len + 1)) @ r') = read_varint (drop_bit 7 n) r'" for r'
      using 1 [OF False] by simp
    ultimately show ?thesis using False
      by (subst varint_tmp.simps) (simp only: if_False rev.simps append_assoc append.simps)
  qed
qed

interpretation varint: codec WriteVarInt "ReadVarInt :: 'a::len word reader" "\<lambda>_. True"
  by unfold_locales (simp add: WriteVarInt_def ReadVarInt_def read_varint_tmp)

lemma length_WriteVarInt: "length (WriteVarInt n) = GetSizeOfVarInt n"
proof -
  have "length (varint_tmp n len) = GetSizeOfVarInt n" for len
    by (induction n len rule: varint_tmp.induct) (subst varint_tmp.simps, subst GetSizeOfVarInt.simps, simp)
  then show ?thesis by (simp add: WriteVarInt_def)
qed

lemma GetSizeOfVarInt_le: "unat n < 2 ^ (7 * k) \<Longrightarrow> 0 < k \<Longrightarrow> GetSizeOfVarInt n \<le> k"
proof (induction n arbitrary: k rule: GetSizeOfVarInt.induct)
  case (1 n)
  show ?case
  proof (cases "n \<le> 0x7F")
    case True
    then show ?thesis using 1(3) by (subst GetSizeOfVarInt.simps) simp
  next
    case False
    note step = varint_step_less [OF False]
    obtain j where k: "k = Suc j" using 1(3) by (cases k) auto
    have "0 < j" using 1(2) step(2) k by (cases j) auto
    have "unat n div 128 \<le> 2 ^ (7 * j)" using 1(2)
      by (simp add: k power_add less_mult_imp_div_less less_imp_le)
    then have "unat (drop_bit 7 n - 1) < 2 ^ (7 * j)" using step(1) by linarith
    from 1(1) [OF False this \<open>0 < j\<close>] show ?thesis using False k by (subst GetSizeOfVarInt.simps) simp
  qed
qed

interpretation varint_int: codec WriteVarInt_int ReadVarInt_int "\<lambda>n. 0 \<le> n \<and> n < 2 ^ 31"
proof
  fix n :: int and r
  assume "0 \<le> n \<and> n < 2 ^ 31"
  then have "sint (word_of_int n :: u32) = n" by (simp add: sint_sbintrunc' signed_take_bit_int_eq_self)
  with \<open>0 \<le> n \<and> n < 2 ^ 31\<close> show "ReadVarInt_int (WriteVarInt_int n @ r) = Inr (n, r)"
    by (simp add: WriteVarInt_int_def ReadVarInt_int_def varint.bind_read_back)
qed

section \<open>Containers\<close>

lemma read_size_back: "n \<le> MAX_SIZE \<Longrightarrow> read_size (WriteCompactSize (of_nat n) @ r) = Inr (n, r)"
  using csize.bind_read_back [of "of_nat n" "\<lambda>n. rd_return (unat n)" r] by (simp add: read_size_def unat_of_nat_mod)

lemma bind_read_size: "n \<le> MAX_SIZE \<Longrightarrow> rd_bind read_size f (WriteCompactSize (of_nat n) @ r) = f n r"
  by (rule rd_bind_eq) (rule read_size_back)

lemma read_size_iff: "read_size s = Inr (n, r) \<longleftrightarrow> n \<le> MAX_SIZE \<and> s = WriteCompactSize (of_nat n) @ r"
proof
  assume "read_size s = Inr (n, r)"
  then show "n \<le> MAX_SIZE \<and> s = WriteCompactSize (of_nat n) @ r"
    by (auto simp: read_size_def rd_bind_Inr_iff csize.read_iff)
qed (auto simp: read_size_back)

lemma read_n_add: "read_n (m + n) u = rd_bind (read_n m u) (\<lambda>xs. rd_bind (read_n n u) (\<lambda>ys. rd_return (xs @ ys)))"
proof (induction m)
  case 0
  show ?case by (rule ext) (auto simp: rd_bind_def res_bind_def split: sum.splits)
next
  case (Suc m)
  show ?case unfolding add_Suc read_n.simps Suc.IH
    by (rule ext) (auto simp: rd_bind_def res_bind_def split: sum.splits)
qed

lemma rd_bind_assoc: "rd_bind (rd_bind m f) g = rd_bind m (\<lambda>x. rd_bind (f x) g)"
  by (rule ext) (auto simp: rd_bind_def res_bind_def split: sum.splits)

lemma rd_bind_return [simp]: "rd_bind m rd_return = m" "rd_bind (rd_return x) f = f x"
  by (rule ext, auto simp: rd_bind_def res_bind_def split: sum.splits)+

lemma vector_batches_eq:
  "0 < batch \<Longrightarrow> nMid \<le> nSize \<Longrightarrow>
   vector_batches batch u nSize nMid v = rd_bind (read_n (nSize - nMid) u) (\<lambda>xs. rd_return (v @ xs))"
proof (induction batch u nSize nMid v rule: vector_batches.induct)
  case (1 batch u nSize nMid v)
  let ?m = "if nMid + batch > nSize then nSize else nMid + batch"
  show ?case
  proof (cases "nMid < nSize")
    case True
    have IH: "vector_batches batch u nSize ?m (v @ xs) = rd_bind (read_n (nSize - ?m) u) (\<lambda>ys. rd_return ((v @ xs) @ ys))" for xs
      using 1(1) [OF conjI [OF True 1(2)] refl 1(2)] by (simp del: rd_basic)
    have "nSize - nMid = (?m - nMid) + (nSize - ?m)" using True by auto
    then have "read_n (nSize - nMid) u = rd_bind (read_n (?m - nMid) u) (\<lambda>xs. rd_bind (read_n (nSize - ?m) u) (\<lambda>ys. rd_return (xs @ ys)))"
      by (simp only: read_n_add)
    then show ?thesis using True 1(2)
      by (subst vector_batches.simps) (simp add: Let_def IH rd_bind_assoc del: if_split rd_basic)
  next
    case False
    with 1(3) show ?thesis by (subst vector_batches.simps) (simp del: rd_basic)
  qed
qed

lemma Unserialize_vector_batched_eq: "0 < batch \<Longrightarrow> Unserialize_vector_batched batch u = Unserialize_vector u"
  by (simp add: Unserialize_vector_batched_def Unserialize_vector_def vector_batches_eq)

lemma stream_read_add: "stream_read (m + n) = rd_bind (stream_read m) (\<lambda>b. rd_bind (stream_read n) (\<lambda>c. rd_return (b @ c)))"
  by (rule ext) (auto simp: stream_read_def rd_bind_def res_bind_def take_add add.commute)

lemma bytes_blocks_eq:
  "i \<le> nSize \<Longrightarrow> bytes_blocks nSize i v = rd_bind (stream_read (nSize - i)) (\<lambda>b. rd_return (v @ b))"
proof (induction nSize i v rule: bytes_blocks.induct)
  case (1 nSize i v)
  define blk where "blk = min (nSize - i) (1 + 4999999)"
  show ?case
  proof (cases "i < nSize")
    case True
    have IH: "bytes_blocks nSize (i + blk) (v @ b) = rd_bind (stream_read (nSize - (i + blk))) (\<lambda>c. rd_return ((v @ b) @ c))" for b
      using 1(1) [OF True blk_def] True by (simp add: blk_def del: rd_basic)
    have "nSize - i = blk + (nSize - (i + blk))" using True by (simp add: blk_def)
    then have "stream_read (nSize - i) = rd_bind (stream_read blk) (\<lambda>b. rd_bind (stream_read (nSize - (i + blk))) (\<lambda>c. rd_return (b @ c)))"
      by (simp only: stream_read_add [symmetric])
    then show ?thesis using True
      by (subst bytes_blocks.simps) (simp only: Let_def IH rd_bind_assoc rd_bind_return append_assoc if_True flip: blk_def)
  next
    case False
    with 1(2) show ?thesis by (subst bytes_blocks.simps) (simp add: rd_bind_eq fun_eq_iff stream_read_def)
  qed
qed

lemma Unserialize_bytes_eq: "Unserialize_bytes = rd_bind read_size stream_read"
  by (simp add: Unserialize_bytes_def bytes_blocks_eq)

interpretation byte_vector: strict_codec Serialize_bytes Unserialize_bytes "\<lambda>v. length v \<le> MAX_SIZE"
  by unfold_locales
    (auto simp: Serialize_bytes_def Unserialize_bytes_eq bind_read_size rd_bind_Inr_iff read_size_iff stream_read_Inr)

lemma Unserialize_string_eq: "Unserialize_string = Unserialize_bytes"
proof -
  have "(if n \<noteq> 0 then stream_read n else rd_return []) = stream_read n" for n
    by (auto simp: stream_read_def fun_eq_iff)
  then show ?thesis unfolding Unserialize_string_def Unserialize_bytes_eq by simp
qed

lemma vector_codec:
  assumes "codec ser unser ok"
  shows "codec (Serialize_vector ser) (Unserialize_vector unser) (\<lambda>v. length v \<le> MAX_SIZE \<and> (\<forall>x\<in>set v. ok x))"
  by (rule codec.intro)
    (simp add: Serialize_vector_def Unserialize_vector_def bind_read_size codec.read_n_back [OF assms])

lemma vector_strict_codec:
  assumes "strict_codec ser unser ok"
  shows "strict_codec (Serialize_vector ser) (Unserialize_vector unser) (\<lambda>v. length v \<le> MAX_SIZE \<and> (\<forall>x\<in>set v. ok x))"
proof (intro strict_codec.intro strict_codec_axioms.intro vector_codec)
  show "codec ser unser ok" using assms by (rule strict_codec.axioms)
  fix s v r
  assume "Unserialize_vector unser s = Inr (v, r)"
  then show "(length v \<le> MAX_SIZE \<and> (\<forall>x\<in>set v. ok x)) \<and> s = Serialize_vector ser v @ r"
    by (auto simp: Unserialize_vector_def Serialize_vector_def rd_bind_Inr_iff read_size_iff
        strict_codec.read_n_iff [OF assms])
qed

lemma optional_codec:
  assumes "codec ser unser ok"
  shows "codec (Serialize_optional ser) (Unserialize_optional unser) (\<lambda>x. \<forall>y. x = Some y \<longrightarrow> ok y)"
  by (rule codec.intro)
    (auto simp: Serialize_optional_def Unserialize_optional_def ser8.bind_read_back codec.bind_read_back [OF assms]
      split: option.splits)

lemma pair_codec:
  assumes "codec ser1 unser1 ok1" "codec ser2 unser2 ok2"
  shows "codec (Serialize_pair ser1 ser2) (Unserialize_pair unser1 unser2) (\<lambda>(x, y). ok1 x \<and> ok2 y)"
  by (rule codec.intro)
    (auto simp: Serialize_pair_def Unserialize_pair_def codec.bind_read_back [OF assms(1)] codec.bind_read_back [OF assms(2)])

section \<open>Properties\<close>

text \<open>
  C33. The encoding of sizes is canonical: the reader accepts exactly the writer's encodings of the sizes
  up to \<open>MAX_SIZE\<close>, whatever follows them in the stream, and rejects every longer encoding, every
  larger size and every truncated input; and an encoding has the length \<open>GetSizeOfCompactSize\<close>
  computes.
\<close>

theorem compact_size_canonical:
  "(ReadCompactSize s = Inr (n, r) \<longleftrightarrow> unat n \<le> MAX_SIZE \<and> s = WriteCompactSize n @ r) \<and>
   length (WriteCompactSize m) = GetSizeOfCompactSize m"
  by (simp add: csize.read_iff)
    (simp add: WriteCompactSize_def GetSizeOfCompactSize_def ser_writedata8_def ser_writedata16_def ser_writedata32_def
      ser_writedata64_def)

text \<open>
  C34. Variable-length integers of every width are read back from what was written, whatever follows
  them; the encoding has the length \<open>GetSizeOfVarInt\<close> computes, and fits the buffer of
  \<open>(8 * sizeof(n) + 6) / 7\<close> bytes that the writing loop fills.
\<close>

theorem varint_roundtrip:
  fixes n :: "'a::len word"
  shows "ReadVarInt (WriteVarInt n @ r) = Inr (n, r) \<and>
    length (WriteVarInt n) = GetSizeOfVarInt n \<and> length (varint_tmp n 0) \<le> (LENGTH('a) + 6) div 7"
proof -
  have "0 < LENGTH('a)" by (rule len_gt_0)
  then have "LENGTH('a) \<le> 7 * ((LENGTH('a) + 6) div 7)" "0 < (LENGTH('a) + 6) div 7" by linarith+
  moreover from this(1) have "(2::nat) ^ LENGTH('a) \<le> 2 ^ (7 * ((LENGTH('a) + 6) div 7))"
    by (rule power_increasing) simp
  with unsigned_less [of n, where 'a = nat] have "unat n < 2 ^ (7 * ((LENGTH('a) + 6) div 7))"
    by (rule order_less_le_trans)
  ultimately have "GetSizeOfVarInt n \<le> (LENGTH('a) + 6) div 7" by (intro GetSizeOfVarInt_le)
  then show ?thesis using varint.read_back [of n r] length_WriteVarInt [of n] by (simp add: WriteVarInt_def)
qed

text \<open>
  Reading a vector in batches, as the code does to bound what a bogus size can make it allocate,
  reads the same values, leaves the same rest and throws the same failures as reading the elements one
  after the other.
\<close>

theorem vector_batches_irrelevant:
  "0 < batch \<Longrightarrow> Unserialize_vector_batched batch u s = Unserialize_vector u s"
  by (simp add: Unserialize_vector_batched_eq)

lemma read_n_numeral:
  "read_n (numeral k) u = rd_bind u (\<lambda>x. rd_bind (read_n (pred_numeral k) u) (\<lambda>xs. rd_return (x # xs)))"
  by (simp add: numeral_eq_Suc)

theorem vector_batches_irrelevant_witness:
  "Unserialize_vector_batched 2 ser_readdata8 [3, 7, 8, 9, 1] = Inr ([7, 8, 9], [1])"
  by (subst vector_batches_irrelevant)
    (simp_all add: Unserialize_vector_def read_size_def ReadCompactSize_def ser_readdata8_def rd_bind_def stream_read_def
      read_n_numeral)

text \<open>
  The comment on variable-length integers promises exactly one encoding of every integer. The reader
  does not check for overflow, so a second byte sequence reads as zero; and a negative \<open>int\<close> is
  written as its lowest seven bits.
\<close>

lemma varint_tmp_cases:
  "n \<le> 0x7F \<Longrightarrow> varint_tmp n len = [ucast (n AND 0x7F) OR (if len \<noteq> 0 then 0x80 else 0)]"
  "\<not> n \<le> 0x7F \<Longrightarrow> varint_tmp n len =
     (ucast (n AND 0x7F) OR (if len \<noteq> 0 then 0x80 else 0)) # varint_tmp (drop_bit 7 n - 1) (len + 1)"
  by (subst varint_tmp.simps, simp)+

lemma varint_second_encoding:
  "ReadVarInt (WriteVarInt (2 ^ 32 :: u64)) = Inr (0 :: u32, [])" "ReadVarInt (WriteVarInt (0 :: u32)) = Inr (0 :: u32, [])"
  "WriteVarInt_int (- 1) = WriteVarInt_int 127"
  by (simp_all add: ReadVarInt_def WriteVarInt_def varint_tmp_cases WriteVarInt_int_def)

end
