(* ===== verification/Transaction.thy ===== *)
theory Transaction
  imports Serialize Script Hash "HOL-Library.List_Lexorder"
begin

text \<open>
  \<^verbatim>\<open>src/primitives/transaction.h\<close>, \<^verbatim>\<open>src/primitives/transaction.cpp\<close> and the proof
  formats of \<^verbatim>\<open>src/zcash/Proof.hpp\<close>: outpoints, inputs, outputs, the shielded parts and the
  three formats of a transaction, with their serialisation. A \<open>uint256\<close> is its 32 bytes, a
  \<open>CAmount\<close> the integer it stands for. A transaction object that is read into keeps the fields the
  format does not store, so \<open>tx_Unserialize\<close> takes that object as an argument. The interpretations
  of \<open>strict_codec\<close> show of each part that the reader accepts exactly what the writer produces.
\<close>

type_synonym uint256 = bytes
type_synonym CAmount = int

abbreviation uint256_null :: uint256 where
  "uint256_null \<equiv> replicate 32 0"

text \<open>The value an \<open>int64_t\<close> computation leaves.\<close>

definition wrap64 :: "int \<Rightarrow> int" where
  "wrap64 x = sint (word_of_int x :: u64)"

definition in64 :: "int \<Rightarrow> bool" where
  "in64 x \<longleftrightarrow> - (2 ^ 63) \<le> x \<and> x < 2 ^ 63"

definition ser_int64 :: "int \<Rightarrow> bytes" where
  "ser_int64 a = ser_writedata64 (word_of_int a)"

definition unser_int64 :: "int reader" where
  "unser_int64 = rd_bind ser_readdata64 (\<lambda>n. rd_return (sint n))"

section \<open>Outpoints, inputs and outputs\<close>

datatype COutPoint = COutPoint (op_hash: uint256) (op_n: u32)

definition outpoint_null :: COutPoint where
  "outpoint_null = COutPoint uint256_null (- 1)"

definition outpoint_IsNull :: "COutPoint \<Rightarrow> bool" where
  "outpoint_IsNull p \<longleftrightarrow> (\<forall>b\<in>set (op_hash p). b = 0) \<and> op_n p = - 1"

definition outpoint_less :: "COutPoint \<Rightarrow> COutPoint \<Rightarrow> bool" where
  "outpoint_less a b \<longleftrightarrow> op_hash a < op_hash b \<or> (op_hash a = op_hash b \<and> op_n a < op_n b)"

instantiation COutPoint :: linorder
begin

definition less_COutPoint :: "COutPoint \<Rightarrow> COutPoint \<Rightarrow> bool" where
  "less_COutPoint = outpoint_less"

definition less_eq_COutPoint :: "COutPoint \<Rightarrow> COutPoint \<Rightarrow> bool" where
  "less_eq_COutPoint a b \<longleftrightarrow> outpoint_less a b \<or> a = b"

instance
  by standard
    (auto simp: less_COutPoint_def less_eq_COutPoint_def outpoint_less_def not_less, metis COutPoint.expand order_le_less)

end

definition outpoint_Serialize :: "COutPoint \<Rightarrow> bytes" where
  "outpoint_Serialize p = op_hash p @ ser_writedata32 (op_n p)"

definition outpoint_Unserialize :: "COutPoint reader" where
  "outpoint_Unserialize = rd_bind (stream_read 32) (\<lambda>hash. rd_bind ser_readdata32 (\<lambda>n. rd_return (COutPoint hash n)))"

record CTxIn =
  prevout :: COutPoint
  scriptSig :: script
  nSequence :: u32

definition txin_IsFinal :: "CTxIn \<Rightarrow> bool" where
  "txin_IsFinal i \<longleftrightarrow> nSequence i = - 1"

definition txin_Serialize :: "CTxIn \<Rightarrow> bytes" where
  "txin_Serialize i = outpoint_Serialize (prevout i) @ Serialize_bytes (scriptSig i) @ ser_writedata32 (nSequence i)"

definition txin_Unserialize :: "CTxIn reader" where
  "txin_Unserialize =
     rd_bind outpoint_Unserialize (\<lambda>p. rd_bind Unserialize_bytes (\<lambda>sc. rd_bind ser_readdata32 (\<lambda>n.
       rd_return \<lparr>prevout = p, scriptSig = sc, nSequence = n\<rparr>)))"

record CTxOut =
  nValue :: CAmount
  scriptPubKey :: script

definition txout_null :: CTxOut where
  "txout_null = \<lparr>nValue = - 1, scriptPubKey = []\<rparr>"

definition txout_IsNull :: "CTxOut \<Rightarrow> bool" where
  "txout_IsNull t \<longleftrightarrow> nValue t = - 1"

definition txout_Serialize :: "CTxOut \<Rightarrow> bytes" where
  "txout_Serialize t = ser_int64 (nValue t) @ Serialize_bytes (scriptPubKey t)"

definition txout_Unserialize :: "CTxOut reader" where
  "txout_Unserialize =
     rd_bind unser_int64 (\<lambda>v. rd_bind Unserialize_bytes (\<lambda>sc. rd_return \<lparr>nValue = v, scriptPubKey = sc\<rparr>))"

section \<open>Fees and dust\<close>

text \<open>
  \<open>CFeeRate\<close> of \<^verbatim>\<open>src/amount.cpp\<close>. The product of the signed rate and the unsigned size
  is taken in \<open>uint64_t\<close>, and so is the quotient.
\<close>

record CFeeRate =
  nSatoshisPerK :: CAmount

definition CFeeRate_of :: "CAmount \<Rightarrow> nat \<Rightarrow> CFeeRate" where
  "CFeeRate_of nFeePaid nSize =
     \<lparr>nSatoshisPerK =
        (if nSize > 0 then sint ((word_of_int (wrap64 (nFeePaid * 1000)) :: u64) div of_nat nSize) else 0)\<rparr>"

definition GetFee :: "CFeeRate \<Rightarrow> nat \<Rightarrow> CAmount" where
  "GetFee r nSize =
     (let nFee = sint ((word_of_int (nSatoshisPerK r) :: u64) * of_nat nSize div 1000)
      in if nFee = 0 \<and> nSatoshisPerK r > 0 then nSatoshisPerK r else nFee)"

definition GetDustThreshold :: "CTxOut \<Rightarrow> CFeeRate \<Rightarrow> CAmount" where
  "GetDustThreshold t minRelayTxFee =
     (if IsUnspendable (scriptPubKey t) then 0
      else let nSize = length (txout_Serialize t) + 148 in wrap64 (3 * GetFee minRelayTxFee nSize))"

definition IsDust :: "CTxOut \<Rightarrow> CFeeRate \<Rightarrow> bool" where
  "IsDust t minRelayTxFee \<longleftrightarrow> nValue t < GetDustThreshold t minRelayTxFee"

section \<open>Shielded spends and outputs\<close>

abbreviation GROTH_PROOF_SIZE :: nat where
  "GROTH_PROOF_SIZE \<equiv> 192"

abbreviation ZC_NUM_JS_INPUTS :: nat where
  "ZC_NUM_JS_INPUTS \<equiv> 2"

abbreviation ZC_NUM_JS_OUTPUTS :: nat where
  "ZC_NUM_JS_OUTPUTS \<equiv> 2"

abbreviation ZC_SAPLING_ENCCIPHERTEXT_SIZE :: nat where
  "ZC_SAPLING_ENCCIPHERTEXT_SIZE \<equiv> 580"

abbreviation ZC_SAPLING_OUTCIPHERTEXT_SIZE :: nat where
  "ZC_SAPLING_OUTCIPHERTEXT_SIZE \<equiv> 80"

abbreviation ZC_NOTECIPHERTEXT_SIZE :: nat where
  "ZC_NOTECIPHERTEXT_SIZE \<equiv> 601"

record SpendDescription =
  sd_cv :: uint256
  sd_anchor :: uint256
  sd_nullifier :: uint256
  sd_rk :: uint256
  sd_zkproof :: bytes
  sd_spendAuthSig :: bytes

definition spend_Serialize :: "SpendDescription \<Rightarrow> bytes" where
  "spend_Serialize d =
     sd_cv d @ sd_anchor d @ sd_nullifier d @ sd_rk d @ sd_zkproof d @ sd_spendAuthSig d"

definition spend_Unserialize :: "SpendDescription reader" where
  "spend_Unserialize =
     rd_bind (stream_read 32) (\<lambda>cv. rd_bind (stream_read 32) (\<lambda>an. rd_bind (stream_read 32) (\<lambda>nf.
     rd_bind (stream_read 32) (\<lambda>rk. rd_bind (stream_read GROTH_PROOF_SIZE) (\<lambda>zk. rd_bind (stream_read 64) (\<lambda>sg.
       rd_return \<lparr>sd_cv = cv, sd_anchor = an, sd_nullifier = nf, sd_rk = rk, sd_zkproof = zk, sd_spendAuthSig = sg\<rparr>))))))"

definition spend_ok :: "SpendDescription \<Rightarrow> bool" where
  "spend_ok d \<longleftrightarrow> length (sd_cv d) = 32 \<and> length (sd_anchor d) = 32 \<and> length (sd_nullifier d) = 32 \<and>
     length (sd_rk d) = 32 \<and> length (sd_zkproof d) = GROTH_PROOF_SIZE \<and> length (sd_spendAuthSig d) = 64"

record OutputDescription =
  od_cv :: uint256
  od_cm :: uint256
  od_ephemeralKey :: uint256
  od_encCiphertext :: bytes
  od_outCiphertext :: bytes
  od_zkproof :: bytes

definition output_Serialize :: "OutputDescription \<Rightarrow> bytes" where
  "output_Serialize d =
     od_cv d @ od_cm d @ od_ephemeralKey d @ od_encCiphertext d @ od_outCiphertext d @ od_zkproof d"

definition output_Unserialize :: "OutputDescription reader" where
  "output_Unserialize =
     rd_bind (stream_read 32) (\<lambda>cv. rd_bind (stream_read 32) (\<lambda>cm. rd_bind (stream_read 32) (\<lambda>ek.
     rd_bind (stream_read ZC_SAPLING_ENCCIPHERTEXT_SIZE) (\<lambda>ec. rd_bind (stream_read ZC_SAPLING_OUTCIPHERTEXT_SIZE) (\<lambda>oc.
     rd_bind (stream_read GROTH_PROOF_SIZE) (\<lambda>zk.
       rd_return \<lparr>od_cv = cv, od_cm = cm, od_ephemeralKey = ek, od_encCiphertext = ec, od_outCiphertext = oc,
         od_zkproof = zk\<rparr>))))))"

definition output_ok :: "OutputDescription \<Rightarrow> bool" where
  "output_ok d \<longleftrightarrow> length (od_cv d) = 32 \<and> length (od_cm d) = 32 \<and> length (od_ephemeralKey d) = 32 \<and>
     length (od_encCiphertext d) = ZC_SAPLING_ENCCIPHERTEXT_SIZE \<and>
     length (od_outCiphertext d) = ZC_SAPLING_OUTCIPHERTEXT_SIZE \<and> length (od_zkproof d) = GROTH_PROOF_SIZE"

section \<open>JoinSplits\<close>

text \<open>
  A compressed point is the byte \<open>G1_PREFIX_MASK\<close> or \<open>G2_PREFIX_MASK\<close>, with the lowest bit
  for the choice of the second coordinate, and the first coordinate.
\<close>

record compressed_point =
  pt_y :: bool
  pt_x :: bytes

definition point_Serialize :: "u8 \<Rightarrow> compressed_point \<Rightarrow> bytes" where
  "point_Serialize pfx p = ser_writedata8 (if pt_y p then pfx OR 1 else pfx) @ pt_x p"

definition point_Unserialize :: "u8 \<Rightarrow> nat \<Rightarrow> compressed_point reader" where
  "point_Unserialize pfx n =
     rd_bind ser_readdata8 (\<lambda>leadingByte.
       if leadingByte AND NOT 1 \<noteq> pfx then rd_fail LeadByte
       else rd_bind (stream_read n) (\<lambda>x. rd_return \<lparr>pt_y = (leadingByte AND 1 \<noteq> 0), pt_x = x\<rparr>))"

abbreviation G1_PREFIX_MASK :: u8 where
  "G1_PREFIX_MASK \<equiv> 0x02"

abbreviation G2_PREFIX_MASK :: u8 where
  "G2_PREFIX_MASK \<equiv> 0x0a"

record PHGRProof =
  g_A :: compressed_point
  g_A_prime :: compressed_point
  g_B :: compressed_point
  g_B_prime :: compressed_point
  g_C :: compressed_point
  g_C_prime :: compressed_point
  g_K :: compressed_point
  g_H :: compressed_point

definition phgr_Serialize :: "PHGRProof \<Rightarrow> bytes" where
  "phgr_Serialize p =
     point_Serialize G1_PREFIX_MASK (g_A p) @ point_Serialize G1_PREFIX_MASK (g_A_prime p) @
     point_Serialize G2_PREFIX_MASK (g_B p) @ point_Serialize G1_PREFIX_MASK (g_B_prime p) @
     point_Serialize G1_PREFIX_MASK (g_C p) @ point_Serialize G1_PREFIX_MASK (g_C_prime p) @
     point_Serialize G1_PREFIX_MASK (g_K p) @ point_Serialize G1_PREFIX_MASK (g_H p)"

definition phgr_Unserialize :: "PHGRProof reader" where
  "phgr_Unserialize =
     rd_bind (point_Unserialize G1_PREFIX_MASK 32) (\<lambda>a. rd_bind (point_Unserialize G1_PREFIX_MASK 32) (\<lambda>a'.
     rd_bind (point_Unserialize G2_PREFIX_MASK 64) (\<lambda>b. rd_bind (point_Unserialize G1_PREFIX_MASK 32) (\<lambda>b'.
     rd_bind (point_Unserialize G1_PREFIX_MASK 32) (\<lambda>c. rd_bind (point_Unserialize G1_PREFIX_MASK 32) (\<lambda>c'.
     rd_bind (point_Unserialize G1_PREFIX_MASK 32) (\<lambda>k. rd_bind (point_Unserialize G1_PREFIX_MASK 32) (\<lambda>h.
       rd_return \<lparr>g_A = a, g_A_prime = a', g_B = b, g_B_prime = b', g_C = c, g_C_prime = c', g_K = k, g_H = h\<rparr>))))))))"

definition phgr_ok :: "PHGRProof \<Rightarrow> bool" where
  "phgr_ok p \<longleftrightarrow> length (pt_x (g_B p)) = 64 \<and>
     (\<forall>q\<in>{g_A p, g_A_prime p, g_B_prime p, g_C p, g_C_prime p, g_K p, g_H p}. length (pt_x q) = 32)"

datatype SproutProof = Phgr PHGRProof | Groth bytes

text \<open>The visitor throws when the proof is not of the kind the transaction format has.\<close>

definition proof_Serialize :: "bool \<Rightarrow> SproutProof \<Rightarrow> ser_error + bytes" where
  "proof_Serialize useGroth p =
     (case p of Phgr q \<Rightarrow> if useGroth then Inl WrongProofType else Inr (phgr_Serialize q)
      | Groth q \<Rightarrow> if \<not> useGroth then Inl WrongProofType else Inr q)"

definition proof_Unserialize :: "bool \<Rightarrow> SproutProof reader" where
  "proof_Unserialize useGroth =
     (if useGroth then rd_bind (stream_read GROTH_PROOF_SIZE) (\<lambda>q. rd_return (Groth q))
      else rd_bind phgr_Unserialize (\<lambda>q. rd_return (Phgr q)))"

definition proof_ok :: "bool \<Rightarrow> SproutProof \<Rightarrow> bool" where
  "proof_ok useGroth p \<longleftrightarrow>
     (case p of Phgr q \<Rightarrow> \<not> useGroth \<and> phgr_ok q | Groth q \<Rightarrow> useGroth \<and> length q = GROTH_PROOF_SIZE)"

record JSDescription =
  vpub_old :: CAmount
  vpub_new :: CAmount
  js_anchor :: uint256
  js_nullifiers :: "uint256 list"
  js_commitments :: "uint256 list"
  js_ephemeralKey :: uint256
  js_ciphertexts :: "bytes list"
  js_randomSeed :: uint256
  js_macs :: "uint256 list"
  js_proof :: SproutProof

definition js_Serialize :: "bool \<Rightarrow> JSDescription \<Rightarrow> ser_error + bytes" where
  "js_Serialize useGroth j =
     res_bind (proof_Serialize useGroth (js_proof j)) (\<lambda>pr.
       Inr (ser_int64 (vpub_old j) @ ser_int64 (vpub_new j) @ js_anchor j @
            Serialize_array (\<lambda>b. b) (js_nullifiers j) @ Serialize_array (\<lambda>b. b) (js_commitments j) @
            js_ephemeralKey j @ js_randomSeed j @ Serialize_array (\<lambda>b. b) (js_macs j) @ pr @
            Serialize_array (\<lambda>b. b) (js_ciphertexts j)))"

definition js_Unserialize :: "bool \<Rightarrow> JSDescription reader" where
  "js_Unserialize useGroth =
     rd_bind unser_int64 (\<lambda>vo. rd_bind unser_int64 (\<lambda>vn. rd_bind (stream_read 32) (\<lambda>an.
     rd_bind (Unserialize_array ZC_NUM_JS_INPUTS (stream_read 32)) (\<lambda>nf.
     rd_bind (Unserialize_array ZC_NUM_JS_OUTPUTS (stream_read 32)) (\<lambda>cm.
     rd_bind (stream_read 32) (\<lambda>ek. rd_bind (stream_read 32) (\<lambda>rs.
     rd_bind (Unserialize_array ZC_NUM_JS_INPUTS (stream_read 32)) (\<lambda>mc.
     rd_bind (proof_Unserialize useGroth) (\<lambda>pr.
     rd_bind (Unserialize_array ZC_NUM_JS_OUTPUTS (stream_read ZC_NOTECIPHERTEXT_SIZE)) (\<lambda>ct.
       rd_return \<lparr>vpub_old = vo, vpub_new = vn, js_anchor = an, js_nullifiers = nf, js_commitments = cm,
         js_ephemeralKey = ek, js_ciphertexts = ct, js_randomSeed = rs, js_macs = mc, js_proof = pr\<rparr>))))))))))"

definition js_ok :: "bool \<Rightarrow> JSDescription \<Rightarrow> bool" where
  "js_ok useGroth j \<longleftrightarrow> in64 (vpub_old j) \<and> in64 (vpub_new j) \<and> length (js_anchor j) = 32 \<and>
     length (js_nullifiers j) = ZC_NUM_JS_INPUTS \<and> length (js_commitments j) = ZC_NUM_JS_OUTPUTS \<and>
     length (js_macs j) = ZC_NUM_JS_INPUTS \<and> length (js_ciphertexts j) = ZC_NUM_JS_OUTPUTS \<and>
     (\<forall>b\<in>set (js_nullifiers j) \<union> set (js_commitments j) \<union> set (js_macs j). length b = 32) \<and>
     (\<forall>b\<in>set (js_ciphertexts j). length b = ZC_NOTECIPHERTEXT_SIZE) \<and>
     length (js_ephemeralKey j) = 32 \<and> length (js_randomSeed j) = 32 \<and> proof_ok useGroth (js_proof j)"

section \<open>Transactions\<close>

abbreviation OVERWINTER_VERSION_GROUP_ID :: u32 where
  "OVERWINTER_VERSION_GROUP_ID \<equiv> 0x03C48270"

abbreviation SAPLING_VERSION_GROUP_ID :: u32 where
  "SAPLING_VERSION_GROUP_ID \<equiv> 0x892F2085"

abbreviation OVERWINTER_TX_VERSION :: int where
  "OVERWINTER_TX_VERSION \<equiv> 3"

abbreviation SAPLING_TX_VERSION :: int where
  "SAPLING_TX_VERSION \<equiv> 4"

record CMutableTransaction =
  fOverwintered :: bool
  nVersion :: int
  nVersionGroupId :: u32
  vin :: "CTxIn list"
  vout :: "CTxOut list"
  nLockTime :: u32
  nExpiryHeight :: u32
  valueBalance :: CAmount
  vShieldedSpend :: "SpendDescription list"
  vShieldedOutput :: "OutputDescription list"
  vjoinsplit :: "JSDescription list"
  joinSplitPubKey :: uint256
  joinSplitSig :: bytes
  bindingSig :: bytes

text \<open>The default constructor.\<close>

definition tx_default :: CMutableTransaction where
  "tx_default =
     \<lparr>fOverwintered = False, nVersion = 1, nVersionGroupId = 0, vin = [], vout = [], nLockTime = 0,
      nExpiryHeight = 0, valueBalance = 0, vShieldedSpend = [], vShieldedOutput = [], vjoinsplit = [],
      joinSplitPubKey = uint256_null, joinSplitSig = replicate 64 0, bindingSig = replicate 64 0\<rparr>"

definition GetHeader :: "CMutableTransaction \<Rightarrow> u32" where
  "GetHeader tx = (let header = word_of_int (nVersion tx) in if fOverwintered tx then header OR push_bit 31 1 else header)"

definition isOverwinterV3 :: "CMutableTransaction \<Rightarrow> bool" where
  "isOverwinterV3 tx \<longleftrightarrow>
     fOverwintered tx \<and> nVersionGroupId tx = OVERWINTER_VERSION_GROUP_ID \<and> nVersion tx = OVERWINTER_TX_VERSION"

definition isSaplingV4 :: "CMutableTransaction \<Rightarrow> bool" where
  "isSaplingV4 tx \<longleftrightarrow>
     fOverwintered tx \<and> nVersionGroupId tx = SAPLING_VERSION_GROUP_ID \<and> nVersion tx = SAPLING_TX_VERSION"

text \<open>The joinsplits are serialised with the header as the version of the stream.\<close>

definition useGroth :: "u32 \<Rightarrow> bool" where
  "useGroth header \<longleftrightarrow> bit header 31 \<and> sint (header AND 0x7FFFFFFF) \<ge> SAPLING_TX_VERSION"

fun js_vector_body :: "bool \<Rightarrow> JSDescription list \<Rightarrow> ser_error + bytes" where
  "js_vector_body g [] = Inr []"
| "js_vector_body g (j # js) = res_bind (js_Serialize g j) (\<lambda>b. res_bind (js_vector_body g js) (\<lambda>bs. Inr (b @ bs)))"

definition tx_Serialize :: "CMutableTransaction \<Rightarrow> ser_error + bytes" where
  "tx_Serialize tx =
     (if fOverwintered tx \<and> \<not> (isOverwinterV3 tx \<or> isSaplingV4 tx) then Inl UnknownTransactionFormat
      else res_bind (if nVersion tx \<ge> 2
                     then res_bind (js_vector_body (useGroth (GetHeader tx)) (vjoinsplit tx))
                            (\<lambda>b. Inr (WriteCompactSize (of_nat (length (vjoinsplit tx))) @ b))
                     else Inr [])
        (\<lambda>js. Inr
          (ser_writedata32 (GetHeader tx) @
           (if fOverwintered tx then ser_writedata32 (nVersionGroupId tx) else []) @
           Serialize_vector txin_Serialize (vin tx) @ Serialize_vector txout_Serialize (vout tx) @
           ser_writedata32 (nLockTime tx) @
           (if isOverwinterV3 tx \<or> isSaplingV4 tx then ser_writedata32 (nExpiryHeight tx) else []) @
           (if isSaplingV4 tx
            then ser_int64 (valueBalance tx) @ Serialize_vector spend_Serialize (vShieldedSpend tx) @
                 Serialize_vector output_Serialize (vShieldedOutput tx)
            else []) @
           js @
           (if nVersion tx \<ge> 2 \<and> length (vjoinsplit tx) > 0 then joinSplitPubKey tx @ joinSplitSig tx else []) @
           (if isSaplingV4 tx \<and> \<not> (vShieldedSpend tx = [] \<and> vShieldedOutput tx = []) then bindingSig tx else []))))"

text \<open>Reading a field or, when the format does not have it, keeping the object's.\<close>

definition rd_when :: "bool \<Rightarrow> 'a reader \<Rightarrow> 'a \<Rightarrow> 'a reader" where
  "rd_when c u x = (if c then u else rd_return x)"

definition tx_read_header :: "CMutableTransaction \<Rightarrow> (u32 \<times> CMutableTransaction) reader" where
  "tx_read_header tx0 =
     rd_bind ser_readdata32 (\<lambda>header.
     let tx1 = tx0\<lparr>fOverwintered := bit header 31, nVersion := sint (header AND 0x7FFFFFFF)\<rparr>
     in rd_bind (rd_when (fOverwintered tx1) ser_readdata32 (nVersionGroupId tx1)) (\<lambda>g.
     let tx = tx1\<lparr>nVersionGroupId := g\<rparr>
     in if fOverwintered tx \<and> \<not> (isOverwinterV3 tx \<or> isSaplingV4 tx) then rd_fail UnknownTransactionFormat
        else rd_return (header, tx)))"

definition tx_read_transparent :: "CMutableTransaction \<Rightarrow> CMutableTransaction reader" where
  "tx_read_transparent tx =
     rd_bind (Unserialize_vector txin_Unserialize) (\<lambda>i. rd_bind (Unserialize_vector txout_Unserialize) (\<lambda>out.
     rd_bind ser_readdata32 (\<lambda>lt. rd_bind (rd_when (isOverwinterV3 tx \<or> isSaplingV4 tx) ser_readdata32 (nExpiryHeight tx)) (\<lambda>ex.
       rd_return (tx\<lparr>vin := i, vout := out, nLockTime := lt, nExpiryHeight := ex\<rparr>)))))"

definition tx_read_sapling :: "CMutableTransaction \<Rightarrow> CMutableTransaction reader" where
  "tx_read_sapling tx =
     rd_bind (rd_when (isSaplingV4 tx) unser_int64 (valueBalance tx)) (\<lambda>vb.
     rd_bind (rd_when (isSaplingV4 tx) (Unserialize_vector spend_Unserialize) (vShieldedSpend tx)) (\<lambda>sp.
     rd_bind (rd_when (isSaplingV4 tx) (Unserialize_vector output_Unserialize) (vShieldedOutput tx)) (\<lambda>out.
       rd_return (tx\<lparr>valueBalance := vb, vShieldedSpend := sp, vShieldedOutput := out\<rparr>))))"

definition tx_read_joinsplits :: "u32 \<Rightarrow> CMutableTransaction \<Rightarrow> CMutableTransaction reader" where
  "tx_read_joinsplits header tx =
     rd_bind (rd_when (nVersion tx \<ge> 2) (Unserialize_vector (js_Unserialize (useGroth header))) (vjoinsplit tx)) (\<lambda>js.
     let c = nVersion tx \<ge> 2 \<and> length js > 0
     in rd_bind (rd_when c (stream_read 32) (joinSplitPubKey tx)) (\<lambda>pk. rd_bind (rd_when c (stream_read 64) (joinSplitSig tx)) (\<lambda>sg.
       rd_return (tx\<lparr>vjoinsplit := js, joinSplitPubKey := pk, joinSplitSig := sg\<rparr>))))"

definition tx_read_binding :: "CMutableTransaction \<Rightarrow> CMutableTransaction reader" where
  "tx_read_binding tx =
     rd_bind (rd_when (isSaplingV4 tx \<and> \<not> (vShieldedSpend tx = [] \<and> vShieldedOutput tx = [])) (stream_read 64) (bindingSig tx))
       (\<lambda>sg. rd_return (tx\<lparr>bindingSig := sg\<rparr>))"

definition tx_Unserialize :: "CMutableTransaction \<Rightarrow> CMutableTransaction reader" where
  "tx_Unserialize tx0 =
     rd_bind (tx_read_header tx0) (\<lambda>(header, tx1). rd_bind (tx_read_transparent tx1) (\<lambda>tx2. rd_bind (tx_read_sapling tx2) (\<lambda>tx3.
     rd_bind (tx_read_joinsplits header tx3) tx_read_binding)))"

text \<open>
  The immutable transaction caches its hash, the double SHA-256 of its serialisation. The constructor
  that moves from a \<open>CMutableTransaction\<close> lists every member but \<open>bindingSig\<close>, which keeps
  its default; the deserialising constructor goes through it.
\<close>

definition SerializeHash :: "bytes \<Rightarrow> sha256_error + bytes" where
  "SerializeHash obj = CHashWriter_GetHash (CHashWriter_write CSHA256_init obj)"

definition tx_GetHash :: "CMutableTransaction \<Rightarrow> ser_error + (sha256_error + bytes)" where
  "tx_GetHash tx = res_bind (tx_Serialize tx) (\<lambda>b. Inr (SerializeHash b))"

record CTransaction =
  ct_tx :: CMutableTransaction
  ct_hash :: "sha256_error + uint256"

definition CTransaction_copy :: "CMutableTransaction \<Rightarrow> ser_error + CTransaction" where
  "CTransaction_copy tx = res_bind (tx_GetHash tx) (\<lambda>h. Inr \<lparr>ct_tx = tx, ct_hash = h\<rparr>)"

definition CTransaction_move :: "CMutableTransaction \<Rightarrow> ser_error + CTransaction" where
  "CTransaction_move tx =
     (let tx' = tx\<lparr>bindingSig := bindingSig tx_default\<rparr>
      in res_bind (tx_GetHash tx') (\<lambda>h. Inr \<lparr>ct_tx = tx', ct_hash = h\<rparr>))"

definition CTransaction_deserialize :: "CTransaction reader" where
  "CTransaction_deserialize =
     rd_bind (tx_Unserialize tx_default) (\<lambda>tx s. res_bind (CTransaction_move tx) (\<lambda>ct. Inr (ct, s)))"

definition CTransaction_Unserialize :: "CMutableTransaction \<Rightarrow> CTransaction reader" where
  "CTransaction_Unserialize tx0 =
     rd_bind (tx_Unserialize tx0) (\<lambda>tx s. res_bind (CTransaction_copy tx) (\<lambda>ct. Inr (ct, s)))"

definition tx_IsNull :: "CMutableTransaction \<Rightarrow> bool" where
  "tx_IsNull tx \<longleftrightarrow> vin tx = [] \<and> vout tx = []"

definition tx_IsCoinBase :: "CMutableTransaction \<Rightarrow> bool" where
  "tx_IsCoinBase tx \<longleftrightarrow> length (vin tx) = 1 \<and> outpoint_IsNull (prevout (vin tx ! 0))"

text \<open>The literal \<open>10e8\<close> is ten times \<open>10 ^ 8\<close>.\<close>

definition tx_IsCoinImport :: "CMutableTransaction \<Rightarrow> bool" where
  "tx_IsCoinImport tx \<longleftrightarrow> length (vin tx) = 1 \<and> unat (op_n (prevout (vin tx ! 0))) = 1000000000"

definition tx_IsMint :: "CMutableTransaction \<Rightarrow> bool" where
  "tx_IsMint tx \<longleftrightarrow> tx_IsCoinImport tx \<or> tx_IsCoinBase tx"

section \<open>Values and sizes\<close>

text \<open>\<open>MAX_MONEY\<close> is a global variable that the chain's parameters set: an argument here.\<close>

definition MoneyRange :: "CAmount \<Rightarrow> CAmount \<Rightarrow> bool" where
  "MoneyRange MAX_MONEY v \<longleftrightarrow> v \<ge> 0 \<and> v \<le> MAX_MONEY"

text \<open>The loop that adds amounts and throws, as \<open>None\<close>, when one or the sum leaves the range.\<close>

fun add_amounts :: "CAmount \<Rightarrow> CAmount list \<Rightarrow> CAmount \<Rightarrow> CAmount option" where
  "add_amounts MAX_MONEY [] acc = Some acc"
| "add_amounts MAX_MONEY (v # vs) acc =
     (let acc' = wrap64 (acc + v)
      in if \<not> MoneyRange MAX_MONEY v \<or> \<not> MoneyRange MAX_MONEY acc' then None else add_amounts MAX_MONEY vs acc')"

definition GetValueOut :: "CAmount \<Rightarrow> CMutableTransaction \<Rightarrow> CAmount option" where
  "GetValueOut MAX_MONEY tx =
     Option.bind (add_amounts MAX_MONEY (map nValue (vout tx)) 0) (\<lambda>v.
     Option.bind (if valueBalance tx \<le> 0 then add_amounts MAX_MONEY [wrap64 (- valueBalance tx)] v else Some v) (\<lambda>v'.
     add_amounts MAX_MONEY (map vpub_old (vjoinsplit tx)) v'))"

definition GetShieldedValueIn :: "CAmount \<Rightarrow> CMutableTransaction \<Rightarrow> CAmount option" where
  "GetShieldedValueIn MAX_MONEY tx =
     Option.bind (if valueBalance tx \<ge> 0 then add_amounts MAX_MONEY [valueBalance tx] 0 else Some 0) (\<lambda>v.
     add_amounts MAX_MONEY (map vpub_new (vjoinsplit tx)) v)"

definition CalculateModifiedSize :: "CMutableTransaction \<Rightarrow> nat \<Rightarrow> ser_error + nat" where
  "CalculateModifiedSize tx nTxSize =
     res_bind (if nTxSize = 0 then res_bind (tx_Serialize tx) (\<lambda>b. Inr (length b)) else Inr nTxSize) (\<lambda>n.
       Inr (foldl (\<lambda>n i. let offset = 41 + min 110 (length (scriptSig i)) in if n > offset then n - offset else n) n (vin tx)))"

definition GetTotalSize :: "CMutableTransaction \<Rightarrow> ser_error + nat" where
  "GetTotalSize tx = res_bind (tx_Serialize tx) (\<lambda>b. Inr (length b))"

end
