(* ===== verification/Block.thy ===== *)
theory Block
  imports Transaction
begin

text \<open>
  \<^verbatim>\<open>src/primitives/block.h\<close>, \<^verbatim>\<open>src/primitives/block.cpp\<close> and
  \<^verbatim>\<open>src/consensus/merkle.cpp\<close>: block headers and blocks with their serialisation and hash, and
  the two routines that compute the Merkle root of a block, with the branches that lead to it. Counts
  of leaves and positions among them, kept in \<open>int\<close> by the code, are natural numbers; the index
  given to \<open>CheckMerkleBranch\<close>, which may be negative, is an integer.
\<close>

section \<open>Headers and blocks\<close>

record CBlockHeader =
  bh_nVersion :: u32
  bh_hashPrevBlock :: uint256
  bh_hashMerkleRoot :: uint256
  bh_hashFinalSaplingRoot :: uint256
  bh_nTime :: u32
  bh_nBits :: u32
  bh_nNonce :: uint256
  bh_nSolution :: bytes

definition header_null :: CBlockHeader where
  "header_null =
     \<lparr>bh_nVersion = 4, bh_hashPrevBlock = uint256_null, bh_hashMerkleRoot = uint256_null, bh_hashFinalSaplingRoot = uint256_null,
      bh_nTime = 0, bh_nBits = 0, bh_nNonce = uint256_null, bh_nSolution = []\<rparr>"

definition header_IsNull :: "CBlockHeader \<Rightarrow> bool" where
  "header_IsNull h \<longleftrightarrow> bh_nBits h = 0"

text \<open>What Equihash is run on: the header without the nonce and the solution.\<close>

definition equihash_Serialize :: "CBlockHeader \<Rightarrow> bytes" where
  "equihash_Serialize h =
     ser_writedata32 (bh_nVersion h) @ bh_hashPrevBlock h @ bh_hashMerkleRoot h @ bh_hashFinalSaplingRoot h @
     ser_writedata32 (bh_nTime h) @ ser_writedata32 (bh_nBits h)"

definition header_Serialize :: "CBlockHeader \<Rightarrow> bytes" where
  "header_Serialize h =
     ser_writedata32 (bh_nVersion h) @ bh_hashPrevBlock h @ bh_hashMerkleRoot h @ bh_hashFinalSaplingRoot h @
     ser_writedata32 (bh_nTime h) @ ser_writedata32 (bh_nBits h) @ bh_nNonce h @ Serialize_bytes (bh_nSolution h)"

definition header_Unserialize :: "CBlockHeader reader" where
  "header_Unserialize =
     rd_bind ser_readdata32 (\<lambda>nVersion.
     rd_bind (stream_read 32) (\<lambda>hashPrevBlock.
     rd_bind (stream_read 32) (\<lambda>hashMerkleRoot.
     rd_bind (stream_read 32) (\<lambda>hashFinalSaplingRoot.
     rd_bind ser_readdata32 (\<lambda>nTime.
     rd_bind ser_readdata32 (\<lambda>nBits.
     rd_bind (stream_read 32) (\<lambda>nNonce.
     rd_bind Unserialize_bytes (\<lambda>nSolution.
       rd_return \<lparr>bh_nVersion = nVersion, bh_hashPrevBlock = hashPrevBlock, bh_hashMerkleRoot = hashMerkleRoot,
                  bh_hashFinalSaplingRoot = hashFinalSaplingRoot, bh_nTime = nTime, bh_nBits = nBits, bh_nNonce = nNonce,
                  bh_nSolution = nSolution\<rparr>))))))))"

definition header_GetHash :: "CBlockHeader \<Rightarrow> sha256_error + uint256" where
  "header_GetHash h = SerializeHash (header_Serialize h)"

text \<open>The block keeps the tree over its transactions once it was built; it is not serialised.\<close>

record CBlock =
  b_header :: CBlockHeader
  b_vtx :: "CTransaction list"
  b_vMerkleTree :: "uint256 list"

definition block_of_header :: "CBlockHeader \<Rightarrow> CBlock" where
  "block_of_header h = \<lparr>b_header = h, b_vtx = [], b_vMerkleTree = []\<rparr>"

fun txs_Serialize :: "CTransaction list \<Rightarrow> ser_error + bytes" where
  "txs_Serialize [] = Inr []"
| "txs_Serialize (tx # vtx) = res_bind (tx_Serialize (ct_tx tx)) (\<lambda>b. res_bind (txs_Serialize vtx) (\<lambda>bs. Inr (b @ bs)))"

definition block_Serialize :: "CBlock \<Rightarrow> ser_error + bytes" where
  "block_Serialize b =
     res_bind (txs_Serialize (b_vtx b)) (\<lambda>txs.
       Inr (header_Serialize (b_header b) @ WriteCompactSize (of_nat (length (b_vtx b))) @ txs))"

text \<open>The object that is read into keeps the tree it has.\<close>

definition block_Unserialize :: "CBlock \<Rightarrow> CBlock reader" where
  "block_Unserialize b =
     rd_bind header_Unserialize (\<lambda>h.
     rd_bind (Unserialize_vector (CTransaction_Unserialize tx_default)) (\<lambda>vtx.
       rd_return (b\<lparr>b_header := h, b_vtx := vtx\<rparr>)))"

text \<open>The ids of a block's transactions: a transaction object holds its hash, which never raises.\<close>

definition txids :: "CTransaction list \<Rightarrow> uint256 list" where
  "txids vtx = map (\<lambda>tx. projr (ct_hash tx)) vtx"

section \<open>The Merkle tree in one vector\<close>

text \<open>\<open>Hash\<close> of two ranges never raises (\<open>Hash_results\<close>).\<close>

definition hash2 :: "uint256 \<Rightarrow> uint256 \<Rightarrow> uint256" where
  "hash2 l r = projr (Hash2 l r)"

text \<open>One level: the nodes from \<open>j\<close> on, \<open>nSize\<close> of them, are hashed in pairs.\<close>

function build_level :: "uint256 list \<Rightarrow> nat \<Rightarrow> nat \<Rightarrow> nat \<Rightarrow> bool \<Rightarrow> uint256 list \<times> bool" where
  "build_level vMerkleTree j nSize i mutated =
     (if i < nSize then
        let i2 = min (i + 1) (nSize - 1)
        in build_level (vMerkleTree @ [hash2 (vMerkleTree ! (j + i)) (vMerkleTree ! (j + i2))]) j nSize (i + 2)
             (mutated \<or> (i2 = i + 1 \<and> i2 + 1 = nSize \<and> vMerkleTree ! (j + i) = vMerkleTree ! (j + i2)))
      else (vMerkleTree, mutated))"
  by auto
termination
  by (relation "measure (\<lambda>(_, _, nSize, i, _). nSize - i)") auto

function build_levels :: "uint256 list \<Rightarrow> nat \<Rightarrow> nat \<Rightarrow> bool \<Rightarrow> uint256 list \<times> bool" where
  "build_levels vMerkleTree j nSize mutated =
     (if nSize > 1 then
        case build_level vMerkleTree j nSize 0 mutated of
          (vMerkleTree', mutated') \<Rightarrow> build_levels vMerkleTree' (j + nSize) ((nSize + 1) div 2) mutated'
      else (vMerkleTree, mutated))"
  by auto
termination
  by (relation "measure (\<lambda>(_, _, nSize, _). nSize)") auto

declare build_level.simps [simp del] build_levels.simps [simp del]

text \<open>The root, whether the leaves were changed by repeating some at the end, and the tree.\<close>

definition BuildMerkleTree :: "uint256 list \<Rightarrow> uint256 \<times> bool \<times> uint256 list" where
  "BuildMerkleTree leaves =
     (case build_levels leaves 0 (length leaves) False of
        (vMerkleTree, mutated) \<Rightarrow> (if vMerkleTree = [] then uint256_null else last vMerkleTree, mutated, vMerkleTree))"

definition block_BuildMerkleTree :: "CBlock \<Rightarrow> (uint256 \<times> bool) \<times> CBlock" where
  "block_BuildMerkleTree b =
     (case BuildMerkleTree (txids (b_vtx b)) of (root, mutated, tree) \<Rightarrow> ((root, mutated), b\<lparr>b_vMerkleTree := tree\<rparr>))"

function GetMerkleBranch :: "nat \<Rightarrow> nat \<Rightarrow> nat \<Rightarrow> uint256 list \<Rightarrow> uint256 list" where
  "GetMerkleBranch nIndex nSize j vMerkleTree =
     (if nSize > 1 then
        vMerkleTree ! (j + min (nIndex XOR 1) (nSize - 1)) #
          GetMerkleBranch (nIndex div 2) ((nSize + 1) div 2) (j + nSize) vMerkleTree
      else [])"
  by auto
termination
  by (relation "measure (\<lambda>(_, nSize, _, _). nSize)") auto

declare GetMerkleBranch.simps [simp del]

definition block_GetMerkleBranch :: "CBlock \<Rightarrow> nat \<Rightarrow> uint256 list \<times> CBlock" where
  "block_GetMerkleBranch b nIndex =
     (let b' = if b_vMerkleTree b = [] then snd (block_BuildMerkleTree b) else b
      in (GetMerkleBranch nIndex (length (b_vtx b')) 0 (b_vMerkleTree b'), b'))"

fun branch_fold :: "uint256 \<Rightarrow> uint256 list \<Rightarrow> int \<Rightarrow> uint256" where
  "branch_fold h [] nIndex = h"
| "branch_fold h (it # vMerkleBranch) nIndex =
     branch_fold (if odd nIndex then hash2 it h else hash2 h it) vMerkleBranch (nIndex div 2)"

definition CheckMerkleBranch :: "uint256 \<Rightarrow> uint256 list \<Rightarrow> int \<Rightarrow> uint256" where
  "CheckMerkleBranch h vMerkleBranch nIndex = (if nIndex = -1 then uint256_null else branch_fold h vMerkleBranch nIndex)"

section \<open>The Merkle root without the tree\<close>

fun any_pair_equal :: "uint256 list \<Rightarrow> bool" where
  "any_pair_equal (a # b # hashes) \<longleftrightarrow> a = b \<or> any_pair_equal hashes"
| "any_pair_equal _ \<longleftrightarrow> False"

text \<open>
  The hashes lie in one stretch of memory; \<open>SHA256D64\<close> writes its output over the beginning of it,
  never ahead of what it still has to read.
\<close>

definition hash_level :: "uint256 list \<Rightarrow> uint256 list" where
  "hash_level hashes =
     (let out = SHA256D64 (concat hashes) (length hashes div 2)
      in map (\<lambda>i. take 32 (drop (32 * i) out)) [0..<length hashes div 2])"

function compute_root :: "bool \<Rightarrow> bool \<Rightarrow> uint256 list \<Rightarrow> uint256 \<times> bool" where
  "compute_root mutated mutation hashes =
     (if length hashes > 1 then
        compute_root mutated (mutation \<or> (mutated \<and> any_pair_equal hashes))
          (hash_level (if odd (length hashes) then hashes @ [last hashes] else hashes))
      else (if hashes = [] then uint256_null else hd hashes, mutation))"
  by auto
termination
  by (relation "measure (\<lambda>(_, _, hashes). length hashes)") (auto simp: hash_level_def Let_def, presburger)

declare compute_root.simps [simp del]

text \<open>The argument \<open>mutated\<close> is whether the caller asks for the flag.\<close>

definition ComputeMerkleRoot :: "uint256 list \<Rightarrow> bool \<Rightarrow> uint256 \<times> bool" where
  "ComputeMerkleRoot hashes mutated = compute_root mutated False hashes"

definition BlockMerkleRoot :: "CBlock \<Rightarrow> bool \<Rightarrow> uint256 \<times> bool" where
  "BlockMerkleRoot b mutated = ComputeMerkleRoot (txids (b_vtx b)) mutated"

end
