(* ===== verification/MerkleBlock.thy ===== *)
theory MerkleBlock
  imports Block
begin

text \<open>
  \<open>CPartialMerkleTree\<close> of \<^verbatim>\<open>src/merkleblock.h\<close> and \<^verbatim>\<open>src/merkleblock.cpp\<close>: the part of a block's
  Merkle tree that proves some transactions to be in the block, as a depth-first sequence of flags and
  hashes. The number of transactions, which a peer sends, is a 32-bit word, and so is the width of a
  level; a position in a level is a natural number, since it stays below the width.
\<close>

section \<open>Limits\<close>

text \<open>The height from which Sapling is active is a chain parameter.\<close>

definition MAX_BLOCK_SIZE :: "int \<Rightarrow> int \<Rightarrow> int" where
  "MAX_BLOCK_SIZE saplinght height =
     (if height \<le> 0 \<or> saplinght > 0 \<and> height \<ge> saplinght then 4096 * 1024 else 2000000)"

section \<open>The tree\<close>

record CPartialMerkleTree =
  nTransactions :: u32
  vBits :: "bool list"
  vHash :: "uint256 list"
  fBad :: bool

definition CalcTreeWidth :: "u32 \<Rightarrow> nat \<Rightarrow> u32" where
  "CalcTreeWidth n height = drop_bit height (n + push_bit height 1 - 1)"

lemma drop_bit_gt_1: "drop_bit h (w :: u32) > 1 \<Longrightarrow> h < 31"
proof -
  assume "drop_bit h w > 1"
  then have "unat w div 2 ^ h \<ge> 2" unfolding unat_drop_bit [symmetric] by (simp add: word_less_nat_alt)
  then have "2 ^ Suc h \<le> unat w" by (simp add: less_eq_div_iff_mult_less_eq)
  also have "unat w < 2 ^ 32" using unsigned_less [of w] by simp
  finally have "(2 :: nat) ^ Suc h < 2 ^ 32" .
  then have "Suc h < 32" by (simp only: power_strict_increasing_iff)
  then show ?thesis by simp
qed

text \<open>The loop that finds the height of the tree ends: a 32-bit width is at most one from level 31 on.\<close>

function calc_height :: "u32 \<Rightarrow> nat \<Rightarrow> nat" where
  "calc_height n nHeight = (if CalcTreeWidth n nHeight > 1 then calc_height n (nHeight + 1) else nHeight)"
  by auto
termination
  by (relation "measure (\<lambda>(n, nHeight). 31 - nHeight)") (auto simp: CalcTreeWidth_def dest!: drop_bit_gt_1)

declare calc_height.simps [simp del]

fun CalcHash :: "u32 \<Rightarrow> nat \<Rightarrow> nat \<Rightarrow> uint256 list \<Rightarrow> uint256" where
  "CalcHash n 0 pos vTxid = vTxid ! pos"
| "CalcHash n (Suc height) pos vTxid =
     (let left = CalcHash n height (pos * 2) vTxid;
          right = (if pos * 2 + 1 < unat (CalcTreeWidth n height) then CalcHash n height (pos * 2 + 1) vTxid else left)
      in hash2 left right)"

text \<open>Is some matched transaction below the node?\<close>

definition parent_of_match :: "u32 \<Rightarrow> nat \<Rightarrow> nat \<Rightarrow> bool list \<Rightarrow> bool" where
  "parent_of_match n height pos vMatch \<longleftrightarrow>
     list_ex (\<lambda>p. vMatch ! p) [push_bit height pos..<min (push_bit height (pos + 1)) (unat n)]"

fun TraverseAndBuild :: "CPartialMerkleTree \<Rightarrow> nat \<Rightarrow> nat \<Rightarrow> uint256 list \<Rightarrow> bool list \<Rightarrow> CPartialMerkleTree" where
  "TraverseAndBuild t 0 pos vTxid vMatch =
     t\<lparr>vBits := vBits t @ [parent_of_match (nTransactions t) 0 pos vMatch],
       vHash := vHash t @ [CalcHash (nTransactions t) 0 pos vTxid]\<rparr>"
| "TraverseAndBuild t (Suc height) pos vTxid vMatch =
     (let t1 = t\<lparr>vBits := vBits t @ [parent_of_match (nTransactions t) (Suc height) pos vMatch]\<rparr>
      in if \<not> parent_of_match (nTransactions t) (Suc height) pos vMatch
         then t1\<lparr>vHash := vHash t1 @ [CalcHash (nTransactions t) (Suc height) pos vTxid]\<rparr>
         else let t2 = TraverseAndBuild t1 height (pos * 2) vTxid vMatch
              in if pos * 2 + 1 < unat (CalcTreeWidth (nTransactions t) height)
                 then TraverseAndBuild t2 height (pos * 2 + 1) vTxid vMatch else t2)"

definition CPartialMerkleTree_of :: "uint256 list \<Rightarrow> bool list \<Rightarrow> CPartialMerkleTree" where
  "CPartialMerkleTree_of vTxid vMatch =
     (let t = \<lparr>nTransactions = of_nat (length vTxid), vBits = [], vHash = [], fBad = False\<rparr>
      in TraverseAndBuild t (calc_height (nTransactions t) 0) 0 vTxid vMatch)"

definition pmt_default :: CPartialMerkleTree where
  "pmt_default = \<lparr>nTransactions = 0, vBits = [], vHash = [], fBad = True\<rparr>"

section \<open>Extraction\<close>

text \<open>What the traversal changes: the two counters, the matches found so far and the flag.\<close>

record extraction =
  x_nBitsUsed :: nat
  x_nHashUsed :: nat
  x_vMatch :: "uint256 list"
  x_fBad :: bool

text \<open>A node whose hash was stored.\<close>

definition take_hash :: "CPartialMerkleTree \<Rightarrow> bool \<Rightarrow> extraction \<Rightarrow> uint256 \<times> extraction" where
  "take_hash t matched x =
     (if x_nHashUsed x \<ge> length (vHash t) then (uint256_null, x\<lparr>x_fBad := True\<rparr>)
      else let h = vHash t ! x_nHashUsed x
           in (h, x\<lparr>x_nHashUsed := x_nHashUsed x + 1, x_vMatch := x_vMatch x @ (if matched then [h] else [])\<rparr>))"

fun TraverseAndExtract :: "CPartialMerkleTree \<Rightarrow> nat \<Rightarrow> nat \<Rightarrow> extraction \<Rightarrow> uint256 \<times> extraction" where
  "TraverseAndExtract t 0 pos x =
     (if x_nBitsUsed x \<ge> length (vBits t) then (uint256_null, x\<lparr>x_fBad := True\<rparr>)
      else take_hash t (vBits t ! x_nBitsUsed x) (x\<lparr>x_nBitsUsed := x_nBitsUsed x + 1\<rparr>))"
| "TraverseAndExtract t (Suc height) pos x =
     (if x_nBitsUsed x \<ge> length (vBits t) then (uint256_null, x\<lparr>x_fBad := True\<rparr>)
      else if \<not> vBits t ! x_nBitsUsed x then take_hash t False (x\<lparr>x_nBitsUsed := x_nBitsUsed x + 1\<rparr>)
      else case TraverseAndExtract t height (pos * 2) (x\<lparr>x_nBitsUsed := x_nBitsUsed x + 1\<rparr>) of
             (left, x1) \<Rightarrow>
               if pos * 2 + 1 < unat (CalcTreeWidth (nTransactions t) height)
               then case TraverseAndExtract t height (pos * 2 + 1) x1 of
                      (right, x2) \<Rightarrow> (hash2 left right, if right = left then x2\<lparr>x_fBad := True\<rparr> else x2)
               else (hash2 left left, x1))"

text \<open>The root, null on failure, with the matches and the flag that stays in the object.\<close>

definition ExtractMatches :: "int \<Rightarrow> CPartialMerkleTree \<Rightarrow> uint256 \<times> uint256 list \<times> CPartialMerkleTree" where
  "ExtractMatches saplinght t =
     (if nTransactions t = 0 then (uint256_null, [], t)
      else if int (unat (nTransactions t)) > MAX_BLOCK_SIZE saplinght 10000000 div 60 then (uint256_null, [], t)
      else if length (vHash t) > unat (nTransactions t) then (uint256_null, [], t)
      else if length (vBits t) < length (vHash t) then (uint256_null, [], t)
      else case TraverseAndExtract t (calc_height (nTransactions t) 0) 0
                  \<lparr>x_nBitsUsed = 0, x_nHashUsed = 0, x_vMatch = [], x_fBad = fBad t\<rparr> of
             (hashMerkleRoot, x) \<Rightarrow>
               (if x_fBad x then uint256_null
                else if (x_nBitsUsed x + 7) div 8 \<noteq> (length (vBits t) + 7) div 8 then uint256_null
                else if x_nHashUsed x \<noteq> length (vHash t) then uint256_null
                else hashMerkleRoot, x_vMatch x, t\<lparr>fBad := x_fBad x\<rparr>))"

section \<open>The format\<close>

fun pack_byte :: "nat \<Rightarrow> bool list \<Rightarrow> u8" where
  "pack_byte p [] = 0"
| "pack_byte p (b # bs) = push_bit p (if b then 1 else 0) OR pack_byte (p + 1) bs"

definition pack_bits :: "bool list \<Rightarrow> bytes" where
  "pack_bits bits = map (\<lambda>i. pack_byte 0 (take 8 (drop (8 * i) bits))) [0..<(length bits + 7) div 8]"

definition unpack_bits :: "bytes \<Rightarrow> bool list" where
  "unpack_bits vBytes = map (\<lambda>p. vBytes ! (p div 8) AND push_bit (p mod 8) 1 \<noteq> 0) [0..<length vBytes * 8]"

definition pmt_Serialize :: "CPartialMerkleTree \<Rightarrow> bytes" where
  "pmt_Serialize t =
     ser_writedata32 (nTransactions t) @ Serialize_vector (\<lambda>h. h) (vHash t) @ Serialize_bytes (pack_bits (vBits t))"

definition pmt_Unserialize :: "CPartialMerkleTree reader" where
  "pmt_Unserialize =
     rd_bind ser_readdata32 (\<lambda>n.
     rd_bind (Unserialize_vector (stream_read 32)) (\<lambda>hashes.
     rd_bind Unserialize_bytes (\<lambda>vBytes.
       rd_return \<lparr>nTransactions = n, vBits = unpack_bits vBytes, vHash = hashes, fBad = False\<rparr>)))"

section \<open>Filtered blocks\<close>

text \<open>\<open>CMerkleBlock\<close>; the list of matched transactions is kept for tests only and not sent.\<close>

record CMerkleBlock =
  mb_header :: CBlockHeader
  mb_txn :: CPartialMerkleTree

definition CMerkleBlock_of_txids :: "CBlock \<Rightarrow> uint256 list \<Rightarrow> CMerkleBlock" where
  "CMerkleBlock_of_txids b ids =
     (let vHashes = txids (b_vtx b)
      in \<lparr>mb_header = b_header b, mb_txn = CPartialMerkleTree_of vHashes (map (\<lambda>h. h \<in> set ids) vHashes)\<rparr>)"

definition merkleblock_Serialize :: "CMerkleBlock \<Rightarrow> bytes" where
  "merkleblock_Serialize mb = header_Serialize (mb_header mb) @ pmt_Serialize (mb_txn mb)"

definition merkleblock_Unserialize :: "CMerkleBlock reader" where
  "merkleblock_Unserialize =
     rd_bind header_Unserialize (\<lambda>h. rd_bind pmt_Unserialize (\<lambda>t. rd_return \<lparr>mb_header = h, mb_txn = t\<rparr>))"

end
