(* ===== verification/BlockMerkle.thy ===== *)
theory BlockMerkle
  imports Block
begin

text \<open>
  The Merkle tree of a block as a sequence of levels, each the pairwise hash of the one below. The
  vector \<open>BuildMerkleTree\<close> fills holds these levels one after the other, \<open>ComputeMerkleRoot\<close> walks
  through them, and branches pick one node of each. What is hashed on the way is collected, so that
  statements about collisions name the inputs they are about.
\<close>

section \<open>The tree as levels\<close>

text \<open>A level is hashed in pairs; a last node without partner is paired with itself.\<close>

lemma hash2_eq: "hash2 l r = fips_sha256 (fips_sha256 (l @ r))"
  by (simp add: hash2_def Hash_results)

lemma length_hash2 [simp]: "length (hash2 l r) = 32"
  by (simp add: hash2_eq length_fips_sha256)

abbreviation dsha :: "bytes \<Rightarrow> uint256" where
  "dsha m \<equiv> projr (Hash1 m)"

lemma hash2_dsha: "hash2 a b = dsha (a @ b)"
  by (simp add: hash2_eq Hash_results)

fun level_up :: "uint256 list \<Rightarrow> uint256 list" where
  "level_up [] = []"
| "level_up [a] = [hash2 a a]"
| "level_up (a # b # xs) = hash2 a b # level_up xs"

lemma length_level_up [simp]: "length (level_up xs) = (length xs + 1) div 2"
  by (induction xs rule: level_up.induct) auto

lemma level_up_Nil_iff [simp]: "level_up xs = [] \<longleftrightarrow> xs = []"
  by (cases xs rule: level_up.cases) auto

text \<open>What is hashed for it.\<close>

fun pairs :: "uint256 list \<Rightarrow> bytes list" where
  "pairs [] = []"
| "pairs [a] = [a @ a]"
| "pairs (a # b # xs) = (a @ b) # pairs xs"

lemma length_pairs [simp]: "length (pairs xs) = (length xs + 1) div 2"
  by (induction xs rule: pairs.induct) auto

lemma level_up_pairs: "level_up xs = map dsha (pairs xs)"
  by (induction xs rule: pairs.induct) (simp_all add: hash2_dsha)

lemma pairs_nth: "k < length (pairs xs) \<Longrightarrow> pairs xs ! k = xs ! (2 * k) @ xs ! (min (2 * k + 1) (length xs - 1))"
proof (induction xs arbitrary: k rule: pairs.induct)
  case (3 a b xs)
  show ?case
  proof (cases k)
    case (Suc k')
    with 3 have k': "k' < length (pairs xs)" by simp
    then have "xs \<noteq> []" by auto
    then have "min (2 * k + 1) (length (a # b # xs) - 1) = Suc (Suc (min (2 * k' + 1) (length xs - 1)))"
      by (simp add: Suc min_def) linarith
    with 3(1) [OF k'] show ?thesis by (simp add: Suc)
  qed simp
qed auto

function merkle_root :: "uint256 list \<Rightarrow> uint256" where
  "merkle_root xs = (if length xs > 1 then merkle_root (level_up xs) else if xs = [] then uint256_null else hd xs)"
  by auto
termination
  by (relation "measure length") auto

function mutated_end :: "uint256 list \<Rightarrow> bool" where
  "mutated_end xs \<longleftrightarrow>
     (if length xs > 1 then even (length xs) \<and> xs ! (length xs - 2) = xs ! (length xs - 1) \<or> mutated_end (level_up xs) else False)"
  by auto
termination
  by (relation "measure length") auto

function mutated_any :: "uint256 list \<Rightarrow> bool" where
  "mutated_any xs \<longleftrightarrow> (if length xs > 1 then any_pair_equal xs \<or> mutated_any (level_up xs) else False)"
  by auto
termination
  by (relation "measure length") auto

function tree_nodes :: "uint256 list \<Rightarrow> uint256 list" where
  "tree_nodes xs = xs @ (if length xs > 1 then tree_nodes (level_up xs) else [])"
  by auto
termination
  by (relation "measure length") auto

declare merkle_root.simps [simp del] mutated_end.simps [simp del] mutated_any.simps [simp del] tree_nodes.simps [simp del]

section \<open>The tree in one vector holds the levels\<close>

lemma build_level_eq:
  assumes "length pre = j" "length xs = nSize" "even i" "i \<le> nSize + 1"
  shows "build_level (pre @ xs @ post) j nSize i m =
    (pre @ xs @ post @ level_up (drop i xs), m \<or> i < nSize \<and> even nSize \<and> xs ! (nSize - 2) = xs ! (nSize - 1))"
  using assms(3,4)
proof (induction "nSize + 2 - i" arbitrary: i post m rule: less_induct)
  case less
  show ?case
  proof (cases "i < nSize")
    case False
    then have "drop i xs = []" using assms(2) by simp
    with False show ?thesis by (subst build_level.simps) simp
  next
    case True
    let ?vt = "pre @ xs @ post" and ?i2 = "min (i + 1) (nSize - 1)"
    have at: "?vt ! (j + k) = xs ! k" if "k < nSize" for k
      using that assms(1,2) by (simp add: nth_append)
    have n: "?vt ! (j + i) = xs ! i" "?vt ! (j + ?i2) = xs ! ?i2" using True at by simp_all
    have "build_level ?vt j nSize i m =
        build_level (pre @ xs @ (post @ [hash2 (xs ! i) (xs ! ?i2)])) j nSize (i + 2) (m \<or> (?i2 = i + 1 \<and> ?i2 + 1 = nSize \<and> xs ! i = xs ! ?i2))"
      using True by (subst build_level.simps) (simp add: Let_def n [simplified])
    also have "\<dots> = (pre @ xs @ (post @ [hash2 (xs ! i) (xs ! ?i2)]) @ level_up (drop (i + 2) xs),
        (m \<or> (?i2 = i + 1 \<and> ?i2 + 1 = nSize \<and> xs ! i = xs ! ?i2)) \<or> i + 2 < nSize \<and> even nSize \<and> xs ! (nSize - 2) = xs ! (nSize - 1))"
      by (rule less.hyps) (use True less.prems in auto)
    finally have step: "build_level ?vt j nSize i m = (pre @ xs @ (post @ [hash2 (xs ! i) (xs ! ?i2)]) @ level_up (drop (i + 2) xs),
        (m \<or> (?i2 = i + 1 \<and> ?i2 + 1 = nSize \<and> xs ! i = xs ! ?i2)) \<or> i + 2 < nSize \<and> even nSize \<and> xs ! (nSize - 2) = xs ! (nSize - 1))" .
    have nodes: "(post @ [hash2 (xs ! i) (xs ! ?i2)]) @ level_up (drop (i + 2) xs) = post @ level_up (drop i xs)"
    proof (cases "i + 1 < nSize")
      case True
      then have "drop i xs = xs ! i # xs ! (i + 1) # drop (i + 2) xs" using assms(2) by (simp add: Cons_nth_drop_Suc)
      moreover have "?i2 = i + 1" using True by simp
      ultimately show ?thesis by simp
    next
      case False
      with \<open>i < nSize\<close> have "nSize = i + 1" by simp
      moreover from this have "drop i xs = [xs ! i]" using assms(2) by (simp add: Cons_nth_drop_Suc [symmetric])
      ultimately show ?thesis using assms(2) by simp
    qed
    have flag: "(m \<or> (?i2 = i + 1 \<and> ?i2 + 1 = nSize \<and> xs ! i = xs ! ?i2)) \<or> i + 2 < nSize \<and> even nSize \<and> xs ! (nSize - 2) = xs ! (nSize - 1)
        \<longleftrightarrow> m \<or> i < nSize \<and> even nSize \<and> xs ! (nSize - 2) = xs ! (nSize - 1)"
    proof -
      consider "nSize = i + 1" | "nSize = i + 2" | "i + 2 < nSize" using True by linarith
      then show ?thesis using less.prems by cases auto
    qed
    then show ?thesis using True unfolding step nodes flag by simp
  qed
qed

lemma build_levels_eq:
  assumes "length pre = j" "length xs = nSize"
  shows "build_levels (pre @ xs) j nSize m = (pre @ tree_nodes xs, m \<or> mutated_end xs)"
  using assms
proof (induction xs arbitrary: pre j nSize m rule: tree_nodes.induct)
  case (1 xs)
  show ?case
  proof (cases "length xs > 1")
    case True
    have "build_level (pre @ xs) j nSize 0 m = ((pre @ xs) @ level_up xs, m \<or> even nSize \<and> xs ! (nSize - 2) = xs ! (nSize - 1))"
      using build_level_eq [OF 1(2,3), of 0 "[]" m] True 1(3) by simp
    moreover have "length (level_up xs) = (nSize + 1) div 2" using 1(3) by simp
    ultimately show ?thesis using True 1(1) [OF True, of "pre @ xs" "j + nSize" "(nSize + 1) div 2"] 1(2,3)
      by (subst build_levels.simps, subst tree_nodes.simps, subst mutated_end.simps) auto
  next
    case False
    with 1(3) show ?thesis by (subst build_levels.simps, subst tree_nodes.simps, subst mutated_end.simps) simp
  qed
qed

lemma tree_nodes_root: "xs \<noteq> [] \<Longrightarrow> tree_nodes xs \<noteq> [] \<and> last (tree_nodes xs) = merkle_root xs"
proof (induction xs rule: tree_nodes.induct)
  case (1 xs)
  show ?case
  proof (cases "length xs > 1")
    case True
    then have "level_up xs \<noteq> []" by auto
    with 1(1) [OF True] True show ?thesis by (subst (1 2) tree_nodes.simps, subst merkle_root.simps) (simp add: last_append)
  next
    case False
    with 1(2) show ?thesis by (subst (1 2) tree_nodes.simps, subst merkle_root.simps) (cases xs; auto)
  qed
qed

lemma BuildMerkleTree_eq: "BuildMerkleTree xs = (merkle_root xs, mutated_end xs, tree_nodes xs)"
proof (cases "xs = []")
  case True
  then show ?thesis
    by (simp add: BuildMerkleTree_def build_levels.simps [of "[]" 0 0] merkle_root.simps [of "[]"] mutated_end.simps [of "[]"] tree_nodes.simps [of "[]"])
next
  case False
  then show ?thesis using build_levels_eq [of "[]" 0 xs "length xs" False] tree_nodes_root [OF False]
    by (simp add: BuildMerkleTree_def)
qed

section \<open>Branches\<close>

lemma pair_of:
  assumes "i < length xs" "length xs > 1"
  shows "pairs xs ! (i div 2) =
    (if odd (int i) then xs ! min (i XOR 1) (length xs - 1) @ xs ! i else xs ! i @ xs ! min (i XOR 1) (length xs - 1))"
proof -
  have k: "i div 2 < length (pairs xs)" using assms by simp
  show ?thesis
  proof (cases "odd i")
    case True
    then have "i XOR 1 = i - 1" "2 * (i div 2) = i - 1" "2 * (i div 2) + 1 = i" by (auto simp: xor_Suc_0_eq elim: oddE)
    with True assms show ?thesis unfolding pairs_nth [OF k] by simp
  next
    case False
    then have "i XOR 1 = i + 1" "2 * (i div 2) = i" by (auto simp: xor_Suc_0_eq elim: oddE)
    with False show ?thesis unfolding pairs_nth [OF k] by simp
  qed
qed

lemma branch_step:
  assumes "length pre = j" "length xs = nSize" "i < nSize" "length xs > 1"
  shows "GetMerkleBranch i nSize j (pre @ tree_nodes xs) =
    xs ! min (i XOR 1) (nSize - 1) # GetMerkleBranch (i div 2) ((nSize + 1) div 2) (j + nSize) ((pre @ xs) @ tree_nodes (level_up xs))"
proof -
  have "min (i XOR 1) (nSize - 1) < length xs" using assms by auto
  then show ?thesis using assms by (subst GetMerkleBranch.simps, subst (1 2) tree_nodes.simps) (simp add: nth_append)
qed

lemma branch_leads_to_root:
  assumes "length pre = j" "length xs = nSize" "i < nSize"
  shows "branch_fold (xs ! i) (GetMerkleBranch i nSize j (pre @ tree_nodes xs)) (int i) = merkle_root xs"
  using assms
proof (induction xs arbitrary: pre j nSize i rule: tree_nodes.induct)
  case (1 xs)
  show ?case
  proof (cases "length xs > 1")
    case True
    note br = branch_step [OF 1(2-4) True]
    have st: "(if odd (int i) then hash2 (xs ! min (i XOR 1) (nSize - 1)) (xs ! i) else hash2 (xs ! i) (xs ! min (i XOR 1) (nSize - 1)))
        = level_up xs ! (i div 2)"
      using pair_of [of i xs] True 1(3,4) by (simp add: level_up_pairs hash2_dsha)
    have "branch_fold (xs ! i) (GetMerkleBranch i nSize j (pre @ tree_nodes xs)) (int i) =
        branch_fold (level_up xs ! (i div 2)) (GetMerkleBranch (i div 2) ((nSize + 1) div 2) (j + nSize) ((pre @ xs) @ tree_nodes (level_up xs))) (int (i div 2))"
      unfolding br branch_fold.simps st by (simp add: zdiv_int)
    also have "\<dots> = merkle_root (level_up xs)" by (rule 1(1) [OF True]) (use 1(2-4) in auto)
    also have "\<dots> = merkle_root xs" using True by (subst (2) merkle_root.simps) simp
    finally show ?thesis .
  next
    case False
    with 1(3,4) obtain x where x: "xs = [x]" "nSize = 1" "i = 0" by (cases xs) auto
    have "GetMerkleBranch 0 1 j v = []" for v by (subst GetMerkleBranch.simps) simp
    moreover have "merkle_root [x] = x" by (subst merkle_root.simps) simp
    ultimately show ?thesis by (simp add: x)
  qed
qed

section \<open>The root without the tree\<close>

lemma pairs_even: "even (length xs) \<Longrightarrow> pairs xs = map (\<lambda>i. xs ! (2 * i) @ xs ! (2 * i + 1)) [0..<length xs div 2]"
proof (rule nth_equalityI)
  fix i assume "even (length xs)" "i < length (pairs xs)"
  then have "min (2 * i + 1) (length xs - 1) = 2 * i + 1" "i < length xs div 2" by (auto elim!: evenE)
  with pairs_nth [OF \<open>i < length (pairs xs)\<close>]
  show "pairs xs ! i = map (\<lambda>i. xs ! (2 * i) @ xs ! (2 * i + 1)) [0..<length xs div 2] ! i" by simp
qed (auto elim: evenE)

lemma level_up_pad: "odd (length xs) \<Longrightarrow> level_up (xs @ [last xs]) = level_up xs"
  by (induction xs rule: level_up.induct) auto

lemma upt_0_Suc: "[0..<Suc n] = 0 # map Suc [0..<n]"
  by (simp add: upt_conv_Cons map_Suc_upt del: upt_Suc)

lemma concat_pairs: "even (length xs) \<Longrightarrow> concat (pairs xs) = concat xs"
  by (induction xs rule: pairs.induct) auto

lemma slices_concat:
  "\<forall>x\<in>set ys. length x = n \<Longrightarrow> map (\<lambda>i. take n (drop (n * i) (concat ys))) [0..<length ys] = ys"
proof (induction ys)
  case (Cons y ys)
  have "[0..<length (y # ys)] = 0 # map Suc [0..<length ys]" using upt_0_Suc [of "length ys"] by simp
  with Cons show ?case by (simp add: comp_def del: upt_Suc)
qed simp

lemma level_up_lengths: "x \<in> set (level_up xs) \<Longrightarrow> length x = 32"
  by (induction xs rule: level_up.induct) auto

lemma hash_level_eq:
  assumes "even (length xs)" "\<forall>x\<in>set xs. length x = 32"
  shows "hash_level xs = level_up xs"
proof -
  have "\<forall>b\<in>set (pairs xs). length b = 64" unfolding pairs_even [OF assms(1)] using assms by auto
  moreover have "length (pairs xs) = length xs div 2" using assms(1) by (auto elim: evenE)
  ultimately have "SHA256D64 (concat xs) (length xs div 2) = concat (level_up xs)"
    using SHA256D64_blocks [of "pairs xs"] concat_pairs [OF assms(1)] by (simp add: level_up_pairs Hash_results)
  then show ?thesis using slices_concat [of "level_up xs" 32] assms(1) level_up_lengths
    by (auto simp: hash_level_def elim!: evenE)
qed

lemma compute_root_eq:
  "\<forall>x\<in>set xs. length x = 32 \<Longrightarrow> compute_root f m xs = (merkle_root xs, m \<or> f \<and> mutated_any xs)"
proof (induction xs arbitrary: m rule: merkle_root.induct)
  case (1 xs)
  show ?case
  proof (cases "length xs > 1")
    case True
    then have "last xs \<in> set xs" by (intro last_in_set) auto
    with 1(2) have "\<forall>x\<in>set (if odd (length xs) then xs @ [last xs] else xs). length x = 32" by auto
    then have "hash_level (if odd (length xs) then xs @ [last xs] else xs) = level_up xs"
      by (simp add: hash_level_eq level_up_pad)
    then show ?thesis using True 1(1) [OF True] level_up_lengths
      by (subst compute_root.simps, subst merkle_root.simps, subst mutated_any.simps) auto
  next
    case False
    then show ?thesis by (subst compute_root.simps, subst merkle_root.simps, subst mutated_any.simps) simp
  qed
qed

lemma any_pair_equal_iff: "any_pair_equal xs \<longleftrightarrow> (\<exists>k. 2 * k + 1 < length xs \<and> xs ! (2 * k) = xs ! (2 * k + 1))"
proof (induction xs rule: any_pair_equal.induct)
  case (1 a b xs)
  have "(\<exists>k. 2 * k + 1 < length (a # b # xs) \<and> (a # b # xs) ! (2 * k) = (a # b # xs) ! (2 * k + 1)) \<longleftrightarrow>
      a = b \<or> (\<exists>k. 2 * k + 1 < length xs \<and> xs ! (2 * k) = xs ! (2 * k + 1))" (is "?l \<longleftrightarrow> ?r")
  proof
    assume ?l
    then obtain k where "2 * k + 1 < length (a # b # xs) \<and> (a # b # xs) ! (2 * k) = (a # b # xs) ! (2 * k + 1)" by blast
    then show ?r by (cases k) auto
  next
    assume ?r
    then show ?l
    proof
      assume "\<exists>k. 2 * k + 1 < length xs \<and> xs ! (2 * k) = xs ! (2 * k + 1)"
      then obtain k where "2 * k + 1 < length xs \<and> xs ! (2 * k) = xs ! (2 * k + 1)" by blast
      then show ?l by (intro exI [of _ "Suc k"]) simp
    qed (auto intro: exI [of _ 0])
  qed
  with 1 show ?case by simp
qed auto

lemma mutated_end_any: "mutated_end xs \<Longrightarrow> mutated_any xs"
proof (induction xs rule: mutated_end.induct)
  case (1 xs)
  from 1(2) have l: "length xs > 1" by (subst (asm) mutated_end.simps) (simp split: if_splits)
  have "any_pair_equal xs" if "even (length xs)" "xs ! (length xs - 2) = xs ! (length xs - 1)"
  proof -
    from that(1) l obtain k where "length xs = 2 * Suc k" by (metis even_numeral evenE gr_zeroI less_numeral_extra(3) mult_0_right not0_implies_Suc not_less_zero)
    with that(2) show ?thesis by (auto simp: any_pair_equal_iff intro!: exI [of _ k])
  qed
  with 1 l show ?case by (subst mutated_any.simps, subst (asm) (2) mutated_end.simps) auto
qed

section \<open>What is hashed\<close>

text \<open>The inputs to the double hash in the whole tree and along a branch.\<close>

function node_inputs :: "uint256 list \<Rightarrow> bytes set" where
  "node_inputs xs = (if length xs > 1 then set (pairs xs) \<union> node_inputs (level_up xs) else {})"
  by auto
termination
  by (relation "measure length") auto

declare node_inputs.simps [simp del]

fun branch_inputs :: "uint256 \<Rightarrow> uint256 list \<Rightarrow> int \<Rightarrow> bytes set" where
  "branch_inputs h [] i = {}"
| "branch_inputs h (it # br) i =
     insert (if odd i then it @ h else h @ it) (branch_inputs (if odd i then hash2 it h else hash2 h it) br (i div 2))"

section \<open>Equal roots\<close>

definition dup_end :: "uint256 list \<Rightarrow> bool" where
  "dup_end xs \<longleftrightarrow> length xs > 1 \<and> even (length xs) \<and> xs ! (length xs - 2) = xs ! (length xs - 1)"

lemma dup_end_Cons2: "dup_end (a # b # xs) \<longleftrightarrow> (if xs = [] then a = b else dup_end xs)"
  by (cases xs rule: pairs.cases) (auto simp: dup_end_def)

lemma pairs_inject:
  "pairs xs = pairs ys \<Longrightarrow> \<not> dup_end xs \<Longrightarrow> \<not> dup_end ys \<Longrightarrow> \<forall>x\<in>set xs. length x = 32 \<Longrightarrow> \<forall>y\<in>set ys. length y = 32 \<Longrightarrow> xs = ys"
proof (induction xs arbitrary: ys rule: pairs.induct)
  case 1
  then show ?case by (cases ys rule: pairs.cases) auto
next
  case (2 a)
  then show ?case
  proof (cases ys rule: pairs.cases)
    case (3 c d zs)
    with 2 have "zs = []" by (cases zs rule: pairs.cases) auto
    with 2 3 show ?thesis by (auto simp: dup_end_Cons2)
  qed auto
next
  case (3 a b xs)
  then show ?case
  proof (cases ys rule: pairs.cases)
    case (2 c)
    with 3 have "xs = []" by (cases xs rule: pairs.cases) auto
    with 2 3 show ?thesis by (auto simp: dup_end_Cons2)
  next
    case ys: (3 c d zs)
    with 3 have "a = c" "b = d" "pairs xs = pairs zs" by auto
    moreover have "xs = zs"
    proof (rule 3(1))
      show "\<not> dup_end xs" "\<not> dup_end zs" using 3 ys by (auto simp: dup_end_Cons2 dup_end_def [of "[]"] split: if_splits)
    qed (use 3 ys calculation in auto)
    ultimately show ?thesis using ys by simp
  qed auto
qed

lemma not_mutated: "\<not> mutated_end xs \<Longrightarrow> \<not> dup_end xs \<and> \<not> mutated_end (level_up xs)"
proof (cases "length xs > 1")
  case False
  then have "length (level_up xs) \<le> 1" by simp
  with False show ?thesis by (subst mutated_end.simps) (simp add: dup_end_def)
qed (subst (asm) mutated_end.simps, simp add: dup_end_def)

lemma level_up_inject:
  assumes "level_up xs = level_up ys" "\<not> mutated_end xs" "\<not> mutated_end ys"
    "\<forall>x\<in>set xs. length x = 32" "\<forall>y\<in>set ys. length y = 32" "inj_on dsha (set (pairs xs) \<union> set (pairs ys))"
  shows "xs = ys"
proof -
  have "pairs xs = pairs ys" using assms(1,6) unfolding level_up_pairs by (rule map_inj_on)
  with assms not_mutated show ?thesis by (blast intro: pairs_inject)
qed

function tree_height :: "uint256 list \<Rightarrow> nat" where
  "tree_height xs = (if length xs > 1 then Suc (tree_height (level_up xs)) else 0)"
  by auto
termination
  by (relation "measure length") auto

declare tree_height.simps [simp del]

lemma merkle_root_single: "merkle_root [x] = x"
  by (subst merkle_root.simps) simp

lemma root_inject:
  "tree_height xs = tree_height ys \<Longrightarrow> merkle_root xs = merkle_root ys \<Longrightarrow> xs \<noteq> [] \<Longrightarrow> ys \<noteq> [] \<Longrightarrow> \<not> mutated_end xs \<Longrightarrow> \<not> mutated_end ys \<Longrightarrow>
   inj_on dsha (node_inputs xs \<union> node_inputs ys) \<Longrightarrow> \<forall>x\<in>set xs. length x = 32 \<Longrightarrow> \<forall>y\<in>set ys. length y = 32 \<Longrightarrow> xs = ys"
proof (induction xs arbitrary: ys rule: merkle_root.induct)
  case (1 xs)
  show ?case
  proof (cases "length xs > 1")
    case True
    then have ly: "length ys > 1" using 1(2) by (subst (asm) (1 2) tree_height.simps) (simp split: if_splits)
    have h: "node_inputs xs = set (pairs xs) \<union> node_inputs (level_up xs)" "node_inputs ys = set (pairs ys) \<union> node_inputs (level_up ys)"
      using True ly by (simp_all add: node_inputs.simps [of xs] node_inputs.simps [of ys])
    have "level_up xs = level_up ys"
    proof (rule 1(1) [OF True])
      show "tree_height (level_up xs) = tree_height (level_up ys)" "merkle_root (level_up xs) = merkle_root (level_up ys)"
        using 1(2,3) True ly by (simp_all add: tree_height.simps [of xs] tree_height.simps [of ys] merkle_root.simps [of xs] merkle_root.simps [of ys])
      show "inj_on dsha (node_inputs (level_up xs) \<union> node_inputs (level_up ys))" by (rule inj_on_subset [OF 1(8)]) (auto simp: h)
    qed (use 1(4-7) not_mutated level_up_lengths in auto)
    then show ?thesis using 1(6,7,9,10) by (rule level_up_inject) (rule inj_on_subset [OF 1(8)], auto simp: h)
  next
    case False
    then have "\<not> length ys > 1" using 1(2) by (subst (asm) (1 2) tree_height.simps) (simp split: if_splits)
    with False 1(3-5) show ?thesis by (cases xs; cases ys) (auto simp: merkle_root_single)
  qed
qed

text \<open>The levels above the leaves have the same root, and what they hold are hashes.\<close>

lemma upper_levels:
  assumes "ys \<noteq> []" "\<not> mutated_end ys"
  shows "k \<le> tree_height ys \<Longrightarrow> (let zs = (level_up ^^ k) ys in
    zs \<noteq> [] \<and> \<not> mutated_end zs \<and> tree_height zs = tree_height ys - k \<and> merkle_root zs = merkle_root ys \<and> node_inputs zs \<subseteq> node_inputs ys \<and>
    (0 < k \<longrightarrow> set zs \<subseteq> dsha ` node_inputs ys))"
proof (induction k)
  case 0
  with assms show ?case by simp
next
  case (Suc k)
  define zs where "zs = (level_up ^^ k) ys"
  from Suc have z: "zs \<noteq> []" "\<not> mutated_end zs" "tree_height zs = tree_height ys - k" "merkle_root zs = merkle_root ys" "node_inputs zs \<subseteq> node_inputs ys"
    by (simp_all add: zs_def Let_def)
  have l: "length zs > 1" using z(3) Suc.prems by (subst (asm) tree_height.simps) (simp split: if_splits)
  have "node_inputs zs = set (pairs zs) \<union> node_inputs (level_up zs)" using l by (simp add: node_inputs.simps [of zs])
  moreover have "set (level_up zs) = dsha ` set (pairs zs)" by (simp add: level_up_pairs)
  moreover have "tree_height zs = Suc (tree_height (level_up zs))" "merkle_root zs = merkle_root (level_up zs)"
    using l by (simp_all add: tree_height.simps [of zs] merkle_root.simps [of zs])
  ultimately show ?case using z not_mutated [OF z(2)] by (auto simp: Let_def zs_def)
qed

lemma root_binding:
  assumes "tree_height xs \<le> tree_height ys" "merkle_root xs = merkle_root ys" "xs \<noteq> []" "ys \<noteq> []" "\<not> mutated_end xs" "\<not> mutated_end ys"
    "inj_on dsha (node_inputs xs \<union> node_inputs ys)" "\<forall>x\<in>set xs. length x = 32" "\<forall>y\<in>set ys. length y = 32" "set xs \<inter> dsha ` node_inputs ys = {}"
  shows "xs = ys"
proof -
  define k where "k = tree_height ys - tree_height xs"
  define zs where "zs = (level_up ^^ k) ys"
  have z: "zs \<noteq> []" "\<not> mutated_end zs" "tree_height zs = tree_height xs" "merkle_root zs = merkle_root ys" "node_inputs zs \<subseteq> node_inputs ys"
      "0 < k \<longrightarrow> set zs \<subseteq> dsha ` node_inputs ys"
    using upper_levels [OF assms(4,6), of k] assms(1) by (simp_all add: zs_def k_def Let_def)
  have l: "\<forall>z\<in>set zs. length z = 32"
    using assms(9) by (cases k) (auto simp: zs_def level_up_lengths)
  have "xs = zs"
    by (rule root_inject) (use z assms l in \<open>auto intro: inj_on_subset [OF assms(7)]\<close>)
  moreover have "k = 0"
  proof (rule ccontr)
    assume "k \<noteq> 0"
    with z(6) have "set xs \<subseteq> dsha ` node_inputs ys" using \<open>xs = zs\<close> by simp
    with assms(3,10) show False by (cases xs) auto
  qed
  ultimately show ?thesis by (simp add: zs_def)
qed

section \<open>Branches that lead to the root\<close>

lemma length_GetMerkleBranch: "length xs = n \<Longrightarrow> length (GetMerkleBranch i n j v) = tree_height xs"
proof (induction xs arbitrary: i n j rule: tree_height.induct)
  case (1 xs)
  show ?case
  proof (cases "length xs > 1")
    case True
    with 1 show ?thesis by (subst GetMerkleBranch.simps, subst tree_height.simps) auto
  next
    case False
    with 1(2) show ?thesis by (subst GetMerkleBranch.simps, subst tree_height.simps) simp
  qed
qed

lemma branch_unique:
  assumes "length pre = j" "length xs = nSize" "i < nSize" "\<forall>x\<in>set xs. length x = 32" "length h = 32" "\<forall>x\<in>set br. length x = 32"
    "length br = tree_height xs" "inj_on dsha (node_inputs xs \<union> branch_inputs h br (int i))" "branch_fold h br (int i) = merkle_root xs"
  shows "h = xs ! i \<and> br = GetMerkleBranch i nSize j (pre @ tree_nodes xs)"
  using assms
proof (induction xs arbitrary: pre j nSize i h br rule: tree_nodes.induct)
  case (1 xs)
  show ?case
  proof (cases "length xs > 1")
    case False
    with 1(3,4) obtain x where "xs = [x]" "nSize = 1" "i = 0" by (cases xs) auto
    moreover have "GetMerkleBranch 0 1 j v = []" for v by (subst GetMerkleBranch.simps) simp
    ultimately show ?thesis using 1(8,10) by (simp add: merkle_root_single tree_height.simps [of "[x]"])
  next
    case True
    then have hx: "node_inputs xs = set (pairs xs) \<union> node_inputs (level_up xs)" by (simp add: node_inputs.simps [of xs])
    from True 1(8) obtain it br' where br: "br = it # br'" "length br' = tree_height (level_up xs)"
      by (cases br) (simp_all add: tree_height.simps [of xs])
    let ?s = "xs ! min (i XOR 1) (nSize - 1)" and ?m = "if odd (int i) then it @ h else h @ it"
    have m: "(if odd (int i) then hash2 it h else hash2 h it) = dsha ?m" by (simp add: hash2_dsha)
    have ins: "branch_inputs h br (int i) = insert ?m (branch_inputs (dsha ?m) br' (int (i div 2)))"
      unfolding br(1) branch_inputs.simps m by (simp add: zdiv_int)
    have up: "dsha ?m = level_up xs ! (i div 2) \<and> br' = GetMerkleBranch (i div 2) ((nSize + 1) div 2) (j + nSize) ((pre @ xs) @ tree_nodes (level_up xs))"
    proof (rule 1(1) [OF True])
      show "branch_fold (dsha ?m) br' (int (i div 2)) = merkle_root (level_up xs)"
        using 1(10) True unfolding br(1) branch_fold.simps m by (simp add: zdiv_int merkle_root.simps [of xs])
      show "inj_on dsha (node_inputs (level_up xs) \<union> branch_inputs (dsha ?m) br' (int (i div 2)))"
        by (rule inj_on_subset [OF 1(9)]) (auto simp: hx ins)
      show "length (dsha ?m) = 32" using m by (simp add: Hash_results length_fips_sha256)
    qed (use 1(2-8) br level_up_lengths in auto)
    have k: "i div 2 < length (pairs xs)" using 1(3,4) by simp
    have p: "pairs xs ! (i div 2) = (if odd (int i) then ?s @ xs ! i else xs ! i @ ?s)" using pair_of [of i xs] True 1(3,4) by simp
    have "dsha ?m = dsha (pairs xs ! (i div 2))" using up k by (simp add: level_up_pairs)
    then have "?m = pairs xs ! (i div 2)" by (rule inj_onD [OF 1(9)]) (use k in \<open>auto simp: hx ins\<close>)
    moreover have "length (xs ! i) = 32" "length ?s = 32" "length it = 32" using True 1(3-5,7) br(1) by auto
    ultimately have "h = xs ! i" "it = ?s" unfolding p using 1(6) by (simp_all split: if_splits)
    moreover have "GetMerkleBranch i nSize j (pre @ tree_nodes xs) = ?s # br'"
      using branch_step [OF 1(2-4) True] up by simp
    ultimately show ?thesis unfolding br(1) by simp
  qed
qed

end
