(* ===== verification/TransactionProps.thy ===== *)
theory TransactionProps
  imports Transaction
begin

text \<open>
  The codecs of a transaction's parts, and the properties of transactions: the formats are canonical,
  the deserialising constructor drops the binding signature, the value of the outputs is exact.
\<close>

section \<open>Codecs of the parts\<close>

lemma rd_when_Inr: "rd_when c u x s = Inr (y, r) \<longleftrightarrow> (if c then u s = Inr (y, r) else y = x \<and> r = s)"
  by (auto simp: rd_when_def)

lemma sint_word_of_int_in64: "in64 x \<Longrightarrow> sint (word_of_int x :: u64) = x"
  by (simp add: in64_def sint_sbintrunc' signed_take_bit_int_eq_self)

lemma sint_in64: "in64 (sint (w :: u64))"
  using sint_range_size [of w] by (simp add: in64_def word_size)

interpretation int64: strict_codec ser_int64 unser_int64 in64
  by unfold_locales
    (auto simp: ser_int64_def unser_int64_def ser64.bind_read_back sint_word_of_int_in64 rd_bind_Inr_iff ser64.read_iff sint_in64)

abbreviation outpoint_ok :: "COutPoint \<Rightarrow> bool" where
  "outpoint_ok p \<equiv> length (op_hash p) = 32"

interpretation outpoint: strict_codec outpoint_Serialize outpoint_Unserialize outpoint_ok
  by unfold_locales
    (auto simp: outpoint_Serialize_def outpoint_Unserialize_def rd_bind_eq ser32.read_back rd_bind_Inr_iff stream_read_Inr ser32.read_iff)

abbreviation txin_ok :: "CTxIn \<Rightarrow> bool" where
  "txin_ok i \<equiv> outpoint_ok (prevout i) \<and> length (scriptSig i) \<le> MAX_SIZE"

interpretation txin: strict_codec txin_Serialize txin_Unserialize txin_ok
  by unfold_locales
    (auto simp: txin_Serialize_def txin_Unserialize_def outpoint.bind_read_back byte_vector.bind_read_back ser32.bind_read_back
      rd_bind_Inr_iff outpoint.read_iff byte_vector.read_iff ser32.read_iff)

abbreviation txout_ok :: "CTxOut \<Rightarrow> bool" where
  "txout_ok t \<equiv> in64 (nValue t) \<and> length (scriptPubKey t) \<le> MAX_SIZE"

interpretation txout: strict_codec txout_Serialize txout_Unserialize txout_ok
  by unfold_locales
    (auto simp: txout_Serialize_def txout_Unserialize_def int64.bind_read_back byte_vector.bind_read_back
      rd_bind_Inr_iff int64.read_iff byte_vector.read_iff)

interpretation spend: strict_codec spend_Serialize spend_Unserialize spend_ok
  by unfold_locales
    (auto simp: spend_Serialize_def spend_Unserialize_def spend_ok_def blob.bind_read_back rd_bind_Inr_iff stream_read_Inr)

interpretation sapling_output: strict_codec output_Serialize output_Unserialize output_ok
  by unfold_locales
    (auto simp: output_Serialize_def output_Unserialize_def output_ok_def blob.bind_read_back rd_bind_Inr_iff stream_read_Inr)

lemma lead_byte:
  assumes "\<not> bit (pfx :: u8) 0"
  shows "(if y then pfx OR 1 else pfx) AND NOT 1 = pfx" "(if y then pfx OR 1 else pfx) AND 1 \<noteq> 0 \<longleftrightarrow> y"
    and "lead AND NOT 1 = pfx \<Longrightarrow> (if lead AND 1 \<noteq> 0 then pfx OR 1 else pfx) = lead"
proof -
  have one: "bit (1 :: u8) i \<longleftrightarrow> i = 0" for i by (simp add: bit_1_iff)
  show "(if y then pfx OR 1 else pfx) AND NOT 1 = pfx"
    using assms by (auto intro!: bit_eqI gr0I simp: bit_and_iff bit_or_iff bit_not_iff one simp flip: bit_0)
  have low: "x AND 1 \<noteq> 0 \<longleftrightarrow> bit x 0" for x :: u8 by (simp add: and_one_eq odd_iff_mod_2_eq_one bit_0)
  show "(if y then pfx OR 1 else pfx) AND 1 \<noteq> 0 \<longleftrightarrow> y"
    using assms by (simp only: low if_distrib [of "\<lambda>x. bit x 0"] bit_or_iff one) simp
  show "(if lead AND 1 \<noteq> 0 then pfx OR 1 else pfx) = lead" if "lead AND NOT 1 = pfx"
    unfolding that [symmetric]
    by (rule bit_eqI) (simp only: low if_distrib [of "\<lambda>x. bit x n" for n] bit_and_iff bit_or_iff bit_not_iff one, auto intro!: gr0I)
qed

lemma point_codec:
  assumes "\<not> bit (pfx :: u8) 0"
  shows "strict_codec (point_Serialize pfx) (point_Unserialize pfx n) (\<lambda>p. length (pt_x p) = n)"
proof
  fix p :: compressed_point and r
  assume "length (pt_x p) = n"
  then show "point_Unserialize pfx n (point_Serialize pfx p @ r) = Inr (p, r)"
    using lead_byte(1,2) [OF assms, of "pt_y p"]
    by (simp add: point_Serialize_def point_Unserialize_def ser8.bind_read_back blob.bind_read_back del: if_split)
next
  fix s p r
  assume "point_Unserialize pfx n s = Inr (p, r)"
  then obtain lead x where "lead AND NOT 1 = pfx" "s = ser_writedata8 lead @ x @ r" "length x = n"
    "p = \<lparr>pt_y = (lead AND 1 \<noteq> 0), pt_x = x\<rparr>"
    by (auto simp: point_Unserialize_def rd_bind_Inr_iff ser8.read_iff stream_read_Inr split: if_split_asm)
  with lead_byte(3) [OF assms \<open>lead AND NOT 1 = pfx\<close>] show "length (pt_x p) = n \<and> s = point_Serialize pfx p @ r"
    by (simp add: point_Serialize_def del: if_split)
qed

interpretation g1: strict_codec "point_Serialize G1_PREFIX_MASK" "point_Unserialize G1_PREFIX_MASK n" "\<lambda>p. length (pt_x p) = n" for n
  by (rule point_codec) simp

interpretation g2: strict_codec "point_Serialize G2_PREFIX_MASK" "point_Unserialize G2_PREFIX_MASK n" "\<lambda>p. length (pt_x p) = n" for n
  by (rule point_codec) simp

interpretation phgr: strict_codec phgr_Serialize phgr_Unserialize phgr_ok
proof
  fix p :: PHGRProof and r
  assume "phgr_ok p"
  then show "phgr_Unserialize (phgr_Serialize p @ r) = Inr (p, r)"
    by (simp add: phgr_Serialize_def phgr_Unserialize_def phgr_ok_def g1.bind_read_back g2.bind_read_back)
next
  fix s p r
  assume "phgr_Unserialize s = Inr (p, r)"
  then show "phgr_ok p \<and> s = phgr_Serialize p @ r"
    by (auto simp: phgr_Serialize_def phgr_Unserialize_def phgr_ok_def rd_bind_Inr_iff g1.read_iff g2.read_iff)
qed

interpretation sprout_proof: strict_codec "\<lambda>p. projr (proof_Serialize g p)" "proof_Unserialize g" "proof_ok g" for g
  by unfold_locales
    (auto simp: proof_Serialize_def proof_Unserialize_def proof_ok_def blob.bind_read_back phgr.bind_read_back
      rd_bind_Inr_iff stream_read_Inr phgr.read_iff split: SproutProof.splits if_splits)

lemma array_blob_iff:
  "Unserialize_array N (stream_read n) s = Inr (xs, r) \<longleftrightarrow>
     length xs = N \<and> (\<forall>b\<in>set xs. length b = n) \<and> s = Serialize_array (\<lambda>b. b) xs @ r"
  unfolding Unserialize_array_def Serialize_array_def by (rule blob.read_n_iff)

lemma bind_array_blob:
  "length xs = N \<Longrightarrow> \<forall>b\<in>set xs. length b = n \<Longrightarrow>
   rd_bind (Unserialize_array N (stream_read n)) f (Serialize_array (\<lambda>b. b) xs @ r) = f xs r"
  by (rule rd_bind_eq) (simp add: array_blob_iff)

lemma proof_Serialize_ok: "proof_ok g p \<Longrightarrow> proof_Serialize g p = Inr (projr (proof_Serialize g p))"
  by (auto simp: proof_Serialize_def proof_ok_def split: SproutProof.splits)

lemma bind_proof:
  "proof_ok g p \<Longrightarrow> proof_Serialize g p = Inr pr \<Longrightarrow> rd_bind (proof_Unserialize g) f (pr @ r) = f p r"
  using sprout_proof.bind_read_back [of g p f r] by simp

lemma js_Serialize_ok:
  assumes "proof_ok g (js_proof j)"
  shows "js_Serialize g j =
    Inr (ser_int64 (vpub_old j) @ ser_int64 (vpub_new j) @ js_anchor j @
         Serialize_array (\<lambda>b. b) (js_nullifiers j) @ Serialize_array (\<lambda>b. b) (js_commitments j) @
         js_ephemeralKey j @ js_randomSeed j @ Serialize_array (\<lambda>b. b) (js_macs j) @
         projr (proof_Serialize g (js_proof j)) @ Serialize_array (\<lambda>b. b) (js_ciphertexts j))"
proof -
  obtain pr where "proof_Serialize g (js_proof j) = Inr pr" using proof_Serialize_ok [OF assms] by blast
  then show ?thesis by (simp add: js_Serialize_def)
qed

interpretation js: strict_codec "\<lambda>j. projr (js_Serialize g j)" "js_Unserialize g" "js_ok g" for g
proof
  fix j :: JSDescription and r
  assume ok: "js_ok g j"
  then have p: "proof_ok g (js_proof j)" by (simp add: js_ok_def)
  then obtain pr where pr: "proof_Serialize g (js_proof j) = Inr pr" using proof_Serialize_ok by blast
  from ok show "js_Unserialize g (projr (js_Serialize g j) @ r) = Inr (j, r)"
    by (simp add: js_Serialize_def js_Unserialize_def js_ok_def int64.bind_read_back blob.bind_read_back bind_array_blob
        bind_proof [OF p pr] pr del: stream_read_append)
next
  fix s j r
  assume "js_Unserialize g s = Inr (j, r)"
  then show "js_ok g j \<and> s = projr (js_Serialize g j) @ r"
    by (auto simp: js_Serialize_ok js_Unserialize_def js_ok_def rd_bind_Inr_iff int64.read_iff stream_read_Inr array_blob_iff
        sprout_proof.read_iff)
qed

section \<open>Transactions\<close>

lemma header_mask: "(0x7FFFFFFF :: u32) = mask 31"
  by (simp add: mask_eq_exp_minus_1)

lemma sint_masked: "sint (h AND 0x7FFFFFFF :: u32) = int (unat h mod 2 ^ 31)"
proof -
  have "unat (h AND 0x7FFFFFFF) = unat h mod 2 ^ 31" unfolding header_mask by (rule unat_and_mask)
  moreover have "sint w = int (unat w)" if "unat w < 2 ^ 31" for w :: u32
  proof -
    have u: "uint w = int (unat w)" by (rule uint_nat)
    have "signed_take_bit 31 (int m) = int m" if "m < 2 ^ 31" for m :: nat
      using that by (intro signed_take_bit_int_eq_self) auto
    from this [OF that] show ?thesis unfolding sint_uint u by (simp only: len_num1 len_bit0) simp
  qed
  moreover have "unat h mod 2 ^ 31 < 2 ^ 31" by simp
  ultimately show ?thesis by metis
qed

lemma header_split:
  fixes h :: u32
  shows "(if bit h 31 then word_of_int (sint (h AND 0x7FFFFFFF)) OR push_bit 31 1 else word_of_int (sint (h AND 0x7FFFFFFF))) = h"
proof -
  have e: "(word_of_int (sint (h AND 0x7FFFFFFF)) :: u32) = h AND mask 31"
    by (simp add: header_mask)
  show ?thesis unfolding e
    by (rule bit_eqI)
      (auto simp: if_distrib [of "\<lambda>x. bit x n" for n] bit_or_iff bit_and_iff bit_mask_iff bit_push_bit_iff bit_1_iff less_Suc_eq
        numeral_eq_Suc dest: bit_imp_le_length)
qed

lemma header_join:
  fixes v :: int and ow :: bool
  assumes "0 \<le> v" "v < 2 ^ 31"
  shows "bit (if ow then word_of_int v OR push_bit 31 1 else word_of_int v :: u32) 31 \<longleftrightarrow> ow"
    and "sint ((if ow then word_of_int v OR push_bit 31 1 else word_of_int v :: u32) AND 0x7FFFFFFF) = v"
proof -
  have "unat (word_of_int v :: u32) < 2 ^ 31" using assms by (simp add: unsigned_of_int take_bit_int_eq_self)
  from bit_less_of_unat_less [OF this] have b: "bit (word_of_int v :: u32) n \<Longrightarrow> n < 31" for n .
  then show "bit (if ow then word_of_int v OR push_bit 31 1 else word_of_int v :: u32) 31 \<longleftrightarrow> ow"
    by (auto simp: bit_or_iff bit_push_bit_iff)
  have "(if ow then word_of_int v OR push_bit 31 1 else word_of_int v :: u32) AND mask 31 = word_of_int v"
    by (rule bit_eqI) (cases ow; simp only: if_True if_False bit_or_iff bit_and_iff bit_mask_iff bit_push_bit_iff, auto dest: b)
  then show "sint ((if ow then word_of_int v OR push_bit 31 1 else word_of_int v :: u32) AND 0x7FFFFFFF) = v"
    unfolding header_mask using assms by (simp add: sint_sbintrunc' signed_take_bit_int_eq_self)
qed

lemma bind_when:
  "(c \<Longrightarrow> u (b @ r) = Inr (y, r)) \<Longrightarrow> (\<not> c \<Longrightarrow> x = y) \<Longrightarrow>
   rd_bind (rd_when c u x) f ((if c then b else []) @ r) = f y r"
  by (auto simp: rd_when_def intro: rd_bind_eq)

abbreviation vec_ok :: "('a \<Rightarrow> bool) \<Rightarrow> 'a list \<Rightarrow> bool" where
  "vec_ok ok v \<equiv> length v \<le> MAX_SIZE \<and> (\<forall>x\<in>set v. ok x)"

interpretation vin: strict_codec "Serialize_vector txin_Serialize" "Unserialize_vector txin_Unserialize" "vec_ok txin_ok"
  by (rule vector_strict_codec) unfold_locales

interpretation vout: strict_codec "Serialize_vector txout_Serialize" "Unserialize_vector txout_Unserialize" "vec_ok txout_ok"
  by (rule vector_strict_codec) unfold_locales

interpretation vspend: strict_codec "Serialize_vector spend_Serialize" "Unserialize_vector spend_Unserialize" "vec_ok spend_ok"
  by (rule vector_strict_codec) unfold_locales

interpretation voutput: strict_codec "Serialize_vector output_Serialize" "Unserialize_vector output_Unserialize" "vec_ok output_ok"
  by (rule vector_strict_codec) unfold_locales

interpretation vjs: strict_codec "Serialize_vector (\<lambda>j. projr (js_Serialize g j))" "Unserialize_vector (js_Unserialize g)"
  "vec_ok (js_ok g)" for g
  by (rule vector_strict_codec) unfold_locales

lemma js_vector_body_ok:
  "\<forall>j\<in>set v. js_ok g j \<Longrightarrow> js_vector_body g v = Inr (concat (map (\<lambda>j. projr (js_Serialize g j)) v))"
  by (induction v) (auto simp: js_ok_def js_Serialize_ok)

text \<open>
  A transaction in the form its format can carry: known version, sizes within the limits, every field
  the format does not store at its default.
\<close>

definition tx_ok :: "CMutableTransaction \<Rightarrow> bool" where
  "tx_ok tx \<longleftrightarrow> 0 \<le> nVersion tx \<and> nVersion tx < 2 ^ 31 \<and>
     (if fOverwintered tx then isOverwinterV3 tx \<or> isSaplingV4 tx else nVersionGroupId tx = 0) \<and>
     vec_ok txin_ok (vin tx) \<and> vec_ok txout_ok (vout tx) \<and>
     (isOverwinterV3 tx \<or> isSaplingV4 tx \<or> nExpiryHeight tx = 0) \<and>
     (if isSaplingV4 tx
      then in64 (valueBalance tx) \<and> vec_ok spend_ok (vShieldedSpend tx) \<and> vec_ok output_ok (vShieldedOutput tx)
      else valueBalance tx = 0 \<and> vShieldedSpend tx = [] \<and> vShieldedOutput tx = []) \<and>
     (if nVersion tx \<ge> 2 then vec_ok (js_ok (fOverwintered tx \<and> nVersion tx \<ge> 4)) (vjoinsplit tx) else vjoinsplit tx = []) \<and>
     (if vjoinsplit tx \<noteq> [] then length (joinSplitPubKey tx) = 32 \<and> length (joinSplitSig tx) = 64
      else joinSplitPubKey tx = uint256_null \<and> joinSplitSig tx = replicate 64 0) \<and>
     (if isSaplingV4 tx \<and> \<not> (vShieldedSpend tx = [] \<and> vShieldedOutput tx = []) then length (bindingSig tx) = 64
      else bindingSig tx = replicate 64 0)"

lemma header_of_ok:
  assumes "0 \<le> nVersion tx" "nVersion tx < 2 ^ 31"
  shows "bit (GetHeader tx) 31 \<longleftrightarrow> fOverwintered tx" "sint (GetHeader tx AND 0x7FFFFFFF) = nVersion tx"
    "useGroth (GetHeader tx) \<longleftrightarrow> fOverwintered tx \<and> nVersion tx \<ge> 4"
  using header_join [OF assms, of "fOverwintered tx"] by (simp_all add: GetHeader_def useGroth_def Let_def del: if_split)

lemma tx_Serialize_ok:
  assumes "tx_ok tx"
  shows "tx_Serialize tx = Inr
    (ser_writedata32 (GetHeader tx) @
     (if fOverwintered tx then ser_writedata32 (nVersionGroupId tx) else []) @
     Serialize_vector txin_Serialize (vin tx) @ Serialize_vector txout_Serialize (vout tx) @
     ser_writedata32 (nLockTime tx) @
     (if isOverwinterV3 tx \<or> isSaplingV4 tx then ser_writedata32 (nExpiryHeight tx) else []) @
     (if isSaplingV4 tx then ser_int64 (valueBalance tx) else []) @
     (if isSaplingV4 tx then Serialize_vector spend_Serialize (vShieldedSpend tx) else []) @
     (if isSaplingV4 tx then Serialize_vector output_Serialize (vShieldedOutput tx) else []) @
     (if nVersion tx \<ge> 2
      then Serialize_vector (\<lambda>j. projr (js_Serialize (fOverwintered tx \<and> nVersion tx \<ge> 4) j)) (vjoinsplit tx) else []) @
     (if nVersion tx \<ge> 2 \<and> length (vjoinsplit tx) > 0 then joinSplitPubKey tx else []) @
     (if nVersion tx \<ge> 2 \<and> length (vjoinsplit tx) > 0 then joinSplitSig tx else []) @
     (if isSaplingV4 tx \<and> \<not> (vShieldedSpend tx = [] \<and> vShieldedOutput tx = []) then bindingSig tx else []))"
proof -
  have h: "useGroth (GetHeader tx) \<longleftrightarrow> fOverwintered tx \<and> nVersion tx \<ge> 4"
    using assms by (intro header_of_ok) (simp_all add: tx_ok_def)
  have j: "js_vector_body (useGroth (GetHeader tx)) (vjoinsplit tx) =
      Inr (concat (map (\<lambda>j. projr (js_Serialize (fOverwintered tx \<and> nVersion tx \<ge> 4) j)) (vjoinsplit tx)))"
    unfolding h using assms by (intro js_vector_body_ok) (auto simp: tx_ok_def split: if_splits)
  have "\<not> (fOverwintered tx \<and> \<not> (isOverwinterV3 tx \<or> isSaplingV4 tx))" using assms by (auto simp: tx_ok_def split: if_splits)
  then show ?thesis by (simp add: tx_Serialize_def j Serialize_vector_def)
qed

lemma tx_read_header_back:
  assumes "tx_ok tx"
  shows "tx_read_header tx_default
      (ser_writedata32 (GetHeader tx) @ (if fOverwintered tx then ser_writedata32 (nVersionGroupId tx) else []) @ r) =
    Inr ((GetHeader tx, tx_default\<lparr>fOverwintered := fOverwintered tx, nVersion := nVersion tx, nVersionGroupId := nVersionGroupId tx\<rparr>), r)"
proof -
  have v: "0 \<le> nVersion tx" "nVersion tx < 2 ^ 31" using assms by (simp_all add: tx_ok_def)
  have w: "rd_bind (rd_when (fOverwintered tx) ser_readdata32 0) f
      ((if fOverwintered tx then ser_writedata32 (nVersionGroupId tx) else []) @ r) = f (nVersionGroupId tx) r" for f :: "u32 \<Rightarrow> (u32 \<times> CMutableTransaction) reader"
    using assms by (intro bind_when) (auto simp: ser32.read_back tx_ok_def)
  have "nVersionGroupId tx_default = 0" by (simp add: tx_default_def)
  moreover have "\<not> (fOverwintered tx \<and> \<not> (isOverwinterV3 tx \<or> isSaplingV4 tx))" using assms by (auto simp: tx_ok_def split: if_splits)
  ultimately show ?thesis
    by (simp add: tx_read_header_def ser32.bind_read_back Let_def header_of_ok [OF v] w isOverwinterV3_def isSaplingV4_def del: if_split)
qed

lemma tx_read_header_only:
  assumes "tx_read_header tx_default s = Inr ((h, tx), r)"
  shows "0 \<le> nVersion tx \<and> nVersion tx < 2 ^ 31 \<and> h = GetHeader tx \<and>
    (if fOverwintered tx then isOverwinterV3 tx \<or> isSaplingV4 tx else nVersionGroupId tx = 0) \<and>
    tx = tx_default\<lparr>fOverwintered := fOverwintered tx, nVersion := nVersion tx, nVersionGroupId := nVersionGroupId tx\<rparr> \<and>
    s = ser_writedata32 h @ (if fOverwintered tx then ser_writedata32 (nVersionGroupId tx) else []) @ r"
proof -
  from assms obtain g where g: "s = ser_writedata32 h @ (if bit h 31 then ser_writedata32 g else []) @ r" "bit h 31 \<or> g = 0"
    and tx: "tx = tx_default\<lparr>fOverwintered := bit h 31, nVersion := sint (h AND 0x7FFFFFFF), nVersionGroupId := g\<rparr>"
    and f: "bit h 31 \<Longrightarrow> isOverwinterV3 tx \<or> isSaplingV4 tx"
    by (auto simp: tx_read_header_def rd_bind_Inr_iff ser32.read_iff Let_def rd_when_Inr tx_default_def split: if_splits)
  have "0 \<le> sint (h AND 0x7FFFFFFF)" "sint (h AND 0x7FFFFFFF) < 2 ^ 31" unfolding sint_masked by simp_all
  moreover have sel: "nVersion tx = sint (h AND 0x7FFFFFFF)" "fOverwintered tx = bit h 31" by (simp_all add: tx)
  moreover have "GetHeader tx = h" unfolding GetHeader_def Let_def sel by (rule header_split)
  ultimately show ?thesis using g f by (auto simp: tx)
qed

lemma tx_read_transparent_only:
  assumes "tx_read_transparent tx s = Inr (tx', r)"
  obtains i out lt ex where "vec_ok txin_ok i" "vec_ok txout_ok out"
    "isOverwinterV3 tx \<or> isSaplingV4 tx \<or> ex = nExpiryHeight tx"
    "tx' = tx\<lparr>vin := i, vout := out, nLockTime := lt, nExpiryHeight := ex\<rparr>"
    "s = Serialize_vector txin_Serialize i @ Serialize_vector txout_Serialize out @ ser_writedata32 lt @
       (if isOverwinterV3 tx \<or> isSaplingV4 tx then ser_writedata32 ex else []) @ r"
proof -
  from assms obtain i out lt ex r1 r2 r3 where "tx' = tx\<lparr>vin := i, vout := out, nLockTime := lt, nExpiryHeight := ex\<rparr>"
    and "Unserialize_vector txin_Unserialize s = Inr (i, r1)" "Unserialize_vector txout_Unserialize r1 = Inr (out, r2)"
      "ser_readdata32 r2 = Inr (lt, r3)" "rd_when (isOverwinterV3 tx \<or> isSaplingV4 tx) ser_readdata32 (nExpiryHeight tx) r3 = Inr (ex, r)"
    unfolding tx_read_transparent_def rd_bind_Inr_iff rd_basic by blast
  then show thesis
    by (intro that [of i out ex lt]; cases "isOverwinterV3 tx \<or> isSaplingV4 tx")
      (auto simp: rd_when_Inr vin.read_iff vout.read_iff ser32.read_iff)
qed

lemma tx_read_transparent_run:
  assumes "vec_ok txin_ok i" "vec_ok txout_ok out" "isOverwinterV3 tx \<or> isSaplingV4 tx \<or> ex = nExpiryHeight tx"
  shows "tx_read_transparent tx
      (Serialize_vector txin_Serialize i @ Serialize_vector txout_Serialize out @ ser_writedata32 lt @
       (if isOverwinterV3 tx \<or> isSaplingV4 tx then ser_writedata32 ex else []) @ r) =
    Inr (tx\<lparr>vin := i, vout := out, nLockTime := lt, nExpiryHeight := ex\<rparr>, r)"
proof -
  have w: "rd_bind (rd_when (isOverwinterV3 tx \<or> isSaplingV4 tx) ser_readdata32 (nExpiryHeight tx)) f
      ((if isOverwinterV3 tx \<or> isSaplingV4 tx then ser_writedata32 ex else []) @ r) = f ex r"
    for f :: "u32 \<Rightarrow> CMutableTransaction reader"
    using assms(3) by (intro bind_when) (auto simp: ser32.read_back)
  show ?thesis unfolding tx_read_transparent_def
    by (simp only: vin.bind_read_back [OF assms(1)] vout.bind_read_back [OF assms(2)] ser32.bind_read_back w rd_basic)
qed

lemma tx_read_sapling_only:
  assumes "tx_read_sapling tx s = Inr (tx', r)"
  obtains vb sp out where
    "if isSaplingV4 tx then in64 vb \<and> vec_ok spend_ok sp \<and> vec_ok output_ok out
     else vb = valueBalance tx \<and> sp = vShieldedSpend tx \<and> out = vShieldedOutput tx"
    "tx' = tx\<lparr>valueBalance := vb, vShieldedSpend := sp, vShieldedOutput := out\<rparr>"
    "s = (if isSaplingV4 tx then ser_int64 vb else []) @ (if isSaplingV4 tx then Serialize_vector spend_Serialize sp else []) @
       (if isSaplingV4 tx then Serialize_vector output_Serialize out else []) @ r"
  using assms
  unfolding tx_read_sapling_def rd_bind_Inr_iff int64.read_iff vspend.read_iff voutput.read_iff rd_when_Inr rd_basic
  by (cases "isSaplingV4 tx") auto

lemma tx_read_sapling_run:
  assumes "if isSaplingV4 tx then in64 vb \<and> vec_ok spend_ok sp \<and> vec_ok output_ok out
     else vb = valueBalance tx \<and> sp = vShieldedSpend tx \<and> out = vShieldedOutput tx"
  shows "tx_read_sapling tx
      ((if isSaplingV4 tx then ser_int64 vb else []) @ (if isSaplingV4 tx then Serialize_vector spend_Serialize sp else []) @
       (if isSaplingV4 tx then Serialize_vector output_Serialize out else []) @ r) =
    Inr (tx\<lparr>valueBalance := vb, vShieldedSpend := sp, vShieldedOutput := out\<rparr>, r)"
  using assms
  by (cases "isSaplingV4 tx")
    (simp_all add: tx_read_sapling_def rd_when_def int64.bind_read_back vspend.bind_read_back voutput.bind_read_back)

lemma tx_read_joinsplits_only:
  assumes "tx_read_joinsplits h tx s = Inr (tx', r)"
  obtains js pk sg where
    "if nVersion tx \<ge> 2 then vec_ok (js_ok (useGroth h)) js else js = vjoinsplit tx"
    "if nVersion tx \<ge> 2 \<and> length js > 0 then length pk = 32 \<and> length sg = 64
     else pk = joinSplitPubKey tx \<and> sg = joinSplitSig tx"
    "tx' = tx\<lparr>vjoinsplit := js, joinSplitPubKey := pk, joinSplitSig := sg\<rparr>"
    "s = (if nVersion tx \<ge> 2 then Serialize_vector (\<lambda>j. projr (js_Serialize (useGroth h) j)) js else []) @
       (if nVersion tx \<ge> 2 \<and> length js > 0 then pk else []) @ (if nVersion tx \<ge> 2 \<and> length js > 0 then sg else []) @ r"
proof -
  from assms obtain js pk sg r1 r2 where "tx' = tx\<lparr>vjoinsplit := js, joinSplitPubKey := pk, joinSplitSig := sg\<rparr>"
    and "rd_when (nVersion tx \<ge> 2) (Unserialize_vector (js_Unserialize (useGroth h))) (vjoinsplit tx) s = Inr (js, r1)"
      "rd_when (nVersion tx \<ge> 2 \<and> length js > 0) (stream_read 32) (joinSplitPubKey tx) r1 = Inr (pk, r2)"
      "rd_when (nVersion tx \<ge> 2 \<and> length js > 0) (stream_read 64) (joinSplitSig tx) r2 = Inr (sg, r)"
    unfolding tx_read_joinsplits_def rd_bind_Inr_iff rd_basic Let_def by blast
  then show thesis
    by (intro that [of js pk sg]; cases "nVersion tx \<ge> 2"; cases "js = []")
      (simp_all add: rd_when_Inr vjs.read_iff stream_read_Inr)
qed

lemma tx_read_joinsplits_run:
  assumes "if nVersion tx \<ge> 2 then vec_ok (js_ok (useGroth h)) js else js = vjoinsplit tx"
    "if nVersion tx \<ge> 2 \<and> length js > 0 then length pk = 32 \<and> length sg = 64
     else pk = joinSplitPubKey tx \<and> sg = joinSplitSig tx"
  shows "tx_read_joinsplits h tx
      ((if nVersion tx \<ge> 2 then Serialize_vector (\<lambda>j. projr (js_Serialize (useGroth h) j)) js else []) @
       (if nVersion tx \<ge> 2 \<and> length js > 0 then pk else []) @ (if nVersion tx \<ge> 2 \<and> length js > 0 then sg else []) @ r) =
    Inr (tx\<lparr>vjoinsplit := js, joinSplitPubKey := pk, joinSplitSig := sg\<rparr>, r)"
  using assms
  by (cases "nVersion tx \<ge> 2"; cases "js = []")
    (simp_all add: tx_read_joinsplits_def rd_when_def vjs.bind_read_back blob.bind_read_back)

lemma tx_read_binding_only:
  assumes "tx_read_binding tx s = Inr (tx', r)"
  obtains sg where
    "if isSaplingV4 tx \<and> \<not> (vShieldedSpend tx = [] \<and> vShieldedOutput tx = []) then length sg = 64 else sg = bindingSig tx"
    "tx' = tx\<lparr>bindingSig := sg\<rparr>"
    "s = (if isSaplingV4 tx \<and> \<not> (vShieldedSpend tx = [] \<and> vShieldedOutput tx = []) then sg else []) @ r"
proof -
  let ?c = "isSaplingV4 tx \<and> \<not> (vShieldedSpend tx = [] \<and> vShieldedOutput tx = [])"
  from assms obtain sg where "tx' = tx\<lparr>bindingSig := sg\<rparr>" "rd_when ?c (stream_read 64) (bindingSig tx) s = Inr (sg, r)"
    unfolding tx_read_binding_def rd_bind_Inr_iff rd_basic by blast
  then show thesis by (intro that [of sg]) (auto simp: rd_when_Inr stream_read_Inr split: if_splits)
qed

lemma tx_read_binding_run:
  assumes "if isSaplingV4 tx \<and> \<not> (vShieldedSpend tx = [] \<and> vShieldedOutput tx = []) then length sg = 64 else sg = bindingSig tx"
  shows "tx_read_binding tx
      ((if isSaplingV4 tx \<and> \<not> (vShieldedSpend tx = [] \<and> vShieldedOutput tx = []) then sg else []) @ r) =
    Inr (tx\<lparr>bindingSig := sg\<rparr>, r)"
  unfolding tx_read_binding_def by (subst bind_when [where y = sg]) (use assms in \<open>auto split: if_splits\<close>)

lemma tx_sel_indep:
  "isOverwinterV3 (tx\<lparr>vin := i, vout := out, nLockTime := lt, nExpiryHeight := ex\<rparr>) = isOverwinterV3 tx"
  "isSaplingV4 (tx\<lparr>vin := i, vout := out, nLockTime := lt, nExpiryHeight := ex\<rparr>) = isSaplingV4 tx"
  "isOverwinterV3 (tx\<lparr>valueBalance := vb, vShieldedSpend := sp, vShieldedOutput := so\<rparr>) = isOverwinterV3 tx"
  "isSaplingV4 (tx\<lparr>valueBalance := vb, vShieldedSpend := sp, vShieldedOutput := so\<rparr>) = isSaplingV4 tx"
  "isOverwinterV3 (tx\<lparr>vjoinsplit := js, joinSplitPubKey := pk, joinSplitSig := sg\<rparr>) = isOverwinterV3 tx"
  "isSaplingV4 (tx\<lparr>vjoinsplit := js, joinSplitPubKey := pk, joinSplitSig := sg\<rparr>) = isSaplingV4 tx"
  "isOverwinterV3 (tx\<lparr>bindingSig := b\<rparr>) = isOverwinterV3 tx" "isSaplingV4 (tx\<lparr>bindingSig := b\<rparr>) = isSaplingV4 tx"
  "GetHeader (tx\<lparr>vin := i, vout := out, nLockTime := lt, nExpiryHeight := ex\<rparr>) = GetHeader tx"
  "GetHeader (tx\<lparr>valueBalance := vb, vShieldedSpend := sp, vShieldedOutput := so\<rparr>) = GetHeader tx"
  "GetHeader (tx\<lparr>vjoinsplit := js, joinSplitPubKey := pk, joinSplitSig := sg\<rparr>) = GetHeader tx"
  "GetHeader (tx\<lparr>bindingSig := b\<rparr>) = GetHeader tx"
  by (simp_all add: isOverwinterV3_def isSaplingV4_def GetHeader_def)

text \<open>A transaction as the object the reader builds field by field.\<close>

definition tx_built :: "CMutableTransaction \<Rightarrow> CMutableTransaction" where
  "tx_built tx = tx_default
     \<lparr>fOverwintered := fOverwintered tx, nVersion := nVersion tx, nVersionGroupId := nVersionGroupId tx\<rparr>
     \<lparr>vin := vin tx, vout := vout tx, nLockTime := nLockTime tx, nExpiryHeight := nExpiryHeight tx\<rparr>
     \<lparr>valueBalance := valueBalance tx, vShieldedSpend := vShieldedSpend tx, vShieldedOutput := vShieldedOutput tx\<rparr>
     \<lparr>vjoinsplit := vjoinsplit tx, joinSplitPubKey := joinSplitPubKey tx, joinSplitSig := joinSplitSig tx\<rparr>
     \<lparr>bindingSig := bindingSig tx\<rparr>"

lemma tx_built_eq: "tx_built tx = tx"
  by (cases tx) (simp add: tx_built_def tx_default_def)

lemma tx_Unserialize_back:
  assumes ok: "tx_ok tx"
  shows "tx_Unserialize tx_default (projr (tx_Serialize tx) @ r) = Inr (tx, r)"
proof -
  define t1 where "t1 = tx_default\<lparr>fOverwintered := fOverwintered tx, nVersion := nVersion tx, nVersionGroupId := nVersionGroupId tx\<rparr>"
  define t2 where "t2 = t1\<lparr>vin := vin tx, vout := vout tx, nLockTime := nLockTime tx, nExpiryHeight := nExpiryHeight tx\<rparr>"
  define t3 where "t3 = t2\<lparr>valueBalance := valueBalance tx, vShieldedSpend := vShieldedSpend tx, vShieldedOutput := vShieldedOutput tx\<rparr>"
  define t4 where "t4 = t3\<lparr>vjoinsplit := vjoinsplit tx, joinSplitPubKey := joinSplitPubKey tx, joinSplitSig := joinSplitSig tx\<rparr>"
  note ts = t1_def t2_def t3_def t4_def
  have tx: "t4\<lparr>bindingSig := bindingSig tx\<rparr> = tx" using tx_built_eq [of tx] by (simp add: ts tx_built_def)
  have same: "isOverwinterV3 t1 = isOverwinterV3 tx" "isSaplingV4 t1 = isSaplingV4 tx" "isSaplingV4 t2 = isSaplingV4 tx"
    "isSaplingV4 t4 = isSaplingV4 tx" "nVersion t3 = nVersion tx" "vShieldedSpend t4 = vShieldedSpend tx"
    "vShieldedOutput t4 = vShieldedOutput tx" "nExpiryHeight t1 = 0" "valueBalance t2 = 0" "vShieldedSpend t2 = []"
    "vShieldedOutput t2 = []" "vjoinsplit t3 = []" "joinSplitPubKey t3 = uint256_null" "joinSplitSig t3 = replicate 64 0"
    "bindingSig t4 = replicate 64 0"
    by (simp_all add: ts isOverwinterV3_def isSaplingV4_def tx_default_def)
  let ?b = "if isSaplingV4 tx \<and> \<not> (vShieldedSpend tx = [] \<and> vShieldedOutput tx = []) then bindingSig tx else []"
  let ?j = "(if nVersion tx \<ge> 2 then Serialize_vector (\<lambda>j. projr (js_Serialize (fOverwintered tx \<and> nVersion tx \<ge> 4) j)) (vjoinsplit tx) else []) @
     (if nVersion tx \<ge> 2 \<and> length (vjoinsplit tx) > 0 then joinSplitPubKey tx else []) @
     (if nVersion tx \<ge> 2 \<and> length (vjoinsplit tx) > 0 then joinSplitSig tx else []) @ ?b @ r"
  let ?s = "(if isSaplingV4 tx then ser_int64 (valueBalance tx) else []) @
     (if isSaplingV4 tx then Serialize_vector spend_Serialize (vShieldedSpend tx) else []) @
     (if isSaplingV4 tx then Serialize_vector output_Serialize (vShieldedOutput tx) else []) @ ?j"
  let ?t = "Serialize_vector txin_Serialize (vin tx) @ Serialize_vector txout_Serialize (vout tx) @ ser_writedata32 (nLockTime tx) @
     (if isOverwinterV3 tx \<or> isSaplingV4 tx then ser_writedata32 (nExpiryHeight tx) else []) @ ?s"
  have h3: "useGroth (GetHeader tx) \<longleftrightarrow> fOverwintered tx \<and> nVersion tx \<ge> 4"
    using ok by (intro header_of_ok) (simp_all add: tx_ok_def)
  have p1: "tx_read_header tx_default (ser_writedata32 (GetHeader tx) @ (if fOverwintered tx then ser_writedata32 (nVersionGroupId tx) else []) @ ?t) =
      Inr ((GetHeader tx, t1), ?t)"
    unfolding t1_def by (rule tx_read_header_back [OF ok])
  have p2: "tx_read_transparent t1 ?t = Inr (t2, ?s)"
    unfolding t2_def same(1,2) [symmetric] using ok by (intro tx_read_transparent_run) (auto simp: tx_ok_def same)
  have p3: "tx_read_sapling t2 ?s = Inr (t3, ?j)"
    unfolding t3_def same(3) [symmetric] using ok by (intro tx_read_sapling_run) (simp add: tx_ok_def same split: if_splits)
  have p4: "tx_read_joinsplits (GetHeader tx) t3 ?j = Inr (t4, ?b @ r)"
  proof -
    have "if nVersion t3 \<ge> 2 then vec_ok (js_ok (useGroth (GetHeader tx))) (vjoinsplit tx) else vjoinsplit tx = vjoinsplit t3"
      "if nVersion t3 \<ge> 2 \<and> length (vjoinsplit tx) > 0 then length (joinSplitPubKey tx) = 32 \<and> length (joinSplitSig tx) = 64
       else joinSplitPubKey tx = joinSplitPubKey t3 \<and> joinSplitSig tx = joinSplitSig t3"
      using ok unfolding same h3 tx_ok_def by (auto split: if_splits)
    from tx_read_joinsplits_run [OF this] show ?thesis unfolding same(5) h3 t4_def .
  qed
  have p5: "tx_read_binding t4 (?b @ r) = Inr (tx, r)"
    unfolding same(4,6,7) [symmetric] using ok tx
    by (subst tx_read_binding_run) (auto simp: tx_ok_def same split: if_splits)
  show ?thesis
    by (simp only: tx_Serialize_ok [OF ok] sum.sel append_assoc tx_Unserialize_def rd_bind_def p1 p2 p3 p4 p5 res_bind_simps prod.case)
qed

lemma tx_Unserialize_only:
  assumes "tx_Unserialize tx_default s = Inr (tx, r)"
  shows "tx_ok tx \<and> s = projr (tx_Serialize tx) @ r"
proof -
  from assms obtain h tx1 tx2 tx3 tx4 r1 r2 r3 r4 where
    h: "tx_read_header tx_default s = Inr ((h, tx1), r1)" and p: "tx_read_transparent tx1 r1 = Inr (tx2, r2)"
      "tx_read_sapling tx2 r2 = Inr (tx3, r3)" "tx_read_joinsplits h tx3 r3 = Inr (tx4, r4)" "tx_read_binding tx4 r4 = Inr (tx, r)"
    unfolding tx_Unserialize_def by (auto simp: rd_bind_Inr_iff)
  note hd = tx_read_header_only [OF h]
  obtain a b c where tx1: "tx1 = tx_default\<lparr>fOverwintered := a, nVersion := b, nVersionGroupId := c\<rparr>" using hd by blast
  have F1: "fOverwintered tx1 = a" "nVersion tx1 = b" "nVersionGroupId tx1 = c" by (simp_all add: tx1)
  from hd have hd': "0 \<le> b" "b < 2 ^ 31" "h = GetHeader tx1" "if a then isOverwinterV3 tx1 \<or> isSaplingV4 tx1 else c = 0"
    "s = ser_writedata32 h @ (if a then ser_writedata32 c else []) @ r1"
    unfolding F1 by blast+
  obtain i out lt ex where t2: "vec_ok txin_ok i" "vec_ok txout_ok out" "isOverwinterV3 tx1 \<or> isSaplingV4 tx1 \<or> ex = nExpiryHeight tx1"
    "tx2 = tx1\<lparr>vin := i, vout := out, nLockTime := lt, nExpiryHeight := ex\<rparr>"
    "r1 = Serialize_vector txin_Serialize i @ Serialize_vector txout_Serialize out @ ser_writedata32 lt @
       (if isOverwinterV3 tx1 \<or> isSaplingV4 tx1 then ser_writedata32 ex else []) @ r2"
    by (rule tx_read_transparent_only [OF p(1)])
  obtain vb sp so where t3: "if isSaplingV4 tx2 then in64 vb \<and> vec_ok spend_ok sp \<and> vec_ok output_ok so
     else vb = valueBalance tx2 \<and> sp = vShieldedSpend tx2 \<and> so = vShieldedOutput tx2"
    "tx3 = tx2\<lparr>valueBalance := vb, vShieldedSpend := sp, vShieldedOutput := so\<rparr>"
    "r2 = (if isSaplingV4 tx2 then ser_int64 vb else []) @ (if isSaplingV4 tx2 then Serialize_vector spend_Serialize sp else []) @
       (if isSaplingV4 tx2 then Serialize_vector output_Serialize so else []) @ r3"
    by (rule tx_read_sapling_only [OF p(2)])
  obtain js pk sg where t4: "if nVersion tx3 \<ge> 2 then vec_ok (js_ok (useGroth h)) js else js = vjoinsplit tx3"
    "if nVersion tx3 \<ge> 2 \<and> length js > 0 then length pk = 32 \<and> length sg = 64
     else pk = joinSplitPubKey tx3 \<and> sg = joinSplitSig tx3"
    "tx4 = tx3\<lparr>vjoinsplit := js, joinSplitPubKey := pk, joinSplitSig := sg\<rparr>"
    "r3 = (if nVersion tx3 \<ge> 2 then Serialize_vector (\<lambda>j. projr (js_Serialize (useGroth h) j)) js else []) @
       (if nVersion tx3 \<ge> 2 \<and> length js > 0 then pk else []) @ (if nVersion tx3 \<ge> 2 \<and> length js > 0 then sg else []) @ r4"
    by (rule tx_read_joinsplits_only [OF p(3)])
  obtain bs where t5:
    "if isSaplingV4 tx4 \<and> \<not> (vShieldedSpend tx4 = [] \<and> vShieldedOutput tx4 = []) then length bs = 64 else bs = bindingSig tx4"
    "tx = tx4\<lparr>bindingSig := bs\<rparr>"
    "r4 = (if isSaplingV4 tx4 \<and> \<not> (vShieldedSpend tx4 = [] \<and> vShieldedOutput tx4 = []) then bs else []) @ r"
    by (rule tx_read_binding_only [OF p(4)])
  have V: "isOverwinterV3 tx = isOverwinterV3 tx1" "isSaplingV4 tx = isSaplingV4 tx1" "isSaplingV4 tx2 = isSaplingV4 tx1"
    "isSaplingV4 tx4 = isSaplingV4 tx1" "GetHeader tx = h"
    by (simp_all add: t5(2) t4(3) t3(2) t2(4) tx_sel_indep hd'(3))
  have F: "fOverwintered tx = a" "nVersion tx = b" "nVersionGroupId tx = c" "vin tx = i" "vout tx = out" "nLockTime tx = lt"
    "nExpiryHeight tx = ex" "valueBalance tx = vb" "vShieldedSpend tx = sp" "vShieldedOutput tx = so" "vjoinsplit tx = js"
    "joinSplitPubKey tx = pk" "joinSplitSig tx = sg" "bindingSig tx = bs" "vShieldedSpend tx4 = sp" "vShieldedOutput tx4 = so"
    "nVersion tx3 = b" "nExpiryHeight tx1 = 0" "valueBalance tx2 = 0" "vShieldedSpend tx2 = []" "vShieldedOutput tx2 = []"
    "vjoinsplit tx3 = []" "joinSplitPubKey tx3 = uint256_null" "joinSplitSig tx3 = replicate 64 0" "bindingSig tx4 = replicate 64 0"
    by (simp_all add: t5(2) t4(3) t3(2) t2(4) tx1 tx_default_def)
  have g: "useGroth h \<longleftrightarrow> a \<and> b \<ge> 4" using header_of_ok(3) [of tx] hd'(1,2) by (simp add: F V)
  have ok: "tx_ok tx" unfolding tx_ok_def F V
    using hd'(1,2,4) t2(1-3) t3(1) t4(1,2) t5(1) unfolding F V g by (auto split: if_splits)
  show ?thesis
    using ok hd'(5) t2(5) t3(3) t4(4) t5(3) unfolding tx_Serialize_ok [OF ok] F V g by simp
qed

interpretation tx: strict_codec "\<lambda>tx. projr (tx_Serialize tx)" "tx_Unserialize tx_default" tx_ok
  by unfold_locales (fact tx_Unserialize_back tx_Unserialize_only)+

section \<open>Amounts\<close>

lemma wrap64_id: "in64 x \<Longrightarrow> wrap64 x = x"
  by (simp add: wrap64_def sint_word_of_int_in64)

lemma add_amounts_iff:
  assumes "M < 2 ^ 62" "MoneyRange M acc"
  shows "add_amounts M vs acc = Some v \<longleftrightarrow>
    (\<forall>x\<in>set vs. MoneyRange M x) \<and> MoneyRange M (acc + sum_list vs) \<and> v = acc + sum_list vs"
  using assms(2)
proof (induction vs arbitrary: acc)
  case Nil
  then show ?case by auto
next
  case (Cons x vs)
  show ?case
  proof (cases "MoneyRange M x")
    case True
    with Cons.prems assms(1) have "in64 (acc + x)" by (auto simp: MoneyRange_def in64_def)
    then have w: "wrap64 (acc + x) = acc + x" by (rule wrap64_id)
    have pos: "0 \<le> sum_list vs" if "\<forall>x\<in>set vs. MoneyRange M x" using that by (auto simp: MoneyRange_def intro: sum_list_nonneg)
    show ?thesis
    proof (cases "MoneyRange M (acc + x)")
      case t: True
      then show ?thesis using True Cons.IH [OF t] by (simp add: w Let_def add.assoc)
    next
      case False
      with True Cons.prems have "M < acc + x" by (auto simp: MoneyRange_def)
      then show ?thesis using False pos by (auto simp: w Let_def MoneyRange_def)
    qed
  qed (simp add: Let_def)
qed

lemma add_amounts_append: "add_amounts M (xs @ ys) = (\<lambda>acc. Option.bind (add_amounts M xs acc) (add_amounts M ys))"
proof
  show "add_amounts M (xs @ ys) acc = Option.bind (add_amounts M xs acc) (add_amounts M ys)" for acc
    by (induction xs arbitrary: acc) (auto simp: Let_def)
qed

lemma add_amounts_eq:
  assumes "0 \<le> M" "M < 2 ^ 62"
  shows "add_amounts M vs 0 =
    (if (\<forall>x\<in>set vs. MoneyRange M x) \<and> MoneyRange M (sum_list vs) then Some (sum_list vs) else None)"
proof -
  have "MoneyRange M 0" using assms(1) by (simp add: MoneyRange_def)
  note iff = add_amounts_iff [OF assms(2) this, of vs]
  show ?thesis using iff by (cases "add_amounts M vs 0") auto
qed

lemma wrap64_neg:
  assumes "in64 b" "M < 2 ^ 62"
  shows "MoneyRange M (wrap64 (- b)) \<longleftrightarrow> MoneyRange M (- b)" "MoneyRange M (- b) \<Longrightarrow> wrap64 (- b) = - b"
proof -
  have "in64 (- b) \<or> b = - (2 ^ 63)" using assms(1) by (auto simp: in64_def)
  then show "MoneyRange M (wrap64 (- b)) \<longleftrightarrow> MoneyRange M (- b)"
    using assms(2) by (auto simp: wrap64_id) (simp_all add: wrap64_def MoneyRange_def)
  show "wrap64 (- b) = - b" if "MoneyRange M (- b)" 
    using that assms(2) by (intro wrap64_id) (auto simp: MoneyRange_def in64_def)
qed

section \<open>Properties\<close>

text \<open>
  C10. The transaction formats are canonical: reading into a fresh object succeeds exactly on the
  serialisations of well-formed transactions of a known format, followed by anything, and yields the
  transaction that was written. So no two byte strings are accepted as the same transaction, and the hash
  of the serialisation identifies what was read.
\<close>

theorem transaction_format_canonical:
  "tx_Unserialize tx_default s = Inr (tx, r) \<longleftrightarrow> tx_ok tx \<and> (\<exists>b. tx_Serialize tx = Inr b \<and> s = b @ r)"
  by (auto simp: tx.read_iff tx_Serialize_ok)



text \<open>
  The value of a transaction's outputs is computed without overflow: \<open>GetValueOut\<close> returns a
  value exactly when every output, every \<open>vpub_old\<close> and a negative value balance are in the money
  range and so is their sum, and it is then that sum, whatever amounts an attacker puts into the 64-bit
  fields; it throws in all other cases.
\<close>

theorem GetValueOut_exact:
  assumes "0 \<le> M" "M < 2 ^ 62" "in64 (valueBalance tx)"
  defines "amounts \<equiv> map nValue (vout tx) @ (if valueBalance tx \<le> 0 then [- valueBalance tx] else []) @ map vpub_old (vjoinsplit tx)"
  shows "GetValueOut M tx = (if (\<forall>x\<in>set amounts. MoneyRange M x) \<and> MoneyRange M (sum_list amounts) then Some (sum_list amounts) else None)"
proof -
  let ?w = "map nValue (vout tx) @ (if valueBalance tx \<le> 0 then [wrap64 (- valueBalance tx)] else []) @ map vpub_old (vjoinsplit tx)"
  have "GetValueOut M tx = add_amounts M ?w 0"
    by (cases "valueBalance tx \<le> 0") (simp_all only: GetValueOut_def add_amounts_append if_True if_False append_Nil bind_assoc Option.bind.bind_lunit)
  also have "\<dots> = (if (\<forall>x\<in>set ?w. MoneyRange M x) \<and> MoneyRange M (sum_list ?w) then Some (sum_list ?w) else None)"
    by (rule add_amounts_eq [OF assms(1,2)])
  also have "\<dots> = (if (\<forall>x\<in>set amounts. MoneyRange M x) \<and> MoneyRange M (sum_list amounts) then Some (sum_list amounts) else None)"
  proof (cases "valueBalance tx \<le> 0 \<and> \<not> MoneyRange M (- valueBalance tx)")
    case True
    with wrap64_neg(1) [OF assms(3,2)]
    have "\<not> (\<forall>x\<in>set ?w. MoneyRange M x)" "\<not> (\<forall>x\<in>set amounts. MoneyRange M x)" by (simp_all add: amounts_def)
    then show ?thesis by simp
  next
    case False
    then have "?w = amounts" using wrap64_neg(2) [OF assms(3,2)] by (simp add: amounts_def)
    then show ?thesis by simp
  qed
  finally show ?thesis .
qed

theorem GetValueOut_exact_witness:
  "GetValueOut 20000000000000000 (tx_default\<lparr>vout := [\<lparr>nValue = 5, scriptPubKey = []\<rparr>, \<lparr>nValue = 7, scriptPubKey = []\<rparr>]\<rparr>) = Some 12 \<and>
   GetValueOut 20000000000000000 (tx_default\<lparr>vout := [\<lparr>nValue = 2 ^ 63 - 1, scriptPubKey = []\<rparr>, \<lparr>nValue = 7, scriptPubKey = []\<rparr>]\<rparr>) = None"
  by (subst (1 2) GetValueOut_exact) (simp_all add: tx_default_def in64_def MoneyRange_def)

end
