(* ===== verification/BlockProps.thy ===== *)
theory BlockProps
  imports BlockMerkle TransactionProps
begin

text \<open>
  The codecs of headers and blocks, and the properties of blocks: the hash of a block commits to its
  transactions, and Merkle branches are exact.
\<close>

section \<open>The codecs of headers and blocks\<close>

definition header_ok :: "CBlockHeader \<Rightarrow> bool" where
  "header_ok h \<longleftrightarrow> length (bh_hashPrevBlock h) = 32 \<and> length (bh_hashMerkleRoot h) = 32 \<and> length (bh_hashFinalSaplingRoot h) = 32 \<and>
     length (bh_nNonce h) = 32 \<and> length (bh_nSolution h) \<le> MAX_SIZE"

interpretation header: strict_codec header_Serialize header_Unserialize header_ok
  by unfold_locales
    (auto simp: header_Serialize_def header_Unserialize_def header_ok_def ser32.bind_read_back blob.bind_read_back byte_vector.bind_read_back
      rd_bind_Inr_iff stream_read_Inr ser32.read_iff byte_vector.read_iff)

text \<open>A transaction object as it is after reading: its hash is the hash of what it holds.\<close>

definition ctx_ok :: "CTransaction \<Rightarrow> bool" where
  "ctx_ok t \<longleftrightarrow> tx_ok (ct_tx t) \<and> ct_hash t = SerializeHash (projr (tx_Serialize (ct_tx t)))"

abbreviation ctx_bytes :: "CTransaction \<Rightarrow> bytes" where
  "ctx_bytes t \<equiv> projr (tx_Serialize (ct_tx t))"

lemma tx_Serialize_Inr: "tx_ok tx \<Longrightarrow> tx_Serialize tx = Inr (projr (tx_Serialize tx))"
  by (simp add: tx_Serialize_ok)

lemma CTransaction_Unserialize_iff:
  "CTransaction_Unserialize tx_default s = Inr (t, r) \<longleftrightarrow> ctx_ok t \<and> s = ctx_bytes t @ r"
proof -
  have "res_bind (CTransaction_copy tx) (\<lambda>ct. Inr (ct, s')) = Inr (t, r) \<longleftrightarrow> ctx_ok t \<and> ct_tx t = tx \<and> s' = r" if "tx_ok tx" for tx s'
  proof -
    have "CTransaction_copy tx = Inr \<lparr>ct_tx = tx, ct_hash = SerializeHash (projr (tx_Serialize tx))\<rparr>"
      using tx_Serialize_Inr [OF that] by (auto simp: CTransaction_copy_def tx_GetHash_def res_bind_Inr_iff)
    then show ?thesis using that by (cases t) (auto simp: ctx_ok_def)
  qed
  then show ?thesis by (auto simp: CTransaction_Unserialize_def rd_bind_Inr_iff tx.read_iff ctx_ok_def)
qed

interpretation ctx: strict_codec "\<lambda>t. projr (tx_Serialize (ct_tx t))" "CTransaction_Unserialize tx_default" ctx_ok
  by unfold_locales (simp_all add: CTransaction_Unserialize_iff)

interpretation vtx: strict_codec "Serialize_vector (\<lambda>t. projr (tx_Serialize (ct_tx t)))" "Unserialize_vector (CTransaction_Unserialize tx_default)" "vec_ok ctx_ok"
  by (rule vector_strict_codec) unfold_locales

definition block_ok :: "CBlock \<Rightarrow> bool" where
  "block_ok b \<longleftrightarrow> header_ok (b_header b) \<and> vec_ok ctx_ok (b_vtx b)"

lemma txs_Serialize_ok: "\<forall>t\<in>set ts. ctx_ok t \<Longrightarrow> txs_Serialize ts = Inr (concat (map (\<lambda>t. ctx_bytes t) ts))"
proof (induction ts)
  case (Cons t ts)
  then show ?case using tx_Serialize_Inr [of "ct_tx t"] by (auto simp: ctx_ok_def res_bind_Inr_iff)
qed simp

lemma block_Serialize_ok:
  "block_ok b \<Longrightarrow> block_Serialize b = Inr (header_Serialize (b_header b) @ Serialize_vector (\<lambda>t. ctx_bytes t) (b_vtx b))"
  by (simp add: block_ok_def block_Serialize_def txs_Serialize_ok Serialize_vector_def)

lemma block_format:
  "block_Unserialize b0 s = Inr (b, r) \<longleftrightarrow>
   block_ok b \<and> b_vMerkleTree b = b_vMerkleTree b0 \<and> (\<exists>bs. block_Serialize b = Inr bs \<and> s = bs @ r)"
proof -
  have "block_Unserialize b0 s = Inr (b, r) \<longleftrightarrow>
      block_ok b \<and> b_vMerkleTree b = b_vMerkleTree b0 \<and> s = header_Serialize (b_header b) @ Serialize_vector (\<lambda>t. ctx_bytes t) (b_vtx b) @ r"
    by (cases b; cases b0) (auto simp: block_Unserialize_def rd_bind_Inr_iff header.read_iff vtx.read_iff block_ok_def)
  then show ?thesis by (auto simp: block_Serialize_ok)
qed

section \<open>Properties\<close>

definition block_inputs :: "CBlock \<Rightarrow> bytes set" where
  "block_inputs b = (\<lambda>t. ctx_bytes t) ` set (b_vtx b) \<union> node_inputs (txids (b_vtx b))"

lemma txids_dsha: "\<forall>t\<in>set ts. ctx_ok t \<Longrightarrow> txids ts = map (\<lambda>t. dsha (ctx_bytes t)) ts"
  by (simp add: txids_def ctx_ok_def SerializeHash_def Hash1_def CHashWriter_GetHash_def CHashWriter_write_def)

lemma node_inputs_length: "\<forall>x\<in>set xs. length x = 32 \<Longrightarrow> m \<in> node_inputs xs \<Longrightarrow> length m = 64"
proof (induction xs rule: node_inputs.induct)
  case (1 xs)
  have "length m = 64" if "m \<in> set (pairs xs)" using that 1(2) by (induction xs rule: pairs.induct) auto
  with 1 show ?case using level_up_lengths by (subst (asm) (2) node_inputs.simps) (auto split: if_splits)
qed

lemma txids_apart:
  assumes "\<forall>t\<in>set ts. ctx_ok t" "\<forall>t\<in>set us. ctx_ok t" "inj_on dsha ((\<lambda>t. ctx_bytes t) ` set ts \<union> node_inputs (txids us))"
    "\<forall>t\<in>set ts. length (ctx_bytes t) \<noteq> 64"
  shows "set (txids ts) \<inter> dsha ` node_inputs (txids us) = {}"
proof -
  have "\<forall>x\<in>set (txids us). length x = 32" using assms(2) by (simp add: txids_dsha Hash_results length_fips_sha256)
  then have h: "m \<in> node_inputs (txids us) \<Longrightarrow> length m = 64" for m by (rule node_inputs_length)
  have False if "t \<in> set ts" "m \<in> node_inputs (txids us)" "dsha (ctx_bytes t) = dsha m" for t m
  proof -
    have "ctx_bytes t = m" by (rule inj_onD [OF assms(3) that(3)]) (use that in auto)
    then have "length (ctx_bytes t) = 64" using h [OF that(2)] by (simp only:)
    with assms(4) that(1) show False by blast
  qed
  then show ?thesis using assms(1) by (auto simp: txids_dsha)
qed

text \<open>
  C8. The hash of a block commits to the whole block. Two blocks as they are after reading, with the
  same header hash and each with the Merkle root its header claims and no repetition detected, are the
  same: same header, same transactions in the same order. That holds unless double SHA-256 collides on
  two of the headers, transactions and tree nodes hashed for the two blocks, and provided that no
  transaction is 64 bytes long, the length of a pair of tree nodes.
\<close>

theorem block_hash_commits:
  assumes "block_ok b1" "block_ok b2" "b_vtx b1 \<noteq> []" "b_vtx b2 \<noteq> []"
    "header_GetHash (b_header b1) = header_GetHash (b_header b2)"
    "fst (block_BuildMerkleTree b1) = (bh_hashMerkleRoot (b_header b1), False)"
    "fst (block_BuildMerkleTree b2) = (bh_hashMerkleRoot (b_header b2), False)"
    "\<forall>t\<in>set (b_vtx b1) \<union> set (b_vtx b2). length (projr (tx_Serialize (ct_tx t))) \<noteq> 64"
    "inj_on (\<lambda>m. projr (Hash1 m)) {header_Serialize (b_header b1), header_Serialize (b_header b2)}"
    "inj_on (\<lambda>m. projr (Hash1 m)) (block_inputs b1 \<union> block_inputs b2)"
  shows "b_header b1 = b_header b2 \<and> b_vtx b1 = b_vtx b2"
proof
  let ?x1 = "txids (b_vtx b1)" and ?x2 = "txids (b_vtx b2)"
  have ok: "\<forall>t\<in>set (b_vtx b1). ctx_ok t" "\<forall>t\<in>set (b_vtx b2). ctx_ok t" "header_ok (b_header b1)" "header_ok (b_header b2)"
    using assms(1,2) by (simp_all add: block_ok_def)
  have "header_GetHash h = Hash1 (header_Serialize h)" for h
    by (simp add: header_GetHash_def SerializeHash_def Hash1_def CHashWriter_GetHash_def CHashWriter_write_def)
  then have "dsha (header_Serialize (b_header b1)) = dsha (header_Serialize (b_header b2))" using assms(5) by simp
  then have "header_Serialize (b_header b1) = header_Serialize (b_header b2)" by (rule inj_onD [OF assms(9)]) simp_all
  with header.prefix_free [OF ok(3,4), of "[]" "[]"] show hd: "b_header b1 = b_header b2" by simp
  have root: "merkle_root ?x1 = merkle_root ?x2" "\<not> mutated_end ?x1" "\<not> mutated_end ?x2"
    using assms(6,7) hd by (auto simp: block_BuildMerkleTree_def BuildMerkleTree_eq)
  have l: "\<forall>x\<in>set ?x1. length x = 32" "\<forall>x\<in>set ?x2. length x = 32"
    using ok(1,2) by (simp_all add: txids_dsha Hash_results length_fips_sha256)
  have i: "inj_on dsha (node_inputs ?x1 \<union> node_inputs ?x2)" "inj_on dsha (node_inputs ?x2 \<union> node_inputs ?x1)"
    by (rule inj_on_subset [OF assms(10)]; auto simp: block_inputs_def)+
  have n: "\<forall>t\<in>set (b_vtx b1). length (ctx_bytes t) \<noteq> 64" "\<forall>t\<in>set (b_vtx b2). length (ctx_bytes t) \<noteq> 64"
    using assms(8) by blast+
  have sub: "inj_on dsha ((\<lambda>t. ctx_bytes t) ` set (b_vtx b1) \<union> node_inputs ?x2)" "inj_on dsha ((\<lambda>t. ctx_bytes t) ` set (b_vtx b2) \<union> node_inputs ?x1)"
    by (rule inj_on_subset [OF assms(10)]; auto simp: block_inputs_def)+
  note apart = txids_apart [OF ok(1,2) sub(1) n(1)] txids_apart [OF ok(2,1) sub(2) n(2)]
  have ne: "?x1 \<noteq> []" "?x2 \<noteq> []" using assms(3,4) by (simp_all add: txids_def)
  have "?x1 = ?x2"
  proof (cases "tree_height ?x1 \<le> tree_height ?x2")
    case True
    then show ?thesis by (rule root_binding [OF _ root(1) ne root(2,3) i(1) l apart(1)])
  next
    case False
    then have "tree_height ?x2 \<le> tree_height ?x1" by simp
    then show ?thesis by (rule root_binding [OF _ root(1) [symmetric] ne(2,1) root(3,2) i(2) l(2,1) apart(2), symmetric])
  qed
  then have eq: "map dsha (map (\<lambda>t. ctx_bytes t) (b_vtx b1)) = map dsha (map (\<lambda>t. ctx_bytes t) (b_vtx b2))"
    using ok(1,2) by (simp add: txids_dsha comp_def)
  have "map (\<lambda>t. ctx_bytes t) (b_vtx b1) = map (\<lambda>t. ctx_bytes t) (b_vtx b2)"
    by (rule map_inj_on [OF eq]) (auto intro: inj_on_subset [OF assms(10)] simp: block_inputs_def)
  then have "Serialize_vector (\<lambda>t. ctx_bytes t) (b_vtx b1) = Serialize_vector (\<lambda>t. ctx_bytes t) (b_vtx b2)"
    by (metis Serialize_vector_def length_map)
  with vtx.prefix_free [of "b_vtx b1" "b_vtx b2" "[]" "[]"] assms(1,2) show "b_vtx b1 = b_vtx b2" by (simp add: block_ok_def)
qed

definition small_ctx :: CTransaction where
  "small_ctx = \<lparr>ct_tx = tx_default, ct_hash = SerializeHash (projr (tx_Serialize tx_default))\<rparr>"

definition small_block :: CBlock where
  "small_block = (block_of_header (header_null\<lparr>bh_hashMerkleRoot := projr (ct_hash small_ctx)\<rparr>))\<lparr>b_vtx := [small_ctx]\<rparr>"

theorem block_hash_commits_witness:
  "b_header small_block = b_header (small_block\<lparr>b_vMerkleTree := [uint256_null]\<rparr>) \<and>
   b_vtx small_block = b_vtx (small_block\<lparr>b_vMerkleTree := [uint256_null]\<rparr>)"
proof (rule block_hash_commits)
  have tx: "tx_ok tx_default" by (simp add: tx_ok_def tx_default_def isSaplingV4_def isOverwinterV3_def)
  then have c: "ctx_ok small_ctx" by (simp add: ctx_ok_def small_ctx_def)
  then have "length (projr (ct_hash small_ctx)) = 32" using txids_dsha [of "[small_ctx]"] by (simp add: txids_def Hash_results length_fips_sha256)
  with c show "block_ok small_block" "block_ok (small_block\<lparr>b_vMerkleTree := [uint256_null]\<rparr>)"
    by (simp_all add: block_ok_def small_block_def block_of_header_def header_ok_def header_null_def)
  show "fst (block_BuildMerkleTree small_block) = (bh_hashMerkleRoot (b_header small_block), False)"
    "fst (block_BuildMerkleTree (small_block\<lparr>b_vMerkleTree := [uint256_null]\<rparr>)) = (bh_hashMerkleRoot (b_header (small_block\<lparr>b_vMerkleTree := [uint256_null]\<rparr>)), False)"
    by (simp_all add: block_BuildMerkleTree_def BuildMerkleTree_eq small_block_def block_of_header_def txids_def merkle_root_single mutated_end.simps [of "[x]" for x])
  have "length (projr (tx_Serialize tx_default)) = 10"
    unfolding tx_Serialize_ok [OF tx] by (simp add: tx_default_def isSaplingV4_def isOverwinterV3_def Serialize_vector_def WriteCompactSize_def ser_writedata32_def ser_writedata8_def WriteLE32_def)
  then show "\<forall>t\<in>set (b_vtx small_block) \<union> set (b_vtx (small_block\<lparr>b_vMerkleTree := [uint256_null]\<rparr>)). length (projr (tx_Serialize (ct_tx t))) \<noteq> 64"
    by (simp add: small_block_def block_of_header_def small_ctx_def)
qed (simp_all add: small_block_def block_of_header_def block_inputs_def txids_def node_inputs.simps [of "[x]" for x])

text \<open>
  C26. Merkle branches are exact. For every leaf, the branch that \<open>GetMerkleBranch\<close> takes from the tree
  leads \<open>CheckMerkleBranch\<close> from the leaf to the root, the root is the one that \<open>ComputeMerkleRoot\<close>
  computes with the double-hash routine for 64-byte blocks, and a repetition noticed while the tree is
  built is noticed there too. Conversely a branch of the right length that leads from some hash to the
  root at the position of a leaf is that leaf's branch and the hash is the leaf, unless double SHA-256
  collides on two of the inputs hashed for the tree and for the branch.
\<close>

theorem merkle_branch_exact:
  assumes "\<forall>x\<in>set leaves. length x = 32" "i < length leaves" "BuildMerkleTree leaves = (root, mutated, tree)"
    "length h = 32" "\<forall>x\<in>set br. length x = 32" "length br = length (GetMerkleBranch i (length leaves) 0 tree)"
    "inj_on (\<lambda>m. projr (Hash1 m)) (node_inputs leaves \<union> branch_inputs h br (int i))"
  shows "(CheckMerkleBranch h br (int i) = root \<longleftrightarrow> h = leaves ! i \<and> br = GetMerkleBranch i (length leaves) 0 tree) \<and>
    ComputeMerkleRoot leaves True = (root, snd (ComputeMerkleRoot leaves True)) \<and> (mutated \<longrightarrow> snd (ComputeMerkleRoot leaves True))"
proof -
  have t: "root = merkle_root leaves" "mutated = mutated_end leaves" "tree = tree_nodes leaves" using assms(3) by (simp_all add: BuildMerkleTree_eq)
  have "branch_fold h br (int i) = merkle_root leaves \<Longrightarrow> h = leaves ! i \<and> br = GetMerkleBranch i (length leaves) 0 tree"
    using branch_unique [of "[]" 0 leaves "length leaves" i h br] assms length_GetMerkleBranch [of leaves "length leaves"] by (simp add: t)
  moreover have "branch_fold (leaves ! i) (GetMerkleBranch i (length leaves) 0 tree) (int i) = merkle_root leaves"
    using branch_leads_to_root [of "[]" 0 leaves "length leaves" i] assms(2) by (simp add: t)
  ultimately show ?thesis using compute_root_eq [OF assms(1), of True False] mutated_end_any [of leaves]
    by (auto simp: CheckMerkleBranch_def ComputeMerkleRoot_def t)
qed

theorem merkle_branch_exact_witness:
  "CheckMerkleBranch (replicate 32 1) [replicate 32 2] (int 0) = fst (BuildMerkleTree [replicate 32 1, replicate 32 2])"
proof -
  let ?l = "[replicate 32 1, replicate 32 2] :: uint256 list"
  obtain r m t where b: "BuildMerkleTree ?l = (r, m, t)" by (cases "BuildMerkleTree ?l") auto
  have br: "GetMerkleBranch 0 (length ?l) 0 t = [replicate 32 2]"
  proof -
    have "GetMerkleBranch 0 2 0 t = [t ! 1]" by (subst GetMerkleBranch.simps, simp, subst GetMerkleBranch.simps, simp)
    then show ?thesis using b by (auto simp: BuildMerkleTree_eq tree_nodes.simps [of ?l] numeral_2_eq_2)
  qed
  have "node_inputs ?l \<union> branch_inputs (replicate 32 1) [replicate 32 2] (int 0) = {replicate 32 1 @ replicate 32 2}"
    by (simp add: node_inputs.simps [of ?l] node_inputs.simps [of "[x]" for x])
  then have "inj_on (\<lambda>m. projr (Hash1 m)) (node_inputs ?l \<union> branch_inputs (replicate 32 1) [replicate 32 2] (int 0))" by (simp only:) simp
  from merkle_branch_exact [of ?l 0, OF _ _ b _ _ _ this] br b show ?thesis by simp
qed

end
