(* ===== verification/MerkleBlockProps.thy ===== *)
theory MerkleBlockProps
  imports MerkleBlock BlockProps
begin

text \<open>
  Partial Merkle trees: the positions computed with 32-bit words are those of the levels of the block's
  tree, what is built is extracted again, and what is extracted lies in the block.
\<close>

section \<open>Levels by height\<close>

text \<open>The level at a height, and the leaves below a node of it.\<close>

abbreviation level :: "nat \<Rightarrow> uint256 list \<Rightarrow> uint256 list" where
  "level h xs \<equiv> (level_up ^^ h) xs"

definition below :: "nat \<Rightarrow> nat \<Rightarrow> 'a list \<Rightarrow> 'a list" where
  "below h pos xs = take (2 ^ h) (drop (pos * 2 ^ h) xs)"

lemma below_0: "pos < length xs \<Longrightarrow> below 0 pos xs = [xs ! pos]"
  by (simp add: below_def take_Suc_conv_app_nth)

lemma below_Suc: "below (Suc h) pos xs = below h (pos * 2) xs @ below h (pos * 2 + 1) xs"
proof -
  have e: "(2 :: nat) ^ Suc h = 2 ^ h + 2 ^ h" by simp
  have "take (2 ^ Suc h) ys = take (2 ^ h) ys @ take (2 ^ h) (drop (2 ^ h) ys)" for ys :: "'a list"
    unfolding e take_add ..
  from this [of "drop (pos * 2 ^ Suc h) xs"] show ?thesis by (simp add: below_def algebra_simps)
qed

lemma le_div_pow: "k \<le> m div 2 ^ h \<longleftrightarrow> k * 2 ^ h \<le> (m :: nat)"
  by (simp add: less_eq_div_iff_mult_less_eq)

lemma length_level: "length (level h xs) = (length xs + 2 ^ h - 1) div 2 ^ h"
proof (induction h)
  case (Suc h)
  let ?n = "length xs" and ?p = "2 ^ h :: nat"
  have p: "?p > 0" by simp
  have "length (level (Suc h) xs) = ((?n + ?p - 1) div ?p + 1) div 2" by (simp add: Suc)
  also have "(?n + ?p - 1) div ?p + 1 = (?n + 2 * ?p - 1) div ?p"
    using div_add_self2 [of ?p "?n + ?p - 1"] p by (simp only: add.commute [of 1] mult_2) (simp add: algebra_simps)
  also have "\<dots> div 2 = (?n + 2 ^ Suc h - 1) div 2 ^ Suc h" by (simp only: power_Suc mult.commute [of 2] div_mult2_eq)
  finally show ?case .
qed simp

lemma below_beyond: "length (level h xs) \<le> pos \<Longrightarrow> below h pos xs = []"
proof -
  assume "length (level h xs) \<le> pos"
  then have "length xs + 2 ^ h - 1 < (pos + 1) * 2 ^ h" unfolding length_level using div_less_iff_less_mult [of "2 ^ h" "length xs + 2 ^ h - 1" "pos + 1"] by simp
  then show ?thesis by (simp add: below_def)
qed

lemma below_nonempty: "pos < length (level h xs) \<Longrightarrow> length (below h pos xs) \<ge> 1"
proof -
  assume "pos < length (level h xs)"
  then have "Suc pos * 2 ^ h \<le> length xs + 2 ^ h - 1" unfolding length_level by (simp only: Suc_le_eq [symmetric] le_div_pow)
  moreover have "(2 :: nat) ^ h > 0" by simp
  ultimately have "pos * 2 ^ h < length xs" unfolding mult_Suc by linarith
  then show ?thesis by (simp add: below_def Suc_le_eq)
qed

lemma pairs_at:
  assumes "k < length (pairs ys)"
  shows "pairs ys ! k = ys ! (k * 2) @ (if k * 2 + 1 < length ys then ys ! (k * 2 + 1) else ys ! (k * 2))"
proof -
  have "min (2 * k + 1) (length ys - 1) = (if k * 2 + 1 < length ys then k * 2 + 1 else k * 2)" using assms by auto
  then show ?thesis using pairs_nth [OF assms] by (simp add: mult.commute)
qed

lemma level_up_nth:
  assumes "k < length (level_up ys)"
  shows "level_up ys ! k = hash2 (ys ! (k * 2)) (if k * 2 + 1 < length ys then ys ! (k * 2 + 1) else ys ! (k * 2))"
  using assms pairs_at [of k ys] by (simp add: level_up_pairs hash2_dsha)

text \<open>The positions the code computes with 32-bit words are those of the levels.\<close>

abbreviation fits :: "u32 \<Rightarrow> uint256 list \<Rightarrow> bool" where
  "fits n xs \<equiv> unat n = length xs \<and> length xs < 2 ^ 31"

lemma CalcTreeWidth_level:
  assumes "fits n xs" "h < 31"
  shows "unat (CalcTreeWidth n h) = length (level h xs)"
proof -
  have "(2 :: nat) ^ h \<le> 2 ^ 30" using assms(2) by (intro power_increasing) auto
  then have b: "length xs + 2 ^ h < 2 ^ 32" using assms(1) by simp
  have "(push_bit h 1 :: u32) = of_nat (2 ^ h)" by (simp add: push_bit_of_1)
  then have p: "unat (push_bit h 1 :: u32) = 2 ^ h" using b by (simp only: unat_of_nat_mod) simp
  have s: "unat (n + push_bit h 1) = length xs + 2 ^ h" using b assms(1) p by (subst unat_add_lem [THEN iffD1]) simp_all
  have "unat (w - 1) = unat w - 1" if "0 < unat w" for w :: u32
    using that by (subst unat_sub) (simp_all add: word_le_nat_alt)
  from this [of "n + push_bit h 1"] have "unat (n + push_bit h 1 - 1) = length xs + 2 ^ h - 1" unfolding s by simp
  then show ?thesis unfolding CalcTreeWidth_def unat_drop_bit length_level by (simp only:)
qed

lemma level_Suc_pos:
  assumes "pos < length (level (Suc h) xs)"
  shows "pos * 2 < length (level h xs)"
  using assms by simp

lemma CalcHash_level: "fits n xs \<Longrightarrow> h \<le> 31 \<Longrightarrow> pos < length (level h xs) \<Longrightarrow> CalcHash n h pos xs = level h xs ! pos"
proof (induction h arbitrary: pos)
  case (Suc h)
  note w = CalcTreeWidth_level [OF Suc.prems(1), of h]
  show ?case using Suc level_Suc_pos [OF Suc.prems(3)] level_up_nth [of pos "level h xs"] by (simp add: Let_def w)
qed simp

lemma level_height: "xs \<noteq> [] \<Longrightarrow> level (tree_height xs) xs = [merkle_root xs]"
proof (induction xs rule: tree_height.induct)
  case (1 xs)
  show ?case
  proof (cases "length xs > 1")
    case True
    have "level (tree_height xs) xs = level (tree_height (level_up xs)) (level_up xs)"
      using True by (subst tree_height.simps) (simp add: funpow_swap1)
    also have "\<dots> = [merkle_root (level_up xs)]" using 1(1) [OF True] 1(2) by simp
    finally show ?thesis using True by (simp add: merkle_root.simps [of xs])
  next
    case False
    with 1(2) obtain x where "xs = [x]" by (cases xs) auto
    then show ?thesis by (simp add: tree_height.simps [of "[x]"] merkle_root_single)
  qed
qed

lemma calc_height_eq:
  assumes "fits n xs" "h < 31" "length xs \<le> 2 ^ 30"
  shows "calc_height n h = h + tree_height (level h xs)"
  using assms(2)
proof (induction "31 - h" arbitrary: h rule: less_induct)
  case less
  have w: "CalcTreeWidth n h > 1 \<longleftrightarrow> length (level h xs) > 1"
    using CalcTreeWidth_level [OF assms(1) less.prems] by (simp add: word_less_nat_alt)
  show ?case
  proof (cases "length (level h xs) > 1")
    case True
    have "2 \<le> (length xs + 2 ^ h - 1) div 2 ^ h" using True by (simp only: length_level)
    then have "2 * 2 ^ h \<le> length xs + 2 ^ h - 1" by (simp only: le_div_pow)
    then have "(2 :: nat) ^ h < 2 ^ 30" using assms(3) by simp
    then have h: "h < 30" by (simp only: power_strict_increasing_iff)
    have "calc_height n h = calc_height n (h + 1)" using True w by (subst calc_height.simps) simp
    also have "\<dots> = h + 1 + tree_height (level (h + 1) xs)" using h by (intro less.hyps) simp_all
    also have "\<dots> = h + tree_height (level h xs)" using True by (simp add: tree_height.simps [of "level h xs"])
    finally show ?thesis .
  next
    case False
    then show ?thesis using w by (subst calc_height.simps, subst tree_height.simps) simp
  qed
qed

section \<open>What is built\<close>

lemma take_drop_nths: "take k (drop a xs) = map ((!) xs) [a..<min (a + k) (length xs)]"
  by (rule nth_equalityI) auto

lemma parent_of_match_below:
  assumes "unat n = length m"
  shows "parent_of_match n h pos m \<longleftrightarrow> True \<in> set (below h pos m)"
  unfolding parent_of_match_def below_def take_drop_nths using assms
  by (auto simp: list_ex_iff push_bit_eq_mult algebra_simps)

text \<open>The flags and hashes of a node, depth first.\<close>

fun pmt_bits :: "uint256 list \<Rightarrow> bool list \<Rightarrow> nat \<Rightarrow> nat \<Rightarrow> bool list" where
  "pmt_bits xs m 0 pos = [True \<in> set (below 0 pos m)]"
| "pmt_bits xs m (Suc h) pos =
     (if True \<in> set (below (Suc h) pos m)
      then True # pmt_bits xs m h (pos * 2) @ (if pos * 2 + 1 < length (level h xs) then pmt_bits xs m h (pos * 2 + 1) else [])
      else [False])"

fun pmt_hashes :: "uint256 list \<Rightarrow> bool list \<Rightarrow> nat \<Rightarrow> nat \<Rightarrow> uint256 list" where
  "pmt_hashes xs m 0 pos = [level 0 xs ! pos]"
| "pmt_hashes xs m (Suc h) pos =
     (if True \<in> set (below (Suc h) pos m)
      then pmt_hashes xs m h (pos * 2) @ (if pos * 2 + 1 < length (level h xs) then pmt_hashes xs m h (pos * 2 + 1) else [])
      else [level (Suc h) xs ! pos])"

lemma TraverseAndBuild_eq:
  assumes "fits (nTransactions t) xs" "length m = length xs"
  shows "h \<le> 31 \<Longrightarrow> pos < length (level h xs) \<Longrightarrow>
    TraverseAndBuild t h pos xs m = t\<lparr>vBits := vBits t @ pmt_bits xs m h pos, vHash := vHash t @ pmt_hashes xs m h pos\<rparr>"
  using assms
proof (induction h arbitrary: pos t)
  case 0
  then show ?case by (simp add: parent_of_match_below)
next
  case (Suc h)
  have w: "unat (CalcTreeWidth (nTransactions t) h) = length (level h xs)" using Suc.prems by (intro CalcTreeWidth_level) auto
  have p: "parent_of_match (nTransactions t) (Suc h) pos m \<longleftrightarrow> True \<in> set (below (Suc h) pos m)"
    using Suc.prems by (intro parent_of_match_below) simp
  have l: "pos * 2 < length (level h xs)" using Suc.prems(2) by simp
  show ?case
  proof (cases "True \<in> set (below (Suc h) pos m)")
    case False
    with p CalcHash_level [OF Suc.prems(3,1,2)] show ?thesis by (simp add: Let_def del: funpow.simps CalcHash.simps)
  next
    case True
    let ?t1 = "t\<lparr>vBits := vBits t @ [True]\<rparr>"
    let ?t2 = "?t1\<lparr>vBits := vBits ?t1 @ pmt_bits xs m h (pos * 2), vHash := vHash ?t1 @ pmt_hashes xs m h (pos * 2)\<rparr>"
    have t1: "TraverseAndBuild ?t1 h (pos * 2) xs m = ?t2" using Suc.prems l by (intro Suc.IH) simp_all
    have t2: "TraverseAndBuild ?t2 h (pos * 2 + 1) xs m =
        ?t2\<lparr>vBits := vBits ?t2 @ pmt_bits xs m h (pos * 2 + 1), vHash := vHash ?t2 @ pmt_hashes xs m h (pos * 2 + 1)\<rparr>"
      if "pos * 2 + 1 < length (level h xs)" using Suc.prems that by (intro Suc.IH) simp_all
    have "TraverseAndBuild t (Suc h) pos xs m =
        (if pos * 2 + 1 < length (level h xs) then TraverseAndBuild ?t2 h (pos * 2 + 1) xs m else ?t2)"
      unfolding TraverseAndBuild.simps Let_def using p True t1 by (simp only: w if_True not_True_eq_False if_False)
    with t2 True show ?thesis by (cases "pos * 2 + 1 < length (level h xs)") (simp_all del: funpow.simps TraverseAndBuild.simps)
  qed
qed

section \<open>What is extracted from it\<close>

abbreviation found :: "uint256 list \<Rightarrow> bool list \<Rightarrow> nat \<Rightarrow> nat \<Rightarrow> uint256 list" where
  "found xs m h pos \<equiv> map fst (filter snd (below h pos (zip xs m)))"

lemma below_zip: "below h pos (zip xs m) = zip (below h pos xs) (below h pos m)"
  by (simp add: below_def take_zip drop_zip)

lemma found_none: "True \<notin> set (below h pos m) \<Longrightarrow> found xs m h pos = []"
  unfolding below_zip by (auto simp: filter_empty_conv dest: set_zip_rightD)

lemma found_leaf: "pos < length xs \<Longrightarrow> length m = length xs \<Longrightarrow> found xs m 0 pos = (if m ! pos then [xs ! pos] else [])"
  by (simp add: below_0)

lemma take_hash_at:
  "vHash t = preh @ vs @ posth \<Longrightarrow> vs = [h] \<Longrightarrow> x_nHashUsed x = length preh \<Longrightarrow>
   take_hash t f x = (h, x\<lparr>x_nHashUsed := x_nHashUsed x + 1, x_vMatch := x_vMatch x @ (if f then [h] else [])\<rparr>)"
  by (simp add: take_hash_def Let_def nth_append)

lemma extract_built:
  assumes "fits (nTransactions t) xs" "length m = length xs"
  shows "h \<le> 31 \<Longrightarrow> pos < length (level h xs) \<Longrightarrow> \<forall>k<h. \<not> any_pair_equal (level k xs) \<Longrightarrow>
    vBits t = pre @ pmt_bits xs m h pos @ post \<Longrightarrow> vHash t = preh @ pmt_hashes xs m h pos @ posth \<Longrightarrow>
    x_nBitsUsed x = length pre \<Longrightarrow> x_nHashUsed x = length preh \<Longrightarrow>
    TraverseAndExtract t h pos x =
      (level h xs ! pos, x\<lparr>x_nBitsUsed := x_nBitsUsed x + length (pmt_bits xs m h pos),
                           x_nHashUsed := x_nHashUsed x + length (pmt_hashes xs m h pos),
                           x_vMatch := x_vMatch x @ found xs m h pos\<rparr>)"
proof (induction h arbitrary: pos x pre post preh posth)
  case 0
  have "vBits t ! x_nBitsUsed x = m ! pos" "x_nBitsUsed x < length (vBits t)"
    using 0 assms(2) by (simp_all add: nth_append below_0)
  moreover note take_hash_at [OF 0(5), of "xs ! pos" "x\<lparr>x_nBitsUsed := x_nBitsUsed x + 1\<rparr>" "m ! pos"]
  ultimately show ?case using 0 assms(2) by (simp add: found_leaf)
next
  case (Suc h)
  let ?P = "True \<in> set (below (Suc h) pos m)" and ?x = "x\<lparr>x_nBitsUsed := x_nBitsUsed x + 1\<rparr>"
  have w: "unat (CalcTreeWidth (nTransactions t) h) = length (level h xs)" using Suc.prems(1) assms(1) by (intro CalcTreeWidth_level) auto
  have l: "pos * 2 < length (level h xs)" using Suc.prems(2) by simp
  have b: "vBits t ! x_nBitsUsed x = ?P" "x_nBitsUsed x < length (vBits t)" using Suc.prems(4,6) by (auto simp: nth_append)
  show ?case
  proof (cases ?P)
    case False
    with b take_hash_at [OF Suc.prems(5), of "level (Suc h) xs ! pos" ?x False] Suc.prems(7)
    show ?thesis by (simp add: found_none del: funpow.simps)
  next
    case True
    define bl hl where "bl = pmt_bits xs m h (pos * 2)" and "hl = pmt_hashes xs m h (pos * 2)"
    let ?R = "pos * 2 + 1 < length (level h xs)"
    define br hr where "br = (if ?R then pmt_bits xs m h (pos * 2 + 1) else [])" and "hr = (if ?R then pmt_hashes xs m h (pos * 2 + 1) else [])"
    have V: "vBits t = (pre @ [True]) @ bl @ (br @ post)" "vHash t = preh @ hl @ (hr @ posth)"
      using Suc.prems(4,5) True by (simp_all add: bl_def hl_def br_def hr_def del: funpow.simps)
    define x1 where "x1 = ?x\<lparr>x_nBitsUsed := x_nBitsUsed x + 1 + length bl, x_nHashUsed := x_nHashUsed x + length hl,
      x_vMatch := x_vMatch x @ found xs m h (pos * 2)\<rparr>"
    have left: "TraverseAndExtract t h (pos * 2) ?x = (level h xs ! (pos * 2), x1)"
      using Suc.IH [of "pos * 2" "pre @ [True]" "br @ post" preh "hr @ posth" ?x] Suc.prems V l by (simp add: x1_def bl_def hl_def del: funpow.simps)
    have up: "level (Suc h) xs ! pos = hash2 (level h xs ! (pos * 2)) (if ?R then level h xs ! (pos * 2 + 1) else level h xs ! (pos * 2))"
      using level_up_nth [of pos "level h xs"] Suc.prems(2) by simp
    show ?thesis
    proof (cases ?R)
      case False
      then have "found xs m h (pos * 2 + 1) = []" using assms by (simp add: below_zip below_beyond)
      with False True b left up show ?thesis
        by (simp add: w x1_def below_Suc br_def hr_def bl_def hl_def del: funpow.simps)
    next
      case R: True
      have "\<not> any_pair_equal (level h xs)" using Suc.prems(3) by simp
      with R have ne: "level h xs ! (pos * 2 + 1) \<noteq> level h xs ! (pos * 2)" by (auto simp: any_pair_equal_iff mult.commute)
      have "TraverseAndExtract t h (pos * 2 + 1) x1 = (level h xs ! (pos * 2 + 1),
          x1\<lparr>x_nBitsUsed := x_nBitsUsed x1 + length br, x_nHashUsed := x_nHashUsed x1 + length hr, x_vMatch := x_vMatch x1 @ found xs m h (pos * 2 + 1)\<rparr>)"
        using Suc.IH [of "pos * 2 + 1" "pre @ [True] @ bl" post "preh @ hl" posth x1] Suc.prems V R
        by (simp add: x1_def br_def hr_def del: funpow.simps)
      with R True b left up ne show ?thesis
        by (simp add: w x1_def below_Suc br_def hr_def bl_def hl_def del: funpow.simps)
    qed
  qed
qed

lemma pmt_counts:
  assumes "length m = length xs"
  shows "pos < length (level h xs) \<Longrightarrow> length (pmt_hashes xs m h pos) \<le> length (below h pos xs) \<and>
    length (pmt_hashes xs m h pos) \<le> length (pmt_bits xs m h pos)"
proof (induction h arbitrary: pos)
  case 0
  then show ?case by (simp add: below_0)
next
  case (Suc h)
  have l: "pos * 2 < length (level h xs)" using Suc.prems by simp
  show ?case using Suc.IH [OF l] Suc.IH [of "pos * 2 + 1"] below_nonempty [OF Suc.prems]
    by (auto simp: below_Suc simp del: funpow.simps)
qed

section \<open>What an extracted tree proves\<close>

text \<open>The inputs hashed during the extraction.\<close>

fun extract_inputs :: "CPartialMerkleTree \<Rightarrow> nat \<Rightarrow> nat \<Rightarrow> extraction \<Rightarrow> bytes set" where
  "extract_inputs t 0 pos x = {}"
| "extract_inputs t (Suc h) pos x =
     (if x_nBitsUsed x \<ge> length (vBits t) \<or> \<not> vBits t ! x_nBitsUsed x then {}
      else case TraverseAndExtract t h (pos * 2) (x\<lparr>x_nBitsUsed := x_nBitsUsed x + 1\<rparr>) of (left, x1) \<Rightarrow>
             extract_inputs t h (pos * 2) (x\<lparr>x_nBitsUsed := x_nBitsUsed x + 1\<rparr>) \<union>
             (if pos * 2 + 1 < unat (CalcTreeWidth (nTransactions t) h)
              then insert (left @ fst (TraverseAndExtract t h (pos * 2 + 1) x1)) (extract_inputs t h (pos * 2 + 1) x1)
              else {left @ left}))"

lemma extract_node:
  assumes "\<not> (x_nBitsUsed x \<ge> length (vBits t) \<or> \<not> vBits t ! x_nBitsUsed x)"
    "TraverseAndExtract t h (pos * 2) (x\<lparr>x_nBitsUsed := x_nBitsUsed x + 1\<rparr>) = (left, x1)" "TraverseAndExtract t h (pos * 2 + 1) x1 = (right, x2)"
  shows "TraverseAndExtract t (Suc h) pos x =
      (if pos * 2 + 1 < unat (CalcTreeWidth (nTransactions t) h) then (hash2 left right, if right = left then x2\<lparr>x_fBad := True\<rparr> else x2)
       else (hash2 left left, x1))"
    and "extract_inputs t (Suc h) pos x = extract_inputs t h (pos * 2) (x\<lparr>x_nBitsUsed := x_nBitsUsed x + 1\<rparr>) \<union>
      (if pos * 2 + 1 < unat (CalcTreeWidth (nTransactions t) h) then insert (left @ right) (extract_inputs t h (pos * 2 + 1) x1) else {left @ left})"
  using assms(1) by (simp_all only: TraverseAndExtract.simps extract_inputs.simps assms(2,3) prod.case if_False de_Morgan_disj not_not fst_conv not_False_eq_True not_True_eq_False simp_thms)

lemma extract_bad: "x_fBad x \<Longrightarrow> x_fBad (snd (TraverseAndExtract t h pos x))"
proof (induction h arbitrary: pos x)
  case (Suc h)
  let ?x = "x\<lparr>x_nBitsUsed := x_nBitsUsed x + 1\<rparr>"
  obtain left x1 where e1: "TraverseAndExtract t h (pos * 2) ?x = (left, x1)" by fastforce
  obtain right x2 where e2: "TraverseAndExtract t h (pos * 2 + 1) x1 = (right, x2)" by fastforce
  have b: "x_fBad x1" using Suc.IH [of ?x "pos * 2"] Suc.prems e1 by simp
  then have "x_fBad x2" using Suc.IH [of x1 "pos * 2 + 1"] e2 by simp
  with b extract_node(1) [OF _ e1 e2] Suc.prems show ?case
    by (cases "x_nBitsUsed x \<ge> length (vBits t) \<or> \<not> vBits t ! x_nBitsUsed x") (auto simp: take_hash_def Let_def)
qed (auto simp: take_hash_def Let_def)

lemma length_extract:
  assumes "\<forall>v\<in>set (vHash t). length v = 32"
  shows "length (fst (TraverseAndExtract t h pos x)) = 32"
  using assms by (cases h) (auto simp: take_hash_def Let_def split: prod.split)

lemma node_inputs_level: "h < tree_height xs \<Longrightarrow> k < length (pairs (level h xs)) \<Longrightarrow> pairs (level h xs) ! k \<in> node_inputs xs"
proof (induction xs arbitrary: h rule: tree_height.induct)
  case (1 xs)
  have l: "length xs > 1" using 1(2) by (subst (asm) tree_height.simps) (simp split: if_splits)
  then have n: "node_inputs xs = set (pairs xs) \<union> node_inputs (level_up xs)" by (simp add: node_inputs.simps [of xs])
  show ?case
  proof (cases h)
    case 0
    with 1(3) show ?thesis unfolding n by (auto simp del: length_pairs)
  next
    case (Suc h')
    have "level h xs = level h' (level_up xs)" by (simp add: Suc funpow_swap1)
    moreover have "h' < tree_height (level_up xs)" using 1(2) l by (simp add: tree_height.simps [of xs] Suc)
    ultimately show ?thesis using 1(1) [OF l, of h'] 1(3) unfolding n by simp
  qed
qed

lemma level_lengths: "\<forall>v\<in>set xs. length v = 32 \<Longrightarrow> k < length (level h xs) \<Longrightarrow> length (level h xs ! k) = 32"
  by (cases h) (auto intro!: level_up_lengths nth_mem simp del: length_level_up)

lemma extract_sound:
  assumes "fits (nTransactions t) xs" "\<forall>v\<in>set (vHash t). length v = 32" "\<forall>v\<in>set xs. length v = 32"
  shows "h \<le> 31 \<Longrightarrow> h \<le> tree_height xs \<Longrightarrow> pos < length (level h xs) \<Longrightarrow> TraverseAndExtract t h pos x = (level h xs ! pos, x') \<Longrightarrow> \<not> x_fBad x' \<Longrightarrow>
    inj_on dsha (node_inputs xs \<union> extract_inputs t h pos x) \<Longrightarrow>
    \<exists>ms. x_vMatch x' = x_vMatch x @ ms \<and> subseq ms (below h pos xs)"
proof (induction h arbitrary: pos x x')
  case 0
  then show ?case by (auto simp: take_hash_def Let_def below_0 split: if_splits)
next
  case (Suc h)
  let ?x = "x\<lparr>x_nBitsUsed := x_nBitsUsed x + 1\<rparr>" and ?R = "pos * 2 + 1 < length (level h xs)"
  have w: "unat (CalcTreeWidth (nTransactions t) h) = length (level h xs)" using Suc.prems(1) assms(1) by (intro CalcTreeWidth_level) auto
  have l: "pos * 2 < length (level h xs)" using Suc.prems(3) by simp
  obtain left x1 where e1: "TraverseAndExtract t h (pos * 2) ?x = (left, x1)" by fastforce
  obtain right x2 where e2: "TraverseAndExtract t h (pos * 2 + 1) x1 = (right, x2)" by fastforce
  show ?case
  proof (cases "x_nBitsUsed x \<ge> length (vBits t) \<or> \<not> vBits t ! x_nBitsUsed x")
    case True
    then show ?thesis using Suc.prems(4,5) by (auto simp: take_hash_def Let_def split: if_splits)
  next
    case False
    define r where "r = (if ?R then right else left)"
    have run: "level (Suc h) xs ! pos = hash2 left r" "\<not> x_fBad x1" "?R \<Longrightarrow> \<not> x_fBad x2" "x_vMatch x' = (if ?R then x_vMatch x2 else x_vMatch x1)"
      using Suc.prems(4,5) extract_bad [of x1 t h "pos * 2 + 1"] unfolding extract_node(1) [OF False e1 e2] w e2 r_def by (auto split: if_splits)
    have ins: "extract_inputs t (Suc h) pos x = extract_inputs t h (pos * 2) ?x \<union> insert (left @ r) (if ?R then extract_inputs t h (pos * 2 + 1) x1 else {})"
      unfolding extract_node(2) [OF False e1 e2] w r_def by simp
    note inj = Suc.prems(6) [unfolded ins]
    have k: "pos < length (pairs (level h xs))" using Suc.prems(3) by simp
    have "dsha (left @ r) = dsha (pairs (level h xs) ! pos)" using run(1) k by (simp add: level_up_pairs hash2_dsha)
    then have "left @ r = pairs (level h xs) ! pos"
      by (rule inj_onD [OF inj]) (use Suc.prems(2) node_inputs_level [of h xs, OF _ k] in auto)
    also have "\<dots> = level h xs ! (pos * 2) @ (if ?R then level h xs ! (pos * 2 + 1) else level h xs ! (pos * 2))" using pairs_at [OF k] .
    finally have "left = level h xs ! (pos * 2) \<and> r = (if ?R then level h xs ! (pos * 2 + 1) else level h xs ! (pos * 2))"
    proof (subst (asm) append_eq_append_conv)
      have "length left = 32" using length_extract [OF assms(2), of h "pos * 2" ?x] e1 by simp
      moreover have "length (level h xs ! (pos * 2)) = 32"
        using l assms(3) by (intro level_lengths) (auto simp del: funpow.simps)
      ultimately show "length left = length (level h xs ! (pos * 2)) \<or> length r = length (if ?R then level h xs ! (pos * 2 + 1) else level h xs ! (pos * 2))" by simp
    qed simp
    note lr = this
    have "\<exists>ms. x_vMatch x1 = x_vMatch ?x @ ms \<and> subseq ms (below h (pos * 2) xs)"
      by (rule Suc.IH) (use Suc.prems(1,2) l e1 lr run in \<open>auto intro: inj_on_subset [OF inj]\<close>)
    then obtain ms1 where m1: "x_vMatch x1 = x_vMatch x @ ms1" "subseq ms1 (below h (pos * 2) xs)" by auto
    show ?thesis
    proof (cases ?R)
      case True
      have "\<exists>ms. x_vMatch x2 = x_vMatch x1 @ ms \<and> subseq ms (below h (pos * 2 + 1) xs)"
        by (rule Suc.IH) (use Suc.prems(1,2) True e2 lr run in \<open>auto simp: r_def intro: inj_on_subset [OF inj]\<close>)
      then obtain ms2 where m2: "x_vMatch x2 = x_vMatch x1 @ ms2" "subseq ms2 (below h (pos * 2 + 1) xs)" by auto
      show ?thesis using m1 m2 run(4) True by (intro exI [of _ "ms1 @ ms2"]) (auto simp: below_Suc list_emb_append_mono)
    next
      case False
      then show ?thesis using m1 run(4) by (intro exI [of _ ms1]) (auto simp: below_Suc below_beyond)
    qed
  qed
qed

section \<open>The packed flags\<close>

lemma bit_pack_byte: "bit (pack_byte p bs) k \<longleftrightarrow> k < 8 \<and> p \<le> k \<and> k - p < length bs \<and> bs ! (k - p)"
proof (induction p bs rule: pack_byte.induct)
  case (2 p b bs)
  have "bit (push_bit p (if b then 1 else 0) :: u8) k \<longleftrightarrow> b \<and> k = p \<and> k < 8" by (auto simp: bit_exp_iff)
  moreover have "k - Suc p = j" if "k - p = Suc j" for j using that by simp
  ultimately show ?case using 2 by (cases "k - p") (auto simp: bit_or_iff)
qed simp

lemma unpack_pack: "unpack_bits (pack_bits bs) = bs @ replicate ((length bs + 7) div 8 * 8 - length bs) False"
proof (rule nth_equalityI)
  let ?n = "(length bs + 7) div 8"
  have len: "length (pack_bits bs) = ?n" by (simp add: pack_bits_def)
  then show "length (unpack_bits (pack_bits bs)) = length (bs @ replicate (?n * 8 - length bs) False)"
    by (simp add: unpack_bits_def)
  fix p assume "p < length (unpack_bits (pack_bits bs))"
  then have p: "p < ?n * 8" using len by (simp add: unpack_bits_def)
  have "unpack_bits (pack_bits bs) ! p \<longleftrightarrow> bit (pack_bits bs ! (p div 8)) (p mod 8)"
    using p len by (simp add: unpack_bits_def and_push_bit_one del: push_bit_of_1)
  also have "pack_bits bs ! (p div 8) = pack_byte 0 (take 8 (drop (8 * (p div 8)) bs))"
    using p by (simp add: pack_bits_def less_mult_imp_div_less)
  also have "bit \<dots> (p mod 8) \<longleftrightarrow> p < length bs \<and> bs ! p"
  proof -
    have "p mod 8 < length bs - 8 * (p div 8) \<longleftrightarrow> p < length bs" using mult_div_mod_eq [of 8 p] by linarith
    then show ?thesis unfolding bit_pack_byte by (auto simp: min_def)
  qed
  finally show "unpack_bits (pack_bits bs) ! p = (bs @ replicate (?n * 8 - length bs) False) ! p"
    using p by (auto simp: nth_append)
qed

definition pmt_ok :: "CPartialMerkleTree \<Rightarrow> bool" where
  "pmt_ok t \<longleftrightarrow> length (vHash t) \<le> MAX_SIZE \<and> (\<forall>v\<in>set (vHash t). length v = 32) \<and> (length (vBits t) + 7) div 8 \<le> MAX_SIZE"

interpretation hash_vector: strict_codec "Serialize_vector (\<lambda>h. h)" "Unserialize_vector (stream_read 32)" "vec_ok (\<lambda>h. length h = 32)"
  by (rule vector_strict_codec) unfold_locales

lemma pmt_read_back:
  assumes "pmt_ok t"
  shows "pmt_Unserialize (pmt_Serialize t @ r) = Inr (t\<lparr>vBits := unpack_bits (pack_bits (vBits t)), fBad := False\<rparr>, r)"
proof -
  have "length (pack_bits (vBits t)) \<le> MAX_SIZE" using assms by (simp add: pmt_ok_def pack_bits_def)
  then show ?thesis using assms
    by (simp add: pmt_Unserialize_def pmt_Serialize_def pmt_ok_def ser32.bind_read_back hash_vector.bind_read_back byte_vector.bind_read_back)
qed

section \<open>Properties\<close>

lemma not_mutated_levels: "\<not> mutated_any xs \<Longrightarrow> k < tree_height xs \<Longrightarrow> \<not> any_pair_equal (level k xs)"
proof (induction xs arbitrary: k rule: tree_height.induct)
  case (1 xs)
  have l: "length xs > 1" using 1(3) by (subst (asm) tree_height.simps) (simp split: if_splits)
  then have m: "\<not> any_pair_equal xs" "\<not> mutated_any (level_up xs)" "tree_height xs = Suc (tree_height (level_up xs))"
    using 1(2) by (simp_all add: mutated_any.simps [of xs] tree_height.simps [of xs])
  show ?case
  proof (cases k)
    case (Suc k')
    then show ?thesis using 1(1) [OF l m(2), of k'] 1(3) m(3) by (simp add: funpow_swap1)
  qed (use m in simp)
qed

lemma limit_small: "int n \<le> MAX_BLOCK_SIZE s 10000000 div 60 \<Longrightarrow> n \<le> 69905"
  by (auto simp: MAX_BLOCK_SIZE_def split: if_splits)

lemma fits_of_nat: "length xs \<le> 69905 \<Longrightarrow> fits (of_nat (length xs)) xs"
  by (simp add: unat_of_nat_mod)

lemma tree_height_le: "length xs \<le> 69905 \<Longrightarrow> tree_height xs \<le> 17"
proof (rule ccontr)
  assume a: "length xs \<le> 69905" "\<not> tree_height xs \<le> 17"
  have "k \<le> tree_height xs \<Longrightarrow> 0 < k \<Longrightarrow> length (level (k - 1) xs) > 1" for k
  proof (induction xs arbitrary: k rule: tree_height.induct)
    case (1 xs)
    have l: "length xs > 1" using 1(2,3) by (subst (asm) tree_height.simps) (simp split: if_splits)
    show ?case
    proof (cases "k - 1")
      case (Suc k')
      then show ?thesis using 1(1) [OF l, of "Suc k'"] 1(2) l by (simp add: funpow_swap1 tree_height.simps [of xs])
    qed (use l in simp)
  qed
  from this [of 18] a(2) have "length (level 17 xs) > 1" by simp
  then show False unfolding length_level using a(1) by simp
qed

lemma built_tree:
  assumes "length m = length xs" "xs \<noteq> []" "length xs \<le> 69905"
  shows "CPartialMerkleTree_of xs m = \<lparr>nTransactions = of_nat (length xs), vBits = pmt_bits xs m (tree_height xs) 0,
    vHash = pmt_hashes xs m (tree_height xs) 0, fBad = False\<rparr>"
proof -
  note f = fits_of_nat [OF assms(3)]
  have h: "calc_height (of_nat (length xs)) 0 = tree_height xs" using calc_height_eq [OF f, of 0] assms(3) by simp
  have "0 < length (level (tree_height xs) xs)" using level_height [OF assms(2)] by simp
  moreover have "tree_height xs \<le> 31" using tree_height_le [OF assms(3)] by simp
  ultimately have "TraverseAndBuild t (tree_height xs) 0 xs m =
      t\<lparr>vBits := vBits t @ pmt_bits xs m (tree_height xs) 0, vHash := vHash t @ pmt_hashes xs m (tree_height xs) 0\<rparr>"
    if "fits (nTransactions t) xs" for t :: CPartialMerkleTree using that assms(1) by (intro TraverseAndBuild_eq)
  from this [of "\<lparr>nTransactions = of_nat (length xs), vBits = [], vHash = [], fBad = False\<rparr>"] f
  show ?thesis by (simp add: CPartialMerkleTree_of_def Let_def h)
qed

lemma pmt_hashes_lengths:
  assumes "\<forall>v\<in>set xs. length v = 32"
  shows "pos < length (level h xs) \<Longrightarrow> v \<in> set (pmt_hashes xs m h pos) \<Longrightarrow> length v = 32"
proof (induction h arbitrary: pos)
  case (Suc h)
  have "pos * 2 < length (level h xs)" using Suc.prems(1) by simp
  with Suc level_lengths [OF assms, of pos "Suc h"] show ?case by (auto split: if_splits simp del: funpow.simps)
qed (use assms in auto)

lemma pmt_bits_length: "length m = length xs \<Longrightarrow> pos < length (level h xs) \<Longrightarrow> length (pmt_bits xs m h pos) < 2 ^ Suc h"
proof (induction h arbitrary: pos)
  case (Suc h)
  have "(1 :: nat) \<le> 2 ^ h" by simp
  moreover   have "pos * 2 < length (level h xs)" using Suc.prems(2) by simp
  ultimately show ?case using Suc.IH [OF Suc.prems(1), of "pos * 2"] Suc.IH [OF Suc.prems(1), of "pos * 2 + 1"] by (auto simp del: funpow.simps)
qed simp

lemma below_root: "level h xs = [v] \<Longrightarrow> length ys \<le> length xs \<Longrightarrow> below h 0 ys = ys"
proof -
  assume a: "level h xs = [v]" "length ys \<le> length xs"
  then have "length xs + 2 ^ h - 1 < 2 * 2 ^ h"
    using length_level [of h xs] div_less_iff_less_mult [of "2 ^ h" "length xs + 2 ^ h - 1" 2] by simp
  with a(2) have "length ys \<le> 2 ^ h" by simp
  then show ?thesis by (simp add: below_def)
qed

text \<open>
  C27. A partial Merkle tree made from a block's transaction ids and a selection of them is written,
  read back, and yields the Merkle root of the block and exactly the selected ids, in order; the padding
  that packing the flags into bytes adds does no harm. Needed are at least one transaction, at most as
  many as fit into a block, and that the root shows no repetition, the defence against which also guards
  the extraction.
\<close>

theorem partial_tree_roundtrip:
  assumes "\<forall>x\<in>set txs. length x = 32" "length m = length txs" "txs \<noteq> []" "int (length txs) \<le> MAX_BLOCK_SIZE s 10000000 div 60"
    "ComputeMerkleRoot txs True = (root, False)"
  shows "\<exists>t. pmt_Unserialize (pmt_Serialize (CPartialMerkleTree_of txs m) @ r) = Inr (t, r) \<and>
    ExtractMatches s t = (root, map fst (filter snd (zip txs m)), t)"
proof -
  let ?h = "tree_height txs" and ?n = "of_nat (length txs) :: u32"
  let ?bits = "pmt_bits txs m ?h 0" and ?hs = "pmt_hashes txs m ?h 0"
  note l = limit_small [OF assms(4)]
  note f = fits_of_nat [OF l]
  have top: "level ?h txs = [merkle_root txs]" by (rule level_height [OF assms(3)])
  then have top0: "0 < length (level ?h txs)" "level ?h txs ! 0 = merkle_root txs" by simp_all
  have root: "root = merkle_root txs" "\<not> mutated_any txs"
    using assms(5) compute_root_eq [OF assms(1), of True False] by (simp_all add: ComputeMerkleRoot_def)
  have h: "calc_height ?n 0 = ?h" "?h \<le> 31" using calc_height_eq [OF f, of 0] l tree_height_le [OF l] by simp_all
  have all: "below ?h 0 txs = txs" "below ?h 0 (zip txs m) = zip txs m"
    using below_root [OF top, of txs] below_root [OF top, of "zip txs m"] by simp_all
  have counts: "length ?hs \<le> length txs" "length ?hs \<le> length ?bits"
    using pmt_counts [OF assms(2) top0(1)] all(1) by simp_all
  define t where "t = \<lparr>nTransactions = ?n, vBits = unpack_bits (pack_bits ?bits), vHash = ?hs, fBad = False\<rparr>"
  note built = built_tree [OF assms(2,3) l]
  have "length ?bits \<le> 2 ^ 18"
  proof -
    have "(2 :: nat) ^ Suc ?h \<le> 2 ^ 18" using tree_height_le [OF l] by (intro power_increasing) auto
    with pmt_bits_length [OF assms(2) top0(1)] show ?thesis by linarith
  qed
  then have "pmt_ok (CPartialMerkleTree_of txs m)"
    unfolding built pmt_ok_def using counts l pmt_hashes_lengths [OF assms(1) top0(1)] by auto
  from pmt_read_back [OF this, of r] have "pmt_Unserialize (pmt_Serialize (CPartialMerkleTree_of txs m) @ r) = Inr (t, r)"
    unfolding built by (simp add: t_def)
  moreover have "ExtractMatches s t = (root, map fst (filter snd (zip txs m)), t)"
  proof -
    have t: "nTransactions t = ?n" "vBits t = [] @ ?bits @ replicate ((length ?bits + 7) div 8 * 8 - length ?bits) False" "vHash t = [] @ ?hs @ []"
      by (simp_all add: t_def unpack_pack)
    have x: "TraverseAndExtract t ?h 0 \<lparr>x_nBitsUsed = 0, x_nHashUsed = 0, x_vMatch = [], x_fBad = fBad t\<rparr> =
        (merkle_root txs, \<lparr>x_nBitsUsed = length ?bits, x_nHashUsed = length ?hs, x_vMatch = map fst (filter snd (zip txs m)), x_fBad = False\<rparr>)"
      using extract_built [OF _ assms(2) h(2) top0(1) _ t(2,3), of "\<lparr>x_nBitsUsed = 0, x_nHashUsed = 0, x_vMatch = [], x_fBad = fBad t\<rparr>"]
        f t(1) not_mutated_levels [OF root(2)] all(2) top0(2) by (simp add: t_def)
    have "?n \<noteq> 0" "length (vBits t) = (length ?bits + 7) div 8 * 8" "length (vBits t) \<ge> length ?hs"
      using f assms(3) counts(2) by (auto simp: t(2) unat_eq_0 [symmetric] simp del: unat_eq_0)
    then show ?thesis
      using x f assms(4) counts h(1) root(1) unfolding ExtractMatches_def t(1) by (simp add: t_def)
  qed
  ultimately show ?thesis by blast
qed

definition two_txs :: "uint256 list" where
  "two_txs = [replicate 32 1, replicate 32 2]"

lemma two_txs_facts:
  "\<forall>x\<in>set two_txs. length x = 32" "length two_txs = 2" "two_txs \<noteq> []" "int (length two_txs) \<le> MAX_BLOCK_SIZE s 10000000 div 60"
  "ComputeMerkleRoot two_txs True = (hash2 (replicate 32 1) (replicate 32 2), False)" "tree_height two_txs = 1"
proof -
  show l: "\<forall>x\<in>set two_txs. length x = 32" by (simp add: two_txs_def)
  have "\<not> mutated_any two_txs"
    by (simp add: two_txs_def mutated_any.simps [of "[a, b]" for a b] mutated_any.simps [of "[a]" for a] replicate_numeral)
  then show "ComputeMerkleRoot two_txs True = (hash2 (replicate 32 1) (replicate 32 2), False)"
    using compute_root_eq [OF l, of True False]
    by (simp add: ComputeMerkleRoot_def) (simp add: two_txs_def merkle_root.simps [of "[a, b]" for a b] merkle_root_single)
qed (simp_all add: two_txs_def MAX_BLOCK_SIZE_def tree_height.simps [of "[a, b]" for a b] tree_height.simps [of "[a]" for a])

theorem partial_tree_roundtrip_witness:
  "\<exists>t. pmt_Unserialize (pmt_Serialize (CPartialMerkleTree_of two_txs [False, True])) = Inr (t, []) \<and>
    ExtractMatches 1 t = (hash2 (replicate 32 1) (replicate 32 2), [replicate 32 2], t)"
  using partial_tree_roundtrip [OF two_txs_facts(1) _ two_txs_facts(3,4,5), of "[False, True]" "[]" 1]
  by (simp add: two_txs_facts(2)) (simp add: two_txs_def)



end
