(* ===== verification/IncrementalMerkleTree.thy ===== *)
theory IncrementalMerkleTree
  imports Serialize Hash
begin

text \<open>
  \<^verbatim>\<open>src/zcash/IncrementalMerkleTree.cpp\<close>: the note commitment trees. A tree keeps only what
  later appends and roots need: the two leaves at the end and, for each level above, the root of a
  completed left subtree if there is one. A witness keeps a tree as it was when its last leaf was
  appended, and what has been appended since. The class is a template over the depth and the hash; the
  record \<open>hash_ops\<close> carries the hash's two static functions, with SHA-256's compression function as
  the Sprout instance (the Pedersen hash of Sapling is computed by librustzcash and stays a parameter).
  The specification is the root of the complete binary tree whose leaves are the appended
  commitments followed by the uncommitted value.
\<close>

record 'h hash_ops =
  combine :: "'h \<Rightarrow> 'h \<Rightarrow> nat \<Rightarrow> 'h"
  uncommitted :: 'h

abbreviation INCREMENTAL_MERKLE_TREE_DEPTH :: nat where
  "INCREMENTAL_MERKLE_TREE_DEPTH \<equiv> 29"

abbreviation SAPLING_INCREMENTAL_MERKLE_TREE_DEPTH :: nat where
  "SAPLING_INCREMENTAL_MERKLE_TREE_DEPTH \<equiv> 32"

text \<open>
  The hash of Sprout: no padding, the 64 bytes of the two children are one block. The exception of
  \<open>FinalizeNoPadding\<close> is for other lengths and cannot occur with two 32-byte children.
\<close>

definition SHA256Compress_combine :: "bytes \<Rightarrow> bytes \<Rightarrow> nat \<Rightarrow> bytes" where
  "SHA256Compress_combine a b depth =
     (case CSHA256_FinalizeNoPadding (CSHA256_Write (CSHA256_Write CSHA256_init a) b) True of
        Inr res \<Rightarrow> res | Inl _ \<Rightarrow> replicate 32 0)"

definition SHA256Compress :: "bytes hash_ops" where
  "SHA256Compress = \<lparr>combine = SHA256Compress_combine, uncommitted = replicate 32 0\<rparr>"

section \<open>The tree\<close>

record 'h IncrementalMerkleTree =
  left :: "'h option"
  right :: "'h option"
  parents :: "'h option list"

datatype tree_error = TreeFull | NoCursor | TooManyParents | NonCanonicalTree | BeginningOfTree

definition tree_empty :: "'h IncrementalMerkleTree" where
  "tree_empty = \<lparr>left = None, right = None, parents = []\<rparr>"

primrec empty_root :: "'h hash_ops \<Rightarrow> nat \<Rightarrow> 'h" where
  "empty_root H 0 = uncommitted H"
| "empty_root H (Suc d) = combine H (empty_root H d) (empty_root H d) d"

definition wfcheck :: "nat \<Rightarrow> 'h IncrementalMerkleTree \<Rightarrow> tree_error + unit" where
  "wfcheck Depth t =
     (if length (parents t) \<ge> Depth then Inl TooManyParents
      else if parents t \<noteq> [] \<and> last (parents t) = None then Inl NonCanonicalTree
      else if left t = None \<and> right t \<noteq> None then Inl NonCanonicalTree
      else if left t = None \<and> length (parents t) > 0 then Inl NonCanonicalTree
      else Inr ())"

definition tree_last :: "'h IncrementalMerkleTree \<Rightarrow> tree_error + 'h" where
  "tree_last t = (case right t of Some r \<Rightarrow> Inr r | None \<Rightarrow> (case left t of Some l \<Rightarrow> Inr l | None \<Rightarrow> Inl NoCursor))"

text \<open>The shift is done on a 32-bit \<open>int\<close> and its result converted to \<open>size_t\<close>.\<close>

primrec size_parents :: "nat \<Rightarrow> 'h option list \<Rightarrow> u64" where
  "size_parents i [] = 0"
| "size_parents i (p # ps) =
     (if p \<noteq> None then scast (push_bit (i + 1) 1 :: u32) else 0) + size_parents (i + 1) ps"

definition tree_size :: "'h IncrementalMerkleTree \<Rightarrow> u64" where
  "tree_size t = (if left t \<noteq> None then 1 else 0) + (if right t \<noteq> None then 1 else 0) + size_parents 0 (parents t)"

definition is_complete :: "nat \<Rightarrow> 'h IncrementalMerkleTree \<Rightarrow> bool" where
  "is_complete depth t \<longleftrightarrow>
     left t \<noteq> None \<and> right t \<noteq> None \<and> length (parents t) + 1 = depth \<and> (\<forall>p\<in>set (parents t). p \<noteq> None)"

text \<open>
  The loop that carries a combined pair up: \<open>k\<close> iterations are left, \<open>d\<close> is \<open>i + 1\<close>, the
  list starts at \<open>parents[i]\<close>.
\<close>

fun append_parents :: "'h hash_ops \<Rightarrow> nat \<Rightarrow> nat \<Rightarrow> 'h \<Rightarrow> 'h option list \<Rightarrow> 'h option list" where
  "append_parents H 0 d combined ps = ps"
| "append_parents H (Suc k) d combined [] = [Some combined]"
| "append_parents H (Suc k) d combined (Some p # ps) = None # append_parents H k (d + 1) (combine H p combined d) ps"
| "append_parents H (Suc k) d combined (None # ps) = Some combined # ps"

definition tree_append :: "'h hash_ops \<Rightarrow> nat \<Rightarrow> 'h IncrementalMerkleTree \<Rightarrow> 'h \<Rightarrow> tree_error + 'h IncrementalMerkleTree" where
  "tree_append H Depth t obj =
     (if is_complete Depth t then Inl TreeFull
      else case left t of
             None \<Rightarrow> Inr (t\<lparr>left := Some obj\<rparr>)
           | Some l \<Rightarrow>
             (case right t of
                None \<Rightarrow> Inr (t\<lparr>right := Some obj\<rparr>)
              | Some r \<Rightarrow> Inr \<lparr>left = Some obj, right = None,
                            parents = append_parents H Depth 1 (combine H l r 0) (parents t)\<rparr>))"

text \<open>\<open>PathFiller\<close>: hashes from the queue first, then the roots of empty subtrees.\<close>

definition filler_next :: "'h hash_ops \<Rightarrow> nat \<Rightarrow> 'h list \<Rightarrow> 'h \<times> 'h list" where
  "filler_next H depth queue = (case queue of h # q \<Rightarrow> (h, q) | [] \<Rightarrow> (empty_root H depth, []))"

fun next_depth_parents :: "nat \<Rightarrow> 'h option list \<Rightarrow> nat \<Rightarrow> nat" where
  "next_depth_parents d [] skip = d + skip"
| "next_depth_parents d (Some p # ps) skip = next_depth_parents (d + 1) ps skip"
| "next_depth_parents d (None # ps) skip =
     (if skip \<noteq> 0 then next_depth_parents (d + 1) ps (skip - 1) else d)"

definition next_depth :: "'h IncrementalMerkleTree \<Rightarrow> nat \<Rightarrow> nat" where
  "next_depth t skip =
     (if left t = None \<and> skip = 0 then 0
      else let skip = (if left t = None then skip - 1 else skip)
           in if right t = None \<and> skip = 0 then 0
              else let skip = (if right t = None then skip - 1 else skip) in next_depth_parents 1 (parents t) skip)"

fun root_parents :: "'h hash_ops \<Rightarrow> nat \<Rightarrow> 'h option list \<Rightarrow> 'h \<Rightarrow> 'h list \<Rightarrow> 'h \<times> nat \<times> 'h list" where
  "root_parents H d [] r q = (r, d, q)"
| "root_parents H d (Some p # ps) r q = root_parents H (d + 1) ps (combine H p r d) q"
| "root_parents H d (None # ps) r q =
     (let (h, q') = filler_next H d q in root_parents H (d + 1) ps (combine H r h d) q')"

function root_fill :: "'h hash_ops \<Rightarrow> nat \<Rightarrow> nat \<Rightarrow> 'h \<Rightarrow> 'h list \<Rightarrow> 'h" where
  "root_fill H depth d r q =
     (if d < depth then let (h, q') = filler_next H d q in root_fill H depth (d + 1) (combine H r h d) q' else r)"
  by pat_completeness auto
termination by (relation "measure (\<lambda>(_, depth, d, _). depth - d)") auto

declare root_fill.simps [simp del]

definition tree_root_with :: "'h hash_ops \<Rightarrow> 'h IncrementalMerkleTree \<Rightarrow> nat \<Rightarrow> 'h list \<Rightarrow> 'h" where
  "tree_root_with H t depth filler_hashes =
     (let (combine_left, q) = (case left t of Some l \<Rightarrow> (l, filler_hashes) | None \<Rightarrow> filler_next H 0 filler_hashes);
          (combine_right, q) = (case right t of Some r \<Rightarrow> (r, q) | None \<Rightarrow> filler_next H 0 q);
          (r, d, q) = root_parents H 1 (parents t) (combine H combine_left combine_right 0) q
      in root_fill H depth d r q)"

definition tree_root :: "'h hash_ops \<Rightarrow> nat \<Rightarrow> 'h IncrementalMerkleTree \<Rightarrow> 'h" where
  "tree_root H Depth t = tree_root_with H t Depth []"

text \<open>
  The authentication path and the position bits, leaf first; the code reverses both at the end and turns
  every hash into the vector of its bits, most significant first.
\<close>

fun path_parents :: "'h hash_ops \<Rightarrow> nat \<Rightarrow> 'h option list \<Rightarrow> 'h list \<Rightarrow> (bool \<times> 'h) list \<times> nat \<times> 'h list" where
  "path_parents H d [] q = ([], d, q)"
| "path_parents H d (Some p # ps) q = (let (es, r) = path_parents H (d + 1) ps q in ((True, p) # es, r))"
| "path_parents H d (None # ps) q =
     (let (h, q') = filler_next H d q; (es, r) = path_parents H (d + 1) ps q' in ((False, h) # es, r))"

function path_fill :: "'h hash_ops \<Rightarrow> nat \<Rightarrow> nat \<Rightarrow> 'h list \<Rightarrow> (bool \<times> 'h) list" where
  "path_fill H Depth d q =
     (if d < Depth then let (h, q') = filler_next H d q in (False, h) # path_fill H Depth (d + 1) q' else [])"
  by pat_completeness auto
termination by (relation "measure (\<lambda>(_, Depth, d, _). Depth - d)") auto

declare path_fill.simps [simp del]

definition tree_path :: "'h hash_ops \<Rightarrow> nat \<Rightarrow> 'h IncrementalMerkleTree \<Rightarrow> 'h list \<Rightarrow> tree_error + ('h list \<times> bool list)" where
  "tree_path H Depth t filler_hashes =
     (case left t of
        None \<Rightarrow> Inl BeginningOfTree
      | Some l \<Rightarrow>
        (let (e, q) = (case right t of Some r \<Rightarrow> ((True, l), filler_hashes)
                       | None \<Rightarrow> (let (h, q') = filler_next H 0 filler_hashes in ((False, h), q')));
             (es, d, q) = path_parents H 1 (parents t) q;
             entries = e # es @ path_fill H Depth d q
         in Inr (rev (map snd entries), rev (map fst entries))))"

section \<open>Witnesses\<close>

record 'h IncrementalWitness =
  wtree :: "'h IncrementalMerkleTree"
  filled :: "'h list"
  cursor :: "'h IncrementalMerkleTree option"
  cursor_depth :: nat

definition tree_witness :: "'h IncrementalMerkleTree \<Rightarrow> 'h IncrementalWitness" where
  "tree_witness t = \<lparr>wtree = t, filled = [], cursor = None, cursor_depth = 0\<rparr>"

definition partial_path :: "'h hash_ops \<Rightarrow> 'h IncrementalWitness \<Rightarrow> 'h list" where
  "partial_path H w = filled w @ (case cursor w of Some c \<Rightarrow> [tree_root_with H c (cursor_depth w) []] | None \<Rightarrow> [])"

definition witness_path :: "'h hash_ops \<Rightarrow> nat \<Rightarrow> 'h IncrementalWitness \<Rightarrow> tree_error + ('h list \<times> bool list)" where
  "witness_path H Depth w = tree_path H Depth (wtree w) (partial_path H w)"

definition witness_element :: "'h IncrementalWitness \<Rightarrow> tree_error + 'h" where
  "witness_element w = tree_last (wtree w)"

definition witness_position :: "'h IncrementalWitness \<Rightarrow> u64" where
  "witness_position w = tree_size (wtree w) - 1"

definition witness_root :: "'h hash_ops \<Rightarrow> nat \<Rightarrow> 'h IncrementalWitness \<Rightarrow> 'h" where
  "witness_root H Depth w = tree_root_with H (wtree w) Depth (partial_path H w)"

definition witness_append :: "'h hash_ops \<Rightarrow> nat \<Rightarrow> 'h IncrementalWitness \<Rightarrow> 'h \<Rightarrow> tree_error + 'h IncrementalWitness" where
  "witness_append H Depth w obj =
     (case cursor w of
        Some c \<Rightarrow>
          res_bind (tree_append H Depth c obj) (\<lambda>c'.
            Inr (if is_complete (cursor_depth w) c'
                 then w\<lparr>filled := filled w @ [tree_root_with H c' (cursor_depth w) []], cursor := None\<rparr>
                 else w\<lparr>cursor := Some c'\<rparr>))
      | None \<Rightarrow>
          let cd = next_depth (wtree w) (length (filled w))
          in if cd \<ge> Depth then Inl TreeFull
             else if cd = 0 then Inr (w\<lparr>cursor_depth := cd, filled := filled w @ [obj]\<rparr>)
             else res_bind (tree_append H Depth tree_empty obj) (\<lambda>c. Inr (w\<lparr>cursor_depth := cd, cursor := Some c\<rparr>)))"

section \<open>Serialisation\<close>

definition tree_Serialize :: "nat \<Rightarrow> bytes IncrementalMerkleTree \<Rightarrow> tree_error + bytes" where
  "tree_Serialize Depth t =
     res_bind (wfcheck Depth t) (\<lambda>_.
       Inr (Serialize_optional (\<lambda>b. b) (left t) @ Serialize_optional (\<lambda>b. b) (right t) @
            Serialize_vector (Serialize_optional (\<lambda>b. b)) (parents t)))"

definition tree_Unserialize :: "nat \<Rightarrow> bytes \<Rightarrow> (ser_error + tree_error) + (bytes IncrementalMerkleTree \<times> bytes)" where
  "tree_Unserialize Depth s =
     (case rd_bind (Unserialize_optional (stream_read 32)) (\<lambda>l. rd_bind (Unserialize_optional (stream_read 32)) (\<lambda>r.
           rd_bind (Unserialize_vector (Unserialize_optional (stream_read 32))) (\<lambda>ps.
             rd_return \<lparr>left = l, right = r, parents = ps\<rparr>))) s of
        Inl e \<Rightarrow> Inl (Inl e)
      | Inr (t, rest) \<Rightarrow> (case wfcheck Depth t of Inl e \<Rightarrow> Inl (Inr e) | Inr _ \<Rightarrow> Inr (t, rest)))"

end
