(* ===== verification/IncrementalMerkleTreeProps.thy ===== *)
theory IncrementalMerkleTreeProps
  imports IncrementalMerkleTree
begin

text \<open>
  The note commitment tree of \<open>IncrementalMerkleTree\<close> computes the root of the complete binary tree
  over what was appended, and a witness stays a proof of its commitment while the tree grows. The
  predicates \<open>tree_rep\<close> and \<open>witness_rep\<close> say which leaves an object stands for; appends
  preserve them, and roots and paths are functions of the leaves.
\<close>

section \<open>The specification\<close>

text \<open>The root of the complete binary tree of depth \<open>d\<close> over the given leaves.\<close>

fun mroot :: "'h hash_ops \<Rightarrow> nat \<Rightarrow> 'h list \<Rightarrow> 'h" where
  "mroot H 0 xs = (case xs of [] \<Rightarrow> uncommitted H | x # _ \<Rightarrow> x)"
| "mroot H (Suc d) xs = combine H (mroot H d (take (2 ^ d) xs)) (mroot H d (drop (2 ^ d) xs)) d"

lemma mroot_Nil [simp]: "mroot H d [] = empty_root H d"
  by (induction d) simp_all

lemma mroot_pad: "length zs \<le> 2 ^ d \<Longrightarrow> mroot H (Suc d) zs = combine H (mroot H d zs) (empty_root H d) d"
  by simp

lemma mroot_join: "length us = 2 ^ d \<Longrightarrow> mroot H (Suc d) (us @ vs) = combine H (mroot H d us) (mroot H d vs) d"
  by simp

declare mroot.simps(2) [simp del]

text \<open>
  What the list of parents from level \<open>d\<close> on stands for: the leaves before the last pair, in
  completed subtrees of growing size from right to left.
\<close>

fun parents_rep :: "'h hash_ops \<Rightarrow> nat \<Rightarrow> 'h option list \<Rightarrow> 'h list \<Rightarrow> bool" where
  "parents_rep H d [] ys \<longleftrightarrow> ys = []"
| "parents_rep H d (None # ps) ys \<longleftrightarrow> parents_rep H (d + 1) ps ys"
| "parents_rep H d (Some h # ps) ys \<longleftrightarrow>
     (\<exists>us vs. ys = us @ vs \<and> length vs = 2 ^ d \<and> h = mroot H d vs \<and> parents_rep H (d + 1) ps us)"

definition tree_rep :: "'h hash_ops \<Rightarrow> 'h IncrementalMerkleTree \<Rightarrow> 'h list \<Rightarrow> bool" where
  "tree_rep H t xs \<longleftrightarrow>
     (case (left t, right t) of
        (None, None) \<Rightarrow> xs = [] \<and> parents t = []
      | (Some a, None) \<Rightarrow> (\<exists>ys. xs = ys @ [a] \<and> parents_rep H 1 (parents t) ys)
      | (Some a, Some b) \<Rightarrow> (\<exists>ys. xs = ys @ [a, b] \<and> parents_rep H 1 (parents t) ys)
      | (None, Some b) \<Rightarrow> False) \<and>
     (parents t \<noteq> [] \<longrightarrow> last (parents t) \<noteq> None)"

section \<open>The tree stands for the leaves appended to it\<close>

lemma parents_rep_length:
  "parents_rep H d ps ys \<Longrightarrow> length ys + 2 ^ d \<le> 2 ^ (d + length ps)"
  "parents_rep H d ps ys \<Longrightarrow> length ys + 2 ^ d = 2 ^ (d + length ps) \<longleftrightarrow> (\<forall>p\<in>set ps. p \<noteq> None)"
  "parents_rep H d ps ys \<Longrightarrow> ps \<noteq> [] \<Longrightarrow> last ps \<noteq> None \<Longrightarrow> 2 ^ (d + length ps) \<le> 2 * length ys"
proof -
  have "length ys + 2 ^ d \<le> 2 ^ (d + length ps) \<and>
      (length ys + 2 ^ d = 2 ^ (d + length ps) \<longleftrightarrow> (\<forall>p\<in>set ps. p \<noteq> None)) \<and>
      (ps \<noteq> [] \<longrightarrow> last ps \<noteq> None \<longrightarrow> 2 ^ (d + length ps) \<le> 2 * length ys)" if "parents_rep H d ps ys"
    using that
  proof (induction H d ps ys rule: parents_rep.induct)
    case (2 H d ps ys)
    have "(2::nat) ^ d < 2 ^ (d + 1)" by simp
    moreover have "length ys + 2 ^ (d + 1) \<le> 2 ^ (d + 1 + length ps)" using 2 by auto
    moreover have "d + length (None # ps) = d + 1 + length ps" by simp
    ultimately have "length ys + 2 ^ d < 2 ^ (d + length (None # ps))" by (metis add_less_cancel_left order_less_le_trans)
    with 2 show ?case by auto
  next
    case (3 H d h ps ys)
    then obtain us vs where s: "ys = us @ vs" "length vs = 2 ^ d" "parents_rep H (d + 1) ps us" by auto
    with 3(1) [OF s(3)] show ?case by (cases "ps = []") auto
  qed simp
  then show "parents_rep H d ps ys \<Longrightarrow> length ys + 2 ^ d \<le> 2 ^ (d + length ps)"
    "parents_rep H d ps ys \<Longrightarrow> length ys + 2 ^ d = 2 ^ (d + length ps) \<longleftrightarrow> (\<forall>p\<in>set ps. p \<noteq> None)"
    "parents_rep H d ps ys \<Longrightarrow> ps \<noteq> [] \<Longrightarrow> last ps \<noteq> None \<Longrightarrow> 2 ^ (d + length ps) \<le> 2 * length ys"
    by blast+
qed

lemma tree_rep_empty: "tree_rep H tree_empty []"
  by (simp add: tree_rep_def tree_empty_def)

lemma tree_rep_cases:
  assumes "tree_rep H t xs"
  obtains "left t = None" "right t = None" "xs = []" "parents t = []"
  | a ys where "left t = Some a" "right t = None" "xs = ys @ [a]" "parents_rep H 1 (parents t) ys"
  | a b ys where "left t = Some a" "right t = Some b" "xs = ys @ [a, b]" "parents_rep H 1 (parents t) ys"
  using assms by (auto simp: tree_rep_def split: option.splits)

lemma tree_rep_parents:
  assumes "tree_rep H t xs" "length xs \<le> 2 ^ Depth" "1 \<le> Depth"
  shows "length (parents t) < Depth"
proof (cases "parents t = []")
  case False
  then have l: "last (parents t) \<noteq> None" using assms(1) by (simp add: tree_rep_def)
  from assms(1) False obtain ys where ys: "parents_rep H 1 (parents t) ys" "length ys < length xs"
    by (cases rule: tree_rep_cases) auto
  have "2 ^ (1 + length (parents t)) < 2 * length xs" using parents_rep_length(3) [OF ys(1) False l] ys(2) by linarith
  then have "(2::nat) ^ length (parents t) < length xs" by simp
  also note assms(2)
  finally show ?thesis by (rule power_less_imp_less_exp [rotated]) simp
qed (use assms(3) in simp)

lemma is_complete_iff:
  assumes "tree_rep H t xs" "length xs \<le> 2 ^ Depth" "1 \<le> Depth"
  shows "is_complete Depth t \<longleftrightarrow> length xs = 2 ^ Depth"
proof -
  obtain k where D: "Depth = Suc k" using assms(3) by (cases Depth) auto
  note p = tree_rep_parents [OF assms]
  from assms(1) show ?thesis
  proof (cases rule: tree_rep_cases)
    case 1
    then show ?thesis by (simp add: is_complete_def)
  next
    case (2 a ys)
    have "(2::nat) ^ (1 + length (parents t)) \<le> 2 ^ Depth" using p by (intro power_increasing) auto
    with 2 parents_rep_length(1) [OF 2(4)] show ?thesis by (simp add: is_complete_def)
  next
    case (3 a b ys)
    have "length (parents t) = k \<and> (\<forall>p\<in>set (parents t). p \<noteq> None) \<longleftrightarrow> length ys + 2 = 2 ^ Depth"
    proof (cases "length (parents t) = k")
      case True
      then show ?thesis using parents_rep_length(2) [OF 3(4)] by (simp add: D)
    next
      case False
      with p D have "(2::nat) ^ (1 + length (parents t)) < 2 ^ Depth" by (intro power_strict_increasing) auto
      with parents_rep_length(1) [OF 3(4)] False show ?thesis by simp
    qed
    with 3 show ?thesis by (simp add: is_complete_def D)
  qed
qed

lemma append_parents_rep:
  assumes "parents_rep H d ps ys" "length vs = 2 ^ d" "length ps < k"
  shows "parents_rep H d (append_parents H k d (mroot H d vs) ps) (ys @ vs)"
  using assms
proof (induction H k d "mroot H d vs" ps arbitrary: ys vs rule: append_parents.induct)
  case (3 H k d p ps)
  from 3(2) obtain us ws where s: "ys = us @ ws" "length ws = 2 ^ d" "p = mroot H d ws" "parents_rep H (d + 1) ps us" by auto
  have "combine H p (mroot H d vs) d = mroot H (d + 1) (ws @ vs)" using s(2,3) by (simp add: mroot_join)
  with 3(1) [of "ws @ vs" us] s 3(3,4) show ?case by auto
qed auto

lemma append_parents_last:
  "length ps < k \<Longrightarrow> ps = [] \<or> last ps \<noteq> None \<Longrightarrow>
    append_parents H k d c ps \<noteq> [] \<and> last (append_parents H k d c ps) \<noteq> None"
  by (induction H k d c ps rule: append_parents.induct) (auto split: if_splits)

lemma mroot_0_single: "length vs = 1 \<Longrightarrow> vs = [mroot H 0 vs]"
  by (cases vs) auto

lemma tree_append_rep:
  assumes "tree_rep H t xs" "length xs < 2 ^ Depth" "1 \<le> Depth"
  shows "\<exists>t'. tree_append H Depth t x = Inr t' \<and> tree_rep H t' (xs @ [x])"
proof -
  have nc: "\<not> is_complete Depth t" using is_complete_iff [of H t xs Depth] assms by simp
  have p: "length (parents t) < Depth" using tree_rep_parents [of H t xs Depth] assms by simp
  have l: "parents t = [] \<or> last (parents t) \<noteq> None" using assms(1) by (auto simp: tree_rep_def)
  from assms(1) show ?thesis
  proof (cases rule: tree_rep_cases)
    case 1
    then show ?thesis using nc by (simp add: tree_append_def tree_rep_def)
  next
    case (2 a ys)
    then show ?thesis using nc l by (auto simp: tree_append_def tree_rep_def)
  next
    case (3 a b ys)
    have "parents_rep H 1 (append_parents H Depth 1 (mroot H 1 [a, b]) (parents t)) (ys @ [a, b])"
      by (rule append_parents_rep [OF 3(4)]) (use p in simp_all)
    with 3 append_parents_last [OF p l, of H 1 "combine H a b 0"] nc show ?thesis
      by (simp add: tree_append_def tree_rep_def mroot.simps(2) [of H 0, simplified])
  qed
qed

lemma tree_append_full:
  "tree_rep H t xs \<Longrightarrow> length xs = 2 ^ Depth \<Longrightarrow> 1 \<le> Depth \<Longrightarrow> tree_append H Depth t x = Inl TreeFull"
  using is_complete_iff [of H t xs Depth] by (simp add: tree_append_def)

lemma tree_rep_wfcheck:
  assumes "tree_rep H t xs" "length xs \<le> 2 ^ Depth" "1 \<le> Depth"
  shows "wfcheck Depth t = Inr ()"
proof -
  have "length (parents t) < Depth" using tree_rep_parents [OF assms] .
  moreover have "parents t = [] \<or> last (parents t) \<noteq> None" using assms(1) by (auto simp: tree_rep_def)
  ultimately show ?thesis by (cases rule: tree_rep_cases [OF assms(1)]) (auto simp: wfcheck_def)
qed

section \<open>The levels of a tree\<close>

text \<open>
  A tree that is not empty is its last leaf and, for level 0 and up, the root of the completed subtree on
  the left: with the two leaves seen as level 0, the loops over parents treat every level alike.
\<close>

definition levels :: "'h IncrementalMerkleTree \<Rightarrow> 'h option list" where
  "levels t = (if right t = None then None else left t) # parents t"

lemma tree_rep_levels:
  assumes "tree_rep H t xs" "xs \<noteq> []"
  shows "left t \<noteq> None" "tree_last t = Inr (last xs)" "parents_rep H 0 (levels t) (butlast xs)"
proof -
  from assms have "left t \<noteq> None \<and> tree_last t = Inr (last xs) \<and> parents_rep H 0 (levels t) (butlast xs)"
  proof (cases rule: tree_rep_cases)
    case (3 a b ys)
    then have "\<exists>us vs. butlast xs = us @ vs \<and> length vs = 2 ^ 0 \<and> a = mroot H 0 vs \<and> parents_rep H 1 (parents t) us"
      by (intro exI [of _ ys] exI [of _ "[a]"]) (simp add: butlast_append)
    with 3 show ?thesis by (simp add: tree_last_def levels_def)
  qed (simp_all add: tree_last_def levels_def)
  then show "left t \<noteq> None" "tree_last t = Inr (last xs)" "parents_rep H 0 (levels t) (butlast xs)" by simp_all
qed

lemma tree_root_with_levels:
  assumes "left t \<noteq> None" "tree_last t = Inr x"
  shows "tree_root_with H t depth q = (case root_parents H 0 (levels t) x q of (r, d, q) \<Rightarrow> root_fill H depth d r q)"
  using assms by (auto simp: tree_root_with_def tree_last_def levels_def split: option.splits prod.splits)

lemma tree_path_levels:
  assumes "left t \<noteq> None"
  shows "tree_path H Depth t q =
    (case path_parents H 0 (levels t) q of (es, d, q) \<Rightarrow>
       let entries = es @ path_fill H Depth d q in Inr (rev (map snd entries), rev (map fst entries)))"
  using assms by (auto simp: tree_path_def levels_def Let_def split: option.splits prod.splits)

lemma next_depth_levels: "left t \<noteq> None \<Longrightarrow> next_depth t skip = next_depth_parents 0 (levels t) skip"
  by (cases "right t") (auto simp: next_depth_def levels_def)

section \<open>Roots with a filler queue\<close>

text \<open>
  The queue stands for leaves \<open>ys\<close> to the right of what a tree holds: for each level, up to
  level \<open>d + k\<close>, at which the tree has no completed subtree on the left, the next hash is the root of
  the next leaves at that level.
\<close>

fun queue_rep :: "'h hash_ops \<Rightarrow> nat \<Rightarrow> nat \<Rightarrow> 'h option list \<Rightarrow> 'h list \<Rightarrow> 'h list \<Rightarrow> bool" where
  "queue_rep H 0 d ps q ys \<longleftrightarrow> ys = []"
| "queue_rep H (Suc k) d (Some p # ps) q ys \<longleftrightarrow> queue_rep H k (d + 1) ps q ys"
| "queue_rep H (Suc k) d ps q ys \<longleftrightarrow>
     (case q of [] \<Rightarrow> ys = []
      | h # q' \<Rightarrow> h = mroot H d (take (2 ^ d) ys) \<and> queue_rep H k (d + 1) (tl ps) q' (drop (2 ^ d) ys))"

lemma queue_rep_empty [simp]: "queue_rep H k d ps [] []"
proof (induction k arbitrary: d ps)
  case (Suc k)
  then show ?case by (cases ps; cases "hd ps") simp_all
qed simp

lemma queue_rep_next:
  assumes "queue_rep H (Suc k) d ps q ys" "ps = [] \<or> hd ps = None" "filler_next H d q = (h, q')"
  shows "h = mroot H d (take (2 ^ d) ys)" "queue_rep H k (d + 1) (tl ps) q' (drop (2 ^ d) ys)"
  using assms by (cases ps; cases q; auto simp: filler_next_def)+

lemma mroot_block:
  assumes "length blk \<le> 2 ^ d" "ys \<noteq> [] \<Longrightarrow> length blk = 2 ^ d"
  shows "combine H (mroot H d blk) (mroot H d (take (2 ^ d) ys)) d = mroot H (d + 1) (blk @ take (2 ^ d) ys)"
  using assms by (cases "ys = []") (simp_all add: mroot_pad mroot_join)

lemma block_next:
  assumes "length blk \<le> 2 ^ d" "ys \<noteq> [] \<Longrightarrow> length blk = 2 ^ d"
  shows "length (blk @ take (2 ^ d) ys) \<le> 2 ^ (d + 1)"
    "drop (2 ^ d) ys \<noteq> [] \<Longrightarrow> length (blk @ take (2 ^ d) ys) = 2 ^ (d + 1)"
  using assms by (cases "ys = []"; auto simp: min_def)+

lemma root_fill_mroot:
  assumes "queue_rep H k d [] q ys" "length blk \<le> 2 ^ d" "ys \<noteq> [] \<Longrightarrow> length blk = 2 ^ d"
  shows "root_fill H (d + k) d (mroot H d blk) q = mroot H (d + k) (blk @ ys)"
  using assms
proof (induction k arbitrary: d q ys blk)
  case 0
  then show ?case by (simp add: root_fill.simps)
next
  case (Suc k)
  obtain h q' where h: "filler_next H d q = (h, q')" by fastforce
  note n = queue_rep_next [OF Suc.prems(1) disjI1 [OF refl] h]
  have "root_fill H (d + Suc k) d (mroot H d blk) q = root_fill H (d + 1 + k) (d + 1) (combine H (mroot H d blk) h d) q'"
    by (subst root_fill.simps) (simp add: h)
  also have "\<dots> = root_fill H (d + 1 + k) (d + 1) (mroot H (d + 1) (blk @ take (2 ^ d) ys)) q'"
    unfolding n(1) using mroot_block [OF Suc.prems(2,3)] by simp
  also have "\<dots> = mroot H (d + 1 + k) ((blk @ take (2 ^ d) ys) @ drop (2 ^ d) ys)"
    by (rule Suc.IH [OF _ block_next [OF Suc.prems(2,3)]]) (use n(2) in simp_all)
  finally show ?case by simp
qed

lemma root_parents_mroot:
  assumes "parents_rep H d ps us" "queue_rep H k d ps q ys" "length blk \<le> 2 ^ d"
    "ys \<noteq> [] \<Longrightarrow> length blk = 2 ^ d" "length ps \<le> k"
  shows "(case root_parents H d ps (mroot H d blk) q of (r, d', q') \<Rightarrow> root_fill H (d + k) d' r q') = mroot H (d + k) (us @ blk @ ys)"
  using assms
proof (induction H d ps "mroot H d blk" q arbitrary: us k ys blk rule: root_parents.induct)
  case (1 H d q)
  then show ?case using root_fill_mroot [of H k d q ys blk] by simp
next
  case (2 H d p ps q)
  from 2(2) obtain us' vs where s: "us = us' @ vs" "length vs = 2 ^ d" "p = mroot H d vs" "parents_rep H (d + 1) ps us'" by auto
  from 2(6) obtain j where j: "k = Suc j" by (cases k) auto
  have "combine H p (mroot H d blk) d = mroot H (d + 1) (vs @ blk)" using s(2,3) by (simp add: mroot_join)
  with 2(1) [of "vs @ blk" us' j ys] 2(3-6) s j show ?case by simp
next
  case (3 H d ps q)
  from 3(6) obtain j where j: "k = Suc j" by (cases k) auto
  obtain h q' where h: "filler_next H d q = (h, q')" by fastforce
  note n = queue_rep_next [OF 3(3) [unfolded j] _ h]
  have "combine H (mroot H d blk) h d = mroot H (d + 1) (blk @ take (2 ^ d) ys)"
    using n(1) mroot_block [OF 3(4,5)] by simp
  with 3(1) [OF h [symmetric] refl, of "blk @ take (2 ^ d) ys" us j "drop (2 ^ d) ys"] block_next [OF 3(4,5)] n(2) 3(2,6) j h
  show ?case by simp
qed

lemma tree_root_with_rep:
  assumes "tree_rep H t xs" "xs \<noteq> []" "length xs \<le> 2 ^ depth" "1 \<le> depth" "queue_rep H depth 0 (levels t) q ys"
  shows "tree_root_with H t depth q = mroot H depth (xs @ ys)"
proof -
  note l = tree_rep_levels [OF assms(1,2)]
  have "length (levels t) \<le> depth" using tree_rep_parents [OF assms(1,3,4)] by (simp add: levels_def)
  then have "tree_root_with H t depth q = mroot H depth ((butlast xs @ [last xs]) @ ys)"
    using root_parents_mroot [OF l(3) assms(5), of "[last xs]"] by (simp add: tree_root_with_levels [OF l(1,2)])
  then show ?thesis using assms(2) by simp
qed

lemma tree_root_empty: "1 \<le> depth \<Longrightarrow> tree_root_with H tree_empty depth [] = empty_root H depth"
  using root_fill_mroot [of H "depth - 1" 1 "[]" "[]" "[]"]
  by (simp add: tree_root_with_def tree_empty_def filler_next_def)

lemma tree_root_rep:
  assumes "tree_rep H t xs" "length xs \<le> 2 ^ depth" "1 \<le> depth"
  shows "tree_root_with H t depth [] = mroot H depth xs"
proof (cases "xs = []")
  case True
  with assms(1) have "t = tree_empty" by (cases rule: tree_rep_cases) (auto simp: tree_empty_def)
  with True tree_root_empty [OF assms(3)] show ?thesis by simp
next
  case False
  with tree_root_with_rep [OF assms(1) False assms(2,3), of "[]" "[]"] show ?thesis by simp
qed

section \<open>Witnesses follow the tree\<close>

text \<open>The hashes of completed chunks, and how many leaves the next chunk takes.\<close>

fun full_queue :: "'h hash_ops \<Rightarrow> nat \<Rightarrow> nat \<Rightarrow> 'h option list \<Rightarrow> 'h list \<Rightarrow> 'h list \<Rightarrow> bool" where
  "full_queue H 0 d ps q ys \<longleftrightarrow> q = [] \<and> ys = []"
| "full_queue H (Suc k) d (Some p # ps) q ys \<longleftrightarrow> full_queue H k (d + 1) ps q ys"
| "full_queue H (Suc k) d ps q ys \<longleftrightarrow>
     (case q of [] \<Rightarrow> ys = []
      | h # q' \<Rightarrow> 2 ^ d \<le> length ys \<and> h = mroot H d (take (2 ^ d) ys) \<and> full_queue H k (d + 1) (tl ps) q' (drop (2 ^ d) ys))"

abbreviation missing :: "'h option list \<Rightarrow> bool" where
  "missing ps \<equiv> ps = [] \<or> hd ps = None"

lemma level_cases: obtains p ps' where "ps = Some p # ps'" | "missing ps"
  by (cases ps; cases "hd ps") auto

lemma missing_simps:
  assumes "missing ps"
  shows "full_queue H (Suc k) d ps [] ys \<longleftrightarrow> ys = []"
    "full_queue H (Suc k) d ps (h # q) ys \<longleftrightarrow>
       2 ^ d \<le> length ys \<and> h = mroot H d (take (2 ^ d) ys) \<and> full_queue H k (d + 1) (tl ps) q (drop (2 ^ d) ys)"
    "queue_rep H (Suc k) d ps [] ys \<longleftrightarrow> ys = []"
    "queue_rep H (Suc k) d ps (h # q) ys \<longleftrightarrow>
       h = mroot H d (take (2 ^ d) ys) \<and> queue_rep H k (d + 1) (tl ps) q (drop (2 ^ d) ys)"
    "next_depth_parents d ps skip = (if skip = 0 then d else next_depth_parents (d + 1) (tl ps) (skip - 1))"
    "parents_rep H d ps us \<longleftrightarrow> parents_rep H (d + 1) (tl ps) us"
  using assms by (cases ps; auto)+

lemma full_queue_empty [simp]: "full_queue H k d ps [] []"
proof (induction k arbitrary: d ps)
  case (Suc k)
  then show ?case by (cases ps rule: level_cases) (simp_all add: missing_simps)
qed simp

lemma full_queue_queue_rep: "full_queue H k d ps q ys \<Longrightarrow> queue_rep H k d ps q ys"
proof (induction k arbitrary: d ps q ys)
  case (Suc k)
  then show ?case by (cases ps rule: level_cases; cases q) (auto simp: missing_simps)
qed simp

lemma next_depth_parents_ge: "d \<le> next_depth_parents d ps skip"
  by (induction d ps skip rule: next_depth_parents.induct) auto

lemma full_queue_extend:
  assumes "full_queue H k d ps q ys" "n = next_depth_parents d ps (length q)" "n < d + k" "zs \<noteq> []" "length zs \<le> 2 ^ n"
  shows "queue_rep H k d ps (q @ [mroot H n zs]) (ys @ zs)"
    "length zs = 2 ^ n \<Longrightarrow> full_queue H k d ps (q @ [mroot H n zs]) (ys @ zs)"
proof -
  have "queue_rep H k d ps (q @ [mroot H n zs]) (ys @ zs) \<and>
    (length zs = 2 ^ n \<longrightarrow> full_queue H k d ps (q @ [mroot H n zs]) (ys @ zs))"
    using assms
  proof (induction k arbitrary: d ps q ys)
    case (Suc k)
    show ?case
    proof (cases ps rule: level_cases)
      case 1
      with Suc show ?thesis by simp
    next
      case 2
      show ?thesis
      proof (cases q)
        case Nil
        with 2 Suc.prems have "ys = []" "n = d" by (simp_all add: missing_simps)
        then show ?thesis using 2 Suc.prems Nil by (simp add: missing_simps)
      next
        case (Cons h q')
        with 2 Suc.prems have "2 ^ d \<le> length ys" "n = next_depth_parents (d + 1) (tl ps) (length q')"
          "full_queue H k (d + 1) (tl ps) q' (drop (2 ^ d) ys)" "h = mroot H d (take (2 ^ d) ys)" by (simp_all add: missing_simps)
        with Suc.IH [OF this(3,2)] Suc.prems 2 Cons show ?thesis by (simp add: missing_simps)
      qed
    qed
  next
    case 0
    then show ?case using next_depth_parents_ge [of d ps "length q"] by simp
  qed
  then show "queue_rep H k d ps (q @ [mroot H n zs]) (ys @ zs)"
    "length zs = 2 ^ n \<Longrightarrow> full_queue H k d ps (q @ [mroot H n zs]) (ys @ zs)" by simp_all
qed

lemma full_queue_room:
  assumes "full_queue H k d ps q ys" "parents_rep H d ps us" "length ps \<le> k" "n = next_depth_parents d ps (length q)"
  shows "if n < d + k then length us + 2 ^ d + length ys + 2 ^ n \<le> 2 ^ (d + k)
    else length us + 2 ^ d + length ys = 2 ^ (d + k)"
  using assms
proof (induction k arbitrary: d ps q ys us)
  case (Suc k)
  show ?case
  proof (cases ps rule: level_cases)
    case (1 p ps')
    with Suc.prems obtain us' vs where s: "us = us' @ vs" "length vs = 2 ^ d" "parents_rep H (d + 1) ps' us'" by auto
    with Suc.IH [of "d + 1" ps' q ys us'] Suc.prems 1 show ?thesis by (simp split: if_splits)
  next
    case 2
    then have r: "parents_rep H (d + 1) (tl ps) us" using Suc.prems(2) by (simp only: missing_simps(6))
    have l: "length (tl ps) \<le> k" using Suc.prems(3) by simp
    show ?thesis
    proof (cases q)
      case Nil
      have "(2::nat) ^ (d + 1 + length (tl ps)) \<le> 2 ^ (d + Suc k)" using l by (intro power_increasing) simp_all
      with parents_rep_length(1) [OF r] have "length us + 2 ^ (d + 1) \<le> 2 ^ (d + Suc k)" by (rule order_trans)
      with 2 Nil Suc.prems show ?thesis by (simp add: missing_simps)
    next
      case (Cons h q')
      with 2 Suc.prems have "2 ^ d \<le> length ys" "n = next_depth_parents (d + 1) (tl ps) (length q')"
        "full_queue H k (d + 1) (tl ps) q' (drop (2 ^ d) ys)" by (simp_all add: missing_simps)
      with Suc.IH [OF this(3) r l this(2)] show ?thesis by (simp split: if_splits)
    qed
  qed
qed simp

definition witness_rep :: "'h hash_ops \<Rightarrow> nat \<Rightarrow> 'h list \<Rightarrow> 'h IncrementalWitness \<Rightarrow> 'h list \<Rightarrow> bool" where
  "witness_rep H Depth xs w ys \<longleftrightarrow>
     tree_rep H (wtree w) xs \<and> xs \<noteq> [] \<and> length xs + length ys \<le> 2 ^ Depth \<and> 1 \<le> Depth \<and>
     (case cursor w of
        None \<Rightarrow> full_queue H Depth 0 (levels (wtree w)) (filled w) ys
      | Some c \<Rightarrow> \<exists>us vs. ys = us @ vs \<and> full_queue H Depth 0 (levels (wtree w)) (filled w) us \<and> tree_rep H c vs \<and>
          vs \<noteq> [] \<and> cursor_depth w = next_depth_parents 0 (levels (wtree w)) (length (filled w)) \<and>
          0 < cursor_depth w \<and> cursor_depth w < Depth \<and> length vs < 2 ^ cursor_depth w)"

lemma witness_rep_tree:
  assumes "witness_rep H Depth xs w ys"
  shows "left (wtree w) \<noteq> None" "length (levels (wtree w)) \<le> Depth" "parents_rep H 0 (levels (wtree w)) (butlast xs)"
    "tree_last (wtree w) = Inr (last xs)" "length (butlast xs) + 1 = length xs"
proof -
  have r: "tree_rep H (wtree w) xs" "xs \<noteq> []" "length xs \<le> 2 ^ Depth" "1 \<le> Depth"
    using assms by (simp_all add: witness_rep_def)
  show "left (wtree w) \<noteq> None" "parents_rep H 0 (levels (wtree w)) (butlast xs)" "tree_last (wtree w) = Inr (last xs)"
    using tree_rep_levels [OF r(1,2)] by simp_all
  show "length (levels (wtree w)) \<le> Depth" using tree_rep_parents [OF r(1,3,4)] by (simp add: levels_def)
  show "length (butlast xs) + 1 = length xs" using r(2) by simp
qed

lemma witness_rep_init: "tree_rep H t xs \<Longrightarrow> xs \<noteq> [] \<Longrightarrow> length xs \<le> 2 ^ Depth \<Longrightarrow> 1 \<le> Depth \<Longrightarrow> witness_rep H Depth xs (tree_witness t) []"
  by (simp add: witness_rep_def tree_witness_def)

lemma witness_rep_cursorI:
  assumes "cursor w = Some c" "tree_rep H (wtree w) xs" "xs \<noteq> []" "length xs + length (us @ vs) \<le> 2 ^ Depth" "1 \<le> Depth"
    "full_queue H Depth 0 (levels (wtree w)) (filled w) us" "tree_rep H c vs" "vs \<noteq> []"
    "cursor_depth w = next_depth_parents 0 (levels (wtree w)) (length (filled w))"
    "0 < cursor_depth w" "cursor_depth w < Depth" "length vs < 2 ^ cursor_depth w"
  shows "witness_rep H Depth xs w (us @ vs)"
  using assms by (auto simp: witness_rep_def)

lemma witness_append_cursor:
  assumes "witness_rep H Depth xs w ys" "cursor w = Some c"
  shows "\<exists>w'. witness_append H Depth w y = Inr w' \<and> witness_rep H Depth xs w' (ys @ [y])"
proof -
  note wt = witness_rep_tree [OF assms(1)]
  from assms obtain us vs where s: "ys = us @ vs" "full_queue H Depth 0 (levels (wtree w)) (filled w) us" "tree_rep H c vs"
      "vs \<noteq> []" "cursor_depth w = next_depth_parents 0 (levels (wtree w)) (length (filled w))"
      "0 < cursor_depth w" "cursor_depth w < Depth" "length vs < 2 ^ cursor_depth w"
    and D: "1 \<le> Depth" "tree_rep H (wtree w) xs" "xs \<noteq> []" by (auto simp: witness_rep_def)
  have "(2::nat) ^ cursor_depth w \<le> 2 ^ Depth" using s(7) by (intro power_increasing) simp_all
  then have "length vs < 2 ^ Depth" using s(8) by linarith
  from tree_append_rep [OF s(3) this D(1), of y] obtain c' where c': "tree_append H Depth c y = Inr c'" "tree_rep H c' (vs @ [y])" by blast
  have room: "length xs + length (ys @ [y]) \<le> 2 ^ Depth"
    using full_queue_room [OF s(2) wt(3,2) s(5)] s(1,7,8) wt(5) by simp
  have le: "length (vs @ [y]) \<le> 2 ^ cursor_depth w" "1 \<le> cursor_depth w" using s(6,8) by simp_all
  note fin = is_complete_iff [OF c'(2) le]
  have root: "tree_root_with H c' (cursor_depth w) [] = mroot H (cursor_depth w) (vs @ [y])" using tree_root_rep [OF c'(2) le] .
  show ?thesis
  proof (cases "is_complete (cursor_depth w) c'")
    case True
    then have "full_queue H Depth 0 (levels (wtree w)) (filled w @ [mroot H (cursor_depth w) (vs @ [y])]) (us @ vs @ [y])"
      using full_queue_extend(2) [OF s(2,5), of "vs @ [y]"] s(7) fin le by simp
    with True room D assms(2) c'(1) root s(1) show ?thesis by (simp add: witness_append_def witness_rep_def)
  next
    case False
    then have "length (vs @ [y]) < 2 ^ cursor_depth w" using fin le by simp
    then have "witness_rep H Depth xs (w\<lparr>cursor := Some c'\<rparr>) (us @ vs @ [y])"
      by (intro witness_rep_cursorI [of _ c']) (use room D c' s in simp_all)
    with False assms(2) c'(1) s(1) show ?thesis by (simp add: witness_append_def)
  qed
qed

lemma witness_append_no_cursor:
  assumes "witness_rep H Depth xs w ys" "cursor w = None"
  shows "length xs + length ys < 2 ^ Depth \<Longrightarrow>
      \<exists>w'. witness_append H Depth w y = Inr w' \<and> witness_rep H Depth xs w' (ys @ [y])"
    "length xs + length ys = 2 ^ Depth \<Longrightarrow> witness_append H Depth w y = Inl TreeFull"
proof -
  note wt = witness_rep_tree [OF assms(1)]
  define n where "n = next_depth_parents 0 (levels (wtree w)) (length (filled w))"
  have nd: "next_depth (wtree w) (length (filled w)) = n" by (simp add: n_def next_depth_levels [OF wt(1)])
  from assms have q: "full_queue H Depth 0 (levels (wtree w)) (filled w) ys"
    and D: "1 \<le> Depth" "tree_rep H (wtree w) xs" "xs \<noteq> []" by (auto simp: witness_rep_def)
  note room = full_queue_room [OF q wt(3,2) n_def]
  have pos: "(0::nat) < 2 ^ n" by simp
  show "witness_append H Depth w y = Inl TreeFull" if "length xs + length ys = 2 ^ Depth"
  proof -
    have "\<not> n < Depth" using room that wt(5) pos by (auto split: if_splits)
    then show ?thesis using assms(2) nd by (simp add: witness_append_def)
  qed
  show "\<exists>w'. witness_append H Depth w y = Inr w' \<and> witness_rep H Depth xs w' (ys @ [y])" if "length xs + length ys < 2 ^ Depth"
  proof -
    have n: "n < Depth" using room that wt(5) by (auto split: if_splits)
    have len: "length xs + length (ys @ [y]) \<le> 2 ^ Depth" using that by simp
    show ?thesis
    proof (cases "n = 0")
      case True
      then have "full_queue H Depth 0 (levels (wtree w)) (filled w @ [y]) (ys @ [y])"
        using full_queue_extend(2) [OF q n_def, of "[y]"] n by simp
      with True n D assms(2) len nd show ?thesis by (simp add: witness_append_def witness_rep_def)
    next
      case False
      obtain c where c: "tree_append H Depth tree_empty y = Inr c" "tree_rep H c [y]"
        using tree_append_rep [OF tree_rep_empty _ D(1), where x = y] by auto
      moreover have "1 < (2::nat) ^ n" using False by (intro one_less_power) simp_all
      ultimately have "witness_rep H Depth xs (w\<lparr>cursor_depth := n, cursor := Some c\<rparr>) (ys @ [y])"
        by (intro witness_rep_cursorI [of _ c]) (use False n D len q n_def in simp_all)
      with False n assms(2) nd c(1) show ?thesis by (simp add: witness_append_def)
    qed
  qed
qed

lemma witness_full_no_cursor:
  assumes "witness_rep H Depth xs w ys" "length xs + length ys = 2 ^ Depth"
  shows "cursor w = None"
proof (rule ccontr)
  assume "cursor w \<noteq> None"
  with assms(1) obtain us vs where s: "ys = us @ vs" "full_queue H Depth 0 (levels (wtree w)) (filled w) us"
      "cursor_depth w = next_depth_parents 0 (levels (wtree w)) (length (filled w))"
      "cursor_depth w < Depth" "length vs < 2 ^ cursor_depth w" by (auto simp: witness_rep_def)
  note wt = witness_rep_tree [OF assms(1)]
  from full_queue_room [OF s(2) wt(3,2) s(3)] s(1,4,5) wt(5) assms(2) show False by simp
qed

lemma partial_path_rep:
  assumes "witness_rep H Depth xs w ys"
  shows "queue_rep H Depth 0 (levels (wtree w)) (partial_path H w) ys"
proof (cases "cursor w")
  case None
  with assms show ?thesis by (simp add: witness_rep_def partial_path_def full_queue_queue_rep)
next
  case (Some c)
  with assms obtain us vs where s: "ys = us @ vs" "full_queue H Depth 0 (levels (wtree w)) (filled w) us" "tree_rep H c vs"
      "vs \<noteq> []" "cursor_depth w = next_depth_parents 0 (levels (wtree w)) (length (filled w))"
      "0 < cursor_depth w" "cursor_depth w < Depth" "length vs < 2 ^ cursor_depth w" by (auto simp: witness_rep_def)
  have "tree_root_with H c (cursor_depth w) [] = mroot H (cursor_depth w) vs"
    by (rule tree_root_rep [OF s(3)]) (use s(6,8) in simp_all)
  with full_queue_extend(1) [OF s(2,5)] s Some show ?thesis by (simp add: partial_path_def)
qed

lemma witness_root_rep:
  assumes "witness_rep H Depth xs w ys"
  shows "witness_root H Depth w = mroot H Depth (xs @ ys)"
proof -
  have "tree_rep H (wtree w) xs" "xs \<noteq> []" "length xs \<le> 2 ^ Depth" "1 \<le> Depth" using assms by (simp_all add: witness_rep_def)
  from tree_root_with_rep [OF this partial_path_rep [OF assms]] show ?thesis by (simp add: witness_root_def)
qed

section \<open>Authentication paths\<close>

text \<open>
  What a verifier computes from a leaf and its path, leaf first: at every level the hash of the path
  goes to the left or to the right; and the position the bits spell.
\<close>

fun path_root :: "'h hash_ops \<Rightarrow> nat \<Rightarrow> 'h \<Rightarrow> (bool \<times> 'h) list \<Rightarrow> 'h" where
  "path_root H d r [] = r"
| "path_root H d r ((b, h) # es) = path_root H (d + 1) (if b then combine H h r d else combine H r h d) es"

fun path_position :: "bool list \<Rightarrow> nat" where
  "path_position [] = 0"
| "path_position (b # bs) = of_bool b + 2 * path_position bs"

lemma path_root_append: "path_root H d r (es @ fs) = path_root H (d + length es) (path_root H d r es) fs"
  by (induction H d r es rule: path_root.induct) simp_all

lemma path_position_append: "path_position (bs @ cs) = path_position bs + 2 ^ length bs * path_position cs"
  by (induction bs) simp_all

lemma root_parents_path:
  "path_parents H d ps q = (es, d', q') \<Longrightarrow>
    root_parents H d ps r q = (path_root H d r es, d', q') \<and> d' = d + length ps \<and> length es = length ps"
  by (induction H d ps r q arbitrary: es d' q' rule: root_parents.induct) (auto simp: Let_def split: prod.splits)

lemma root_fill_path: "root_fill H Depth d r q = path_root H d r (path_fill H Depth d q)"
  by (induction H Depth d r q rule: root_fill.induct)
    (subst root_fill.simps, subst path_fill.simps, simp split: prod.splits)

lemma length_path_fill: "length (path_fill H Depth d q) = Depth - d"
  by (induction H Depth d q rule: path_fill.induct) (subst path_fill.simps, simp add: Suc_diff_Suc split: prod.splits)

lemma path_fill_position: "path_position (map fst (path_fill H Depth d q)) = 0"
  by (induction H Depth d q rule: path_fill.induct) (subst path_fill.simps, simp split: prod.splits)

lemma path_parents_position:
  "parents_rep H d ps us \<Longrightarrow> path_parents H d ps q = (es, r) \<Longrightarrow> 2 ^ d * path_position (map fst es) = length us"
proof (induction H d ps q arbitrary: us es r rule: path_parents.induct)
  case (2 H d p ps q)
  from 2(2) obtain us' vs where "us = us' @ vs" "length vs = 2 ^ d" "parents_rep H (d + 1) ps us'" by auto
  with 2 show ?case by (fastforce simp: Let_def distrib_left split: prod.splits)
next
  case (3 H d ps q)
  then show ?case by (fastforce simp: Let_def split: prod.splits)
qed simp

lemma witness_path_rep:
  assumes "witness_rep H Depth xs w ys"
  shows "\<exists>es. witness_path H Depth w = Inr (rev (map snd es), rev (map fst es)) \<and> length es = Depth \<and>
    path_root H 0 (last xs) es = mroot H Depth (xs @ ys) \<and> path_position (map fst es) = length xs - 1"
proof -
  note wt = witness_rep_tree [OF assms]
  obtain es d q where p: "path_parents H 0 (levels (wtree w)) (partial_path H w) = (es, d, q)" by (metis prod_cases3)
  define fs where "fs = es @ path_fill H Depth d q"
  note rp = root_parents_path [OF p, of "last xs"]
  have "witness_path H Depth w = Inr (rev (map snd fs), rev (map fst fs))"
    by (simp add: witness_path_def tree_path_levels [OF wt(1)] p fs_def Let_def)
  moreover have "length fs = Depth" using rp wt(2) by (simp add: fs_def length_path_fill)
  moreover have "path_root H 0 (last xs) fs = mroot H Depth (xs @ ys)"
    using witness_root_rep [OF assms] rp
    by (simp add: witness_root_def tree_root_with_levels [OF wt(1,4)] root_fill_path fs_def path_root_append)
  moreover have "path_position (map fst fs) = length xs - 1"
    using path_parents_position [OF wt(3) p] wt(5) by (simp add: fs_def path_position_append path_fill_position)
  ultimately show ?thesis by blast
qed

section \<open>The contract of an accumulator\<close>

text \<open>
  What the code that keeps the anchors relies on: an object stands for the commitments appended to it,
  takes them up to its capacity and then refuses, and its root is the one the specification gives. The
  tree keeps the contract from its first leaf, a witness from the leaf it was taken at.
\<close>

primrec append_list :: "('s \<Rightarrow> 'h \<Rightarrow> tree_error + 's) \<Rightarrow> 's \<Rightarrow> 'h list \<Rightarrow> tree_error + 's" where
  "append_list app s [] = Inr s"
| "append_list app s (x # xs) = res_bind (app s x) (\<lambda>s'. append_list app s' xs)"

locale accumulator =
  fixes rep :: "'s \<Rightarrow> 'h list \<Rightarrow> bool" and app :: "'s \<Rightarrow> 'h \<Rightarrow> tree_error + 's" and root :: "'s \<Rightarrow> 'h"
    and spec :: "'h list \<Rightarrow> 'h" and capacity :: nat
  assumes rep_bound: "rep s ys \<Longrightarrow> length ys \<le> capacity"
    and app_rep: "rep s ys \<Longrightarrow> length ys < capacity \<Longrightarrow> \<exists>s'. app s y = Inr s' \<and> rep s' (ys @ [y])"
    and app_full: "rep s ys \<Longrightarrow> length ys = capacity \<Longrightarrow> app s y = Inl TreeFull"
    and root_rep: "rep s ys \<Longrightarrow> root s = spec ys"
begin

lemma append_list_rep:
  "rep s ys \<Longrightarrow> length ys + length zs \<le> capacity \<Longrightarrow> \<exists>s'. append_list app s zs = Inr s' \<and> rep s' (ys @ zs)"
proof (induction zs arbitrary: s ys)
  case (Cons z zs)
  with app_rep [of s ys z] obtain s' where "app s z = Inr s'" "rep s' (ys @ [z])" by auto
  with Cons.IH [of s' "ys @ [z]"] Cons.prems show ?case by auto
qed simp

lemma append_list_full: "rep s ys \<Longrightarrow> capacity < length ys + length zs \<Longrightarrow> append_list app s zs = Inl TreeFull"
proof (induction zs arbitrary: s ys)
  case Nil
  then show ?case using rep_bound [of s ys] by simp
next
  case (Cons z zs)
  show ?case
  proof (cases "length ys = capacity")
    case True
    with Cons.prems app_full [of s ys z] show ?thesis by simp
  next
    case False
    with Cons.prems rep_bound app_rep [of s ys z] obtain s' where "app s z = Inr s'" "rep s' (ys @ [z])" by fastforce
    with Cons.IH [of s' "ys @ [z]"] Cons.prems show ?thesis by simp
  qed
qed

lemma append_list_cases:
  "rep s ys \<Longrightarrow> if length ys + length zs \<le> capacity
     then \<exists>s'. append_list app s zs = Inr s' \<and> rep s' (ys @ zs) \<and> root s' = spec (ys @ zs)
     else append_list app s zs = Inl TreeFull"
  using append_list_rep [of s ys zs] append_list_full [of s ys zs] root_rep by (auto simp: not_le)

end

interpretation tree_acc: accumulator
  "\<lambda>t xs. tree_rep H t xs \<and> length xs \<le> 2 ^ Depth \<and> 1 \<le> Depth" "tree_append H Depth" "tree_root H Depth" "mroot H Depth" "2 ^ Depth"
  for H Depth
  using tree_append_rep [of H _ _ Depth] tree_append_full tree_root_rep by unfold_locales (fastforce simp: tree_root_def)+

interpretation witness_acc: accumulator
  "witness_rep H Depth xs" "witness_append H Depth" "witness_root H Depth" "\<lambda>ys. mroot H Depth (xs @ ys)" "2 ^ Depth - length xs"
  for H Depth xs
proof
  fix w ys and y :: 'a
  assume w: "witness_rep H Depth xs w ys"
  then have le: "length xs + length ys \<le> 2 ^ Depth" by (simp add: witness_rep_def)
  then show "length ys \<le> 2 ^ Depth - length xs" by simp
  show "witness_root H Depth w = mroot H Depth (xs @ ys)" using w by (rule witness_root_rep)
  show "\<exists>w'. witness_append H Depth w y = Inr w' \<and> witness_rep H Depth xs w' (ys @ [y])" if "length ys < 2 ^ Depth - length xs"
    using that witness_append_cursor [OF w] witness_append_no_cursor(1) [OF w] by (cases "cursor w") auto
  show "witness_append H Depth w y = Inl TreeFull" if "length ys = 2 ^ Depth - length xs"
    using that le witness_append_no_cursor(2) [OF w witness_full_no_cursor [OF w]] by simp
qed

section \<open>Sizes\<close>

lemma scast_shift: "k < 31 \<Longrightarrow> (scast (push_bit k 1 :: u32) :: u64) = of_nat (2 ^ k)"
proof -
  assume k: "k < 31"
  then have "(2::int) ^ k < 2 ^ 31" by (intro power_strict_increasing) simp_all
  then have "signed_take_bit 31 ((2::int) ^ k) = 2 ^ k" by (intro signed_take_bit_int_eq_self) (simp_all add: order_trans [of _ 0])
  moreover have "(push_bit k 1 :: u32) = word_of_int (2 ^ k)" by (simp add: push_bit_eq_mult)
  ultimately have "sint (push_bit k 1 :: u32) = 2 ^ k" using sint_sbintrunc' [where 'a = 32, of "2 ^ k"] by simp
  then show ?thesis by (simp add: scast_eq)
qed

lemma size_parents_rep: "parents_rep H (i + 1) ps us \<Longrightarrow> length us < 2 ^ 31 \<Longrightarrow> size_parents i ps = of_nat (length us)"
proof (induction ps arbitrary: i us)
  case (Cons p ps)
  show ?case
  proof (cases p)
    case None
    with Cons show ?thesis by simp
  next
    case (Some h)
    with Cons.prems obtain us' vs where s: "us = us' @ vs" "length vs = 2 ^ (i + 1)" "parents_rep H (i + 1 + 1) ps us'" by auto
    then have "(2::nat) ^ (i + 1) < 2 ^ 31" using Cons.prems(2) by simp
    then have "i + 1 < 31" by (rule power_less_imp_less_exp [rotated]) simp
    from scast_shift [OF this] Cons.IH [OF s(3)] Cons.prems(2) s(1,2) Some show ?thesis by simp
  qed
qed simp

lemma tree_size_rep: "tree_rep H t xs \<Longrightarrow> length xs < 2 ^ 31 \<Longrightarrow> tree_size t = of_nat (length xs)"
  by (erule tree_rep_cases) (auto simp: tree_size_def size_parents_rep [where H = H and i = 0, simplified])

text \<open>
  Where the shift leaves the \<open>int\<close>: a Sapling tree has up to 31 parents, and the last of them stands
  for \<open>2 ^ 31\<close> leaves; its contribution is then the smallest \<open>int\<close>, sign-extended.
\<close>

lemma size_parents_skip: "size_parents i (replicate n None @ ps) = size_parents (i + n) ps"
  by (induction n arbitrary: i) simp_all

lemma tree_size_sign_extended:
  "tree_size \<lparr>left = Some a, right = None, parents = replicate 30 None @ [Some h]\<rparr> = 0xFFFFFFFF80000001"
  by (simp add: tree_size_def size_parents_skip push_bit_eq_mult scast_eq sint_uint)

section \<open>The hash of Sprout, and the encoding\<close>

lemma SHA256Compress_block:
  assumes "length a = 32" "length b = 32"
  shows "SHA256Compress_combine a b d = concat (map WriteBE32 (fips_compress sha256_Initialize (be_words (a @ b))))"
proof -
  have "sha256.stands_for (foldl CSHA256_Write CSHA256_init [a, b]) (a @ b)"
    using sha256.stands_for_writes [OF CSHA256_init_stands, of "[a, b]"] by simp
  then show ?thesis using assms
    by (simp add: SHA256Compress_combine_def CSHA256_FinalizeNoPadding_def hashed_def md_absorb_step md_absorb_short
        sha256_block_compress concat_map_8 [OF length_fips_compress])
qed

lemma length_SHA256Compress: "length a = 32 \<Longrightarrow> length b = 32 \<Longrightarrow> length (combine SHA256Compress a b d) = 32"
  by (simp add: SHA256Compress_def SHA256Compress_block concat_map_8 [OF length_fips_compress])

lemma length_mroot_SHA256: "\<forall>x\<in>set xs. length x = 32 \<Longrightarrow> length (mroot SHA256Compress d xs) = 32"
proof (induction d arbitrary: xs)
  case 0
  then show ?case by (cases xs) (simp_all add: SHA256Compress_def)
next
  case (Suc d)
  have "\<forall>x\<in>set (take (2 ^ d) xs). length x = 32" "\<forall>x\<in>set (drop (2 ^ d) xs). length x = 32"
    using Suc.prems by (auto dest: in_set_takeD in_set_dropD)
  then show ?case by (simp add: mroot.simps(2) length_SHA256Compress Suc.IH)
qed

definition nodes :: "'h IncrementalMerkleTree \<Rightarrow> 'h option set" where
  "nodes t = {left t, right t} \<union> set (parents t)"

lemma parents_rep_nodes:
  "parents_rep SHA256Compress d ps us \<Longrightarrow> \<forall>x\<in>set us. length x = 32 \<Longrightarrow> Some h \<in> set ps \<Longrightarrow> length h = 32"
proof (induction ps arbitrary: d us)
  case (Cons p ps)
  show ?case
  proof (cases p)
    case None
    with Cons show ?thesis by auto
  next
    case (Some g)
    with Cons.prems(1) obtain us' vs where "us = us' @ vs" "g = mroot SHA256Compress d vs" "parents_rep SHA256Compress (d + 1) ps us'" by auto
    with Some Cons.IH [of "d + 1" us'] Cons.prems(2,3) length_mroot_SHA256 [of vs d] show ?thesis by auto
  qed
qed simp

lemma tree_rep_nodes:
  assumes "tree_rep SHA256Compress t xs" "\<forall>x\<in>set xs. length x = 32" "Some h \<in> nodes t"
  shows "length h = 32"
  using assms(1)
proof (cases rule: tree_rep_cases)
  case 1
  with assms(3) show ?thesis by (simp add: nodes_def)
next
  case (2 a ys)
  with assms(2,3) parents_rep_nodes [OF 2(4)] show ?thesis by (auto simp: nodes_def)
next
  case (3 a b ys)
  with assms(2,3) parents_rep_nodes [OF 3(4)] show ?thesis by (auto simp: nodes_def)
qed

lemmas opt_hash_codec = optional_codec [OF blob.codec_axioms [where n = 32]]

lemma tree_read_back:
  assumes "wfcheck Depth t = Inr ()" "length (parents t) \<le> MAX_SIZE" "\<And>h. Some h \<in> nodes t \<Longrightarrow> length h = 32"
  shows "\<exists>b. tree_Serialize Depth t = Inr b \<and> tree_Unserialize Depth (b @ r) = Inr (t, r)"
proof -
  have ok: "\<forall>y. left t = Some y \<longrightarrow> length y = 32" "\<forall>y. right t = Some y \<longrightarrow> length y = 32"
    "length (parents t) \<le> MAX_SIZE \<and> (\<forall>x\<in>set (parents t). \<forall>y. x = Some y \<longrightarrow> length y = 32)"
    using assms(2,3) by (auto simp: nodes_def)
  obtain l r' ps where t: "t = \<lparr>left = l, right = r', parents = ps\<rparr>" by (cases t) auto
  show ?thesis using assms(1) ok unfolding t
    by (simp add: tree_Serialize_def tree_Unserialize_def codec.bind_read_back [OF opt_hash_codec]
        codec.bind_read_back [OF vector_codec [OF opt_hash_codec]])
qed

section \<open>Properties\<close>

text \<open>
  C24. The incremental tree computes the Merkle root. Appending any number of commitments that a tree of
  the depth can hold succeeds, and the object left, which keeps one hash per level at most, gives the
  root of the complete binary tree over those commitments padded with the uncommitted value; it passes
  its own well-formedness check, knows its last commitment and, below \<open>2 ^ 31\<close> commitments, their
  number. One commitment too many is refused. Nothing is assumed of the hash.
\<close>

theorem incremental_root_is_merkle_root:
  assumes "1 \<le> Depth"
  shows "if length xs \<le> 2 ^ Depth
    then \<exists>t. append_list (tree_append H Depth) tree_empty xs = Inr t \<and> tree_root H Depth t = mroot H Depth xs \<and>
             wfcheck Depth t = Inr () \<and> tree_last t = (if xs = [] then Inl NoCursor else Inr (last xs)) \<and>
             (length xs < 2 ^ 31 \<longrightarrow> tree_size t = of_nat (length xs))
    else append_list (tree_append H Depth) tree_empty xs = Inl TreeFull"
proof -
  have "tree_last t = (if xs = [] then Inl NoCursor else Inr (last xs))" if "tree_rep H t xs" for t
    using tree_rep_levels(2) [OF that] that by (cases "xs = []") (auto simp: tree_rep_def tree_last_def split: option.splits)
  moreover have "if length xs \<le> 2 ^ Depth
    then \<exists>t. append_list (tree_append H Depth) tree_empty xs = Inr t \<and> tree_rep H t xs \<and> tree_root H Depth t = mroot H Depth xs
    else append_list (tree_append H Depth) tree_empty xs = Inl TreeFull"
    using tree_acc.append_list_cases [of H tree_empty "[]" Depth xs] assms by (simp add: tree_rep_empty split: if_splits)
  ultimately show ?thesis
    using tree_rep_wfcheck [of H _ xs Depth] tree_size_rep [of H _ xs] assms by (cases "length xs \<le> 2 ^ Depth") (simp only: if_True, blast, simp)
qed

theorem incremental_root_is_merkle_root_witness:
  "\<exists>t. append_list (tree_append SHA256Compress INCREMENTAL_MERKLE_TREE_DEPTH) tree_empty (map (replicate 32) [1, 2, 3]) = Inr t \<and>
     tree_root SHA256Compress INCREMENTAL_MERKLE_TREE_DEPTH t =
       mroot SHA256Compress INCREMENTAL_MERKLE_TREE_DEPTH (map (replicate 32) [1, 2, 3])"
  using incremental_root_is_merkle_root [of INCREMENTAL_MERKLE_TREE_DEPTH "map (replicate 32) [1, 2, 3]" SHA256Compress] by auto

text \<open>
  C25. A witness taken at a commitment stays a proof of it. Whatever is appended to a tree and to a
  witness of its last commitment afterwards, up to the capacity, the witness follows: its root is the
  root over all commitments, and its path, hashed up from the witnessed commitment to the side each
  index bit says, gives that same root, with the index spelling the commitment's position.
\<close>

theorem witness_authenticates:
  assumes "1 \<le> Depth" "xs \<noteq> []" "length xs + length ys \<le> 2 ^ Depth"
    "append_list (tree_append H Depth) tree_empty xs = Inr t"
  shows "\<exists>w path index. append_list (witness_append H Depth) (tree_witness t) ys = Inr w \<and>
    witness_element w = Inr (last xs) \<and> witness_root H Depth w = mroot H Depth (xs @ ys) \<and>
    witness_path H Depth w = Inr (path, index) \<and> length path = Depth \<and> length index = Depth \<and>
    path_root H 0 (last xs) (zip (rev index) (rev path)) = mroot H Depth (xs @ ys) \<and>
    path_position (rev index) = length xs - 1"
proof -
  have t: "tree_rep H t xs"
    using tree_acc.append_list_cases [of H tree_empty "[]" Depth xs] assms by (auto simp: tree_rep_empty)
  from witness_rep_init [OF t assms(2) _ assms(1)] have "witness_rep H Depth xs (tree_witness t) []" using assms(3) by simp
  from witness_acc.append_list_rep [OF this, of ys] obtain w where
    w: "append_list (witness_append H Depth) (tree_witness t) ys = Inr w" "witness_rep H Depth xs w ys" using assms(3) by force
  from witness_path_rep [OF w(2)] obtain es where
    es: "witness_path H Depth w = Inr (rev (map snd es), rev (map fst es))" "length es = Depth"
      "path_root H 0 (last xs) es = mroot H Depth (xs @ ys)" "path_position (map fst es) = length xs - 1" by blast
  have "zip (map fst es) (map snd es) = es" by (rule zip_map_fst_snd)
  with w es witness_root_rep [OF w(2)] witness_rep_tree(4) [OF w(2)] show ?thesis
    by (auto simp: witness_element_def intro!: exI [of _ "rev (map snd es)"])
qed

theorem witness_authenticates_witness:
  "\<exists>w path index.
     append_list (witness_append SHA256Compress INCREMENTAL_MERKLE_TREE_DEPTH)
       (tree_witness (tree_empty\<lparr>left := Some (replicate 32 1)\<rparr>)) (map (replicate 32) [2, 3]) = Inr w \<and>
     witness_path SHA256Compress INCREMENTAL_MERKLE_TREE_DEPTH w = Inr (path, index) \<and>
     path_root SHA256Compress 0 (replicate 32 1) (zip (rev index) (rev path)) =
       mroot SHA256Compress INCREMENTAL_MERKLE_TREE_DEPTH (map (replicate 32) [1, 2, 3])"
  using witness_authenticates [of INCREMENTAL_MERKLE_TREE_DEPTH "[replicate 32 1]" "map (replicate 32) [2, 3]" SHA256Compress
      "tree_empty\<lparr>left := Some (replicate 32 1)\<rparr>"]
  by (auto simp: tree_append_def is_complete_def tree_empty_def)

text \<open>
  The tree survives the database: the tree over any commitments of 32 bytes, kept under Sprout's hash, is
  written without an exception, and read back, with anything after it, as the same tree, so the root
  and every later append are the same too.
\<close>

theorem commitment_tree_stored:
  assumes "1 \<le> Depth" "Depth \<le> MAX_SIZE" "length xs \<le> 2 ^ Depth" "\<And>x. x \<in> set xs \<Longrightarrow> length x = 32"
    "append_list (tree_append SHA256Compress Depth) tree_empty xs = Inr t"
  shows "\<exists>b. tree_Serialize Depth t = Inr b \<and> tree_Unserialize Depth (b @ r) = Inr (t, r)"
proof -
  have t: "tree_rep SHA256Compress t xs"
    using tree_acc.append_list_cases [of SHA256Compress tree_empty "[]" Depth xs] assms by (auto simp: tree_rep_empty)
  show ?thesis
  proof (rule tree_read_back)
    show "wfcheck Depth t = Inr ()" using tree_rep_wfcheck [OF t] assms by simp
    show "length (parents t) \<le> MAX_SIZE" using tree_rep_parents [OF t assms(3,1)] assms(2) by simp
    show "length h = 32" if "Some h \<in> nodes t" for h using tree_rep_nodes [OF t _ that] assms(4) by blast
  qed
qed

theorem commitment_tree_stored_witness:
  "\<exists>b. tree_Serialize 29 (tree_empty\<lparr>left := Some (replicate 32 1)\<rparr>) = Inr b \<and>
     tree_Unserialize 29 (b @ [9]) = Inr (tree_empty\<lparr>left := Some (replicate 32 1)\<rparr>, [9])"
  by (rule commitment_tree_stored [of 29 "[replicate 32 1]"]) (simp_all add: tree_append_def is_complete_def tree_empty_def)

end
