(* ===== verification/ArithUint256.thy ===== *)
theory ArithUint256
  imports CryptoCommon
begin

text \<open>
  \<^verbatim>\<open>src/arith_uint256.h\<close>, \<^verbatim>\<open>src/arith_uint256.cpp\<close>: the 256-bit unsigned
  integer of the difficulty arithmetic, an array \<open>pn\<close> of eight 32-bit limbs, least
  significant first. The template \<open>base_uint<BITS>\<close> is instantiated at 256 bits only. Loops over
  the limbs are recursions or folds over the limb list; \<open>uint64_t\<close> intermediate
  results keep their width. \<open>bu_val\<close> is the number an array denotes; the lemmas show that
  every operator computes the operation of the same name on numbers modulo \<open>2 ^ 256\<close>.

  \<open>CompareTo\<close> in the source first tests whether the addresses of the two arrays are below
  0x1000; an array member of a live object has no such address, and the model has no addresses.
  \<open>getdouble\<close> (floating point) is left out. The compact encoding of targets is in
  \<open>ArithCompact\<close>.
\<close>

record base_uint =
  pn :: "u32 list"

datatype uint_error = DivisionByZero | AssertionFailed

definition WIDTH :: nat where
  "WIDTH = 8"

definition bu_wf :: "base_uint \<Rightarrow> bool" where
  "bu_wf b \<longleftrightarrow> length (pn b) = WIDTH"

definition bu_val :: "base_uint \<Rightarrow> nat" where
  "bu_val b = le_val (pn b)"

section \<open>Constructors and limb-wise operators\<close>

definition bu_zero :: base_uint where
  "bu_zero = \<lparr>pn = replicate WIDTH 0\<rparr>"

definition bu_of_u64 :: "u64 \<Rightarrow> base_uint" where
  "bu_of_u64 b = \<lparr>pn = ucast b # ucast (drop_bit 32 b) # replicate (WIDTH - 2) 0\<rparr>"

definition bu_is_zero :: "base_uint \<Rightarrow> bool" where
  "bu_is_zero a \<longleftrightarrow> list_all (\<lambda>w. w = 0) (pn a)"

definition bu_not :: "base_uint \<Rightarrow> base_uint" where
  "bu_not a = \<lparr>pn = map (\<lambda>w. NOT w) (pn a)\<rparr>"

definition bu_xor :: "base_uint \<Rightarrow> base_uint \<Rightarrow> base_uint" where
  "bu_xor a b = \<lparr>pn = map2 (\<lambda>x y. x XOR y) (pn a) (pn b)\<rparr>"

definition bu_and :: "base_uint \<Rightarrow> base_uint \<Rightarrow> base_uint" where
  "bu_and a b = \<lparr>pn = map2 (\<lambda>x y. x AND y) (pn a) (pn b)\<rparr>"

definition bu_or :: "base_uint \<Rightarrow> base_uint \<Rightarrow> base_uint" where
  "bu_or a b = \<lparr>pn = map2 (\<lambda>x y. x OR y) (pn a) (pn b)\<rparr>"

definition bu_low64 :: "base_uint \<Rightarrow> u64" where
  "bu_low64 a = ucast (pn a ! 0) OR push_bit 32 (ucast (pn a ! 1))"

section \<open>Addition, negation, increment\<close>

fun add_loop :: "u64 \<Rightarrow> u32 list \<Rightarrow> u32 list \<Rightarrow> u32 list" where
  "add_loop carry (p # ps) (b # bs) =
     (let n = carry + ucast p + ucast b
      in ucast (n AND 0xffffffff) # add_loop (drop_bit 32 n) ps bs)"
| "add_loop carry ps bs = ps"

definition bu_add :: "base_uint \<Rightarrow> base_uint \<Rightarrow> base_uint" where
  "bu_add a b = \<lparr>pn = add_loop 0 (pn a) (pn b)\<rparr>"

text \<open>The loop of \<open>operator++\<close> stops at the first limb that does not wrap to 0, and at the last.\<close>

fun inc_loop :: "u32 list \<Rightarrow> u32 list" where
  "inc_loop [] = []"
| "inc_loop (p # ps) = (if p + 1 = 0 then (p + 1) # inc_loop ps else (p + 1) # ps)"

definition bu_inc :: "base_uint \<Rightarrow> base_uint" where
  "bu_inc a = \<lparr>pn = inc_loop (pn a)\<rparr>"

fun dec_loop :: "u32 list \<Rightarrow> u32 list" where
  "dec_loop [] = []"
| "dec_loop (p # ps) = (if p - 1 = -1 then (p - 1) # dec_loop ps else (p - 1) # ps)"

definition bu_dec :: "base_uint \<Rightarrow> base_uint" where
  "bu_dec a = \<lparr>pn = dec_loop (pn a)\<rparr>"

definition bu_neg :: "base_uint \<Rightarrow> base_uint" where
  "bu_neg a = bu_inc (bu_not a)"

definition bu_sub :: "base_uint \<Rightarrow> base_uint \<Rightarrow> base_uint" where
  "bu_sub a b = bu_add a (bu_neg b)"

text \<open>The variants that take a 64-bit operand.\<close>

definition bu_xor_u64 :: "base_uint \<Rightarrow> u64 \<Rightarrow> base_uint" where
  "bu_xor_u64 a b =
     a\<lparr>pn := (pn a)[0 := pn a ! 0 XOR ucast b, 1 := pn a ! 1 XOR ucast (drop_bit 32 b)]\<rparr>"

definition bu_or_u64 :: "base_uint \<Rightarrow> u64 \<Rightarrow> base_uint" where
  "bu_or_u64 a b =
     a\<lparr>pn := (pn a)[0 := pn a ! 0 OR ucast b, 1 := pn a ! 1 OR ucast (drop_bit 32 b)]\<rparr>"

definition bu_add_u64 :: "base_uint \<Rightarrow> u64 \<Rightarrow> base_uint" where
  "bu_add_u64 a b64 = bu_add a (bu_of_u64 b64)"

definition bu_sub_u64 :: "base_uint \<Rightarrow> u64 \<Rightarrow> base_uint" where
  "bu_sub_u64 a b64 = bu_add a (bu_neg (bu_of_u64 b64))"

section \<open>Multiplication\<close>

fun mul32_loop :: "u64 \<Rightarrow> u32 \<Rightarrow> u32 list \<Rightarrow> u32 list" where
  "mul32_loop carry b32 [] = []"
| "mul32_loop carry b32 (p # ps) =
     (let n = carry + ucast b32 * ucast p
      in ucast (n AND 0xffffffff) # mul32_loop (drop_bit 32 n) b32 ps)"

definition bu_mul32 :: "base_uint \<Rightarrow> u32 \<Rightarrow> base_uint" where
  "bu_mul32 a b32 = \<lparr>pn = mul32_loop 0 b32 (pn a)\<rparr>"

text \<open>
  The inner loop of \<open>operator*=\<close> runs over the limbs of the result from position \<open>j\<close> on,
  paired with the limbs of \<open>b\<close> from position 0 on.
\<close>

fun mul_row :: "u64 \<Rightarrow> u32 \<Rightarrow> u32 list \<Rightarrow> u32 list \<Rightarrow> u32 list" where
  "mul_row carry aj (p # ps) (b # bs) =
     (let n = carry + ucast p + ucast aj * ucast b
      in ucast (n AND 0xffffffff) # mul_row (drop_bit 32 n) aj ps bs)"
| "mul_row carry aj ps bs = ps"

definition mul_step :: "u32 list \<Rightarrow> u32 list \<Rightarrow> u32 list \<Rightarrow> nat \<Rightarrow> u32 list" where
  "mul_step a b r j = take j r @ mul_row 0 (a ! j) (drop j r) b"

definition bu_mul :: "base_uint \<Rightarrow> base_uint \<Rightarrow> base_uint" where
  "bu_mul a b = \<lparr>pn = foldl (mul_step (pn a) (pn b)) (replicate WIDTH 0) [0..<WIDTH]\<rparr>"

section \<open>Shifts\<close>

definition shl_step :: "u32 list \<Rightarrow> nat \<Rightarrow> nat \<Rightarrow> u32 list \<Rightarrow> nat \<Rightarrow> u32 list" where
  "shl_step a k s p i =
     (let p1 = (if i + k + 1 < WIDTH \<and> s \<noteq> 0
                then p[i + k + 1 := p ! (i + k + 1) OR drop_bit (32 - s) (a ! i)] else p)
      in if i + k < WIDTH then p1[i + k := p1 ! (i + k) OR push_bit s (a ! i)] else p1)"

definition bu_shl :: "base_uint \<Rightarrow> nat \<Rightarrow> base_uint" where
  "bu_shl a shift =
     \<lparr>pn = foldl (shl_step (pn a) (shift div 32) (shift mod 32)) (replicate WIDTH 0) [0..<WIDTH]\<rparr>"

definition shr_step :: "u32 list \<Rightarrow> nat \<Rightarrow> nat \<Rightarrow> u32 list \<Rightarrow> nat \<Rightarrow> u32 list" where
  "shr_step a k s p i =
     (let p1 = (if k + 1 \<le> i \<and> s \<noteq> 0
                then p[i - k - 1 := p ! (i - k - 1) OR push_bit (32 - s) (a ! i)] else p)
      in if k \<le> i then p1[i - k := p1 ! (i - k) OR drop_bit s (a ! i)] else p1)"

definition bu_shr :: "base_uint \<Rightarrow> nat \<Rightarrow> base_uint" where
  "bu_shr a shift =
     \<lparr>pn = foldl (shr_step (pn a) (shift div 32) (shift mod 32)) (replicate WIDTH 0) [0..<WIDTH]\<rparr>"

section \<open>Comparison, bit length, division\<close>

primrec compare_loop :: "nat \<Rightarrow> u32 list \<Rightarrow> u32 list \<Rightarrow> int" where
  "compare_loop 0 a b = 0"
| "compare_loop (Suc i) a b =
     (if a ! i < b ! i then -1 else if a ! i > b ! i then 1 else compare_loop i a b)"

definition CompareTo :: "base_uint \<Rightarrow> base_uint \<Rightarrow> int" where
  "CompareTo a b = compare_loop WIDTH (pn a) (pn b)"

definition EqualTo :: "base_uint \<Rightarrow> u64 \<Rightarrow> bool" where
  "EqualTo a b \<longleftrightarrow>
     (if list_ex (\<lambda>w. w \<noteq> 0) (drop 2 (pn a)) then False
      else if ucast (pn a ! 1) \<noteq> drop_bit 32 b then False
      else if ucast (pn a ! 0) \<noteq> b AND 0xffffffff then False
      else True)"

text \<open>Bits 31 down to 1 of a non-zero limb are tested; when none is set, bit 0 is.\<close>

primrec limb_bits :: "nat \<Rightarrow> u32 \<Rightarrow> nat" where
  "limb_bits 0 w = 1"
| "limb_bits (Suc n) w = (if w AND push_bit (Suc n) 1 \<noteq> 0 then Suc n + 1 else limb_bits n w)"

primrec bits_loop :: "nat \<Rightarrow> u32 list \<Rightarrow> nat" where
  "bits_loop 0 p = 0"
| "bits_loop (Suc pos) p =
     (if p ! pos \<noteq> 0 then 32 * pos + limb_bits 31 (p ! pos) else bits_loop pos p)"

definition bu_bits :: "base_uint \<Rightarrow> nat" where
  "bu_bits a = bits_loop WIDTH (pn a)"

text \<open>
  The loop of \<open>operator/=\<close> counts \<open>shift\<close> down to and including 0; its argument here is
  the number of rounds left, \<open>shift + 1\<close>.
\<close>

primrec div_loop :: "nat \<Rightarrow> base_uint \<Rightarrow> base_uint \<Rightarrow> base_uint \<Rightarrow> base_uint" where
  "div_loop 0 num d q = q"
| "div_loop (Suc shift) num d q =
     (if CompareTo num d \<ge> 0
      then div_loop shift (bu_sub num d) (bu_shr d 1)
             (q\<lparr>pn := (pn q)[shift div 32 := pn q ! (shift div 32) OR push_bit (shift mod 32) 1]\<rparr>)
      else div_loop shift num (bu_shr d 1) q)"

definition bu_div :: "base_uint \<Rightarrow> base_uint \<Rightarrow> uint_error + base_uint" where
  "bu_div a b =
     (let num_bits = bu_bits a; div_bits = bu_bits b
      in if div_bits = 0 then Inl DivisionByZero
         else if div_bits > num_bits then Inr bu_zero
         else Inr (div_loop (Suc (num_bits - div_bits)) a (bu_shl b (num_bits - div_bits)) bu_zero))"

section \<open>Conversion to and from \<open>uint256\<close> blobs\<close>

definition ArithToUint256 :: "base_uint \<Rightarrow> bytes" where
  "ArithToUint256 a = concat (map WriteLE32 (pn a))"

definition UintToArith256 :: "bytes \<Rightarrow> base_uint" where
  "UintToArith256 a = \<lparr>pn = map (\<lambda>x. ReadLE32 (drop (4 * x) a)) [0..<WIDTH]\<rparr>"

section \<open>Specification vocabulary\<close>

text \<open>\<open>n\<close> is the number of significant bits of \<open>x\<close>.\<close>

definition bitlen :: "nat \<Rightarrow> nat \<Rightarrow> bool" where
  "bitlen x n \<longleftrightarrow> x < 2 ^ n \<and> (n \<noteq> 0 \<longrightarrow> 2 ^ (n - 1) \<le> x)"

section \<open>The operators compute modulo \<open>2 ^ 256\<close>\<close>

subsection \<open>Limbs and carries\<close>

lemma limb_low: "unat (ucast (n AND 0xffffffff :: u64) :: u32) = unat n mod 2 ^ 32"
proof -
  have "(0xffffffff :: u64) = mask 32" by (simp add: mask_eq_exp_minus_1)
  then have "n AND 0xffffffff = take_bit 32 n" by (simp only: take_bit_eq_mask)
  then have "unat (n AND 0xffffffff) = unat n mod 2 ^ 32"
    by (simp only: unsigned_take_bit_eq) (rule take_bit_eq_mod)
  then show ?thesis by (simp add: unat_ucast_mod)
qed

lemma limb_high: "unat (drop_bit 32 (n :: u64)) = unat n div 2 ^ 32"
  by (rule unat_drop_bit)

lemma limb_high_bound: "unat (drop_bit 32 (n :: u64)) < 2 ^ 32"
proof -
  have "unat n < 2 ^ 32 * 2 ^ 32" using u64_less [of n] by (simp flip: power_add)
  then show ?thesis unfolding limb_high by (rule less_mult_imp_div_less)
qed

lemma unat_sum3:
  assumes "unat c < 2 ^ 32"
  shows "unat (c + ucast (p :: u32) + ucast (b :: u32) :: u64) = unat c + unat p + unat b"
  using assms u32_less [of p] u32_less [of b]
  by (simp add: unat_add_nowrap unat_ucast_up)

lemma u32_mult_bound: "unat (p :: u32) * unat (b :: u32) \<le> (2 ^ 32 - 1) * (2 ^ 32 - 1)"
proof -
  have "unat p \<le> 2 ^ 32 - 1" "unat b \<le> 2 ^ 32 - 1"
    using u32_less [of p] u32_less [of b] by simp_all
  then show ?thesis by (rule mult_le_mono)
qed

lemma unat_mul_acc:
  assumes "unat c < 2 ^ 32"
  shows "unat (c + ucast (p :: u32) + ucast (a :: u32) * ucast (b :: u32) :: u64)
           = unat c + unat p + unat a * unat b"
proof -
  have ab: "unat (ucast a * ucast b :: u64) = unat a * unat b"
    using u32_mult_bound [of a b] by (simp add: unat_mult_nowrap unat_ucast_up)
  have "unat (c + ucast p :: u64) = unat c + unat p"
    using assms u32_less [of p] by (simp add: unat_add_nowrap unat_ucast_up)
  with ab show ?thesis
    using assms u32_less [of p] u32_mult_bound [of a b] by (simp add: unat_add_nowrap)
qed

lemma le_val_cons_carry:
  assumes "le_val r = (unat n div 2 ^ 32 + y) mod 2 ^ (32 * k)"
  shows "le_val (ucast (n AND 0xffffffff :: u64) # r :: u32 list)
           = (unat n + 2 ^ 32 * y) mod 2 ^ (32 * Suc k)"
proof -
  have "le_val (ucast (n AND 0xffffffff) # r :: u32 list)
      = unat n mod 2 ^ 32 + 2 ^ 32 * ((unat n div 2 ^ 32 + y) mod 2 ^ (32 * k))"
    by (simp only: le_val.simps limb_low assms len_num0 len_bit0 len_num1 len_bit1) simp
  also have "\<dots> = (unat n + 2 ^ 32 * y) mod (2 ^ 32 * 2 ^ (32 * k))"
    by (rule carry_step)
  finally show ?thesis by (simp only: mult_Suc_right power_add)
qed

lemma length_add_loop [simp]: "length (add_loop c ps bs) = length ps"
  by (induction c ps bs rule: add_loop.induct) (auto simp: Let_def)

lemma le_val_u32_Cons: "le_val (w # ws :: u32 list) = unat w + 2 ^ 32 * le_val ws"
  by simp

lemma le_val_add_loop:
  "length ps = length bs \<Longrightarrow> unat c < 2 ^ 32 \<Longrightarrow>
   le_val (add_loop c ps bs) = (unat c + le_val ps + le_val bs) mod 2 ^ (32 * length ps)"
proof (induction c ps bs rule: add_loop.induct)
  case (1 carry p ps b bs)
  let ?n = "carry + ucast p + ucast b :: u64"
  have len: "length ps = length bs" using 1(2) by simp
  have "le_val (add_loop (drop_bit 32 ?n) ps bs)
      = (unat ?n div 2 ^ 32 + (le_val ps + le_val bs)) mod 2 ^ (32 * length ps)"
    using 1(1) [OF refl len limb_high_bound] by (simp only: limb_high add.assoc)
  from le_val_cons_carry [OF this] 1(3) show ?case
    by (simp only: add_loop.simps Let_def unat_sum3 le_val_u32_Cons list.size add_Suc_right add_0_right)
       (simp only: distrib_left add.assoc add.left_commute add.commute)
qed simp_all

lemma length_mul32_loop [simp]: "length (mul32_loop c b ps) = length ps"
  by (induction ps arbitrary: c) (simp_all add: Let_def)

lemma le_val_mul32_loop:
  "unat c < 2 ^ 32 \<Longrightarrow>
   le_val (mul32_loop c b ps) = (unat c + unat b * le_val ps) mod 2 ^ (32 * length ps)"
proof (induction ps arbitrary: c)
  case (Cons p ps)
  let ?n = "c + ucast b * ucast p :: u64"
  have n: "unat ?n = unat c + unat b * unat p"
    using unat_mul_acc [OF Cons.prems, of 0 b p] by simp
  have "le_val (mul32_loop (drop_bit 32 ?n) b ps)
      = (unat ?n div 2 ^ 32 + unat b * le_val ps) mod 2 ^ (32 * length ps)"
    using Cons.IH [OF limb_high_bound] by (simp only: limb_high)
  from le_val_cons_carry [OF this] show ?case
    by (simp only: mul32_loop.simps Let_def n le_val_u32_Cons list.size add_Suc_right add_0_right
          distrib_left add.assoc mult.left_commute)
qed simp

lemma length_mul_row [simp]: "length (mul_row c a ps bs) = length ps"
  by (induction c a ps bs rule: mul_row.induct) (auto simp: Let_def)

lemma le_val_mul_row:
  "length ps \<le> length bs \<Longrightarrow> unat c < 2 ^ 32 \<Longrightarrow>
   le_val (mul_row c a ps bs) = (unat c + le_val ps + unat a * le_val bs) mod 2 ^ (32 * length ps)"
proof (induction c a ps bs rule: mul_row.induct)
  case (1 carry aj p ps b bs)
  let ?n = "carry + ucast p + ucast aj * ucast b :: u64"
  have len: "length ps \<le> length bs" using 1(2) by simp
  have "le_val (mul_row (drop_bit 32 ?n) aj ps bs)
      = (unat ?n div 2 ^ 32 + (le_val ps + unat aj * le_val bs)) mod 2 ^ (32 * length ps)"
    using 1(1) [OF refl len limb_high_bound] by (simp only: limb_high add.assoc)
  from le_val_cons_carry [OF this] 1(3) show ?case
    by (simp only: mul_row.simps Let_def unat_mul_acc le_val_u32_Cons list.size add_Suc_right add_0_right)
       (simp only: distrib_left add.assoc add.left_commute add.commute mult.left_commute)
qed simp_all

lemma le_val_take_drop:
  "j \<le> length ws \<Longrightarrow>
   le_val ws = le_val (take j ws) + 2 ^ (32 * j) * le_val (drop j ws :: u32 list)"
  using le_val_append [of "take j ws" "drop j ws"] by (simp add: min_def)

lemma le_val_u32_bound: "le_val (ws :: u32 list) < 2 ^ (32 * length ws)"
  using le_val_bound [of ws] by simp

lemma le_val_mul_step:
  assumes "length r = n" "length b = n" "j < n"
  shows "le_val (mul_step a b r j) = (le_val r + 2 ^ (32 * j) * (unat (a ! j) * le_val b)) mod 2 ^ (32 * n)"
proof -
  let ?t = "le_val (take j r)" and ?d = "le_val (drop j r)" and ?M = "2 ^ (32 * j) :: nat"
  let ?N = "2 ^ (32 * (n - j)) :: nat"
  have t: "?t < ?M" using le_val_u32_bound [of "take j r"] assms by simp
  have MN: "?M * ?N = 2 ^ (32 * n)" using assms by (simp flip: power_add add_mult_distrib2)
  have "le_val (mul_row 0 (a ! j) (drop j r) b) = (?d + unat (a ! j) * le_val b) mod ?N"
    using assms by (subst le_val_mul_row) simp_all
  then have "le_val (mul_step a b r j) = ?t + ?M * ((?d + unat (a ! j) * le_val b) mod ?N)"
    using assms by (simp add: mul_step_def le_val_append)
  also have "\<dots> = (?t + ?M * (?d + unat (a ! j) * le_val b)) mod (?M * ?N)"
    using t carry_step [of ?t ?M "?d + unat (a ! j) * le_val b" ?N] by simp
  finally show ?thesis
    using le_val_take_drop [of j r] assms
    by (simp only: MN distrib_left add.assoc [symmetric])
qed

lemma length_mul_step [simp]: "j \<le> length r \<Longrightarrow> length (mul_step a b r j) = length r"
  by (simp add: mul_step_def)

lemma le_val_take_Suc:
  "j < length ws \<Longrightarrow> le_val (take (Suc j) ws :: u32 list) = le_val (take j ws) + 2 ^ (32 * j) * unat (ws ! j)"
  by (simp add: take_Suc_conv_app_nth le_val_append min_def)

lemma mul_fold:
  assumes "length a = n" "length b = n" "j \<le> n"
  shows "length (foldl (mul_step a b) (replicate n 0) [0..<j]) = n \<and>
         le_val (foldl (mul_step a b) (replicate n 0) [0..<j])
           = (le_val (take j a) * le_val b) mod 2 ^ (32 * n)"
  using assms(3)
proof (induction j)
  case 0
  then show ?case by (simp add: le_val_replicate_0)
next
  case (Suc j)
  let ?r = "foldl (mul_step a b) (replicate n 0) [0..<j]"
  from Suc have IH: "length ?r = n" "le_val ?r = (le_val (take j a) * le_val b) mod 2 ^ (32 * n)"
    by simp_all
  have "le_val (mul_step a b ?r j)
      = (le_val ?r + 2 ^ (32 * j) * (unat (a ! j) * le_val b)) mod 2 ^ (32 * n)"
    using IH(1) assms(2) Suc.prems by (intro le_val_mul_step) simp_all
  also have "\<dots> = ((le_val (take j a) + 2 ^ (32 * j) * unat (a ! j)) * le_val b) mod 2 ^ (32 * n)"
    unfolding IH(2) mod_add_left_eq by (simp only: distrib_right mult.assoc)
  finally show ?case
    using IH(1) Suc.prems assms(1) by (simp add: le_val_take_Suc)
qed

lemma unat_minus_1_u32 [simp]: "unat (- 1 :: u32) = 4294967295"
  by (simp add: unsigned_minus_1_eq_mask mask_eq_exp_minus_1)

lemma unat_not32: "unat (NOT w :: u32) + unat w + 1 = 2 ^ 32"
proof -
  have "w \<le> - 1" by simp
  then have "unat (- 1 - w) = unat (- 1 :: u32) - unat w" by (rule unat_sub)
  moreover have "NOT w = - 1 - w" by (simp add: not_eq_complement)
  ultimately show ?thesis using u32_less [of w] by simp
qed

lemma add_scaled:
  fixes x w A B K N :: nat
  assumes "x + w + 1 = K" and "A + B + 1 = N"
  shows "(x + K * A) + (w + K * B) + 1 = K * N"
  unfolding assms(2) [symmetric] using assms(1) by (simp add: algebra_simps)

lemma le_val_not: "le_val (map (\<lambda>w. NOT w) ws :: u32 list) + le_val ws + 1 = 2 ^ (32 * length ws)"
proof (induction ws)
  case (Cons w ws)
  from add_scaled [OF unat_not32 [of w] Cons] show ?case
    by (simp only: list.map le_val_u32_Cons list.size add_Suc_right add_0_right mult_Suc_right power_add)
qed simp

lemma length_inc_loop [simp]: "length (inc_loop ps) = length ps"
  by (induction ps) auto

lemma le_val_inc_loop: "le_val (inc_loop ps) = (le_val ps + 1) mod 2 ^ (32 * length ps)"
proof (induction ps)
  case (Cons p ps)
  have b: "le_val ps < 2 ^ (32 * length ps)" by (rule le_val_u32_bound)
  show ?case
  proof (cases "p + 1 = 0")
    case True
    then have "unat p = 2 ^ 32 - 1"
      by (simp add: add_eq_0_iff2)
    then have "le_val (p # ps) + 1 = 2 ^ 32 * (le_val ps + 1)" by simp
    then have "(le_val (p # ps) + 1) mod 2 ^ (32 * length (p # ps))
       = 2 ^ 32 * ((le_val ps + 1) mod 2 ^ (32 * length ps))"
      by (simp only: list.size mult_Suc_right power_add add_Suc_right add_0_right mult_mod_right)
    moreover have "le_val (inc_loop (p # ps)) = 2 ^ 32 * ((le_val ps + 1) mod 2 ^ (32 * length ps))"
      using True by (simp add: Cons.IH)
    ultimately show ?thesis by (simp only:)
  next
    case False
    then have p1: "unat (p + 1) = unat p + 1" by (metis add.commute unatSuc Suc_eq_plus1)
    have "le_val ((p + 1) # ps) = le_val (p # ps) + 1" by (simp only: le_val_u32_Cons p1)
    moreover have "le_val ((p + 1) # ps) < 2 ^ (32 * length (p # ps))"
      using le_val_u32_bound [of "(p + 1) # ps"] by simp
    ultimately show ?thesis using False by (simp only: inc_loop.simps if_False) simp
  qed
qed simp

lemma length_dec_loop [simp]: "length (dec_loop ps) = length ps"
  by (induction ps) auto

lemma le_val_dec_loop: "(le_val (dec_loop ps) + 1) mod 2 ^ (32 * length ps) = le_val ps"
proof (induction ps)
  case (Cons p ps)
  show ?case
  proof (cases "p - 1 = - 1")
    case True
    then have p: "p = 0" by simp
    have "le_val (dec_loop (p # ps)) + 1 = 2 ^ 32 * (le_val (dec_loop ps) + 1)"
      unfolding dec_loop.simps if_P [OF True] le_val_u32_Cons True unat_minus_1_u32 by simp
    then have "(le_val (dec_loop (p # ps)) + 1) mod 2 ^ (32 * length (p # ps))
        = 2 ^ 32 * ((le_val (dec_loop ps) + 1) mod 2 ^ (32 * length ps))"
      by (simp only: list.size mult_Suc_right power_add add_Suc_right add_0_right mult_mod_right)
    also have "\<dots> = le_val (p # ps)" unfolding Cons.IH le_val_u32_Cons p by simp
    finally show ?thesis .
  next
    case False
    then have "p \<noteq> 0" by auto
    then have "unat (p - 1) = unat p - 1" and "0 < unat p"
      by (simp_all add: unat_minus_one unat_gt_0)
    then have "le_val (dec_loop (p # ps)) + 1 = le_val (p # ps)"
      unfolding dec_loop.simps if_not_P [OF False] le_val_u32_Cons by linarith
    then show ?thesis using le_val_u32_bound [of "p # ps"] by simp
  qed
qed simp

subsection \<open>Shifts\<close>

lemma length_shl_step [simp]: "length (shl_step a k s p i) = length p"
  by (simp add: shl_step_def Let_def)

lemma shl_step_nth:
  assumes "length p = WIDTH" "j < WIDTH"
  shows "shl_step a k s p i ! j =
    p ! j OR (if j = i + k then push_bit s (a ! i) else 0)
          OR (if j = i + k + 1 \<and> s \<noteq> 0 then drop_bit (32 - s) (a ! i) else 0)"
  using assms by (auto simp: shl_step_def Let_def nth_list_update ac_simps)

lemma shl_fold_nth:
  assumes "j < WIDTH"
  shows "length (foldl (shl_step a k s) (replicate WIDTH 0) [0..<n]) = WIDTH \<and>
    foldl (shl_step a k s) (replicate WIDTH 0) [0..<n] ! j =
      (if k \<le> j \<and> j < n + k then push_bit s (a ! (j - k)) else 0)
      OR (if s \<noteq> 0 \<and> k + 1 \<le> j \<and> j < n + k + 1 then drop_bit (32 - s) (a ! (j - k - 1)) else 0)"
proof (induction n)
  case 0
  with assms show ?case by auto
next
  case (Suc n)
  let ?p = "foldl (shl_step a k s) (replicate WIDTH 0) [0..<n]"
  have "shl_step a k s ?p n ! j = ?p ! j
          OR (if j = n + k then push_bit s (a ! n) else 0)
          OR (if j = n + k + 1 \<and> s \<noteq> 0 then drop_bit (32 - s) (a ! n) else 0)"
    using Suc assms by (intro shl_step_nth) simp_all
  then show ?case using Suc
    by (cases "j = n + k"; cases "j = n + k + 1") (auto simp: less_Suc_eq or.commute)
qed

lemma length_shr_step [simp]: "length (shr_step a k s p i) = length p"
  by (simp add: shr_step_def Let_def)

lemma shr_step_nth:
  assumes "length p = WIDTH" "i < WIDTH" "j < WIDTH"
  shows "shr_step a k s p i ! j =
    p ! j OR (if i = j + k then drop_bit s (a ! i) else 0)
          OR (if i = j + k + 1 \<and> s \<noteq> 0 then push_bit (32 - s) (a ! i) else 0)"
  using assms by (auto simp: shr_step_def Let_def nth_list_update ac_simps)

lemma shr_fold_nth:
  assumes "j < WIDTH"
  shows "n \<le> WIDTH \<Longrightarrow> length (foldl (shr_step a k s) (replicate WIDTH 0) [0..<n]) = WIDTH \<and>
    foldl (shr_step a k s) (replicate WIDTH 0) [0..<n] ! j =
      (if j + k < n then drop_bit s (a ! (j + k)) else 0)
      OR (if s \<noteq> 0 \<and> j + k + 1 < n then push_bit (32 - s) (a ! (j + k + 1)) else 0)"
proof (induction n)
  case 0
  with assms show ?case by simp
next
  case (Suc n)
  let ?p = "foldl (shr_step a k s) (replicate WIDTH 0) [0..<n]"
  have "shr_step a k s ?p n ! j = ?p ! j
          OR (if n = j + k then drop_bit s (a ! n) else 0)
          OR (if n = j + k + 1 \<and> s \<noteq> 0 then push_bit (32 - s) (a ! n) else 0)"
    using Suc assms by (intro shr_step_nth) simp_all
  then show ?case using Suc
    by (cases "n = j + k"; cases "n = j + k + 1") (simp_all add: less_Suc_eq)
qed

lemma bu_wf_shl [simp]: "bu_wf (bu_shl a n)"
  using shl_fold_nth [of 0 "pn a" "n div 32" "n mod 32" WIDTH]
  by (simp add: bu_wf_def bu_shl_def WIDTH_def)

lemma bu_wf_shr [simp]: "bu_wf (bu_shr a n)"
  using shr_fold_nth [of 0 WIDTH "pn a" "n div 32" "n mod 32"]
  by (simp add: bu_wf_def bu_shr_def WIDTH_def)

lemma pn_shl_nth:
  "j < WIDTH \<Longrightarrow> pn (bu_shl a n) ! j =
      (if n div 32 \<le> j then push_bit (n mod 32) (pn a ! (j - n div 32)) else 0)
      OR (if n mod 32 \<noteq> 0 \<and> n div 32 + 1 \<le> j then drop_bit (32 - n mod 32) (pn a ! (j - n div 32 - 1)) else 0)"
  using shl_fold_nth [of j "pn a" "n div 32" "n mod 32" WIDTH]
  by (simp add: bu_shl_def trans_less_add1)

lemma pn_shr_nth:
  "j < WIDTH \<Longrightarrow> pn (bu_shr a n) ! j =
      (if j + n div 32 < WIDTH then drop_bit (n mod 32) (pn a ! (j + n div 32)) else 0)
      OR (if n mod 32 \<noteq> 0 \<and> j + n div 32 + 1 < WIDTH
          then push_bit (32 - n mod 32) (pn a ! (j + n div 32 + 1)) else 0)"
  using shr_fold_nth [of j WIDTH "pn a" "n div 32" "n mod 32"]
  by (simp add: bu_shr_def)

lemma bit_bu_val: "bu_wf a \<Longrightarrow> bit (bu_val a) m \<longleftrightarrow> m < 256 \<and> bit (pn a ! (m div 32)) (m mod 32)"
  by (auto simp: bu_val_def bit_le_val bu_wf_def WIDTH_def)

text \<open>Positions of bits across limbs: quotients and remainders by 32.\<close>

lemma divmod32I: "x = 32 * a + b \<Longrightarrow> b < 32 \<Longrightarrow> x div 32 = a \<and> x mod 32 = (b :: nat)"
  by simp

lemma split32E: obtains q r :: nat where "x = 32 * q + r" "r < 32" "x div 32 = q" "x mod 32 = r"
  by (rule that [of "x div 32" "x mod 32"]) simp_all

lemma le_split32:
  fixes q r k s :: nat
  assumes "r < 32" "s < 32"
  shows "32 * k + s \<le> 32 * q + r \<longleftrightarrow> (if s \<le> r then k \<le> q else k + 1 \<le> q)"
  using assms by (cases "s \<le> r") auto

lemma shl_index:
  fixes m n :: nat
  assumes "n \<le> m"
  shows "n mod 32 \<le> m mod 32 \<Longrightarrow>
           (m - n) div 32 = m div 32 - n div 32 \<and> (m - n) mod 32 = m mod 32 - n mod 32"
    and "\<not> n mod 32 \<le> m mod 32 \<Longrightarrow>
           (m - n) div 32 = m div 32 - n div 32 - 1 \<and> (m - n) mod 32 = m mod 32 + 32 - n mod 32"
proof -
  obtain q r where m: "m = 32 * q + r" "r < 32" "m div 32 = q" "m mod 32 = r" by (rule split32E)
  obtain k s where n: "n = 32 * k + s" "s < 32" "n div 32 = k" "n mod 32 = s" by (rule split32E)
  note le = le_split32 [OF m(2) n(2), of k q] assms [unfolded m(1) n(1)]
  { assume "n mod 32 \<le> m mod 32"
    then have "s \<le> r" using m(4) n(4) by simp
    moreover from this obtain d where "q = k + d" using le by (auto simp: le_iff_add)
    ultimately have "m - n = 32 * d + (r - s)" using m(1) n(1) by simp
    from divmod32I [OF this] m(2) \<open>q = k + d\<close>
    show "(m - n) div 32 = m div 32 - n div 32 \<and> (m - n) mod 32 = m mod 32 - n mod 32"
      unfolding m(3,4) n(3,4) by simp }
  { assume "\<not> n mod 32 \<le> m mod 32"
    then have "r < s" using m(4) n(4) by simp
    moreover from this obtain d where "q = k + 1 + d" using le by (auto simp: le_iff_add)
    ultimately have "m - n = 32 * d + (r + 32 - s)" using m(1) n(1,2) by linarith
    from divmod32I [OF this] \<open>r < s\<close> n(2) \<open>q = k + 1 + d\<close>
    show "(m - n) div 32 = m div 32 - n div 32 - 1 \<and> (m - n) mod 32 = m mod 32 + 32 - n mod 32"
      unfolding m(3,4) n(3,4) by simp }
qed

lemma le_iff_div_mod32: "(n :: nat) \<le> m \<longleftrightarrow>
    (if n mod 32 \<le> m mod 32 then n div 32 \<le> m div 32 else n div 32 + 1 \<le> m div 32)"
  using le_split32 [of "m mod 32" "n mod 32" "n div 32" "m div 32"] by simp

lemma shr_index:
  fixes m n :: nat
  shows "m mod 32 + n mod 32 < 32 \<Longrightarrow>
           (m + n) div 32 = m div 32 + n div 32 \<and> (m + n) mod 32 = m mod 32 + n mod 32"
    and "\<not> m mod 32 + n mod 32 < 32 \<Longrightarrow>
           (m + n) div 32 = m div 32 + n div 32 + 1 \<and> (m + n) mod 32 = m mod 32 + n mod 32 - 32"
proof -
  have sum: "m + n = 32 * (m div 32 + n div 32) + (m mod 32 + n mod 32)" by simp
  show "m mod 32 + n mod 32 < 32 \<Longrightarrow>
           (m + n) div 32 = m div 32 + n div 32 \<and> (m + n) mod 32 = m mod 32 + n mod 32"
    by (rule divmod32I [OF sum])
  assume "\<not> m mod 32 + n mod 32 < 32"
  then have "m + n = 32 * (m div 32 + n div 32 + 1) + (m mod 32 + n mod 32 - 32)"
    using sum by simp
  then show "(m + n) div 32 = m div 32 + n div 32 + 1 \<and> (m + n) mod 32 = m mod 32 + n mod 32 - 32"
    by (rule divmod32I) (simp add: less_diff_conv2)
qed

lemma bit_push_u32: "bit (push_bit s w :: u32) r \<longleftrightarrow> r < 32 \<and> s \<le> r \<and> bit w (r - s)"
  by (auto simp: bit_push_bit_iff)

lemma bit_u32_less: "bit (w :: u32) i \<Longrightarrow> i < 32"
  using bit_imp_le_length [of w i] by simp

lemma bit_shl_limb:
  assumes "m < 256"
  shows "bit (pn (bu_shl a n) ! (m div 32)) (m mod 32)
      \<longleftrightarrow> n \<le> m \<and> bit (pn a ! ((m - n) div 32)) ((m - n) mod 32)"
proof -
  have j: "m div 32 < WIDTH" using assms by (simp add: WIDTH_def)
  let ?q = "m div 32" and ?r = "m mod 32" and ?k = "n div 32" and ?s = "n mod 32"
  have lhs: "bit (pn (bu_shl a n) ! ?q) ?r \<longleftrightarrow>
      (?k \<le> ?q \<and> ?s \<le> ?r \<and> bit (pn a ! (?q - ?k)) (?r - ?s)) \<or>
      (?s \<noteq> 0 \<and> ?k + 1 \<le> ?q \<and> bit (pn a ! (?q - ?k - 1)) (32 - ?s + ?r))"
    unfolding pn_shl_nth [OF j] by (simp add: bit_or_iff bit_push_u32 bit_drop_bit_eq)
  show ?thesis
  proof (cases "?s \<le> ?r")
    case True
    then have "\<not> bit (pn a ! (?q - ?k - 1)) (32 - ?s + ?r)"
      using bit_u32_less [of "pn a ! (?q - ?k - 1)" "32 - ?s + ?r"] by linarith
    moreover have "?k \<le> ?q \<longleftrightarrow> n \<le> m" using True le_iff_div_mod32 [of n m] by simp
    moreover have "bit (pn a ! ((m - n) div 32)) ((m - n) mod 32) = bit (pn a ! (?q - ?k)) (?r - ?s)"
      if "n \<le> m" by (simp only: shl_index(1) [OF that True])
    ultimately show ?thesis unfolding lhs using True by blast
  next
    case False
    then have "?s \<noteq> 0" and "?k + 1 \<le> ?q \<longleftrightarrow> n \<le> m"
      using le_iff_div_mod32 [of n m] by simp_all
    moreover have "32 - ?s + ?r = ?r + 32 - ?s" by simp
    then have "bit (pn a ! ((m - n) div 32)) ((m - n) mod 32) = bit (pn a ! (?q - ?k - 1)) (32 - ?s + ?r)"
      if "n \<le> m" by (simp only: shl_index(2) [OF that False])
    ultimately show ?thesis unfolding lhs using False by blast
  qed
qed

lemma bu_val_shl: "bu_wf a \<Longrightarrow> bu_val (bu_shl a n) = (bu_val a * 2 ^ n) mod 2 ^ 256"
proof -
  assume wf: "bu_wf a"
  have "bit (bu_val (bu_shl a n)) m \<longleftrightarrow> bit (take_bit 256 (push_bit n (bu_val a))) m" for m
    using bit_shl_limb [of m a n]
    by (auto simp: bit_bu_val wf bit_take_bit_iff bit_push_bit_iff)
  then have "bu_val (bu_shl a n) = take_bit 256 (push_bit n (bu_val a))"
    by (intro bit_eqI) simp
  then show ?thesis by (simp add: take_bit_eq_mod push_bit_eq_mult)
qed

lemma less_256_iff: "(x :: nat) < 256 \<longleftrightarrow> x div 32 < 8"
  by (simp add: div_less_iff_less_mult)

lemma bit_shr_limb:
  assumes "m < 256"
  shows "bit (pn (bu_shr a n) ! (m div 32)) (m mod 32)
      \<longleftrightarrow> m + n < 256 \<and> bit (pn a ! ((m + n) div 32)) ((m + n) mod 32)"
proof -
  have j: "m div 32 < WIDTH" using assms by (simp add: WIDTH_def)
  let ?q = "m div 32" and ?r = "m mod 32" and ?k = "n div 32" and ?s = "n mod 32"
  have lhs: "bit (pn (bu_shr a n) ! ?q) ?r \<longleftrightarrow>
      (?q + ?k < 8 \<and> bit (pn a ! (?q + ?k)) (?s + ?r)) \<or>
      (?s \<noteq> 0 \<and> ?q + ?k + 1 < 8 \<and> 32 - ?s \<le> ?r \<and> bit (pn a ! (?q + ?k + 1)) (?r - (32 - ?s)))"
    unfolding pn_shr_nth [OF j] by (auto simp: bit_or_iff bit_push_u32 bit_drop_bit_eq WIDTH_def)
  show ?thesis
  proof (cases "?r + ?s < 32")
    case True
    from shr_index(1) [OF True] have "?q + ?k < 8 \<longleftrightarrow> m + n < 256"
      unfolding less_256_iff by simp
    moreover have "\<not> 32 - ?s \<le> ?r" using True by linarith
    ultimately show ?thesis
      unfolding lhs shr_index(1) [OF True, THEN conjunct1] shr_index(1) [OF True, THEN conjunct2]
        add.commute [of ?s] by blast
  next
    case False
    then have "\<not> bit (pn a ! (?q + ?k)) (?s + ?r)"
      using bit_u32_less [of "pn a ! (?q + ?k)" "?s + ?r"] by linarith
    moreover have "?s \<noteq> 0" "32 - ?s \<le> ?r" using False by auto
    moreover from shr_index(2) [OF False] have "?q + ?k + 1 < 8 \<longleftrightarrow> m + n < 256"
      unfolding less_256_iff by simp
    moreover have "?r - (32 - ?s) = ?r + ?s - 32" using \<open>32 - ?s \<le> ?r\<close> by simp
    ultimately show ?thesis
      unfolding lhs shr_index(2) [OF False, THEN conjunct1] shr_index(2) [OF False, THEN conjunct2]
      by simp
  qed
qed

lemma bu_val_bound: "bu_wf a \<Longrightarrow> bu_val a < 2 ^ 256"
  using le_val_u32_bound [of "pn a"] by (simp add: bu_wf_def bu_val_def WIDTH_def)

lemma bu_val_shr: "bu_wf a \<Longrightarrow> bu_val (bu_shr a n) = bu_val a div 2 ^ n"
proof -
  assume wf: "bu_wf a"
  have "bit (bu_val (bu_shr a n)) m \<longleftrightarrow> bit (drop_bit n (bu_val a)) m" for m
    using bit_shr_limb [of m a n]
    by (auto simp: bit_bu_val wf bit_drop_bit_eq add.commute)
  then have "bu_val (bu_shr a n) = drop_bit n (bu_val a)"
    by (intro bit_eqI) simp
  then show ?thesis by (simp add: drop_bit_eq_div)
qed

subsection \<open>Values of the operators, comparison, bit length, division\<close>

lemma bu_wf_simps [simp]:
  "bu_wf bu_zero" "bu_wf (bu_of_u64 x)" "bu_wf a \<Longrightarrow> bu_wf (bu_not a)" "bu_wf a \<Longrightarrow> bu_wf (bu_add a b)"
  "bu_wf a \<Longrightarrow> bu_wf (bu_inc a)" "bu_wf a \<Longrightarrow> bu_wf (bu_dec a)" "bu_wf a \<Longrightarrow> bu_wf (bu_mul32 a y)"
  "bu_wf a \<Longrightarrow> bu_wf (bu_neg a)" "bu_wf a \<Longrightarrow> bu_wf (bu_sub a b)"
  by (simp_all add: bu_wf_def bu_zero_def bu_of_u64_def bu_not_def bu_add_def bu_inc_def bu_dec_def
      bu_mul32_def bu_neg_def bu_sub_def WIDTH_def)

lemma bu_wf_mul [simp]: "bu_wf a \<Longrightarrow> bu_wf b \<Longrightarrow> bu_wf (bu_mul a b)"
  using mul_fold [of "pn a" WIDTH "pn b" WIDTH] by (simp add: bu_wf_def bu_mul_def)

lemma bu_val_zero [simp]: "bu_val bu_zero = 0"
  by (simp add: bu_val_def bu_zero_def le_val_replicate_0)

lemma bu_val_of_u64 [simp]: "bu_val (bu_of_u64 x) = unat x"
  by (simp add: bu_val_def bu_of_u64_def le_val_replicate_0 unat_ucast_mod limb_high
      mod_less [OF limb_high_bound, unfolded limb_high, simplified])

lemma bu_val_add: "bu_wf a \<Longrightarrow> bu_wf b \<Longrightarrow> bu_val (bu_add a b) = (bu_val a + bu_val b) mod 2 ^ 256"
  by (simp add: bu_val_def bu_add_def bu_wf_def le_val_add_loop WIDTH_def)

lemma bu_val_mul32: "bu_wf a \<Longrightarrow> bu_val (bu_mul32 a x) = (bu_val a * unat x) mod 2 ^ 256"
  by (simp add: bu_val_def bu_mul32_def bu_wf_def le_val_mul32_loop WIDTH_def mult.commute)

lemma bu_val_mul: "bu_wf a \<Longrightarrow> bu_wf b \<Longrightarrow> bu_val (bu_mul a b) = (bu_val a * bu_val b) mod 2 ^ 256"
  using mul_fold [of "pn a" WIDTH "pn b" WIDTH]
  by (simp add: bu_val_def bu_mul_def bu_wf_def WIDTH_def)

lemma bu_val_inc: "bu_wf a \<Longrightarrow> bu_val (bu_inc a) = (bu_val a + 1) mod 2 ^ 256"
  unfolding bu_val_def bu_inc_def bu_wf_def base_uint.simps le_val_inc_loop by (simp add: WIDTH_def)

lemma bu_val_dec: "bu_wf a \<Longrightarrow> (bu_val (bu_dec a) + 1) mod 2 ^ 256 = bu_val a"
  using le_val_dec_loop [of "pn a"] by (simp add: bu_val_def bu_dec_def bu_wf_def WIDTH_def)

lemma bu_val_neg: "bu_wf a \<Longrightarrow> bu_val (bu_neg a) = (2 ^ 256 - bu_val a) mod 2 ^ 256"
proof -
  assume wf: "bu_wf a"
  have "bu_val (bu_not a) + bu_val a + 1 = 2 ^ 256"
    using le_val_not [of "pn a"] wf by (simp add: bu_val_def bu_not_def bu_wf_def WIDTH_def)
  then have "bu_val (bu_not a) + 1 = 2 ^ 256 - bu_val a" by linarith
  then show ?thesis by (simp add: bu_neg_def bu_val_inc wf)
qed

lemma bu_val_sub:
  assumes "bu_wf a" "bu_wf b"
  shows "bu_val (bu_sub a b) = (bu_val a + (2 ^ 256 - bu_val b)) mod 2 ^ 256"
  using assms by (simp add: bu_sub_def bu_val_add bu_val_neg mod_add_right_eq)

lemma bu_val_sub_le:
  assumes "bu_wf a" "bu_wf b" "bu_val b \<le> bu_val a"
  shows "bu_val (bu_sub a b) = bu_val a - bu_val b"
proof -
  have "bu_val a + (2 ^ 256 - bu_val b) = (bu_val a - bu_val b) + 2 ^ 256"
    using assms bu_val_bound [OF assms(2)] by linarith
  then have "bu_val (bu_sub a b) = (bu_val a - bu_val b) mod 2 ^ 256"
    by (simp only: bu_val_sub [OF assms(1,2)] mod_add_self2)
  also have "\<dots> = bu_val a - bu_val b"
    using bu_val_bound [OF assms(1)] by (simp add: less_imp_diff_less)
  finally show ?thesis .
qed

lemma compare_loop_take:
  assumes "n \<le> length a" "n \<le> length b"
  shows "compare_loop n a b =
    (if le_val (take n a) < le_val (take n b) then - 1
     else if le_val (take n b) < le_val (take n a) then 1 else 0)"
  using assms
proof (induction n)
  case (Suc n)
  let ?A = "le_val (take n a)" and ?B = "le_val (take n b)" and ?M = "2 ^ (32 * n) :: nat"
  have lt: "?A < ?M" "?B < ?M" using le_val_u32_bound [of "take n a"] le_val_u32_bound [of "take n b"] Suc.prems
    by simp_all
  have eqs: "le_val (take (Suc n) a) = ?A + ?M * unat (a ! n)" "le_val (take (Suc n) b) = ?B + ?M * unat (b ! n)"
    using Suc.prems by (simp_all add: le_val_take_Suc)
  have mono: "x + ?M * i < y + ?M * j" if "i < j" "x < ?M" for x y i j
  proof -
    from that(1) have "?M * (i + 1) \<le> ?M * j" by (intro mult_le_mono2) simp
    with that(2) show ?thesis by (simp add: distrib_left)
  qed
  consider "a ! n < b ! n" | "b ! n < a ! n" | "a ! n = b ! n" by fastforce
  then show ?case
  proof cases
    case 1
    with mono [of "unat (a ! n)" "unat (b ! n)" ?A ?B] lt show ?thesis
      by (simp add: eqs word_less_nat_alt)
  next
    case 2
    with mono [of "unat (b ! n)" "unat (a ! n)" ?B ?A] lt show ?thesis
      by (simp add: eqs word_less_nat_alt)
  next
    case 3
    with Suc show ?thesis by (simp add: eqs)
  qed
qed simp

lemma CompareTo_val:
  assumes "bu_wf a" "bu_wf b"
  shows "CompareTo a b = (if bu_val a < bu_val b then - 1 else if bu_val b < bu_val a then 1 else 0)"
  using compare_loop_take [of WIDTH "pn a" "pn b"] assms
  by (simp add: CompareTo_def bu_wf_def bu_val_def)


lemma bitlen_0_iff: "bitlen x n \<Longrightarrow> n = 0 \<longleftrightarrow> x = 0"
  by (auto simp: bitlen_def)

lemma limb_bits_bitlen:
  "n < 32 \<Longrightarrow> w \<noteq> 0 \<Longrightarrow> unat w < 2 ^ Suc n \<Longrightarrow> bitlen (unat w) (limb_bits n w)"
proof (induction n)
  case 0
  then show ?case by (simp add: bitlen_def unat_gt_0 Suc_leI)
next
  case (Suc n)
  have "w AND push_bit (Suc n) 1 \<noteq> 0 \<longleftrightarrow> bit w (Suc n)"
    by (simp add: push_bit_of_1 and_exp_eq_0_iff_not_bit del: power_Suc)
  also have "\<dots> \<longleftrightarrow> bit (unat w) (Suc n)" using Suc.prems(1) by (simp add: bit_unsigned_iff)
  also have "\<dots> \<longleftrightarrow> 2 ^ Suc n \<le> unat w" using Suc.prems(3) by (rule bit_top_iff)
  finally show ?case using Suc by (simp add: bitlen_def del: power_Suc)
qed

lemma bitlen_shift_add:
  assumes "bitlen x n" "n \<noteq> 0" "y < 2 ^ k"
  shows "bitlen (y + 2 ^ k * x) (k + n)"
proof -
  from assms(1) have "x + 1 \<le> 2 ^ n" by (simp add: bitlen_def)
  then have "2 ^ k * (x + 1) \<le> 2 ^ (k + n)" unfolding power_add by (rule mult_le_mono2)
  then have "y + 2 ^ k * x < 2 ^ (k + n)" using assms(3) by (simp add: distrib_left)
  moreover have "2 ^ (n - 1) \<le> x" using assms(1,2) by (simp add: bitlen_def)
  then have "2 ^ k * 2 ^ (n - 1) \<le> 2 ^ k * x" by (rule mult_le_mono2)
  then have "2 ^ (k + n - 1) \<le> y + 2 ^ k * x" using assms(2) by (simp flip: power_add)
  ultimately show ?thesis by (simp add: bitlen_def)
qed

lemma bits_loop_bitlen: "pos \<le> length p \<Longrightarrow> bitlen (le_val (take pos p)) (bits_loop pos p)"
proof (induction pos)
  case 0
  then show ?case by (simp add: bitlen_def)
next
  case (Suc pos)
  have eq: "le_val (take (Suc pos) p) = le_val (take pos p) + 2 ^ (32 * pos) * unat (p ! pos)"
    using Suc.prems by (simp add: le_val_take_Suc)
  show ?case
  proof (cases "p ! pos = 0")
    case True
    with Suc eq show ?thesis by simp
  next
    case False
    have "bitlen (unat (p ! pos)) (limb_bits 31 (p ! pos))"
      using False u32_less by (intro limb_bits_bitlen) simp_all
    moreover from this False have "limb_bits 31 (p ! pos) \<noteq> 0"
      by (simp add: bitlen_0_iff unat_eq_0)
    moreover have "le_val (take pos p) < 2 ^ (32 * pos)"
      using le_val_u32_bound [of "take pos p"] Suc.prems by simp
    ultimately show ?thesis using False unfolding eq bits_loop.simps
      by (simp only: if_P not_False_eq_True bitlen_shift_add)
  qed
qed

lemma bu_bits_bitlen: "bu_wf a \<Longrightarrow> bitlen (bu_val a) (bu_bits a)"
  using bits_loop_bitlen [of WIDTH "pn a"] by (simp add: bu_wf_def bu_val_def bu_bits_def)

lemma bitlen_le:
  assumes "bitlen x n" "x < 2 ^ k"
  shows "n \<le> k"
proof (rule ccontr)
  assume "\<not> n \<le> k"
  then have "(2::nat) ^ k \<le> 2 ^ (n - 1)" "n \<noteq> 0" by (auto intro: power_increasing)
  with assms show False unfolding bitlen_def by linarith
qed

lemma bu_bits_le: "bu_wf a \<Longrightarrow> bu_bits a \<le> 256"
  by (rule bitlen_le [OF bu_bits_bitlen bu_val_bound])

lemma set_quotient_bit:
  assumes wf: "bu_wf q" and s: "s < 256" and dvd: "2 ^ Suc s dvd bu_val q"
  defines "q' \<equiv> q\<lparr>pn := (pn q)[s div 32 := pn q ! (s div 32) OR push_bit (s mod 32) 1]\<rparr>"
  shows "bu_wf q'" and "bu_val q' = bu_val q + 2 ^ s"
proof -
  show wf': "bu_wf q'" using wf by (simp add: bu_wf_def q'_def)
  have idx: "m div 32 = s div 32 \<and> m mod 32 = s mod 32 \<longleftrightarrow> m = s" for m
    by (metis div_mod_decomp)
  have "bit (bu_val q') m \<longleftrightarrow> bit (bu_val q) m \<or> m = s" if "m < 256" for m
  proof -
    have "m div 32 < length (pn q)" "s div 32 < length (pn q)"
      using that s wf by (simp_all add: bu_wf_def WIDTH_def)
    then have "bit (pn q' ! (m div 32)) (m mod 32) \<longleftrightarrow>
        bit (pn q ! (m div 32)) (m mod 32) \<or> (m div 32 = s div 32 \<and> m mod 32 = s mod 32)"
      by (auto simp: q'_def nth_list_update bit_or_iff bit_exp_iff)
    then show ?thesis unfolding idx using that wf wf' by (simp add: bit_bu_val)
  qed
  then have "bu_val q' = bu_val q OR 2 ^ s"
    using s by (intro bit_eqI) (auto simp: bit_or_iff bit_exp_iff bit_bu_val wf wf')
  moreover have "\<not> bit (bu_val q) s"
  proof -
    from dvd obtain c where "bu_val q = 2 ^ s * (2 * c)" by (auto elim: dvdE simp: ac_simps)
    then show ?thesis by (simp add: bit_iff_odd)
  qed
  then have "bu_val q + 2 ^ s = bu_val q OR 2 ^ s"
    by (intro disjunctive_add_eq_or) (auto intro!: bit_eqI simp: bit_and_iff bit_exp_iff)
  ultimately show "bu_val q' = bu_val q + 2 ^ s" by simp
qed

lemma div_loop_val:
  assumes "bu_wf num" "bu_wf d" "bu_wf q" "n \<le> 256" "0 < d0"
    and "bu_val num < d0 * 2 ^ n" and "n \<noteq> 0 \<longrightarrow> bu_val d = d0 * 2 ^ (n - 1)" and "2 ^ n dvd bu_val q"
  shows "bu_wf (div_loop n num d q) \<and> bu_val (div_loop n num d q) = bu_val q + bu_val num div d0"
  using assms
proof (induction n arbitrary: num d q)
  case 0
  then show ?case by simp
next
  case (Suc s)
  have d: "bu_val d = d0 * 2 ^ s" using Suc.prems(7) by simp
  have shr: "s \<noteq> 0 \<longrightarrow> bu_val (bu_shr d 1) = d0 * 2 ^ (s - 1)"
    using d Suc.prems(2) by (cases s) (simp_all add: bu_val_shr)
  have ge: "CompareTo num d \<ge> 0 \<longleftrightarrow> bu_val d \<le> bu_val num"
    using CompareTo_val [OF Suc.prems(1,2)] by auto
  have dvd: "2 ^ s dvd bu_val q"
    using Suc.prems(8) by (rule power_le_dvd) simp
  show ?case
  proof (cases "bu_val d \<le> bu_val num")
    case False
    then have "bu_val num < d0 * 2 ^ s" using d by simp
    with Suc.IH [OF Suc.prems(1) bu_wf_shr Suc.prems(3) _ Suc.prems(5) _ shr dvd] Suc.prems(4) ge False
    show ?thesis by simp
  next
    case True
    let ?q = "q\<lparr>pn := (pn q)[s div 32 := pn q ! (s div 32) OR push_bit (s mod 32) 1]\<rparr>"
    have s: "s < 256" using Suc.prems(4) by simp
    note q' = set_quotient_bit [OF Suc.prems(3) s Suc.prems(8)]
    have num: "bu_val (bu_sub num d) = bu_val num - d0 * 2 ^ s"
      using True Suc.prems(1,2) d by (simp add: bu_val_sub_le)
    moreover have "bu_val num - d0 * 2 ^ s < d0 * 2 ^ s" using Suc.prems(6) True d by simp
    moreover have "2 ^ s dvd bu_val ?q" unfolding q'(2) using dvd by simp
    ultimately have "bu_wf (div_loop s (bu_sub num d) (bu_shr d 1) ?q) \<and>
        bu_val (div_loop s (bu_sub num d) (bu_shr d 1) ?q) = bu_val ?q + bu_val (bu_sub num d) div d0"
      using Suc.IH [OF _ bu_wf_shr q'(1) _ Suc.prems(5) _ shr] Suc.prems(1,2) s by simp
    moreover have "bu_val num div d0 = 2 ^ s + (bu_val num - d0 * 2 ^ s) div d0"
    proof -
      have "bu_val num = (bu_val num - d0 * 2 ^ s) + d0 * 2 ^ s" using True d by simp
      then have "bu_val num div d0 = ((bu_val num - d0 * 2 ^ s) + d0 * 2 ^ s) div d0" by simp
      then show ?thesis using Suc.prems(5) by simp
    qed
    ultimately show ?thesis using ge True num q'(2) by simp
  qed
qed

lemma bu_div_val:
  assumes "bu_wf a" "bu_wf b"
  shows "bu_val b = 0 \<Longrightarrow> bu_div a b = Inl DivisionByZero"
    and "bu_val b \<noteq> 0 \<Longrightarrow> \<exists>q. bu_div a b = Inr q \<and> bu_wf q \<and> bu_val q = bu_val a div bu_val b"
proof -
  let ?n = "bu_bits a" and ?d = "bu_bits b"
  have la: "bitlen (bu_val a) ?n" and lb: "bitlen (bu_val b) ?d"
    using assms by (simp_all add: bu_bits_bitlen)
  show "bu_div a b = Inl DivisionByZero" if "bu_val b = 0"
    using bitlen_0_iff [OF lb] that by (simp add: bu_div_def)
  assume b: "bu_val b \<noteq> 0"
  then have d: "?d \<noteq> 0" using bitlen_0_iff [OF lb] by simp
  show "\<exists>q. bu_div a b = Inr q \<and> bu_wf q \<and> bu_val q = bu_val a div bu_val b"
  proof (cases "?d > ?n")
    case True
    then have "(2::nat) ^ ?n \<le> 2 ^ (?d - 1)" by (intro power_increasing) auto
    then have "bu_val a < bu_val b" using la lb d unfolding bitlen_def by linarith
    then show ?thesis using True d by (simp add: bu_div_def)
  next
    case False
    let ?s = "?n - ?d"
    have ns: "?d + ?s = ?n" using False by simp
    have "bu_val b * 2 ^ ?s < 2 ^ ?d * 2 ^ ?s" using lb by (simp add: bitlen_def)
    also have "\<dots> = 2 ^ ?n" unfolding power_add [symmetric] ns ..
    also have "\<dots> \<le> 2 ^ 256" using bu_bits_le [OF assms(1)] by (intro power_increasing) auto
    finally have shl: "bu_val (bu_shl b ?s) = bu_val b * 2 ^ ?s" by (simp add: bu_val_shl assms(2))
    have "bu_val a < 2 ^ ?n" using la by (simp add: bitlen_def)
    also have "?n = ?d - 1 + Suc ?s" using d False by simp
    also have "(2::nat) ^ (?d - 1 + Suc ?s) = 2 ^ (?d - 1) * 2 ^ Suc ?s" by (rule power_add)
    also have "\<dots> \<le> bu_val b * 2 ^ Suc ?s" using lb d by (intro mult_le_mono1) (simp add: bitlen_def)
    finally have lt: "bu_val a < bu_val b * 2 ^ Suc ?s" .
    have "Suc ?s \<le> 256" using bu_bits_le [OF assms(1)] d by simp
    from div_loop_val [OF assms(1) bu_wf_shl bu_wf_simps(1) this _ lt, of b ?s] shl b
    show ?thesis using d False by (simp add: bu_div_def Let_def del: div_loop.simps)
  qed
qed

lemma int_bu_val_sub:
  assumes "bu_wf a" "bu_wf b"
  shows "int (bu_val (bu_sub a b)) = (int (bu_val a) - int (bu_val b)) mod 2 ^ 256"
proof -
  have le: "bu_val b \<le> 2 ^ 256" using bu_val_bound [OF assms(2)] by simp
  have "int (bu_val (bu_sub a b)) = (int (bu_val a) + (2 ^ 256 - int (bu_val b))) mod 2 ^ 256"
    unfolding bu_val_sub [OF assms] zmod_int using le by (simp add: of_nat_diff add_diff_eq)
  also have "int (bu_val a) + (2 ^ 256 - int (bu_val b)) = int (bu_val a) - int (bu_val b) + 2 ^ 256"
    by simp
  finally show ?thesis by (simp only: mod_add_self2)
qed

lemma CompareTo_eq_0_iff:
  assumes "bu_wf a" "bu_wf b"
  shows "CompareTo a b = 0 \<longleftrightarrow> a = b"
proof
  assume "CompareTo a b = 0"
  then have "bu_val a = bu_val b"
    by (auto simp: CompareTo_val [OF assms] split: if_splits)
  then have "pn a = pn b"
    using assms by (intro le_val_inject) (simp_all add: bu_wf_def bu_val_def)
  then show "a = b" by (intro base_uint.equality) simp_all
qed (simp add: CompareTo_val assms)

lemma concat_ReadLE32:
  "i < length ws \<Longrightarrow> ReadLE32 (drop (4 * i) (concat (map WriteLE32 ws))) = ws ! i"
proof (induction ws arbitrary: i)
  case (Cons w ws)
  then show ?case by (cases i) (simp_all add: drop_append)
qed simp

section \<open>Properties\<close>

text \<open>
  C29. The 256-bit integer type is arithmetic modulo \<open>2 ^ 256\<close>: on well-formed operands
  addition, subtraction, multiplication (by a 256-bit and by a 32-bit number) and left shift
  give the exact result reduced modulo \<open>2 ^ 256\<close>, right shift is division by a power of
  two, and \<open>CompareTo\<close> has the sign of the comparison of the two numbers and is 0 only
  for equal arrays.
\<close>

theorem arith_modulo_2_256:
  assumes "bu_wf a" "bu_wf b"
  shows "bu_val (bu_add a b) = (bu_val a + bu_val b) mod 2 ^ 256 \<and>
    int (bu_val (bu_sub a b)) = (int (bu_val a) - int (bu_val b)) mod 2 ^ 256 \<and>
    bu_val (bu_mul a b) = (bu_val a * bu_val b) mod 2 ^ 256 \<and>
    bu_val (bu_mul32 a w) = (bu_val a * unat w) mod 2 ^ 256 \<and>
    bu_val (bu_shl a n) = (bu_val a * 2 ^ n) mod 2 ^ 256 \<and>
    bu_val (bu_shr a n) = bu_val a div 2 ^ n \<and>
    (CompareTo a b < 0 \<longleftrightarrow> bu_val a < bu_val b) \<and>
    (CompareTo a b > 0 \<longleftrightarrow> bu_val a > bu_val b) \<and>
    (CompareTo a b = 0 \<longleftrightarrow> a = b)"
proof (intro conjI)
  show "CompareTo a b < 0 \<longleftrightarrow> bu_val a < bu_val b" "CompareTo a b > 0 \<longleftrightarrow> bu_val a > bu_val b"
    using CompareTo_val [OF assms] by auto
qed (use assms in \<open>simp_all only: bu_val_add int_bu_val_sub bu_val_mul bu_val_mul32 bu_val_shl
      bu_val_shr CompareTo_eq_0_iff\<close>)

theorem arith_modulo_2_256_witness:
  "bu_val (bu_mul (bu_of_u64 0xffffffffffffffff) (bu_of_u64 2)) = 0x1fffffffffffffffe \<and>
   bu_val (bu_shl (bu_of_u64 5) 70) = 5 * 2 ^ 70 \<and>
   CompareTo (bu_of_u64 4) (bu_of_u64 7) < 0"
  using arith_modulo_2_256 [of "bu_of_u64 0xffffffffffffffff" "bu_of_u64 2" 0 0]
    arith_modulo_2_256 [of "bu_of_u64 5" "bu_of_u64 5" 0 70]
    arith_modulo_2_256 [of "bu_of_u64 4" "bu_of_u64 7" 0 0]
  by simp

text \<open>
  Division is total on well-formed operands: it throws exactly when the divisor is 0, and
  otherwise the shift-and-subtract loop ends with the exact integer quotient.
\<close>

theorem arith_division:
  assumes "bu_wf a" "bu_wf b"
  shows "if bu_val b = 0 then bu_div a b = Inl DivisionByZero
         else \<exists>q. bu_div a b = Inr q \<and> bu_wf q \<and> bu_val q = bu_val a div bu_val b"
  using bu_div_val [OF assms] by simp

theorem arith_division_witness:
  "(\<exists>q. bu_div (bu_of_u64 1000) (bu_of_u64 7) = Inr q \<and> bu_val q = 142) \<and>
   bu_div (bu_of_u64 1000) bu_zero = Inl DivisionByZero"
  using arith_division [of "bu_of_u64 1000" "bu_of_u64 7"] arith_division [of "bu_of_u64 1000" bu_zero]
  by auto

text \<open>
  Converting a number to a \<open>uint256\<close> blob and back gives the same limbs, and the blob has
  32 bytes.
\<close>

theorem arith_uint256_roundtrip:
  assumes "bu_wf a"
  shows "UintToArith256 (ArithToUint256 a) = a \<and> length (ArithToUint256 a) = 32"
proof -
  have "length (concat (map WriteLE32 ws)) = 4 * length ws" for ws by (induction ws) simp_all
  moreover have "map (\<lambda>x. ReadLE32 (drop (4 * x) (ArithToUint256 a))) [0..<WIDTH] = pn a"
    using assms by (intro nth_equalityI) (simp_all add: bu_wf_def ArithToUint256_def concat_ReadLE32)
  ultimately show ?thesis
    using assms by (simp add: UintToArith256_def ArithToUint256_def bu_wf_def WIDTH_def)
qed

theorem arith_uint256_roundtrip_witness:
  "UintToArith256 (ArithToUint256 (bu_of_u64 0x1234567890)) = bu_of_u64 0x1234567890"
  using arith_uint256_roundtrip [of "bu_of_u64 0x1234567890"] by simp

end
