(* ===== verification/ArithCompact.thy ===== *)
theory ArithCompact
  imports ArithUint256
begin

text \<open>
  \<^verbatim>\<open>arith_uint256::SetCompact\<close> and \<^verbatim>\<open>arith_uint256::GetCompact\<close>
  (\<^verbatim>\<open>src/arith_uint256.cpp\<close>): the 32-bit floating-point form in which blocks
  carry their difficulty target. \<open>compact_denotes\<close> is the number the format's
  documentation assigns to a word; the lemmas show that decoding yields it, that the overflow
  flag is exact, and that encoding never fails an assertion and loses less than one part in
  \<open>2 ^ 15\<close>.
\<close>

section \<open>The compact representation of targets\<close>

text \<open>The number together with the two flags the source returns through pointers.\<close>

record compact_result =
  cr_value :: base_uint
  cr_negative :: bool
  cr_overflow :: bool

definition SetCompact :: "u32 \<Rightarrow> compact_result" where
  "SetCompact nCompact =
     (let nSize = unat (drop_bit 24 nCompact);
          nWord0 = nCompact AND 0x007fffff;
          nWord = (if nSize \<le> 3 then drop_bit (8 * (3 - nSize)) nWord0 else nWord0);
          v = (if nSize \<le> 3 then bu_of_u64 (ucast nWord)
               else bu_shl (bu_of_u64 (ucast nWord)) (8 * (nSize - 3)))
      in \<lparr>cr_value = v,
          cr_negative = (nWord \<noteq> 0 \<and> nCompact AND 0x00800000 \<noteq> 0),
          cr_overflow = (nWord \<noteq> 0 \<and> (nSize > 34 \<or> (nWord > 0xff \<and> nSize > 33) \<or>
                                      (nWord > 0xffff \<and> nSize > 32)))\<rparr>)"

definition GetCompact :: "base_uint \<Rightarrow> bool \<Rightarrow> uint_error + u32" where
  "GetCompact a fNegative =
     (let nSize0 = (bu_bits a + 7) div 8;
          c0 = (if nSize0 \<le> 3 then ucast (push_bit (8 * (3 - nSize0)) (bu_low64 a))
                else ucast (bu_low64 (bu_shr a (8 * (nSize0 - 3))))) :: u32;
          c1 = (if c0 AND 0x00800000 \<noteq> 0 then drop_bit 8 c0 else c0);
          nSize = (if c0 AND 0x00800000 \<noteq> 0 then nSize0 + 1 else nSize0)
      in if c1 AND NOT 0x007fffff \<noteq> 0 then Inl AssertionFailed
         else if \<not> nSize < 256 then Inl AssertionFailed
         else let c2 = c1 OR push_bit 24 (of_nat nSize)
              in Inr (c2 OR (if fNegative \<and> c2 AND 0x007fffff \<noteq> 0 then 0x00800000 else 0)))"

section \<open>What a compact word denotes\<close>

definition compact_mantissa :: "u32 \<Rightarrow> nat" where
  "compact_mantissa c = unat c mod 2 ^ 23"

definition compact_exponent :: "u32 \<Rightarrow> nat" where
  "compact_exponent c = unat c div 2 ^ 24"

text \<open>The number a compact word stands for, before reduction to 256 bits.\<close>

definition compact_denotes :: "u32 \<Rightarrow> nat" where
  "compact_denotes c =
     (if compact_exponent c \<le> 3 then compact_mantissa c div 256 ^ (3 - compact_exponent c)
      else compact_mantissa c * 256 ^ (compact_exponent c - 3))"

text \<open>What \<open>GetCompact\<close> works with before the sign bit is considered.\<close>

definition compact_prefix :: "base_uint \<Rightarrow> nat" where
  "compact_prefix a = (let n = (bu_bits a + 7) div 8
     in if n \<le> 3 then bu_val a * 256 ^ (3 - n) else bu_val a div 256 ^ (n - 3))"

section \<open>Decoding and encoding\<close>

lemma unat_and_7fffff: "unat (c AND 0x007fffff :: u32) = unat c mod 2 ^ 23"
  using unat_and_mask [of c 23] by (simp add: mask_eq_exp_minus_1)

lemma and_800000_iff: "(c :: u32) AND 0x00800000 \<noteq> 0 \<longleftrightarrow> bit c 23"
  using and_exp_eq_0_iff_not_bit [of c 23] by simp

lemma unat_low_or_high:
  "unat (ucast (x :: u32) OR push_bit 32 (ucast (y :: u32)) :: u64) = unat x + 2 ^ 32 * unat y"
proof -
  have "(ucast x :: u64) AND push_bit 32 (ucast y) = 0"
    by (intro bit_eqI) (auto simp: bit_and_iff bit_push_bit_iff bit_ucast_iff dest: bit_u32_less)
  then have "(ucast x OR push_bit 32 (ucast y) :: u64) = ucast x + push_bit 32 (ucast y)"
    by (rule disjunctive_add_eq_or [symmetric])
  moreover have "unat (push_bit 32 (ucast y) :: u64) = 2 ^ 32 * unat y"
    using u32_less [of y] by (simp add: push_bit_eq_mult unat_mult_nowrap unat_ucast_up mult.commute)
  ultimately show ?thesis
    using u32_less [of x] u32_less [of y] by (simp add: unat_add_nowrap unat_ucast_up)
qed

lemma bu_low64_val: "bu_wf a \<Longrightarrow> unat (bu_low64 a) = bu_val a mod 2 ^ 64"
proof -
  assume "bu_wf a"
  then obtain x y ws where p: "pn a = x # y # ws"
    by (cases "pn a"; cases "tl (pn a)") (auto simp: bu_wf_def WIDTH_def)
  have "bu_val a = (unat x + 2 ^ 32 * unat y) + 2 ^ 64 * le_val ws"
    by (simp add: bu_val_def p)
  moreover have "unat x + 2 ^ 32 * unat y < 2 ^ 64"
    using u32_less [of x] u32_less [of y] by simp
  moreover have "unat (bu_low64 a) = unat x + 2 ^ 32 * unat y"
    unfolding bu_low64_def p by (simp only: nth_Cons_0 nth_Cons_Suc One_nat_def unat_low_or_high)
  ultimately show ?thesis by (simp only: mod_mult_self2 mod_less)
qed

lemma compact_exponent_eq: "unat (drop_bit 24 c) = compact_exponent c"
  by (simp only: compact_exponent_def unat_drop_bit)

lemma SetCompact_value:
  "bu_wf (cr_value (SetCompact c)) \<and> bu_val (cr_value (SetCompact c)) = compact_denotes c mod 2 ^ 256"
proof (cases "compact_exponent c \<le> 3")
  case True
  let ?w = "drop_bit (8 * (3 - compact_exponent c)) (c AND 0x007fffff)"
  have "unat ?w = compact_denotes c"
    using True by (simp only: unat_drop_bit unat_and_7fffff compact_denotes_def compact_mantissa_def pow256 if_True)
  moreover have "unat ?w < 2 ^ 256" using u32_less [of ?w] by (rule order_less_trans) simp
  ultimately show ?thesis using True
    by (simp add: SetCompact_def compact_exponent_eq Let_def unat_ucast_up)
next
  case False
  then show ?thesis
    by (simp add: SetCompact_def compact_exponent_eq Let_def unat_ucast_up bu_val_shl unat_and_7fffff
        compact_denotes_def compact_mantissa_def pow256)
qed

lemma compact_overflow_iff: "cr_overflow (SetCompact c) \<longleftrightarrow> 2 ^ 256 \<le> compact_denotes c"
proof -
  let ?e = "compact_exponent c" and ?m = "compact_mantissa c"
  have m: "?m < 2 ^ 23" by (simp add: compact_mantissa_def)
  show ?thesis
  proof (cases "?e \<le> 32")
    case True
    have "compact_denotes c < 2 ^ 256"
    proof (cases "?e \<le> 3")
      case True
      have "compact_denotes c \<le> ?m" using True by (simp add: compact_denotes_def)
      also have "\<dots> < 2 ^ 23" by (rule m)
      also have "\<dots> \<le> 2 ^ 256" by (rule power_increasing) simp_all
      finally show ?thesis .
    next
      case False
      have "?m * 256 ^ (?e - 3) < 2 ^ 23 * 2 ^ (8 * (?e - 3))" using m by (simp add: pow256)
      also have "\<dots> \<le> 2 ^ 256" unfolding power_add [symmetric]
        using True by (intro power_increasing) auto
      finally show ?thesis using False by (simp add: compact_denotes_def)
    qed
    then show ?thesis using True
      by (auto simp: SetCompact_def compact_exponent_eq Let_def)
  next
    case False
    then have n: "\<not> ?e \<le> 3" by simp
    have w: "unat (c AND 0x007fffff) = ?m" by (simp only: unat_and_7fffff compact_mantissa_def)
    have flag: "cr_overflow (SetCompact c) \<longleftrightarrow>
        ?m \<noteq> 0 \<and> (?e > 34 \<or> (?m > 0xff \<and> ?e > 33) \<or> ?m > 0xffff)"
      using False n by (auto simp: SetCompact_def compact_exponent_eq Let_def word_less_nat_alt w
          simp flip: unat_eq_0)
    have den: "compact_denotes c = ?m * 2 ^ (8 * (?e - 3))" using n by (simp add: compact_denotes_def pow256)
    consider "?e = 33" | "?e = 34" | "35 \<le> ?e" using False by linarith
    then show ?thesis
    proof cases
      case 1
      then show ?thesis unfolding flag den by auto
    next
      case 2
      then show ?thesis unfolding flag den by auto
    next
      case 3
      have "2 ^ 256 \<le> ?m * 2 ^ (8 * (?e - 3))" if "?m \<noteq> 0"
      proof -
        have "(2::nat) ^ 256 \<le> 2 ^ (8 * (?e - 3))" using 3 by (intro power_increasing) auto
        also have "\<dots> \<le> ?m * 2 ^ (8 * (?e - 3))" using that by simp
        finally show ?thesis .
      qed
      then show ?thesis unfolding flag den using 3 by (cases "?m = 0") auto
    qed
  qed
qed

lemma byte_length:
  assumes "bitlen x b"
  defines "n \<equiv> (b + 7) div 8"
  shows "x < 256 ^ n" and "x \<noteq> 0 \<Longrightarrow> n \<noteq> 0 \<and> 256 ^ (n - 1) \<le> x"
proof -
  have "b \<le> 8 * n" by (simp add: n_def)
  then have "(2::nat) ^ b \<le> 2 ^ (8 * n)" by (rule power_increasing) simp
  then show "x < 256 ^ n" using assms(1) unfolding bitlen_def pow256 by linarith
  assume "x \<noteq> 0"
  then have b: "b \<noteq> 0" using bitlen_0_iff [OF assms(1)] by simp
  then have "8 * (n - 1) \<le> b - 1" by (simp add: n_def)
  then have "(2::nat) ^ (8 * (n - 1)) \<le> 2 ^ (b - 1)" by (rule power_increasing) simp
  moreover have "n \<noteq> 0" using b by (simp add: n_def)
  ultimately show "n \<noteq> 0 \<and> 256 ^ (n - 1) \<le> x"
    using assms(1) b unfolding bitlen_def pow256 by linarith
qed

lemma compact_prefix_bounds:
  assumes "bu_wf a"
  shows "compact_prefix a < 2 ^ 24" and "bu_val a \<noteq> 0 \<Longrightarrow> 2 ^ 16 \<le> compact_prefix a"
proof -
  let ?x = "bu_val a" and ?n = "(bu_bits a + 7) div 8"
  note len = byte_length [OF bu_bits_bitlen [OF assms]]
  have "compact_prefix a < 2 ^ 24 \<and> (?x \<noteq> 0 \<longrightarrow> 2 ^ 16 \<le> compact_prefix a)"
  proof (cases "?n \<le> 3")
    case True
    have "?x * 256 ^ (3 - ?n) < 256 ^ ?n * 256 ^ (3 - ?n)" using len(1) by simp
    also have "\<dots> = 2 ^ 24" unfolding power_add [symmetric] using True by simp
    finally have "?x * 256 ^ (3 - ?n) < 2 ^ 24" .
    moreover have "2 ^ 16 \<le> ?x * 256 ^ (3 - ?n)" if "?x \<noteq> 0"
    proof -
      from len(2) [OF that] have "256 ^ (?n - 1) * 256 ^ (3 - ?n) \<le> ?x * 256 ^ (3 - ?n)" and n: "?n \<noteq> 0"
        by (auto intro: mult_le_mono1)
      moreover have "?n - 1 + (3 - ?n) = 2" using n True by linarith
      ultimately show ?thesis by (simp flip: power_add)
    qed
    ultimately show ?thesis using True by (simp add: compact_prefix_def Let_def)
  next
    case False
    have split: "256 ^ ?n = 256 ^ (?n - 3) * (2::nat) ^ 24" "256 ^ (?n - 1) = 256 ^ (?n - 3) * (2::nat) ^ 16"
    proof -
      have "?n = ?n - 3 + 3" "?n - 1 = ?n - 3 + 2" using False by linarith+
      then show "256 ^ ?n = 256 ^ (?n - 3) * (2::nat) ^ 24" "256 ^ (?n - 1) = 256 ^ (?n - 3) * (2::nat) ^ 16"
        using power_add [of "256::nat" "?n - 3" 3] power_add [of "256::nat" "?n - 3" 2] by simp_all
    qed
    have "?x div 256 ^ (?n - 3) < 2 ^ 24"
      using len(1) unfolding split by (intro less_mult_imp_div_less) (simp add: mult.commute)
    moreover have "2 ^ 16 \<le> ?x div 256 ^ (?n - 3)" if "?x \<noteq> 0"
      using len(2) [OF that] unfolding split by (simp add: less_eq_div_iff_mult_less_eq mult.commute)
    ultimately show ?thesis using False by (simp add: compact_prefix_def Let_def)
  qed
  then show "compact_prefix a < 2 ^ 24" and "?x \<noteq> 0 \<Longrightarrow> 2 ^ 16 \<le> compact_prefix a" by simp_all
qed

lemma GetCompact_prefix:
  assumes "bu_wf a"
  defines "n \<equiv> (bu_bits a + 7) div 8"
  shows "unat (if n \<le> 3 then ucast (push_bit (8 * (3 - n)) (bu_low64 a))
               else ucast (bu_low64 (bu_shr a (8 * (n - 3)))) :: u32) = compact_prefix a"
proof -
  have lt: "compact_prefix a < 2 ^ 24" by (rule compact_prefix_bounds [OF assms(1)])
  show ?thesis
  proof (cases "n \<le> 3")
    case True
    then have p: "compact_prefix a = bu_val a * 2 ^ (8 * (3 - n))"
      by (simp add: compact_prefix_def n_def Let_def pow256)
    then have "bu_val a \<le> compact_prefix a" by simp
    then have low: "unat (bu_low64 a) = bu_val a"
      using lt assms(1) by (simp add: bu_low64_val)
    have "unat (push_bit (8 * (3 - n)) (bu_low64 a)) = compact_prefix a"
      using lt unfolding unsigned_push_bit_eq low unfolding take_bit_eq_mod push_bit_eq_mult p by simp
    then show ?thesis using True lt by (simp add: unat_ucast_mod)
  next
    case False
    then have p: "compact_prefix a = bu_val a div 2 ^ (8 * (n - 3))"
      by (simp add: compact_prefix_def n_def Let_def pow256)
    then have "unat (bu_low64 (bu_shr a (8 * (n - 3)))) = compact_prefix a"
      using lt assms(1) by (simp add: bu_low64_val bu_val_shr)
    then show ?thesis using False lt by (simp add: unat_ucast_mod)
  qed
qed

lemma and_not_7fffff: "unat c < 2 ^ 23 \<Longrightarrow> (c :: u32) AND NOT 0x007fffff = 0"
proof -
  assume lt: "unat c < 2 ^ 23"
  have "c AND NOT (mask 23) = 0"
    by (intro bit_eqI)
       (auto simp: bit_and_iff bit_not_iff bit_mask_iff dest: bit_less_of_unat_less [OF lt])
  then show ?thesis by (simp add: mask_eq_exp_minus_1)
qed

lemma unat_join_compact:
  assumes "unat c < 2 ^ 23" "n < 256"
  shows "unat (c OR push_bit 24 (of_nat n) :: u32) = unat c + n * 2 ^ 24"
proof -
  have n: "unat (of_nat n :: u32) = n" using assms(2) by (simp add: unsigned_of_nat take_bit_eq_mod)
  have "c AND push_bit 24 (of_nat n) = 0"
    by (intro bit_eqI)
       (auto simp: bit_and_iff bit_push_bit_iff dest: bit_less_of_unat_less [OF assms(1)])
  then have "c OR push_bit 24 (of_nat n) = c + push_bit 24 (of_nat n)"
    by (rule disjunctive_add_eq_or [symmetric])
  moreover have p: "unat (push_bit 24 (of_nat n) :: u32) = n * 2 ^ 24"
    using assms(2) unfolding unsigned_push_bit_eq n
    unfolding take_bit_eq_mod push_bit_eq_mult by simp
  ultimately show ?thesis using assms by (simp add: unat_add_nowrap)
qed

text \<open>
  The result of \<open>GetCompact\<close> on a non-negative number: a mantissa below \<open>2 ^ 23\<close> with
  at least 16 significant bits, and the matching exponent. No assertion fails.
\<close>

lemma GetCompact_result:
  assumes "bu_wf a"
  obtains c where "GetCompact a False = Inr c"
    and "compact_exponent c < 256"
    and "compact_exponent c \<le> 3 \<Longrightarrow> compact_mantissa c = bu_val a * 256 ^ (3 - compact_exponent c)"
    and "\<not> compact_exponent c \<le> 3 \<Longrightarrow> compact_mantissa c = bu_val a div 256 ^ (compact_exponent c - 3)"
    and "bu_val a \<noteq> 0 \<Longrightarrow> 2 ^ 15 \<le> compact_mantissa c"
    and "\<not> bit c 23"
proof -
  let ?n = "(bu_bits a + 7) div 8" and ?p = "compact_prefix a"
  let ?c0 = "(if ?n \<le> 3 then ucast (push_bit (8 * (3 - ?n)) (bu_low64 a))
              else ucast (bu_low64 (bu_shr a (8 * (?n - 3))))) :: u32"
  have c0: "unat ?c0 = ?p" by (rule GetCompact_prefix [OF assms])
  have p24: "?p < 2 ^ 24" and p16: "bu_val a \<noteq> 0 \<Longrightarrow> 2 ^ 16 \<le> ?p"
    using compact_prefix_bounds [OF assms] by simp_all
  have n33: "?n \<le> 32" using bu_bits_le [OF assms] by simp
  have big: "?c0 AND 0x00800000 \<noteq> 0 \<longleftrightarrow> 2 ^ 23 \<le> ?p"
    using bit_top_iff [of ?p 23] p24 bit_unat_iff [of ?c0 23, unfolded c0]
    unfolding and_800000_iff by simp
  define c1 where "c1 = (if 2 ^ 23 \<le> ?p then drop_bit 8 ?c0 else ?c0)"
  define n where "n = (if 2 ^ 23 \<le> ?p then ?n + 1 else ?n)"
  have uc1: "unat c1 = (if 2 ^ 23 \<le> ?p then ?p div 256 else ?p)"
    unfolding c1_def using c0 unat_drop_bit [of 8 ?c0] by simp
  then have c1: "unat c1 < 2 ^ 23" using p24 by auto
  have n: "n < 256" using n33 by (simp add: n_def)
  let ?c = "c1 OR push_bit 24 (of_nat n)"
  have uc: "unat ?c = unat c1 + n * 2 ^ 24" by (rule unat_join_compact [OF c1 n])
  have e: "compact_exponent ?c = n"
    unfolding compact_exponent_def uc using c1 by simp
  have "unat c1 + n * 2 ^ 24 = unat c1 + 2 ^ 23 * (2 * n)" by simp
  then have m: "compact_mantissa ?c = unat c1"
    unfolding compact_mantissa_def uc using c1 by (simp only: mod_mult_self2 mod_less)
  have small: "unat c1 = bu_val a * 256 ^ (3 - n)" if "n \<le> 3"
  proof (cases "2 ^ 23 \<le> ?p")
    case True
    then have "3 - ?n = Suc (3 - n)" using that by (simp add: n_def)
    then have "?p = bu_val a * 256 ^ (3 - n) * 256"
      using that True by (simp add: compact_prefix_def n_def)
    with True uc1 show ?thesis by simp
  next
    case False
    with that uc1 show ?thesis by (simp add: compact_prefix_def n_def)
  qed
  have large: "unat c1 = bu_val a div 256 ^ (n - 3)" if "\<not> n \<le> 3"
  proof (cases "2 ^ 23 \<le> ?p")
    case True
    then have "?n = 3 \<or> \<not> ?n \<le> 3" and n3: "n - 3 = Suc ?n - 3"
      using that by (auto simp: n_def)
    then have "?p div 256 = bu_val a div 256 ^ (n - 3)"
    proof (elim disjE)
      assume "?n = 3"
      then show ?thesis by (simp add: compact_prefix_def n3)
    next
      assume "\<not> ?n \<le> 3"
      moreover from this have "n - 3 = Suc (?n - 3)" unfolding n3 by linarith
      then have "256 ^ (n - 3) = 256 ^ (?n - 3) * (256::nat)" by (simp only: power_Suc2)
      ultimately show ?thesis by (simp add: compact_prefix_def Let_def div_mult2_eq)
    qed
    with True uc1 show ?thesis by simp
  next
    case False
    with that uc1 show ?thesis by (simp add: compact_prefix_def n_def)
  qed
  have "\<not> bit c1 23" using bit_less_of_unat_less [OF c1, of 23] by blast
  then have sign: "\<not> bit ?c 23" by (simp add: bit_or_iff bit_push_bit_iff)
  have "2 ^ 15 \<le> unat c1" if "bu_val a \<noteq> 0" using p16 [OF that] uc1 by auto
  moreover have "GetCompact a False = Inr ?c"
    unfolding GetCompact_def Let_def big c1_def [symmetric] n_def [symmetric]
    using and_not_7fffff [OF c1] n by simp
  ultimately show thesis using that [of ?c] n sign small large unfolding e m by blast
qed

lemma SetCompact_negative_iff:
  "cr_negative (SetCompact c) \<longleftrightarrow> bit c 23 \<and>
     (if compact_exponent c \<le> 3 then compact_mantissa c div 256 ^ (3 - compact_exponent c)
      else compact_mantissa c) \<noteq> 0"
proof -
  let ?w = "c AND 0x007fffff" and ?e = "compact_exponent c"
  have "cr_negative (SetCompact c) \<longleftrightarrow>
      bit c 23 \<and> (if ?e \<le> 3 then drop_bit (8 * (3 - ?e)) ?w else ?w) \<noteq> 0"
    by (auto simp: SetCompact_def Let_def compact_exponent_eq and_800000_iff)
  moreover have "unat (if ?e \<le> 3 then drop_bit (8 * (3 - ?e)) ?w else ?w) =
      (if ?e \<le> 3 then compact_mantissa c div 256 ^ (3 - ?e) else compact_mantissa c)"
    by (simp only: if_distrib [of unat] unat_drop_bit unat_and_7fffff compact_mantissa_def pow256)
  ultimately show ?thesis by (simp only: unat_eq_0 [symmetric])
qed

lemma compact_eqI:
  assumes "\<not> bit c 23" "\<not> bit d 23" "compact_exponent c = compact_exponent d"
    "compact_mantissa c = compact_mantissa d"
  shows "c = d"
proof -
  have split: "unat x = compact_mantissa x + compact_exponent x * 2 ^ 24" if "\<not> bit x 23" for x
  proof -
    from that have "\<not> bit (unat x) 23" by (simp add: bit_unat_iff)
    then have "even (unat x div 2 ^ 23)" by (simp add: bit_iff_odd)
    then have "unat x div 2 ^ 23 = 2 * (unat x div 2 ^ 23 div 2)" by simp
    also have "unat x div 2 ^ 23 div 2 = unat x div 2 ^ 24" by (simp add: div_mult2_eq [symmetric])
    finally have "unat x = unat x mod 2 ^ 23 + 2 ^ 23 * (2 * (unat x div 2 ^ 24))"
      by (metis mod_mult_div_eq)
    then show ?thesis by (simp add: compact_mantissa_def compact_exponent_def)
  qed
  have "unat c = unat d" using split [OF assms(1)] split [OF assms(2)] assms(3,4) by simp
  then show ?thesis by (simp add: word_unat_eq_iff)
qed

text \<open>A normalised mantissa and its exponent are determined by the number they approximate.\<close>

lemma compact_normal_unique:
  fixes m m' e e' V :: nat
  assumes exact: "m * 256 ^ e = V" and m: "2 ^ 15 \<le> m" "m < 2 ^ 23"
    and approx: "m' * 256 ^ e' \<le> V" "V < (m' + 1) * 256 ^ e'" and m': "2 ^ 15 \<le> m'" "m' < 2 ^ 23"
  shows "e' = e" and "m' = m"
proof -
  have scale: "2 ^ 23 * 256 ^ i \<le> x * (256::nat) ^ j" if "i < j" "2 ^ 15 \<le> x" for i j x
  proof -
    have "(2::nat) ^ 23 * 256 ^ i = 2 ^ 15 * 256 ^ Suc i" by simp
    also have "\<dots> \<le> x * 256 ^ j" using that by (intro mult_le_mono power_increasing) auto
    finally show ?thesis .
  qed
  show e: "e' = e"
  proof (rule ccontr)
    assume "e' \<noteq> e"
    then consider "e < e'" | "e' < e" by linarith
    then show False
    proof cases
      case 1
      have "V < 2 ^ 23 * 256 ^ e" unfolding exact [symmetric] using m by simp
      also have "\<dots> \<le> V" using scale [OF 1 m'(1)] approx(1) by linarith
      finally show False by simp
    next
      case 2
      have "V < (m' + 1) * 256 ^ e'" by (rule approx)
      also have "\<dots> \<le> 2 ^ 23 * 256 ^ e'" using m'(2) by (intro mult_le_mono1) simp
      also have "\<dots> \<le> V" using scale [OF 2 m(1)] exact by simp
      finally show False by simp
    qed
  qed
  have "m' * 256 ^ e \<le> m * 256 ^ e" "m * 256 ^ e < (m' + 1) * 256 ^ e"
    using approx exact unfolding e by simp_all
  then have "m' \<le> m" "m < m' + 1" by (simp_all only: mult_le_cancel2 mult_less_cancel2)
  then show "m' = m" by simp
qed

lemma GetCompact_denotes:
  assumes "bu_wf a" "GetCompact a False = Inr c"
  shows "compact_mantissa c * 256 ^ compact_exponent c = compact_denotes c * 256 ^ 3"
    and "compact_denotes c \<le> bu_val a"
    and "(bu_val a - compact_denotes c) * 2 ^ 15 \<le> bu_val a"
    and "compact_denotes c * 256 ^ 3 \<le> bu_val a * 256 ^ 3"
    and "bu_val a * 256 ^ 3 < (compact_mantissa c + 1) * 256 ^ compact_exponent c"
    and "bu_val a \<noteq> 0 \<Longrightarrow> 2 ^ 15 \<le> compact_mantissa c" and "\<not> bit c 23"
proof -
  let ?e = "compact_exponent c" and ?m = "compact_mantissa c" and ?x = "bu_val a"
  obtain c' where r: "GetCompact a False = Inr c'"
    "compact_exponent c' \<le> 3 \<Longrightarrow> compact_mantissa c' = ?x * 256 ^ (3 - compact_exponent c')"
    "\<not> compact_exponent c' \<le> 3 \<Longrightarrow> compact_mantissa c' = ?x div 256 ^ (compact_exponent c' - 3)"
    "?x \<noteq> 0 \<Longrightarrow> 2 ^ 15 \<le> compact_mantissa c'" "\<not> bit c' 23"
    using GetCompact_result [OF assms(1)] by blast
  then have "c' = c" using assms(2) by simp
  note r = r [unfolded this]
  show "?x \<noteq> 0 \<Longrightarrow> 2 ^ 15 \<le> ?m" "\<not> bit c 23" using r(4,5) by simp_all
  have "?m * 256 ^ ?e = compact_denotes c * 256 ^ 3 \<and> compact_denotes c \<le> ?x \<and>
      (?x - compact_denotes c) * 2 ^ 15 \<le> ?x \<and> ?x * 256 ^ 3 < (?m + 1) * 256 ^ ?e"
  proof (cases "?e \<le> 3")
    case True
    have "256 ^ (3 - ?e) * 256 ^ ?e = (256::nat) ^ 3" using True by (simp flip: power_add)
    then have "?m * 256 ^ ?e = ?x * 256 ^ 3" using r(2) [OF True] by (simp only: mult.assoc)
    moreover have "compact_denotes c = ?x" using True r(2) by (simp add: compact_denotes_def)
    ultimately show ?thesis by (simp add: distrib_right)
  next
    case False
    let ?K = "256 ^ (?e - 3) :: nat"
    have K: "256 ^ ?e = ?K * 256 ^ 3" using False power_add [of "256::nat" "?e - 3" 3] by simp
    have den: "compact_denotes c = ?m * ?K" using False by (simp add: compact_denotes_def)
    have m: "?m = ?x div ?K" using r(3) [OF False] .
    have x: "?x = ?m * ?K + ?x mod ?K" unfolding m by (rule div_mult_mod_eq [symmetric])
    have lt: "?x mod ?K < ?K" by simp
    have "(?x - compact_denotes c) * 2 ^ 15 \<le> ?x"
    proof (cases "?x = 0")
      case False
      have "?x - compact_denotes c = ?x mod ?K" using x den by simp
      then have "(?x - compact_denotes c) * 2 ^ 15 \<le> ?K * 2 ^ 15" using lt by simp
      also have "\<dots> \<le> ?m * ?K" using r(4) [OF False] by simp
      also have "\<dots> \<le> ?x" using x by linarith
      finally show ?thesis .
    qed simp
    moreover have "?x < (?m + 1) * ?K" using x lt unfolding distrib_right mult_1 by linarith
    moreover have "compact_denotes c \<le> ?x" using x den by linarith
    ultimately show ?thesis unfolding K den by simp
  qed
  then show "?m * 256 ^ ?e = compact_denotes c * 256 ^ 3" "compact_denotes c \<le> ?x"
    "(?x - compact_denotes c) * 2 ^ 15 \<le> ?x" "compact_denotes c * 256 ^ 3 \<le> ?x * 256 ^ 3"
    "?x * 256 ^ 3 < (?m + 1) * 256 ^ ?e" by simp_all
qed

lemma compact_denotes_0:
  assumes "bu_wf a" "GetCompact a False = Inr c" "compact_denotes c = 0"
  shows "bu_val a = 0"
  using GetCompact_denotes(3) [OF assms(1,2)] assms(3) by simp

section \<open>Properties\<close>

text \<open>
  C30. Decoding a compact target yields the number the format documents, reduced to 256 bits; the
  overflow flag is raised exactly when that number does not fit into 256 bits, and the negative
  flag exactly when the sign bit is set on a non-zero mantissa.
\<close>

theorem SetCompact_correct:
  "bu_val (cr_value (SetCompact c)) = compact_denotes c mod 2 ^ 256 \<and>
   (cr_overflow (SetCompact c) \<longleftrightarrow> 2 ^ 256 \<le> compact_denotes c) \<and>
   (cr_negative (SetCompact c) \<longleftrightarrow> bit c 23 \<and>
     (if compact_exponent c \<le> 3 then compact_mantissa c div 256 ^ (3 - compact_exponent c)
      else compact_mantissa c) \<noteq> 0)"
  using SetCompact_value [of c] compact_overflow_iff [of c] SetCompact_negative_iff [of c] by simp

text \<open>
  Encoding a target and decoding it again: \<open>GetCompact\<close> passes its assertions on every
  256-bit number, the result decodes without sign or overflow to a number that is at most the
  original and smaller by less than one part in \<open>2 ^ 15\<close>, and encoding that number again
  gives the same word.
\<close>

theorem compact_roundtrip:
  assumes "bu_wf a"
  shows "\<exists>c. GetCompact a False = Inr c \<and> \<not> cr_negative (SetCompact c) \<and> \<not> cr_overflow (SetCompact c) \<and>
    bu_val (cr_value (SetCompact c)) \<le> bu_val a \<and>
    (bu_val a - bu_val (cr_value (SetCompact c))) * 2 ^ 15 \<le> bu_val a \<and>
    GetCompact (cr_value (SetCompact c)) False = Inr c"
proof -
  obtain c where c: "GetCompact a False = Inr c" using GetCompact_result [OF assms] by blast
  note d = GetCompact_denotes [OF assms c]
  let ?v = "cr_value (SetCompact c)"
  have lt: "compact_denotes c < 2 ^ 256" using d(2) bu_val_bound [OF assms] by linarith
  have wf: "bu_wf ?v" and v: "bu_val ?v = compact_denotes c"
    using SetCompact_value [of c] lt by simp_all
  have "GetCompact ?v False = Inr c"
  proof (cases "compact_denotes c = 0")
    case True
    then have "bu_val ?v = bu_val a" using compact_denotes_0 [OF assms c] v by simp
    then have "pn ?v = pn a" using wf assms by (intro le_val_inject) (simp_all add: bu_wf_def bu_val_def)
    then have "?v = a" by (intro base_uint.equality) simp_all
    then show ?thesis using c by simp
  next
    case False
    obtain c' where c': "GetCompact ?v False = Inr c'" using GetCompact_result [OF wf] by blast
    note d' = GetCompact_denotes [OF wf c', unfolded v]
    have nz: "bu_val a \<noteq> 0" using False d(2) by simp
    have "compact_mantissa c' * 256 ^ compact_exponent c' \<le> compact_denotes c * 256 ^ 3"
      using d'(1,4) by simp
    from compact_normal_unique [OF d(1) d(6) [OF nz] _ this d'(5) d'(6)] False
    have "compact_exponent c' = compact_exponent c" "compact_mantissa c' = compact_mantissa c"
      by (simp_all add: compact_mantissa_def)
    then show ?thesis using compact_eqI [OF d'(7) d(7)] c' by simp
  qed
  moreover have "\<not> cr_negative (SetCompact c)" using SetCompact_negative_iff d(7) by blast
  moreover have "\<not> cr_overflow (SetCompact c)" using lt by (simp add: compact_overflow_iff)
  ultimately show ?thesis using c d(2,3) unfolding v [symmetric] by blast
qed

theorem compact_roundtrip_witness:
  "\<exists>c. GetCompact (bu_of_u64 0x1234560789) False = Inr c \<and>
     GetCompact (cr_value (SetCompact c)) False = Inr c"
  using compact_roundtrip [of "bu_of_u64 0x1234560789"] by auto

end
