(* ===== verification/BlockIndex.thy ===== *)
theory BlockIndex
  imports ArithCompact Block
begin

text \<open>
  The block index: \<^verbatim>\<open>src/chain.h\<close>, \<^verbatim>\<open>src/chain.cpp\<close>, \<open>GetBlockProof\<close> of
  \<^verbatim>\<open>src/pow.cpp\<close> and the functions of \<^verbatim>\<open>src/main.cpp\<close> that grow and search the tree of
  headers. An entry is an object in memory, reached through pointers: memory is a partial map from
  addresses to entries, a pointer an optional address. Following a pointer that is null or dangling and
  failing an assertion are errors. Heights, which start at zero and grow by one, are natural numbers;
  the arguments that may be negative are integers.
\<close>

section \<open>Entries\<close>

type_synonym ptr = nat

datatype index_error = AssertionFails | BadPointer | OutOfFuel | Arith uint_error

record CBlockIndex =
  phashBlock :: "uint256 option"
  pprev :: "ptr option"
  pskip :: "ptr option"
  nHeight :: nat
  newcoins :: int
  zfunds :: int
  sproutfunds :: "int option"
  nNotaryPay :: int
  segid :: int
  bi_nFile :: int
  bi_nDataPos :: u32
  bi_nUndoPos :: u32
  nChainWork :: base_uint
  nTx :: u32
  nChainTx :: u32
  nStatus :: u32
  nCachedBranchId :: "u32 option"
  hashSproutAnchor :: uint256
  hashFinalSproutRoot :: uint256
  nSproutValue :: "CAmount option"
  nChainSproutValue :: "CAmount option"
  nSaplingValue :: CAmount
  nChainSaplingValue :: "CAmount option"
  bi_nVersion :: u32
  bi_hashMerkleRoot :: uint256
  bi_hashFinalSaplingRoot :: uint256
  bi_nTime :: u32
  bi_nBits :: u32
  bi_nNonce :: uint256
  bi_nSolution :: bytes
  nSequenceId :: u32

type_synonym memory = "ptr \<rightharpoonup> CBlockIndex"

abbreviation BLOCK_VALID_HEADER :: u32 where "BLOCK_VALID_HEADER \<equiv> 1"
abbreviation BLOCK_VALID_TREE :: u32 where "BLOCK_VALID_TREE \<equiv> 2"
abbreviation BLOCK_VALID_TRANSACTIONS :: u32 where "BLOCK_VALID_TRANSACTIONS \<equiv> 3"
abbreviation BLOCK_VALID_MASK :: u32 where "BLOCK_VALID_MASK \<equiv> 7"
abbreviation BLOCK_HAVE_DATA :: u32 where "BLOCK_HAVE_DATA \<equiv> 8"
abbreviation BLOCK_FAILED_VALID :: u32 where "BLOCK_FAILED_VALID \<equiv> 32"
abbreviation BLOCK_FAILED_CHILD :: u32 where "BLOCK_FAILED_CHILD \<equiv> 64"
abbreviation BLOCK_FAILED_MASK :: u32 where "BLOCK_FAILED_MASK \<equiv> 96"

text \<open>\<open>SetNull\<close> leaves \<open>sproutfunds\<close> uninitialised: it has no value until one is assigned.\<close>

definition index_null :: CBlockIndex where
  "index_null =
     \<lparr>phashBlock = None, pprev = None, pskip = None, nHeight = 0, newcoins = 0, zfunds = 0, sproutfunds = None,
      nNotaryPay = 0, segid = - 2, bi_nFile = 0, bi_nDataPos = 0, bi_nUndoPos = 0,
      nChainWork = bu_zero, nTx = 0, nChainTx = 0, nStatus = 0, nCachedBranchId = None,
      hashSproutAnchor = uint256_null, hashFinalSproutRoot = uint256_null, nSproutValue = None, nChainSproutValue = None,
      nSaplingValue = 0, nChainSaplingValue = None, bi_nVersion = 0, bi_hashMerkleRoot = uint256_null,
      bi_hashFinalSaplingRoot = uint256_null, bi_nTime = 0, bi_nBits = 0, bi_nNonce = uint256_null, bi_nSolution = [],
      nSequenceId = 0\<rparr>"

definition index_of_header :: "CBlockHeader \<Rightarrow> CBlockIndex" where
  "index_of_header h =
     index_null\<lparr>bi_nVersion := bh_nVersion h, bi_hashMerkleRoot := bh_hashMerkleRoot h,
       bi_hashFinalSaplingRoot := bh_hashFinalSaplingRoot h, bi_nTime := bh_nTime h, bi_nBits := bh_nBits h,
       bi_nNonce := bh_nNonce h, bi_nSolution := bh_nSolution h\<rparr>"

definition load :: "memory \<Rightarrow> ptr \<Rightarrow> index_error + CBlockIndex" where
  "load mem p = (case mem p of None \<Rightarrow> Inl BadPointer | Some b \<Rightarrow> Inr b)"

definition IsValid :: "CBlockIndex \<Rightarrow> u32 \<Rightarrow> index_error + bool" where
  "IsValid b nUpTo =
     (if nUpTo AND NOT BLOCK_VALID_MASK \<noteq> 0 then Inl AssertionFails
      else Inr (nStatus b AND BLOCK_FAILED_MASK = 0 \<and> nStatus b AND BLOCK_VALID_MASK \<ge> nUpTo))"

definition RaiseValidity :: "CBlockIndex \<Rightarrow> u32 \<Rightarrow> index_error + bool \<times> CBlockIndex" where
  "RaiseValidity b nUpTo =
     (if nUpTo AND NOT BLOCK_VALID_MASK \<noteq> 0 then Inl AssertionFails
      else if nStatus b AND BLOCK_FAILED_MASK \<noteq> 0 then Inr (False, b)
      else if nStatus b AND BLOCK_VALID_MASK < nUpTo
      then Inr (True, b\<lparr>nStatus := nStatus b AND NOT BLOCK_VALID_MASK OR nUpTo\<rparr>)
      else Inr (False, b))"

section \<open>Median time\<close>

text \<open>The times of an entry and its predecessors, at most as many as asked for.\<close>

fun last_times :: "memory \<Rightarrow> ptr option \<Rightarrow> nat \<Rightarrow> index_error + int list" where
  "last_times mem p 0 = Inr []"
| "last_times mem None (Suc i) = Inr []"
| "last_times mem (Some p) (Suc i) =
     res_bind (load mem p) (\<lambda>b. res_bind (last_times mem (pprev b) i) (\<lambda>ts. Inr (uint (bi_nTime b) # ts)))"

definition GetMedianTimePast :: "memory \<Rightarrow> ptr \<Rightarrow> index_error + int" where
  "GetMedianTimePast mem p = res_bind (last_times mem (Some p) 11) (\<lambda>ts. Inr (sort ts ! (length ts div 2)))"

section \<open>The skip list\<close>

definition InvertLowestOne :: "nat \<Rightarrow> nat" where
  "InvertLowestOne n = n AND (n - 1)"

definition GetSkipHeight :: "nat \<Rightarrow> nat" where
  "GetSkipHeight height =
     (if height < 2 then 0
      else if odd height then InvertLowestOne (InvertLowestOne (height - 1)) + 1 else InvertLowestOne height)"

lemma and_le_nat: "(a :: nat) AND b \<le> b"
  using AND_upper2 [of "int b" "int a"] by (simp add: of_nat_and_eq [symmetric] del: of_nat_and_eq)

lemma InvertLowestOne_le: "InvertLowestOne n \<le> n - 1"
  by (simp add: InvertLowestOne_def and_le_nat)

lemma GetSkipHeight_less: "0 < h \<Longrightarrow> GetSkipHeight h < h"
  using InvertLowestOne_le [of "InvertLowestOne (h - 1)"] InvertLowestOne_le [of "h - 1"] InvertLowestOne_le [of h]
  by (auto simp: GetSkipHeight_def)

text \<open>The walk towards the root; the height goes down in every step.\<close>

function ancestor_walk :: "memory \<Rightarrow> ptr option \<Rightarrow> nat \<Rightarrow> nat \<Rightarrow> index_error + ptr option" where
  "ancestor_walk mem None heightWalk height = Inr None"
| "ancestor_walk mem (Some p) heightWalk height =
     (if heightWalk > height then
        res_bind (load mem p) (\<lambda>b.
          let heightSkip = GetSkipHeight heightWalk; heightSkipPrev = GetSkipHeight (heightWalk - 1)
          in if pskip b \<noteq> None \<and>
                (heightSkip = height \<or> (heightSkip > height \<and> \<not> (int heightSkipPrev < int heightSkip - 2 \<and> heightSkipPrev \<ge> height)))
             then ancestor_walk mem (pskip b) heightSkip height
             else if pprev b = None then Inl AssertionFails
             else ancestor_walk mem (pprev b) (heightWalk - 1) height)
      else Inr (Some p))"
  by pat_completeness auto
termination
  by (relation "measure (\<lambda>(mem, p, heightWalk, height). heightWalk)") (auto simp: GetSkipHeight_less)

declare ancestor_walk.simps [simp del]

definition GetAncestor :: "memory \<Rightarrow> ptr \<Rightarrow> int \<Rightarrow> index_error + ptr option" where
  "GetAncestor mem p height =
     res_bind (load mem p) (\<lambda>b.
       if height > int (nHeight b) \<or> height < 0 then Inr None
       else ancestor_walk mem (Some p) (nHeight b) (nat height))"

text \<open>Sets the skip pointer of the entry at \<open>p\<close>.\<close>

definition BuildSkip :: "memory \<Rightarrow> ptr \<Rightarrow> index_error + memory" where
  "BuildSkip mem p =
     res_bind (load mem p) (\<lambda>b.
       case pprev b of
         None \<Rightarrow> Inr mem
       | Some q \<Rightarrow> res_bind (GetAncestor mem q (int (GetSkipHeight (nHeight b)))) (\<lambda>s. Inr (mem(p \<mapsto> b\<lparr>pskip := s\<rparr>))))"

section \<open>Work\<close>

definition GetBlockProof :: "u32 \<Rightarrow> index_error + base_uint" where
  "GetBlockProof nBits =
     (let r = SetCompact nBits; bnTarget = cr_value r
      in if cr_negative r \<or> cr_overflow r \<or> EqualTo bnTarget 0 then Inr bu_zero
         else case bu_div (bu_not bnTarget) (bu_add_u64 bnTarget 1) of
                Inl e \<Rightarrow> Inl (Arith e)
              | Inr q \<Rightarrow> Inr (bu_add_u64 q 1))"

definition GetBlockProofEquivalentTime :: "base_uint \<Rightarrow> base_uint \<Rightarrow> u32 \<Rightarrow> int \<Rightarrow> index_error + int" where
  "GetBlockProofEquivalentTime toWork fromWork tipBits nPowTargetSpacing =
     (let pos = CompareTo toWork fromWork > 0;
          r = (if pos then bu_sub toWork fromWork else bu_sub fromWork toWork);
          sign = (if pos then 1 else - 1)
      in res_bind (GetBlockProof tipBits) (\<lambda>proof.
           case bu_div (bu_mul r (bu_of_u64 (word_of_int nPowTargetSpacing))) proof of
             Inl e \<Rightarrow> Inl (Arith e)
           | Inr q \<Rightarrow> Inr (if bu_bits q > 63 then sign * (2 ^ 63 - 1) else sign * uint (bu_low64 q))))"

section \<open>The chain\<close>

text \<open>The active chain: a pointer for every height up to the tip.\<close>

type_synonym CChain = "ptr option list"

definition chain_at :: "CChain \<Rightarrow> int \<Rightarrow> ptr option" where
  "chain_at vChain n = (if n < 0 \<or> n \<ge> int (length vChain) then None else vChain ! nat n)"

definition Genesis :: "CChain \<Rightarrow> ptr option" where
  "Genesis vChain = (if vChain \<noteq> [] then vChain ! 0 else None)"

definition Tip :: "CChain \<Rightarrow> ptr option" where
  "Tip vChain = (if vChain \<noteq> [] then vChain ! (length vChain - 1) else None)"

definition Height :: "CChain \<Rightarrow> int" where
  "Height vChain = int (length vChain) - 1"

definition Contains :: "memory \<Rightarrow> CChain \<Rightarrow> ptr \<Rightarrow> index_error + bool" where
  "Contains mem vChain p = res_bind (load mem p) (\<lambda>b. Inr (chain_at vChain (int (nHeight b)) = Some p))"

definition chain_Next :: "memory \<Rightarrow> CChain \<Rightarrow> ptr \<Rightarrow> index_error + ptr option" where
  "chain_Next mem vChain p =
     res_bind (load mem p) (\<lambda>b. res_bind (Contains mem vChain p) (\<lambda>f.
       Inr (if f then chain_at vChain (int (nHeight b) + 1) else None)))"

text \<open>
  The loops that follow \<open>pprev\<close> would not end on a cyclic structure. They carry a bound on the number
  of steps, one more than the height they start from; running out of it is an error, which does not
  happen in a tree (\<open>pprev\<close> goes down by one).
\<close>

fun set_tip_walk :: "nat \<Rightarrow> memory \<Rightarrow> CChain \<Rightarrow> ptr option \<Rightarrow> index_error + CChain" where
  "set_tip_walk fuel mem vChain None = Inr vChain"
| "set_tip_walk 0 mem vChain (Some p) = Inl OutOfFuel"
| "set_tip_walk (Suc fuel) mem vChain (Some p) =
     res_bind (load mem p) (\<lambda>b.
       if nHeight b \<ge> length vChain then Inl BadPointer
       else if vChain ! nHeight b = Some p then Inr vChain
       else set_tip_walk fuel mem (vChain[nHeight b := Some p]) (pprev b))"

definition resize :: "nat \<Rightarrow> CChain \<Rightarrow> CChain" where
  "resize n vChain = take n vChain @ replicate (n - length vChain) None"

definition SetTip :: "memory \<Rightarrow> CChain \<Rightarrow> ptr option \<Rightarrow> index_error + CChain" where
  "SetTip mem vChain pindex =
     (case pindex of
        None \<Rightarrow> Inr []
      | Some p \<Rightarrow> res_bind (load mem p) (\<lambda>b. set_tip_walk (nHeight b + 2) mem (resize (nHeight b + 1) vChain) pindex))"

fun fork_walk :: "nat \<Rightarrow> memory \<Rightarrow> CChain \<Rightarrow> ptr option \<Rightarrow> index_error + ptr option" where
  "fork_walk fuel mem vChain None = Inr None"
| "fork_walk 0 mem vChain (Some p) = Inl OutOfFuel"
| "fork_walk (Suc fuel) mem vChain (Some p) =
     res_bind (Contains mem vChain p) (\<lambda>f.
       if f then Inr (Some p) else res_bind (load mem p) (\<lambda>b. fork_walk fuel mem vChain (pprev b)))"

definition FindFork :: "memory \<Rightarrow> CChain \<Rightarrow> ptr option \<Rightarrow> index_error + ptr option" where
  "FindFork mem vChain pindex =
     (case pindex of
        None \<Rightarrow> Inr None
      | Some p \<Rightarrow>
          res_bind (load mem p) (\<lambda>b.
          res_bind (if int (nHeight b) > Height vChain then GetAncestor mem p (Height vChain) else Inr (Some p)) (\<lambda>q.
            fork_walk (nHeight b + 1) mem vChain q)))"

fun common_walk :: "nat \<Rightarrow> memory \<Rightarrow> ptr option \<Rightarrow> ptr option \<Rightarrow> index_error + ptr option \<times> ptr option" where
  "common_walk fuel mem (Some a) (Some b) =
     (if a = b then Inr (Some a, Some b)
      else case fuel of
             0 \<Rightarrow> Inl OutOfFuel
           | Suc fuel' \<Rightarrow> res_bind (load mem a) (\<lambda>ba. res_bind (load mem b) (\<lambda>bb. common_walk fuel' mem (pprev ba) (pprev bb))))"
| "common_walk fuel mem pa pb = Inr (pa, pb)"

definition LastCommonAncestor :: "memory \<Rightarrow> ptr \<Rightarrow> ptr \<Rightarrow> index_error + ptr option" where
  "LastCommonAncestor mem pa pb =
     res_bind (load mem pa) (\<lambda>a. res_bind (load mem pb) (\<lambda>b.
     res_bind (if nHeight a > nHeight b then GetAncestor mem pa (int (nHeight b)) else Inr (Some pa)) (\<lambda>qa.
     res_bind (if \<not> nHeight a > nHeight b \<and> nHeight b > nHeight a then GetAncestor mem pb (int (nHeight a)) else Inr (Some pb)) (\<lambda>qb.
     res_bind (common_walk (nHeight a + 1) mem qa qb) (\<lambda>(ra, rb).
       if ra = rb then Inr ra else Inl AssertionFails)))))"

text \<open>The hashes of a locator: steps of one for the first entries, then doubling, down to the first block.\<close>

fun locator_walk :: "nat \<Rightarrow> memory \<Rightarrow> CChain \<Rightarrow> ptr option \<Rightarrow> nat \<Rightarrow> uint256 list \<Rightarrow> index_error + uint256 list" where
  "locator_walk fuel mem vChain None nStep vHave = Inr vHave"
| "locator_walk 0 mem vChain (Some p) nStep vHave = Inl OutOfFuel"
| "locator_walk (Suc fuel) mem vChain (Some p) nStep vHave =
     res_bind (load mem p) (\<lambda>b.
       case phashBlock b of
         None \<Rightarrow> Inl AssertionFails
       | Some h \<Rightarrow>
           let vHave' = vHave @ [h]
           in if nHeight b = 0 then Inr vHave'
              else res_bind (Contains mem vChain p) (\<lambda>f.
                   res_bind (if f then Inr (chain_at vChain (int (nHeight b - nStep))) else GetAncestor mem p (int (nHeight b - nStep))) (\<lambda>q.
                     locator_walk fuel mem vChain q (if length vHave' > 10 then nStep * 2 else nStep) vHave')))"

definition GetLocator :: "memory \<Rightarrow> CChain \<Rightarrow> ptr option \<Rightarrow> index_error + uint256 list" where
  "GetLocator mem vChain pindex =
     (let q = if pindex = None then Tip vChain else pindex
      in case q of
           None \<Rightarrow> Inr []
         | Some p \<Rightarrow> res_bind (load mem p) (\<lambda>b. locator_walk (nHeight b + 1) mem vChain q 1 []))"

section \<open>The tree of headers\<close>

text \<open>
  The entries by hash. The map may hold a null pointer for a hash: \<open>operator[]\<close> creates such an
  entry, and the code guards against it.
\<close>

record index_state =
  mem :: memory
  mapBlockIndex :: "uint256 \<rightharpoonup> ptr option"
  pindexBestHeader :: "ptr option"
  setDirtyBlockIndex :: "ptr set"

definition index_init :: index_state where
  "index_init = \<lparr>mem = Map.empty, mapBlockIndex = Map.empty, pindexBestHeader = None, setDirtyBlockIndex = {}\<rparr>"

definition index_touch :: "index_state \<Rightarrow> uint256 \<Rightarrow> index_state" where
  "index_touch st h = (if mapBlockIndex st h = None then st\<lparr>mapBlockIndex := (mapBlockIndex st)(h \<mapsto> None)\<rparr> else st)"

text \<open>The entry for a new header, linked to its predecessor.\<close>

definition link_entry :: "index_state \<Rightarrow> CBlockHeader \<Rightarrow> ptr \<Rightarrow> index_error + memory" where
  "link_entry st h pnew =
     (let b = (index_of_header h)\<lparr>nSequenceId := 0, phashBlock := Some (projr (header_GetHash h))\<rparr>
      in case mapBlockIndex st (bh_hashPrevBlock h) of
           None \<Rightarrow> Inr ((mem st)(pnew \<mapsto> b))
         | Some pp \<Rightarrow>
             res_bind (case pp of None \<Rightarrow> Inr b | Some q \<Rightarrow> res_bind (load (mem st) q) (\<lambda>bq. Inr (b\<lparr>pprev := pp, nHeight := nHeight bq + 1\<rparr>))) (\<lambda>b'.
               BuildSkip ((mem st)(pnew \<mapsto> b')) pnew))"

definition chain_work :: "memory \<Rightarrow> CBlockIndex \<Rightarrow> index_error + base_uint" where
  "chain_work m b =
     res_bind (case pprev b of None \<Rightarrow> Inr bu_zero | Some q \<Rightarrow> res_bind (load m q) (\<lambda>bq. Inr (nChainWork bq))) (\<lambda>prev.
     res_bind (GetBlockProof (bi_nBits b)) (\<lambda>proof. Inr (bu_add prev proof)))"

text \<open>Whether \<open>work\<close> is more than that of the best header known.\<close>

definition better_than :: "memory \<Rightarrow> ptr option \<Rightarrow> base_uint \<Rightarrow> index_error + bool" where
  "better_than m best work =
     (case best of None \<Rightarrow> Inr True | Some bp \<Rightarrow> res_bind (load m bp) (\<lambda>bb. Inr (CompareTo (nChainWork bb) work < 0)))"

text \<open>\<open>pnew\<close> is the address the allocation returns.\<close>

definition AddToBlockIndex :: "index_state \<Rightarrow> CBlockHeader \<Rightarrow> ptr \<Rightarrow> index_error + ptr option \<times> index_state" where
  "AddToBlockIndex st h pnew =
     (let hash = projr (header_GetHash h);
          it = mapBlockIndex st hash; miPrev = mapBlockIndex st (bh_hashPrevBlock h)
      in case it of
           Some (Some p) \<Rightarrow> Inr (Some p, st)
         | _ \<Rightarrow>
             if it = Some None \<and> miPrev = Some None then Inr (None, st)
             else
               res_bind (link_entry st h pnew) (\<lambda>m.
               res_bind (load m pnew) (\<lambda>b.
               res_bind (chain_work m b) (\<lambda>work.
               res_bind (RaiseValidity (b\<lparr>nChainWork := work\<rparr>) BLOCK_VALID_TREE) (\<lambda>(_, b').
               res_bind (better_than m (pindexBestHeader st) work) (\<lambda>better.
                 Inr (Some pnew,
                      st\<lparr>mem := m(pnew \<mapsto> b'), mapBlockIndex := (mapBlockIndex st)(hash \<mapsto> Some pnew),
                         pindexBestHeader := (if better then Some pnew else pindexBestHeader st),
                         setDirtyBlockIndex := insert pnew (setDirtyBlockIndex st)\<rparr>)))))))"

text \<open>The first entry of a locator that lies on the chain.\<close>

fun FindForkInGlobalIndex :: "index_state \<Rightarrow> CChain \<Rightarrow> uint256 list \<Rightarrow> index_error + ptr option" where
  "FindForkInGlobalIndex st chain [] = Inr (Genesis chain)"
| "FindForkInGlobalIndex st chain (h # vHave) =
     (case mapBlockIndex st h of
        Some (Some p) \<Rightarrow>
          res_bind (Contains (mem st) chain p) (\<lambda>f.
            if f then Inr (Some p)
            else res_bind (GetAncestor (mem st) p (Height chain)) (\<lambda>a.
                   if a = Tip chain then Inr (Tip chain) else FindForkInGlobalIndex st chain vHave))
      | _ \<Rightarrow> FindForkInGlobalIndex st chain vHave)"

end
