(* ===== verification/BlockTree.thy ===== *)
theory BlockTree
  imports BlockIndex
begin

text \<open>
  The tree of block index entries: the skip list against following \<open>pprev\<close>, the growth of the tree, the sets of
  ancestors, last common ancestors, the active chain, fork points and locators.
\<close>

section \<open>Ancestors\<close>

text \<open>The reference: following \<open>pprev\<close> a number of times.\<close>

fun up :: "memory \<Rightarrow> nat \<Rightarrow> ptr \<Rightarrow> ptr option" where
  "up m 0 p = Some p"
| "up m (Suc k) p = (case m p of None \<Rightarrow> None | Some b \<Rightarrow> (case pprev b of None \<Rightarrow> None | Some q \<Rightarrow> up m k q))"

text \<open>
  A tree: an entry without predecessor has height zero, every other one is one above its predecessor, and
  a skip pointer leads to the ancestor at the height \<open>GetSkipHeight\<close> gives.
\<close>

definition entry_ok :: "memory \<Rightarrow> ptr \<Rightarrow> CBlockIndex \<Rightarrow> bool" where
  "entry_ok m p b \<longleftrightarrow>
     (case pprev b of None \<Rightarrow> nHeight b = 0 | Some q \<Rightarrow> \<exists>bq. m q = Some bq \<and> nHeight b = Suc (nHeight bq)) \<and>
     (\<forall>s. pskip b = Some s \<longrightarrow> 0 < nHeight b \<and> up m (nHeight b - GetSkipHeight (nHeight b)) p = Some s)"

definition tree_ok :: "memory \<Rightarrow> bool" where
  "tree_ok m \<longleftrightarrow> (\<forall>p b. m p = Some b \<longrightarrow> entry_ok m p b)"

lemma tree_okD: "tree_ok m \<Longrightarrow> m p = Some b \<Longrightarrow> entry_ok m p b"
  by (simp add: tree_ok_def)

lemma pprev_cases:
  assumes "tree_ok m" "m p = Some b"
  obtains (root) "pprev b = None" "nHeight b = 0" | (child) q bq where "pprev b = Some q" "m q = Some bq" "nHeight b = Suc (nHeight bq)"
  using tree_okD [OF assms] by (auto simp: entry_ok_def split: option.splits)

lemma up_add: "up m (j + k) p = (case up m j p of None \<Rightarrow> None | Some q \<Rightarrow> up m k q)"
  by (induction j arbitrary: p) (auto split: option.splits)

lemma up_height:
  assumes "tree_ok m"
  shows "m p = Some b \<Longrightarrow> k \<le> nHeight b \<Longrightarrow> \<exists>q bq. up m k p = Some q \<and> m q = Some bq \<and> nHeight bq = nHeight b - k"
proof (induction k arbitrary: p b)
  case (Suc k)
  from assms Suc.prems(1) show ?case
  proof (cases rule: pprev_cases)
    case (child q bq)
    with Suc.IH [of q bq] Suc.prems show ?thesis by simp
  qed (use Suc.prems in simp)
qed simp

lemma up_beyond:
  assumes "tree_ok m"
  shows "m p = Some b \<Longrightarrow> nHeight b < k \<Longrightarrow> up m k p = None"
proof (induction k arbitrary: p b)
  case (Suc k)
  from assms Suc.prems(1) show ?case
  proof (cases rule: pprev_cases)
    case (child q bq)
    with Suc show ?thesis by simp
  qed (use Suc.prems in simp)
qed simp

lemma up_cong: "(\<And>p. map_option pprev (m p) = map_option pprev (m' p)) \<Longrightarrow> up m k p = up m' k p"
proof (induction k arbitrary: p)
  case (Suc k)
  have "up m k q = up m' k q" for q by (rule Suc.IH) (rule Suc.prems)
  with Suc.prems [of p] show ?case by (cases "m p"; cases "m' p") (auto split: option.splits)
qed simp

section \<open>The skip list finds ancestors\<close>

lemma ancestor_walk_up:
  assumes "tree_ok m"
  shows "m p = Some b \<Longrightarrow> nHeight b = h \<Longrightarrow> height \<le> h \<Longrightarrow> ancestor_walk m (Some p) h height = Inr (up m (h - height) p)"
proof (induction h arbitrary: p b rule: less_induct)
  case (less h)
  show ?case
  proof (cases "h > height")
    case False
    with less.prems show ?thesis by (simp add: ancestor_walk.simps)
  next
    case True
    let ?s = "GetSkipHeight h"
    have b: "load m p = Inr b" using less.prems(1) by (simp add: load_def)
    show ?thesis
    proof (cases "pskip b \<noteq> None \<and> (?s = height \<or> (?s > height \<and> \<not> (int (GetSkipHeight (h - 1)) < int ?s - 2 \<and> GetSkipHeight (h - 1) \<ge> height)))")
      case skip: True
      then obtain s where s: "pskip b = Some s" "up m (h - ?s) p = Some s" "height \<le> ?s"
        using tree_okD [OF assms less.prems(1)] less.prems(2) by (auto simp: entry_ok_def)
      have lt: "?s < h" using True by (intro GetSkipHeight_less) simp
      with up_height [OF assms less.prems(1), of "h - ?s"] s less.prems(2) obtain bs where bs: "m s = Some bs" "nHeight bs = ?s" by auto
      have "ancestor_walk m (Some p) h height = ancestor_walk m (Some s) ?s height"
        using True skip s(1) b by (subst ancestor_walk.simps) (simp add: Let_def)
      also have "\<dots> = Inr (up m (?s - height) s)" by (rule less.IH [OF lt bs s(3)])
      also have "up m (?s - height) s = up m (h - height) p"
        using up_add [of m "h - ?s" "?s - height" p] s lt by simp
      finally show ?thesis .
    next
      case noskip: False
      from assms less.prems(1) show ?thesis
      proof (cases rule: pprev_cases)
        case (child q bq)
        have "ancestor_walk m (Some p) h height = ancestor_walk m (Some q) (h - 1) height"
          using True noskip b child(1) by (subst ancestor_walk.simps) (auto simp: Let_def)
        also have "\<dots> = Inr (up m (h - 1 - height) q)" by (rule less.IH) (use child less.prems True in auto)
        also have "up m (h - 1 - height) q = up m (Suc (h - 1 - height)) p" using less.prems(1) child(1) by simp
        also have "Suc (h - 1 - height) = h - height" using True by simp
        finally show ?thesis .
      qed (use less.prems True in simp)
    qed
  qed
qed

lemma GetAncestor_up:
  assumes "tree_ok m" "m p = Some b"
  shows "GetAncestor m p height = Inr (if 0 \<le> height \<and> height \<le> int (nHeight b) then up m (nHeight b - nat height) p else None)"
  using assms ancestor_walk_up [OF assms refl, of "nat height"]
  by (auto simp: GetAncestor_def load_def)

section \<open>Growing the tree\<close>

lemma up_fresh:
  assumes "tree_ok m" "m pnew = None"
  shows "m q = Some bq \<Longrightarrow> up (m(pnew \<mapsto> b)) k q = up m k q"
proof (induction k arbitrary: q bq)
  case (Suc k)
  from Suc.prems assms(2) have "q \<noteq> pnew" by auto
  from assms(1) Suc.prems show ?case
  proof (cases rule: pprev_cases)
    case (child r br)
    then show ?thesis using Suc \<open>q \<noteq> pnew\<close> by simp
  qed (use Suc.prems \<open>q \<noteq> pnew\<close> in simp)
qed simp

lemma tree_ok_extend:
  assumes "tree_ok m" "m pnew = None" "entry_ok (m(pnew \<mapsto> b)) pnew b"
  shows "tree_ok (m(pnew \<mapsto> b))"
  unfolding tree_ok_def
proof (intro allI impI)
  fix p c
  assume c: "(m(pnew \<mapsto> b)) p = Some c"
  show "entry_ok (m(pnew \<mapsto> b)) p c"
  proof (cases "p = pnew")
    case False
    with c have mp: "m p = Some c" by simp
    with tree_okD [OF assms(1) mp] up_fresh [OF assms(1,2) mp] assms(2) show ?thesis
      by (auto simp: entry_ok_def split: option.splits)
  qed (use assms(3) c in simp)
qed

text \<open>Fields other than the links do not matter.\<close>

definition same_links :: "CBlockIndex \<Rightarrow> CBlockIndex \<Rightarrow> bool" where
  "same_links b c \<longleftrightarrow> pprev b = pprev c \<and> pskip b = pskip c \<and> nHeight b = nHeight c"

lemma tree_ok_same:
  assumes "tree_ok m" "m p = Some b" "same_links b c"
  shows "tree_ok (m(p \<mapsto> c))"
  unfolding tree_ok_def
proof (intro allI impI)
  fix q d
  assume "(m(p \<mapsto> c)) q = Some d"
  then obtain d' where d: "m q = Some d'" "same_links d' d" using assms(2,3) by (auto simp: same_links_def split: if_splits)
  have "up (m(p \<mapsto> c)) k q = up m k q" for k q using assms(2,3) by (intro up_cong) (simp add: same_links_def)
  then show "entry_ok (m(p \<mapsto> c)) q d"
    using tree_okD [OF assms(1) d(1)] d(2) assms(2,3) by (auto simp: entry_ok_def same_links_def split: option.splits)
qed

lemma BuildSkip_ok:
  assumes "tree_ok m" "m pnew = None" "pskip b = None" "entry_ok (m(pnew \<mapsto> b)) pnew b"
  shows "\<exists>s. BuildSkip (m(pnew \<mapsto> b)) pnew = Inr (m(pnew \<mapsto> b\<lparr>pskip := s\<rparr>)) \<and> tree_ok (m(pnew \<mapsto> b\<lparr>pskip := s\<rparr>))"
proof -
  let ?m = "m(pnew \<mapsto> b)"
  have t: "tree_ok ?m" by (rule tree_ok_extend [OF assms(1,2,4)])
  have mp: "?m pnew = Some b" by simp
  from t mp show ?thesis
  proof (cases rule: pprev_cases)
    case root
    moreover have "b\<lparr>pskip := None\<rparr> = b" using assms(3) by simp
    ultimately show ?thesis using t by (intro exI [of _ None]) (simp add: BuildSkip_def load_def)
  next
    case (child q bq)
    have qn: "q \<noteq> pnew" using child(2,3) by auto
    let ?s = "up ?m (nHeight bq - GetSkipHeight (nHeight b)) q"
    have le: "GetSkipHeight (nHeight b) \<le> nHeight bq" using GetSkipHeight_less [of "nHeight b"] child(3) by simp
    have "GetAncestor ?m q (int (GetSkipHeight (nHeight b))) = Inr ?s" by (subst GetAncestor_up [OF t child(2)]) (use le in simp)
    then have "BuildSkip ?m pnew = Inr (m(pnew \<mapsto> b\<lparr>pskip := ?s\<rparr>))" using child(1) by (simp add: BuildSkip_def load_def)
    moreover have "tree_ok (m(pnew \<mapsto> b\<lparr>pskip := ?s\<rparr>))"
    proof (rule tree_ok_extend [OF assms(1,2)])
      have u: "up (m(pnew \<mapsto> b\<lparr>pskip := s\<rparr>)) k r = up ?m k r" for s k r by (rule up_cong) simp
      have "up ?m (nHeight b - GetSkipHeight (nHeight b)) pnew = ?s"
        using child le by (cases "nHeight b - GetSkipHeight (nHeight b)") (auto simp: Suc_diff_le)
      then show "entry_ok (m(pnew \<mapsto> b\<lparr>pskip := ?s\<rparr>)) pnew (b\<lparr>pskip := ?s\<rparr>)"
        using child qn by (auto simp: entry_ok_def u)
    qed
    ultimately show ?thesis by blast
  qed
qed

section \<open>Sets of ancestors\<close>

definition ancestors :: "memory \<Rightarrow> ptr \<Rightarrow> ptr set" where
  "ancestors m p = {q. \<exists>k. up m k p = Some q}"

definition ancestors_opt :: "memory \<Rightarrow> ptr option \<Rightarrow> ptr set" where
  "ancestors_opt m pp = (case pp of None \<Rightarrow> {} | Some p \<Rightarrow> ancestors m p)"

lemma ancestors_opt_simps [simp]: "ancestors_opt m None = {}" "ancestors_opt m (Some p) = ancestors m p"
  by (simp_all add: ancestors_opt_def)

lemma self_ancestor [simp]: "p \<in> ancestors m p"
  unfolding ancestors_def by (rule CollectI, rule exI [of _ 0]) simp

lemma ancestors_step: "m p = Some b \<Longrightarrow> ancestors m p = insert p (ancestors_opt m (pprev b))"
proof (intro set_eqI iffI)
  fix q
  assume b: "m p = Some b" and "q \<in> ancestors m p"
  then obtain k where k: "up m k p = Some q" by (auto simp: ancestors_def)
  with b show "q \<in> insert p (ancestors_opt m (pprev b))"
    by (cases k) (auto simp: ancestors_opt_def ancestors_def split: option.splits)
next
  fix q
  assume b: "m p = Some b" and q: "q \<in> insert p (ancestors_opt m (pprev b))"
  show "q \<in> ancestors m p"
  proof (cases "q = p")
    case False
    with q obtain r k where "pprev b = Some r" "up m k r = Some q" by (auto simp: ancestors_opt_def ancestors_def split: option.splits)
    with b have "up m (Suc k) p = Some q" by simp
    then show ?thesis unfolding ancestors_def by blast
  qed simp
qed

lemma ancestors_height:
  assumes "tree_ok m" "m p = Some b" "q \<in> ancestors m p"
  shows "\<exists>c. m q = Some c \<and> nHeight c \<le> nHeight b \<and> up m (nHeight b - nHeight c) p = Some q"
proof -
  from assms(3) obtain k where k: "up m k p = Some q" by (auto simp: ancestors_def)
  with up_beyond [OF assms(1,2)] have le: "k \<le> nHeight b" by (cases "nHeight b < k") auto
  with up_height [OF assms(1,2) le] k show ?thesis by auto
qed

lemma ancestors_up:
  assumes "tree_ok m" "m p = Some b" "h \<le> nHeight b" "up m (nHeight b - h) p = Some r"
  shows "ancestors m r = {q \<in> ancestors m p. \<exists>c. m q = Some c \<and> nHeight c \<le> h}" (is "_ = ?R")
proof (intro set_eqI iffI)
  from up_height [OF assms(1,2), of "nHeight b - h"] assms(3,4) obtain c where c: "m r = Some c" "nHeight c = h" by auto
  fix q
  show "q \<in> ?R" if "q \<in> ancestors m r"
  proof -
    from that obtain k where "up m k r = Some q" by (auto simp: ancestors_def)
    then have "up m (nHeight b - h + k) p = Some q" using assms(4) by (simp add: up_add)
    then have "q \<in> ancestors m p" unfolding ancestors_def by blast
    with ancestors_height [OF assms(1) c(1) that] c(2) show ?thesis by auto
  qed
  assume "q \<in> ?R"
  then obtain d where d: "q \<in> ancestors m p" "m q = Some d" "nHeight d \<le> h" by auto
  with ancestors_height [OF assms(1,2) d(1)] have "up m (nHeight b - nHeight d) p = Some q" by auto
  moreover have "nHeight b - nHeight d = (nHeight b - h) + (h - nHeight d)" using assms(3) d(3) by simp
  ultimately have "up m (h - nHeight d) r = Some q" using assms(4) by (simp add: up_add)
  then show "q \<in> ancestors m r" unfolding ancestors_def by blast
qed

lemma ancestors_trans: "q \<in> ancestors m p \<Longrightarrow> ancestors m q \<subseteq> ancestors m p"
proof
  fix r
  assume "q \<in> ancestors m p" "r \<in> ancestors m q"
  then obtain i j where "up m i p = Some q" "up m j q = Some r" by (auto simp: ancestors_def)
  then have "up m (i + j) p = Some r" by (simp add: up_add)
  then show "r \<in> ancestors m p" unfolding ancestors_def by blast
qed

section \<open>The last common ancestor\<close>

lemma common_walk_ok:
  assumes "tree_ok m"
  shows "m p = Some b \<Longrightarrow> m q = Some c \<Longrightarrow> nHeight b = nHeight c \<Longrightarrow> nHeight b < fuel \<Longrightarrow>
    \<exists>r. common_walk fuel m (Some p) (Some q) = Inr (r, r) \<and> ancestors_opt m r = ancestors m p \<inter> ancestors m q"
proof (induction fuel arbitrary: p q b c)
  case (Suc fuel)
  show ?case
  proof (cases "p = q")
    case False
    have out: "x \<notin> ancestors_opt m (pprev d)" if "m x = Some e" "m y = Some d" "nHeight e = nHeight d" for x y d e
    proof
      assume a: "x \<in> ancestors_opt m (pprev d)"
      from assms that(2) show False
      proof (cases rule: pprev_cases)
        case (child z f)
        with ancestors_height [OF assms child(2), of x] a that show False by simp
      qed (use a in simp)
    qed
    have split: "ancestors m p \<inter> ancestors m q = ancestors_opt m (pprev b) \<inter> ancestors_opt m (pprev c)"
      using out [OF Suc.prems(1,2,3)] out [OF Suc.prems(2,1)] Suc.prems(3) False
      by (simp add: ancestors_step [of m, OF Suc.prems(1)] ancestors_step [of m, OF Suc.prems(2)])
    have step: "common_walk (Suc fuel) m (Some p) (Some q) = common_walk fuel m (pprev b) (pprev c)"
      using False Suc.prems by (simp add: load_def)
    from assms Suc.prems(1) show ?thesis
    proof (cases rule: pprev_cases)
      case root
      with Suc.prems(3) have "pprev c = None" by (cases rule: pprev_cases [OF assms Suc.prems(2)]) auto
      with root step split show ?thesis by simp
    next
      case (child p' b')
      with Suc.prems(3) obtain q' c' where "pprev c = Some q'" "m q' = Some c'" "nHeight b' = nHeight c'"
        by (cases rule: pprev_cases [OF assms Suc.prems(2)]) auto
      with child Suc.IH [of p' b' q' c'] Suc.prems(4) step split show ?thesis by simp
    qed
  qed simp
qed simp

lemma LastCommonAncestor_ok:
  assumes t: "tree_ok m" and p: "m p = Some b" and q: "m q = Some c"
  shows "\<exists>r. LastCommonAncestor m p q = Inr r \<and> ancestors_opt m r = ancestors m p \<inter> ancestors m q"
proof (cases "nHeight b > nHeight c")
  case True
  from up_height [OF t p, of "nHeight b - nHeight c"] True obtain x d where x: "up m (nHeight b - nHeight c) p = Some x"
    "m x = Some d" "nHeight d = nHeight c" by auto
  have "ancestors m p \<inter> ancestors m q = ancestors m x \<inter> ancestors m q"
    using True ancestors_height [OF t q] by (subst ancestors_up [OF t p _ x(1)]) auto
  with common_walk_ok [OF t x(2) q x(3), of "nHeight b + 1"] True x p q show ?thesis
    by (auto simp: LastCommonAncestor_def load_def GetAncestor_up [OF t p])
next
  case False
  show ?thesis
  proof (cases "nHeight c > nHeight b")
    case True
    from up_height [OF t q, of "nHeight c - nHeight b"] True obtain x d where x: "up m (nHeight c - nHeight b) q = Some x"
      "m x = Some d" "nHeight b = nHeight d" by fastforce
    have "ancestors m p \<inter> ancestors m q = ancestors m p \<inter> ancestors m x"
      using True ancestors_height [OF t p] by (subst ancestors_up [OF t q _ x(1)]) auto
    with common_walk_ok [OF t p x(2,3), of "nHeight b + 1"] True x p q show ?thesis
      by (auto simp: LastCommonAncestor_def load_def GetAncestor_up [OF t q])
  next
    case eq: False
    with common_walk_ok [OF t p q, of "nHeight b + 1"] False p q show ?thesis
      by (auto simp: LastCommonAncestor_def load_def)
  qed
qed

section \<open>The active chain\<close>

text \<open>The pointers from the root to an entry, by height.\<close>

definition path_to :: "memory \<Rightarrow> ptr \<Rightarrow> CChain" where
  "path_to m p = (case m p of None \<Rightarrow> [] | Some b \<Rightarrow> map (\<lambda>i. up m (nHeight b - i) p) [0..<Suc (nHeight b)])"

definition chain_ok :: "memory \<Rightarrow> CChain \<Rightarrow> bool" where
  "chain_ok m c \<longleftrightarrow> c = [] \<or> (\<exists>p \<in> dom m. c = path_to m p)"

text \<open>Below an entry that is filled in up to height \<open>n\<close>, the list holds that entry's ancestors.\<close>

definition closed_to :: "memory \<Rightarrow> nat \<Rightarrow> CChain \<Rightarrow> bool" where
  "closed_to m n c \<longleftrightarrow> (\<forall>i q. i < n \<longrightarrow> i < length c \<longrightarrow> c ! i = Some q \<longrightarrow> (\<forall>j \<le> i. c ! j = up m (i - j) q))"

lemma path_to_nth: "m p = Some b \<Longrightarrow> i \<le> nHeight b \<Longrightarrow> path_to m p ! i = up m (nHeight b - i) p"
  by (simp add: path_to_def nth_append del: upt_Suc)

lemma length_path_to: "m p = Some b \<Longrightarrow> length (path_to m p) = Suc (nHeight b)"
  by (simp add: path_to_def)

lemma chain_ok_closed:
  assumes "chain_ok m c"
  shows "closed_to m n c"
proof (cases "c = []")
  case False
  with assms obtain p b where p: "m p = Some b" "c = path_to m p" by (auto simp: chain_ok_def)
  show ?thesis unfolding closed_to_def
  proof (intro allI impI)
    fix i q j
    assume i: "i < length c" and q: "c ! i = Some q" and j: "j \<le> i"
    from i p have le: "i \<le> nHeight b" by (simp add: length_path_to [of m, OF p(1)])
    have "c ! j = up m ((nHeight b - i) + (i - j)) p" using p le j by (simp add: path_to_nth [of m, OF p(1)])
    also have "\<dots> = up m (i - j) q" using q p le by (subst up_add) (simp add: path_to_nth [of m, OF p(1)])
    finally show "c ! j = up m (i - j) q" .
  qed
qed (simp add: closed_to_def)

lemma chain_ok_nth:
  assumes "tree_ok m" "chain_ok m c" "i < length c"
  obtains q b where "c ! i = Some q" "m q = Some b" "nHeight b = i"
proof -
  from assms(2,3) obtain p b where p: "m p = Some b" "c = path_to m p" by (auto simp: chain_ok_def)
  with assms(3) have le: "i \<le> nHeight b" by (simp add: length_path_to [of m, OF p(1)])
  with up_height [OF assms(1) p(1), of "nHeight b - i"] p path_to_nth [of m, OF p(1) le] that show thesis by auto
qed

lemma chain_ok_height:
  assumes "tree_ok m" "chain_ok m c" "i < length c" "c ! i = Some q"
  shows "\<exists>b. m q = Some b \<and> nHeight b = i"
  by (rule chain_ok_nth [OF assms(1-3)]) (use assms(4) in simp)

lemma closed_resize: "closed_to m n c \<Longrightarrow> closed_to m n (resize k c)"
  by (auto simp: closed_to_def resize_def nth_append split: if_splits)

lemma length_resize [simp]: "length (resize n c) = n"
  by (simp add: resize_def)

lemma set_tip_walk_ok:
  assumes "tree_ok m"
  shows "m p = Some b \<Longrightarrow> nHeight b = h \<Longrightarrow> h < length v \<Longrightarrow> h < fuel \<Longrightarrow> closed_to m (Suc h) v \<Longrightarrow>
    \<exists>v'. set_tip_walk fuel m v (Some p) = Inr v' \<and> length v' = length v \<and>
      (\<forall>i. h < i \<longrightarrow> v' ! i = v ! i) \<and> (\<forall>i \<le> h. v' ! i = up m (h - i) p)"
proof (induction h arbitrary: p b v fuel)
  case h: 0
  then obtain f where f: "fuel = Suc f" by (cases fuel) auto
  from assms h(1) have "pprev b = None" by (cases rule: pprev_cases) (use h(2) in auto)
  with h f show ?case by (auto simp: load_def)
next
  case (Suc h)
  then obtain f where f: "fuel = Suc f" by (cases fuel) auto
  show ?case
  proof (cases "v ! Suc h = Some p")
    case True
    with Suc.prems f show ?thesis by (auto simp: load_def closed_to_def)
  next
    case False
    from assms Suc.prems(1) show ?thesis
    proof (cases rule: pprev_cases)
      case (child q c)
      let ?v = "v[Suc h := Some p]"
      have cl: "closed_to m (Suc h) ?v" using Suc.prems(5) unfolding closed_to_def
        by (metis le_trans length_list_update less_SucI nat_neq_iff not_less nth_list_update_neq)
      obtain v' where v': "set_tip_walk f m ?v (Some q) = Inr v'" "length v' = length ?v"
        "\<And>i. h < i \<Longrightarrow> v' ! i = ?v ! i" "\<And>i. i \<le> h \<Longrightarrow> v' ! i = up m (h - i) q"
        using Suc.IH [OF child(2) _ _ _ cl, of f] child(3) Suc.prems(2-4) f by auto
      have up: "up m (Suc h - i) p = v' ! i" if "i \<le> Suc h" for i
        using that v'(3,4) Suc.prems(1,3) child(1) by (cases "i = Suc h") (auto simp: Suc_diff_le)
      have "set_tip_walk fuel m v (Some p) = Inr v'" using f False Suc.prems(1-3) child(1) v'(1) by (simp add: load_def)
      with v' up Suc.prems(3) show ?thesis by auto
    qed (use Suc.prems in simp)
  qed
qed

lemma SetTip_ok:
  assumes "tree_ok m" "chain_ok m c" "m p = Some b"
  shows "SetTip m c (Some p) = Inr (path_to m p)"
proof -
  have "closed_to m (Suc (nHeight b)) (resize (nHeight b + 1) c)" by (intro closed_resize chain_ok_closed assms)
  then obtain v' where v': "set_tip_walk (nHeight b + 2) m (resize (nHeight b + 1) c) (Some p) = Inr v'"
    "length v' = nHeight b + 1" "\<forall>i \<le> nHeight b. v' ! i = up m (nHeight b - i) p"
    using set_tip_walk_ok [OF assms(1,3) refl, of "resize (nHeight b + 1) c" "nHeight b + 2"] by auto
  have "v' = path_to m p"
    using v' by (intro nth_equalityI) (auto simp: length_path_to [of m, OF assms(3)] path_to_nth [of m, OF assms(3)])
  with v'(1) assms(3) show ?thesis by (simp add: SetTip_def load_def)
qed

lemma chain_ok_extend:
  assumes "tree_ok m" "m pnew = None" "chain_ok m c"
  shows "chain_ok (m(pnew \<mapsto> b)) c"
proof (cases "c = []")
  case False
  with assms(3) obtain p d where p: "m p = Some d" "c = path_to m p" by (auto simp: chain_ok_def)
  with assms(2) have "p \<noteq> pnew" by auto
  then have "path_to (m(pnew \<mapsto> b)) p = path_to m p" using p(1) up_fresh [OF assms(1,2) p(1)] by (simp add: path_to_def)
  with p \<open>p \<noteq> pnew\<close> show ?thesis unfolding chain_ok_def by (intro disjI2 bexI [of _ p]) auto
qed (simp add: chain_ok_def)

lemma Contains_ok:
  assumes "tree_ok m" "chain_ok m c" "m p = Some b"
  shows "Contains m c p = Inr (Some p \<in> set c)"
proof -
  have "Some p \<in> set c \<longleftrightarrow> nHeight b < length c \<and> c ! nHeight b = Some p"
  proof
    assume "Some p \<in> set c"
    then obtain i where i: "i < length c" "c ! i = Some p" by (auto simp: in_set_conv_nth)
    with chain_ok_height [OF assms(1,2) i] assms(3) have "i = nHeight b" by simp
    with i show "nHeight b < length c \<and> c ! nHeight b = Some p" by simp
  qed (auto simp: in_set_conv_nth)
  then show ?thesis using assms(3) by (auto simp: Contains_def load_def chain_at_def)
qed

lemma chain_ancestors:
  assumes "tree_ok m" "chain_ok m c" "Some p \<in> set c" "q \<in> ancestors m p"
  shows "Some q \<in> set c"
proof -
  from assms(3) obtain i where i: "i < length c" "c ! i = Some p" by (auto simp: in_set_conv_nth)
  from chain_ok_height [OF assms(1,2) i] obtain b where b: "m p = Some b" "nHeight b = i" by blast
  from ancestors_height [OF assms(1) b(1) assms(4), unfolded b(2)] obtain d :: CBlockIndex where d: "nHeight d \<le> i" "up m (i - nHeight d) p = Some q" by blast
  with chain_ok_closed [OF assms(2), of "Suc i"] i have "c ! nHeight d = Some q" by (auto simp: closed_to_def)
  with d(1) i(1) show ?thesis by (metis nth_mem order_le_less_trans)
qed

lemma fork_walk_ok:
  assumes t: "tree_ok m" and c: "chain_ok m c"
  shows "m p = Some b \<Longrightarrow> nHeight b < fuel \<Longrightarrow>
    \<exists>r. fork_walk fuel m c (Some p) = Inr r \<and> ancestors_opt m r = {q \<in> ancestors m p. Some q \<in> set c}"
proof (induction fuel arbitrary: p b)
  case (Suc fuel)
  show ?case
  proof (cases "Some p \<in> set c")
    case True
    with chain_ancestors [OF t c True] show ?thesis by (auto simp: Contains_ok [OF t c Suc.prems(1)])
  next
    case False
    have step: "fork_walk (Suc fuel) m c (Some p) = fork_walk fuel m c (pprev b)"
      using False Suc.prems(1) by (simp add: Contains_ok [OF t c Suc.prems(1)] load_def)
    have anc: "{q \<in> ancestors m p. Some q \<in> set c} = {q \<in> ancestors_opt m (pprev b). Some q \<in> set c}"
      using False by (auto simp: ancestors_step [of m, OF Suc.prems(1)])
    from t Suc.prems(1) show ?thesis
    proof (cases rule: pprev_cases)
      case root
      with step anc show ?thesis by simp
    next
      case (child q d)
      with Suc.IH [OF child(2)] Suc.prems(2) step anc show ?thesis by simp
    qed
  qed
qed simp

lemma FindFork_ok:
  assumes t: "tree_ok m" and c: "chain_ok m c" and p: "m p = Some b"
  shows "\<exists>r. FindFork m c (Some p) = Inr r \<and> ancestors_opt m r = {q \<in> ancestors m p. Some q \<in> set c}"
proof (cases "int (nHeight b) > Height c")
  case False
  with fork_walk_ok [OF t c p, of "nHeight b + 1"] p show ?thesis by (simp add: FindFork_def load_def)
next
  case True
  show ?thesis
  proof (cases "c = []")
    case True
    with p show ?thesis by (auto simp: FindFork_def load_def Height_def GetAncestor_def)
  next
    case False
    let ?h = "length c - 1"
    from False have h: "Height c = int ?h" by (cases c) (simp_all add: Height_def)
    with True have le: "?h \<le> nHeight b" by simp
    with up_height [OF t p, of "nHeight b - ?h"] obtain x d where x: "up m (nHeight b - ?h) p = Some x" "m x = Some d" "nHeight d = ?h" by auto
    have "nHeight e \<le> ?h" if "m q = Some e" "Some q \<in> set c" for q e
    proof -
      from that(2) obtain i where i: "i < length c" "c ! i = Some q" by (auto simp: in_set_conv_nth)
      with chain_ok_height [OF t c i] that(1) show ?thesis by simp
    qed
    then have "{q \<in> ancestors m x. Some q \<in> set c} = {q \<in> ancestors m p. Some q \<in> set c}"
      using ancestors_height [OF t p] by (subst ancestors_up [OF t p le x(1)]) blast
    with fork_walk_ok [OF t c x(2), of "nHeight b + 1"] x le p True h show ?thesis
      by (simp add: FindFork_def load_def GetAncestor_up [OF t p])
  qed
qed

section \<open>Locators\<close>

text \<open>An entry of a chain reached through the chain's array is the one the skip list finds.\<close>

lemma chain_at_up:
  assumes "tree_ok m" "chain_ok m c" "m p = Some b" "Some p \<in> set c" "h \<le> nHeight b"
  shows "chain_at c (int h) = up m (nHeight b - h) p"
proof -
  from assms(4) obtain i where i: "i < length c" "c ! i = Some p" by (auto simp: in_set_conv_nth)
  with chain_ok_height [OF assms(1,2) i] assms(3) have "i = nHeight b" by simp
  with chain_ok_closed [OF assms(2), of "Suc i"] i assms(5) show ?thesis by (auto simp: closed_to_def chain_at_def)
qed

lemma locator_walk_ok:
  assumes t: "tree_ok m" and c: "chain_ok m c" and names: "\<forall>p b. m p = Some b \<longrightarrow> (\<exists>h. phashBlock b = Some h)"
  shows "m p = Some b \<Longrightarrow> nHeight b < fuel \<Longrightarrow> 0 < nStep \<Longrightarrow>
    \<exists>hs. locator_walk fuel m c (Some p) nStep vHave = Inr (vHave @ hs) \<and> hs \<noteq> [] \<and>
      phashBlock b = Some (hd hs) \<and> (\<exists>q d. up m (nHeight b) p = Some q \<and> m q = Some d \<and> phashBlock d = Some (last hs)) \<and>
      (\<forall>h \<in> set hs. \<exists>q \<in> ancestors m p. \<exists>d. m q = Some d \<and> phashBlock d = Some h)"
proof (induction fuel arbitrary: p b nStep vHave)
  case (Suc fuel)
  obtain h where h: "phashBlock b = Some h" using names Suc.prems(1) by blast
  show ?case
  proof (cases "nHeight b = 0")
    case True
    with h Suc.prems(1) show ?thesis by (intro exI [of _ "[h]"]) (auto simp: load_def intro!: exI [of _ b])
  next
    case False
    let ?k = "nHeight b - nStep"
    let ?n = "if length (vHave @ [h]) > 10 then nStep * 2 else nStep"
    have le: "?k \<le> nHeight b" "nHeight b - ?k \<le> nHeight b" by simp_all
    from up_height [OF t Suc.prems(1) le(2)] obtain q d where
      q: "up m (nHeight b - ?k) p = Some q" "m q = Some d" "nHeight d = ?k" by auto
    have "(if Some p \<in> set c then Inr (chain_at c (int ?k)) else GetAncestor m p (int ?k)) = Inr (Some q)"
      using chain_at_up [OF t c Suc.prems(1) _ le(1)] q(1) by (simp add: GetAncestor_up [OF t Suc.prems(1)])
    then have step: "locator_walk (Suc fuel) m c (Some p) nStep vHave = locator_walk fuel m c (Some q) ?n (vHave @ [h])"
      using False h Suc.prems(1) by (simp add: load_def Contains_ok [OF t c Suc.prems(1)] Let_def)
    have less: "nHeight d < fuel" and nz: "0 < ?n" using q(3) Suc.prems(2,3) False by auto
    obtain hs where hs: "locator_walk fuel m c (Some q) ?n (vHave @ [h]) = Inr ((vHave @ [h]) @ hs)" "hs \<noteq> []"
      "\<exists>r e. up m (nHeight d) q = Some r \<and> m r = Some e \<and> phashBlock e = Some (last hs)"
      "\<forall>h \<in> set hs. \<exists>r \<in> ancestors m q. \<exists>e. m r = Some e \<and> phashBlock e = Some h"
      using Suc.IH [OF q(2) less nz, of "vHave @ [h]"] by blast
    have "up m (nHeight b) p = up m (nHeight d) q" using up_add [of m "nHeight b - ?k" ?k p] q by simp
    moreover have "ancestors m q \<subseteq> ancestors m p" by (rule ancestors_trans) (use q(1) in \<open>auto simp: ancestors_def\<close>)
    moreover have "\<exists>q \<in> ancestors m p. \<exists>d. m q = Some d \<and> phashBlock d = Some h" using h Suc.prems(1) by (intro bexI [of _ p]) auto
    ultimately show ?thesis using step hs h by (intro exI [of _ "h # hs"]) (auto; blast)
  qed
qed simp

end
