(* ===== verification/BlockIndexProps.thy ===== *)
theory BlockIndexProps
  imports BlockTree
begin

text \<open>
  The block index as a state machine: the work of a block, the invariant every header that is added keeps, the states
  adding headers and moving the tip can reach, and the properties of the index in those states.
\<close>

section \<open>The work of a block\<close>

definition block_work :: "u32 \<Rightarrow> nat" where
  "block_work nBits =
     (if cr_negative (SetCompact nBits) \<or> 2 ^ 256 \<le> compact_denotes nBits \<or> compact_denotes nBits = 0 then 0
      else 2 ^ 256 div (compact_denotes nBits + 1))"

lemma EqualTo_0: "bu_wf a \<Longrightarrow> EqualTo a 0 \<longleftrightarrow> bu_val a = 0"
proof -
  assume wf: "bu_wf a"
  then obtain x y zs where a: "pn a = x # y # zs"
    by (metis bu_wf_def WIDTH_def length_Suc_conv numeral_eq_Suc pred_numeral_simps(2,3) semiring_norm(26,27,28))
  have "ucast w = (0 :: u64) \<longleftrightarrow> w = 0" for w :: u32 by (simp add: unat_eq_zero [symmetric] unat_ucast_up)
  moreover have "le_val zs = 0 \<longleftrightarrow> \<not> list_ex (\<lambda>w. w \<noteq> 0) zs" for zs :: "u32 list"
    by (induction zs) (auto simp: le_val_u32_Cons unat_eq_0)
  ultimately show ?thesis by (auto simp: EqualTo_def bu_val_def a le_val_u32_Cons unat_eq_0)
qed

lemma compact_denotes_not_max: "compact_denotes c \<noteq> 2 ^ 256 - 1"
proof
  assume max: "compact_denotes c = 2 ^ 256 - 1"
  have m: "compact_mantissa c < 2 ^ 23" by (simp add: compact_mantissa_def)
  show False
  proof (cases "compact_exponent c \<le> 3")
    case True
    then have "compact_denotes c \<le> compact_mantissa c" by (simp add: compact_denotes_def)
    with m max show False by simp
  next
    case False
    then have "even (compact_denotes c)" by (simp add: compact_denotes_def)
    moreover have "odd ((2 :: nat) ^ 256 - 1)" by simp
    ultimately show False unfolding max by blast
  qed
qed

lemma div_complement:
  assumes "t + 1 \<le> (N :: nat)"
  shows "(N - 1 - t) div (t + 1) + 1 = N div (t + 1)"
proof -
  have "N = (N - 1 - t) + (t + 1)" using assms by simp
  then have "N div (t + 1) = ((N - 1 - t) + (t + 1)) div (t + 1)" by simp
  also have "\<dots> = (N - 1 - t) div (t + 1) + 1" by (simp only: div_add_self2)
  finally show ?thesis by simp
qed

lemma GetBlockProof_val: "\<exists>w. GetBlockProof nBits = Inr w \<and> bu_wf w \<and> bu_val w = block_work nBits"
proof -
  let ?r = "SetCompact nBits"
  let ?t = "cr_value ?r"
  have wf: "bu_wf ?t" and v: "bu_val ?t = compact_denotes nBits mod 2 ^ 256" using SetCompact_value by auto
  show ?thesis
  proof (cases "cr_negative ?r \<or> cr_overflow ?r \<or> EqualTo ?t 0")
    case True
    then have "block_work nBits = 0"
      using EqualTo_0 [OF wf] v by (auto simp: block_work_def compact_overflow_iff)
    with True show ?thesis by (intro exI [of _ bu_zero]) (auto simp: GetBlockProof_def Let_def)
  next
    case False
    then have d: "compact_denotes nBits < 2 ^ 256" "bu_val ?t = compact_denotes nBits"
      using v compact_overflow_iff [of nBits] by auto
    then have nz: "bu_val ?t \<noteq> 0" using False EqualTo_0 [OF wf] by simp
    have lt: "bu_val ?t + 1 < 2 ^ 256" using d compact_denotes_not_max [of nBits] by linarith
    have n: "bu_val (bu_not ?t) = 2 ^ 256 - 1 - bu_val ?t"
      using le_val_not [of "pn ?t"] wf by (simp add: bu_val_def bu_not_def bu_wf_def WIDTH_def)
    have p: "bu_val (bu_add_u64 ?t 1) = bu_val ?t + 1"
      using lt wf by (simp add: bu_add_u64_def bu_val_add)
    obtain q where q: "bu_div (bu_not ?t) (bu_add_u64 ?t 1) = Inr q" "bu_wf q"
      "bu_val q = (2 ^ 256 - 1 - bu_val ?t) div (bu_val ?t + 1)"
      using bu_div_val(2) [of "bu_not ?t" "bu_add_u64 ?t 1"] wf by (auto simp: n p) (auto simp: bu_add_u64_def)
    have w: "bu_val q + 1 = 2 ^ 256 div (bu_val ?t + 1)" unfolding q(3) by (rule div_complement) (use lt in simp)
    have "2 ^ 256 div (bu_val ?t + 1) \<le> 2 ^ 256 div 2" using nz by (intro div_le_mono2) simp_all
    then have b: "bu_val q + 1 < 2 ^ 256" unfolding w by (rule order_le_less_trans) simp
    have "bu_val (bu_add_u64 q 1) = bu_val q + 1" using b q(2) by (simp add: bu_add_u64_def bu_val_add)
    moreover have "block_work nBits = 2 ^ 256 div (bu_val ?t + 1)"
      using False d nz compact_overflow_iff [of nBits] by (simp add: block_work_def)
    ultimately show ?thesis using False q(1,2) w by (intro exI [of _ "bu_add_u64 q 1"]) (auto simp: GetBlockProof_def Let_def bu_add_u64_def)
  qed
qed

section \<open>The invariant of the index\<close>

definition prev_work :: "memory \<Rightarrow> CBlockIndex \<Rightarrow> nat" where
  "prev_work m b = (case pprev b of None \<Rightarrow> 0 | Some q \<Rightarrow> (case m q of None \<Rightarrow> 0 | Some bq \<Rightarrow> bu_val (nChainWork bq)))"

definition work_ok :: "memory \<Rightarrow> CBlockIndex \<Rightarrow> bool" where
  "work_ok m b \<longleftrightarrow> bu_wf (nChainWork b) \<and> bu_val (nChainWork b) = (prev_work m b + block_work (bi_nBits b)) mod 2 ^ 256"

definition named_ok :: "memory \<Rightarrow> (uint256 \<rightharpoonup> ptr option) \<Rightarrow> bool" where
  "named_ok m bmap \<longleftrightarrow>
     (\<forall>p b. m p = Some b \<longrightarrow> (\<exists>h. phashBlock b = Some h \<and> bmap h = Some (Some p))) \<and>
     (\<forall>h p. bmap h = Some (Some p) \<longrightarrow> (\<exists>b. m p = Some b \<and> phashBlock b = Some h))"

definition best_ok :: "memory \<Rightarrow> ptr option \<Rightarrow> bool" where
  "best_ok m best \<longleftrightarrow>
     (case best of
        None \<Rightarrow> m = Map.empty
      | Some bp \<Rightarrow> \<exists>bb. m bp = Some bb \<and> (\<forall>p b. m p = Some b \<longrightarrow> bu_val (nChainWork b) \<le> bu_val (nChainWork bb)))"

definition idx_ok :: "index_state \<Rightarrow> bool" where
  "idx_ok st \<longleftrightarrow>
     tree_ok (mem st) \<and> named_ok (mem st) (mapBlockIndex st) \<and> best_ok (mem st) (pindexBestHeader st) \<and>
     (\<forall>p b. mem st p = Some b \<longrightarrow> work_ok (mem st) b \<and> nStatus b = BLOCK_VALID_TREE)"

lemma idx_okD:
  assumes "idx_ok st"
  shows "tree_ok (mem st)" "named_ok (mem st) (mapBlockIndex st)" "best_ok (mem st) (pindexBestHeader st)"
    "mem st p = Some b \<Longrightarrow> work_ok (mem st) b" "mem st p = Some b \<Longrightarrow> nStatus b = BLOCK_VALID_TREE"
  using assms by (auto simp: idx_ok_def)

definition prev_ptr :: "index_state \<Rightarrow> CBlockHeader \<Rightarrow> ptr option" where
  "prev_ptr st h = (case mapBlockIndex st (bh_hashPrevBlock h) of Some (Some q) \<Rightarrow> Some q | _ \<Rightarrow> None)"

definition names_header :: "CBlockIndex \<Rightarrow> CBlockHeader \<Rightarrow> bool" where
  "names_header b h \<longleftrightarrow>
     phashBlock b = Some (projr (header_GetHash h)) \<and> bi_nVersion b = bh_nVersion h \<and>
     bi_hashMerkleRoot b = bh_hashMerkleRoot h \<and> bi_hashFinalSaplingRoot b = bh_hashFinalSaplingRoot h \<and>
     bi_nTime b = bh_nTime h \<and> bi_nBits b = bh_nBits h \<and> bi_nNonce b = bh_nNonce h \<and> bi_nSolution b = bh_nSolution h"

lemma link_entry_ok:
  assumes st: "idx_ok st" and fresh: "mem st pnew = None"
  shows "\<exists>b. link_entry st h pnew = Inr ((mem st)(pnew \<mapsto> b)) \<and> tree_ok ((mem st)(pnew \<mapsto> b)) \<and>
    names_header b h \<and> pprev b = prev_ptr st h \<and> nStatus b = 0"
proof -
  let ?b = "(index_of_header h)\<lparr>nSequenceId := 0, phashBlock := Some (projr (header_GetHash h))\<rparr>"
  have b: "names_header (?b\<lparr>pprev := x, nHeight := y, pskip := z\<rparr>) h" "names_header (?b\<lparr>pskip := z\<rparr>) h" "names_header ?b h"
    "pskip ?b = None" "nStatus ?b = 0" "pprev ?b = None" "nHeight ?b = 0" for x y z
    by (simp_all add: names_header_def index_of_header_def index_null_def)
  note t = idx_okD(1) [OF st]
  have e: "entry_ok m pnew ?b" for m using b(4,6,7) by (simp add: entry_ok_def del: CBlockIndex.select_convs)
  show ?thesis
  proof (cases "mapBlockIndex st (bh_hashPrevBlock h)")
    case None
    then show ?thesis using tree_ok_extend [OF t fresh e] b
      by (intro exI [of _ ?b]) (simp add: link_entry_def Let_def prev_ptr_def)
  next
    case (Some pp)
    show ?thesis
    proof (cases pp)
      case None
      from BuildSkip_ok [OF t fresh b(4) e] obtain s where
        "BuildSkip ((mem st)(pnew \<mapsto> ?b)) pnew = Inr ((mem st)(pnew \<mapsto> ?b\<lparr>pskip := s\<rparr>))" "tree_ok ((mem st)(pnew \<mapsto> ?b\<lparr>pskip := s\<rparr>))"
        by blast
      then show ?thesis using b Some None
        by (intro exI [of _ "?b\<lparr>pskip := s\<rparr>"]) (simp add: link_entry_def Let_def prev_ptr_def)
    next
      case q: (Some q)
      with idx_okD(2) [OF st] Some obtain bq where bq: "mem st q = Some bq" unfolding named_ok_def by blast
      let ?c = "?b\<lparr>pprev := pp, nHeight := nHeight bq + 1\<rparr>"
      have qn: "q \<noteq> pnew" using bq fresh by auto
      have sc: "pskip ?c = None" by (simp add: index_of_header_def index_null_def)
      have ec: "entry_ok ((mem st)(pnew \<mapsto> ?c)) pnew ?c" using q bq qn sc by (simp add: entry_ok_def)
      from BuildSkip_ok [OF t fresh sc ec] obtain s where
        "BuildSkip ((mem st)(pnew \<mapsto> ?c)) pnew = Inr ((mem st)(pnew \<mapsto> ?c\<lparr>pskip := s\<rparr>))" "tree_ok ((mem st)(pnew \<mapsto> ?c\<lparr>pskip := s\<rparr>))"
        by blast
      then show ?thesis using b Some q bq
        by (intro exI [of _ "?c\<lparr>pskip := s\<rparr>"]) (simp add: link_entry_def Let_def prev_ptr_def load_def)
    qed
  qed
qed

lemma chain_work_ok:
  assumes "tree_ok m" "m p = Some b" "\<And>q bq. pprev b = Some q \<Longrightarrow> m q = Some bq \<Longrightarrow> bu_wf (nChainWork bq)"
  shows "\<exists>w. chain_work m b = Inr w \<and> bu_wf w \<and> bu_val w = (prev_work m b + block_work (bi_nBits b)) mod 2 ^ 256"
proof -
  obtain w where w: "GetBlockProof (bi_nBits b) = Inr w" "bu_wf w" "bu_val w = block_work (bi_nBits b)" using GetBlockProof_val by blast
  from assms(1,2) show ?thesis
  proof (cases rule: pprev_cases)
    case root
    with w show ?thesis by (simp add: chain_work_def prev_work_def bu_val_add)
  next
    case (child q bq)
    with w assms(3) [OF child(1,2)] show ?thesis by (simp add: chain_work_def prev_work_def bu_val_add load_def)
  qed
qed

lemma best_step:
  assumes st: "idx_ok st" and fresh: "mem st pnew = None" and w: "bu_wf (nChainWork b)"
  shows "\<exists>better. better_than ((mem st)(pnew \<mapsto> c)) (pindexBestHeader st) (nChainWork b) = Inr better \<and>
    best_ok ((mem st)(pnew \<mapsto> b)) (if better then Some pnew else pindexBestHeader st)"
proof (cases "pindexBestHeader st")
  case None
  with idx_okD(3) [OF st] have "mem st = Map.empty" by (simp add: best_ok_def)
  with None show ?thesis by (intro exI [of _ True]) (simp add: best_ok_def better_than_def)
next
  case (Some bp)
  with idx_okD(3) [OF st] obtain bb where bb: "mem st bp = Some bb"
    "\<And>p b. mem st p = Some b \<Longrightarrow> bu_val (nChainWork b) \<le> bu_val (nChainWork bb)" by (auto simp: best_ok_def)
  have "bp \<noteq> pnew" using bb(1) fresh by auto
  moreover have "bu_wf (nChainWork bb)" using idx_okD(4) [OF st bb(1)] by (simp add: work_ok_def)
  ultimately have better: "better_than ((mem st)(pnew \<mapsto> c)) (pindexBestHeader st) (nChainWork b) = Inr (bu_val (nChainWork bb) < bu_val (nChainWork b))"
    using Some bb(1) w by (simp add: better_than_def load_def CompareTo_val)
  have "\<forall>p d. ((mem st)(pnew \<mapsto> b)) p = Some d \<longrightarrow> bu_val (nChainWork d) \<le> (if bu_val (nChainWork bb) < bu_val (nChainWork b) then bu_val (nChainWork b) else bu_val (nChainWork bb))"
    by (auto split: if_splits dest: bb(2))
  then have "best_ok ((mem st)(pnew \<mapsto> b)) (if bu_val (nChainWork bb) < bu_val (nChainWork b) then Some pnew else Some bp)"
    using bb(1) \<open>bp \<noteq> pnew\<close> by (cases "bu_val (nChainWork bb) < bu_val (nChainWork b)") (simp_all add: best_ok_def)
  with better Some show ?thesis by auto
qed

lemma AddToBlockIndex_new:
  assumes st: "idx_ok st" and fresh: "mem st pnew = None"
    and new: "\<forall>p. mapBlockIndex st (projr (header_GetHash h)) \<noteq> Some (Some p)"
    and known: "\<not> (mapBlockIndex st (projr (header_GetHash h)) = Some None \<and> mapBlockIndex st (bh_hashPrevBlock h) = Some None)"
  shows "\<exists>b best.
    AddToBlockIndex st h pnew =
      Inr (Some pnew, st\<lparr>mem := (mem st)(pnew \<mapsto> b), mapBlockIndex := (mapBlockIndex st)(projr (header_GetHash h) \<mapsto> Some pnew),
        pindexBestHeader := best, setDirtyBlockIndex := insert pnew (setDirtyBlockIndex st)\<rparr>) \<and>
    tree_ok ((mem st)(pnew \<mapsto> b)) \<and> names_header b h \<and> pprev b = prev_ptr st h \<and> nStatus b = BLOCK_VALID_TREE \<and>
    work_ok ((mem st)(pnew \<mapsto> b)) b \<and> best_ok ((mem st)(pnew \<mapsto> b)) best"
proof -
  obtain b where b: "link_entry st h pnew = Inr ((mem st)(pnew \<mapsto> b))" "tree_ok ((mem st)(pnew \<mapsto> b))"
    "names_header b h" "pprev b = prev_ptr st h" "nStatus b = 0"
    using link_entry_ok [OF st fresh] by blast
  let ?m = "(mem st)(pnew \<mapsto> b)"
  have mp: "?m pnew = Some b" by simp
  from b(2) mp have pn: "pprev b \<noteq> Some pnew" by (cases rule: pprev_cases) auto
  have "bu_wf (nChainWork bq)" if "pprev b = Some q" "?m q = Some bq" for q bq
    using idx_okD(4) [OF st, of q bq] that pn by (auto simp: work_ok_def split: if_splits)
  then obtain w where w: "chain_work ?m b = Inr w" "bu_wf w" "bu_val w = (prev_work ?m b + block_work (bi_nBits b)) mod 2 ^ 256"
    using chain_work_ok [OF b(2) mp] by blast
  define b' where "b' = b\<lparr>nChainWork := w, nStatus := BLOCK_VALID_TREE\<rparr>"
  have f: "nChainWork b' = w" "nStatus b' = BLOCK_VALID_TREE" "same_links b b'" "pprev b' = pprev b" "bi_nBits b' = bi_nBits b"
    "names_header b' h"
    using b(3) by (simp_all add: b'_def same_links_def names_header_def)
  have rv: "RaiseValidity (b\<lparr>nChainWork := w\<rparr>) BLOCK_VALID_TREE = Inr (True, b')" using b(5) by (simp add: RaiseValidity_def b'_def)
  have t: "tree_ok ((mem st)(pnew \<mapsto> b'))"
    using tree_ok_same [OF b(2) mp f(3)] by (simp only: fun_upd_upd)
  have "prev_work ((mem st)(pnew \<mapsto> b')) b' = prev_work ?m b" using pn f(4) by (auto simp: prev_work_def split: option.splits)
  then have wk: "work_ok ((mem st)(pnew \<mapsto> b')) b'" using w(2,3) f by (simp add: work_ok_def)
  obtain better where better: "better_than ?m (pindexBestHeader st) w = Inr better"
    "best_ok ((mem st)(pnew \<mapsto> b')) (if better then Some pnew else pindexBestHeader st)"
    using best_step [OF st fresh, of b' b] f(1) w(2) by auto
  have "AddToBlockIndex st h pnew =
      Inr (Some pnew, st\<lparr>mem := (mem st)(pnew \<mapsto> b'), mapBlockIndex := (mapBlockIndex st)(projr (header_GetHash h) \<mapsto> Some pnew),
        pindexBestHeader := (if better then Some pnew else pindexBestHeader st), setDirtyBlockIndex := insert pnew (setDirtyBlockIndex st)\<rparr>)"
    using new known b(1) w(1) rv better(1)
    by (auto simp: AddToBlockIndex_def Let_def load_def split: option.splits)
  with t f b(4) wk better(2) show ?thesis by metis
qed

lemma named_ok_extend:
  assumes "named_ok m bmap" "m p = None" "\<forall>q. bmap h \<noteq> Some (Some q)" "phashBlock b = Some h"
  shows "named_ok (m(p \<mapsto> b)) (bmap(h \<mapsto> Some p))"
  using assms unfolding named_ok_def by (fastforce split: if_splits)

lemma work_ok_extend:
  assumes "work_ok m c" "m p = None" "entry_ok m q c"
  shows "work_ok (m(p \<mapsto> b)) c"
  using assms by (auto simp: work_ok_def prev_work_def entry_ok_def split: option.splits)

lemma AddToBlockIndex_ok:
  assumes st: "idx_ok st" and fresh: "mem st pnew = None"
  shows "\<exists>r st'. AddToBlockIndex st h pnew = Inr (r, st') \<and> idx_ok st' \<and>
    (mem st' = mem st \<or> (\<exists>b. mem st' = (mem st)(pnew \<mapsto> b)))"
proof -
  let ?hash = "projr (header_GetHash h)"
  consider (old) p where "mapBlockIndex st ?hash = Some (Some p)"
    | (lost) "mapBlockIndex st ?hash = Some None" "mapBlockIndex st (bh_hashPrevBlock h) = Some None"
    | (new) "\<forall>p. mapBlockIndex st ?hash \<noteq> Some (Some p)"
        "\<not> (mapBlockIndex st ?hash = Some None \<and> mapBlockIndex st (bh_hashPrevBlock h) = Some None)"
    by blast
  then show ?thesis
  proof cases
    case new
    obtain b best where b: "AddToBlockIndex st h pnew =
      Inr (Some pnew, st\<lparr>mem := (mem st)(pnew \<mapsto> b), mapBlockIndex := (mapBlockIndex st)(?hash \<mapsto> Some pnew),
        pindexBestHeader := best, setDirtyBlockIndex := insert pnew (setDirtyBlockIndex st)\<rparr>)"
      "tree_ok ((mem st)(pnew \<mapsto> b))" "names_header b h" "nStatus b = BLOCK_VALID_TREE"
      "work_ok ((mem st)(pnew \<mapsto> b)) b" "best_ok ((mem st)(pnew \<mapsto> b)) best"
      using AddToBlockIndex_new [OF st fresh new] by blast
    have "named_ok ((mem st)(pnew \<mapsto> b)) ((mapBlockIndex st)(?hash \<mapsto> Some pnew))"
      using named_ok_extend [OF idx_okD(2) [OF st] fresh new(1)] b(3) by (simp add: names_header_def)
    moreover have "work_ok ((mem st)(pnew \<mapsto> b)) c \<and> nStatus c = BLOCK_VALID_TREE"
      if "((mem st)(pnew \<mapsto> b)) p = Some c" for p c
      using that b(4,5) work_ok_extend [OF idx_okD(4) [OF st] fresh tree_okD [OF idx_okD(1) [OF st]]] idx_okD(5) [OF st]
      by (cases "p = pnew") auto
    ultimately have "idx_ok (st\<lparr>mem := (mem st)(pnew \<mapsto> b), mapBlockIndex := (mapBlockIndex st)(?hash \<mapsto> Some pnew),
        pindexBestHeader := best, setDirtyBlockIndex := insert pnew (setDirtyBlockIndex st)\<rparr>)"
      using b by (simp add: idx_ok_def)
    with b(1) show ?thesis by auto
  qed (use st in \<open>auto simp: AddToBlockIndex_def Let_def\<close>)
qed

section \<open>Reachable states of the index\<close>

text \<open>
  Headers are added at addresses the allocator returns, lookups through \<open>operator[]\<close> may leave null
  pointers in the map, and the tip of the active chain is moved from one entry to another.
\<close>

inductive index_reach :: "index_state \<Rightarrow> CChain \<Rightarrow> bool" where
  init: "index_reach index_init []"
| add: "index_reach st c \<Longrightarrow> mem st pnew = None \<Longrightarrow> AddToBlockIndex st h pnew = Inr (r, st') \<Longrightarrow> index_reach st' c"
| touch: "index_reach st c \<Longrightarrow> index_reach (index_touch st h) c"
| tip: "index_reach st c \<Longrightarrow> set_option pindex \<subseteq> dom (mem st) \<Longrightarrow> SetTip (mem st) c pindex = Inr c' \<Longrightarrow> index_reach st c'"

lemma named_ok_touch:
  assumes "named_ok m bmap" "bmap h = None"
  shows "named_ok m (bmap(h \<mapsto> None))"
  unfolding named_ok_def
proof (intro conjI allI impI)
  fix p b
  assume "m p = Some b"
  with assms(1) obtain g where g: "phashBlock b = Some g" "bmap g = Some (Some p)" unfolding named_ok_def by blast
  with assms(2) have "g \<noteq> h" by auto
  with g show "\<exists>g. phashBlock b = Some g \<and> (bmap(h \<mapsto> None)) g = Some (Some p)" by auto
next
  fix g p
  assume "(bmap(h \<mapsto> None)) g = Some (Some p)"
  with assms(1) show "\<exists>b. m p = Some b \<and> phashBlock b = Some g" unfolding named_ok_def by (simp split: if_splits)
qed

lemma index_reach_ok: "index_reach st c \<Longrightarrow> idx_ok st \<and> chain_ok (mem st) c"
proof (induction rule: index_reach.induct)
  case init
  show ?case by (simp add: idx_ok_def index_init_def tree_ok_def named_ok_def best_ok_def chain_ok_def)
next
  case (add st c pnew h r st')
  from AddToBlockIndex_ok [of st pnew h] add have "idx_ok st'" "mem st' = mem st \<or> (\<exists>b. mem st' = (mem st)(pnew \<mapsto> b))" by auto
  moreover have "chain_ok ((mem st)(pnew \<mapsto> b)) c" for b
    using add by (intro chain_ok_extend idx_okD(1)) auto
  ultimately show ?case using add.IH by auto
next
  case (touch st c h)
  then show ?case by (auto simp: idx_ok_def index_touch_def intro: named_ok_touch)
next
  case (tip st c pindex c')
  then show ?case
  proof (cases pindex)
    case (Some p)
    with tip.hyps(2) obtain b where p: "mem st p = Some b" by auto
    with SetTip_ok [OF idx_okD(1) _ p] tip Some show ?thesis by (auto simp: chain_ok_def)
  qed (auto simp: SetTip_def chain_ok_def)
qed

text \<open>The work of an entry's whole chain.\<close>

definition path_work :: "memory \<Rightarrow> nat \<Rightarrow> ptr \<Rightarrow> nat" where
  "path_work m n p =
     (\<Sum>k\<le>n. case up m k p of None \<Rightarrow> 0 | Some q \<Rightarrow> (case m q of None \<Rightarrow> 0 | Some b \<Rightarrow> block_work (bi_nBits b)))"

lemma path_work_Suc:
  assumes "m p = Some b" "pprev b = Some q"
  shows "path_work m (Suc n) p = block_work (bi_nBits b) + path_work m n q"
  using assms by (simp add: path_work_def sum.atMost_Suc_shift del: sum.atMost_Suc)

lemma chain_work_sum:
  assumes t: "tree_ok m" and w: "\<And>p b. m p = Some b \<Longrightarrow> work_ok m b"
  shows "m p = Some b \<Longrightarrow> nHeight b = n \<Longrightarrow> bu_val (nChainWork b) = path_work m n p mod 2 ^ 256"
proof (induction n arbitrary: p b)
  case 0
  from t 0(1) have "pprev b = None" by (cases rule: pprev_cases) (use 0(2) in auto)
  with w [OF 0(1)] 0(1) show ?case by (simp add: work_ok_def prev_work_def path_work_def)
next
  case (Suc n)
  from t Suc.prems(1) show ?case
  proof (cases rule: pprev_cases)
    case (child q bq)
    have "bu_val (nChainWork b) = (bu_val (nChainWork bq) + block_work (bi_nBits b)) mod 2 ^ 256"
      using w [OF Suc.prems(1)] child by (simp add: work_ok_def prev_work_def)
    also have "bu_val (nChainWork bq) = path_work m n q mod 2 ^ 256"
      using Suc.IH [OF child(2)] child(3) Suc.prems(2) by simp
    also have "(path_work m n q mod 2 ^ 256 + block_work (bi_nBits b)) mod 2 ^ 256 = path_work m (Suc n) p mod 2 ^ 256"
      unfolding path_work_Suc [of m, OF Suc.prems(1) child(1)] by (simp only: mod_add_left_eq) (simp only: add.commute)
    finally show ?thesis .
  qed (use Suc.prems in simp)
qed

lemma FindForkInGlobalIndex_ok:
  assumes t: "tree_ok (mem st)" and c: "chain_ok (mem st) c" and names: "named_ok (mem st) (mapBlockIndex st)"
  shows "\<exists>r. FindForkInGlobalIndex st c vHave = Inr r \<and> (if c = [] then r = None else \<exists>q. r = Some q \<and> Some q \<in> set c)"
proof (induction vHave)
  case Nil
  show ?case
  proof (cases "c = []")
    case False
    then have "0 < length c" by simp
    from chain_ok_nth [OF t c this] obtain q where q: "c ! 0 = Some q" by metis
    with nth_mem [OF \<open>0 < length c\<close>] False show ?thesis by (simp add: Genesis_def)
  qed (simp add: Genesis_def)
next
  case (Cons h vHave)
  show ?case
  proof (cases "\<exists>p. mapBlockIndex st h = Some (Some p)")
    case True
    then obtain p b where p: "mapBlockIndex st h = Some (Some p)" "mem st p = Some b" using names unfolding named_ok_def by blast
    have tip: "if c = [] then Tip c = None else \<exists>q. Tip c = Some q \<and> Some q \<in> set c"
    proof (cases "c = []")
      case False
      then have "length c - 1 < length c" by simp
      from chain_ok_nth [OF t c this] obtain q where q: "c ! (length c - 1) = Some q" by metis
      have "Some q \<in> set c" using nth_mem [OF \<open>length c - 1 < length c\<close>] unfolding q .
      with q False show ?thesis by (simp add: Tip_def)
    qed (simp add: Tip_def)
    show ?thesis using p Cons.IH tip
      by (auto simp: Contains_ok [OF t c p(2)] GetAncestor_up [OF t p(2)] split: if_splits)
  next
    case False
    with Cons.IH show ?thesis by (auto split: option.splits)
  qed
qed

section \<open>A first block\<close>

definition root_entry :: CBlockIndex where
  "root_entry = (index_of_header header_null)
     \<lparr>phashBlock := Some (projr (header_GetHash header_null)), nChainWork := bu_add bu_zero bu_zero, nStatus := BLOCK_VALID_TREE\<rparr>"

definition root_state :: index_state where
  "root_state = \<lparr>mem = [7 \<mapsto> root_entry], mapBlockIndex = [projr (header_GetHash header_null) \<mapsto> Some 7],
     pindexBestHeader = Some 7, setDirtyBlockIndex = {7}\<rparr>"

lemma GetBlockProof_0: "GetBlockProof 0 = Inr bu_zero"
  using SetCompact_value [of 0]
  by (simp add: GetBlockProof_def Let_def EqualTo_0 compact_denotes_def compact_mantissa_def)

lemma AddToBlockIndex_root: "AddToBlockIndex index_init header_null 7 = Inr (Some 7, root_state)"
proof -
  have bits: "bh_nBits header_null = 0" by (simp add: header_null_def)
  show ?thesis
    by (simp add: AddToBlockIndex_def index_init_def link_entry_def Let_def load_def chain_work_def index_of_header_def index_null_def
        RaiseValidity_def better_than_def bits GetBlockProof_0 root_state_def root_entry_def)
qed

lemma root_state_reach: "index_reach root_state []"
  by (rule index_reach.add [OF index_reach.init _ AddToBlockIndex_root]) (simp add: index_init_def)

lemma root_state_mem: "mem root_state 7 = Some root_entry" "nHeight root_entry = 0" "pprev root_entry = None"
  by (simp_all add: root_state_def root_entry_def index_of_header_def index_null_def)

section \<open>Properties\<close>

text \<open>
  C7. The block index is sound. In every state that adding headers, touching the map and moving the tip can
  reach: adding a header runs without a failing assertion or a bad pointer; every entry is found under its
  hash and under no other; an entry's accumulated work is the sum of the work of its ancestors and itself,
  modulo \<open>2 ^ 256\<close>; and no entry has more work than the best header.
\<close>

theorem block_index_sound:
  assumes reach: "index_reach st c" and fresh: "mem st pnew = None" and p: "mem st p = Some b"
  shows "(\<exists>r st'. AddToBlockIndex st h pnew = Inr (r, st')) \<and>
    (\<exists>g. phashBlock b = Some g \<and> (\<forall>k. mapBlockIndex st k = Some (Some p) \<longleftrightarrow> k = g)) \<and>
    bu_val (nChainWork b) = path_work (mem st) (nHeight b) p mod 2 ^ 256 \<and>
    (\<exists>best bb. pindexBestHeader st = Some best \<and> mem st best = Some bb \<and> bu_val (nChainWork b) \<le> bu_val (nChainWork bb))"
proof (intro conjI)
  have ok: "idx_ok st" using index_reach_ok [OF reach] by blast
  show "\<exists>r st'. AddToBlockIndex st h pnew = Inr (r, st')" using AddToBlockIndex_ok [OF ok fresh] by blast
  show "bu_val (nChainWork b) = path_work (mem st) (nHeight b) p mod 2 ^ 256"
    by (rule chain_work_sum [OF idx_okD(1,4) [OF ok] p refl])
  show "\<exists>best bb. pindexBestHeader st = Some best \<and> mem st best = Some bb \<and> bu_val (nChainWork b) \<le> bu_val (nChainWork bb)"
    using idx_okD(3) [OF ok] p by (auto simp: best_ok_def split: option.splits)
  from idx_okD(2) [OF ok] p obtain g where g: "phashBlock b = Some g" "mapBlockIndex st g = Some (Some p)"
    unfolding named_ok_def by blast
  moreover have "k = g" if "mapBlockIndex st k = Some (Some p)" for k
    using idx_okD(2) [OF ok] that p g(1) unfolding named_ok_def by fastforce
  ultimately show "\<exists>g. phashBlock b = Some g \<and> (\<forall>k. mapBlockIndex st k = Some (Some p) \<longleftrightarrow> k = g)" by blast
qed

theorem block_index_sound_witness:
  "index_reach root_state [] \<and> mem root_state 8 = None \<and> mem root_state 7 = Some root_entry \<and>
   (\<exists>r st'. AddToBlockIndex root_state header_null 8 = Inr (r, st')) \<and>
   bu_val (nChainWork root_entry) = path_work (mem root_state) (nHeight root_entry) 7 mod 2 ^ 256"
  using block_index_sound [OF root_state_reach _ root_state_mem(1), of 8 header_null] root_state_reach root_state_mem(1)
  by (simp add: root_state_def)

text \<open>
  C20. The skip list is exact: in every reachable state \<open>GetAncestor\<close> returns, without a failing assertion
  or a bad pointer, the entry that following \<open>pprev\<close> down to the height reaches, and null just if the height is
  negative or above the entry's own.
\<close>

theorem GetAncestor_exact:
  assumes "index_reach st c" "mem st p = Some b"
  shows "GetAncestor (mem st) p height =
     Inr (if 0 \<le> height \<and> height \<le> int (nHeight b) then up (mem st) (nHeight b - nat height) p else None) \<and>
   (0 \<le> height \<and> height \<le> int (nHeight b) \<longrightarrow>
     (\<exists>q a. GetAncestor (mem st) p height = Inr (Some q) \<and> mem st q = Some a \<and> int (nHeight a) = height))"
proof -
  have t: "tree_ok (mem st)" using index_reach_ok [OF assms(1)] idx_okD(1) by blast
  have "\<exists>q a. up (mem st) (nHeight b - nat height) p = Some q \<and> mem st q = Some a \<and> int (nHeight a) = height"
    if "0 \<le> height" "height \<le> int (nHeight b)"
    using up_height [OF t assms(2), of "nHeight b - nat height"] that by fastforce
  then show ?thesis by (auto simp: GetAncestor_up [OF t assms(2)])
qed

theorem GetAncestor_exact_witness:
  "index_reach root_state [] \<and> mem root_state 7 = Some root_entry \<and>
   GetAncestor (mem root_state) 7 0 = Inr (Some 7) \<and> GetAncestor (mem root_state) 7 1 = Inr None \<and>
   GetAncestor (mem root_state) 7 (- 1) = Inr None"
  using GetAncestor_exact [OF root_state_reach root_state_mem(1), of 0] GetAncestor_exact [OF root_state_reach root_state_mem(1), of 1]
    GetAncestor_exact [OF root_state_reach root_state_mem(1), of "- 1"] root_state_reach root_state_mem
  by simp

text \<open>
  C19. The active chain is what its tip says: moving the tip to an entry always succeeds and makes the chain the list
  of that entry's ancestors by height, whatever chain was active before; and the fork point found for an
  entry is its last ancestor on the chain, so that the ancestors of the entry on the chain are exactly the
  ancestors of the fork point.
\<close>

theorem active_chain_exact:
  assumes "index_reach st c" "mem st p = Some b"
  shows "SetTip (mem st) c (Some p) = Inr (map (\<lambda>h. up (mem st) (nHeight b - h) p) [0..<nHeight b + 1]) \<and>
   (\<exists>r. FindFork (mem st) c (Some p) = Inr r \<and>
     ancestors_opt (mem st) r = {q \<in> ancestors (mem st) p. Some q \<in> set c})"
proof -
  have t: "tree_ok (mem st)" and c: "chain_ok (mem st) c" using index_reach_ok [OF assms(1)] idx_okD(1) by blast+
  show ?thesis using SetTip_ok [OF t c assms(2)] FindFork_ok [OF t c assms(2)] assms(2) by (simp add: path_to_def)
qed

theorem active_chain_exact_witness:
  "index_reach root_state [] \<and> mem root_state 7 = Some root_entry \<and> SetTip (mem root_state) [] (Some 7) = Inr [Some 7] \<and>
   (\<exists>r. FindFork (mem root_state) [] (Some 7) = Inr r \<and> ancestors_opt (mem root_state) r = {})"
  using active_chain_exact [OF root_state_reach root_state_mem(1)] root_state_reach root_state_mem by simp

text \<open>
  C21. \<open>LastCommonAncestor\<close> returns for any two entries, without a failing assertion, an entry whose ancestors
  are exactly the common ancestors of the two, and null if there are none.
\<close>

theorem LastCommonAncestor_exact:
  assumes "index_reach st c" "mem st p = Some b" "mem st q = Some d"
  shows "\<exists>r. LastCommonAncestor (mem st) p q = Inr r \<and> ancestors_opt (mem st) r = ancestors (mem st) p \<inter> ancestors (mem st) q"
  using LastCommonAncestor_ok [OF _ assms(2,3)] index_reach_ok [OF assms(1)] idx_okD(1) by blast

theorem LastCommonAncestor_exact_witness:
  "index_reach root_state [] \<and> mem root_state 7 = Some root_entry \<and>
   (\<exists>r. LastCommonAncestor (mem root_state) 7 7 = Inr r \<and> ancestors_opt (mem root_state) r = ancestors (mem root_state) 7)"
  using LastCommonAncestor_exact [OF root_state_reach root_state_mem(1,1)] root_state_reach root_state_mem by simp

text \<open>
  The work of a block is \<open>2 ^ 256\<close> divided by one more than its target, computed without representing
  \<open>2 ^ 256\<close>; it is zero just for targets that are negative, too large or zero, and the division never fails.
\<close>

theorem GetBlockProof_exact:
  "\<exists>w. GetBlockProof nBits = Inr w \<and> bu_wf w \<and>
     bu_val w = (if cr_negative (SetCompact nBits) \<or> 2 ^ 256 \<le> compact_denotes nBits \<or> compact_denotes nBits = 0 then 0
                 else 2 ^ 256 div (compact_denotes nBits + 1))"
  using GetBlockProof_val [of nBits] by (simp add: block_work_def)

text \<open>
  C38. A locator starts at the entry it is made for, ends at the first block below it, and lists hashes of
  ancestors of the entry only; making it always ends. Whatever locator a peer sends, the search for it ends at
  an entry of the active chain, and fails only while that chain is empty.
\<close>

theorem GetLocator_spans:
  assumes "index_reach st c" "mem st p = Some b"
  shows "\<exists>hs q d. GetLocator (mem st) c (Some p) = Inr hs \<and> hs \<noteq> [] \<and> phashBlock b = Some (hd hs) \<and>
    up (mem st) (nHeight b) p = Some q \<and> mem st q = Some d \<and> phashBlock d = Some (last hs) \<and>
    set hs \<subseteq> {h. \<exists>q \<in> ancestors (mem st) p. \<exists>d. mem st q = Some d \<and> phashBlock d = Some h} \<and>
    (\<exists>r. FindForkInGlobalIndex st c vHave = Inr r \<and> (if c = [] then r = None else \<exists>q. r = Some q \<and> Some q \<in> set c))"
proof -
  have ok: "idx_ok st" and c: "chain_ok (mem st) c" using index_reach_ok [OF assms(1)] by blast+
  have names: "\<forall>p b. mem st p = Some b \<longrightarrow> (\<exists>h. phashBlock b = Some h)"
    using idx_okD(2) [OF ok] unfolding named_ok_def by blast
  from locator_walk_ok [OF idx_okD(1) [OF ok] c names assms(2), where fuel = "nHeight b + 1" and nStep = 1 and vHave = "[]"] assms(2)
    FindForkInGlobalIndex_ok [OF idx_okD(1) [OF ok] c idx_okD(2) [OF ok], of vHave] show ?thesis
    by (auto simp: GetLocator_def load_def subset_iff simp del: locator_walk.simps FindForkInGlobalIndex.simps)
qed

theorem GetLocator_spans_witness:
  "index_reach root_state [] \<and> mem root_state 7 = Some root_entry \<and>
   (\<exists>hs. GetLocator (mem root_state) [] (Some 7) = Inr hs \<and> hd hs = last hs)"
  using GetLocator_spans [OF root_state_reach root_state_mem(1), of "[]"] root_state_reach root_state_mem by auto

end
