(* ===== verification/Upgrades.thy ===== *)
theory Upgrades
  imports Prelude
begin

text \<open>
  The schedule of network upgrades (\<^verbatim>\<open>src/consensus/upgrades.cpp\<close>, \<^verbatim>\<open>src/consensus/params.h\<close>) and the
  object that collects the outcome of a validation (\<open>CValidationState\<close> of \<^verbatim>\<open>src/consensus/validation.h\<close>).
  An upgrade is its index; a failing assertion is an error value.
\<close>

section \<open>Network upgrades\<close>

abbreviation BASE_SPROUT :: nat where "BASE_SPROUT \<equiv> 0"
abbreviation UPGRADE_TESTDUMMY :: nat where "UPGRADE_TESTDUMMY \<equiv> Suc 0"
abbreviation UPGRADE_OVERWINTER :: nat where "UPGRADE_OVERWINTER \<equiv> 2"
abbreviation UPGRADE_SAPLING :: nat where "UPGRADE_SAPLING \<equiv> 3"
abbreviation MAX_NETWORK_UPGRADES :: nat where "MAX_NETWORK_UPGRADES \<equiv> 4"
abbreviation NO_ACTIVATION_HEIGHT :: int where "NO_ACTIVATION_HEIGHT \<equiv> - 1"
abbreviation NSPV_BRANCHID :: u32 where "NSPV_BRANCHID \<equiv> 0x76b809bb"

record NetworkUpgrade =
  nProtocolVersion :: int
  nActivationHeight :: int

text \<open>Of the consensus parameters, those that the models here read.\<close>

record Params =
  fCoinbaseMustBeProtected :: bool
  vUpgrades :: "NetworkUpgrade list"

datatype UpgradeState = UPGRADE_DISABLED | UPGRADE_PENDING | UPGRADE_ACTIVE

datatype upgrade_error = AssertHeight | AssertIndex

definition nBranchIds :: "u32 list" where
  "nBranchIds = [0, 0x74736554, 0x5ba81b19, 0x76b809bb]"

definition NetworkUpgradeState :: "int \<Rightarrow> Params \<Rightarrow> nat \<Rightarrow> upgrade_error + UpgradeState" where
  "NetworkUpgradeState h params idx =
     (if h < 0 then Inl AssertHeight
      else if idx \<ge> MAX_NETWORK_UPGRADES \<or> idx \<ge> length (vUpgrades params) then Inl AssertIndex
      else Inr (let height = nActivationHeight (vUpgrades params ! idx)
                in if height = NO_ACTIVATION_HEIGHT then UPGRADE_DISABLED
                   else if h \<ge> height then UPGRADE_ACTIVE else UPGRADE_PENDING))"

definition NetworkUpgradeActive :: "int \<Rightarrow> Params \<Rightarrow> nat \<Rightarrow> upgrade_error + bool" where
  "NetworkUpgradeActive h params idx = res_bind (NetworkUpgradeState h params idx) (\<lambda>s. Inr (s = UPGRADE_ACTIVE))"

text \<open>The loop of \<open>CurrentEpoch\<close> runs down from the last upgrade.\<close>

fun epoch_from :: "int \<Rightarrow> Params \<Rightarrow> nat \<Rightarrow> upgrade_error + nat" where
  "epoch_from h params 0 = Inr BASE_SPROUT"
| "epoch_from h params (Suc idx) =
     res_bind (NetworkUpgradeActive h params idx) (\<lambda>active. if active then Inr idx else epoch_from h params idx)"

definition CurrentEpoch :: "int \<Rightarrow> Params \<Rightarrow> upgrade_error + nat" where
  "CurrentEpoch h params = epoch_from h params MAX_NETWORK_UPGRADES"

text \<open>\<open>superlite\<close> is whether the node runs as a light client.\<close>

definition CurrentEpochBranchId :: "bool \<Rightarrow> int \<Rightarrow> Params \<Rightarrow> upgrade_error + u32" where
  "CurrentEpochBranchId superlite h params =
     (if superlite then Inr NSPV_BRANCHID else res_bind (CurrentEpoch h params) (\<lambda>e. Inr (nBranchIds ! e)))"

definition IsConsensusBranchId :: "u32 \<Rightarrow> bool" where
  "IsConsensusBranchId branchId \<longleftrightarrow> branchId \<in> set nBranchIds"

definition IsActivationHeight :: "int \<Rightarrow> Params \<Rightarrow> nat \<Rightarrow> upgrade_error + bool" where
  "IsActivationHeight h params idx =
     (if idx \<ge> MAX_NETWORK_UPGRADES \<or> idx \<ge> length (vUpgrades params) then Inl AssertIndex
      else Inr (idx \<noteq> BASE_SPROUT \<and> h \<ge> 0 \<and> h = nActivationHeight (vUpgrades params ! idx)))"

definition IsActivationHeightForAnyUpgrade :: "int \<Rightarrow> Params \<Rightarrow> bool" where
  "IsActivationHeightForAnyUpgrade h params \<longleftrightarrow>
     h \<ge> 0 \<and> (\<exists>idx\<in>set [BASE_SPROUT + 1..<MAX_NETWORK_UPGRADES]. h = nActivationHeight (vUpgrades params ! idx))"

text \<open>The loop of \<open>NextEpoch\<close> over the indices from \<open>idx\<close> on.\<close>

fun first_pending :: "int \<Rightarrow> Params \<Rightarrow> nat list \<Rightarrow> upgrade_error + nat option" where
  "first_pending h params [] = Inr None"
| "first_pending h params (idx # is) =
     res_bind (NetworkUpgradeState h params idx) (\<lambda>s. if s = UPGRADE_PENDING then Inr (Some idx) else first_pending h params is)"

definition NextEpoch :: "int \<Rightarrow> Params \<Rightarrow> upgrade_error + nat option" where
  "NextEpoch h params = (if h < 0 then Inr None else first_pending h params [BASE_SPROUT + 1..<MAX_NETWORK_UPGRADES])"

definition NextActivationHeight :: "int \<Rightarrow> Params \<Rightarrow> upgrade_error + int option" where
  "NextActivationHeight h params =
     res_bind (NextEpoch h params) (\<lambda>e. Inr (map_option (\<lambda>idx. nActivationHeight (vUpgrades params ! idx)) e))"

section \<open>The outcome of a validation\<close>

datatype mode_state = MODE_VALID | MODE_INVALID | MODE_ERROR

record CValidationState =
  mode :: mode_state
  nDoS :: int
  strRejectReason :: string
  chRejectCode :: u8
  corruptionPossible :: bool

abbreviation REJECT_INVALID :: u8 where "REJECT_INVALID \<equiv> 0x10"

definition state_new :: CValidationState where
  "state_new = \<lparr>mode = MODE_VALID, nDoS = 0, strRejectReason = [], chRejectCode = 0, corruptionPossible = False\<rparr>"

definition state_DoS :: "CValidationState \<Rightarrow> int \<Rightarrow> bool \<Rightarrow> u8 \<Rightarrow> string \<Rightarrow> bool \<Rightarrow> bool \<times> CValidationState" where
  "state_DoS s level ret code reason corruption =
     (let s = s\<lparr>chRejectCode := code, strRejectReason := reason, corruptionPossible := corruption\<rparr>
      in if mode s = MODE_ERROR then (ret, s) else (ret, s\<lparr>nDoS := nDoS s + level, mode := MODE_INVALID\<rparr>))"

definition state_Invalid :: "CValidationState \<Rightarrow> bool \<Rightarrow> u8 \<Rightarrow> string \<Rightarrow> bool \<times> CValidationState" where
  "state_Invalid s ret code reason = state_DoS s 0 ret code reason False"

definition state_Error :: "CValidationState \<Rightarrow> string \<Rightarrow> bool \<times> CValidationState" where
  "state_Error s reason =
     (False, (if mode s = MODE_VALID then s\<lparr>strRejectReason := reason\<rparr> else s)\<lparr>mode := MODE_ERROR\<rparr>)"

definition state_IsValid :: "CValidationState \<Rightarrow> bool" where
  "state_IsValid s \<longleftrightarrow> mode s = MODE_VALID"

definition state_IsInvalid :: "CValidationState \<Rightarrow> int option" where
  "state_IsInvalid s = (if mode s = MODE_INVALID then Some (nDoS s) else None)"

definition state_IsError :: "CValidationState \<Rightarrow> bool" where
  "state_IsError s \<longleftrightarrow> mode s = MODE_ERROR"

section \<open>What the schedule means\<close>

definition upgrade_active :: "Params \<Rightarrow> nat \<Rightarrow> int \<Rightarrow> bool" where
  "upgrade_active params idx h \<longleftrightarrow>
     nActivationHeight (vUpgrades params ! idx) \<noteq> NO_ACTIVATION_HEIGHT \<and> nActivationHeight (vUpgrades params ! idx) \<le> h"

lemma NetworkUpgradeActive_eq:
  "0 \<le> h \<Longrightarrow> length (vUpgrades params) = MAX_NETWORK_UPGRADES \<Longrightarrow> idx < MAX_NETWORK_UPGRADES \<Longrightarrow>
    NetworkUpgradeActive h params idx = Inr (upgrade_active params idx h)"
  by (auto simp: NetworkUpgradeActive_def NetworkUpgradeState_def upgrade_active_def Let_def)

lemma epoch_from_eq:
  "0 \<le> h \<Longrightarrow> length (vUpgrades params) = MAX_NETWORK_UPGRADES \<Longrightarrow> n \<le> MAX_NETWORK_UPGRADES \<Longrightarrow>
    \<exists>e. epoch_from h params n = Inr e \<and> (\<forall>i. e < i \<and> i < n \<longrightarrow> \<not> upgrade_active params i h) \<and> (e = 0 \<or> e < n \<and> upgrade_active params e h)"
proof (induction n)
  case (Suc n)
  then obtain e where e: "epoch_from h params n = Inr e" "\<forall>i. e < i \<and> i < n \<longrightarrow> \<not> upgrade_active params i h"
    "e = 0 \<or> e < n \<and> upgrade_active params e h" by auto
  have a: "NetworkUpgradeActive h params n = Inr (upgrade_active params n h)" using Suc.prems by (intro NetworkUpgradeActive_eq) simp_all
  show ?case
  proof (cases "upgrade_active params n h")
    case True
    then show ?thesis by (auto simp: a)
  next
    case False
    with e show ?thesis by (auto simp: a less_Suc_eq)
  qed
qed simp

lemma CurrentEpoch_iff:
  assumes "0 \<le> h" "length (vUpgrades params) = MAX_NETWORK_UPGRADES"
  shows "CurrentEpoch h params = Inr e \<longleftrightarrow>
    e < MAX_NETWORK_UPGRADES \<and> (e = 0 \<or> upgrade_active params e h) \<and> (\<forall>i. e < i \<and> i < MAX_NETWORK_UPGRADES \<longrightarrow> \<not> upgrade_active params i h)"
proof -
  obtain d where d: "CurrentEpoch h params = Inr d" "\<forall>i. d < i \<and> i < MAX_NETWORK_UPGRADES \<longrightarrow> \<not> upgrade_active params i h"
    "d = 0 \<or> d < MAX_NETWORK_UPGRADES \<and> upgrade_active params d h"
    using epoch_from_eq [OF assms, of MAX_NETWORK_UPGRADES] by (auto simp: CurrentEpoch_def)
  show ?thesis using d by (auto dest: nat_neq_iff [THEN iffD1])
qed

lemma epoch_exists:
  assumes "0 \<le> h" "length (vUpgrades params) = MAX_NETWORK_UPGRADES"
  obtains e where "CurrentEpoch h params = Inr e" "e < MAX_NETWORK_UPGRADES"
  using epoch_from_eq [OF assms, of MAX_NETWORK_UPGRADES] by (auto simp: CurrentEpoch_def)

lemma branch_ids_distinct: "i < MAX_NETWORK_UPGRADES \<Longrightarrow> j < MAX_NETWORK_UPGRADES \<Longrightarrow> nBranchIds ! i = nBranchIds ! j \<longleftrightarrow> i = j"
  using nth_eq_iff_index_eq [of nBranchIds i j] by (simp add: nBranchIds_def)

lemma first_pending_exact:
  "0 \<le> h \<Longrightarrow> length (vUpgrades params) = MAX_NETWORK_UPGRADES \<Longrightarrow> \<forall>i\<in>set is. i < MAX_NETWORK_UPGRADES \<Longrightarrow>
    \<exists>r. first_pending h params is = Inr r \<and> (r = None \<longrightarrow> (\<forall>i\<in>set is. \<not> h < nActivationHeight (vUpgrades params ! i))) \<and>
      (\<forall>i. r = Some i \<longrightarrow> i \<in> set is \<and> h < nActivationHeight (vUpgrades params ! i))"
  by (induction "is") (auto simp: NetworkUpgradeState_def Let_def)

lemma next_activation:
  assumes "0 \<le> h" "length (vUpgrades params) = MAX_NETWORK_UPGRADES"
  shows "\<exists>r. NextActivationHeight h params = Inr r \<and> (\<forall>n. r = Some n \<longrightarrow> h < n \<and> IsActivationHeightForAnyUpgrade n params) \<and>
      (r = None \<longrightarrow> (\<forall>n>h. \<not> IsActivationHeightForAnyUpgrade n params))"
proof -
  obtain r where r: "first_pending h params [BASE_SPROUT + 1..<MAX_NETWORK_UPGRADES] = Inr r"
    "r = None \<longrightarrow> (\<forall>i\<in>set [BASE_SPROUT + 1..<MAX_NETWORK_UPGRADES]. \<not> h < nActivationHeight (vUpgrades params ! i))"
    "\<forall>i. r = Some i \<longrightarrow> i \<in> set [BASE_SPROUT + 1..<MAX_NETWORK_UPGRADES] \<and> h < nActivationHeight (vUpgrades params ! i)"
    using first_pending_exact [OF assms, of "[BASE_SPROUT + 1..<MAX_NETWORK_UPGRADES]"] by auto
  then show ?thesis using assms(1)
    by (cases r) (auto simp: NextActivationHeight_def NextEpoch_def IsActivationHeightForAnyUpgrade_def simp del: upt_Suc)
qed

text \<open>
  C39. The rules change at announced heights only. The consensus branch of a node, which every signature
  commits to, differs between one height and the next exactly where an upgrade activates and no later upgrade is active
  already; and the next activation height that is announced, if there is one, lies above the height and belongs to an upgrade.
\<close>

theorem branch_changes_at_activation:
  assumes "0 \<le> h" "length (vUpgrades params) = MAX_NETWORK_UPGRADES"
  shows "(CurrentEpochBranchId False (h + 1) params \<noteq> CurrentEpochBranchId False h params \<longleftrightarrow>
      (\<exists>idx. 0 < idx \<and> idx < MAX_NETWORK_UPGRADES \<and> IsActivationHeight (h + 1) params idx = Inr True \<and>
        (\<forall>i. idx < i \<and> i < MAX_NETWORK_UPGRADES \<longrightarrow> NetworkUpgradeActive h params i = Inr False))) \<and>
    (\<exists>r. NextActivationHeight h params = Inr r \<and> (\<forall>n. r = Some n \<longrightarrow> h < n \<and> IsActivationHeightForAnyUpgrade n params) \<and>
      (r = None \<longrightarrow> (\<forall>n>h. \<not> IsActivationHeightForAnyUpgrade n params)))"
    (is "?change \<and> ?next")
proof
  obtain e where e: "CurrentEpoch h params = Inr e" using epoch_exists [OF assms] by blast
  obtain d where d: "CurrentEpoch (h + 1) params = Inr d" using epoch_exists [of "h + 1" params] assms by auto
  note e' = CurrentEpoch_iff [OF assms, THEN iffD1, OF e] and d' = CurrentEpoch_iff [of "h + 1" params d, THEN iffD1, OF _ assms(2) d]
  have step: "upgrade_active params i (h + 1) \<longleftrightarrow> upgrade_active params i h \<or> nActivationHeight (vUpgrades params ! i) = h + 1" for i
    using assms(1) by (auto simp: upgrade_active_def)
  have act: "IsActivationHeight (h + 1) params idx = Inr True \<longleftrightarrow> nActivationHeight (vUpgrades params ! idx) = h + 1"
    if "0 < idx" "idx < MAX_NETWORK_UPGRADES" for idx using that assms by (auto simp: IsActivationHeight_def)
  have ids: "CurrentEpochBranchId False (h + 1) params \<noteq> CurrentEpochBranchId False h params \<longleftrightarrow> d \<noteq> e"
    using e' d' assms(1) by (simp add: CurrentEpochBranchId_def e d branch_ids_distinct)
  show ?change
  proof
    assume "CurrentEpochBranchId False (h + 1) params \<noteq> CurrentEpochBranchId False h params"
    then have "d \<noteq> e" using ids by simp
    moreover have "\<not> d < e"
    proof
      assume "d < e"
      then have "upgrade_active params e (h + 1)" "e < MAX_NETWORK_UPGRADES" using e' step [of e] by auto
      with d' assms(1) \<open>d < e\<close> show False by auto
    qed
    ultimately have "e < d" by simp
    then have "nActivationHeight (vUpgrades params ! d) = h + 1" "d < MAX_NETWORK_UPGRADES" using e' d' step [of d] assms(1) by auto
    moreover have "NetworkUpgradeActive h params i = Inr False" if "d < i" "i < MAX_NETWORK_UPGRADES" for i
      using NetworkUpgradeActive_eq [OF assms that(2)] that e' \<open>e < d\<close> by auto
    ultimately show "\<exists>idx. 0 < idx \<and> idx < MAX_NETWORK_UPGRADES \<and> IsActivationHeight (h + 1) params idx = Inr True \<and>
        (\<forall>i. idx < i \<and> i < MAX_NETWORK_UPGRADES \<longrightarrow> NetworkUpgradeActive h params i = Inr False)"
      using \<open>e < d\<close> act [of d] by (intro exI [of _ d]) auto
  next
    assume "\<exists>idx. 0 < idx \<and> idx < MAX_NETWORK_UPGRADES \<and> IsActivationHeight (h + 1) params idx = Inr True \<and>
        (\<forall>i. idx < i \<and> i < MAX_NETWORK_UPGRADES \<longrightarrow> NetworkUpgradeActive h params i = Inr False)"
    then obtain idx where idx: "0 < idx" "idx < MAX_NETWORK_UPGRADES" "nActivationHeight (vUpgrades params ! idx) = h + 1"
      "\<And>i. idx < i \<Longrightarrow> i < MAX_NETWORK_UPGRADES \<Longrightarrow> \<not> upgrade_active params i h"
      using act NetworkUpgradeActive_eq [OF assms] by (metis Inr_inject)
    have "\<not> upgrade_active params idx h" using idx(3) by (simp add: upgrade_active_def)
    then have "e < idx" using e' idx(1,4) by (metis linorder_neqE_nat)
    moreover have "idx \<le> d" using d' assms(1) idx(2,3) step [of idx] by (metis add_increasing2 not_less zero_le_one)
    ultimately show "CurrentEpochBranchId False (h + 1) params \<noteq> CurrentEpochBranchId False h params" using ids by simp
  qed
  show ?next by (rule next_activation [OF assms])
qed

text \<open>Two upgrades, the second of which comes first.\<close>

definition step_params :: Params where
  "step_params = \<lparr>fCoinbaseMustBeProtected = False,
     vUpgrades = [\<lparr>nProtocolVersion = 0, nActivationHeight = 0\<rparr>, \<lparr>nProtocolVersion = 0, nActivationHeight = NO_ACTIVATION_HEIGHT\<rparr>,
       \<lparr>nProtocolVersion = 0, nActivationHeight = 20\<rparr>, \<lparr>nProtocolVersion = 0, nActivationHeight = 10\<rparr>]\<rparr>"

theorem branch_changes_at_activation_witness:
  "CurrentEpochBranchId False 10 step_params \<noteq> CurrentEpochBranchId False 9 step_params \<and>
   CurrentEpochBranchId False 20 step_params = CurrentEpochBranchId False 19 step_params"
proof
  have a: "IsActivationHeight (9 + 1) step_params UPGRADE_SAPLING = Inr True" by code_simp
  have "length (vUpgrades step_params) = MAX_NETWORK_UPGRADES" by (simp add: step_params_def)
  moreover have "\<forall>i. UPGRADE_SAPLING < i \<and> i < MAX_NETWORK_UPGRADES \<longrightarrow> NetworkUpgradeActive 9 step_params i = Inr False" by auto
  ultimately show "CurrentEpochBranchId False 10 step_params \<noteq> CurrentEpochBranchId False 9 step_params"
    using conjunct1 [OF branch_changes_at_activation [of 9 step_params], THEN iffD2, OF _ _ exI [of _ UPGRADE_SAPLING]] a by simp
  show "CurrentEpochBranchId False 20 step_params = CurrentEpochBranchId False 19 step_params" by code_simp
qed

end
