(* ===== verification/Interest.thy ===== *)
theory Interest
  imports BlockIndex
begin

text \<open>
  The interest that unspent outputs accrue (\<^verbatim>\<open>src/squishy_interest.cpp\<close>), with the constants of
  \<^verbatim>\<open>src/squishy_interest.h\<close>, \<^verbatim>\<open>src/squishy_defs.h\<close> and \<^verbatim>\<open>src/squishy_hardfork.cpp\<close>. Values are
  \<open>uint64_t\<close> words, so products wrap around as they do in the code; times are \<open>uint32_t\<close> words. Lines that
  only log are left out.
\<close>

abbreviation COIN :: u64 where "COIN \<equiv> 100000000"
abbreviation SQUISHY_INTEREST :: u64 where "SQUISHY_INTEREST \<equiv> 5000000"
abbreviation SQUISHY_MAXMEMPOOLTIME :: int where "SQUISHY_MAXMEMPOOLTIME \<equiv> 3600"
abbreviation SQUISHY_ENDOFERA :: int where "SQUISHY_ENDOFERA \<equiv> 7777777"
abbreviation nS7HardforkHeight :: int where "nS7HardforkHeight \<equiv> 3484958"
abbreviation LOCKTIME_THRESHOLD32 :: u32 where "LOCKTIME_THRESHOLD32 \<equiv> 500000000"

section \<open>The formulas\<close>

definition interest_minutes :: "u32 \<Rightarrow> u32 \<Rightarrow> int" where
  "interest_minutes locktime tiptime = uint ((tiptime - locktime) div 60)"

definition squishy_interestnew_inner :: "int \<Rightarrow> u64 \<Rightarrow> u32 \<Rightarrow> u32 \<Rightarrow> u64" where
  "squishy_interestnew_inner txheight amount locktime tiptime =
     (if locktime \<ge> LOCKTIME_THRESHOLD32 \<and> tiptime > locktime \<and>
         interest_minutes locktime tiptime \<ge> SQUISHY_MAXMEMPOOLTIME div 60
      then let minutes = interest_minutes locktime tiptime;
               minutes = (if minutes > 365 * 24 * 60 then 365 * 24 * 60 else minutes);
               minutes = (if txheight \<ge> 1000000 \<and> minutes > 31 * 24 * 60 then 31 * 24 * 60 else minutes);
               minutes = minutes - (SQUISHY_MAXMEMPOOLTIME div 60 - 1);
               res = (amount div 10512000) * word_of_int minutes
           in if txheight \<ge> nS7HardforkHeight then res div 500 else res
      else 0)"

definition squishy_interestnew :: "int \<Rightarrow> u64 \<Rightarrow> u32 \<Rightarrow> u32 \<Rightarrow> u64" where
  "squishy_interestnew txheight amount locktime tiptime =
     (if txheight < SQUISHY_ENDOFERA \<and> locktime \<ge> LOCKTIME_THRESHOLD32 \<and> tiptime \<noteq> 0 \<and> locktime < tiptime \<and> amount \<ge> 10 * COIN
      then squishy_interestnew_inner txheight amount locktime tiptime else 0)"

text \<open>The outputs for which the formula of the early chain is kept.\<close>

definition interest_exception :: "int \<Rightarrow> u64 \<Rightarrow> bool" where
  "interest_exception txheight amount \<longleftrightarrow>
     txheight \<le> 155949 \<and>
     (txheight, amount) \<in> set
       [(116607, 2502721100000), (126891, 2879650000000), (129510, 3000000000000), (141549, 3500000000000),
        (154473, 3983399350000), (154736, 3983406748175), (155013, 3983414006565), (155492, 3983427592291),
        (155613, 9997409999999797), (157927, 9997410667451072), (155613, 2590000000000), (155949, 4000000000000)]"

text \<open>The two branches of \<open>squishy_interest\<close>: outputs of more and of at most 25000 coins.\<close>

definition interest_large :: "int \<Rightarrow> u64 \<Rightarrow> u32 \<Rightarrow> u32 \<Rightarrow> u64 \<Rightarrow> u64 \<Rightarrow> u64" where
  "interest_large txheight amount locktime tiptime minutes denominator =
     (if \<not> interest_exception txheight amount
      then let numerator = amount div 20
           in if txheight < 250000 then numerator div denominator
              else if txheight < 1000000 then (numerator * minutes) div (365 * 24 * 60)
              else squishy_interestnew_inner txheight amount locktime tiptime
      else if txheight < 1000000 then ((amount * SQUISHY_INTEREST) div denominator) div COIN
      else squishy_interestnew_inner txheight amount locktime tiptime)"

definition interest_small :: "int \<Rightarrow> u64 \<Rightarrow> u32 \<Rightarrow> u32 \<Rightarrow> u64 \<Rightarrow> u64 \<Rightarrow> u64" where
  "interest_small txheight amount locktime tiptime minutes denominator =
     (let numerator = amount * SQUISHY_INTEREST
      in if txheight < 250000 \<or> tiptime < 1491350400
         then if txheight < 250000 \<or> numerator * minutes < 365 * 24 * 60
              then (numerator div denominator) div COIN
              else ((numerator * minutes) div (365 * 24 * 60)) div COIN
         else if txheight < 1000000 then ((amount div 20) * minutes) div (365 * 24 * 60)
         else squishy_interestnew_inner txheight amount locktime tiptime)"

definition squishy_interest :: "bool \<Rightarrow> int \<Rightarrow> u64 \<Rightarrow> u32 \<Rightarrow> u32 \<Rightarrow> u64" where
  "squishy_interest isKMD txheight amount locktime tiptime =
     (if \<not> isKMD then 0
      else if txheight \<ge> SQUISHY_ENDOFERA then 0
      else if locktime \<ge> LOCKTIME_THRESHOLD32 \<and> tiptime \<noteq> 0 \<and> locktime < tiptime \<and> amount \<ge> 10 * COIN
      then let minutes = interest_minutes locktime tiptime
           in if minutes \<ge> 60
              then let minutes = (if minutes > 365 * 24 * 60 then 365 * 24 * 60 else minutes);
                       minutes = (if txheight \<ge> 250000 then minutes - 59 else minutes);
                       denominator = (365 * 24 * 60) div word_of_int minutes;
                       denominator = (if denominator = 0 then 1 else denominator)
                   in if amount > 25000 * COIN
                      then interest_large txheight amount locktime tiptime (word_of_int minutes) denominator
                      else interest_small txheight amount locktime tiptime (word_of_int minutes) denominator
              else 0
      else 0)"

section \<open>The interest of an output of the chain\<close>

text \<open>
  \<open>GetTransaction\<close>, which looks in the memory pool and on disk, is the parameter \<open>get_tx\<close>. The results are
  the locktime and what is stored through the pointers: height and time of the block, time of the tip, value.
\<close>

definition squishy_interest_args ::
    "(uint256 \<Rightarrow> (CMutableTransaction \<times> uint256) option) \<Rightarrow> index_state \<Rightarrow> CChain \<Rightarrow> uint256 \<Rightarrow> u32 \<Rightarrow>
     index_error + u32 \<times> u32 \<times> int \<times> u32 \<times> u64" where
  "squishy_interest_args get_tx s chainActive hash n =
     (case get_tx hash of
        None \<Rightarrow> Inr (0, 0, 0, 0, 0)
      | Some (tx, hashBlock) \<Rightarrow>
          if unat n < length (vout tx)
          then case Option.bind (mapBlockIndex s hashBlock) id of
                 None \<Rightarrow> Inr (0, 0, 0, 0, 0)
               | Some p \<Rightarrow>
                   res_bind (load (mem s) p) (\<lambda>b.
                   res_bind (case Tip chainActive of None \<Rightarrow> Inr 0 | Some t \<Rightarrow> res_bind (load (mem s) t) (\<lambda>bt. Inr (bi_nTime bt))) (\<lambda>tiptime.
                     Inr (nLockTime tx, bi_nTime b, int (nHeight b), tiptime, word_of_int (nValue (vout tx ! unat n)))))
          else Inr (0, 0, 0, 0, 0))"

text \<open>Checks of the height and the value are skipped where these are given as 0.\<close>

definition squishy_accrued_interest ::
    "bool \<Rightarrow> (uint256 \<Rightarrow> (CMutableTransaction \<times> uint256) option) \<Rightarrow> index_state \<Rightarrow> CChain \<Rightarrow> uint256 \<Rightarrow> u32 \<Rightarrow> int \<Rightarrow> u64 \<Rightarrow> int \<Rightarrow>
     index_error + u64" where
  "squishy_accrued_interest isKMD get_tx s chainActive hash n checkheight checkvalue tipheight =
     res_bind (case chain_at chainActive tipheight of None \<Rightarrow> Inr 0 | Some p \<Rightarrow> res_bind (load (mem s) p) (\<lambda>b. Inr (bi_nTime b))) (\<lambda>_.
     res_bind (squishy_interest_args get_tx s chainActive hash n) (\<lambda>(locktime, _, txheight, tiptime, v).
       Inr (if locktime \<noteq> 0 \<and> (checkvalue = 0 \<or> v = checkvalue) \<and> (checkheight = 0 \<or> txheight = checkheight)
            then squishy_interest isKMD txheight v locktime tiptime else 0)))"

section \<open>Bounds\<close>

lemma unat_mult_le: "unat (a * b :: 'a :: len word) \<le> unat a * unat b"
  by (simp add: unat_word_ariths)

lemma unat_mult_div_le: "unat ((a * b :: 'a :: len word) div c) \<le> unat a * unat b div unat c"
  by (simp add: unat_div div_le_mono unat_mult_le)

lemma unat_numeral_60: "unat (60 :: u32) = 60"
  by simp

lemma interest_minutes_nat: "interest_minutes l t = int (unat (t - l) div 60)"
  unfolding interest_minutes_def by (subst uint_nat) (simp only: unat_div unat_numeral_60)

lemma unat_minutes: "0 \<le> m \<Longrightarrow> m \<le> 525600 \<Longrightarrow> unat (word_of_int m :: u64) = nat m"
  by (simp add: unat_eq_nat_uint uint_word_of_int)

lemma unat_minutes59: "60 \<le> m \<Longrightarrow> m \<le> 525600 \<Longrightarrow> unat (word_of_int m - 59 :: u64) \<le> 525600"
  using unat_minutes [of "m - 59"] by simp

text \<open>The formula in use: at most the share of a year that 31 days, or the year itself, are.\<close>

lemma interestnew_inner_exact:
  assumes "txheight \<ge> 1000000" "locktime \<ge> LOCKTIME_THRESHOLD32" "tiptime > locktime" "interest_minutes locktime tiptime \<ge> 60"
  shows "unat (squishy_interestnew_inner txheight v locktime tiptime) =
    (unat v div 10512000) * nat (min (interest_minutes locktime tiptime) 44640 - 59) div (if txheight \<ge> nS7HardforkHeight then 500 else 1)"
proof -
  define m where "m = min (interest_minutes locktime tiptime) 44640 - 59"
  have m: "1 \<le> m" "m \<le> 44581" using assms(4) by (auto simp: m_def)
  have um: "unat (word_of_int m :: u64) = nat m" using m by (intro unat_minutes) simp_all
  have "unat v div 10512000 < 2 ^ 64 div 10512000 + 1" using unsigned_less [of v, where 'a = nat] by simp
  then have "(unat v div 10512000) * nat m \<le> (2 ^ 64 div 10512000) * 44581" using m by (intro mult_le_mono) simp_all
  also have "\<dots> < 2 ^ 64" by simp
  finally have "unat ((v div 10512000) * word_of_int m) = (unat v div 10512000) * nat m"
    using unat_mult_lem [of "v div 10512000" "word_of_int m", THEN iffD1] by (simp add: unat_div um)
  then show ?thesis using assms by (auto simp: squishy_interestnew_inner_def Let_def m_def min_def unat_div)
qed

lemma interestnew_inner_le: "20 * unat (squishy_interestnew_inner txheight v locktime tiptime) \<le> unat v"
proof (cases "locktime \<ge> LOCKTIME_THRESHOLD32 \<and> tiptime > locktime \<and> interest_minutes locktime tiptime \<ge> 60")
  case True
  define m where "m = (let minutes = interest_minutes locktime tiptime;
               minutes = (if minutes > 365 * 24 * 60 then 365 * 24 * 60 else minutes);
               minutes = (if txheight \<ge> 1000000 \<and> minutes > 31 * 24 * 60 then 31 * 24 * 60 else minutes)
           in minutes - 59)"
  have m: "1 \<le> m" "m \<le> 525600" using True by (auto simp: m_def Let_def)
  have um: "unat (word_of_int m :: u64) = nat m" using m by (intro unat_minutes) simp_all
  have "unat (squishy_interestnew_inner txheight v locktime tiptime) \<le> unat ((v div 10512000) * word_of_int m)"
    using True by (auto simp: squishy_interestnew_inner_def m_def Let_def unat_div)
  also have "\<dots> \<le> (unat v div 10512000) * nat m" using unat_mult_le [of "v div 10512000" "word_of_int m"] by (simp add: um unat_div)
  also have "\<dots> \<le> (unat v div 10512000) * 525600" using m by (intro mult_le_mono) simp_all
  finally show ?thesis by linarith
qed (auto simp: squishy_interestnew_inner_def)

lemma div_pos_le: "unat (x div d :: 'a :: len word) \<le> unat x"
  by (simp add: unat_div)

lemma interest_numerator_le: "20 * unat ((v * SQUISHY_INTEREST) div d div COIN) \<le> unat v"
proof -
  have "unat ((v * SQUISHY_INTEREST) div d div COIN) = unat ((v * SQUISHY_INTEREST) div d) div 100000000" by (simp add: unat_div)
  also have "\<dots> \<le> (unat v * 5000000) div 100000000"
    using div_pos_le [of "v * SQUISHY_INTEREST" d] unat_mult_le [of v SQUISHY_INTEREST] by (intro div_le_mono) simp
  finally show ?thesis by linarith
qed

lemma interest_year_le:
  assumes "unat (minutes :: u64) \<le> 525600" "a * unat x \<le> b * unat v"
  shows "a * unat ((x * minutes) div 525600) \<le> b * unat v"
proof -
  have "unat ((x * minutes) div 525600) \<le> unat x * unat minutes div 525600" using unat_mult_div_le [of x minutes 525600] by simp
  also have "\<dots> \<le> unat x * 525600 div 525600" using assms(1) by (intro div_le_mono mult_le_mono) simp_all
  finally have "a * unat ((x * minutes) div 525600) \<le> a * unat x" by simp
  with assms(2) show ?thesis by linarith
qed

lemma div_twenty_le: "20 * (a div 20 div d) \<le> (a :: nat)"
proof -
  have "20 * (a div 20 div d) \<le> 20 * (a div 20)" by simp
  then show ?thesis by linarith
qed

lemma interest_large_le: "unat minutes \<le> 525600 \<Longrightarrow> 20 * unat (interest_large txheight amount locktime tiptime minutes d) \<le> unat amount"
  using interest_year_le [of minutes 20 "amount div 20" 1 amount] div_twenty_le [of "unat amount" "unat d"] interest_numerator_le [of amount d]
  by (auto simp: interest_large_def Let_def interestnew_inner_le unat_div)

lemma interest_small_le: "unat minutes \<le> 525600 \<Longrightarrow> 20 * unat (interest_small txheight amount locktime tiptime minutes d) \<le> unat amount"
proof -
  assume m: "unat minutes \<le> 525600"
  have "2000000000 * unat (((amount * SQUISHY_INTEREST) * minutes) div 525600 div COIN) \<le> 100000000 * unat amount"
    using interest_year_le [OF m, of 20 "amount * SQUISHY_INTEREST" 100000000 amount] unat_mult_le [of amount SQUISHY_INTEREST]
    by (simp add: unat_div)
  then show ?thesis
    using interest_year_le [OF m, of 20 "amount div 20" 1 amount] interest_numerator_le [of amount d]
    by (auto simp: interest_small_def Let_def interestnew_inner_le unat_div)
qed

lemma minutes_of_hour: "locktime < tiptime \<Longrightarrow> 60 \<le> interest_minutes locktime tiptime \<longleftrightarrow> unat locktime + 3600 \<le> unat tiptime"
proof -
  assume "locktime < tiptime"
  then have "unat (tiptime - locktime) = unat tiptime - unat locktime" "unat locktime < unat tiptime"
    using unat_sub [OF less_imp_le] by (simp_all add: word_less_nat_alt)
  then show ?thesis by (simp add: interest_minutes_nat) linarith
qed

lemma squishy_interest_new_era:
  assumes "1000000 \<le> txheight" "tiptime \<ge> 1491350400 \<or> amount > 25000 * COIN"
  shows "squishy_interest True txheight amount locktime tiptime =
    (if 60 \<le> interest_minutes locktime tiptime then squishy_interestnew txheight amount locktime tiptime else 0)"
  using assms
  by (auto simp: squishy_interest_def squishy_interestnew_def interest_large_def interest_small_def interest_exception_def Let_def)

lemma interest_le: "20 * unat (squishy_interest isKMD txheight amount locktime tiptime) \<le> unat amount"
  by (simp add: squishy_interest_def Let_def interest_large_le interest_small_le unat_minutes unat_minutes59)

text \<open>
  C40. Interest is at most five percent. Whatever the height, value, locktime and time, and although the
  products may wrap around, the interest of an output is at most a twentieth of its value; it is none on another chain,
  after the last era, for less than ten coins, for a locktime that is not a time, or in the first hour. From height
  1000000 on no product wraps around: interest is the value in units of 10512000 times the minutes after the first 59, up
  to 31 days, and from the seventh season on a five hundredth of that.
\<close>

theorem interest_bounded:
  "20 * unat (squishy_interest isKMD txheight amount locktime tiptime) \<le> unat amount \<and>
   (squishy_interest isKMD txheight amount locktime tiptime \<noteq> 0 \<longrightarrow>
      isKMD \<and> txheight < SQUISHY_ENDOFERA \<and> 10 * COIN \<le> amount \<and> LOCKTIME_THRESHOLD32 \<le> locktime \<and> unat locktime + 3600 \<le> unat tiptime) \<and>
   (1000000 \<le> txheight \<and> txheight < SQUISHY_ENDOFERA \<and> 10 * COIN \<le> amount \<and> 1491350400 \<le> locktime \<and> unat locktime + 3600 \<le> unat tiptime \<longrightarrow>
      unat (squishy_interest True txheight amount locktime tiptime) =
        (unat amount div 10512000) * (min ((unat tiptime - unat locktime) div 60) 44640 - 59) div (if txheight < nS7HardforkHeight then 1 else 500))"
    (is "?bound \<and> (?i \<noteq> 0 \<longrightarrow> ?cond) \<and> (?era \<longrightarrow> ?exact)")
proof (intro conjI impI)
  show ?bound by (rule interest_le)
  show isKMD "txheight < SQUISHY_ENDOFERA" "10 * COIN \<le> amount" "LOCKTIME_THRESHOLD32 \<le> locktime" "unat locktime + 3600 \<le> unat tiptime" if "?i \<noteq> 0"
    using that minutes_of_hour [of locktime tiptime] by (auto simp: squishy_interest_def Let_def split: if_splits)
  assume era: ?era
  then have lt: "locktime < tiptime" "unat (tiptime - locktime) = unat tiptime - unat locktime" "LOCKTIME_THRESHOLD32 \<le> locktime" "1491350400 \<le> tiptime" "tiptime \<noteq> 0"
    by (auto simp: word_less_nat_alt word_le_nat_alt unat_sub)
  have m: "60 \<le> interest_minutes locktime tiptime" using minutes_of_hour [OF lt(1)] era by simp
  have "nat (min (interest_minutes locktime tiptime) 44640 - 59) = min ((unat tiptime - unat locktime) div 60) 44640 - 59"
    using lt(2) by (simp add: interest_minutes_nat nat_diff_distrib min_def) linarith
  moreover have "squishy_interest True txheight amount locktime tiptime = squishy_interestnew_inner txheight amount locktime tiptime"
    using era lt m by (simp add: squishy_interest_new_era squishy_interestnew_def)
  ultimately show ?exact
    using interestnew_inner_exact [OF _ lt(3) lt(1) m, of txheight amount] era by (simp add: not_less [symmetric])
qed

theorem interest_bounded_witness:
  "unat (squishy_interest True 2000000 100000000000 1600000000 1600086400) = 13136072 \<and> squishy_interest True 60 100000000000 1600000000 1600086400 \<noteq> 0"
proof
  show "unat (squishy_interest True 2000000 100000000000 1600000000 1600086400) = 13136072"
    using interest_bounded [of True 2000000 100000000000 1600000000 1600086400] by simp
  show "squishy_interest True 60 100000000000 1600000000 1600086400 \<noteq> 0"
    by code_simp
qed

text \<open>A chain of two blocks, of different times.\<close>

definition two_blocks :: index_state where
  "two_blocks = index_init\<lparr>mem := [0 \<mapsto> index_null\<lparr>nHeight := 2000000, bi_nTime := 1600000000\<rparr>, 1 \<mapsto> index_null\<lparr>bi_nTime := 1600086400\<rparr>],
     mapBlockIndex := [[7] \<mapsto> Some 0]\<rparr>"

definition locked_tx :: CMutableTransaction where
  "locked_tx = tx_default\<lparr>nLockTime := 1600000000, vout := [\<lparr>nValue = 100000000000, scriptPubKey = []\<rparr>]\<rparr>"

lemma two_blocks_interest: "0 \<le> h \<Longrightarrow> h < 2 \<Longrightarrow>
    \<exists>x. squishy_accrued_interest True (\<lambda>_. Some (locked_tx, [7])) two_blocks [Some 0, Some 1] [5] 0 0 0 h = Inr x"
proof -
  assume "0 \<le> h" "h < 2"
  then have "h = 0 \<or> h = 1" by linarith
  then show ?thesis
    by (auto simp: squishy_accrued_interest_def squishy_interest_args_def chain_at_def Tip_def load_def two_blocks_def locked_tx_def)
qed

lemma interest_args_tip:
  "squishy_accrued_interest isKMD get_tx s chainActive hash n checkheight checkvalue tipheight = Inr x \<Longrightarrow>
    squishy_accrued_interest isKMD get_tx s chainActive hash n checkheight checkvalue (- 1) = Inr x"
  by (auto simp: squishy_accrued_interest_def chain_at_def res_simps)

text \<open>
  The time up to which interest accrues is not that of the height asked for: whenever interest
  is computed for two heights of the tip, the results are the same, since the time of the block at that
  height is overwritten by the time of the current tip.
\<close>

theorem accrued_interest_ignores_tipheight:
  assumes "squishy_accrued_interest isKMD get_tx s chainActive hash n checkheight checkvalue h = Inr x"
    "squishy_accrued_interest isKMD get_tx s chainActive hash n checkheight checkvalue h' = Inr y"
  shows "x = y"
  using interest_args_tip [OF assms(1)] interest_args_tip [OF assms(2)] by simp

theorem accrued_interest_ignores_tipheight_witness:
  "squishy_accrued_interest True (\<lambda>_. Some (locked_tx, [7])) two_blocks [Some 0, Some 1] [5] 0 0 0 0 =
   squishy_accrued_interest True (\<lambda>_. Some (locked_tx, [7])) two_blocks [Some 0, Some 1] [5] 0 0 0 1"
  using two_blocks_interest [of 0] two_blocks_interest [of 1]
    accrued_interest_ignores_tipheight [of True "\<lambda>_. Some (locked_tx, [7])" two_blocks "[Some 0, Some 1]" "[5]" 0 0 0 0 _ 1]
  by fastforce

end
