(* ===== verification/Compressor.thy ===== *)
theory Compressor
  imports TransactionProps ScriptProps
begin

text \<open>
  \<^verbatim>\<open>src/compressor.cpp\<close>: the compact form of amounts and of output scripts in the coin
  database and the undo data. Checking and decompressing a public key are done by libsecp256k1, which is
  a library of its own: the record \<open>pubkey_ops\<close> stands for the two calls, and what the
  compressor relies on is the hypothesis \<open>pubkey_laws\<close>. The assertions of the code are values of
  the error type, so that the properties can say they never fail.
\<close>

section \<open>Amounts\<close>

function strip_zeros :: "u64 \<Rightarrow> nat \<Rightarrow> u64 \<times> nat" where
  "strip_zeros n e = (if n mod 10 = 0 \<and> e < 9 then strip_zeros (n div 10) (e + 1) else (n, e))"
  by pat_completeness auto
termination by (relation "measure (\<lambda>(_, e). 9 - e)") auto

declare strip_zeros.simps [simp del]

definition CompressAmount :: "u64 \<Rightarrow> ser_error + u64" where
  "CompressAmount n =
     (if n = 0 then Inr 0
      else let (n, e) = strip_zeros n 0
           in if e < 9
              then let d = n mod 10
                   in if 1 \<le> d \<and> d \<le> 9
                      then let n = n div 10 in Inr (1 + (n * 9 + d - 1) * 10 + of_nat e)
                      else Inl SerAssert
              else Inr (1 + (n - 1) * 10 + 9))"

primrec times_ten :: "nat \<Rightarrow> u64 \<Rightarrow> u64" where
  "times_ten 0 n = n"
| "times_ten (Suc e) n = times_ten e (n * 10)"

definition DecompressAmount :: "u64 \<Rightarrow> u64" where
  "DecompressAmount x =
     (if x = 0 then 0
      else let x = x - 1; e = unat (x mod 10); x = x div 10;
               n = (if e < 9 then let d = x mod 9 + 1; x = x div 9 in x * 10 + d else x + 1)
           in times_ten e n)"

section \<open>Scripts\<close>

record pubkey_ops =
  IsFullyValid :: "bytes \<Rightarrow> bool"
  pk_Decompress :: "bytes \<Rightarrow> bytes option"

text \<open>
  \<open>CPubKey\<close>: the length follows from the first byte; \<open>None\<close> is the invalid key, whose first
  byte is \<open>0xFF\<close>.
\<close>

definition pubkey_GetLen :: "u8 \<Rightarrow> nat" where
  "pubkey_GetLen chHeader =
     (if chHeader = 2 \<or> chHeader = 3 then 33 else if chHeader = 4 \<or> chHeader = 6 \<or> chHeader = 7 then 65 else 0)"

definition pubkey_Set :: "bytes \<Rightarrow> bytes option" where
  "pubkey_Set b =
     (let len = (if b = [] then 0 else pubkey_GetLen (hd b)) in if len \<noteq> 0 \<and> len = length b then Some b else None)"

definition IsToKeyID :: "script \<Rightarrow> bytes option" where
  "IsToKeyID s =
     (if length s = 25 \<and> s ! 0 = OP_DUP \<and> s ! 1 = OP_HASH160 \<and> s ! 2 = 20 \<and> s ! 23 = OP_EQUALVERIFY \<and> s ! 24 = OP_CHECKSIG
      then Some (take 20 (drop 3 s)) else None)"

definition IsToScriptID :: "script \<Rightarrow> bytes option" where
  "IsToScriptID s =
     (if length s = 23 \<and> s ! 0 = OP_HASH160 \<and> s ! 1 = 20 \<and> s ! 22 = OP_EQUAL then Some (take 20 (drop 2 s)) else None)"

definition IsToPubKey :: "pubkey_ops \<Rightarrow> script \<Rightarrow> bytes option" where
  "IsToPubKey P s =
     (if length s = 35 \<and> s ! 0 = 33 \<and> s ! 34 = OP_CHECKSIG \<and> (s ! 1 = 2 \<or> s ! 1 = 3)
      then pubkey_Set (take 33 (drop 1 s))
      else if length s = 67 \<and> s ! 0 = 65 \<and> s ! 66 = OP_CHECKSIG \<and> s ! 1 = 4
      then case pubkey_Set (take 65 (drop 1 s)) of
             Some k \<Rightarrow> if IsFullyValid P k then Some k else None
           | None \<Rightarrow> None
      else None)"

definition Compress :: "pubkey_ops \<Rightarrow> script \<Rightarrow> bytes option" where
  "Compress P s =
     (case IsToKeyID s of Some keyID \<Rightarrow> Some (0 # keyID)
      | None \<Rightarrow>
        (case IsToScriptID s of Some scriptID \<Rightarrow> Some (1 # scriptID)
         | None \<Rightarrow>
           (case IsToPubKey P s of
              Some pubkey \<Rightarrow>
                if pubkey ! 0 = 2 \<or> pubkey ! 0 = 3 then Some (pubkey ! 0 # take 32 (drop 1 pubkey))
                else if pubkey ! 0 = 4 then Some ((4 OR (pubkey ! 64 AND 1)) # take 32 (drop 1 pubkey))
                else None
            | None \<Rightarrow> None)))"

definition GetSpecialSize :: "nat \<Rightarrow> nat" where
  "GetSpecialSize nSize =
     (if nSize = 0 \<or> nSize = 1 then 20 else if nSize = 2 \<or> nSize = 3 \<or> nSize = 4 \<or> nSize = 5 then 32 else 0)"

text \<open>\<open>Inr None\<close> is the return value false, with the script left as it was.\<close>

definition Decompress :: "pubkey_ops \<Rightarrow> nat \<Rightarrow> bytes \<Rightarrow> ser_error + script option" where
  "Decompress P nSize inp =
     (if nSize = 0 then Inr (Some ([OP_DUP, OP_HASH160, 20] @ take 20 inp @ [OP_EQUALVERIFY, OP_CHECKSIG]))
      else if nSize = 1 then Inr (Some ([OP_HASH160, 20] @ take 20 inp @ [OP_EQUAL]))
      else if nSize = 2 \<or> nSize = 3 then Inr (Some ([33, of_nat nSize] @ take 32 inp @ [OP_CHECKSIG]))
      else if nSize = 4 \<or> nSize = 5
        then (case Option.bind (pubkey_Set (of_nat (nSize - 2) # take 32 inp)) (pk_Decompress P) of
                None \<Rightarrow> Inr None
              | Some pubkey \<Rightarrow> if length pubkey = 65 then Inr (Some ([65] @ pubkey @ [OP_CHECKSIG])) else Inl SerAssert)
      else Inr None)"

abbreviation nSpecialScripts :: nat where
  "nSpecialScripts \<equiv> 6"

definition script_Serialize :: "pubkey_ops \<Rightarrow> script \<Rightarrow> bytes" where
  "script_Serialize P s =
     (case Compress P s of Some compr \<Rightarrow> compr
      | None \<Rightarrow> WriteVarInt (of_nat (length s) + of_nat nSpecialScripts :: u32) @ s)"

definition script_Unserialize :: "pubkey_ops \<Rightarrow> script \<Rightarrow> script reader" where
  "script_Unserialize P script0 =
     rd_bind (ReadVarInt :: u32 reader) (\<lambda>nSize.
       if unat nSize < nSpecialScripts
       then rd_bind (stream_read (GetSpecialSize (unat nSize))) (\<lambda>vch r.
              res_bind (Decompress P (unat nSize) vch) (\<lambda>s. Inr (case s of Some script \<Rightarrow> script | None \<Rightarrow> script0, r)))
       else let nSize = nSize - of_nat nSpecialScripts
            in if unat nSize > MAX_SCRIPT_SIZE
               then rd_bind (stream_ignore (sint nSize)) (\<lambda>_. rd_return (push_opcode script0 OP_RETURN))
               else stream_read (unat nSize))"

section \<open>Outputs\<close>

definition txoutc_Serialize :: "pubkey_ops \<Rightarrow> CTxOut \<Rightarrow> ser_error + bytes" where
  "txoutc_Serialize P t =
     res_bind (CompressAmount (word_of_int (nValue t))) (\<lambda>nVal. Inr (WriteVarInt nVal @ script_Serialize P (scriptPubKey t)))"

definition txoutc_Unserialize :: "pubkey_ops \<Rightarrow> CTxOut \<Rightarrow> CTxOut reader" where
  "txoutc_Unserialize P t0 =
     rd_bind (ReadVarInt :: u64 reader) (\<lambda>nVal.
     rd_bind (script_Unserialize P (scriptPubKey t0)) (\<lambda>s.
       rd_return (t0\<lparr>nValue := sint (DecompressAmount nVal), scriptPubKey := s\<rparr>)))"

section \<open>Amounts read as numbers\<close>

lemma strip_zeros_spec:
  assumes "strip_zeros n e0 = (m, e)" "e0 \<le> 9" "n \<noteq> 0"
  shows "e0 \<le> e" "e \<le> 9" "unat n = unat m * 10 ^ (e - e0)" "m \<noteq> 0" "e < 9 \<Longrightarrow> unat m mod 10 \<noteq> 0"
proof -
  have "e0 \<le> e \<and> e \<le> 9 \<and> unat n = unat m * 10 ^ (e - e0) \<and> m \<noteq> 0 \<and> (e < 9 \<longrightarrow> unat m mod 10 \<noteq> 0)"
    using assms
  proof (induction n e0 rule: strip_zeros.induct)
    case (1 n e0)
    show ?case
    proof (cases "n mod 10 = 0 \<and> e0 < 9")
      case True
      then have ten: "unat n mod 10 = 0" using unat_mod [of n 10] by simp
      then have d: "unat n = unat (n div 10) * 10" using unat_div [of n 10] by (auto simp: dvd_imp_mod_0)
      have "n div 10 \<noteq> 0"
      proof
        assume "n div 10 = 0"
        then have "unat n = 0" using d by simp
        with 1(4) show False by (simp add: unat_eq_0)
      qed
      moreover from 1(2) have "strip_zeros (n div 10) (e0 + 1) = (m, e)" using True by (subst (asm) strip_zeros.simps) simp
      ultimately have "e0 + 1 \<le> e \<and> e \<le> 9 \<and> unat (n div 10) = unat m * 10 ^ (e - (e0 + 1)) \<and> m \<noteq> 0 \<and> (e < 9 \<longrightarrow> unat m mod 10 \<noteq> 0)"
        using 1(1) [OF True] True by simp
      moreover from this have "10 ^ (e - e0) = (10::nat) * 10 ^ (e - (e0 + 1))" by (simp flip: power_Suc) (metis Suc_diff_Suc Suc_le_lessD)
      ultimately show ?thesis using d by simp
    next
      case False
      with 1(2) have "m = n" "e = e0" by (subst (asm) strip_zeros.simps; simp split: if_splits)+
      with False 1(3,4) unat_mod [of n 10] show ?thesis by (auto simp: word_unat_eq_iff)
    qed
  qed
  then show "e0 \<le> e" "e \<le> 9" "unat n = unat m * 10 ^ (e - e0)" "m \<noteq> 0" "e < 9 \<Longrightarrow> unat m mod 10 \<noteq> 0" by simp_all
qed

lemma unat_times_ten: "unat n * 10 ^ e < 2 ^ 64 \<Longrightarrow> unat (times_ten e n) = unat n * 10 ^ e"
proof (induction e arbitrary: n)
  case (Suc e)
  have "(1::nat) \<le> 10 ^ e" by simp
  then have "unat n * 10 \<le> unat n * 10 ^ Suc e" by simp
  also have "\<dots> < 2 ^ 64" using Suc.prems .
  finally have "unat (n * 10) = unat n * 10" by (intro unat_mult_nowrap [of n 10, simplified]) simp
  then show ?case using Suc by (simp add: mult.assoc)
qed simp

text \<open>The compressed form of \<open>m * 10 ^ e\<close>, and what it decompresses to.\<close>

definition amount_code :: "nat \<Rightarrow> nat \<Rightarrow> nat" where
  "amount_code m e = (if e < 9 then 1 + (9 * (m div 10) + m mod 10 - 1) * 10 + e else 10 * m)"

lemma amount_code_bound:
  assumes "0 < m" "e < 9 \<Longrightarrow> m mod 10 \<noteq> 0" "e \<le> 9"
  shows "amount_code m e \<le> 9 * (m * 10 ^ e)"
proof (cases "e < 9")
  case True
  define q d where "q = m div 10" and "d = m mod 10"
  have m: "m = 10 * q + d" "0 < d" "d \<le> 9" using assms(2) [OF True] unfolding q_def d_def by auto
  have code: "amount_code m e = 90 * q + 10 * d - 9 + e" using True m(2) by (simp add: amount_code_def flip: q_def d_def)
  show ?thesis
  proof (cases e)
    case 0
    then show ?thesis unfolding code using m by simp
  next
    case (Suc k)
    have "90 * q + 10 * d \<le> 90 * m" using m by simp
    also have "90 * m \<le> 90 * m * 10 ^ k" by simp
    also have "\<dots> = 9 * (m * 10 ^ e)" by (simp add: Suc)
    finally show ?thesis unfolding code using assms(3) m(2) by linarith
  qed
next
  case False
  with assms(3) have "e = 9" by simp
  then show ?thesis by (simp add: amount_code_def)
qed

lemma eq_of_nat_unat: "unat w = k \<Longrightarrow> w = of_nat k"
  by auto

lemma word_div_mod_of_nat:
  "(n :: u64) div 10 = of_nat (unat n div 10)" "n mod 10 = of_nat (unat n mod 10)"
  "n div 9 = of_nat (unat n div 9)" "n mod 9 = of_nat (unat n mod 9)"
  by (rule eq_of_nat_unat, simp add: unat_div unat_mod)+

lemma unat_CompressAmount:
  assumes "n \<noteq> 0" "9 * unat n < 2 ^ 64" "strip_zeros n 0 = (m, e)"
  shows "\<exists>y. CompressAmount n = Inr y \<and> unat y = amount_code (unat m) e"
proof -
  note sp = strip_zeros_spec [OF assms(3) le0 assms(1)]
  have "amount_code (unat m) e < 2 ^ 64"
    using amount_code_bound [of "unat m" e] sp assms(2) by (simp add: unat_gt_0)
  then have u: "unat (of_nat (amount_code (unat m) e) :: u64) = amount_code (unat m) e" by (simp add: unat_of_nat_mod)
  have "CompressAmount n = Inr (of_nat (amount_code (unat m) e))"
  proof (cases "e < 9")
    case True
    define q d where "q = unat m div 10" and "d = unat m mod 10"
    have d: "1 \<le> d" "d \<le> 9" using sp(5) [OF True] unfolding d_def by auto
    have w: "m div 10 = of_nat q" "m mod 10 = of_nat d" unfolding q_def d_def by (rule word_div_mod_of_nat)+
    have "unat (of_nat d :: u64) = d" using d by (simp add: unat_of_nat_mod)
    then have r: "(1 :: u64) \<le> of_nat d" "(of_nat d :: u64) \<le> 9" using d by (simp_all add: word_le_nat_alt)
    have "9 * q + d - 1 = 9 * q + (d - 1)" using d by simp
    then have "(of_nat (amount_code (unat m) e) :: u64) = 1 + (of_nat q * 9 + of_nat d - 1) * 10 + of_nat e"
      using True d by (simp add: amount_code_def of_nat_diff algebra_simps flip: q_def d_def)
    then show ?thesis using assms(1,3) True r by (simp add: CompressAmount_def w)
  next
    case False
    have "1 + (m - 1) * 10 + 9 = m * 10" by (simp add: algebra_simps)
    then show ?thesis using assms(1,3) False by (simp add: CompressAmount_def amount_code_def mult.commute)
  qed
  with u show ?thesis by blast
qed

lemma unat_DecompressAmount:
  assumes "unat x = amount_code m e" "0 < m" "e < 9 \<Longrightarrow> m mod 10 \<noteq> 0" "e \<le> 9" "m * 10 ^ e < 2 ^ 64"
  shows "unat (DecompressAmount x) = m * 10 ^ e"
proof -
  have pos: "0 < unat x" using assms(1,2) by (auto simp: amount_code_def)
  then have "x \<noteq> 0" by auto
  then have x1: "unat (x - 1) = amount_code m e - 1" using unat_minus_one [of x] assms(1) by simp
  define k where "k = (if e < 9 then 9 * (m div 10) + m mod 10 - 1 else m - 1)"
  have k: "amount_code m e - 1 = 10 * k + e" using assms(2,4) by (auto simp: amount_code_def k_def)
  define y where "y = (x - 1) div 10"
  have uy: "unat y = k" unfolding y_def unat_div x1 k using assms(4) by simp
  have e: "unat ((x - 1) mod 10) = e" unfolding unat_mod x1 k using assms(4) by simp
  have n: "(if e < 9 then y div 9 * 10 + (y mod 9 + 1) else y + 1) = of_nat m"
  proof (cases "e < 9")
    case True
    define q d where "q = m div 10" and "d = m mod 10 - 1"
    have d: "m = 10 * q + d + 1" "d < 9" using assms(3) [OF True] unfolding q_def d_def by auto
    have "unat y = 9 * q + d" using True assms(3) uy unfolding k_def q_def d_def by simp
    then have "unat y div 9 = q" "unat y mod 9 = d" using d(2) by simp_all
    then show ?thesis using True by (simp add: word_div_mod_of_nat d(1))
  next
    case False
    then have "y = of_nat (m - 1)" using uy by (intro eq_of_nat_unat) (simp add: k_def)
    then show ?thesis using False assms(2) by (simp add: of_nat_diff)
  qed
  have "DecompressAmount x = times_ten e (of_nat m)"
    using \<open>x \<noteq> 0\<close> n by (cases "e < 9") (simp_all add: DecompressAmount_def Let_def e flip: y_def)
  moreover have "m < 2 ^ 64" using assms(5) by (rule order_le_less_trans [rotated]) simp
  ultimately show ?thesis using unat_times_ten [of "of_nat m" e] assms(5) by (simp add: unat_of_nat_mod)
qed

lemma DecompressAmount_CompressAmount:
  assumes "9 * unat n < 2 ^ 64"
  shows "\<exists>y. CompressAmount n = Inr y \<and> DecompressAmount y = n"
proof (cases "n = 0")
  case True
  then show ?thesis by (simp add: CompressAmount_def DecompressAmount_def)
next
  case False
  obtain m e where s: "strip_zeros n 0 = (m, e)" by fastforce
  note sp = strip_zeros_spec [OF s le0 False]
  obtain y where y: "CompressAmount n = Inr y" "unat y = amount_code (unat m) e"
    using unat_CompressAmount [OF False assms s] by blast
  have "unat n = unat m * 10 ^ e" using sp(3) by simp
  moreover from this have "unat (DecompressAmount y) = unat m * 10 ^ e"
    using sp(2,4,5) assms by (intro unat_DecompressAmount [OF y(2)]) (auto simp: unat_gt_0)
  ultimately have "DecompressAmount y = n" by (simp add: word_unat_eq_iff)
  with y(1) show ?thesis by blast
qed

section \<open>Scripts\<close>

text \<open>
  What the compressor relies on of libsecp256k1: a valid uncompressed key is recovered from its first
  coordinate and the parity of its second, and a decompressed key has 65 bytes.
\<close>

definition pubkey_laws :: "pubkey_ops \<Rightarrow> bool" where
  "pubkey_laws P \<longleftrightarrow>
     (\<forall>k. IsFullyValid P k \<and> length k = 65 \<and> hd k = 4 \<longrightarrow>
        pk_Decompress P ((2 OR (k ! 64 AND 1)) # take 32 (drop 1 k)) = Some k) \<and>
     (\<forall>k k'. pk_Decompress P k = Some k' \<longrightarrow> length k' = 65)"

lemma IsToKeyID_Some:
  assumes "IsToKeyID s = Some h"
  shows "length h = 20" "s = [OP_DUP, OP_HASH160, 20] @ h @ [OP_EQUALVERIFY, OP_CHECKSIG]"
proof -
  from assms have "length s = 3 + 20 + 2" by (simp add: IsToKeyID_def split: if_splits)
  then obtain a b c where s: "s = a @ b @ c" "length a = 3" "length b = 20" "length c = 2" by (rule decompose3)
  then show "length h = 20" "s = [OP_DUP, OP_HASH160, 20] @ h @ [OP_EQUALVERIFY, OP_CHECKSIG]"
    using assms list_nth_eq(3) [of a] list_nth_eq(2) [of c]
    by (auto simp: IsToKeyID_def nth_append split: if_splits)
qed

lemma IsToScriptID_Some:
  assumes "IsToScriptID s = Some h"
  shows "length h = 20" "s = [OP_HASH160, 20] @ h @ [OP_EQUAL]"
proof -
  from assms have "length s = 2 + 20 + 1" by (simp add: IsToScriptID_def split: if_splits)
  then obtain a b c where s: "s = a @ b @ c" "length a = 2" "length b = 20" "length c = 1" by (rule decompose3)
  then show "length h = 20" "s = [OP_HASH160, 20] @ h @ [OP_EQUAL]"
    using assms list_nth_eq(2) [of a] list_nth_eq(1) [of c]
    by (auto simp: IsToScriptID_def nth_append split: if_splits)
qed

lemma IsToPubKey_Some:
  assumes "IsToPubKey P s = Some k"
  shows "(length k = 33 \<and> (k ! 0 = 2 \<or> k ! 0 = 3) \<and> s = [33] @ k @ [OP_CHECKSIG]) \<or>
    (length k = 65 \<and> k ! 0 = 4 \<and> IsFullyValid P k \<and> s = [65] @ k @ [OP_CHECKSIG])"
proof -
  have build: "length t = 1 + n + 1 \<Longrightarrow> t = [t ! 0] @ take n (drop 1 t) @ [t ! (n + 1)]" for t :: script and n
  proof -
    assume "length t = 1 + n + 1"
    then obtain a b c where t: "t = a @ b @ c" "length a = 1" "length b = n" "length c = 1" by (rule decompose3)
    with list_nth_eq(1) [of a] list_nth_eq(1) [of c] show ?thesis by (simp add: nth_append)
  qed
  from assms consider
      "length s = 35" "s ! 0 = 33" "s ! 34 = OP_CHECKSIG" "s ! 1 = 2 \<or> s ! 1 = 3" "pubkey_Set (take 33 (drop 1 s)) = Some k"
    | "length s = 67" "s ! 0 = 65" "s ! 66 = OP_CHECKSIG" "s ! 1 = 4" "pubkey_Set (take 65 (drop 1 s)) = Some k" "IsFullyValid P k"
    by (auto simp: IsToPubKey_def split: if_splits option.splits)
  then show ?thesis
  proof cases
    case 1
    then have "k = take 33 (drop 1 s)" by (simp add: pubkey_Set_def Let_def split: if_splits)
    with 1 build [of s 33] show ?thesis by simp
  next
    case 2
    then have "k = take 65 (drop 1 s)" by (simp add: pubkey_Set_def Let_def split: if_splits)
    with 2 build [of s 65] show ?thesis by simp
  qed
qed

lemma ReadVarInt_small:
  "k \<in> {0, 1, 2, 3, 4, 5} \<Longrightarrow> rd_bind (ReadVarInt :: u32 reader) f (k # r) = f (ucast k) r"
  by (rule rd_bind_eq) (auto simp: ReadVarInt_def)

lemma script_Unserialize_special:
  assumes "k \<in> {0, 1, 2, 3, 4, 5}" "length b = GetSpecialSize (unat k)" "Decompress P (unat k) b = Inr (Some s)"
  shows "script_Unserialize P s0 (k # b @ r) = Inr (s, r)"
proof -
  have "unat (ucast k :: u32) = unat k" by (rule unat_ucast_up) simp
  moreover have "unat k < 6" using assms(1) by auto
  ultimately show ?thesis using assms
    by (simp add: script_Unserialize_def ReadVarInt_small blob.bind_read_back)
qed

lemma low_bit_cases: "(x :: u8) AND 1 = 0 \<or> x AND 1 = 1"
  using and_one_eq [of x] by (simp add: mod_2_eq_odd)

lemma Compress_read_back:
  assumes "pubkey_laws P" "Compress P s = Some c"
  shows "script_Unserialize P s0 (c @ r) = Inr (s, r)" "length s \<le> MAX_SCRIPT_SIZE"
proof -
  consider h where "IsToKeyID s = Some h" "c = 0 # h" | h where "IsToScriptID s = Some h" "c = 1 # h"
    | k where "IsToPubKey P s = Some k" "k ! 0 = 2 \<or> k ! 0 = 3" "c = k ! 0 # take 32 (drop 1 k)"
    | k where "IsToPubKey P s = Some k" "k ! 0 = 4" "c = (4 OR (k ! 64 AND 1)) # take 32 (drop 1 k)"
    using assms(2) by (auto simp: Compress_def split: option.splits if_splits)
  then have "script_Unserialize P s0 (c @ r) = Inr (s, r) \<and> length s \<le> MAX_SCRIPT_SIZE"
  proof cases
    case 1
    with IsToKeyID_Some [OF 1(1)] show ?thesis
      using script_Unserialize_special [of 0 h P s s0 r] by (simp add: GetSpecialSize_def Decompress_def MAX_SCRIPT_SIZE_def)
  next
    case 2
    with IsToScriptID_Some [OF 2(1)] show ?thesis
      using script_Unserialize_special [of 1 h P s s0 r] by (simp add: GetSpecialSize_def Decompress_def MAX_SCRIPT_SIZE_def)
  next
    case 3
    with IsToPubKey_Some [OF 3(1)] have k: "length k = 33" "s = [33] @ k @ [OP_CHECKSIG]" by auto
    then obtain x xs where kx: "k = x # xs" "length xs = 32" by (cases k) auto
    with 3 k show ?thesis
      using script_Unserialize_special [of x xs P s s0 r]
      by (auto simp: GetSpecialSize_def Decompress_def MAX_SCRIPT_SIZE_def)
  next
    case 4
    with IsToPubKey_Some [OF 4(1)] have k: "length k = 65" "IsFullyValid P k" "s = [65] @ k @ [OP_CHECKSIG]" by auto
    then obtain x xs where kx: "k = x # xs" "x = 4" using 4(2) by (cases k) auto
    have "pk_Decompress P ((2 OR (k ! 64 AND 1)) # take 32 (drop 1 k)) = Some k"
      using assms(1) k(1,2) kx unfolding pubkey_laws_def by auto
    with 4(3) k show ?thesis using low_bit_cases [of "k ! 64"]
      using script_Unserialize_special [of "4 OR (k ! 64 AND 1)" "take 32 (drop 1 k)" P s s0 r]
      by (auto simp: GetSpecialSize_def Decompress_def MAX_SCRIPT_SIZE_def pubkey_Set_def pubkey_GetLen_def)
  qed
  then show "script_Unserialize P s0 (c @ r) = Inr (s, r)" "length s \<le> MAX_SCRIPT_SIZE" by auto
qed

lemma script_read_back:
  assumes "pubkey_laws P" "length s < 2 ^ 31"
  shows "script_Unserialize P s0 (script_Serialize P s @ r) =
    Inr (if length s \<le> MAX_SCRIPT_SIZE then s else push_opcode s0 OP_RETURN, r)"
proof (cases "Compress P s")
  case (Some c)
  with Compress_read_back [OF assms(1) Some] show ?thesis by (simp add: script_Serialize_def)
next
  case None
  define w where "w = (of_nat (length s) + of_nat nSpecialScripts :: u32)"
  define n where "n = length s"
  have w: "w = of_nat (n + 6)" by (simp add: w_def n_def)
  have "n < 2 ^ 31" using assms(2) by (simp add: n_def)
  then have "(n + 6) mod 2 ^ 32 = n + 6" "n mod 2 ^ 32 = n" by simp_all
  then have u: "unat w = n + 6" "unat (of_nat n :: u32) = n" unfolding w unat_of_nat_mod by simp_all
  have "signed_take_bit 31 (int n) = int n" using \<open>n < 2 ^ 31\<close> by (intro signed_take_bit_int_eq_self) auto
  then have i: "sint (of_nat n :: u32) = int n" using sint_sbintrunc' [where 'a = 32, of "int n"] by simp
  have d: "w - of_nat nSpecialScripts = of_nat n" by (simp add: w)
  have "script_Unserialize P s0 (script_Serialize P s @ r) =
    (if n > MAX_SCRIPT_SIZE then rd_bind (stream_ignore (int n)) (\<lambda>_. rd_return (push_opcode s0 OP_RETURN)) else stream_read n) (s @ r)"
    unfolding script_Serialize_def script_Unserialize_def None option.case append_assoc
    by (subst w_def [symmetric], subst varint.bind_read_back) (simp_all only: Let_def d u i, simp)
  then show ?thesis by (simp add: n_def rd_bind_def stream_ignore_def not_le)
qed

section \<open>Outputs read back\<close>

lemma txoutc_read_back:
  assumes "pubkey_laws P" "0 \<le> nValue t" "9 * nValue t < 2 ^ 64" "length (scriptPubKey t) < 2 ^ 31"
  shows "\<exists>b. txoutc_Serialize P t = Inr b \<and> (\<forall>t0 r. txoutc_Unserialize P t0 (b @ r) =
      Inr (if length (scriptPubKey t) \<le> MAX_SCRIPT_SIZE then t
           else \<lparr>nValue = nValue t, scriptPubKey = push_opcode (scriptPubKey t0) OP_RETURN\<rparr>, r))"
proof -
  define n where "n = (word_of_int (nValue t) :: u64)"
  have "uint n = nValue t" using assms(2,3) unfolding n_def uint_word_of_int_eq by (simp add: take_bit_int_eq_self)
  then have "int (9 * unat n) = 9 * nValue t" by simp
  then have "int (9 * unat n) < int (2 ^ 64)" using assms(3) by simp
  then have "9 * unat n < 2 ^ 64" by (simp only: of_nat_less_iff)
  then obtain y where y: "CompressAmount n = Inr y" "DecompressAmount y = n" using DecompressAmount_CompressAmount by blast
  have "sint n = nValue t"
    unfolding n_def using assms(2,3) by (simp add: sint_sbintrunc' signed_take_bit_int_eq_self)
  moreover have "txoutc_Serialize P t = Inr (WriteVarInt y @ script_Serialize P (scriptPubKey t))"
    by (simp add: txoutc_Serialize_def y flip: n_def)
  ultimately show ?thesis
    using script_read_back [OF assms(1,4)] by (simp add: txoutc_Unserialize_def varint.read_back y rd_bind_def)
qed


definition one_key :: pubkey_ops where
  "one_key = \<lparr>IsFullyValid = (\<lambda>k. k = 4 # replicate 64 7),
     pk_Decompress = (\<lambda>k. if k = 3 # replicate 32 7 then Some (4 # replicate 64 7) else None)\<rparr>"

lemma one_key_laws: "pubkey_laws one_key"
proof -
  have "(4 # replicate 64 (7 :: u8)) ! 64 = 7" by (simp add: nth_Cons' )
  then show ?thesis by (auto simp: pubkey_laws_def one_key_def)
qed


end
