(* ===== verification/Coins.thy ===== *)
theory Coins
  imports Compressor
begin

text \<open>
  \<^verbatim>\<open>CCoins\<close> of \<^verbatim>\<open>src/coins.h\<close>, what is kept of a transaction while outputs of it are
  unspent, and the undo records of \<^verbatim>\<open>src/undo.h\<close>. Both are stored: a header code, a bit mask
  of the unspent outputs beyond the first two, and the outputs in compressed form. The sizes the code
  keeps in \<open>unsigned int\<close> are numbers here; the header code, where they meet, is a 32-bit word.
\<close>

section \<open>Unspent outputs of a transaction\<close>

record CCoins =
  cc_fCoinBase :: bool
  cc_vout :: "CTxOut list"
  cc_nHeight :: int
  cc_nVersion :: int

definition coins_empty :: CCoins where
  "coins_empty = \<lparr>cc_fCoinBase = False, cc_vout = [], cc_nHeight = 0, cc_nVersion = 0\<rparr>"

text \<open>The loop of \<open>Cleanup\<close> drops null outputs at the end.\<close>

fun drop_null :: "CTxOut list \<Rightarrow> CTxOut list" where
  "drop_null outs = (if outs \<noteq> [] \<and> txout_IsNull (last outs) then drop_null (butlast outs) else outs)"

declare drop_null.simps [simp del]

definition Cleanup :: "CCoins \<Rightarrow> CCoins" where
  "Cleanup c = c\<lparr>cc_vout := drop_null (cc_vout c)\<rparr>"

definition ClearUnspendable :: "CCoins \<Rightarrow> CCoins" where
  "ClearUnspendable c =
     Cleanup (c\<lparr>cc_vout := map (\<lambda>txout. if IsUnspendable (scriptPubKey txout) then txout_null else txout) (cc_vout c)\<rparr>)"

definition FromTx :: "CMutableTransaction \<Rightarrow> int \<Rightarrow> CCoins" where
  "FromTx tx nHeightIn =
     ClearUnspendable \<lparr>cc_fCoinBase = tx_IsCoinBase tx, cc_vout = vout tx, cc_nHeight = nHeightIn, cc_nVersion = nVersion tx\<rparr>"

definition IsPruned :: "CCoins \<Rightarrow> bool" where
  "IsPruned c \<longleftrightarrow> (\<forall>out\<in>set (cc_vout c). txout_IsNull out)"

definition coins_eq :: "CCoins \<Rightarrow> CCoins \<Rightarrow> bool" where
  "coins_eq a b \<longleftrightarrow>
     (IsPruned a \<and> IsPruned b) \<or>
     (cc_fCoinBase a = cc_fCoinBase b \<and> cc_nHeight a = cc_nHeight b \<and> cc_nVersion a = cc_nVersion b \<and> cc_vout a = cc_vout b)"

definition IsAvailable :: "CCoins \<Rightarrow> nat \<Rightarrow> bool" where
  "IsAvailable c nPos \<longleftrightarrow> nPos < length (cc_vout c) \<and> \<not> txout_IsNull (cc_vout c ! nPos)"

text \<open>\<open>None\<close> is the return value false, which leaves the object as it was.\<close>

definition Spend :: "CCoins \<Rightarrow> nat \<Rightarrow> CCoins option" where
  "Spend c nPos =
     (if nPos \<ge> length (cc_vout c) \<or> txout_IsNull (cc_vout c ! nPos) then None
      else Some (Cleanup (c\<lparr>cc_vout := (cc_vout c)[nPos := txout_null]\<rparr>)))"

definition TotalTxValue :: "CCoins \<Rightarrow> int" where
  "TotalTxValue c = foldl (\<lambda>total out. wrap64 (total + nValue out)) 0 (cc_vout c)"

section \<open>Storing the unspent outputs\<close>

text \<open>
  The loop of \<open>CalcMaskSize\<close> over the outputs from the third on, eight at a time: the number of bytes
  up to the last with an unspent output, and of bytes with an unspent output.
\<close>

function mask_loop :: "nat \<Rightarrow> CTxOut list \<Rightarrow> nat \<times> nat \<Rightarrow> nat \<times> nat" where
  "mask_loop b rest (nLastUsedByte, nNonzeroBytes) =
     (if rest = [] then (nLastUsedByte, nNonzeroBytes)
      else mask_loop (b + 1) (drop 8 rest)
             (if list_all txout_IsNull (take 8 rest) then (nLastUsedByte, nNonzeroBytes) else (b + 1, nNonzeroBytes + 1)))"
  by pat_completeness auto
termination by (relation "measure (\<lambda>(_, rest, _). length rest)") auto

declare mask_loop.simps [simp del]

definition CalcMaskSize :: "CCoins \<Rightarrow> nat \<times> nat" where
  "CalcMaskSize c = mask_loop 0 (drop 2 (cc_vout c)) (0, 0)"

text \<open>The byte of eight outputs, the first in the lowest bit.\<close>

fun avail_byte :: "nat \<Rightarrow> CTxOut list \<Rightarrow> u8" where
  "avail_byte i [] = 0"
| "avail_byte i (out # outs) = (if txout_IsNull out then 0 else push_bit i 1) OR avail_byte (i + 1) outs"

fun coins_outputs :: "pubkey_ops \<Rightarrow> CTxOut list \<Rightarrow> ser_error + bytes" where
  "coins_outputs P [] = Inr []"
| "coins_outputs P (out # outs) =
     (if txout_IsNull out then coins_outputs P outs
      else res_bind (txoutc_Serialize P out) (\<lambda>b. res_bind (coins_outputs P outs) (\<lambda>bs. Inr (b @ bs))))"

definition coins_Serialize :: "pubkey_ops \<Rightarrow> CCoins \<Rightarrow> ser_error + bytes" where
  "coins_Serialize P c =
     (let (nMaskSize, nMaskCode) = CalcMaskSize c;
          fFirst = IsAvailable c 0;
          fSecond = IsAvailable c 1
      in if \<not> (fFirst \<or> fSecond \<or> nMaskCode \<noteq> 0) then Inl SerAssert
         else let nCode = 8 * (of_nat nMaskCode - (if fFirst \<or> fSecond then 0 else 1)) + (if cc_fCoinBase c then 1 else 0) +
                          (if fFirst then 2 else 0) + (if fSecond then 4 else 0) :: u32
              in res_bind (coins_outputs P (cc_vout c)) (\<lambda>outs.
                   Inr (WriteVarInt_int (cc_nVersion c) @ WriteVarInt nCode @
                        map (\<lambda>b. avail_byte 0 (take 8 (drop (2 + b * 8) (cc_vout c)))) [0..<nMaskSize] @
                        outs @ WriteVarInt_int (cc_nHeight c))))"

text \<open>The mask: bytes are read until as many as announced were not zero.\<close>

fun read_mask :: "nat \<Rightarrow> bool list reader" where
  "read_mask nMaskCode [] = (if nMaskCode = 0 then Inr ([], []) else Inl EndOfData)"
| "read_mask nMaskCode (chAvail # s) =
     (if nMaskCode = 0 then Inr ([], chAvail # s)
      else res_bind (read_mask (if chAvail \<noteq> 0 then nMaskCode - 1 else nMaskCode) s) (\<lambda>(vAvail, r).
             Inr (map (\<lambda>p. chAvail AND push_bit p 1 \<noteq> 0) [0..<8] @ vAvail, r)))"

fun read_outputs :: "pubkey_ops \<Rightarrow> bool list \<Rightarrow> CTxOut list reader" where
  "read_outputs P [] = rd_return []"
| "read_outputs P (f # vAvail) =
     rd_bind (if f then txoutc_Unserialize P txout_null else rd_return txout_null) (\<lambda>out.
     rd_bind (read_outputs P vAvail) (\<lambda>outs. rd_return (out # outs)))"

definition coins_Unserialize :: "pubkey_ops \<Rightarrow> CCoins reader" where
  "coins_Unserialize P =
     rd_bind ReadVarInt_int (\<lambda>version.
     rd_bind (ReadVarInt :: u32 reader) (\<lambda>nCode.
     rd_bind (read_mask (unat (nCode div 8 + (if nCode AND 6 \<noteq> 0 then 0 else 1)))) (\<lambda>mask.
     rd_bind (read_outputs P ([nCode AND 2 \<noteq> 0, nCode AND 4 \<noteq> 0] @ mask)) (\<lambda>outs.
     rd_bind ReadVarInt_int (\<lambda>height.
       rd_return (Cleanup \<lparr>cc_fCoinBase = nCode AND 1 \<noteq> 0, cc_vout = outs, cc_nHeight = height, cc_nVersion = version\<rparr>))))))"

section \<open>Undo records\<close>

record CTxInUndo =
  ui_txout :: CTxOut
  ui_fCoinBase :: bool
  ui_nHeight :: u32
  ui_nVersion :: int

definition undo_Serialize :: "pubkey_ops \<Rightarrow> CTxInUndo \<Rightarrow> ser_error + bytes" where
  "undo_Serialize P u =
     res_bind (txoutc_Serialize P (ui_txout u)) (\<lambda>out.
       Inr (WriteVarInt (ui_nHeight u * 2 + (if ui_fCoinBase u then 1 else 0)) @
            (if ui_nHeight u > 0 then WriteVarInt_int (ui_nVersion u) else []) @ out))"

definition undo_default :: CTxInUndo where
  "undo_default = \<lparr>ui_txout = txout_null, ui_fCoinBase = False, ui_nHeight = 0, ui_nVersion = 0\<rparr>"

definition undo_Unserialize :: "pubkey_ops \<Rightarrow> CTxInUndo \<Rightarrow> CTxInUndo reader" where
  "undo_Unserialize P u0 =
     rd_bind (ReadVarInt :: u32 reader) (\<lambda>nCode.
     rd_bind (if nCode div 2 > 0 then ReadVarInt_int else rd_return (ui_nVersion u0)) (\<lambda>version.
     rd_bind (txoutc_Unserialize P (ui_txout u0)) (\<lambda>out.
       rd_return \<lparr>ui_txout = out, ui_fCoinBase = nCode AND 1 \<noteq> 0, ui_nHeight = nCode div 2, ui_nVersion = version\<rparr>)))"

fun Serialize_all :: "('a \<Rightarrow> ser_error + bytes) \<Rightarrow> 'a list \<Rightarrow> ser_error + bytes" where
  "Serialize_all ser [] = Inr []"
| "Serialize_all ser (x # xs) = res_bind (ser x) (\<lambda>b. res_bind (Serialize_all ser xs) (\<lambda>bs. Inr (b @ bs)))"

record CTxUndo =
  vprevout :: "CTxInUndo list"

definition txundo_Serialize :: "pubkey_ops \<Rightarrow> CTxUndo \<Rightarrow> ser_error + bytes" where
  "txundo_Serialize P u =
     res_bind (Serialize_all (undo_Serialize P) (vprevout u)) (\<lambda>bs. Inr (WriteCompactSize (of_nat (length (vprevout u))) @ bs))"

definition txundo_Unserialize :: "pubkey_ops \<Rightarrow> CTxUndo reader" where
  "txundo_Unserialize P =
     rd_bind (Unserialize_vector (undo_Unserialize P undo_default)) (\<lambda>v. rd_return \<lparr>vprevout = v\<rparr>)"

record CBlockUndo =
  vtxundo :: "CTxUndo list"
  old_sprout_tree_root :: uint256

definition blockundo_Serialize :: "pubkey_ops \<Rightarrow> CBlockUndo \<Rightarrow> ser_error + bytes" where
  "blockundo_Serialize P u =
     res_bind (Serialize_all (txundo_Serialize P) (vtxundo u)) (\<lambda>bs.
       Inr (WriteCompactSize (of_nat (length (vtxundo u))) @ bs @ old_sprout_tree_root u))"

definition blockundo_Unserialize :: "pubkey_ops \<Rightarrow> CBlockUndo reader" where
  "blockundo_Unserialize P =
     rd_bind (Unserialize_vector (txundo_Unserialize P)) (\<lambda>v.
     rd_bind (stream_read 32) (\<lambda>rt. rd_return \<lparr>vtxundo = v, old_sprout_tree_root = rt\<rparr>))"

end
