(* ===== verification/CoinsView.thy ===== *)
theory CoinsView
  imports Coins IncrementalMerkleTree "HOL-Library.AList"
begin

text \<open>
  \<^verbatim>\<open>src/coins.cpp\<close> and \<^verbatim>\<open>src/txdb.cpp\<close>: views of the unspent outputs, the anchors of
  the commitment trees and the spent nullifiers. A view is a state and a record of its virtual
  methods; the methods that C++ declares \<open>const\<close> may still fill mutable caches, so every method
  returns the state it leaves. \<open>CCoinsViewCache\<close> is such a record over any other, \<open>CCoinsViewDB\<close>
  one over the database, whose tables are maps here (the stored forms of their values are the
  subject of \<open>CoinsProps\<close> and \<open>IncrementalMerkleTreeProps\<close>). The pairs of members for Sprout and
  Sapling are functions of the \<open>ShieldedType\<close>. Hash maps are association lists without
  repeated keys, and an iteration follows the list; the estimate of a coin's memory is an argument \<open>U\<close>.
\<close>

datatype ShieldedType = SPROUT | SAPLING

type_synonym MerkleTree = "bytes IncrementalMerkleTree"

record CCoinsCacheEntry =
  ce_coins :: CCoins
  ce_DIRTY :: bool
  ce_FRESH :: bool

record CAnchorsCacheEntry =
  ae_entered :: bool
  ae_tree :: MerkleTree
  ae_DIRTY :: bool

record CNullifiersCacheEntry =
  ne_entered :: bool
  ne_DIRTY :: bool

type_synonym CCoinsMap = "(uint256 \<times> CCoinsCacheEntry) list"
type_synonym CAnchorsMap = "(uint256 \<times> CAnchorsCacheEntry) list"
type_synonym CNullifiersMap = "(uint256 \<times> CNullifiersCacheEntry) list"

text \<open>The arguments of \<open>BatchWrite\<close>.\<close>

record coins_batch =
  b_coins :: CCoinsMap
  b_hashBlock :: uint256
  b_hashAnchor :: "ShieldedType \<Rightarrow> uint256"
  b_anchors :: "ShieldedType \<Rightarrow> CAnchorsMap"
  b_nullifiers :: "ShieldedType \<Rightarrow> CNullifiersMap"

datatype coins_error =
  AssertModifier | AssertFresh | AssertAnchor | AssertOutput | TreeError tree_error | ValueOutOfRange

record 'v CCoinsView =
  v_GetAnchorAt :: "'v \<Rightarrow> ShieldedType \<Rightarrow> uint256 \<Rightarrow> MerkleTree option \<times> 'v"
  v_GetNullifier :: "'v \<Rightarrow> uint256 \<Rightarrow> ShieldedType \<Rightarrow> bool \<times> 'v"
  v_GetCoins :: "'v \<Rightarrow> uint256 \<Rightarrow> CCoins option \<times> 'v"
  v_HaveCoins :: "'v \<Rightarrow> uint256 \<Rightarrow> bool \<times> 'v"
  v_GetBestBlock :: "'v \<Rightarrow> uint256 \<times> 'v"
  v_GetBestAnchor :: "'v \<Rightarrow> ShieldedType \<Rightarrow> uint256 \<times> 'v"
  v_BatchWrite :: "'v \<Rightarrow> coins_batch \<Rightarrow> coins_error + bool \<times> 'v"

text \<open>The methods of the base class, which knows nothing.\<close>

definition CCoinsView_none :: "unit CCoinsView" where
  "CCoinsView_none =
     \<lparr>v_GetAnchorAt = (\<lambda>v type rt. (None, v)), v_GetNullifier = (\<lambda>v nf type. (False, v)),
      v_GetCoins = (\<lambda>v txid. (None, v)), v_HaveCoins = (\<lambda>v txid. (False, v)),
      v_GetBestBlock = (\<lambda>v. (uint256_null, v)), v_GetBestAnchor = (\<lambda>v type. (uint256_null, v)),
      v_BatchWrite = (\<lambda>v b. Inr (False, v))\<rparr>"

section \<open>The cache\<close>

record 'v CCoinsViewCache =
  cv_base :: 'v
  hasModifier :: bool
  hashBlock :: uint256
  cacheCoins :: CCoinsMap
  hashAnchor :: "ShieldedType \<Rightarrow> uint256"
  cacheAnchors :: "ShieldedType \<Rightarrow> CAnchorsMap"
  cacheNullifiers :: "ShieldedType \<Rightarrow> CNullifiersMap"
  cachedCoinsUsage :: u64

definition cache_new :: "'v \<Rightarrow> 'v CCoinsViewCache" where
  "cache_new base =
     \<lparr>cv_base = base, hasModifier = False, hashBlock = uint256_null, cacheCoins = [], hashAnchor = (\<lambda>_. uint256_null),
      cacheAnchors = (\<lambda>_. []), cacheNullifiers = (\<lambda>_. []), cachedCoinsUsage = 0\<rparr>"

definition tree_DynamicMemoryUsage :: "MerkleTree \<Rightarrow> u64" where
  "tree_DynamicMemoryUsage t = 32 + 32 + of_nat (length (parents t)) * 32"

definition FetchCoins :: "'v CCoinsView \<Rightarrow> (CCoins \<Rightarrow> u64) \<Rightarrow> 'v CCoinsViewCache \<Rightarrow> uint256 \<Rightarrow> CCoins option \<times> 'v CCoinsViewCache" where
  "FetchCoins V U c txid =
     (case map_of (cacheCoins c) txid of
        Some e \<Rightarrow> (Some (ce_coins e), c)
      | None \<Rightarrow>
        (let (r, b) = v_GetCoins V (cv_base c) txid; c = c\<lparr>cv_base := b\<rparr>
         in case r of
              None \<Rightarrow> (None, c)
            | Some tmp \<Rightarrow>
                (Some tmp,
                 c\<lparr>cacheCoins := AList.update txid \<lparr>ce_coins = tmp, ce_DIRTY = False, ce_FRESH = IsPruned tmp\<rparr> (cacheCoins c),
                   cachedCoinsUsage := cachedCoinsUsage c + U tmp\<rparr>)))"

definition cache_GetCoins :: "'v CCoinsView \<Rightarrow> (CCoins \<Rightarrow> u64) \<Rightarrow> 'v CCoinsViewCache \<Rightarrow> uint256 \<Rightarrow> CCoins option \<times> 'v CCoinsViewCache" where
  "cache_GetCoins V U c txid = FetchCoins V U c txid"

definition AccessCoins :: "'v CCoinsView \<Rightarrow> (CCoins \<Rightarrow> u64) \<Rightarrow> 'v CCoinsViewCache \<Rightarrow> uint256 \<Rightarrow> CCoins option \<times> 'v CCoinsViewCache" where
  "AccessCoins V U c txid = FetchCoins V U c txid"

definition cache_HaveCoins :: "'v CCoinsView \<Rightarrow> (CCoins \<Rightarrow> u64) \<Rightarrow> 'v CCoinsViewCache \<Rightarrow> uint256 \<Rightarrow> bool \<times> 'v CCoinsViewCache" where
  "cache_HaveCoins V U c txid =
     (let (r, c') = FetchCoins V U c txid in (case r of Some coins \<Rightarrow> cc_vout coins \<noteq> [] | None \<Rightarrow> False, c'))"

definition cache_GetAnchorAt :: "'v CCoinsView \<Rightarrow> 'v CCoinsViewCache \<Rightarrow> ShieldedType \<Rightarrow> uint256 \<Rightarrow> MerkleTree option \<times> 'v CCoinsViewCache" where
  "cache_GetAnchorAt V c type rt =
     (case map_of (cacheAnchors c type) rt of
        Some e \<Rightarrow> (if ae_entered e then Some (ae_tree e) else None, c)
      | None \<Rightarrow>
        (let (r, b) = v_GetAnchorAt V (cv_base c) type rt; c = c\<lparr>cv_base := b\<rparr>
         in case r of
              None \<Rightarrow> (None, c)
            | Some tree \<Rightarrow>
                (Some tree,
                 c\<lparr>cacheAnchors := (cacheAnchors c)(type := AList.update rt \<lparr>ae_entered = True, ae_tree = tree, ae_DIRTY = False\<rparr> (cacheAnchors c type)),
                   cachedCoinsUsage := cachedCoinsUsage c + tree_DynamicMemoryUsage tree\<rparr>)))"

definition cache_GetNullifier :: "'v CCoinsView \<Rightarrow> 'v CCoinsViewCache \<Rightarrow> uint256 \<Rightarrow> ShieldedType \<Rightarrow> bool \<times> 'v CCoinsViewCache" where
  "cache_GetNullifier V c nf type =
     (case map_of (cacheNullifiers c type) nf of
        Some e \<Rightarrow> (ne_entered e, c)
      | None \<Rightarrow>
        (let (tmp, b) = v_GetNullifier V (cv_base c) nf type; c = c\<lparr>cv_base := b\<rparr>
         in (tmp, c\<lparr>cacheNullifiers := (cacheNullifiers c)(type := AList.update nf \<lparr>ne_entered = tmp, ne_DIRTY = False\<rparr> (cacheNullifiers c type))\<rparr>)))"

definition cache_GetBestBlock :: "'v CCoinsView \<Rightarrow> 'v CCoinsViewCache \<Rightarrow> uint256 \<times> 'v CCoinsViewCache" where
  "cache_GetBestBlock V c =
     (if hashBlock c = uint256_null
      then let (h, b) = v_GetBestBlock V (cv_base c) in (h, c\<lparr>cv_base := b, hashBlock := h\<rparr>)
      else (hashBlock c, c))"

definition cache_GetBestAnchor :: "'v CCoinsView \<Rightarrow> 'v CCoinsViewCache \<Rightarrow> ShieldedType \<Rightarrow> uint256 \<times> 'v CCoinsViewCache" where
  "cache_GetBestAnchor V c type =
     (if hashAnchor c type = uint256_null
      then let (h, b) = v_GetBestAnchor V (cv_base c) type in (h, c\<lparr>cv_base := b, hashAnchor := (hashAnchor c)(type := h)\<rparr>)
      else (hashAnchor c type, c))"

definition SetBestBlock :: "'v CCoinsViewCache \<Rightarrow> uint256 \<Rightarrow> 'v CCoinsViewCache" where
  "SetBestBlock c h = c\<lparr>hashBlock := h\<rparr>"

section \<open>Modifying coins\<close>

text \<open>
  \<open>ModifyCoins\<close> returns an object through which the coins are changed and whose destructor runs
  when the caller is done; the number is the usage the object remembers.
\<close>

definition ModifyCoins :: "'v CCoinsView \<Rightarrow> (CCoins \<Rightarrow> u64) \<Rightarrow> 'v CCoinsViewCache \<Rightarrow> uint256 \<Rightarrow> coins_error + u64 \<times> 'v CCoinsViewCache" where
  "ModifyCoins V U c txid =
     (if hasModifier c then Inl AssertModifier
      else case map_of (cacheCoins c) txid of
             Some e \<Rightarrow> Inr (U (ce_coins e), c\<lparr>cacheCoins := AList.update txid (e\<lparr>ce_DIRTY := True\<rparr>) (cacheCoins c), hasModifier := True\<rparr>)
           | None \<Rightarrow>
               (let (r, b) = v_GetCoins V (cv_base c) txid;
                    e = (case r of None \<Rightarrow> \<lparr>ce_coins = coins_empty, ce_DIRTY = True, ce_FRESH = True\<rparr>
                         | Some coins \<Rightarrow> \<lparr>ce_coins = coins, ce_DIRTY = True, ce_FRESH = IsPruned coins\<rparr>)
                in Inr (0, c\<lparr>cv_base := b, cacheCoins := AList.update txid e (cacheCoins c), hasModifier := True\<rparr>)))"

definition modifier_update :: "'v CCoinsViewCache \<Rightarrow> uint256 \<Rightarrow> (CCoins \<Rightarrow> CCoins) \<Rightarrow> 'v CCoinsViewCache" where
  "modifier_update c txid f =
     (case map_of (cacheCoins c) txid of
        Some e \<Rightarrow> c\<lparr>cacheCoins := AList.update txid (e\<lparr>ce_coins := f (ce_coins e)\<rparr>) (cacheCoins c)\<rparr>
      | None \<Rightarrow> c)"

definition modifier_destroy :: "(CCoins \<Rightarrow> u64) \<Rightarrow> 'v CCoinsViewCache \<Rightarrow> uint256 \<Rightarrow> u64 \<Rightarrow> coins_error + 'v CCoinsViewCache" where
  "modifier_destroy U c txid cachedCoinUsage =
     (if \<not> hasModifier c then Inl AssertModifier
      else case map_of (cacheCoins c) txid of
             None \<Rightarrow> Inl AssertModifier
           | Some e \<Rightarrow>
               (let coins = Cleanup (ce_coins e)
                in Inr (if ce_FRESH e \<and> IsPruned coins
                        then c\<lparr>hasModifier := False, cachedCoinsUsage := cachedCoinsUsage c - cachedCoinUsage,
                               cacheCoins := AList.delete txid (cacheCoins c)\<rparr>
                        else c\<lparr>hasModifier := False, cachedCoinsUsage := cachedCoinsUsage c - cachedCoinUsage + U coins,
                               cacheCoins := AList.update txid (e\<lparr>ce_coins := coins\<rparr>) (cacheCoins c)\<rparr>)))"

definition modify_coins :: "'v CCoinsView \<Rightarrow> (CCoins \<Rightarrow> u64) \<Rightarrow> 'v CCoinsViewCache \<Rightarrow> uint256 \<Rightarrow> (CCoins \<Rightarrow> CCoins) \<Rightarrow> coins_error + 'v CCoinsViewCache" where
  "modify_coins V U c txid f =
     res_bind (ModifyCoins V U c txid) (\<lambda>(usage, c). modifier_destroy U (modifier_update c txid f) txid usage)"

section \<open>Anchors and nullifiers\<close>

text \<open>The two instances of the tree differ in depth and hash.\<close>

record tree_params =
  tp_hash :: "bytes hash_ops"
  tp_depth :: nat

definition tp_root :: "tree_params \<Rightarrow> MerkleTree \<Rightarrow> uint256" where
  "tp_root p t = tree_root (tp_hash p) (tp_depth p) t"

definition tp_empty_root :: "tree_params \<Rightarrow> uint256" where
  "tp_empty_root p = empty_root (tp_hash p) (tp_depth p)"

definition PushAnchor :: "'v CCoinsView \<Rightarrow> (ShieldedType \<Rightarrow> tree_params) \<Rightarrow> 'v CCoinsViewCache \<Rightarrow> ShieldedType \<Rightarrow> MerkleTree \<Rightarrow> 'v CCoinsViewCache" where
  "PushAnchor V T c type tree =
     (let newrt = tp_root (T type) tree; (currentRoot, c) = cache_GetBestAnchor V c type
      in if currentRoot \<noteq> newrt
         then c\<lparr>cacheAnchors := (cacheAnchors c)(type := AList.update newrt \<lparr>ae_entered = True, ae_tree = tree, ae_DIRTY = True\<rparr> (cacheAnchors c type)),
                cachedCoinsUsage := (if map_of (cacheAnchors c type) newrt = None then cachedCoinsUsage c + tree_DynamicMemoryUsage tree else cachedCoinsUsage c),
                hashAnchor := (hashAnchor c)(type := newrt)\<rparr>
         else c)"

definition PopAnchor :: "'v CCoinsView \<Rightarrow> 'v CCoinsViewCache \<Rightarrow> uint256 \<Rightarrow> ShieldedType \<Rightarrow> coins_error + 'v CCoinsViewCache" where
  "PopAnchor V c newrt type =
     (let (currentRoot, c) = cache_GetBestAnchor V c type
      in if currentRoot \<noteq> newrt
         then (let (r, c) = cache_GetAnchorAt V c type currentRoot
               in case (r, map_of (cacheAnchors c type) currentRoot) of
                    (Some tree, Some e) \<Rightarrow>
                      Inr (c\<lparr>cacheAnchors := (cacheAnchors c)(type :=
                               AList.update currentRoot (e\<lparr>ae_entered := False, ae_DIRTY := True\<rparr>) (cacheAnchors c type)),
                             hashAnchor := (hashAnchor c)(type := newrt)\<rparr>)
                  | _ \<Rightarrow> Inl AssertAnchor)
         else Inr c)"

definition set_nullifier :: "bool \<Rightarrow> CNullifiersMap \<Rightarrow> uint256 \<Rightarrow> CNullifiersMap" where
  "set_nullifier spent m nf = AList.update nf \<lparr>ne_entered = spent, ne_DIRTY = True\<rparr> m"

definition SetNullifiers :: "'v CCoinsViewCache \<Rightarrow> CMutableTransaction \<Rightarrow> bool \<Rightarrow> 'v CCoinsViewCache" where
  "SetNullifiers c tx spent =
     c\<lparr>cacheNullifiers := (\<lambda>type. case type of
         SPROUT \<Rightarrow> foldl (set_nullifier spent) (cacheNullifiers c SPROUT) (concat (map js_nullifiers (vjoinsplit tx)))
       | SAPLING \<Rightarrow> foldl (set_nullifier spent) (cacheNullifiers c SAPLING) (map sd_nullifier (vShieldedSpend tx)))\<rparr>"

section \<open>Writing a batch to a cache\<close>

definition write_nullifier :: "CNullifiersMap \<Rightarrow> uint256 \<times> CNullifiersCacheEntry \<Rightarrow> CNullifiersMap" where
  "write_nullifier m ke =
     (let (k, child) = ke
      in if ne_DIRTY child
         then case map_of m k of
                None \<Rightarrow> AList.update k \<lparr>ne_entered = ne_entered child, ne_DIRTY = True\<rparr> m
              | Some par \<Rightarrow>
                  if ne_entered par \<noteq> ne_entered child then AList.update k \<lparr>ne_entered = ne_entered child, ne_DIRTY = True\<rparr> m else m
         else m)"

definition write_anchor :: "CAnchorsMap \<times> u64 \<Rightarrow> uint256 \<times> CAnchorsCacheEntry \<Rightarrow> CAnchorsMap \<times> u64" where
  "write_anchor mu ke =
     (let (m, usage) = mu; (k, child) = ke
      in if ae_DIRTY child
         then case map_of m k of
                None \<Rightarrow> (AList.update k (child\<lparr>ae_DIRTY := True\<rparr>) m, usage + tree_DynamicMemoryUsage (ae_tree child))
              | Some par \<Rightarrow>
                  (if ae_entered par \<noteq> ae_entered child
                   then AList.update k (par\<lparr>ae_entered := ae_entered child, ae_DIRTY := True\<rparr>) m else m, usage)
         else (m, usage))"

definition write_coin :: "(CCoins \<Rightarrow> u64) \<Rightarrow> CCoinsMap \<times> u64 \<Rightarrow> uint256 \<times> CCoinsCacheEntry \<Rightarrow> coins_error + CCoinsMap \<times> u64" where
  "write_coin U mu ke =
     (let (m, usage) = mu; (k, child) = ke
      in if ce_DIRTY child
         then case map_of m k of
                None \<Rightarrow>
                  (if \<not> IsPruned (ce_coins child)
                   then if \<not> ce_FRESH child then Inl AssertFresh
                        else Inr (AList.update k \<lparr>ce_coins = ce_coins child, ce_DIRTY = True, ce_FRESH = True\<rparr> m, usage + U (ce_coins child))
                   else Inr (m, usage))
              | Some us \<Rightarrow>
                  Inr (if ce_FRESH us \<and> IsPruned (ce_coins child) then (AList.delete k m, usage - U (ce_coins us))
                       else (AList.update k (us\<lparr>ce_coins := ce_coins child, ce_DIRTY := True\<rparr>) m, usage - U (ce_coins us) + U (ce_coins child)))
         else Inr (m, usage))"

fun write_coins :: "(CCoins \<Rightarrow> u64) \<Rightarrow> CCoinsMap \<times> u64 \<Rightarrow> CCoinsMap \<Rightarrow> coins_error + CCoinsMap \<times> u64" where
  "write_coins U mu [] = Inr mu"
| "write_coins U mu (ke # kes) = res_bind (write_coin U mu ke) (\<lambda>mu. write_coins U mu kes)"

definition cache_BatchWrite :: "(CCoins \<Rightarrow> u64) \<Rightarrow> 'v CCoinsViewCache \<Rightarrow> coins_batch \<Rightarrow> coins_error + bool \<times> 'v CCoinsViewCache" where
  "cache_BatchWrite U c b =
     (if hasModifier c then Inl AssertModifier
      else res_bind (write_coins U (cacheCoins c, cachedCoinsUsage c) (b_coins b)) (\<lambda>(coins, usage).
             let (sprout, usage) = foldl write_anchor (cacheAnchors c SPROUT, usage) (b_anchors b SPROUT);
                 (sapling, usage) = foldl write_anchor (cacheAnchors c SAPLING, usage) (b_anchors b SAPLING)
             in Inr (True,
                  c\<lparr>cacheCoins := coins, cachedCoinsUsage := usage,
                    cacheAnchors := (\<lambda>type. case type of SPROUT \<Rightarrow> sprout | SAPLING \<Rightarrow> sapling),
                    cacheNullifiers := (\<lambda>type. foldl write_nullifier (cacheNullifiers c type) (b_nullifiers b type)),
                    hashAnchor := b_hashAnchor b, hashBlock := b_hashBlock b\<rparr>)))"

definition Flush :: "'v CCoinsView \<Rightarrow> 'v CCoinsViewCache \<Rightarrow> coins_error + bool \<times> 'v CCoinsViewCache" where
  "Flush V c =
     res_bind (v_BatchWrite V (cv_base c)
         \<lparr>b_coins = cacheCoins c, b_hashBlock = hashBlock c, b_hashAnchor = hashAnchor c,
          b_anchors = cacheAnchors c, b_nullifiers = cacheNullifiers c\<rparr>) (\<lambda>(fOk, b).
       Inr (fOk, c\<lparr>cv_base := b, cacheCoins := [], cacheAnchors := (\<lambda>_. []), cacheNullifiers := (\<lambda>_. []), cachedCoinsUsage := 0\<rparr>))"

text \<open>The cache as a view of its own.\<close>

definition CCoinsViewCache_ops :: "'v CCoinsView \<Rightarrow> (CCoins \<Rightarrow> u64) \<Rightarrow> 'v CCoinsViewCache CCoinsView" where
  "CCoinsViewCache_ops V U =
     \<lparr>v_GetAnchorAt = cache_GetAnchorAt V, v_GetNullifier = cache_GetNullifier V, v_GetCoins = cache_GetCoins V U,
      v_HaveCoins = cache_HaveCoins V U, v_GetBestBlock = cache_GetBestBlock V, v_GetBestAnchor = cache_GetBestAnchor V,
      v_BatchWrite = cache_BatchWrite U\<rparr>"

section \<open>What transactions ask of a cache\<close>

definition GetOutputFor :: "'v CCoinsView \<Rightarrow> (CCoins \<Rightarrow> u64) \<Rightarrow> 'v CCoinsViewCache \<Rightarrow> CTxIn \<Rightarrow> coins_error + CTxOut \<times> 'v CCoinsViewCache" where
  "GetOutputFor V U c input =
     (case AccessCoins V U c (op_hash (prevout input)) of
        (Some coins, c) \<Rightarrow>
          if IsAvailable coins (unat (op_n (prevout input))) then Inr (cc_vout coins ! unat (op_n (prevout input)), c) else Inl AssertOutput
      | (None, c) \<Rightarrow> Inl AssertOutput)"

fun have_inputs :: "'v CCoinsView \<Rightarrow> (CCoins \<Rightarrow> u64) \<Rightarrow> 'v CCoinsViewCache \<Rightarrow> CTxIn list \<Rightarrow> bool \<times> 'v CCoinsViewCache" where
  "have_inputs V U c [] = (True, c)"
| "have_inputs V U c (i # is) =
     (case AccessCoins V U c (op_hash (prevout i)) of
        (Some coins, c) \<Rightarrow> if IsAvailable coins (unat (op_n (prevout i))) then have_inputs V U c is else (False, c)
      | (None, c) \<Rightarrow> (False, c))"

definition HaveInputs :: "'v CCoinsView \<Rightarrow> (CCoins \<Rightarrow> u64) \<Rightarrow> 'v CCoinsViewCache \<Rightarrow> CMutableTransaction \<Rightarrow> bool \<times> 'v CCoinsViewCache" where
  "HaveInputs V U c tx = (if tx_IsMint tx then (True, c) else have_inputs V U c (vin tx))"

fun any_nullifier :: "'v CCoinsView \<Rightarrow> 'v CCoinsViewCache \<Rightarrow> ShieldedType \<Rightarrow> uint256 list \<Rightarrow> bool \<times> 'v CCoinsViewCache" where
  "any_nullifier V c type [] = (False, c)"
| "any_nullifier V c type (nf # nfs) =
     (case cache_GetNullifier V c nf type of (spent, c) \<Rightarrow> if spent then (True, c) else any_nullifier V c type nfs)"

fun tree_append_all :: "tree_params \<Rightarrow> MerkleTree \<Rightarrow> uint256 list \<Rightarrow> tree_error + MerkleTree" where
  "tree_append_all p t [] = Inr t"
| "tree_append_all p t (x # xs) = res_bind (tree_append (tp_hash p) (tp_depth p) t x) (\<lambda>t. tree_append_all p t xs)"

text \<open>
  The joinsplits of a transaction may refer to trees that earlier joinsplits of it would make: the
  map of these intermediate trees. An insertion of a key that is there changes nothing.
\<close>

fun joinsplits_ok :: "'v CCoinsView \<Rightarrow> tree_params \<Rightarrow> 'v CCoinsViewCache \<Rightarrow> (uint256 \<times> MerkleTree) list \<Rightarrow> JSDescription list \<Rightarrow>
    coins_error + bool \<times> 'v CCoinsViewCache" where
  "joinsplits_ok V p c intermediates [] = Inr (True, c)"
| "joinsplits_ok V p c intermediates (js # jss) =
     (case any_nullifier V c SPROUT (js_nullifiers js) of
        (True, c) \<Rightarrow> Inr (False, c)
      | (False, c) \<Rightarrow>
        (case (case map_of intermediates (js_anchor js) of Some t \<Rightarrow> (Some t, c) | None \<Rightarrow> cache_GetAnchorAt V c SPROUT (js_anchor js)) of
           (None, c) \<Rightarrow> Inr (False, c)
         | (Some tree, c) \<Rightarrow>
             (case tree_append_all p tree (js_commitments js) of
                Inl e \<Rightarrow> Inl (TreeError e)
              | Inr tree \<Rightarrow>
                  joinsplits_ok V p c
                    (if map_of intermediates (tp_root p tree) = None then (tp_root p tree, tree) # intermediates else intermediates) jss)))"

fun spends_ok :: "'v CCoinsView \<Rightarrow> 'v CCoinsViewCache \<Rightarrow> SpendDescription list \<Rightarrow> bool \<times> 'v CCoinsViewCache" where
  "spends_ok V c [] = (True, c)"
| "spends_ok V c (sd # sds) =
     (case cache_GetNullifier V c (sd_nullifier sd) SAPLING of
        (True, c) \<Rightarrow> (False, c)
      | (False, c) \<Rightarrow>
        (case cache_GetAnchorAt V c SAPLING (sd_anchor sd) of (None, c) \<Rightarrow> (False, c) | (Some t, c) \<Rightarrow> spends_ok V c sds))"

definition HaveJoinSplitRequirements ::
    "'v CCoinsView \<Rightarrow> (ShieldedType \<Rightarrow> tree_params) \<Rightarrow> 'v CCoinsViewCache \<Rightarrow> CMutableTransaction \<Rightarrow> coins_error + bool \<times> 'v CCoinsViewCache" where
  "HaveJoinSplitRequirements V T c tx =
     res_bind (joinsplits_ok V (T SPROUT) c [] (vjoinsplit tx)) (\<lambda>(r, c).
       if r then Inr (spends_ok V c (vShieldedSpend tx)) else Inr (False, c))"

section \<open>The database\<close>

record coins_db =
  db_coins :: "uint256 \<rightharpoonup> CCoins"
  db_anchors :: "ShieldedType \<Rightarrow> uint256 \<rightharpoonup> MerkleTree"
  db_nullifiers :: "ShieldedType \<Rightarrow> uint256 set"
  db_best_block :: "uint256 option"
  db_best_anchor :: "ShieldedType \<Rightarrow> uint256 option"

definition db_GetAnchorAt :: "(ShieldedType \<Rightarrow> tree_params) \<Rightarrow> coins_db \<Rightarrow> ShieldedType \<Rightarrow> uint256 \<Rightarrow> MerkleTree option \<times> coins_db" where
  "db_GetAnchorAt T d type rt = (if rt = tp_empty_root (T type) then Some tree_empty else db_anchors d type rt, d)"

definition db_GetNullifier :: "coins_db \<Rightarrow> uint256 \<Rightarrow> ShieldedType \<Rightarrow> bool \<times> coins_db" where
  "db_GetNullifier d nf type = (nf \<in> db_nullifiers d type, d)"

definition db_GetCoins :: "coins_db \<Rightarrow> uint256 \<Rightarrow> CCoins option \<times> coins_db" where
  "db_GetCoins d txid = (db_coins d txid, d)"

definition db_HaveCoins :: "coins_db \<Rightarrow> uint256 \<Rightarrow> bool \<times> coins_db" where
  "db_HaveCoins d txid = (db_coins d txid \<noteq> None, d)"

definition db_GetBestBlock :: "coins_db \<Rightarrow> uint256 \<times> coins_db" where
  "db_GetBestBlock d = (case db_best_block d of None \<Rightarrow> uint256_null | Some h \<Rightarrow> h, d)"

definition db_GetBestAnchor :: "(ShieldedType \<Rightarrow> tree_params) \<Rightarrow> coins_db \<Rightarrow> ShieldedType \<Rightarrow> uint256 \<times> coins_db" where
  "db_GetBestAnchor T d type = (case db_best_anchor d type of None \<Rightarrow> tp_empty_root (T type) | Some h \<Rightarrow> h, d)"

definition db_write_nullifier :: "uint256 set \<Rightarrow> uint256 \<times> CNullifiersCacheEntry \<Rightarrow> uint256 set" where
  "db_write_nullifier m ke = (let (k, e) = ke in if ne_DIRTY e then if \<not> ne_entered e then m - {k} else insert k m else m)"

definition db_write_anchor :: "tree_params \<Rightarrow> (uint256 \<rightharpoonup> MerkleTree) \<Rightarrow> uint256 \<times> CAnchorsCacheEntry \<Rightarrow> (uint256 \<rightharpoonup> MerkleTree)" where
  "db_write_anchor p m ke =
     (let (k, e) = ke
      in if ae_DIRTY e
         then if \<not> ae_entered e then m(k := None)
              else if k \<noteq> tp_empty_root p then m(k \<mapsto> ae_tree e) else m
         else m)"

definition db_write_coin :: "(uint256 \<rightharpoonup> CCoins) \<Rightarrow> uint256 \<times> CCoinsCacheEntry \<Rightarrow> (uint256 \<rightharpoonup> CCoins)" where
  "db_write_coin m ke =
     (let (k, e) = ke in if ce_DIRTY e then if IsPruned (ce_coins e) then m(k := None) else m(k \<mapsto> ce_coins e) else m)"

definition db_BatchWrite :: "(ShieldedType \<Rightarrow> tree_params) \<Rightarrow> coins_db \<Rightarrow> coins_batch \<Rightarrow> coins_error + bool \<times> coins_db" where
  "db_BatchWrite T d b =
     Inr (True,
       \<lparr>db_coins = foldl db_write_coin (db_coins d) (b_coins b),
        db_anchors = (\<lambda>type. foldl (db_write_anchor (T type)) (db_anchors d type) (b_anchors b type)),
        db_nullifiers = (\<lambda>type. foldl db_write_nullifier (db_nullifiers d type) (b_nullifiers b type)),
        db_best_block = (if b_hashBlock b \<noteq> uint256_null then Some (b_hashBlock b) else db_best_block d),
        db_best_anchor = (\<lambda>type. if b_hashAnchor b type \<noteq> uint256_null then Some (b_hashAnchor b type) else db_best_anchor d type)\<rparr>)"

definition CCoinsViewDB_ops :: "(ShieldedType \<Rightarrow> tree_params) \<Rightarrow> coins_db CCoinsView" where
  "CCoinsViewDB_ops T =
     \<lparr>v_GetAnchorAt = db_GetAnchorAt T, v_GetNullifier = db_GetNullifier, v_GetCoins = db_GetCoins, v_HaveCoins = db_HaveCoins,
      v_GetBestBlock = db_GetBestBlock, v_GetBestAnchor = db_GetBestAnchor T, v_BatchWrite = db_BatchWrite T\<rparr>"

end
