(* ===== verification/ConnectBlock.thy ===== *)
theory ConnectBlock
  imports CoinsView Block
begin

text \<open>
  What connecting and disconnecting a block does to a view of the coins: \<open>UpdateCoins\<close>,
  \<open>ApplyTxInUndo\<close>, \<open>DisconnectBlock\<close> and the part of \<open>ConnectBlock\<close> that changes the view, all of
  \<^verbatim>\<open>src/main.cpp\<close>, and the tombstones of coin imports of \<^verbatim>\<open>src/importcoin.cpp\<close>. Of the checks of
  \<open>ConnectBlock\<close> the ones that concern the view are here: the best block, overwritten transactions, missing
  inputs and the requirements of shielded spends. The others (values, signature operations, scripts, rewards,
  notarisations) only reject a block. The genesis block, for which the code only sets the best block, and the
  optional address, spent and timestamp indexes are left out.
\<close>

datatype connect_error =
    CoinsError coins_error
  | AssertSpent
  | AssertBest
  | AssertTree
  | AppendError tree_error
  | NoHash
  | IndexRange
  | NotBestBlock
  | Overwrites
  | MissingInputs
  | JoinSplitRequirements
  | NoUndoData
  | UndoInconsistent

definition lift_coins :: "coins_error + 'a \<Rightarrow> connect_error + 'a" where
  "lift_coins r = (case r of Inl e \<Rightarrow> Inl (CoinsError e) | Inr x \<Rightarrow> Inr x)"

section \<open>Changing coins through a modifier\<close>

text \<open>The life of a \<open>CCoinsModifier\<close>: the block of code that uses it may fail, and may return a value.\<close>

definition modify_with ::
    "'v CCoinsView \<Rightarrow> (CCoins \<Rightarrow> u64) \<Rightarrow> 'v CCoinsViewCache \<Rightarrow> uint256 \<Rightarrow> (CCoins \<Rightarrow> connect_error + 'a \<times> CCoins) \<Rightarrow>
     connect_error + 'a \<times> 'v CCoinsViewCache" where
  "modify_with V U c txid body =
     res_bind (lift_coins (ModifyCoins V U c txid)) (\<lambda>(usage, c).
       case map_of (cacheCoins c) txid of
         None \<Rightarrow> Inl IndexRange
       | Some e \<Rightarrow>
           res_bind (body (ce_coins e)) (\<lambda>(x, coins).
           res_bind (lift_coins (modifier_destroy U (modifier_update c txid (\<lambda>_. coins)) txid usage)) (\<lambda>c. Inr (x, c))))"

section \<open>Spending and adding\<close>

definition undo_of_txout :: "CTxOut \<Rightarrow> CTxInUndo" where
  "undo_of_txout out = \<lparr>ui_txout = out, ui_fCoinBase = False, ui_nHeight = 0, ui_nVersion = 0\<rparr>"

text \<open>The metadata go into the undo record with the last output that is spent.\<close>

definition spend_body :: "nat \<Rightarrow> CCoins \<Rightarrow> connect_error + CTxInUndo \<times> CCoins" where
  "spend_body nPos coins =
     (if nPos \<ge> length (cc_vout coins) \<or> txout_IsNull (cc_vout coins ! nPos) then Inl AssertSpent
      else let undo = undo_of_txout (cc_vout coins ! nPos);
               coins = (case Spend coins nPos of None \<Rightarrow> coins | Some c \<Rightarrow> c)
           in Inr (if cc_vout coins = []
                   then undo\<lparr>ui_nHeight := word_of_int (cc_nHeight coins), ui_fCoinBase := cc_fCoinBase coins, ui_nVersion := cc_nVersion coins\<rparr>
                   else undo, coins))"

fun spend_inputs ::
    "'v CCoinsView \<Rightarrow> (CCoins \<Rightarrow> u64) \<Rightarrow> 'v CCoinsViewCache \<Rightarrow> CTxIn list \<Rightarrow> connect_error + CTxInUndo list \<times> 'v CCoinsViewCache" where
  "spend_inputs V U c [] = Inr ([], c)"
| "spend_inputs V U c (txin # txins) =
     res_bind (modify_with V U c (op_hash (prevout txin)) (spend_body (unat (op_n (prevout txin))))) (\<lambda>(undo, c).
     res_bind (spend_inputs V U c txins) (\<lambda>(undos, c). Inr (undo # undos, c)))"

definition AddImportTombstone ::
    "'v CCoinsView \<Rightarrow> (CCoins \<Rightarrow> u64) \<Rightarrow> CMutableTransaction \<Rightarrow> 'v CCoinsViewCache \<Rightarrow> int \<Rightarrow> connect_error + 'v CCoinsViewCache" where
  "AddImportTombstone V U importTx c nHeight =
     res_bind (modify_with V U c (op_hash (prevout (vin importTx ! 0))) (\<lambda>coins.
       Inr ((), coins\<lparr>cc_nHeight := nHeight, cc_nVersion := 4, cc_vout := cc_vout coins @ [\<lparr>nValue = 0, scriptPubKey = [OP_0]\<rparr>]\<rparr>)))
       (\<lambda>(_, c). Inr c)"

definition RemoveImportTombstone ::
    "'v CCoinsView \<Rightarrow> (CCoins \<Rightarrow> u64) \<Rightarrow> CMutableTransaction \<Rightarrow> 'v CCoinsViewCache \<Rightarrow> connect_error + 'v CCoinsViewCache" where
  "RemoveImportTombstone V U importTx c =
     res_bind (modify_with V U c (op_hash (prevout (vin importTx ! 0))) (\<lambda>coins. Inr ((), coins_empty))) (\<lambda>(_, c). Inr c)"

definition GetHash :: "CTransaction \<Rightarrow> connect_error + uint256" where
  "GetHash tx = (case ct_hash tx of Inl e \<Rightarrow> Inl NoHash | Inr h \<Rightarrow> Inr h)"

definition UpdateCoins ::
    "'v CCoinsView \<Rightarrow> (CCoins \<Rightarrow> u64) \<Rightarrow> CTransaction \<Rightarrow> 'v CCoinsViewCache \<Rightarrow> int \<Rightarrow> connect_error + CTxUndo \<times> 'v CCoinsViewCache" where
  "UpdateCoins V U tx inputs nHeight =
     res_bind (if \<not> tx_IsMint (ct_tx tx) then spend_inputs V U inputs (vin (ct_tx tx)) else Inr ([], inputs)) (\<lambda>(undos, inputs).
     res_bind (GetHash tx) (\<lambda>hash.
     res_bind (modify_with V U (SetNullifiers inputs (ct_tx tx) True) hash (\<lambda>_. Inr ((), FromTx (ct_tx tx) nHeight))) (\<lambda>(_, inputs).
     res_bind (if tx_IsCoinImport (ct_tx tx) then AddImportTombstone V U (ct_tx tx) inputs nHeight else Inr inputs) (\<lambda>inputs.
       Inr (\<lparr>vprevout = undos\<rparr>, inputs)))))"

section \<open>Undoing\<close>

text \<open>\<open>resize\<close> fills up with null outputs. The value is the flag \<open>fClean\<close>.\<close>

definition undo_body :: "CTxInUndo \<Rightarrow> u32 \<Rightarrow> CCoins \<Rightarrow> connect_error + bool \<times> CCoins" where
  "undo_body undo n coins =
     (let clean1 = (if ui_nHeight undo \<noteq> 0 then IsPruned coins else \<not> IsPruned coins);
          coins1 = (if ui_nHeight undo \<noteq> 0
                    then \<lparr>cc_fCoinBase = ui_fCoinBase undo, cc_vout = [], cc_nHeight = sint (ui_nHeight undo), cc_nVersion = ui_nVersion undo\<rparr>
                    else coins);
          clean2 = (\<not> IsAvailable coins1 (unat n));
          vout2 = (if length (cc_vout coins1) < unat (n + 1)
                   then cc_vout coins1 @ replicate (unat (n + 1) - length (cc_vout coins1)) txout_null else cc_vout coins1)
      in if unat n \<ge> length vout2 then Inl IndexRange
         else Inr (clean1 \<and> clean2, coins1\<lparr>cc_vout := vout2[unat n := ui_txout undo]\<rparr>))"

definition ApplyTxInUndo ::
    "'v CCoinsView \<Rightarrow> (CCoins \<Rightarrow> u64) \<Rightarrow> CTxInUndo \<Rightarrow> 'v CCoinsViewCache \<Rightarrow> COutPoint \<Rightarrow> connect_error + bool \<times> 'v CCoinsViewCache" where
  "ApplyTxInUndo V U undo view out = modify_with V U view (op_hash out) (undo_body undo (op_n out))"

text \<open>The inputs are restored in reverse order.\<close>

fun restore_inputs ::
    "'v CCoinsView \<Rightarrow> (CCoins \<Rightarrow> u64) \<Rightarrow> 'v CCoinsViewCache \<Rightarrow> (CTxIn \<times> CTxInUndo) list \<Rightarrow> connect_error + bool \<times> 'v CCoinsViewCache" where
  "restore_inputs V U view [] = Inr (True, view)"
| "restore_inputs V U view ((txin, undo) # rest) =
     res_bind (restore_inputs V U view rest) (\<lambda>(clean, view).
     res_bind (ApplyTxInUndo V U undo view (prevout txin)) (\<lambda>(clean', view). Inr (clean \<and> clean', view)))"

text \<open>Removes the outputs of a transaction, after a check that they are the ones it made.\<close>

definition outs_body :: "CMutableTransaction \<Rightarrow> int \<Rightarrow> CCoins \<Rightarrow> connect_error + bool \<times> CCoins" where
  "outs_body tx nHeight coins =
     (let outs = ClearUnspendable coins; outsBlock = FromTx tx nHeight;
          outs = (if cc_nVersion outsBlock < 0 then outs\<lparr>cc_nVersion := cc_nVersion outsBlock\<rparr> else outs)
      in Inr (coins_eq outs outsBlock, coins_empty))"

definition disconnect_tx ::
    "'v CCoinsView \<Rightarrow> (CCoins \<Rightarrow> u64) \<Rightarrow> int \<Rightarrow> 'v CCoinsViewCache \<Rightarrow> CTransaction \<Rightarrow> CTxUndo option \<Rightarrow> connect_error + bool \<times> 'v CCoinsViewCache" where
  "disconnect_tx V U nHeight view tx undo =
     res_bind (GetHash tx) (\<lambda>hash.
     res_bind (modify_with V U view hash (outs_body (ct_tx tx) nHeight)) (\<lambda>(clean, view).
       let view = SetNullifiers view (ct_tx tx) False
       in if \<not> tx_IsMint (ct_tx tx)
          then case undo of
                 None \<Rightarrow> Inl IndexRange
               | Some txundo \<Rightarrow>
                   if length (vprevout txundo) \<noteq> length (vin (ct_tx tx)) then Inl UndoInconsistent
                   else res_bind (restore_inputs V U view (zip (vin (ct_tx tx)) (vprevout txundo))) (\<lambda>(clean', view).
                          Inr (clean \<and> clean', view))
          else if tx_IsCoinImport (ct_tx tx)
          then res_bind (RemoveImportTombstone V U (ct_tx tx) view) (\<lambda>view. Inr (clean, view))
          else Inr (clean, view)))"

text \<open>The transactions are undone in reverse order; the first has no undo record.\<close>

fun disconnect_txs ::
    "'v CCoinsView \<Rightarrow> (CCoins \<Rightarrow> u64) \<Rightarrow> int \<Rightarrow> 'v CCoinsViewCache \<Rightarrow> (CTransaction \<times> CTxUndo option) list \<Rightarrow> connect_error + bool \<times> 'v CCoinsViewCache" where
  "disconnect_txs V U nHeight view [] = Inr (True, view)"
| "disconnect_txs V U nHeight view ((tx, undo) # rest) =
     res_bind (disconnect_txs V U nHeight view rest) (\<lambda>(clean, view).
     res_bind (disconnect_tx V U nHeight view tx undo) (\<lambda>(clean', view). Inr (clean \<and> clean', view)))"

text \<open>
  \<open>blockUndo\<close> is what \<open>UndoReadFromDisk\<close> yields, \<open>saplingRoot\<close> the root the code takes from the
  predecessor, or that of the empty tree before Sapling.
\<close>

definition DisconnectBlock ::
    "'v CCoinsView \<Rightarrow> (CCoins \<Rightarrow> u64) \<Rightarrow> CTransaction list \<Rightarrow> uint256 \<Rightarrow> int \<Rightarrow> uint256 \<Rightarrow> uint256 \<Rightarrow> CBlockUndo option \<Rightarrow>
     'v CCoinsViewCache \<Rightarrow> connect_error + bool \<times> 'v CCoinsViewCache" where
  "DisconnectBlock V U vtx hash nHeight hashPrev saplingRoot blockUndo view =
     (let (best, view) = cache_GetBestBlock V view
      in if hash \<noteq> best then Inl AssertBest
         else case blockUndo of
                None \<Rightarrow> Inl NoUndoData
              | Some bu \<Rightarrow>
                  if length (vtxundo bu) + 1 \<noteq> length vtx then Inl UndoInconsistent
                  else res_bind (disconnect_txs V U nHeight view (zip vtx (None # map Some (vtxundo bu)))) (\<lambda>(fClean, view).
                       res_bind (lift_coins (PopAnchor V view (old_sprout_tree_root bu) SPROUT)) (\<lambda>view.
                       res_bind (lift_coins (PopAnchor V view saplingRoot SAPLING)) (\<lambda>view.
                         Inr (fClean, SetBestBlock view hashPrev)))))"

section \<open>Connecting\<close>

text \<open>No transaction may overwrite one with unspent outputs.\<close>

fun overwrites :: "'v CCoinsView \<Rightarrow> (CCoins \<Rightarrow> u64) \<Rightarrow> 'v CCoinsViewCache \<Rightarrow> CTransaction list \<Rightarrow> connect_error + bool \<times> 'v CCoinsViewCache" where
  "overwrites V U view [] = Inr (False, view)"
| "overwrites V U view (tx # vtx) =
     res_bind (GetHash tx) (\<lambda>hash.
       case AccessCoins V U view hash of
         (Some coins, view) \<Rightarrow> if \<not> IsPruned coins then Inr (True, view) else overwrites V U view vtx
       | (None, view) \<Rightarrow> overwrites V U view vtx)"

record 'v connecting =
  cn_view :: "'v CCoinsViewCache"
  cn_undo :: "CTxUndo list"
  cn_sprout :: MerkleTree
  cn_sapling :: MerkleTree

definition lift_tree :: "tree_error + 'a \<Rightarrow> connect_error + 'a" where
  "lift_tree r = (case r of Inl e \<Rightarrow> Inl (AppendError e) | Inr x \<Rightarrow> Inr x)"

definition check_inputs ::
    "'v CCoinsView \<Rightarrow> (CCoins \<Rightarrow> u64) \<Rightarrow> (ShieldedType \<Rightarrow> tree_params) \<Rightarrow> 'v CCoinsViewCache \<Rightarrow> CMutableTransaction \<Rightarrow> connect_error + 'v CCoinsViewCache" where
  "check_inputs V U T view tx =
     (if tx_IsMint tx then Inr view
      else case HaveInputs V U view tx of
             (False, view) \<Rightarrow> Inl MissingInputs
           | (True, view) \<Rightarrow>
               res_bind (lift_coins (HaveJoinSplitRequirements V T view tx)) (\<lambda>(ok, view).
                 if ok then Inr view else Inl JoinSplitRequirements))"

definition connect_tx ::
    "'v CCoinsView \<Rightarrow> (CCoins \<Rightarrow> u64) \<Rightarrow> (ShieldedType \<Rightarrow> tree_params) \<Rightarrow> int \<Rightarrow> bool \<Rightarrow> 'v connecting \<Rightarrow> CTransaction \<Rightarrow> connect_error + 'v connecting" where
  "connect_tx V U T nHeight first s tx =
     res_bind (check_inputs V U T (cn_view s) (ct_tx tx)) (\<lambda>view.
     res_bind (UpdateCoins V U tx view nHeight) (\<lambda>(undo, view).
     res_bind (lift_tree (tree_append_all (T SPROUT) (cn_sprout s) (concat (map js_commitments (vjoinsplit (ct_tx tx)))))) (\<lambda>sprout.
     res_bind (lift_tree (tree_append_all (T SAPLING) (cn_sapling s) (map od_cm (vShieldedOutput (ct_tx tx))))) (\<lambda>sapling.
       Inr \<lparr>cn_view = view, cn_undo = (if first then cn_undo s else cn_undo s @ [undo]), cn_sprout = sprout, cn_sapling = sapling\<rparr>))))"

fun connect_txs ::
    "'v CCoinsView \<Rightarrow> (CCoins \<Rightarrow> u64) \<Rightarrow> (ShieldedType \<Rightarrow> tree_params) \<Rightarrow> int \<Rightarrow> bool \<Rightarrow> 'v connecting \<Rightarrow> CTransaction list \<Rightarrow> connect_error + 'v connecting" where
  "connect_txs V U T nHeight first s [] = Inr s"
| "connect_txs V U T nHeight first s (tx # vtx) =
     res_bind (connect_tx V U T nHeight first s tx) (\<lambda>s. connect_txs V U T nHeight False s vtx)"

text \<open>The tree of the best anchor, which must be there.\<close>

definition best_tree ::
    "'v CCoinsView \<Rightarrow> 'v CCoinsViewCache \<Rightarrow> ShieldedType \<Rightarrow> connect_error + uint256 \<times> MerkleTree \<times> 'v CCoinsViewCache" where
  "best_tree V view type =
     (let (rt, view) = cache_GetBestAnchor V view type; (r, view) = cache_GetAnchorAt V view type rt
      in case r of None \<Rightarrow> Inl AssertTree | Some tree \<Rightarrow> Inr (rt, tree, view))"

definition ConnectBlock ::
    "'v CCoinsView \<Rightarrow> (CCoins \<Rightarrow> u64) \<Rightarrow> (ShieldedType \<Rightarrow> tree_params) \<Rightarrow> CTransaction list \<Rightarrow> uint256 \<Rightarrow> int \<Rightarrow> uint256 \<Rightarrow>
     'v CCoinsViewCache \<Rightarrow> connect_error + CBlockUndo \<times> 'v CCoinsViewCache" where
  "ConnectBlock V U T vtx hash nHeight hashPrev view =
     (let (best, view) = cache_GetBestBlock V view
      in if hashPrev \<noteq> best then Inl NotBestBlock
         else
           res_bind (overwrites V U view vtx) (\<lambda>(f, view).
           if f then Inl Overwrites
           else
             res_bind (best_tree V view SPROUT) (\<lambda>(rt, sprout, view).
             if tp_root (T SPROUT) sprout \<noteq> rt then Inl AssertTree
             else
               res_bind (best_tree V view SAPLING) (\<lambda>(_, sapling, view).
               res_bind (connect_txs V U T nHeight True \<lparr>cn_view = view, cn_undo = [], cn_sprout = sprout, cn_sapling = sapling\<rparr> vtx) (\<lambda>s.
                 let view = PushAnchor V T (PushAnchor V T (cn_view s) SPROUT (cn_sprout s)) SAPLING (cn_sapling s)
                 in Inr (\<lparr>vtxundo = cn_undo s, old_sprout_tree_root = rt\<rparr>, SetBestBlock view hash))))))"

end
