(* ===== verification/TxChecks.thy ===== *)
theory TxChecks
  imports Upgrades Interest ConnectBlock
begin

text \<open>
  The checks of transactions of \<^verbatim>\<open>src/main.cpp\<close>: \<open>IsFinalTx\<close>, \<open>IsExpiredTx\<close>, the counts of signature
  operations, \<open>CheckTransaction\<close>, \<open>CheckTransactionWithoutProofVerification\<close>, \<open>ContextualCheckTransaction\<close>,
  \<open>ContextualCheckCoinbaseTransaction\<close> and \<open>Consensus::CheckTxInputs\<close>, with the small functions on which
  they rely.

  A check returns \<open>Inr\<close> where the code returns true. A rejection carries the score, code and reason that
  the code puts into its \<open>CValidationState\<close>; \<open>state_after\<close> is that object afterwards. Global variables that
  the command line or the chain's parameters set are fields of \<open>chain_globals\<close>, and so are the results of code
  that is not modelled here: whether a script pays to a notary, whether it marks a staking transaction, the reward
  schedule. Proofs and signatures of shielded transactions are verified by libraries: the fields of \<open>crypto_ops\<close>.
\<close>

record chain_globals =
  isKMD :: bool
  isZEX :: bool
  MAX_MONEY :: CAmount
  ASSETCHAINS_PUBLIC :: u8
  ASSETCHAINS_PRIVATE :: u8
  ASSETCHAINS_TXPOW :: u8
  ASSETCHAINS_STAKED :: int
  ASSETCHAINS_TIMELOCKGTE :: u64
  fCoinbaseEnforcedProtectionEnabled :: bool
  CoinbaseMaturity :: u32
  tip_nTime :: "u32 option"
  active_height :: int
  isnotaryvout :: "script \<Rightarrow> u32 \<Rightarrow> bool"
  DecodeStakingOpRet :: "script \<Rightarrow> bool"
  banned_txids :: "uint256 list"
  block_unlocktime :: "u32 \<Rightarrow> u64"
  ac_block_subsidy :: "int \<Rightarrow> u64"

datatype tx_failure = Rejected int u8 string | Refused | Threw | AssertFails

abbreviation reject :: "int \<Rightarrow> string \<Rightarrow> tx_failure + 'a" where
  "reject level reason \<equiv> Inl (Rejected level REJECT_INVALID reason)"

definition state_after :: "CValidationState \<Rightarrow> tx_failure + 'a \<Rightarrow> CValidationState" where
  "state_after s r = (case r of Inl (Rejected level code reason) \<Rightarrow> snd (state_DoS s level False code reason False) | _ \<Rightarrow> s)"

section \<open>Locks and expiry\<close>

abbreviation nStakedDecemberHardforkTimestamp :: u32 where "nStakedDecemberHardforkTimestamp \<equiv> 1576840000"
abbreviation nDecemberHardforkHeight :: int where "nDecemberHardforkHeight \<equiv> 1670000"

definition squishy_hardfork_active :: "chain_globals \<Rightarrow> u32 \<Rightarrow> bool" where
  "squishy_hardfork_active G time \<longleftrightarrow>
     isKMD G \<and> active_height G > nDecemberHardforkHeight \<or> \<not> isKMD G \<and> time > nStakedDecemberHardforkTimestamp"

definition IsFinalTx :: "chain_globals \<Rightarrow> CMutableTransaction \<Rightarrow> int \<Rightarrow> int \<Rightarrow> bool" where
  "IsFinalTx G tx nBlockHeight nBlockTime \<longleftrightarrow>
     (let lock = uint (nLockTime tx); threshold = int LOCKTIME_THRESHOLD; fork = squishy_hardfork_active G (word_of_int nBlockTime)
      in nLockTime tx = 0 \<or>
         lock < (if lock < threshold then nBlockHeight else nBlockTime) \<or>
         list_all (\<lambda>txin.
           \<not> fork \<and> nSequence txin = 0xfffffffe \<and> (lock \<ge> threshold \<and> lock > nBlockTime \<or> lock < threshold \<and> lock > nBlockHeight) \<or>
           fork \<and> nSequence txin = 0xfffffffe \<and> (lock \<ge> threshold \<and> lock \<le> nBlockTime \<or> lock < threshold \<and> lock \<le> nBlockHeight) \<or>
           txin_IsFinal txin) (vin tx))"

definition IsExpiredTx :: "CMutableTransaction \<Rightarrow> int \<Rightarrow> bool" where
  "IsExpiredTx tx nBlockHeight \<longleftrightarrow>
     \<not> (nExpiryHeight tx = 0 \<or> tx_IsCoinBase tx) \<and> word_of_int nBlockHeight > nExpiryHeight tx"

section \<open>Signature operations\<close>

definition GetLegacySigOpCount :: "CMutableTransaction \<Rightarrow> u32" where
  "GetLegacySigOpCount tx =
     foldl (\<lambda>n txout. n + of_nat (GetSigOpCount (scriptPubKey txout) False))
       (foldl (\<lambda>n txin. n + of_nat (GetSigOpCount (scriptSig txin) False)) 0 (vin tx)) (vout tx)"

fun p2sh_sigops :: "'v CCoinsView \<Rightarrow> (CCoins \<Rightarrow> u64) \<Rightarrow> 'v CCoinsViewCache \<Rightarrow> u32 \<Rightarrow> CTxIn list \<Rightarrow> coins_error + u32 \<times> 'v CCoinsViewCache" where
  "p2sh_sigops V U c n [] = Inr (n, c)"
| "p2sh_sigops V U c n (txin # txins) =
     res_bind (GetOutputFor V U c txin) (\<lambda>(out, c).
       p2sh_sigops V U c (if IsPayToScriptHash (scriptPubKey out) then n + of_nat (GetSigOpCountP2SH (scriptPubKey out) (scriptSig txin)) else n) txins)"

definition GetP2SHSigOpCount :: "'v CCoinsView \<Rightarrow> (CCoins \<Rightarrow> u64) \<Rightarrow> CMutableTransaction \<Rightarrow> 'v CCoinsViewCache \<Rightarrow> coins_error + u32 \<times> 'v CCoinsViewCache" where
  "GetP2SHSigOpCount V U tx c = (if tx_IsCoinBase tx \<or> tx_IsCoinImport tx then Inr (0, c) else p2sh_sigops V U c 0 (vin tx))"

section \<open>Checks without context\<close>

abbreviation MAX_TX_SIZE_BEFORE_SAPLING :: nat where "MAX_TX_SIZE_BEFORE_SAPLING \<equiv> 100000"
abbreviation MAX_TX_SIZE_AFTER_SAPLING :: nat where "MAX_TX_SIZE_AFTER_SAPLING \<equiv> 200000"
abbreviation TX_EXPIRY_HEIGHT_THRESHOLD :: u32 where "TX_EXPIRY_HEIGHT_THRESHOLD \<equiv> 500000000"
abbreviation IGUANA_MAXSCRIPTSIZE :: nat where "IGUANA_MAXSCRIPTSIZE \<equiv> 10001"
abbreviation SQUISHY_SAPLING_DEADLINE :: u32 where "SQUISHY_SAPLING_DEADLINE \<equiv> 1550188800"

definition KMD_SEASON_TIMESTAMPS :: "u32 list" where
  "KMD_SEASON_TIMESTAMPS = [1525132800, 1563148800, nStakedDecemberHardforkTimestamp, 1592146800, 1623682800, 1656077853, 1688132253, 1951328000]"

fun season_loop :: "u32 \<Rightarrow> nat \<Rightarrow> u32 list \<Rightarrow> nat" where
  "season_loop timestamp i (a # b # ts) = (if timestamp \<le> b \<and> timestamp > a then i + 1 else season_loop timestamp (i + 1) (b # ts))"
| "season_loop timestamp i ts = 0"

definition getacseason :: "u32 \<Rightarrow> nat" where
  "getacseason timestamp = (if timestamp \<le> KMD_SEASON_TIMESTAMPS ! 0 then 1 else season_loop timestamp 1 KMD_SEASON_TIMESTAMPS)"

definition squishy_acpublic :: "chain_globals \<Rightarrow> u32 \<Rightarrow> u8" where
  "squishy_acpublic G tiptime =
     (if ASSETCHAINS_PUBLIC G = 0
      then let tiptime = (if tiptime = 0 then case tip_nTime G of Some t \<Rightarrow> t | None \<Rightarrow> tiptime else tiptime)
           in if (isKMD G \<or> isZEX G) \<and> tiptime \<ge> SQUISHY_SAPLING_DEADLINE then 1 else 0
      else ASSETCHAINS_PUBLIC G)"

text \<open>The three forms of a script that reveals, in an output, the redeem script of a swap.\<close>

definition reveal_forms :: "(nat \<times> (nat \<times> u8 list) list) list" where
  "reveal_forms =
     [(110, [(0, [OP_RETURN]), (3, [OP_IF]), (9, [OP_NOP2]), (10, [OP_DROP]), (45, [OP_CHECKSIG]), (46, [OP_ELSE]), (47, [OP_SIZE]), (48, [0x01]),
             (49, [0x20]), (50, [OP_EQUALVERIFY]), (51, [OP_HASH160]), (73, [OP_EQUALVERIFY]), (108, [OP_CHECKSIG]), (109, [OP_ENDIF])]),
      (122, [(0, [OP_RETURN]), (3, [OP_IF]), (9, [OP_NOP2]), (10, [OP_DROP]), (45, [OP_CHECKSIG]), (46, [OP_ELSE]), (47, [OP_SIZE]), (48, [0x01]),
             (49, [0x20]), (50, [OP_EQUALVERIFY]), (51, [OP_SHA256, OP_HASH256]), (85, [OP_EQUALVERIFY]), (120, [OP_CHECKSIG]), (121, [OP_ENDIF])]),
      (101, [(0, [OP_RETURN]), (1, [0x4c]), (2, [0x62]), (20, [OP_DROP]), (21, [OP_IF]), (22, [0x04]), (27, [OP_NOP2]), (28, [OP_DROP]),
             (63, [OP_CHECKSIG]), (64, [OP_ELSE]), (99, [OP_CHECKSIG]), (100, [OP_ENDIF])])]"

definition IsRedeemScriptReveal :: "script \<Rightarrow> script \<Rightarrow> sha256_error + bool" where
  "IsRedeemScriptReveal this redeemScript =
     (if list_ex (\<lambda>(n, bytes_at). length redeemScript = n \<and> list_all (\<lambda>(i, bs). redeemScript ! i \<in> set bs) bytes_at) reveal_forms
      then res_bind (Hash160 (drop 3 redeemScript)) (\<lambda>h. Inr (push_opcode (push_vector (push_opcode [] OP_HASH160) h) OP_EQUAL = this))
      else Inr False)"

definition check_header :: "CMutableTransaction \<Rightarrow> tx_failure + unit" where
  "check_header tx =
     (if \<not> fOverwintered tx \<and> nVersion tx < 1 then reject 100 ''bad-txns-version-too-low''
      else if fOverwintered tx \<and> nVersion tx < 3 then reject 100 ''bad-tx-overwinter-version-too-low''
      else if fOverwintered tx \<and> nVersionGroupId tx \<noteq> OVERWINTER_VERSION_GROUP_ID \<and> nVersionGroupId tx \<noteq> SAPLING_VERSION_GROUP_ID
      then reject 100 ''bad-tx-version-group-id''
      else if fOverwintered tx \<and> nExpiryHeight tx \<ge> TX_EXPIRY_HEIGHT_THRESHOLD then reject 100 ''bad-tx-expiry-height-too-high''
      else if vin tx = [] \<and> vjoinsplit tx = [] \<and> vShieldedSpend tx = [] then reject 10 ''bad-txns-vin-empty''
      else if vout tx = [] \<and> vjoinsplit tx = [] \<and> vShieldedOutput tx = [] then reject 10 ''bad-txns-vout-empty''
      else case GetTotalSize tx of
             Inl e \<Rightarrow> Inl Threw
           | Inr n \<Rightarrow> if n > MAX_TX_SIZE_AFTER_SAPLING then reject 100 ''bad-txns-oversize'' else Inr ())"

text \<open>The loop over the outputs, with the running total and the flag \<open>invalid_private_taddr\<close>.\<close>

fun check_outputs :: "chain_globals \<Rightarrow> u32 \<Rightarrow> bool \<Rightarrow> CAmount \<times> bool \<Rightarrow> CTxOut list \<Rightarrow> tx_failure + CAmount \<times> bool" where
  "check_outputs G tiptime iscoinbase acc [] = Inr acc"
| "check_outputs G tiptime iscoinbase (nValueOut, invalid) (txout # txouts) =
     (if nValue txout < 0 then reject 100 ''bad-txns-vout-negative''
      else if nValue txout > MAX_MONEY G then reject 100 ''bad-txns-vout-toolarge''
      else let invalid = (invalid \<or> ASSETCHAINS_PRIVATE G \<noteq> 0 \<and> \<not> iscoinbase \<and> nValue txout > 0 \<and> \<not> isnotaryvout G (scriptPubKey txout) tiptime)
           in if length (scriptPubKey txout) > IGUANA_MAXSCRIPTSIZE then reject 100 ''bad-txns-opret-too-big''
              else let nValueOut = wrap64 (nValueOut + nValue txout)
                   in if \<not> MoneyRange (MAX_MONEY G) nValueOut then reject 100 ''bad-txns-txouttotal-toolarge''
                      else check_outputs G tiptime iscoinbase (nValueOut, invalid) txouts)"

text \<open>What the code asks of the shielded value: the new total and flag.\<close>

definition check_shielded :: "chain_globals \<Rightarrow> u32 \<Rightarrow> CMutableTransaction \<Rightarrow> CAmount \<times> bool \<Rightarrow> tx_failure + CAmount \<times> bool" where
  "check_shielded G tiptime tx acc =
     (case acc of (nValueOut, invalid) \<Rightarrow>
      if vShieldedSpend tx = [] \<and> vShieldedOutput tx = [] \<and> valueBalance tx \<noteq> 0 then reject 100 ''bad-txns-valuebalance-nonzero''
      else if squishy_acpublic G tiptime \<noteq> 0 \<and> (vShieldedSpend tx \<noteq> [] \<or> vShieldedOutput tx \<noteq> []) then reject 100 ''bad-txns-acpublic-chain''
      else
        res_bind
          (if ASSETCHAINS_PRIVATE G \<noteq> 0 \<and> invalid \<and> vShieldedSpend tx \<noteq> []
           then if getacseason tiptime > 5 \<and> vin tx = [] \<and> length (vout tx) = 2 \<and> IsPayToScriptHash (scriptPubKey (vout tx ! 0))
                then case IsRedeemScriptReveal (scriptPubKey (vout tx ! 0)) (scriptPubKey (vout tx ! 1)) of
                       Inl e \<Rightarrow> Inl Threw
                     | Inr reveals \<Rightarrow> if reveals then Inr False else reject 100 ''bad-txns-acprivate-chain''
                else reject 100 ''bad-txns-acprivate-chain''
           else Inr invalid) (\<lambda>invalid.
        if valueBalance tx > MAX_MONEY G \<or> valueBalance tx < - MAX_MONEY G then reject 100 ''bad-txns-valuebalance-toolarge''
        else if valueBalance tx \<le> 0
        then let nValueOut = wrap64 (nValueOut + wrap64 (- valueBalance tx))
             in if \<not> MoneyRange (MAX_MONEY G) nValueOut then reject 100 ''bad-txns-txouttotal-toolarge'' else Inr (nValueOut, invalid)
        else Inr (nValueOut, invalid)))"

text \<open>The loop over the joinsplits, with the running total and the counters \<open>z_z\<close>, \<open>t_z\<close> and \<open>z_t\<close>.\<close>

fun check_joinsplits :: "chain_globals \<Rightarrow> u32 \<Rightarrow> CAmount \<times> nat \<times> nat \<times> nat \<Rightarrow> JSDescription list \<Rightarrow> tx_failure + CAmount \<times> nat \<times> nat \<times> nat" where
  "check_joinsplits G tiptime acc [] = Inr acc"
| "check_joinsplits G tiptime (nValueOut, z_z, t_z, z_t) (js # jss) =
     (if squishy_acpublic G tiptime \<noteq> 0 then reject 100 ''bad-txns-acpublic-chain''
      else if tiptime \<ge> SQUISHY_SAPLING_DEADLINE then reject 100 ''bad-txns-sprout-expired''
      else if vpub_old js < 0 then reject 100 ''bad-txns-vpub_old-negative''
      else if vpub_new js < 0 then reject 100 ''bad-txns-vpub_new-negative''
      else if vpub_old js > MAX_MONEY G then reject 100 ''bad-txns-vpub_old-toolarge''
      else if vpub_new js > MAX_MONEY G then reject 100 ''bad-txns-vpub_new-toolarge''
      else if vpub_new js \<noteq> 0 \<and> vpub_old js \<noteq> 0 then reject 100 ''bad-txns-vpubs-both-nonzero''
      else let nValueOut = wrap64 (nValueOut + vpub_old js)
           in if \<not> MoneyRange (MAX_MONEY G) nValueOut then reject 100 ''bad-txns-txouttotal-toolarge''
              else check_joinsplits G tiptime
                     (nValueOut,
                      z_z + (if vpub_new js = 0 \<and> vpub_old js = 0 then 1 else 0),
                      t_z + (if vpub_new js = 0 \<and> vpub_old js \<noteq> 0 then 1 else 0),
                      z_t + (if vpub_new js \<noteq> 0 \<and> vpub_old js = 0 then 1 else 0)) jss)"

definition check_private :: "chain_globals \<Rightarrow> CMutableTransaction \<Rightarrow> bool \<Rightarrow> nat \<Rightarrow> nat \<Rightarrow> nat \<Rightarrow> tx_failure + unit" where
  "check_private G tx invalid z_z t_z z_t =
     (if ASSETCHAINS_PRIVATE G \<noteq> 0 \<and> invalid \<and> (z_t = 0 \<or> z_z \<noteq> 0 \<or> t_z \<noteq> 0 \<or> vin tx \<noteq> []) then reject 100 ''bad-txns-acprivacy-chain''
      else Inr ())"

text \<open>The transaction of the genesis block of Bitcoin, in the byte order of the memory.\<close>

definition genesistxid :: uint256 where
  "genesistxid =
     [0x3b, 0xa3, 0xed, 0xfd, 0x7a, 0x7b, 0x12, 0xb2, 0x7a, 0xc7, 0x2c, 0x3e, 0x67, 0x76, 0x8f, 0x61,
      0x7f, 0xc8, 0x1b, 0xc3, 0x88, 0x8a, 0x51, 0x32, 0x3a, 0x9f, 0xb8, 0xaa, 0x4b, 0x1e, 0x5e, 0x4a]"

definition check_txpow :: "chain_globals \<Rightarrow> CTransaction \<Rightarrow> tx_failure + unit" where
  "check_txpow G ct =
     (if ASSETCHAINS_TXPOW G \<noteq> 0
      then case ct_hash ct of
             Inl e \<Rightarrow> Inl Threw
           | Inr txid \<Rightarrow>
               if (ASSETCHAINS_TXPOW G AND 2 \<noteq> 0 \<and> tx_IsCoinBase (ct_tx ct) \<or> ASSETCHAINS_TXPOW G AND 1 \<noteq> 0 \<and> \<not> tx_IsCoinBase (ct_tx ct)) \<and>
                  (txid ! 0 \<noteq> 0 \<or> txid ! 31 \<noteq> 0) \<and> txid \<noteq> genesistxid
               then reject 100 ''bad-txns-actxpow-chain'' else Inr ()
      else Inr ())"

fun sum_vpub_new :: "chain_globals \<Rightarrow> CAmount \<Rightarrow> JSDescription list \<Rightarrow> tx_failure + CAmount" where
  "sum_vpub_new G nValueIn [] = Inr nValueIn"
| "sum_vpub_new G nValueIn (js # jss) =
     (let nValueIn = wrap64 (nValueIn + vpub_new js)
      in if \<not> MoneyRange (MAX_MONEY G) (vpub_new js) \<or> \<not> MoneyRange (MAX_MONEY G) nValueIn then reject 100 ''bad-txns-txintotal-toolarge''
         else sum_vpub_new G nValueIn jss)"

definition check_value_in :: "chain_globals \<Rightarrow> CMutableTransaction \<Rightarrow> tx_failure + unit" where
  "check_value_in G tx =
     res_bind (sum_vpub_new G 0 (vjoinsplit tx)) (\<lambda>nValueIn.
       if valueBalance tx \<ge> 0 \<and> \<not> MoneyRange (MAX_MONEY G) (wrap64 (nValueIn + valueBalance tx))
       then reject 100 ''bad-txns-txintotal-toolarge'' else Inr ())"

text \<open>A loop that inserts into a set and rejects what is there already.\<close>

fun check_duplicates :: "string \<Rightarrow> 'a set \<Rightarrow> 'a list \<Rightarrow> tx_failure + unit" where
  "check_duplicates reason seen [] = Inr ()"
| "check_duplicates reason seen (x # xs) = (if x \<in> seen then reject 100 reason else check_duplicates reason (insert x seen) xs)"

definition check_mint :: "CMutableTransaction \<Rightarrow> tx_failure + unit" where
  "check_mint tx =
     (if tx_IsMint tx
      then if vjoinsplit tx \<noteq> [] then reject 100 ''bad-cb-has-joinsplits''
           else if vShieldedSpend tx \<noteq> [] then reject 100 ''bad-cb-has-spend-description''
           else if vShieldedOutput tx \<noteq> [] then reject 100 ''bad-cb-has-output-description''
           else if length (scriptSig (vin tx ! 0)) < 2 \<or> length (scriptSig (vin tx ! 0)) > 100 then reject 100 ''bad-cb-length''
           else Inr ()
      else if list_ex (\<lambda>txin. outpoint_IsNull (prevout txin)) (vin tx) then reject 10 ''bad-txns-prevout-null''
      else Inr ())"

text \<open>The totals and the rules of public and private chains.\<close>

definition check_amounts :: "chain_globals \<Rightarrow> u32 \<Rightarrow> CMutableTransaction \<Rightarrow> tx_failure + unit" where
  "check_amounts G tiptime tx =
     res_bind (check_outputs G tiptime (tx_IsCoinBase tx) (0, False) (vout tx)) (\<lambda>acc.
     res_bind (check_shielded G tiptime tx acc) (\<lambda>(nValueOut, invalid).
     res_bind (check_joinsplits G tiptime (nValueOut, 0, 0, 0) (vjoinsplit tx)) (\<lambda>(_, z_z, t_z, z_t).
       check_private G tx invalid z_z t_z z_t)))"

definition CheckTransactionWithoutProofVerification :: "chain_globals \<Rightarrow> u32 \<Rightarrow> CTransaction \<Rightarrow> tx_failure + unit" where
  "CheckTransactionWithoutProofVerification G tiptime ct =
     (let tx = ct_tx ct
      in res_bind (check_header tx) (\<lambda>_.
         res_bind (check_amounts G tiptime tx) (\<lambda>_.
         res_bind (check_txpow G ct) (\<lambda>_.
         res_bind (check_value_in G tx) (\<lambda>_.
         res_bind (check_duplicates ''bad-txns-inputs-duplicate'' {} (map prevout (vin tx))) (\<lambda>_.
         res_bind (check_duplicates ''bad-joinsplits-nullifiers-duplicate'' {} (concat (map js_nullifiers (vjoinsplit tx)))) (\<lambda>_.
         res_bind (check_duplicates ''bad-spend-description-nullifiers-duplicate'' {} (map sd_nullifier (vShieldedSpend tx))) (\<lambda>_.
           check_mint tx))))))))"

section \<open>The full check\<close>

definition squishy_checkvout :: "u32 \<Rightarrow> nat \<Rightarrow> nat \<Rightarrow> bool" where
  "squishy_checkvout n k indallvouts =
     (if k < indallvouts then n = 1 else if k = indallvouts \<or> k = indallvouts + 1 then True else n = 0)"

definition spends_banned :: "chain_globals \<Rightarrow> CMutableTransaction \<Rightarrow> bool" where
  "spends_banned G tx \<longleftrightarrow>
     list_ex (\<lambda>txin. list_ex (\<lambda>k. op_hash (prevout txin) = banned_txids G ! k \<and>
         squishy_checkvout (op_n (prevout txin)) k (length (banned_txids G) - 2)) [0..<length (banned_txids G)]) (vin tx)"

definition squishy_newStakerActive :: "(int \<Rightarrow> u32) \<Rightarrow> int \<Rightarrow> u32 \<Rightarrow> bool" where
  "squishy_newStakerActive heightstamp height timestamp \<longleftrightarrow>
     timestamp > nStakedDecemberHardforkTimestamp \<or> (if height > 0 then heightstamp height else 0) > nStakedDecemberHardforkTimestamp"

definition CheckTransaction ::
    "chain_globals \<Rightarrow> (int \<Rightarrow> u32) \<Rightarrow> (JSDescription \<Rightarrow> uint256 \<Rightarrow> bool) \<Rightarrow> u32 \<Rightarrow> CTransaction \<Rightarrow> nat \<Rightarrow> nat \<Rightarrow> tx_failure + unit" where
  "CheckTransaction G heightstamp js_Verify tiptime ct txIndex numTxs =
     (let tx = ct_tx ct
      in if isKMD G \<and> spends_banned G tx then Inl Refused
         else if ASSETCHAINS_STAKED G \<noteq> 0 \<and> squishy_newStakerActive heightstamp 0 tiptime \<and> length (vout tx) = 2 \<and>
                 DecodeStakingOpRet G (scriptPubKey (vout tx ! 1)) \<and> (numTxs = 0 \<or> txIndex \<noteq> numTxs - 1)
         then reject 100 ''bad-txns-stakingtx''
         else res_bind (CheckTransactionWithoutProofVerification G tiptime ct) (\<lambda>_.
                if list_all (\<lambda>js. js_Verify js (joinSplitPubKey tx)) (vjoinsplit tx) then Inr ()
                else reject 100 ''bad-txns-joinsplit-verification-failed''))"

section \<open>Checks at a height\<close>

text \<open>What the cryptographic libraries answer; \<open>sighash_all\<close> is \<open>SignatureHash\<close> of the whole transaction, \<open>None\<close> where it throws.\<close>

record 'ctx crypto_ops =
  sighash_all :: "CMutableTransaction \<Rightarrow> u32 \<Rightarrow> uint256 option"
  verify_detached :: "bytes \<Rightarrow> uint256 \<Rightarrow> uint256 \<Rightarrow> bool"
  ctx_init :: 'ctx
  check_spend :: "'ctx \<Rightarrow> SpendDescription \<Rightarrow> uint256 \<Rightarrow> bool \<times> 'ctx"
  check_output :: "'ctx \<Rightarrow> OutputDescription \<Rightarrow> bool \<times> 'ctx"
  final_check :: "'ctx \<Rightarrow> CAmount \<Rightarrow> bytes \<Rightarrow> uint256 \<Rightarrow> bool"

text \<open>
  The time lock of a coinbase: where the reward is large, it must pay to the hash of a script that is
  revealed in the second output and starts with the time lock of the height.
\<close>

definition ContextualCheckCoinbaseTransaction :: "chain_globals \<Rightarrow> CMutableTransaction \<Rightarrow> int \<Rightarrow> tx_failure + bool" where
  "ContextualCheckCoinbaseTransaction G tx h =
     (case GetValueOut (MAX_MONEY G) tx of
        None \<Rightarrow> Inl Threw
      | Some v \<Rightarrow>
          if word_of_int v \<ge> ASSETCHAINS_TIMELOCKGTE G \<or> ac_block_subsidy G h \<ge> ASSETCHAINS_TIMELOCKGTE G
          then let s0 = scriptPubKey (vout tx ! 0); s1 = scriptPubKey (vout tx ! 1); g = GetOp2 (drop 1 s1)
               in if length (vout tx) = 2 \<and> IsPayToScriptHash s0 \<and> length s1 \<ge> 7 \<and> s1 ! 0 = OP_RETURN \<and>
                     go_ok g \<and> go_data g \<noteq> [] \<and> hd (go_data g) = 1
                  then case (Hash160 (tl (go_data g)), IsCheckLockTimeVerify (tl (go_data g))) of
                         (Inl e, _) \<Rightarrow> Inl Threw
                       | (Inr h160, clt) \<Rightarrow>
                           if h160 \<noteq> take 20 (drop 2 s0) then Inr False
                           else case clt of
                                  Inl e \<Rightarrow> Inl Threw
                                | Inr None \<Rightarrow> Inr False
                                | Inr (Some unlocktime) \<Rightarrow> Inr (sint (block_unlocktime G (word_of_int h)) = unlocktime)
                  else Inr False
          else Inr True)"

fun check_spends :: "'ctx crypto_ops \<Rightarrow> uint256 \<Rightarrow> 'ctx \<Rightarrow> SpendDescription list \<Rightarrow> tx_failure + 'ctx" where
  "check_spends K d ctx [] = Inr ctx"
| "check_spends K d ctx (s # ss) =
     (case check_spend K ctx s d of (ok, ctx) \<Rightarrow> if ok then check_spends K d ctx ss else reject 100 ''bad-txns-sapling-spend-description-invalid'')"

fun check_shielded_outputs :: "'ctx crypto_ops \<Rightarrow> 'ctx \<Rightarrow> OutputDescription list \<Rightarrow> tx_failure + 'ctx" where
  "check_shielded_outputs K ctx [] = Inr ctx"
| "check_shielded_outputs K ctx (out # outs) =
     (case check_output K ctx out of (ok, ctx) \<Rightarrow> if ok then check_shielded_outputs K ctx outs else reject 100 ''bad-txns-sapling-output-description-invalid'')"

text \<open>The rules about versions: which of them hold depends on the upgrades that are active.\<close>

definition check_epoch :: "chain_globals \<Rightarrow> Params \<Rightarrow> CMutableTransaction \<Rightarrow> int \<Rightarrow> int \<Rightarrow> bool \<Rightarrow> bool \<Rightarrow> bool \<Rightarrow> tx_failure + unit" where
  "check_epoch G params tx h dosLevel isInitBlockDownload overwinterActive saplingActive =
     (let ht = nActivationHeight (vUpgrades params ! UPGRADE_OVERWINTER)
      in if \<not> overwinterActive \<and> fOverwintered tx
         then reject (if ht < 0 \<or> h < ht then 0 else dosLevel) ''tx-overwinter-not-active''
         else if saplingActive \<and> nVersion tx \<ge> 4 \<and> \<not> fOverwintered tx then reject dosLevel ''tx-overwintered-flag-not-set''
         else if saplingActive \<and> fOverwintered tx \<and> nVersionGroupId tx \<noteq> SAPLING_VERSION_GROUP_ID
         then reject (if isInitBlockDownload then 0 else dosLevel) ''bad-sapling-tx-version-group-id''
         else if saplingActive \<and> fOverwintered tx \<and> nVersion tx < 4 then reject 100 ''bad-tx-sapling-version-too-low''
         else if saplingActive \<and> fOverwintered tx \<and> nVersion tx > 4 then reject 100 ''bad-tx-sapling-version-too-high''
         else if \<not> saplingActive \<and> overwinterActive \<and> nVersion tx \<ge> 3 \<and> \<not> fOverwintered tx then reject dosLevel ''tx-overwinter-flag-not-set''
         else if \<not> saplingActive \<and> overwinterActive \<and> fOverwintered tx \<and> nVersionGroupId tx \<noteq> OVERWINTER_VERSION_GROUP_ID
         then reject (if isInitBlockDownload then 0 else dosLevel) ''bad-overwinter-tx-version-group-id''
         else if \<not> saplingActive \<and> overwinterActive \<and> fOverwintered tx \<and> nVersion tx > 3 then reject 100 ''bad-tx-overwinter-version-too-high''
         else if overwinterActive \<and> \<not> fOverwintered tx
         then reject (if ASSETCHAINS_PRIVATE G \<noteq> 0 \<or> ht < 0 \<or> h < ht then 0 else dosLevel) ''tx-overwinter-active''
         else if overwinterActive \<and> IsExpiredTx tx h
         then reject (if IsExpiredTx tx (h - 1) then if dosLevel > 10 then dosLevel else 10 else 0) ''tx-overwinter-expired''
         else if \<not> saplingActive
         then case GetTotalSize tx of
                Inl e \<Rightarrow> Inl Threw
              | Inr n \<Rightarrow> if n > MAX_TX_SIZE_BEFORE_SAPLING then reject 100 ''bad-txns-oversize'' else Inr ()
         else Inr ())"

text \<open>The signature hash is computed where a signature of it will be checked; it is the null hash otherwise.\<close>

definition ContextualCheckTransaction ::
    "chain_globals \<Rightarrow> 'ctx crypto_ops \<Rightarrow> Params \<Rightarrow> bool \<Rightarrow> CMutableTransaction \<Rightarrow> int \<Rightarrow> int \<Rightarrow> bool \<Rightarrow> tx_failure + unit" where
  "ContextualCheckTransaction G K params superlite tx h dosLevel isInitBlockDownload =
     (case (NetworkUpgradeActive h params UPGRADE_OVERWINTER, NetworkUpgradeActive h params UPGRADE_SAPLING, CurrentEpochBranchId superlite h params) of
        (Inr overwinterActive, Inr saplingActive, Inr consensusBranchId) \<Rightarrow>
          res_bind (check_epoch G params tx h dosLevel isInitBlockDownload overwinterActive saplingActive) (\<lambda>_.
          res_bind (if \<not> tx_IsMint tx \<and> (vjoinsplit tx \<noteq> [] \<or> vShieldedSpend tx \<noteq> [] \<or> vShieldedOutput tx \<noteq> [])
                    then case sighash_all K tx consensusBranchId of None \<Rightarrow> reject 100 ''error-computing-signature-hash'' | Some d \<Rightarrow> Inr d
                    else Inr uint256_null) (\<lambda>dataToBeSigned.
          if \<not> (tx_IsMint tx \<or> vjoinsplit tx = []) \<and> \<not> verify_detached K (joinSplitSig tx) dataToBeSigned (joinSplitPubKey tx)
          then reject (if isInitBlockDownload then 0 else 100) ''bad-txns-invalid-joinsplit-signature''
          else
            res_bind (if tx_IsCoinBase tx
                      then res_bind (ContextualCheckCoinbaseTransaction G tx h) (\<lambda>ok.
                             if ok then Inr () else reject 100 ''bad-txns-invalid-script-data-for-coinbase-time-lock'')
                      else Inr ()) (\<lambda>_.
            if vShieldedSpend tx \<noteq> [] \<or> vShieldedOutput tx \<noteq> []
            then res_bind (check_spends K dataToBeSigned (ctx_init K) (vShieldedSpend tx)) (\<lambda>ctx.
                 res_bind (check_shielded_outputs K ctx (vShieldedOutput tx)) (\<lambda>ctx.
                   if final_check K ctx (valueBalance tx) (bindingSig tx) dataToBeSigned then Inr ()
                   else reject 100 ''bad-txns-sapling-binding-signature-invalid''))
            else Inr ())))
      | _ \<Rightarrow> Inl AssertFails)"

section \<open>Checks of the inputs\<close>

text \<open>The interest of an output, as a signed amount; the pointers of a chain that is in order can all be read.\<close>

definition chain_interest ::
    "bool \<Rightarrow> (uint256 \<Rightarrow> (CMutableTransaction \<times> uint256) option) \<Rightarrow> index_state \<Rightarrow> CChain \<Rightarrow> COutPoint \<Rightarrow> CAmount \<Rightarrow> int \<Rightarrow> CAmount" where
  "chain_interest kmd get_tx s chainActive p v h =
     (case squishy_accrued_interest kmd get_tx s chainActive (op_hash p) (op_n p) 0 (word_of_int v) h of Inl e \<Rightarrow> 0 | Inr x \<Rightarrow> sint x)"

text \<open>
  The loop over the inputs with the running value. \<open>interest\<close> is what \<open>squishy_accrued_interest\<close> returns for an
  output, its value and the height. An amount compared with the unsigned \<open>unlockTime\<close> or \<open>ASSETCHAINS_TIMELOCKGTE\<close>
  is converted to an unsigned word, and so is the depth that is compared with the unsigned \<open>CoinbaseMaturity\<close>: coins from
  a height above \<open>nSpendHeight\<close> pass that check.
\<close>

definition check_coinbase_spend :: "chain_globals \<Rightarrow> Params \<Rightarrow> CMutableTransaction \<Rightarrow> int \<Rightarrow> CCoins \<Rightarrow> tx_failure + unit" where
  "check_coinbase_spend G params tx nSpendHeight coins =
     (if word_of_int (TotalTxValue coins) \<ge> ASSETCHAINS_TIMELOCKGTE G \<and> word_of_int nSpendHeight < block_unlocktime G (word_of_int (cc_nHeight coins))
      then reject 10 ''bad-txns-premature-spend-of-coinbase''
      else if word_of_int (nSpendHeight - cc_nHeight coins) < CoinbaseMaturity G then reject 0 ''bad-txns-premature-spend-of-coinbase''
      else if fCoinbaseEnforcedProtectionEnabled G \<and> fCoinbaseMustBeProtected params \<and> vout tx \<noteq> []
      then reject 100 ''bad-txns-coinbase-spend-has-transparent-outputs''
      else Inr ())"

fun sum_inputs ::
    "'v CCoinsView \<Rightarrow> (CCoins \<Rightarrow> u64) \<Rightarrow> chain_globals \<Rightarrow> Params \<Rightarrow> (COutPoint \<Rightarrow> CAmount \<Rightarrow> int \<Rightarrow> CAmount) \<Rightarrow> CMutableTransaction \<Rightarrow> int \<Rightarrow>
     'v CCoinsViewCache \<Rightarrow> CAmount \<Rightarrow> CTxIn list \<Rightarrow> tx_failure + CAmount \<times> 'v CCoinsViewCache" where
  "sum_inputs V U G params interest tx nSpendHeight c nValueIn [] = Inr (nValueIn, c)"
| "sum_inputs V U G params interest tx nSpendHeight c nValueIn (txin # txins) =
     (case AccessCoins V U c (op_hash (prevout txin)) of
        (None, c) \<Rightarrow> Inl AssertFails
      | (Some coins, c) \<Rightarrow>
          res_bind (if cc_fCoinBase coins then check_coinbase_spend G params tx nSpendHeight coins else Inr ()) (\<lambda>_.
          if unat (op_n (prevout txin)) \<ge> length (cc_vout coins) then Inl AssertFails
          else let v = nValue (cc_vout coins ! unat (op_n (prevout txin)));
                   nValueIn = wrap64 (nValueIn + v);
                   nValueIn = (if isKMD G \<and> nSpendHeight > 60000 \<and> v \<ge> 10 * uint COIN
                               then wrap64 (nValueIn + interest (prevout txin) v (nSpendHeight - 1)) else nValueIn)
               in if \<not> MoneyRange (MAX_MONEY G) v \<or> \<not> MoneyRange (MAX_MONEY G) nValueIn then reject 100 ''bad-txns-inputvalues-outofrange''
                  else sum_inputs V U G params interest tx nSpendHeight c nValueIn txins))"

definition CheckTxInputs ::
    "'v CCoinsView \<Rightarrow> (CCoins \<Rightarrow> u64) \<Rightarrow> (ShieldedType \<Rightarrow> tree_params) \<Rightarrow> chain_globals \<Rightarrow> Params \<Rightarrow> (COutPoint \<Rightarrow> CAmount \<Rightarrow> int \<Rightarrow> CAmount) \<Rightarrow>
     CMutableTransaction \<Rightarrow> 'v CCoinsViewCache \<Rightarrow> int \<Rightarrow> tx_failure + 'v CCoinsViewCache" where
  "CheckTxInputs V U T G params interest tx c nSpendHeight =
     (case HaveInputs V U c tx of
        (False, c) \<Rightarrow> Inl (Rejected 0 0 [])
      | (True, c) \<Rightarrow>
          case HaveJoinSplitRequirements V T c tx of
            Inl e \<Rightarrow> Inl AssertFails
          | Inr (False, c) \<Rightarrow> Inl (Rejected 0 0 [])
          | Inr (True, c) \<Rightarrow>
              res_bind (sum_inputs V U G params interest tx nSpendHeight c 0 (vin tx)) (\<lambda>(nValueIn, c).
                case (GetShieldedValueIn (MAX_MONEY G) tx, GetValueOut (MAX_MONEY G) tx) of
                  (None, _) \<Rightarrow> Inl Threw
                | (Some shielded, out) \<Rightarrow>
                    let nValueIn = wrap64 (nValueIn + shielded)
                    in if \<not> MoneyRange (MAX_MONEY G) nValueIn then reject 100 ''bad-txns-inputvalues-outofrange''
                       else case out of
                              None \<Rightarrow> Inl Threw
                            | Some nValueOut \<Rightarrow>
                                if nValueIn < nValueOut then reject 100 ''bad-txns-in-belowout''
                                else let nTxFee = wrap64 (nValueIn - nValueOut); nFees = wrap64 (0 + nTxFee)
                                     in if nTxFee < 0 then reject 100 ''bad-txns-fee-negative''
                                        else if \<not> MoneyRange (MAX_MONEY G) nFees then reject 100 ''bad-txns-fee-outofrange''
                                        else Inr c))"

end
