(* ===== verification/CoinsProps.thy ===== *)
theory CoinsProps
  imports Coins
begin

text \<open>
  Coins and undo records: which outputs are available after spends, and that the stored form is read
  back as it was. The predicate \<open>coins_ok\<close> says what the stored form can hold; making coins from a
  transaction establishes it and spending preserves it.
\<close>

section \<open>Null outputs at the end\<close>

lemma drop_null_snoc: "drop_null (xs @ [txout_null]) = drop_null xs"
  by (subst drop_null.simps) (simp add: txout_IsNull_def txout_null_def)

lemma drop_null_null: "drop_null (xs @ replicate k txout_null) = drop_null xs"
proof (induction k)
  case (Suc k)
  have "xs @ replicate (Suc k) txout_null = (xs @ replicate k txout_null) @ [txout_null]" by (simp flip: replicate_append_same)
  with Suc show ?case by (simp only: drop_null_snoc)
qed simp

lemma drop_null_clean: "outs = [] \<or> \<not> txout_IsNull (last outs) \<Longrightarrow> drop_null outs = outs"
  by (subst drop_null.simps) auto

lemma drop_null_is_clean: "drop_null outs = [] \<or> \<not> txout_IsNull (last (drop_null outs))"
proof (induction outs rule: drop_null.induct)
  case (1 outs)
  show ?case by (subst (1 2) drop_null.simps) (use 1 in auto)
qed

lemma drop_null_nth:
  "i < length (drop_null outs) \<Longrightarrow> drop_null outs ! i = outs ! i"
  "i < length outs \<Longrightarrow> \<not> txout_IsNull (outs ! i) \<Longrightarrow> i < length (drop_null outs)"
  "length (drop_null outs) \<le> length outs"
proof -
  have "(i < length (drop_null outs) \<longrightarrow> drop_null outs ! i = outs ! i) \<and>
    (i < length outs \<and> \<not> txout_IsNull (outs ! i) \<longrightarrow> i < length (drop_null outs)) \<and> length (drop_null outs) \<le> length outs"
  proof (induction outs rule: drop_null.induct)
    case (1 outs)
    show ?case
    proof (cases "outs \<noteq> [] \<and> txout_IsNull (last outs)")
      case True
      then have e: "drop_null outs = drop_null (butlast outs)" by (subst drop_null.simps) simp
      have "i < length (butlast outs)" if "i < length outs" "\<not> txout_IsNull (outs ! i)"
        using that True by (cases "i = length outs - 1") (auto simp: last_conv_nth)
      with 1 [OF True] show ?thesis unfolding e by (auto simp: nth_butlast)
    next
      case False
      then have "drop_null outs = outs" by (intro drop_null_clean) auto
      then show ?thesis by simp
    qed
  qed
  then show "i < length (drop_null outs) \<Longrightarrow> drop_null outs ! i = outs ! i"
    "i < length outs \<Longrightarrow> \<not> txout_IsNull (outs ! i) \<Longrightarrow> i < length (drop_null outs)"
    "length (drop_null outs) \<le> length outs" by auto
qed

text \<open>Availability is what the other code sees of an output: dropping null outputs does not change it.\<close>

lemma IsAvailable_Cleanup [simp]: "IsAvailable (Cleanup c) n = IsAvailable c n"
  using drop_null_nth(1,2) [of n "cc_vout c"] drop_null_nth(3) [of "cc_vout c"] by (auto simp: IsAvailable_def Cleanup_def)

lemma IsPruned_iff: "IsPruned c \<longleftrightarrow> (\<forall>n. \<not> IsAvailable c n)"
  by (fastforce simp: IsPruned_def IsAvailable_def in_set_conv_nth)

lemma IsPruned_Cleanup [simp]: "IsPruned (Cleanup c) = IsPruned c"
  by (simp add: IsPruned_iff)

section \<open>The mask\<close>

fun mask_bytes :: "CTxOut list \<Rightarrow> bytes" where
  "mask_bytes rest = (if rest = [] then [] else avail_byte 0 (take 8 rest) # mask_bytes (drop 8 rest))"

declare mask_bytes.simps [simp del]

abbreviation bits8 :: "u8 \<Rightarrow> bool list" where
  "bits8 w \<equiv> map (\<lambda>p. w AND push_bit p 1 \<noteq> 0) [0..<8]"

lemma bit_avail_byte:
  "bit (avail_byte i outs) p \<longleftrightarrow> p < 8 \<and> i \<le> p \<and> p - i < length outs \<and> \<not> txout_IsNull (outs ! (p - i))"
proof (induction i outs rule: avail_byte.induct)
  case (2 i out outs)
  have "bit (push_bit i 1 :: u8) p \<longleftrightarrow> p = i \<and> p < 8" by (auto simp: bit_exp_iff)
  moreover have "p - Suc i = k" if "p - i = Suc k" for k using that by simp
  ultimately show ?case using 2 by (cases "p - i") (auto simp: bit_or_iff)
qed simp

lemma avail_byte_0: "length outs \<le> 8 \<Longrightarrow> avail_byte 0 outs = 0 \<longleftrightarrow> list_all txout_IsNull outs"
  by (auto simp: bit_eq_iff bit_avail_byte list_all_length)

lemma bits8_avail_byte:
  assumes "length outs \<le> 8"
  shows "bits8 (avail_byte 0 outs) = map (\<lambda>out. \<not> txout_IsNull out) outs @ replicate (8 - length outs) False"
proof (rule nth_equalityI)
  fix i
  assume "i < length (bits8 (avail_byte 0 outs))"
  then have "i < 8" by simp
  then have "bits8 (avail_byte 0 outs) ! i = bit (avail_byte 0 outs) i" by (simp add: and_push_bit_one del: upt_Suc push_bit_of_1)
  then show "bits8 (avail_byte 0 outs) ! i = (map (\<lambda>out. \<not> txout_IsNull out) outs @ replicate (8 - length outs) False) ! i"
    using \<open>i < 8\<close> by (simp add: bit_avail_byte nth_append)
qed (use assms in simp)

lemma mask_loop_bytes:
  assumes "rest = [] \<or> \<not> txout_IsNull (last rest)"
  shows "mask_loop b rest (l, nz) =
    (if rest = [] then l else b + length (mask_bytes rest), nz + length (filter (\<lambda>w. w \<noteq> 0) (mask_bytes rest)))"
  using assms
proof (induction rest arbitrary: b l nz rule: mask_bytes.induct)
  case (1 rest)
  show ?case
  proof (cases "rest = []")
    case True
    then show ?thesis by (simp add: mask_loop.simps mask_bytes.simps)
  next
    case False
    have z: "avail_byte 0 (take 8 rest) = 0 \<longleftrightarrow> list_all txout_IsNull (take 8 rest)" by (rule avail_byte_0) simp
    have "drop 8 rest = [] \<or> \<not> txout_IsNull (last (drop 8 rest))" using 1(2) False by (auto simp: last_drop)
    note IH = 1(1) [OF False this]
    have "\<not> list_all txout_IsNull (take 8 rest)" if "drop 8 rest = []"
      using 1(2) False that last_in_set [of rest] by (auto simp: list_all_iff)
    then show ?thesis using False
      by (subst mask_loop.simps, subst (1 2) mask_bytes.simps) (auto simp: IH z mask_bytes.simps [of "[]"])
  qed
qed

lemma mask_bytes_map: "map (\<lambda>b. avail_byte 0 (take 8 (drop (b * 8) rest))) [0..<length (mask_bytes rest)] = mask_bytes rest"
proof (induction rest rule: mask_bytes.induct)
  case (1 rest)
  show ?case
  proof (cases "rest = []")
    case False
    have "map (\<lambda>b. avail_byte 0 (take 8 (drop (b * 8) rest))) [0..<Suc (length (mask_bytes (drop 8 rest)))] =
      avail_byte 0 (take 8 rest) # map (\<lambda>b. avail_byte 0 (take 8 (drop (b * 8) (drop 8 rest)))) [0..<length (mask_bytes (drop 8 rest))]"
      by (subst upt_conv_Cons) (simp_all add: comp_def add.commute flip: map_Suc_upt del: upt_Suc)
    with 1 False show ?thesis by (subst (1 2) mask_bytes.simps) simp
  qed (simp add: mask_bytes.simps)
qed

lemma mask_bytes_last: "rest \<noteq> [] \<Longrightarrow> \<not> txout_IsNull (last rest) \<Longrightarrow> mask_bytes rest \<noteq> [] \<and> last (mask_bytes rest) \<noteq> 0"
proof (induction rest rule: mask_bytes.induct)
  case (1 rest)
  show ?case
  proof (cases "drop 8 rest = []")
    case True
    have "\<not> list_all txout_IsNull (take 8 rest)"
      using 1(2,3) True last_in_set [of rest] by (auto simp: list_all_iff)
    then have "avail_byte 0 (take 8 rest) \<noteq> 0" by (simp add: avail_byte_0)
    with True 1(2) show ?thesis by (subst (1 2) mask_bytes.simps) (simp add: mask_bytes.simps)
  next
    case False
    then have "\<not> txout_IsNull (last (drop 8 rest))" using 1(3) by (simp add: last_drop)
    with 1 False show ?thesis by (subst (1 2) mask_bytes.simps) simp
  qed
qed

lemma mask_bytes_bits:
  "\<exists>k. concat (map bits8 (mask_bytes rest)) = map (\<lambda>out. \<not> txout_IsNull out) rest @ replicate k False"
proof (induction rest rule: mask_bytes.induct)
  case (1 rest)
  show ?case
  proof (cases "rest = []")
    case False
    from 1 [OF False] obtain k where
      k: "concat (map bits8 (mask_bytes (drop 8 rest))) = map (\<lambda>out. \<not> txout_IsNull out) (drop 8 rest) @ replicate k False" by blast
    have b: "bits8 (avail_byte 0 (take 8 rest)) = map (\<lambda>out. \<not> txout_IsNull out) (take 8 rest) @ replicate (8 - length (take 8 rest)) False"
      by (rule bits8_avail_byte) simp
    show ?thesis
    proof (cases "length rest \<le> 8")
      case True
      then have "map (\<lambda>out. \<not> txout_IsNull out) (drop 8 rest) = []" by simp
      with b k True False show ?thesis
        by (subst mask_bytes.simps) (auto simp del: upt_Suc simp flip: replicate_add)
    next
      case len: False
      then have "bits8 (avail_byte 0 (take 8 rest)) = map (\<lambda>out. \<not> txout_IsNull out) (take 8 rest)" using b by simp
      moreover have "map (\<lambda>out. \<not> txout_IsNull out) (take 8 rest) @ map (\<lambda>out. \<not> txout_IsNull out) (drop 8 rest) =
        map (\<lambda>out. \<not> txout_IsNull out) rest" by (simp flip: map_append)
      ultimately show ?thesis using k False
        by (intro exI [of _ k], subst mask_bytes.simps) (simp del: upt_Suc flip: append_assoc)
    qed
  qed (simp add: mask_bytes.simps)
qed

lemma read_mask_bytes:
  "ms = [] \<or> last ms \<noteq> 0 \<Longrightarrow> read_mask (length (filter (\<lambda>w. w \<noteq> 0) ms)) (ms @ r) = Inr (concat (map bits8 ms), r)"
proof (induction ms)
  case Nil
  then show ?case by (cases r) simp_all
next
  case (Cons m ms)
  then have "ms = [] \<or> last ms \<noteq> 0" "m \<noteq> 0 \<or> ms \<noteq> []" by (auto split: if_splits)
  moreover have "length (filter (\<lambda>w. w \<noteq> 0) ms) \<noteq> 0" if "ms \<noteq> []" using that Cons.prems by (auto simp: filter_empty_conv)
  ultimately show ?case using Cons.IH by (auto simp del: upt_Suc)
qed

section \<open>Reading back\<close>

text \<open>What an output needs to survive the compressed form: a value in range and a script within the limit.\<close>

definition storable :: "CTxOut \<Rightarrow> bool" where
  "storable t \<longleftrightarrow> 0 \<le> nValue t \<and> 9 * nValue t < 2 ^ 64 \<and> length (scriptPubKey t) \<le> MAX_SCRIPT_SIZE"

lemma storable_read_back:
  assumes "pubkey_laws P" "storable t"
  shows "\<exists>b. txoutc_Serialize P t = Inr b \<and> (\<forall>t0 r. txoutc_Unserialize P t0 (b @ r) = Inr (t, r))"
  using txoutc_read_back [OF assms(1), of t] assms(2) by (auto simp: storable_def MAX_SCRIPT_SIZE_def)

lemma outputs_read_back:
  assumes "pubkey_laws P" "\<forall>out\<in>set outs. out = txout_null \<or> \<not> txout_IsNull out \<and> storable out"
  shows "\<exists>b. coins_outputs P outs = Inr b \<and>
    (\<forall>k r. read_outputs P (map (\<lambda>out. \<not> txout_IsNull out) outs @ replicate k False) (b @ r) = Inr (outs @ replicate k txout_null, r))"
  using assms(2)
proof (induction outs)
  case Nil
  have "read_outputs P (replicate k False) r = Inr (replicate k txout_null, r)" for k r
    by (induction k) (simp_all add: rd_bind_def rd_return_def)
  then show ?case by simp
next
  case (Cons out outs)
  then obtain b where b: "coins_outputs P outs = Inr b"
    "\<And>k r. read_outputs P (map (\<lambda>out. \<not> txout_IsNull out) outs @ replicate k False) (b @ r) = Inr (outs @ replicate k txout_null, r)"
    by auto
  show ?case
  proof (cases "txout_IsNull out")
    case True
    with Cons.prems have "out = txout_null" by auto
    with True b show ?thesis by (simp add: rd_bind_def)
  next
    case False
    with Cons.prems have "storable out" by (auto simp: txout_IsNull_def txout_null_def)
    from storable_read_back [OF assms(1) this] obtain c where
      "txoutc_Serialize P out = Inr c" "\<And>t0 r. txoutc_Unserialize P t0 (c @ r) = Inr (out, r)" by blast
    with False b show ?thesis by (simp add: rd_bind_def)
  qed
qed

text \<open>The header code, taken apart again.\<close>

lemma header_code:
  fixes c f s :: bool
  assumes "q < 2 ^ 29"
  defines "w \<equiv> 8 * of_nat q + (if c then 1 else 0) + (if f then 2 else 0) + (if s then 4 else 0) :: u32"
  shows "w AND 1 \<noteq> 0 \<longleftrightarrow> c" "w AND 2 \<noteq> 0 \<longleftrightarrow> f" "w AND 4 \<noteq> 0 \<longleftrightarrow> s" "w AND 6 \<noteq> 0 \<longleftrightarrow> f \<or> s" "w div 8 = of_nat q"
proof -
  define n where "n = 8 * q + of_bool c + 2 * of_bool f + 4 * of_bool s"
  have w: "w = of_nat n" by (simp add: w_def n_def)
  have "n < 2 ^ 32" using assms(1) by (simp add: n_def)
  then have u: "unat w = n" by (simp add: w unat_of_nat_mod)
  have b: "bit w i \<longleftrightarrow> bit n i" for i using bit_unat_iff [of w i] u by simp
  have bits: "bit n 0 \<longleftrightarrow> c" "bit n 1 \<longleftrightarrow> f" "bit n 2 \<longleftrightarrow> s"
    by (cases c; cases f; cases s; simp add: n_def bit_iff_odd; presburger)+
  have and_i: "w AND 2 ^ i \<noteq> 0 \<longleftrightarrow> bit n i" for i using and_exp_eq_0_iff_not_bit [of w i] b by simp
  show "w AND 1 \<noteq> 0 \<longleftrightarrow> c" "w AND 2 \<noteq> 0 \<longleftrightarrow> f" "w AND 4 \<noteq> 0 \<longleftrightarrow> s"
    using and_i [of 0] and_i [of 1] and_i [of 2] bits by simp_all
  moreover have "w AND 6 = (w AND 2) OR (w AND 4)" using bit.conj_disj_distrib [of w 2 4] by simp
  ultimately show "w AND 6 \<noteq> 0 \<longleftrightarrow> f \<or> s" by (simp add: or_eq_0_iff)
  have "unat (w div 8) = n div 8" by (simp add: unat_div u)
  also have "n div 8 = q" unfolding n_def by (cases c; cases f; cases s) simp_all
  finally show "w div 8 = of_nat q" by (rule eq_of_nat_unat)
qed

text \<open>The two flags of the header and the mask together are the availabilities, padded with spent outputs.\<close>

lemma availabilities:
  assumes "cc_vout c \<noteq> []" "\<not> txout_IsNull (last (cc_vout c))"
  shows "\<exists>k. [IsAvailable c 0, IsAvailable c 1] @ concat (map bits8 (mask_bytes (drop 2 (cc_vout c)))) =
    map (\<lambda>out. \<not> txout_IsNull out) (cc_vout c) @ replicate k False"
proof (cases "cc_vout c")
  case (Cons a as)
  show ?thesis
  proof (cases as)
    case Nil
    then show ?thesis using Cons by (intro exI [of _ 1]) (simp add: IsAvailable_def mask_bytes.simps)
  next
    case (Cons b bs)
    then show ?thesis using \<open>cc_vout c = a # as\<close> mask_bytes_bits [of bs] by (auto simp: IsAvailable_def)
  qed
qed (use assms in simp)

definition coins_ok :: "CCoins \<Rightarrow> bool" where
  "coins_ok c \<longleftrightarrow>
     0 \<le> cc_nVersion c \<and> cc_nVersion c < 2 ^ 31 \<and> 0 \<le> cc_nHeight c \<and> cc_nHeight c < 2 ^ 31 \<and> length (cc_vout c) < 2 ^ 29 \<and>
     (\<forall>out\<in>set (cc_vout c). out = txout_null \<or> \<not> txout_IsNull out \<and> storable out) \<and> Cleanup c = c"

lemma length_mask_bytes: "length (mask_bytes rest) \<le> length rest"
proof (induction rest rule: mask_bytes.induct)
  case (1 rest)
  then show ?case
  proof (cases "rest = []")
    case False
    then have "length (mask_bytes rest) = Suc (length (mask_bytes (drop 8 rest)))" by (subst mask_bytes.simps) simp
    with 1 [OF False] False show ?thesis by (cases rest) auto
  qed (simp add: mask_bytes.simps)
qed

lemma clean_coins:
  assumes "Cleanup c = c" "\<not> IsPruned c"
  shows "cc_vout c \<noteq> []" "\<not> txout_IsNull (last (cc_vout c))"
proof -
  have "drop_null (cc_vout c) = cc_vout c" using assms(1) by (cases c) (simp add: Cleanup_def)
  moreover have "cc_vout c \<noteq> []" using assms(2) by (auto simp: IsPruned_def)
  ultimately show "cc_vout c \<noteq> []" "\<not> txout_IsNull (last (cc_vout c))" using drop_null_is_clean [of "cc_vout c"] by auto
qed

lemma mask_of_clean:
  assumes "cc_vout c \<noteq> []" "\<not> txout_IsNull (last (cc_vout c))"
  defines "ms \<equiv> mask_bytes (drop 2 (cc_vout c))"
  shows "CalcMaskSize c = (length ms, length (filter (\<lambda>w. w \<noteq> 0) ms))"
    "map (\<lambda>b. avail_byte 0 (take 8 (drop (2 + b * 8) (cc_vout c)))) [0..<length ms] = ms" "ms = [] \<or> last ms \<noteq> 0"
    "IsAvailable c 0 \<or> IsAvailable c 1 \<or> ms \<noteq> []"
proof -
  have d: "drop 2 (cc_vout c) = [] \<or> \<not> txout_IsNull (last (drop 2 (cc_vout c)))" using assms(1,2) by (auto simp: last_drop)
  show "CalcMaskSize c = (length ms, length (filter (\<lambda>w. w \<noteq> 0) ms))"
    by (auto simp: CalcMaskSize_def mask_loop_bytes [OF d] ms_def mask_bytes.simps [of "[]"])
  have "drop (2 + b * 8) (cc_vout c) = drop (b * 8) (drop 2 (cc_vout c))" for b by (simp add: add.commute)
  then show "map (\<lambda>b. avail_byte 0 (take 8 (drop (2 + b * 8) (cc_vout c)))) [0..<length ms] = ms"
    unfolding ms_def by (simp only: mask_bytes_map)
  show "ms = [] \<or> last ms \<noteq> 0"
  proof (cases "drop 2 (cc_vout c) = []")
    case False
    with d mask_bytes_last [OF False] show ?thesis by (simp add: ms_def)
  qed (simp add: ms_def mask_bytes.simps [of "[]"])
  show "IsAvailable c 0 \<or> IsAvailable c 1 \<or> ms \<noteq> []"
  proof (cases "drop 2 (cc_vout c) = []")
    case True
    with assms(1,2) show ?thesis by (cases "cc_vout c"; cases "tl (cc_vout c)") (auto simp: IsAvailable_def)
  next
    case False
    with d mask_bytes_last [of "drop 2 (cc_vout c)"] show ?thesis by (auto simp: ms_def)
  qed
qed

lemma coins_read_back:
  assumes "pubkey_laws P" "coins_ok c" "\<not> IsPruned c"
  shows "\<exists>b. coins_Serialize P c = Inr b \<and> coins_Unserialize P (b @ r) = Inr (c, r)"
proof -
  define ms where "ms = mask_bytes (drop 2 (cc_vout c))"
  define m where "m = length (filter (\<lambda>w. w \<noteq> 0) ms)"
  define a where "a \<longleftrightarrow> IsAvailable c 0 \<or> IsAvailable c 1"
  have ok: "0 \<le> cc_nVersion c \<and> cc_nVersion c < 2 ^ 31" "0 \<le> cc_nHeight c \<and> cc_nHeight c < 2 ^ 31" "length (cc_vout c) < 2 ^ 29"
    "\<forall>out\<in>set (cc_vout c). out = txout_null \<or> \<not> txout_IsNull out \<and> storable out" "Cleanup c = c"
    using assms(2) by (auto simp: coins_ok_def)
  note cl = clean_coins [OF ok(5) assms(3)]
  note mask = mask_of_clean [OF cl, folded ms_def]
  have m0: "m \<noteq> 0" if "\<not> a" using mask(3,4) that by (auto simp: a_def m_def filter_empty_conv)
  define q where "q = m - (if a then 0 else 1)"
  have "m \<le> length (cc_vout c)"
    using length_filter_le [of "\<lambda>w. w \<noteq> 0" ms] length_mask_bytes [of "drop 2 (cc_vout c)"] unfolding m_def ms_def by (simp only: length_drop)
  then have q: "q < 2 ^ 29" using ok(3) by (simp add: q_def)
  note code = header_code [OF q, of "cc_fCoinBase c" "IsAvailable c 0" "IsAvailable c 1"]
  define w :: u32 where "w = 8 * of_nat q + (if cc_fCoinBase c then 1 else 0) + (if IsAvailable c 0 then 2 else 0) + (if IsAvailable c 1 then 4 else 0)"
  note code = code [folded w_def]
  have of_q: "of_nat m - (if a then 0 else 1) = (of_nat q :: u32)" using m0 by (auto simp: q_def of_nat_diff)
  have "of_nat q + (if a then 0 else 1) = (of_nat m :: u32)" unfolding of_q [symmetric] by simp
  moreover have "m < 2 ^ 32" using \<open>m \<le> length (cc_vout c)\<close> ok(3) by simp
  ultimately have cnt: "unat (w div 8 + (if w AND 6 \<noteq> 0 then 0 else 1)) = m"
    unfolding code a_def [symmetric] by (simp add: unat_of_nat_mod)
  obtain bo where bo: "coins_outputs P (cc_vout c) = Inr bo"
    "\<And>k r. read_outputs P (map (\<lambda>out. \<not> txout_IsNull out) (cc_vout c) @ replicate k False) (bo @ r) = Inr (cc_vout c @ replicate k txout_null, r)"
    using outputs_read_back [OF assms(1) ok(4)] by blast
  obtain k where k: "[IsAvailable c 0, IsAvailable c 1] @ concat (map bits8 ms) = map (\<lambda>out. \<not> txout_IsNull out) (cc_vout c) @ replicate k False"
    using availabilities [OF cl] unfolding ms_def by blast
  have "coins_Serialize P c = Inr (WriteVarInt_int (cc_nVersion c) @ WriteVarInt w @ ms @ bo @ WriteVarInt_int (cc_nHeight c))"
    using m0 mask(1,2) bo(1) of_q by (auto simp: coins_Serialize_def Let_def w_def a_def m_def)
  moreover have "coins_Unserialize P ((WriteVarInt_int (cc_nVersion c) @ WriteVarInt w @ ms @ bo @ WriteVarInt_int (cc_nHeight c)) @ r) = Inr (c, r)"
  proof -
    have "Cleanup \<lparr>cc_fCoinBase = cc_fCoinBase c, cc_vout = cc_vout c @ replicate k txout_null, cc_nHeight = cc_nHeight c, cc_nVersion = cc_nVersion c\<rparr> = c"
      using ok(5) by (cases c) (simp add: Cleanup_def drop_null_null)
    moreover have "read_mask m (ms @ x) = Inr (concat (map bits8 ms), x)" for x unfolding m_def by (rule read_mask_bytes [OF mask(3)])
    ultimately show ?thesis
      unfolding coins_Unserialize_def append_assoc varint_int.bind_read_back [OF ok(1)] varint.bind_read_back [OF TrueI] cnt
      by (simp only: rd_bind_def [of "read_mask _"] rd_bind_def [of "read_outputs _ _"] code k bo(2) res_bind_simps prod.case
          varint_int.bind_read_back [OF ok(2)] rd_basic)
  qed
  ultimately show ?thesis by blast
qed

section \<open>Spending\<close>

definition spend_step :: "CCoins \<Rightarrow> nat \<Rightarrow> CCoins" where
  "spend_step c n = (case Spend c n of Some c' \<Rightarrow> c' | None \<Rightarrow> c)"

lemma Spend_None_iff: "Spend c n = None \<longleftrightarrow> \<not> IsAvailable c n"
  by (auto simp: Spend_def IsAvailable_def)

lemma IsAvailable_Spend:
  assumes "Spend c n = Some c'"
  shows "IsAvailable c' k \<longleftrightarrow> IsAvailable c k \<and> k \<noteq> n" "IsAvailable c' k \<Longrightarrow> cc_vout c' ! k = cc_vout c ! k"
proof -
  have c': "c' = Cleanup (c\<lparr>cc_vout := (cc_vout c)[n := txout_null]\<rparr>)" "n < length (cc_vout c)"
    using assms by (auto simp: Spend_def split: if_splits)
  have null: "txout_IsNull txout_null" by (simp add: txout_IsNull_def txout_null_def)
  show a: "IsAvailable c' k \<longleftrightarrow> IsAvailable c k \<and> k \<noteq> n"
    unfolding c'(1) IsAvailable_Cleanup using c'(2) null by (auto simp: IsAvailable_def nth_list_update)
  assume k: "IsAvailable c' k"
  then have "k < length (cc_vout c')" "k \<noteq> n" using a by (auto simp: IsAvailable_def)
  then show "cc_vout c' ! k = cc_vout c ! k" unfolding c'(1) by (simp add: Cleanup_def drop_null_nth)
qed

lemma IsAvailable_spends:
  "IsAvailable (foldl spend_step c ns) k \<longleftrightarrow> IsAvailable c k \<and> k \<notin> set ns"
  "IsAvailable (foldl spend_step c ns) k \<Longrightarrow> cc_vout (foldl spend_step c ns) ! k = cc_vout c ! k"
proof -
  have "(IsAvailable (foldl spend_step c ns) k \<longleftrightarrow> IsAvailable c k \<and> k \<notin> set ns) \<and>
    (IsAvailable (foldl spend_step c ns) k \<longrightarrow> cc_vout (foldl spend_step c ns) ! k = cc_vout c ! k)"
  proof (induction ns arbitrary: c)
    case (Cons n ns)
    have "IsAvailable (spend_step c n) k \<longleftrightarrow> IsAvailable c k \<and> k \<noteq> n"
      "IsAvailable (spend_step c n) k \<Longrightarrow> cc_vout (spend_step c n) ! k = cc_vout c ! k"
      using IsAvailable_Spend [of c n _ k] Spend_None_iff [of c n] by (auto simp: spend_step_def split: option.splits)
    with Cons [of "spend_step c n"] show ?case by auto
  qed simp
  then show "IsAvailable (foldl spend_step c ns) k \<longleftrightarrow> IsAvailable c k \<and> k \<notin> set ns"
    "IsAvailable (foldl spend_step c ns) k \<Longrightarrow> cc_vout (foldl spend_step c ns) ! k = cc_vout c ! k" by simp_all
qed

lemma Cleanup_idem [simp]: "Cleanup (Cleanup c) = Cleanup c"
  using drop_null_clean [OF drop_null_is_clean [of "cc_vout c"]] by (cases c) (simp add: Cleanup_def)

lemma in_set_drop_null: "x \<in> set (drop_null outs) \<Longrightarrow> x \<in> set outs"
  using drop_null_nth(1,3) by (metis in_set_conv_nth order_less_le_trans)

lemma coins_ok_Cleanup:
  assumes "0 \<le> cc_nVersion c" "cc_nVersion c < 2 ^ 31" "0 \<le> cc_nHeight c" "cc_nHeight c < 2 ^ 31" "length (cc_vout c) < 2 ^ 29"
    "\<forall>out\<in>set (cc_vout c). out = txout_null \<or> \<not> txout_IsNull out \<and> storable out"
  shows "coins_ok (Cleanup c)"
proof -
  have "length (drop_null (cc_vout c)) < 2 ^ 29" using drop_null_nth(3) assms(5) by (rule order_le_less_trans)
  then show ?thesis using assms in_set_drop_null [of _ "cc_vout c"] Cleanup_idem [of c] by (auto simp: coins_ok_def Cleanup_def)
qed

lemma coins_ok_Spend:
  assumes "coins_ok c" "Spend c n = Some c'"
  shows "coins_ok c'"
proof -
  have c': "c' = Cleanup (c\<lparr>cc_vout := (cc_vout c)[n := txout_null]\<rparr>)" using assms(2) by (simp add: Spend_def split: if_splits)
  have "set ((cc_vout c)[n := txout_null]) \<subseteq> insert txout_null (set (cc_vout c))" by (rule set_update_subset_insert)
  then show ?thesis unfolding c' by (intro coins_ok_Cleanup) (use assms(1) in \<open>auto simp: coins_ok_def\<close>)
qed

lemma coins_ok_spends: "coins_ok c \<Longrightarrow> coins_ok (foldl spend_step c ns)"
  by (induction ns arbitrary: c) (auto simp: spend_step_def coins_ok_Spend split: option.splits)

lemma coins_ok_FromTx:
  assumes "\<forall>out\<in>set (vout tx). 0 \<le> nValue out \<and> 9 * nValue out < 2 ^ 64" "0 \<le> nVersion tx" "nVersion tx < 2 ^ 31"
    "0 \<le> h" "h < 2 ^ 31" "length (vout tx) < 2 ^ 29"
  shows "coins_ok (FromTx tx h)"
  unfolding FromTx_def ClearUnspendable_def
  by (rule coins_ok_Cleanup) (use assms in \<open>auto simp: storable_def IsUnspendable_def txout_IsNull_def not_less\<close>)

lemma IsAvailable_FromTx:
  assumes "\<forall>out\<in>set (vout tx). nValue out \<noteq> - 1"
  shows "IsAvailable (FromTx tx h) k \<longleftrightarrow> k < length (vout tx) \<and> \<not> IsUnspendable (scriptPubKey (vout tx ! k))"
    "IsAvailable (FromTx tx h) k \<Longrightarrow> cc_vout (FromTx tx h) ! k = vout tx ! k"
proof -
  let ?c = "\<lparr>cc_fCoinBase = tx_IsCoinBase tx, cc_vout = map (\<lambda>txout. if IsUnspendable (scriptPubKey txout) then txout_null else txout) (vout tx),
    cc_nHeight = h, cc_nVersion = nVersion tx\<rparr>"
  have F: "FromTx tx h = Cleanup ?c" by (simp add: FromTx_def ClearUnspendable_def)
  show a: "IsAvailable (FromTx tx h) k \<longleftrightarrow> k < length (vout tx) \<and> \<not> IsUnspendable (scriptPubKey (vout tx ! k))"
    unfolding F IsAvailable_Cleanup using assms by (auto simp: IsAvailable_def txout_IsNull_def txout_null_def)
  assume k: "IsAvailable (FromTx tx h) k"
  then have "k < length (cc_vout (FromTx tx h))" by (simp add: IsAvailable_def)
  then show "cc_vout (FromTx tx h) ! k = vout tx ! k" using a k unfolding F by (simp add: Cleanup_def drop_null_nth)
qed

section \<open>Undo records\<close>

definition undo_ok :: "CTxInUndo \<Rightarrow> bool" where
  "undo_ok u \<longleftrightarrow> storable (ui_txout u) \<and> unat (ui_nHeight u) < 2 ^ 31 \<and> 0 \<le> ui_nVersion u \<and> ui_nVersion u < 2 ^ 31 \<and>
     (ui_nHeight u = 0 \<longrightarrow> ui_nVersion u = 0)"

definition ser_of :: "('a \<Rightarrow> ser_error + bytes) \<Rightarrow> 'a \<Rightarrow> bytes" where
  "ser_of f x = (case f x of Inr b \<Rightarrow> b | Inl _ \<Rightarrow> [])"

lemma Serialize_all_concat:
  "(\<And>x. x \<in> set xs \<Longrightarrow> \<exists>b. f x = Inr b) \<Longrightarrow> Serialize_all f xs = Inr (concat (map (ser_of f) xs))"
proof (induction xs)
  case (Cons x xs)
  then obtain b where "f x = Inr b" by force
  with Cons show ?case by (simp add: ser_of_def)
qed simp

lemma undo_code:
  fixes h :: u32
  assumes "unat h < 2 ^ 31"
  shows "(h * 2 + (if c then 1 else 0)) div 2 = h" "(h * 2 + (if c then 1 else 0)) AND 1 \<noteq> 0 \<longleftrightarrow> c"
proof -
  have "unat h * unat (2 :: u32) < 2 ^ LENGTH(32)" using assms by simp
  then have d: "unat (h * 2) = 2 * unat h" by (subst unat_mult_nowrap) simp_all
  have "unat (h * 2) + unat (if c then 1 else 0 :: u32) < 2 ^ LENGTH(32)" using assms d by auto
  then have u: "unat (h * 2 + (if c then 1 else 0)) = 2 * unat h + of_bool c" by (subst unat_add_nowrap) (auto simp: d)
  have "unat ((h * 2 + (if c then 1 else 0)) div 2) = unat h" unfolding unat_div u by (cases c) simp_all
  then show "(h * 2 + (if c then 1 else 0)) div 2 = h" by (simp only: word_unat_eq_iff)
  have "bit (h * 2 + (if c then 1 else 0)) 0 \<longleftrightarrow> c" using bit_unat_iff [of "h * 2 + (if c then 1 else 0)" 0] unfolding u by (cases c) (simp_all add: bit_0)
  then show "(h * 2 + (if c then 1 else 0)) AND 1 \<noteq> 0 \<longleftrightarrow> c" using and_exp_eq_0_iff_not_bit [of "h * 2 + (if c then 1 else 0)" 0] by simp
qed

lemma undo_read_back:
  assumes "pubkey_laws P" "undo_ok u"
  shows "\<exists>b. undo_Serialize P u = Inr b \<and> (\<forall>r. undo_Unserialize P undo_default (b @ r) = Inr (u, r))"
proof -
  obtain h c v t where u: "u = \<lparr>ui_txout = t, ui_fCoinBase = c, ui_nHeight = h, ui_nVersion = v\<rparr>" by (cases u) auto
  have ok: "storable t" "unat h < 2 ^ 31" "0 \<le> v \<and> v < 2 ^ 31" "h = 0 \<Longrightarrow> v = 0" using assms(2) by (auto simp: undo_ok_def u)
  obtain b where b: "txoutc_Serialize P t = Inr b" "\<And>t0 r. txoutc_Unserialize P t0 (b @ r) = Inr (t, r)"
    using storable_read_back [OF assms(1) ok(1)] by blast
  note code = undo_code [OF ok(2), of c]
  define bb where "bb = WriteVarInt (h * 2 + (if c then 1 else 0)) @ (if h > 0 then WriteVarInt_int v else []) @ b"
  have "undo_Unserialize P undo_default (bb @ r) = Inr (u, r)" for r
    unfolding bb_def append_assoc undo_Unserialize_def varint.bind_read_back [OF TrueI] code
    by (cases "h > 0") (simp_all add: varint_int.read_back [OF ok(3)] rd_bind_def b(2) u undo_default_def ok(4) word_gt_0)
  moreover have "undo_Serialize P u = Inr bb" using b(1) by (simp only: undo_Serialize_def u CTxInUndo.simps res_bind_simps bb_def)
  ultimately show ?thesis by blast
qed

lemma ser_of_codec:
  assumes "\<And>x. ok x \<Longrightarrow> \<exists>b. ser x = Inr b \<and> (\<forall>r. unser (b @ r) = Inr (x, r))"
  shows "codec (ser_of ser) unser ok"
proof
  fix x r
  assume "ok x"
  with assms obtain b where "ser x = Inr b" "unser (b @ r) = Inr (x, r)" by blast
  then show "unser (ser_of ser x @ r) = Inr (x, r)" by (simp add: ser_of_def)
qed

definition txundo_ok :: "CTxUndo \<Rightarrow> bool" where
  "txundo_ok u \<longleftrightarrow> length (vprevout u) \<le> MAX_SIZE \<and> (\<forall>x\<in>set (vprevout u). undo_ok x)"

lemma vector_res_read_back:
  assumes "\<And>x. ok x \<Longrightarrow> \<exists>b. ser x = Inr b \<and> (\<forall>r. unser (b @ r) = Inr (x, r))" "length xs \<le> MAX_SIZE" "\<forall>x\<in>set xs. ok x"
  shows "\<exists>b. Serialize_all ser xs = Inr b \<and> (\<forall>r. Unserialize_vector unser (WriteCompactSize (of_nat (length xs)) @ b @ r) = Inr (xs, r))"
proof -
  have "Serialize_all ser xs = Inr (concat (map (ser_of ser) xs))" by (rule Serialize_all_concat) (use assms in blast)
  moreover have "Unserialize_vector unser (Serialize_vector (ser_of ser) xs @ r) = Inr (xs, r)" for r
    by (rule codec.read_back [OF vector_codec [OF ser_of_codec]]) (use assms in auto)
  ultimately show ?thesis by (simp add: Serialize_vector_def)
qed

lemma txundo_read_back:
  assumes "pubkey_laws P" "txundo_ok u"
  shows "\<exists>b. txundo_Serialize P u = Inr b \<and> (\<forall>r. txundo_Unserialize P (b @ r) = Inr (u, r))"
proof -
  have "length (vprevout u) \<le> MAX_SIZE" "\<forall>x\<in>set (vprevout u). undo_ok x" using assms(2) by (simp_all add: txundo_ok_def)
  from vector_res_read_back [of undo_ok, OF undo_read_back [OF assms(1)] this] show ?thesis
    by (auto simp: txundo_Serialize_def txundo_Unserialize_def rd_bind_def)
qed

section \<open>Properties\<close>

text \<open>
  C22. Spending is exact. Of the coins made from a transaction whose outputs have values that are not
  \<open>-1\<close>, after any sequence of calls of \<open>Spend\<close>, an output is available just if the transaction has
  it, its script can be spent and none of the calls named it; an available output is the
  transaction's. \<open>Spend\<close> refuses just the outputs that are not available, so none is spent twice.
\<close>

theorem spending_is_exact:
  assumes "\<And>out. out \<in> set (vout tx) \<Longrightarrow> nValue out \<noteq> - 1"
  shows "(IsAvailable (foldl spend_step (FromTx tx h) ns) k \<longleftrightarrow>
            k < length (vout tx) \<and> \<not> IsUnspendable (scriptPubKey (vout tx ! k)) \<and> k \<notin> set ns) \<and>
    (Spend (foldl spend_step (FromTx tx h) ns) k \<noteq> None \<longleftrightarrow> IsAvailable (foldl spend_step (FromTx tx h) ns) k) \<and>
    (if IsAvailable (foldl spend_step (FromTx tx h) ns) k then cc_vout (foldl spend_step (FromTx tx h) ns) ! k = vout tx ! k else True)"
  using IsAvailable_spends [of "FromTx tx h" ns k] IsAvailable_FromTx [of tx h k] assms by (auto simp: Spend_None_iff)

theorem spending_is_exact_witness:
  "IsAvailable (foldl spend_step (FromTx (tx_default\<lparr>vout := [\<lparr>nValue = 5, scriptPubKey = [OP_1]\<rparr>, \<lparr>nValue = 0, scriptPubKey = [OP_RETURN]\<rparr>,
     \<lparr>nValue = 7, scriptPubKey = [OP_1]\<rparr>]\<rparr>) 9) [0, 0]) 2 \<and>
   Spend (foldl spend_step (FromTx (tx_default\<lparr>vout := [\<lparr>nValue = 5, scriptPubKey = [OP_1]\<rparr>]\<rparr>) 9) [0]) 0 = None"
proof
  let ?tx = "tx_default\<lparr>vout := [\<lparr>nValue = 5, scriptPubKey = [OP_1]\<rparr>, \<lparr>nValue = 0, scriptPubKey = [OP_RETURN]\<rparr>, \<lparr>nValue = 7, scriptPubKey = [OP_1]\<rparr>]\<rparr>"
  have "nValue out \<noteq> - 1" if "out \<in> set (vout ?tx)" for out using that by auto
  from spending_is_exact [where tx = ?tx and h = 9 and ns = "[0, 0]" and k = 2, OF this] show "IsAvailable (foldl spend_step (FromTx ?tx 9) [0, 0]) 2"
    by (simp add: IsUnspendable_def MAX_SCRIPT_SIZE_def)
next
  let ?tx = "tx_default\<lparr>vout := [\<lparr>nValue = 5, scriptPubKey = [OP_1]\<rparr>]\<rparr>"
  have "nValue out \<noteq> - 1" if "out \<in> set (vout ?tx)" for out using that by auto
  from spending_is_exact [where tx = ?tx and h = 9 and ns = "[0]" and k = 0, OF this] show "Spend (foldl spend_step (FromTx ?tx 9) [0]) 0 = None" by auto
qed

text \<open>
  Coins survive the database. The coins made from a transaction with values in range, after any
  sequence of spends that leaves an output, are written without an assertion failing, and reading the
  bytes, with anything after them, gives the same coins: flags, height, version and every output, the
  spent ones in their places.
\<close>

theorem coins_survive_storage:
  assumes "pubkey_laws P" "\<And>out. out \<in> set (vout tx) \<Longrightarrow> 0 \<le> nValue out \<and> 9 * nValue out < 2 ^ 64"
    "0 \<le> nVersion tx" "nVersion tx < 2 ^ 31" "0 \<le> h" "h < 2 ^ 31" "length (vout tx) < 2 ^ 29"
    "\<not> IsPruned (foldl spend_step (FromTx tx h) ns)"
  shows "\<exists>b. coins_Serialize P (foldl spend_step (FromTx tx h) ns) = Inr b \<and>
    coins_Unserialize P (b @ r) = Inr (foldl spend_step (FromTx tx h) ns, r)"
  using coins_read_back [OF assms(1) coins_ok_spends [OF coins_ok_FromTx] assms(8)] assms(2-7) by blast

theorem coins_survive_storage_witness:
  "\<exists>b. coins_Serialize one_key (foldl spend_step (FromTx (tx_default\<lparr>vout := replicate 12 \<lparr>nValue = 5, scriptPubKey = [OP_1]\<rparr>\<rparr>) 9) [0, 3]) = Inr b \<and>
     coins_Unserialize one_key (b @ [1]) =
       Inr (foldl spend_step (FromTx (tx_default\<lparr>vout := replicate 12 \<lparr>nValue = 5, scriptPubKey = [OP_1]\<rparr>\<rparr>) 9) [0, 3], [1])"
proof (rule coins_survive_storage)
  let ?tx = "tx_default\<lparr>vout := replicate 12 \<lparr>nValue = 5, scriptPubKey = [OP_1]\<rparr>\<rparr>"
  have "IsAvailable (foldl spend_step (FromTx ?tx 9) [0, 3]) 4"
    unfolding IsAvailable_spends by (subst IsAvailable_FromTx) (simp_all add: IsUnspendable_def MAX_SCRIPT_SIZE_def)
  then show "\<not> IsPruned (foldl spend_step (FromTx ?tx 9) [0, 3])" by (auto simp: IsPruned_iff)
qed (auto simp: one_key_laws tx_default_def)

text \<open>
  The undo data of a block survives storage: written and read back, with anything after it, it is the
  same, for entries with storable outputs, a height below \<open>2 ^ 31\<close> and, where the height is not
  stored, no version either.
\<close>

theorem block_undo_roundtrip:
  assumes "pubkey_laws P" "length (vtxundo u) \<le> MAX_SIZE" "\<And>x. x \<in> set (vtxundo u) \<Longrightarrow> txundo_ok x" "length (old_sprout_tree_root u) = 32"
  shows "\<exists>b. blockundo_Serialize P u = Inr b \<and> blockundo_Unserialize P (b @ r) = Inr (u, r)"
proof -
  have "\<forall>x\<in>set (vtxundo u). txundo_ok x" using assms(3) by blast
  from vector_res_read_back [of txundo_ok, OF txundo_read_back [OF assms(1)] assms(2) this] show ?thesis
    using assms(4) by (auto simp: blockundo_Serialize_def blockundo_Unserialize_def rd_bind_def blob.read_back)
qed

theorem block_undo_roundtrip_witness:
  "\<exists>b. blockundo_Serialize one_key \<lparr>vtxundo = [\<lparr>vprevout = [\<lparr>ui_txout = \<lparr>nValue = 5, scriptPubKey = [OP_1]\<rparr>, ui_fCoinBase = True,
       ui_nHeight = 7, ui_nVersion = 4\<rparr>]\<rparr>], old_sprout_tree_root = replicate 32 3\<rparr> = Inr b \<and>
     blockundo_Unserialize one_key (b @ [1]) = Inr (\<lparr>vtxundo = [\<lparr>vprevout = [\<lparr>ui_txout = \<lparr>nValue = 5, scriptPubKey = [OP_1]\<rparr>, ui_fCoinBase = True,
       ui_nHeight = 7, ui_nVersion = 4\<rparr>]\<rparr>], old_sprout_tree_root = replicate 32 3\<rparr>, [1])"
  by (rule block_undo_roundtrip [OF one_key_laws]) (auto simp: txundo_ok_def undo_ok_def storable_def MAX_SCRIPT_SIZE_def)

end
