(* ===== verification/CoinsViewSpec.thy ===== *)
theory CoinsViewSpec
  imports CoinsView CoinsProps
begin

text \<open>
  What a coins view promises, as the locale \<open>coins_view\<close>: a view stands for plain maps and sets, its
  questions are answered from them and change nothing but the view's own store, and a batch is
  written all at once. The database is such a view (\<open>db_view\<close>), and a cache over any such view is one
  again, which lets caches be stacked as the code stacks them.
\<close>

section \<open>What a view stands for\<close>

text \<open>
  Coins without an available output are the same as no coins: the code may or may not keep them. An
  anchor stands for one tree, which the interface has as a function of the root.
\<close>

record chain_state =
  st_coins :: "uint256 \<Rightarrow> CCoins option"
  st_anchors :: "ShieldedType \<Rightarrow> uint256 set"
  st_nullifiers :: "ShieldedType \<Rightarrow> uint256 set"
  st_best_block :: uint256
  st_best_anchor :: "ShieldedType \<Rightarrow> uint256"

definition unspent :: "CCoins option \<Rightarrow> CCoins option" where
  "unspent r = (case r of Some c \<Rightarrow> if IsPruned c then None else Some c | None \<Rightarrow> None)"

lemma unspent_simps [simp]: "unspent None = None" "IsPruned c \<Longrightarrow> unspent (Some c) = None" "\<not> IsPruned c \<Longrightarrow> unspent (Some c) = Some c"
  by (simp_all add: unspent_def)

lemma unspent_idem [simp]: "unspent (unspent r) = unspent r"
  by (auto simp: unspent_def split: option.splits)

text \<open>The effect of a batch: its dirty entries replace what was there.\<close>

definition patch :: "('k \<times> 'e) list \<Rightarrow> ('e \<Rightarrow> bool) \<Rightarrow> ('e \<Rightarrow> 'a) \<Rightarrow> ('k \<Rightarrow> 'a) \<Rightarrow> 'k \<Rightarrow> 'a" where
  "patch kes dirty val F k = (case map_of kes k of Some e \<Rightarrow> if dirty e then val e else F k | None \<Rightarrow> F k)"

definition apply_batch :: "coins_batch \<Rightarrow> chain_state \<Rightarrow> chain_state" where
  "apply_batch b A =
     \<lparr>st_coins = patch (b_coins b) ce_DIRTY (\<lambda>e. unspent (Some (ce_coins e))) (st_coins A),
      st_anchors = (\<lambda>type. {k. patch (b_anchors b type) ae_DIRTY ae_entered (\<lambda>k. k \<in> st_anchors A type) k}),
      st_nullifiers = (\<lambda>type. {k. patch (b_nullifiers b type) ne_DIRTY ne_entered (\<lambda>k. k \<in> st_nullifiers A type) k}),
      st_best_block = b_hashBlock b, st_best_anchor = b_hashAnchor b\<rparr>"

lemma patch_Nil [simp]: "patch [] dirty val F = F"
  by (simp add: patch_def fun_eq_iff)

lemma patch_Cons: "map_of kes k = None \<Longrightarrow> patch ((k, e) # kes) dirty val F = patch kes dirty val (if dirty e then F(k := val e) else F)"
  by (auto simp: patch_def fun_eq_iff split: option.splits)

text \<open>
  What a view may expect of a batch: no key twice; an entry marked fresh is one the view does not
  have, any other one the view \<open>holds\<close>, which it promises to do once it has returned it; trees that
  fit their roots; the root of the empty tree is not removed; and hashes that are set.
\<close>

definition batch_ok :: "(ShieldedType \<Rightarrow> uint256 \<Rightarrow> MerkleTree) \<Rightarrow> (ShieldedType \<Rightarrow> uint256) \<Rightarrow> chain_state \<Rightarrow> (uint256 \<Rightarrow> bool) \<Rightarrow> coins_batch \<Rightarrow> bool" where
  "batch_ok tree_of empty_rt A held b \<longleftrightarrow>
     distinct (map fst (b_coins b)) \<and>
     (\<forall>k e. map_of (b_coins b) k = Some e \<longrightarrow> ce_DIRTY e \<longrightarrow> (if ce_FRESH e then st_coins A k = None else held k)) \<and>
     (\<forall>type. distinct (map fst (b_anchors b type)) \<and>
        (\<forall>k e. map_of (b_anchors b type) k = Some e \<longrightarrow> ae_DIRTY e \<longrightarrow> ae_tree e = tree_of type k \<and> (k = empty_rt type \<longrightarrow> ae_entered e))) \<and>
     (\<forall>type. distinct (map fst (b_nullifiers b type))) \<and>
     b_hashBlock b \<noteq> uint256_null \<and> (\<forall>type. b_hashAnchor b type \<noteq> uint256_null)"

text \<open>A method that only reads may change what is cached, not what the view stands for.\<close>

definition keeps :: "('v \<Rightarrow> bool) \<Rightarrow> ('v \<Rightarrow> chain_state) \<Rightarrow> ('v \<Rightarrow> uint256 \<Rightarrow> bool) \<Rightarrow> 'v \<Rightarrow> 'v \<Rightarrow> bool" where
  "keeps ok state_of holds v v' \<longleftrightarrow> ok v' \<and> state_of v' = state_of v \<and> (\<forall>k. holds v k \<longrightarrow> holds v' k)"

lemma keepsD:
  assumes "keeps ok state_of holds v v'"
  shows "ok v'" "state_of v' = state_of v" "holds v k \<Longrightarrow> holds v' k"
  using assms by (auto simp: keeps_def)

section \<open>The interface\<close>

locale coins_reader =
  fixes V :: "'v CCoinsView"
    and ok :: "'v \<Rightarrow> bool"
    and state_of :: "'v \<Rightarrow> chain_state"
    and holds :: "'v \<Rightarrow> uint256 \<Rightarrow> bool"
    and tree_of :: "ShieldedType \<Rightarrow> uint256 \<Rightarrow> MerkleTree"
    and empty_rt :: "ShieldedType \<Rightarrow> uint256"
  assumes GetCoins: "ok v \<Longrightarrow> v_GetCoins V v k = (r, v') \<Longrightarrow>
      unspent r = st_coins (state_of v) k \<and> (unspent r \<noteq> None \<longrightarrow> holds v' k) \<and> keeps ok state_of holds v v'"
    and HaveCoins: "ok v \<Longrightarrow> v_HaveCoins V v k = (f, v') \<Longrightarrow> (st_coins (state_of v) k \<noteq> None \<longrightarrow> f) \<and> keeps ok state_of holds v v'"
    and GetAnchorAt: "ok v \<Longrightarrow> v_GetAnchorAt V v type k = (rt, v') \<Longrightarrow>
      rt = (if k \<in> st_anchors (state_of v) type then Some (tree_of type k) else None) \<and> keeps ok state_of holds v v'"
    and GetNullifier: "ok v \<Longrightarrow> v_GetNullifier V v k type = (f, v') \<Longrightarrow> f = (k \<in> st_nullifiers (state_of v) type) \<and> keeps ok state_of holds v v'"
    and GetBestBlock: "ok v \<Longrightarrow> v_GetBestBlock V v = (h, v') \<Longrightarrow> h = st_best_block (state_of v) \<and> keeps ok state_of holds v v'"
    and GetBestAnchor: "ok v \<Longrightarrow> v_GetBestAnchor V v type = (h, v') \<Longrightarrow> h = st_best_anchor (state_of v) type \<and> keeps ok state_of holds v v'"

text \<open>A view that can also be written to.\<close>

locale coins_view = coins_reader V ok state_of holds tree_of empty_rt
  for V :: "'v CCoinsView" and ok and state_of and holds and tree_of and empty_rt +
  assumes BatchWrite: "ok v \<Longrightarrow> batch_ok tree_of empty_rt (state_of v) (holds v) b \<Longrightarrow>
      \<exists>v'. v_BatchWrite V v b = Inr (True, v') \<and> ok v' \<and> state_of v' = apply_batch b (state_of v)"
    and empty_anchor: "ok v \<Longrightarrow> empty_rt type \<in> st_anchors (state_of v) type"

section \<open>Writing the entries of a batch\<close>

lemma foldl_entries:
  assumes "\<And>m k e k'. k' \<noteq> k \<Longrightarrow> get (step m (k, e)) k' = get m k'" "\<And>m k e. get (step m (k, e)) k = upd (get m k) k e" "distinct (map fst kes)"
  shows "get (foldl step m kes) k = (case map_of kes k of None \<Rightarrow> get m k | Some e \<Rightarrow> upd (get m k) k e)"
  using assms(3)
proof (induction kes arbitrary: m)
  case (Cons ke kes)
  obtain j e where ke: "ke = (j, e)" by fastforce
  with Cons have "map_of kes j = None" by (auto simp: map_of_eq_None_iff)
  then show ?case using Cons ke assms(1) [of k j m e] assms(2) [of m j e] by (cases "k = j") (simp_all split: option.splits)
qed simp

section \<open>The database\<close>

definition db_ok :: "(ShieldedType \<Rightarrow> tree_params) \<Rightarrow> (ShieldedType \<Rightarrow> uint256 \<Rightarrow> MerkleTree) \<Rightarrow> coins_db \<Rightarrow> bool" where
  "db_ok T tree_of d \<longleftrightarrow>
     (\<forall>type rt t. db_anchors d type rt = Some t \<longrightarrow> t = tree_of type rt) \<and> (\<forall>type. tree_of type (tp_empty_root (T type)) = tree_empty)"

definition db_state :: "(ShieldedType \<Rightarrow> tree_params) \<Rightarrow> coins_db \<Rightarrow> chain_state" where
  "db_state T d =
     \<lparr>st_coins = (\<lambda>k. unspent (db_coins d k)), st_anchors = (\<lambda>type. insert (tp_empty_root (T type)) (dom (db_anchors d type))),
      st_nullifiers = db_nullifiers d, st_best_block = fst (db_GetBestBlock d), st_best_anchor = (\<lambda>type. fst (db_GetBestAnchor T d type))\<rparr>"

lemma db_write_coins:
  assumes "distinct (map fst kes)"
  shows "foldl db_write_coin m kes k = (case map_of kes k of None \<Rightarrow> m k | Some e \<Rightarrow>
    if ce_DIRTY e then unspent (Some (ce_coins e)) else m k)"
  by (rule foldl_entries [where get = "\<lambda>m k. m k" and upd = "\<lambda>c k e. if ce_DIRTY e then unspent (Some (ce_coins e)) else c", OF _ _ assms])
    (auto simp: db_write_coin_def)

lemma db_write_anchors:
  assumes "distinct (map fst kes)"
  shows "foldl (db_write_anchor p) m kes k = (case map_of kes k of None \<Rightarrow> m k | Some e \<Rightarrow>
    if ae_DIRTY e then if \<not> ae_entered e then None else if k \<noteq> tp_empty_root p then Some (ae_tree e) else m k else m k)"
  by (rule foldl_entries [where get = "\<lambda>m k. m k" and
        upd = "\<lambda>c k e. if ae_DIRTY e then if \<not> ae_entered e then None else if k \<noteq> tp_empty_root p then Some (ae_tree e) else c else c", OF _ _ assms])
    (auto simp: db_write_anchor_def)

lemma db_write_nullifiers:
  assumes "distinct (map fst kes)"
  shows "k \<in> foldl db_write_nullifier m kes \<longleftrightarrow> (case map_of kes k of None \<Rightarrow> k \<in> m | Some e \<Rightarrow> if ne_DIRTY e then ne_entered e else k \<in> m)"
  by (rule foldl_entries [where get = "\<lambda>m k. k \<in> m" and upd = "\<lambda>c k e. if ne_DIRTY e then ne_entered e else c", OF _ _ assms])
    (auto simp: db_write_nullifier_def)

lemma db_BatchWrite_law:
  assumes "db_ok T tree_of d" "batch_ok tree_of (\<lambda>type. tp_empty_root (T type)) (db_state T d) held b"
  shows "\<exists>d'. db_BatchWrite T d b = Inr (True, d') \<and> db_ok T tree_of d' \<and> db_state T d' = apply_batch b (db_state T d)"
proof -
  have b: "distinct (map fst (b_coins b))" "\<And>type. distinct (map fst (b_anchors b type))" "\<And>type. distinct (map fst (b_nullifiers b type))"
    "\<And>type k e. map_of (b_anchors b type) k = Some e \<Longrightarrow> ae_DIRTY e \<Longrightarrow> ae_tree e = tree_of type k \<and> (k = tp_empty_root (T type) \<longrightarrow> ae_entered e)"
    "b_hashBlock b \<noteq> uint256_null" "\<And>type. b_hashAnchor b type \<noteq> uint256_null"
    using assms(2) by (auto simp: batch_ok_def)
  note tables = db_write_coins [OF b(1)] db_write_anchors [OF b(2)] db_write_nullifiers [OF b(3)]
  obtain d' where d': "db_BatchWrite T d b = Inr (True, d')" by (simp add: db_BatchWrite_def)
  then have flds: "db_coins d' = foldl db_write_coin (db_coins d) (b_coins b)"
    "db_anchors d' = (\<lambda>type. foldl (db_write_anchor (T type)) (db_anchors d type) (b_anchors b type))"
    "db_nullifiers d' = (\<lambda>type. foldl db_write_nullifier (db_nullifiers d type) (b_nullifiers b type))"
    "db_best_block d' = Some (b_hashBlock b)" "db_best_anchor d' = (\<lambda>type. Some (b_hashAnchor b type))"
    using b(5,6) by (auto simp: db_BatchWrite_def)
  have inv: "\<And>type rt t. db_anchors d type rt = Some t \<Longrightarrow> t = tree_of type rt" "\<And>type. tree_of type (tp_empty_root (T type)) = tree_empty"
    using assms(1) by (simp_all add: db_ok_def)
  have "t = tree_of type rt" if "db_anchors d' type rt = Some t" for type rt t
    using that inv(1) [of type rt t] b(4) [of type rt] by (auto simp: flds tables split: option.splits if_splits)
  then have "db_ok T tree_of d'" using inv(2) by (simp add: db_ok_def)
  moreover have "db_state T d' = apply_batch b (db_state T d)"
  proof (rule chain_state.equality)
    show "st_coins (db_state T d') = st_coins (apply_batch b (db_state T d))"
      by (auto simp: flds tables apply_batch_def patch_def db_state_def split: option.splits)
    show "st_anchors (db_state T d') = st_anchors (apply_batch b (db_state T d))"
      using b(4) by (intro ext) (auto simp: flds tables apply_batch_def patch_def db_state_def split: option.splits if_splits)
    show "st_nullifiers (db_state T d') = st_nullifiers (apply_batch b (db_state T d))"
      by (intro ext) (auto simp: flds tables apply_batch_def patch_def db_state_def split: option.splits if_splits)
  qed (simp_all add: apply_batch_def db_state_def db_GetBestBlock_def db_GetBestAnchor_def flds)
  ultimately show ?thesis using d' by blast
qed

interpretation db_view: coins_view "CCoinsViewDB_ops T" "db_ok T tree_of" "db_state T" "\<lambda>_ _. True" tree_of "\<lambda>type. tp_empty_root (T type)"
  for T tree_of
proof
  fix d b
  assume "db_ok T tree_of d" "batch_ok tree_of (\<lambda>type. tp_empty_root (T type)) (db_state T d) (\<lambda>_. True) b"
  then show "\<exists>d'. v_BatchWrite (CCoinsViewDB_ops T) d b = Inr (True, d') \<and> db_ok T tree_of d' \<and> db_state T d' = apply_batch b (db_state T d)"
    using db_BatchWrite_law by (simp add: CCoinsViewDB_ops_def)
qed (auto simp: CCoinsViewDB_ops_def db_GetCoins_def db_HaveCoins_def db_GetAnchorAt_def db_GetNullifier_def db_GetBestBlock_def
    db_GetBestAnchor_def db_state_def db_ok_def keeps_def dom_def unspent_def split: option.splits if_splits)

section \<open>What a cache stands for\<close>

text \<open>A cached entry hides what the base has.\<close>

definition over :: "('k \<times> 'e) list \<Rightarrow> ('e \<Rightarrow> 'a) \<Rightarrow> ('k \<Rightarrow> 'a) \<Rightarrow> 'k \<Rightarrow> 'a" where
  "over m f g k = (case map_of m k of Some e \<Rightarrow> f e | None \<Rightarrow> g k)"

lemma over_simps [simp]:
  "over [] f g = g"
  "over (AList.update k e m) f g = (over m f g)(k := f e)"
  "over (AList.delete k m) f g = (over m f g)(k := g k)"
  by (auto simp: over_def fun_eq_iff update_conv' delete_conv')

lemma over_eq: "map_of m k = None \<Longrightarrow> over m f g k = g k" "map_of m k = Some e \<Longrightarrow> over m f g k = f e"
  by (simp_all add: over_def)

lemma over_idem: "map_of m k = Some e \<Longrightarrow> f e = x \<Longrightarrow> (over m f g)(k := x) = over m f g"
  by (auto simp: over_def)

abbreviation coins_over :: "CCoinsMap \<Rightarrow> (uint256 \<Rightarrow> CCoins option) \<Rightarrow> uint256 \<Rightarrow> CCoins option" where
  "coins_over m \<equiv> over m (\<lambda>e. unspent (Some (ce_coins e)))"

definition cache_state :: "('v \<Rightarrow> chain_state) \<Rightarrow> 'v CCoinsViewCache \<Rightarrow> chain_state" where
  "cache_state state_of c =
     \<lparr>st_coins = coins_over (cacheCoins c) (st_coins (state_of (cv_base c))),
      st_anchors = (\<lambda>type. {k. over (cacheAnchors c type) ae_entered (\<lambda>k. k \<in> st_anchors (state_of (cv_base c)) type) k}),
      st_nullifiers = (\<lambda>type. {k. over (cacheNullifiers c type) ne_entered (\<lambda>k. k \<in> st_nullifiers (state_of (cv_base c)) type) k}),
      st_best_block = (if hashBlock c = uint256_null then st_best_block (state_of (cv_base c)) else hashBlock c),
      st_best_anchor = (\<lambda>type. if hashAnchor c type = uint256_null then st_best_anchor (state_of (cv_base c)) type else hashAnchor c type)\<rparr>"

text \<open>The invariants of the entries, for a base that stands for \<open>A\<close>.\<close>

definition coins_entries :: "chain_state \<Rightarrow> (uint256 \<Rightarrow> bool) \<Rightarrow> CCoinsMap \<Rightarrow> bool" where
  "coins_entries A held m \<longleftrightarrow> distinct (map fst m) \<and>
     (\<forall>k e. map_of m k = Some e \<longrightarrow>
        (if ce_FRESH e then st_coins A k = None else held k) \<and> (\<not> ce_DIRTY e \<longrightarrow> unspent (Some (ce_coins e)) = st_coins A k))"

definition anchor_entries :: "(uint256 \<Rightarrow> MerkleTree) \<Rightarrow> uint256 \<Rightarrow> uint256 set \<Rightarrow> CAnchorsMap \<Rightarrow> bool" where
  "anchor_entries tree_of empty_rt A m \<longleftrightarrow> distinct (map fst m) \<and>
     (\<forall>k e. map_of m k = Some e \<longrightarrow> ae_tree e = tree_of k \<and> (k = empty_rt \<longrightarrow> ae_entered e) \<and> (\<not> ae_DIRTY e \<longrightarrow> ae_entered e = (k \<in> A)))"

definition nullifier_entries :: "uint256 set \<Rightarrow> CNullifiersMap \<Rightarrow> bool" where
  "nullifier_entries A m \<longleftrightarrow> distinct (map fst m) \<and> (\<forall>k e. map_of m k = Some e \<longrightarrow> \<not> ne_DIRTY e \<longrightarrow> ne_entered e = (k \<in> A))"

definition cache_ok :: "('v \<Rightarrow> bool) \<Rightarrow> ('v \<Rightarrow> chain_state) \<Rightarrow> ('v \<Rightarrow> uint256 \<Rightarrow> bool) \<Rightarrow> (ShieldedType \<Rightarrow> uint256 \<Rightarrow> MerkleTree) \<Rightarrow>
    (ShieldedType \<Rightarrow> uint256) \<Rightarrow> 'v CCoinsViewCache \<Rightarrow> bool" where
  "cache_ok ok state_of holds tree_of empty_rt c \<longleftrightarrow> ok (cv_base c) \<and> \<not> hasModifier c \<and>
     coins_entries (state_of (cv_base c)) (holds (cv_base c)) (cacheCoins c) \<and>
     (\<forall>type. anchor_entries (tree_of type) (empty_rt type) (st_anchors (state_of (cv_base c)) type) (cacheAnchors c type)) \<and>
     (\<forall>type. nullifier_entries (st_nullifiers (state_of (cv_base c)) type) (cacheNullifiers c type))"

definition cache_holds :: "'v CCoinsViewCache \<Rightarrow> uint256 \<Rightarrow> bool" where
  "cache_holds c k \<longleftrightarrow> map_of (cacheCoins c) k \<noteq> None"

lemma coins_entries_update:
  assumes "coins_entries A held m" "if ce_FRESH e then st_coins A k = None else held k" "\<not> ce_DIRTY e \<Longrightarrow> unspent (Some (ce_coins e)) = st_coins A k"
  shows "coins_entries A held (AList.update k e m)"
  using assms by (auto simp: coins_entries_def update_conv' distinct_update)

lemma coins_entries_delete: "coins_entries A held m \<Longrightarrow> coins_entries A held (AList.delete k m)"
  by (auto simp: coins_entries_def delete_conv' distinct_delete)

lemma anchor_entries_update:
  assumes "anchor_entries tree_of empty_rt A m" "ae_tree e = tree_of k" "k = empty_rt \<Longrightarrow> ae_entered e" "\<not> ae_DIRTY e \<Longrightarrow> ae_entered e = (k \<in> A)"
  shows "anchor_entries tree_of empty_rt A (AList.update k e m)"
  using assms by (auto simp: anchor_entries_def update_conv' distinct_update)

lemma nullifier_entries_update:
  assumes "nullifier_entries A m" "\<not> ne_DIRTY e \<Longrightarrow> ne_entered e = (k \<in> A)"
  shows "nullifier_entries A (AList.update k e m)"
  using assms by (auto simp: nullifier_entries_def update_conv' distinct_update)

lemmas entries_update = coins_entries_update anchor_entries_update nullifier_entries_update

lemma coins_entries_mono: "coins_entries A held m \<Longrightarrow> (\<And>k. held k \<Longrightarrow> held' k) \<Longrightarrow> coins_entries A held' m"
  by (auto simp: coins_entries_def)

section \<open>Writing a batch to a cache\<close>

lemma write_coin_entry:
  assumes "coins_entries A held m" "ce_DIRTY e \<Longrightarrow> if ce_FRESH e then coins_over m (st_coins A) k = None else map_of m k \<noteq> None"
  shows "\<exists>m' u'. write_coin U (m, u) (k, e) = Inr (m', u') \<and> coins_entries A held m' \<and>
    coins_over m' (st_coins A) =
      (if ce_DIRTY e then (coins_over m (st_coins A))(k := unspent (Some (ce_coins e))) else coins_over m (st_coins A)) \<and>
    (\<forall>j. j \<noteq> k \<longrightarrow> map_of m' j = map_of m j)"
proof (cases "ce_DIRTY e")
  case True
  show ?thesis
  proof (cases "map_of m k")
    case None
    with assms(2) True have "ce_FRESH e" "st_coins A k = None" by (auto simp: over_eq split: if_splits)
    with True None assms(1) over_eq(1) [OF None, of "\<lambda>e. unspent (Some (ce_coins e))" "st_coins A"] show ?thesis
      by (cases "IsPruned (ce_coins e)")
        (auto simp: write_coin_def update_conv' fun_upd_idem intro!: coins_entries_update)
  next
    case (Some us)
    then have us: "if ce_FRESH us then st_coins A k = None else held k" using assms(1) by (auto simp: coins_entries_def)
    with True Some assms(1) show ?thesis
      by (cases "ce_FRESH us \<and> IsPruned (ce_coins e)")
        (auto simp: write_coin_def update_conv' delete_conv' coins_entries_delete intro!: coins_entries_update)
  qed
qed (use assms in \<open>simp add: write_coin_def\<close>)

lemma write_coins_entries:
  assumes "coins_entries A held m" "distinct (map fst kes)"
    "\<And>k e. map_of kes k = Some e \<Longrightarrow> ce_DIRTY e \<Longrightarrow> if ce_FRESH e then coins_over m (st_coins A) k = None else map_of m k \<noteq> None"
  shows "\<exists>m' u'. write_coins U (m, u) kes = Inr (m', u') \<and> coins_entries A held m' \<and>
    coins_over m' (st_coins A) = patch kes ce_DIRTY (\<lambda>e. unspent (Some (ce_coins e))) (coins_over m (st_coins A))"
  using assms
proof (induction kes arbitrary: m u)
  case (Cons ke kes)
  obtain k e where ke: "ke = (k, e)" by fastforce
  from Cons.prems(3) [of k e] ke have "ce_DIRTY e \<Longrightarrow> if ce_FRESH e then coins_over m (st_coins A) k = None else map_of m k \<noteq> None" by simp
  from write_coin_entry [OF Cons.prems(1) this, of U u] obtain m1 u1 where
    w: "write_coin U (m, u) (k, e) = Inr (m1, u1)" "coins_entries A held m1"
      "coins_over m1 (st_coins A) = (if ce_DIRTY e then (coins_over m (st_coins A))(k := unspent (Some (ce_coins e))) else coins_over m (st_coins A))"
      "\<forall>j. j \<noteq> k \<longrightarrow> map_of m1 j = map_of m j" by blast
  have k: "map_of kes k = None" using Cons.prems(2) ke by (simp add: map_of_eq_None_iff)
  have "if ce_FRESH e' then coins_over m1 (st_coins A) j = None else map_of m1 j \<noteq> None" if "map_of kes j = Some e'" "ce_DIRTY e'" for j e'
  proof -
    have "j \<noteq> k" using that k by auto
    then show ?thesis using Cons.prems(3) [of j e'] that ke w(3,4) by auto
  qed
  from Cons.IH [OF w(2) _ this, of u1] obtain m' u' where
    r: "write_coins U (m1, u1) kes = Inr (m', u')" "coins_entries A held m'"
      "coins_over m' (st_coins A) = patch kes ce_DIRTY (\<lambda>e. unspent (Some (ce_coins e))) (coins_over m1 (st_coins A))"
    using Cons.prems(2) by auto
  with w(1,3) show ?case by (simp add: ke patch_Cons [OF k])
qed simp

lemma write_anchor_entry:
  assumes "anchor_entries tr ert A m" "ae_DIRTY e \<Longrightarrow> ae_tree e = tr k \<and> (k = ert \<longrightarrow> ae_entered e)"
  shows "anchor_entries tr ert A (fst (write_anchor (m, u) (k, e)))"
    "over (fst (write_anchor (m, u) (k, e))) ae_entered g = (if ae_DIRTY e then (over m ae_entered g)(k := ae_entered e) else over m ae_entered g)"
proof -
  have "ae_tree par = tr k" if "map_of m k = Some par" for par using assms(1) that by (auto simp: anchor_entries_def)
  with assms show "anchor_entries tr ert A (fst (write_anchor (m, u) (k, e)))"
    by (cases "map_of m k") (auto simp: write_anchor_def intro!: anchor_entries_update)
  show "over (fst (write_anchor (m, u) (k, e))) ae_entered g = (if ae_DIRTY e then (over m ae_entered g)(k := ae_entered e) else over m ae_entered g)"
    by (cases "map_of m k") (auto simp: write_anchor_def over_eq over_idem)
qed

lemma write_anchors_entries:
  assumes "anchor_entries tr ert A m" "distinct (map fst kes)"
    "\<And>k e. map_of kes k = Some e \<Longrightarrow> ae_DIRTY e \<Longrightarrow> ae_tree e = tr k \<and> (k = ert \<longrightarrow> ae_entered e)"
  shows "anchor_entries tr ert A (fst (foldl write_anchor (m, u) kes)) \<and>
    over (fst (foldl write_anchor (m, u) kes)) ae_entered g = patch kes ae_DIRTY ae_entered (over m ae_entered g)"
  using assms
proof (induction kes arbitrary: m u)
  case (Cons ke kes)
  obtain k e where ke: "ke = (k, e)" by fastforce
  obtain m1 u1 where w: "write_anchor (m, u) ke = (m1, u1)" by fastforce
  have k: "map_of kes k = None" using Cons.prems(2) ke by (simp add: map_of_eq_None_iff)
  have e: "ae_DIRTY e \<Longrightarrow> ae_tree e = tr k \<and> (k = ert \<longrightarrow> ae_entered e)" using Cons.prems(3) [of k e] ke by simp
  note w1 = write_anchor_entry [OF Cons.prems(1) e, of u, unfolded w [unfolded ke] fst_conv]
  have "\<And>j e. map_of kes j = Some e \<Longrightarrow> ae_DIRTY e \<Longrightarrow> ae_tree e = tr j \<and> (j = ert \<longrightarrow> ae_entered e)"
    using Cons.prems(3) k ke by (metis map_of_Cons_code(2) option.distinct(1))
  from Cons.IH [OF w1(1) _ this, of u1] Cons.prems(2) w1(2) show ?case by (simp add: ke w [unfolded ke] patch_Cons [OF k])
qed simp

lemma write_nullifiers_entries:
  assumes "nullifier_entries A m" "distinct (map fst kes)"
  shows "nullifier_entries A (foldl write_nullifier m kes) \<and>
    over (foldl write_nullifier m kes) ne_entered g = patch kes ne_DIRTY ne_entered (over m ne_entered g)"
  using assms
proof (induction kes arbitrary: m)
  case (Cons ke kes)
  obtain k e where ke: "ke = (k, e)" by fastforce
  have k: "map_of kes k = None" using Cons.prems(2) ke by (simp add: map_of_eq_None_iff)
  have "nullifier_entries A (write_nullifier m ke)"
    using ke Cons.prems(1) by (cases "map_of m k") (auto simp: write_nullifier_def intro!: nullifier_entries_update)
  moreover have "over (write_nullifier m ke) ne_entered g = (if ne_DIRTY e then (over m ne_entered g)(k := ne_entered e) else over m ne_entered g)"
    using ke by (cases "map_of m k") (auto simp: write_nullifier_def over_eq over_idem)
  ultimately show ?case using Cons.IH [of "write_nullifier m ke"] Cons.prems(2) by (simp add: ke patch_Cons [OF k])
qed simp

section \<open>A cache over a view is a view\<close>

context coins_reader
begin

abbreviation c_ok :: "'v CCoinsViewCache \<Rightarrow> bool" where
  "c_ok \<equiv> cache_ok ok state_of holds tree_of empty_rt"

abbreviation c_state :: "'v CCoinsViewCache \<Rightarrow> chain_state" where
  "c_state \<equiv> cache_state state_of"

abbreviation c_keeps :: "'v CCoinsViewCache \<Rightarrow> 'v CCoinsViewCache \<Rightarrow> bool" where
  "c_keeps \<equiv> keeps c_ok c_state cache_holds"

text \<open>A step of the base that keeps its state can be made under a cache.\<close>

lemma base_step:
  assumes "c_ok c" "keeps ok state_of holds (cv_base c) b"
  shows "c_keeps c (c\<lparr>cv_base := b\<rparr>)" "ok b" "state_of b = state_of (cv_base c)"
proof -
  note k = keepsD [OF assms(2)]
  show "c_keeps c (c\<lparr>cv_base := b\<rparr>)"
    using assms(1) k coins_entries_mono [of _ "holds (cv_base c)" _ "holds b"]
    by (auto simp: keeps_def cache_ok_def cache_state_def Let_def cache_holds_def)
  show "ok b" "state_of b = state_of (cv_base c)" using k by simp_all
qed

lemma FetchCoins_keeps:
  assumes "c_ok c" "FetchCoins V U c k = (r, c')"
  shows "unspent r = st_coins (c_state c) k" "unspent r \<noteq> None \<Longrightarrow> cache_holds c' k" "c_keeps c c'"
proof -
  have "unspent r = st_coins (c_state c) k \<and> (unspent r \<noteq> None \<longrightarrow> cache_holds c' k) \<and> c_keeps c c'"
  proof (cases "map_of (cacheCoins c) k")
    case (Some e)
    with assms show ?thesis by (auto simp: FetchCoins_def cache_state_def Let_def over_eq keeps_def cache_holds_def)
  next
    case None
    obtain q b where b: "v_GetCoins V (cv_base c) k = (q, b)" by fastforce
    have "ok (cv_base c)" using assms(1) by (simp add: cache_ok_def)
    from GetCoins [OF this b] have g: "unspent q = st_coins (state_of (cv_base c)) k" "unspent q \<noteq> None \<Longrightarrow> holds b k" "keeps ok state_of holds (cv_base c) b" by auto
    note bs = base_step [OF assms(1) g(3)]
    have u: "unspent q = st_coins (c_state c) k" using None g(1) by (simp add: cache_state_def Let_def over_eq)
    show ?thesis
    proof (cases q)
      case N: None
      with None b assms(2) u bs show ?thesis by (simp add: FetchCoins_def)
    next
      case (Some tmp)
      let ?e = "\<lparr>ce_coins = tmp, ce_DIRTY = False, ce_FRESH = IsPruned tmp\<rparr>"
      have c': "c' = c\<lparr>cv_base := b, cacheCoins := AList.update k ?e (cacheCoins c), cachedCoinsUsage := cachedCoinsUsage c + U tmp\<rparr>" "r = Some tmp"
        using assms(2) None b Some by (auto simp: FetchCoins_def)
      have "coins_entries (state_of b) (holds b) (AList.update k ?e (cacheCoins c))"
      proof (rule coins_entries_update)
        show "coins_entries (state_of b) (holds b) (cacheCoins c)" using bs(1) by (simp add: keeps_def cache_ok_def)
        have "\<not> IsPruned tmp \<Longrightarrow> holds b k" using g(2) Some by simp
        then show "if ce_FRESH ?e then st_coins (state_of b) k = None else holds b k" using g(1) Some bs(3) by (cases "IsPruned tmp") auto
        show "unspent (Some (ce_coins ?e)) = st_coins (state_of b) k" using g(1) Some bs(3) by simp
      qed
      moreover have "(coins_over (cacheCoins c) (st_coins (state_of b)))(k := unspent (Some tmp)) = coins_over (cacheCoins c) (st_coins (state_of b))"
        using over_eq(1) [OF None, of "\<lambda>e. unspent (Some (ce_coins e))"] g(1) bs(3) Some by (intro fun_upd_idem) simp
      ultimately have "c_keeps c c'" using bs assms(1) unfolding c'
        by (auto simp: keeps_def cache_ok_def cache_state_def Let_def cache_holds_def update_conv')
      with u c' Some show ?thesis by (simp add: cache_holds_def update_conv')
    qed
  qed
  then show "unspent r = st_coins (c_state c) k" "unspent r \<noteq> None \<Longrightarrow> cache_holds c' k" "c_keeps c c'" by simp_all
qed

lemma cache_GetAnchorAt_keeps:
  assumes "c_ok c" "cache_GetAnchorAt V c type k = (r, c')"
  shows "r = (if k \<in> st_anchors (c_state c) type then Some (tree_of type k) else None)" "c_keeps c c'"
    "r \<noteq> None \<Longrightarrow> \<exists>e. map_of (cacheAnchors c' type) k = Some e \<and> ae_tree e = tree_of type k" "hashAnchor c' = hashAnchor c"
proof -
  have "r = (if k \<in> st_anchors (c_state c) type then Some (tree_of type k) else None) \<and> c_keeps c c' \<and>
    (r \<noteq> None \<longrightarrow> (\<exists>e. map_of (cacheAnchors c' type) k = Some e \<and> ae_tree e = tree_of type k)) \<and> hashAnchor c' = hashAnchor c"
  proof (cases "map_of (cacheAnchors c type) k")
    case (Some e)
    have "ae_tree e = tree_of type k" using assms(1) Some by (auto simp: cache_ok_def anchor_entries_def)
    with Some assms show ?thesis by (auto simp: cache_GetAnchorAt_def cache_state_def Let_def over_eq keeps_def)
  next
    case None
    obtain q b where b: "v_GetAnchorAt V (cv_base c) type k = (q, b)" by fastforce
    have "ok (cv_base c)" using assms(1) by (simp add: cache_ok_def)
    from GetAnchorAt [OF this b] have g: "q = (if k \<in> st_anchors (state_of (cv_base c)) type then Some (tree_of type k) else None)"
      "keeps ok state_of holds (cv_base c) b" by auto
    note bs = base_step [OF assms(1) g(2)]
    have u: "k \<in> st_anchors (c_state c) type \<longleftrightarrow> k \<in> st_anchors (state_of (cv_base c)) type"
      using None by (simp add: cache_state_def Let_def over_eq)
    show ?thesis
    proof (cases q)
      case N: None
      with None b assms(2) have "c' = c\<lparr>cv_base := b\<rparr>" "r = None" by (auto simp: cache_GetAnchorAt_def)
      with N u bs g(1) show ?thesis by (simp split: if_splits)
    next
      case (Some t)
      let ?e = "\<lparr>ae_entered = True, ae_tree = t, ae_DIRTY = False\<rparr>"
      have c': "c' = c\<lparr>cv_base := b, cacheAnchors := (cacheAnchors c)(type := AList.update k ?e (cacheAnchors c type)),
          cachedCoinsUsage := cachedCoinsUsage c + tree_DynamicMemoryUsage t\<rparr>" "r = Some t"
        using assms(2) None b Some by (auto simp: cache_GetAnchorAt_def)
      have t: "t = tree_of type k" "k \<in> st_anchors (state_of b) type" using g(1) Some bs(3) by (auto split: if_splits)
      have "anchor_entries (tree_of type) (empty_rt type) (st_anchors (state_of b) type) (AList.update k ?e (cacheAnchors c type))"
        by (rule anchor_entries_update) (use bs t in \<open>auto simp: keeps_def cache_ok_def\<close>)
      moreover have "(over (cacheAnchors c type) ae_entered (\<lambda>k. k \<in> st_anchors (state_of b) type))(k := True) =
          over (cacheAnchors c type) ae_entered (\<lambda>k. k \<in> st_anchors (state_of b) type)"
        using over_eq(1) [OF None, of ae_entered] t(2) by (intro fun_upd_idem) simp
      ultimately have "c_keeps c c'" using bs assms(1) unfolding c'
        by (auto simp: keeps_def cache_ok_def cache_state_def Let_def cache_holds_def fun_eq_iff)
      with u c' t bs(3) show ?thesis by (simp add: update_conv')
    qed
  qed
  then show "r = (if k \<in> st_anchors (c_state c) type then Some (tree_of type k) else None)" "c_keeps c c'"
    "r \<noteq> None \<Longrightarrow> \<exists>e. map_of (cacheAnchors c' type) k = Some e \<and> ae_tree e = tree_of type k" "hashAnchor c' = hashAnchor c" by simp_all
qed

lemma cache_GetNullifier_keeps:
  assumes "c_ok c" "cache_GetNullifier V c k type = (f, c')"
  shows "f = (k \<in> st_nullifiers (c_state c) type)" "c_keeps c c'"
proof -
  have "f = (k \<in> st_nullifiers (c_state c) type) \<and> c_keeps c c'"
  proof (cases "map_of (cacheNullifiers c type) k")
    case (Some e)
    with assms show ?thesis by (auto simp: cache_GetNullifier_def cache_state_def Let_def over_eq keeps_def)
  next
    case None
    obtain q b where b: "v_GetNullifier V (cv_base c) k type = (q, b)" by fastforce
    have "ok (cv_base c)" using assms(1) by (simp add: cache_ok_def)
    from GetNullifier [OF this b] have g: "q = (k \<in> st_nullifiers (state_of (cv_base c)) type)" "keeps ok state_of holds (cv_base c) b" by auto
    note bs = base_step [OF assms(1) g(2)]
    let ?e = "\<lparr>ne_entered = q, ne_DIRTY = False\<rparr>"
    have c': "c' = c\<lparr>cv_base := b, cacheNullifiers := (cacheNullifiers c)(type := AList.update k ?e (cacheNullifiers c type))\<rparr>" "f = q"
      using assms(2) None b by (auto simp: cache_GetNullifier_def)
    have "nullifier_entries (st_nullifiers (state_of b) type) (AList.update k ?e (cacheNullifiers c type))"
      by (rule nullifier_entries_update) (use bs g in \<open>auto simp: keeps_def cache_ok_def\<close>)
    moreover have "(over (cacheNullifiers c type) ne_entered (\<lambda>k. k \<in> st_nullifiers (state_of b) type))(k := q) =
        over (cacheNullifiers c type) ne_entered (\<lambda>k. k \<in> st_nullifiers (state_of b) type)"
      using over_eq(1) [OF None, of ne_entered] g(1) bs(3) by (intro fun_upd_idem) simp
    ultimately have "c_keeps c c'" using bs assms(1) unfolding c'
      by (auto simp: keeps_def cache_ok_def cache_state_def Let_def cache_holds_def fun_eq_iff)
    with c' g(1) None show ?thesis by (simp add: cache_state_def Let_def over_eq)
  qed
  then show "f = (k \<in> st_nullifiers (c_state c) type)" "c_keeps c c'" by simp_all
qed

lemma cache_GetBestBlock_keeps:
  assumes "c_ok c" "cache_GetBestBlock V c = (h, c')"
  shows "h = st_best_block (c_state c)" "c_keeps c c'"
proof -
  have "h = st_best_block (c_state c) \<and> c_keeps c c'"
  proof (cases "hashBlock c = uint256_null")
    case True
    obtain q b where b: "v_GetBestBlock V (cv_base c) = (q, b)" by fastforce
    have "ok (cv_base c)" using assms(1) by (simp add: cache_ok_def)
    from GetBestBlock [OF this b] have g: "q = st_best_block (state_of (cv_base c))" "keeps ok state_of holds (cv_base c) b" by auto
    note bs = base_step [OF assms(1) g(2)]
    from True b assms g bs show ?thesis
      by (auto simp: cache_GetBestBlock_def cache_state_def keeps_def cache_ok_def cache_holds_def Let_def)
  qed (use assms in \<open>auto simp: cache_GetBestBlock_def cache_state_def keeps_def\<close>)
  then show "h = st_best_block (c_state c)" "c_keeps c c'" by simp_all
qed

lemma cache_GetBestAnchor_keeps:
  assumes "c_ok c" "cache_GetBestAnchor V c type = (h, c')"
  shows "h = st_best_anchor (c_state c) type" "c_keeps c c'" "hashAnchor c' = (hashAnchor c)(type := h)"
proof -
  have "h = st_best_anchor (c_state c) type \<and> c_keeps c c' \<and> hashAnchor c' = (hashAnchor c)(type := h)"
  proof (cases "hashAnchor c type = uint256_null")
    case True
    obtain q b where b: "v_GetBestAnchor V (cv_base c) type = (q, b)" by fastforce
    have "ok (cv_base c)" using assms(1) by (simp add: cache_ok_def)
    from GetBestAnchor [OF this b] have g: "q = st_best_anchor (state_of (cv_base c)) type" "keeps ok state_of holds (cv_base c) b" by auto
    note bs = base_step [OF assms(1) g(2)]
    from True b assms g bs show ?thesis
      by (auto simp: cache_GetBestAnchor_def cache_state_def keeps_def cache_ok_def cache_holds_def Let_def fun_eq_iff split: if_splits)
  qed (use assms in \<open>auto simp: cache_GetBestAnchor_def cache_state_def keeps_def\<close>)
  then show "h = st_best_anchor (c_state c) type" "c_keeps c c'" "hashAnchor c' = (hashAnchor c)(type := h)" by simp_all
qed

end

context coins_view
begin

lemma cache_BatchWrite_law:
  assumes "c_ok c" "batch_ok tree_of empty_rt (c_state c) (cache_holds c) b"
  shows "\<exists>c'. cache_BatchWrite U c b = Inr (True, c') \<and> c_ok c' \<and> c_state c' = apply_batch b (c_state c)"
proof -
  let ?A = "state_of (cv_base c)"
  have ce: "coins_entries ?A (holds (cv_base c)) (cacheCoins c)" "ok (cv_base c)" "\<not> hasModifier c"
    "\<And>type. anchor_entries (tree_of type) (empty_rt type) (st_anchors ?A type) (cacheAnchors c type)"
    "\<And>type. nullifier_entries (st_nullifiers ?A type) (cacheNullifiers c type)" using assms(1) by (auto simp: cache_ok_def)
  have b: "distinct (map fst (b_coins b))" "\<And>type. distinct (map fst (b_anchors b type))" "\<And>type. distinct (map fst (b_nullifiers b type))"
    "\<And>type k e. map_of (b_anchors b type) k = Some e \<Longrightarrow> ae_DIRTY e \<Longrightarrow> ae_tree e = tree_of type k \<and> (k = empty_rt type \<longrightarrow> ae_entered e)"
    "b_hashBlock b \<noteq> uint256_null" "\<And>type. b_hashAnchor b type \<noteq> uint256_null"
    using assms(2) by (auto simp: batch_ok_def)
  have "st_coins (c_state c) = coins_over (cacheCoins c) (st_coins ?A)" by (simp add: cache_state_def)
  with assms(2) have bc: "\<And>k e. map_of (b_coins b) k = Some e \<Longrightarrow> ce_DIRTY e \<Longrightarrow>
       if ce_FRESH e then coins_over (cacheCoins c) (st_coins ?A) k = None else map_of (cacheCoins c) k \<noteq> None"
    unfolding batch_ok_def cache_holds_def by metis
  obtain m u where m: "write_coins U (cacheCoins c, cachedCoinsUsage c) (b_coins b) = Inr (m, u)" "coins_entries ?A (holds (cv_base c)) m"
      "coins_over m (st_coins ?A) = patch (b_coins b) ce_DIRTY (\<lambda>e. unspent (Some (ce_coins e))) (coins_over (cacheCoins c) (st_coins ?A))"
    using write_coins_entries [OF ce(1) b(1) bc, of U "cachedCoinsUsage c"] by blast
  obtain sp u1 where sp: "foldl write_anchor (cacheAnchors c SPROUT, u) (b_anchors b SPROUT) = (sp, u1)" by fastforce
  obtain sa u2 where sa: "foldl write_anchor (cacheAnchors c SAPLING, u1) (b_anchors b SAPLING) = (sa, u2)" by fastforce
  have "anchor_entries (tree_of type) (empty_rt type) (st_anchors ?A type) (fst (foldl write_anchor (cacheAnchors c type, v) (b_anchors b type))) \<and>
    over (fst (foldl write_anchor (cacheAnchors c type, v) (b_anchors b type))) ae_entered g =
      patch (b_anchors b type) ae_DIRTY ae_entered (over (cacheAnchors c type) ae_entered g)" for type v g
    by (rule write_anchors_entries [OF ce(4) b(2,4)])
  note an = this [of SPROUT u, unfolded sp fst_conv] this [of SAPLING u1, unfolded sa fst_conv]
  have nu: "nullifier_entries (st_nullifiers ?A type) (foldl write_nullifier (cacheNullifiers c type) (b_nullifiers b type)) \<and>
    over (foldl write_nullifier (cacheNullifiers c type) (b_nullifiers b type)) ne_entered g =
      patch (b_nullifiers b type) ne_DIRTY ne_entered (over (cacheNullifiers c type) ne_entered g)" for type g
    by (rule write_nullifiers_entries [OF ce(5) b(3)])
  define c' where "c' = c\<lparr>cacheCoins := m, cachedCoinsUsage := u2, cacheAnchors := (\<lambda>type. case type of SPROUT \<Rightarrow> sp | SAPLING \<Rightarrow> sa),
    cacheNullifiers := (\<lambda>type. foldl write_nullifier (cacheNullifiers c type) (b_nullifiers b type)), hashAnchor := b_hashAnchor b, hashBlock := b_hashBlock b\<rparr>"
  have "cache_BatchWrite U c b = Inr (True, c')" using ce(3) m(1) sp sa by (simp add: cache_BatchWrite_def c'_def)
  moreover have "c_ok c'" using ce m(2) an nu by (auto simp: cache_ok_def c'_def split: ShieldedType.split)
  moreover have "c_state c' = apply_batch b (c_state c)"
    using m(3) an nu b(5,6) by (auto simp: cache_state_def apply_batch_def c'_def fun_eq_iff split: ShieldedType.split)
  ultimately show ?thesis by blast
qed

lemma cache_view: "coins_view (CCoinsViewCache_ops V U) c_ok c_state cache_holds tree_of empty_rt"
proof
  fix c assume c: "c_ok c"
  show "unspent r = st_coins (c_state c) k \<and> (unspent r \<noteq> None \<longrightarrow> cache_holds c' k) \<and> c_keeps c c'"
    if "v_GetCoins (CCoinsViewCache_ops V U) c k = (r, c')" for k r c'
    using that FetchCoins_keeps [OF c, of U k r c'] by (auto simp: CCoinsViewCache_ops_def cache_GetCoins_def)
  show "(st_coins (c_state c) k \<noteq> None \<longrightarrow> f) \<and> c_keeps c c'" if "v_HaveCoins (CCoinsViewCache_ops V U) c k = (f, c')" for k f c'
  proof -
    obtain r c1 where "FetchCoins V U c k = (r, c1)" by fastforce
    with that have r: "FetchCoins V U c k = (r, c')" "f = (case r of Some coins \<Rightarrow> cc_vout coins \<noteq> [] | None \<Rightarrow> False)"
      by (simp_all add: CCoinsViewCache_ops_def cache_HaveCoins_def)
    have "f" if "unspent r = Some x" for x using that r(2) by (auto simp: unspent_def IsPruned_def split: option.splits if_splits)
    with FetchCoins_keeps [OF c r(1)] show ?thesis by auto
  qed
  show "rt = (if k \<in> st_anchors (c_state c) type then Some (tree_of type k) else None) \<and> c_keeps c c'"
    if "v_GetAnchorAt (CCoinsViewCache_ops V U) c type k = (rt, c')" for type k rt c'
    using that cache_GetAnchorAt_keeps [OF c, of type k rt c'] by (simp add: CCoinsViewCache_ops_def)
  show "f = (k \<in> st_nullifiers (c_state c) type) \<and> c_keeps c c'" if "v_GetNullifier (CCoinsViewCache_ops V U) c k type = (f, c')" for k type f c'
    using that cache_GetNullifier_keeps [OF c, of k type f c'] by (simp add: CCoinsViewCache_ops_def)
  show "h = st_best_block (c_state c) \<and> c_keeps c c'" if "v_GetBestBlock (CCoinsViewCache_ops V U) c = (h, c')" for h c'
    using that cache_GetBestBlock_keeps [OF c, of h c'] by (simp add: CCoinsViewCache_ops_def)
  show "h = st_best_anchor (c_state c) type \<and> c_keeps c c'" if "v_GetBestAnchor (CCoinsViewCache_ops V U) c type = (h, c')" for type h c'
    using that cache_GetBestAnchor_keeps [OF c, of type h c'] by (simp add: CCoinsViewCache_ops_def)
  show "\<exists>c'. v_BatchWrite (CCoinsViewCache_ops V U) c b = Inr (True, c') \<and> c_ok c' \<and> c_state c' = apply_batch b (c_state c)"
    if "batch_ok tree_of empty_rt (c_state c) (cache_holds c) b" for b
    using cache_BatchWrite_law [OF c that] by (simp add: CCoinsViewCache_ops_def)
  show "empty_rt type \<in> st_anchors (c_state c) type" for type
    using c empty_anchor [of "cv_base c" type]
    by (cases "map_of (cacheAnchors c type) (empty_rt type)") (auto simp: cache_ok_def anchor_entries_def cache_state_def over_eq)
qed

end

end
