(* ===== verification/CoinsViewProps.thy ===== *)
theory CoinsViewProps
  imports CoinsViewSpec
begin

text \<open>
  What the operations of a cache do to the state it stands for, over any view that keeps the
  interface: modifying coins, pushing and popping anchors, marking nullifiers, flushing. Sequences of
  these operations are compared with the same changes of plain maps and sets.
\<close>

section \<open>Changing a cache\<close>

context coins_reader
begin

lemma cache_new_ok: "ok b \<Longrightarrow> c_ok (cache_new b) \<and> c_state (cache_new b) = state_of b"
  by (auto simp: cache_new_def cache_ok_def coins_entries_def anchor_entries_def nullifier_entries_def cache_state_def)

end

context coins_view
begin

lemma modify_coins_entry:
  assumes "c_ok c"
  shows "\<exists>c' u c1 e. ModifyCoins V U c k = Inr (u, c1) \<and> map_of (cacheCoins c1) k = Some e \<and>
    modify_coins V U c k f = Inr c' \<and> c_ok c' \<and> unspent (Some (ce_coins e)) = st_coins (c_state c) k \<and>
    c_state c' = (c_state c)\<lparr>st_coins := (st_coins (c_state c))(k := unspent (Some (Cleanup (f (ce_coins e)))))\<rparr>"
proof -
  let ?A = "state_of (cv_base c)"
  have ce: "coins_entries ?A (holds (cv_base c)) (cacheCoins c)" "ok (cv_base c)" "\<not> hasModifier c" using assms by (auto simp: cache_ok_def)
  obtain u b e where o: "ModifyCoins V U c k = Inr (u, c\<lparr>cv_base := b, cacheCoins := AList.update k e (cacheCoins c), hasModifier := True\<rparr>)"
      "keeps ok state_of holds (cv_base c) b" "ce_DIRTY e" "if ce_FRESH e then st_coins ?A k = None else holds b k"
      "unspent (Some (ce_coins e)) = st_coins (c_state c) k"
  proof (cases "map_of (cacheCoins c) k")
    case (Some e0)
    show ?thesis
    proof (rule that [where u = "U (ce_coins e0)" and b = "cv_base c" and e = "e0\<lparr>ce_DIRTY := True\<rparr>"])
      show "ModifyCoins V U c k = Inr (U (ce_coins e0), c\<lparr>cv_base := cv_base c, cacheCoins := AList.update k (e0\<lparr>ce_DIRTY := True\<rparr>) (cacheCoins c), hasModifier := True\<rparr>)"
        using Some ce(3) by (simp add: ModifyCoins_def)
    qed (use Some ce in \<open>auto simp: keeps_def coins_entries_def cache_state_def over_eq\<close>)
  next
    case None
    obtain q b where b: "v_GetCoins V (cv_base c) k = (q, b)" by fastforce
    note g = GetCoins [OF ce(2) b]
    have s: "st_coins (c_state c) k = st_coins ?A k" using None by (simp add: cache_state_def over_eq)
    have "IsPruned coins_empty" by (simp add: IsPruned_def coins_empty_def)
    define e where "e = (case q of None \<Rightarrow> \<lparr>ce_coins = coins_empty, ce_DIRTY = True, ce_FRESH = True\<rparr>
      | Some coins \<Rightarrow> \<lparr>ce_coins = coins, ce_DIRTY = True, ce_FRESH = IsPruned coins\<rparr>)"
    have fresh: "if ce_FRESH e then st_coins ?A k = None else holds b k"
    proof (cases q)
      case (Some coins)
      then have "ce_FRESH e = IsPruned coins" by (simp add: e_def)
      with g Some show ?thesis by (cases "IsPruned coins") auto
    qed (use g in \<open>simp add: e_def\<close>)
    show ?thesis
    proof (rule that [where u = 0 and b = b and e = e])
      show "ModifyCoins V U c k = Inr (0, c\<lparr>cv_base := b, cacheCoins := AList.update k e (cacheCoins c), hasModifier := True\<rparr>)"
        using None b ce(3) by (simp add: ModifyCoins_def e_def)
      show "unspent (Some (ce_coins e)) = st_coins (c_state c) k"
        using g s \<open>IsPruned coins_empty\<close> by (cases q) (simp_all add: e_def)
    qed (use g fresh in \<open>auto simp: e_def split: option.splits\<close>)
  qed
  note bs = base_step [OF assms o(2)]
  have ents: "coins_entries (state_of b) (holds b) (cacheCoins c)" using bs(1) by (simp add: keeps_def cache_ok_def)
  define m where "m = (if ce_FRESH e \<and> IsPruned (Cleanup (f (ce_coins e))) then AList.delete k (AList.update k (e\<lparr>ce_coins := f (ce_coins e)\<rparr>) (AList.update k e (cacheCoins c)))
    else AList.update k (e\<lparr>ce_coins := Cleanup (f (ce_coins e))\<rparr>) (AList.update k (e\<lparr>ce_coins := f (ce_coins e)\<rparr>) (AList.update k e (cacheCoins c))))"
  have "\<exists>u'. modify_coins V U c k f = Inr (c\<lparr>cv_base := b, hasModifier := False, cachedCoinsUsage := u', cacheCoins := m\<rparr>)"
    using ce(3) by (cases "ce_FRESH e \<and> IsPruned (Cleanup (f (ce_coins e)))")
      (auto simp: modify_coins_def o(1) modifier_update_def modifier_destroy_def m_def update_conv' Let_def)
  then obtain u' where mc: "modify_coins V U c k f = Inr (c\<lparr>cv_base := b, hasModifier := False, cachedCoinsUsage := u', cacheCoins := m\<rparr>)" by blast
  have "coins_entries (state_of b) (holds b) m"
    using ents o(3,4) bs(3) unfolding m_def by (auto intro!: coins_entries_delete coins_entries_update)
  moreover have "coins_over m (st_coins (state_of b)) = (coins_over (cacheCoins c) (st_coins (state_of b)))(k := unspent (Some (Cleanup (f (ce_coins e)))))"
    using o(4) bs(3) unfolding m_def by (auto simp: fun_eq_iff)
  ultimately have "c_ok (c\<lparr>cv_base := b, hasModifier := False, cachedCoinsUsage := u', cacheCoins := m\<rparr>) \<and>
    c_state (c\<lparr>cv_base := b, hasModifier := False, cachedCoinsUsage := u', cacheCoins := m\<rparr>) =
      (c_state c)\<lparr>st_coins := (st_coins (c_state c))(k := unspent (Some (Cleanup (f (ce_coins e)))))\<rparr>"
    using bs by (auto simp: keeps_def cache_ok_def cache_state_def)
  moreover have "map_of (cacheCoins (c\<lparr>cv_base := b, cacheCoins := AList.update k e (cacheCoins c), hasModifier := True\<rparr>)) k = Some e" by (simp add: update_conv')
  ultimately show ?thesis using mc o(1,5) by blast
qed

lemma modify_coins_state:
  assumes "c_ok c"
  shows "\<exists>c' coins. modify_coins V U c k f = Inr c' \<and> c_ok c' \<and> unspent (Some coins) = st_coins (c_state c) k \<and>
    c_state c' = (c_state c)\<lparr>st_coins := (st_coins (c_state c))(k := unspent (Some (Cleanup (f coins))))\<rparr>"
  using modify_coins_entry [OF assms, of U k f] by blast

lemma PushAnchor_state:
  assumes "c_ok c" "tree_of type (tp_root (T type) t) = t" "tp_root (T type) t \<noteq> uint256_null"
  shows "c_ok (PushAnchor V T c type t)"
    "c_state (PushAnchor V T c type t) =
       (if st_best_anchor (c_state c) type = tp_root (T type) t then c_state c
        else (c_state c)\<lparr>st_anchors := (st_anchors (c_state c))(type := insert (tp_root (T type) t) (st_anchors (c_state c) type)),
               st_best_anchor := (st_best_anchor (c_state c))(type := tp_root (T type) t)\<rparr>)"
proof -
  obtain h c1 where g: "cache_GetBestAnchor V c type = (h, c1)" by fastforce
  note k = cache_GetBestAnchor_keeps [OF assms(1) g]
  then have c1: "c_ok c1" "c_state c1 = c_state c" by (simp_all add: keeps_def)
  let ?r = "tp_root (T type) t"
  show "c_ok (PushAnchor V T c type t)"
    using c1(1) assms(2) by (auto simp: PushAnchor_def g Let_def cache_ok_def intro!: anchor_entries_update)
  show "c_state (PushAnchor V T c type t) =
       (if st_best_anchor (c_state c) type = ?r then c_state c
        else (c_state c)\<lparr>st_anchors := (st_anchors (c_state c))(type := insert ?r (st_anchors (c_state c) type)),
               st_best_anchor := (st_best_anchor (c_state c))(type := ?r)\<rparr>)"
    unfolding c1(2) [symmetric] using k(1) assms(3)
    by (auto simp: PushAnchor_def g Let_def c1(2) [symmetric]) (auto simp: cache_state_def fun_eq_iff)
qed

lemma PopAnchor_state:
  assumes "c_ok c" "newrt \<noteq> uint256_null" "st_best_anchor (c_state c) type \<noteq> empty_rt type"
  shows "if st_best_anchor (c_state c) type = newrt then \<exists>c'. PopAnchor V c newrt type = Inr c' \<and> c_ok c' \<and> c_state c' = c_state c
    else if st_best_anchor (c_state c) type \<in> st_anchors (c_state c) type
    then \<exists>c'. PopAnchor V c newrt type = Inr c' \<and> c_ok c' \<and>
           c_state c' = (c_state c)\<lparr>st_anchors := (st_anchors (c_state c))(type := st_anchors (c_state c) type - {st_best_anchor (c_state c) type}),
             st_best_anchor := (st_best_anchor (c_state c))(type := newrt)\<rparr>
    else PopAnchor V c newrt type = Inl AssertAnchor"
proof -
  obtain h c1 where g: "cache_GetBestAnchor V c type = (h, c1)" by fastforce
  note k = cache_GetBestAnchor_keeps [OF assms(1) g]
  then have c1: "c_ok c1" "c_state c1 = c_state c" by (simp_all add: keeps_def)
  obtain r c2 where a: "cache_GetAnchorAt V c1 type h = (r, c2)" by fastforce
  note k2 = cache_GetAnchorAt_keeps [OF c1(1) a]
  then have c2: "c_ok c2" "c_state c2 = c_state c" using c1 by (simp_all add: keeps_def)
  show ?thesis
  proof (cases "h = newrt")
    case True
    with k(1) g c1 show ?thesis by (simp add: PopAnchor_def)
  next
    case False
    show ?thesis
    proof (cases "h \<in> st_anchors (c_state c) type")
      case True
      then obtain e where e: "map_of (cacheAnchors c2 type) h = Some e" "ae_tree e = tree_of type h" "r = Some (tree_of type h)"
        using k2(1,3) c1(2) by auto
      define c' where "c' = c2\<lparr>cacheAnchors := (cacheAnchors c2)(type := AList.update h (e\<lparr>ae_entered := False, ae_DIRTY := True\<rparr>) (cacheAnchors c2 type)),
        hashAnchor := (hashAnchor c2)(type := newrt)\<rparr>"
      have p: "PopAnchor V c newrt type = Inr c'" using False g a e by (simp add: PopAnchor_def c'_def)
      have "c_ok c'" using c2(1) e(2) assms(3) k(1) unfolding c'_def by (auto simp: cache_ok_def intro!: anchor_entries_update)
      moreover have "c_state c' = (c_state c2)\<lparr>st_anchors := (st_anchors (c_state c2))(type := st_anchors (c_state c2) type - {h}),
          st_best_anchor := (st_best_anchor (c_state c2))(type := newrt)\<rparr>"
        using assms(2) unfolding c'_def by (auto simp: cache_state_def fun_eq_iff split: if_splits)
      ultimately show ?thesis using False True p k(1) c2(2) by auto
    next
      case nin: False
      then have "r = None" using k2(1) c1(2) by simp
      with False nin g a k(1) show ?thesis by (simp add: PopAnchor_def)
    qed
  qed
qed

lemma set_nullifiers_entries:
  assumes "nullifier_entries A m"
  shows "nullifier_entries A (foldl (set_nullifier spent) m nfs)"
    "over (foldl (set_nullifier spent) m nfs) ne_entered g k = (if k \<in> set nfs then spent else over m ne_entered g k)"
proof -
  have "nullifier_entries A (foldl (set_nullifier spent) m nfs) \<and>
    over (foldl (set_nullifier spent) m nfs) ne_entered g k = (if k \<in> set nfs then spent else over m ne_entered g k)"
    using assms
  proof (induction nfs arbitrary: m)
    case (Cons nf nfs)
    have "nullifier_entries A (set_nullifier spent m nf)" unfolding set_nullifier_def by (rule nullifier_entries_update [OF Cons.prems]) simp
    with Cons.IH [of "set_nullifier spent m nf"] show ?case by (auto simp: set_nullifier_def)
  qed simp
  then show "nullifier_entries A (foldl (set_nullifier spent) m nfs)"
    "over (foldl (set_nullifier spent) m nfs) ne_entered g k = (if k \<in> set nfs then spent else over m ne_entered g k)" by simp_all
qed

lemma SetBestBlock_state:
  assumes "c_ok c" "h \<noteq> uint256_null"
  shows "c_ok (SetBestBlock c h)" "c_state (SetBestBlock c h) = (c_state c)\<lparr>st_best_block := h\<rparr>"
  using assms by (auto simp: SetBestBlock_def cache_ok_def cache_state_def)

lemma Flush_state:
  assumes "c_ok c" "hashBlock c \<noteq> uint256_null" "\<And>type. hashAnchor c type \<noteq> uint256_null"
  shows "\<exists>c'. Flush V c = Inr (True, c') \<and> c_ok c' \<and> c_state c' = c_state c \<and> ok (cv_base c') \<and> state_of (cv_base c') = c_state c"
proof -
  let ?b = "\<lparr>b_coins = cacheCoins c, b_hashBlock = hashBlock c, b_hashAnchor = hashAnchor c, b_anchors = cacheAnchors c, b_nullifiers = cacheNullifiers c\<rparr>"
  have ce: "ok (cv_base c)" "\<not> hasModifier c" using assms(1) by (auto simp: cache_ok_def)
  have "batch_ok tree_of empty_rt (state_of (cv_base c)) (holds (cv_base c)) ?b"
    using assms by (auto simp: batch_ok_def cache_ok_def coins_entries_def anchor_entries_def nullifier_entries_def)
  from BatchWrite [OF ce(1) this] obtain v where
    v: "v_BatchWrite V (cv_base c) ?b = Inr (True, v)" "ok v" "state_of v = apply_batch ?b (state_of (cv_base c))" by blast
  have ents: "coins_entries (state_of (cv_base c)) (holds (cv_base c)) (cacheCoins c)"
    "\<And>type. anchor_entries (tree_of type) (empty_rt type) (st_anchors (state_of (cv_base c)) type) (cacheAnchors c type)"
    "\<And>type. nullifier_entries (st_nullifiers (state_of (cv_base c)) type) (cacheNullifiers c type)"
    using assms(1) by (auto simp: cache_ok_def)
  have s: "state_of v = c_state c"
    unfolding v(3) using ents assms(2,3)
    by (auto simp: apply_batch_def cache_state_def patch_def over_def fun_eq_iff coins_entries_def anchor_entries_def nullifier_entries_def split: option.splits)
  define c' where "c' = c\<lparr>cv_base := v, cacheCoins := [], cacheAnchors := (\<lambda>_. []), cacheNullifiers := (\<lambda>_. []), cachedCoinsUsage := 0\<rparr>"
  have "Flush V c = Inr (True, c')" using v(1) by (simp add: Flush_def c'_def)
  moreover have "c_ok c'" using ce(2) v(2) by (simp add: c'_def cache_ok_def coins_entries_def anchor_entries_def nullifier_entries_def)
  moreover have "c_state c' = c_state c" using s assms(2,3) by (simp add: cache_state_def c'_def)
  ultimately show ?thesis using s v(2) by (auto simp: c'_def)
qed

end

section \<open>Sequences of operations\<close>

text \<open>
  What connecting and disconnecting blocks does with a view, in any order: look coins up, change
  coins depending on what is unspent of them, push and pop anchors, mark nullifiers, set the best block.
\<close>

datatype cache_op =
    OpFetch uint256
  | OpModify uint256 "CCoins option \<Rightarrow> CCoins"
  | OpPush ShieldedType MerkleTree
  | OpPop ShieldedType uint256
  | OpNullifiers CMutableTransaction bool
  | OpBest uint256

fun run_op :: "'v CCoinsView \<Rightarrow> (CCoins \<Rightarrow> u64) \<Rightarrow> (ShieldedType \<Rightarrow> tree_params) \<Rightarrow> 'v CCoinsViewCache \<Rightarrow> cache_op \<Rightarrow> coins_error + 'v CCoinsViewCache" where
  "run_op V U T c (OpFetch k) = Inr (snd (cache_GetCoins V U c k))"
| "run_op V U T c (OpModify k g) = modify_coins V U c k (\<lambda>coins. g (unspent (Some coins)))"
| "run_op V U T c (OpPush type t) = Inr (PushAnchor V T c type t)"
| "run_op V U T c (OpPop type rt) = PopAnchor V c rt type"
| "run_op V U T c (OpNullifiers tx spent) = Inr (SetNullifiers c tx spent)"
| "run_op V U T c (OpBest h) = Inr (SetBestBlock c h)"

fun run_ops :: "'v CCoinsView \<Rightarrow> (CCoins \<Rightarrow> u64) \<Rightarrow> (ShieldedType \<Rightarrow> tree_params) \<Rightarrow> 'v CCoinsViewCache \<Rightarrow> cache_op list \<Rightarrow> coins_error + 'v CCoinsViewCache" where
  "run_ops V U T c [] = Inr c"
| "run_ops V U T c (op # ops) = res_bind (run_op V U T c op) (\<lambda>c. run_ops V U T c ops)"

text \<open>The same on the state a view stands for, without caches, flags or flushes.\<close>

definition tx_nullifiers :: "CMutableTransaction \<Rightarrow> ShieldedType \<Rightarrow> uint256 set" where
  "tx_nullifiers tx type = (case type of SPROUT \<Rightarrow> (\<Union>js\<in>set (vjoinsplit tx). set (js_nullifiers js)) | SAPLING \<Rightarrow> sd_nullifier ` set (vShieldedSpend tx))"

fun spec_op :: "(ShieldedType \<Rightarrow> tree_params) \<Rightarrow> cache_op \<Rightarrow> chain_state \<Rightarrow> chain_state" where
  "spec_op T (OpFetch k) A = A"
| "spec_op T (OpModify k g) A = A\<lparr>st_coins := (st_coins A)(k := unspent (Some (Cleanup (g (st_coins A k)))))\<rparr>"
| "spec_op T (OpPush type t) A =
     (if st_best_anchor A type = tp_root (T type) t then A
      else A\<lparr>st_anchors := (st_anchors A)(type := insert (tp_root (T type) t) (st_anchors A type)),
             st_best_anchor := (st_best_anchor A)(type := tp_root (T type) t)\<rparr>)"
| "spec_op T (OpPop type rt) A =
     (if st_best_anchor A type = rt then A
      else A\<lparr>st_anchors := (st_anchors A)(type := st_anchors A type - {st_best_anchor A type}), st_best_anchor := (st_best_anchor A)(type := rt)\<rparr>)"
| "spec_op T (OpNullifiers tx spent) A =
     A\<lparr>st_nullifiers := (\<lambda>type. if spent then st_nullifiers A type \<union> tx_nullifiers tx type else st_nullifiers A type - tx_nullifiers tx type)\<rparr>"
| "spec_op T (OpBest h) A = A\<lparr>st_best_block := h\<rparr>"

definition spec_ops :: "(ShieldedType \<Rightarrow> tree_params) \<Rightarrow> cache_op list \<Rightarrow> chain_state \<Rightarrow> chain_state" where
  "spec_ops T ops A = fold (spec_op T) ops A"

text \<open>
  What the callers take care of: hashes are not zero, a pushed tree is the one its root stands for, and
  what is popped is the best anchor of a tree that is not empty, and is there.
\<close>

fun op_ok :: "(ShieldedType \<Rightarrow> tree_params) \<Rightarrow> (ShieldedType \<Rightarrow> uint256 \<Rightarrow> MerkleTree) \<Rightarrow> chain_state \<Rightarrow> cache_op \<Rightarrow> bool" where
  "op_ok T tree_of A (OpPush type t) \<longleftrightarrow> tree_of type (tp_root (T type) t) = t \<and> tp_root (T type) t \<noteq> uint256_null"
| "op_ok T tree_of A (OpPop type rt) \<longleftrightarrow> rt \<noteq> uint256_null \<and> st_best_anchor A type \<noteq> tp_empty_root (T type) \<and> st_best_anchor A type \<in> st_anchors A type"
| "op_ok T tree_of A (OpBest h) \<longleftrightarrow> h \<noteq> uint256_null"
| "op_ok T tree_of A op \<longleftrightarrow> True"

fun ops_ok :: "(ShieldedType \<Rightarrow> tree_params) \<Rightarrow> (ShieldedType \<Rightarrow> uint256 \<Rightarrow> MerkleTree) \<Rightarrow> chain_state \<Rightarrow> cache_op list \<Rightarrow> bool" where
  "ops_ok T tree_of A [] \<longleftrightarrow> True"
| "ops_ok T tree_of A (op # ops) \<longleftrightarrow> op_ok T tree_of A op \<and> ops_ok T tree_of (spec_op T op A) ops"

lemma run_ops_append: "run_ops V U T c (xs @ ys) = res_bind (run_ops V U T c xs) (\<lambda>c. run_ops V U T c ys)"
  by (induction xs arbitrary: c) (auto simp: res_bind_def split: sum.splits)

text \<open>The hashes a cache ends with after the operations that every block ends with.\<close>

lemma PushAnchor_hash:
  "hashAnchor (PushAnchor V T c type t) = (hashAnchor c)(type := tp_root (T type) t)" "hashBlock (PushAnchor V T c type t) = hashBlock c"
  by (auto simp: PushAnchor_def cache_GetBestAnchor_def Let_def split: prod.splits if_splits)

lemma block_end_hashes:
  assumes "run_ops V U T c (ops @ [OpPush SPROUT t1, OpPush SAPLING t2, OpBest h]) = Inr c'"
  shows "hashBlock c' = h" "hashAnchor c' type = tp_root (T type) (case type of SPROUT \<Rightarrow> t1 | SAPLING \<Rightarrow> t2)"
  using assms by (auto simp: run_ops_append res_bind_Inr_iff SetBestBlock_def PushAnchor_hash split: ShieldedType.split)

lemma cache_BatchWrite_hashes:
  assumes "cache_BatchWrite U c b = Inr (f, c')"
  shows "hashBlock c' = b_hashBlock b" "hashAnchor c' = b_hashAnchor b"
proof -
  obtain m u where m: "write_coins U (cacheCoins c, cachedCoinsUsage c) (b_coins b) = Inr (m, u)" "\<not> hasModifier c"
    using assms by (auto simp: cache_BatchWrite_def res_bind_Inr_iff split: if_splits)
  obtain sp u1 where sp: "foldl write_anchor (cacheAnchors c SPROUT, u) (b_anchors b SPROUT) = (sp, u1)" by fastforce
  obtain sa u2 where sa: "foldl write_anchor (cacheAnchors c SAPLING, u1) (b_anchors b SAPLING) = (sa, u2)" by fastforce
  from assms m sp sa show "hashBlock c' = b_hashBlock b" "hashAnchor c' = b_hashAnchor b" by (auto simp: cache_BatchWrite_def)
qed

context coins_view
begin

lemma SetNullifiers_state:
  assumes "c_ok c"
  shows "c_ok (SetNullifiers c tx spent)"
    "c_state (SetNullifiers c tx spent) = (c_state c)\<lparr>st_nullifiers := (\<lambda>type.
       if spent then st_nullifiers (c_state c) type \<union> tx_nullifiers tx type else st_nullifiers (c_state c) type - tx_nullifiers tx type)\<rparr>"
proof -
  have e: "nullifier_entries (st_nullifiers (state_of (cv_base c)) type) (cacheNullifiers c type)" for type
    using assms by (simp add: cache_ok_def)
  note s = set_nullifiers_entries [OF e]
  show "c_ok (SetNullifiers c tx spent)"
    using assms s(1) by (auto simp: SetNullifiers_def cache_ok_def split: ShieldedType.split)
  show "c_state (SetNullifiers c tx spent) = (c_state c)\<lparr>st_nullifiers := (\<lambda>type.
       if spent then st_nullifiers (c_state c) type \<union> tx_nullifiers tx type else st_nullifiers (c_state c) type - tx_nullifiers tx type)\<rparr>"
    by (auto simp: SetNullifiers_def cache_state_def s(2) tx_nullifiers_def fun_eq_iff split: ShieldedType.split if_splits)
qed

lemma run_op_state:
  assumes "c_ok c" "op_ok T tree_of (c_state c) op" "empty_rt = (\<lambda>type. tp_empty_root (T type))"
  shows "\<exists>c'. run_op V U T c op = Inr c' \<and> c_ok c' \<and> c_state c' = spec_op T op (c_state c)"
proof (cases op)
  case (OpFetch k)
  obtain r c' where "FetchCoins V U c k = (r, c')" by fastforce
  with FetchCoins_keeps(3) [OF assms(1) this] OpFetch show ?thesis by (simp add: cache_GetCoins_def keeps_def)
next
  case (OpModify k g)
  from modify_coins_state [OF assms(1), of U k "\<lambda>coins. g (unspent (Some coins))"] OpModify show ?thesis by auto
next
  case (OpPush type t)
  with PushAnchor_state [OF assms(1), of type T t] assms(2) show ?thesis by simp
next
  case (OpPop type rt)
  with PopAnchor_state [OF assms(1), of rt type] assms(2,3) show ?thesis by (auto split: if_splits)
next
  case (OpNullifiers tx spent)
  with SetNullifiers_state [OF assms(1)] show ?thesis by simp
next
  case (OpBest h)
  with SetBestBlock_state [OF assms(1)] assms(2) show ?thesis by simp
qed

lemma run_ops_state:
  assumes "empty_rt = (\<lambda>type. tp_empty_root (T type))"
  shows "c_ok c \<Longrightarrow> ops_ok T tree_of (c_state c) ops \<Longrightarrow>
    \<exists>c'. run_ops V U T c ops = Inr c' \<and> c_ok c' \<and> c_state c' = spec_ops T ops (c_state c)"
proof (induction ops arbitrary: c)
  case (Cons op ops)
  from run_op_state [OF Cons.prems(1) _ assms, of op U] Cons.prems(2) obtain c1 where
    c1: "run_op V U T c op = Inr c1" "c_ok c1" "c_state c1 = spec_op T op (c_state c)" by auto
  with Cons.IH [OF c1(2)] Cons.prems(2) show ?case by (simp add: spec_ops_def)
qed (simp add: spec_ops_def)

section \<open>What transactions ask\<close>

end

context coins_reader
begin

lemma have_inputs_keeps:
  "c_ok c \<Longrightarrow> have_inputs V U c is = (f, c') \<Longrightarrow>
    (f \<longleftrightarrow> (\<forall>i\<in>set is. \<exists>coins. st_coins (c_state c) (op_hash (prevout i)) = Some coins \<and> IsAvailable coins (unat (op_n (prevout i))))) \<and> c_keeps c c'"
proof (induction "is" arbitrary: c)
  case (Cons i "is")
  obtain r c1 where r: "FetchCoins V U c (op_hash (prevout i)) = (r, c1)" by fastforce
  note k = FetchCoins_keeps [OF Cons.prems(1) r]
  have c1: "c_ok c1" "c_state c1 = c_state c" using k(3) by (simp_all add: keeps_def)
  have trans: "c_keeps c c2" if "c_keeps c1 c2" for c2 using that k(3) by (auto simp: keeps_def)
  show ?case
  proof (cases r)
    case None
    with Cons.prems(2) r k show ?thesis by (auto simp: AccessCoins_def)
  next
    case (Some coins)
    have av: "(\<exists>x. st_coins (c_state c) (op_hash (prevout i)) = Some x \<and> IsAvailable x n) \<longleftrightarrow> IsAvailable coins n" for n
      using k(1) Some by (cases "IsPruned coins") (auto simp: IsPruned_iff dest: sym)
    show ?thesis
    proof (cases "IsAvailable coins (unat (op_n (prevout i)))")
      case True
      with Some r Cons.prems(2) have "have_inputs V U c1 is = (f, c')" by (simp add: AccessCoins_def)
      from Cons.IH [OF c1(1) this] trans show ?thesis using True av [of "unat (op_n (prevout i))"] by (simp add: c1(2))
    next
      case False
      with Some r Cons.prems(2) k(3) av [of "unat (op_n (prevout i))"] show ?thesis by (auto simp: AccessCoins_def)
    qed
  qed
qed (simp add: keeps_def)

lemma any_nullifier_keeps:
  "c_ok c \<Longrightarrow> any_nullifier V c type nfs = (f, c') \<Longrightarrow> (f \<longleftrightarrow> (\<exists>nf\<in>set nfs. nf \<in> st_nullifiers (c_state c) type)) \<and> c_ok c' \<and> c_state c' = c_state c"
proof (induction nfs arbitrary: c)
  case (Cons nf nfs)
  obtain g c1 where g: "cache_GetNullifier V c nf type = (g, c1)" by fastforce
  note k = cache_GetNullifier_keeps [OF Cons.prems(1) g]
  have c1: "c_ok c1" "c_state c1 = c_state c" using k(2) by (simp_all add: keeps_def)
  show ?case
  proof (cases g)
    case True
    with g Cons.prems(2) k c1 show ?thesis by auto
  next
    case False
    with g Cons.prems(2) have "any_nullifier V c1 type nfs = (f, c')" by simp
    from Cons.IH [OF c1(1) this] False k(1) show ?thesis by (simp add: c1(2))
  qed
qed simp

lemma joinsplits_ok_nullifiers:
  "c_ok c \<Longrightarrow> joinsplits_ok V p c im jss = Inr (f, c') \<Longrightarrow>
    c_ok c' \<and> c_state c' = c_state c \<and> (f \<longrightarrow> (\<forall>js\<in>set jss. \<forall>nf\<in>set (js_nullifiers js). nf \<notin> st_nullifiers (c_state c) SPROUT))"
proof (induction jss arbitrary: c im)
  case (Cons js jss)
  obtain g c1 where g: "any_nullifier V c SPROUT (js_nullifiers js) = (g, c1)" by fastforce
  from any_nullifier_keeps [OF Cons.prems(1) g]
  have n: "g \<longleftrightarrow> (\<exists>nf\<in>set (js_nullifiers js). nf \<in> st_nullifiers (c_state c) SPROUT)" "c_ok c1" "c_state c1 = c_state c" by auto
  obtain r c2 where r: "(case map_of im (js_anchor js) of Some t \<Rightarrow> (Some t, c1) | None \<Rightarrow> cache_GetAnchorAt V c1 SPROUT (js_anchor js)) = (r, c2)" by fastforce
  have c2: "c_ok c2" "c_state c2 = c_state c"
    using r cache_GetAnchorAt_keeps(2) [OF n(2), of SPROUT "js_anchor js" r c2] n(2,3) by (auto simp: keeps_def split: option.splits)
  show ?case
  proof (cases "g \<or> r = None")
    case True
    with Cons.prems(2) g r n c2 show ?thesis by (auto split: bool.splits option.splits)
  next
    case False
    then obtain t where "r = Some t" by auto
    with False Cons.prems(2) g r obtain t' im' where "joinsplits_ok V p c2 im' jss = Inr (f, c')"
      by (auto split: sum.splits)
    from Cons.IH [OF c2(1) this] False n(1) c2(2) show ?thesis by auto
  qed
qed simp

lemma spends_ok_nullifiers:
  "c_ok c \<Longrightarrow> spends_ok V c sds = (f, c') \<Longrightarrow> f \<Longrightarrow>
    (\<forall>sd\<in>set sds. sd_nullifier sd \<notin> st_nullifiers (c_state c) SAPLING \<and> sd_anchor sd \<in> st_anchors (c_state c) SAPLING)"
proof (induction sds arbitrary: c)
  case (Cons sd sds)
  obtain g c1 where g: "cache_GetNullifier V c (sd_nullifier sd) SAPLING = (g, c1)" by fastforce
  note k = cache_GetNullifier_keeps [OF Cons.prems(1) g]
  have c1: "c_ok c1" "c_state c1 = c_state c" using k(2) by (simp_all add: keeps_def)
  obtain r c2 where r: "cache_GetAnchorAt V c1 SAPLING (sd_anchor sd) = (r, c2)" by fastforce
  note k2 = cache_GetAnchorAt_keeps [OF c1(1) r]
  have c2: "c_ok c2" "c_state c2 = c_state c" using k2(2) c1(2) by (simp_all add: keeps_def)
  from Cons.prems(2,3) g r have f: "\<not> g" "r \<noteq> None" "spends_ok V c2 sds = (f, c')" by (auto split: bool.splits option.splits)
  from Cons.IH [OF c2(1) f(3) Cons.prems(3)] f(1,2) k(1) k2(1) c1(2) c2(2) show ?case by (auto split: if_splits)
qed simp

lemma requirements_nullifiers:
  assumes "c_ok c" "HaveJoinSplitRequirements V T c tx = Inr (True, c')"
  shows "tx_nullifiers tx type \<inter> st_nullifiers (c_state c) type = {}"
proof -
  obtain c1 where c1: "joinsplits_ok V (T SPROUT) c [] (vjoinsplit tx) = Inr (True, c1)" "spends_ok V c1 (vShieldedSpend tx) = (True, c')"
    using assms(2) by (auto simp: HaveJoinSplitRequirements_def res_bind_Inr_iff split: if_splits)
  from joinsplits_ok_nullifiers [OF assms(1) c1(1)] spends_ok_nullifiers [OF _ c1(2) TrueI] show ?thesis
    by (cases type) (auto simp: tx_nullifiers_def)
qed

end

context coins_view
begin

lemma double_spend:
  assumes "c_ok c" "nf \<in> tx_nullifiers tx1 type" "nf \<in> tx_nullifiers tx2 type"
  shows "HaveJoinSplitRequirements V T (SetNullifiers c tx1 True) tx2 \<noteq> Inr (True, c')"
  using requirements_nullifiers [OF SetNullifiers_state(1) [OF assms(1)], of T tx1 True tx2 c' type] assms(2,3)
  by (auto simp: SetNullifiers_state(2) [OF assms(1)])

lemma pop_push:
  assumes "c_ok c" "tree_of type (tp_root (T type) t) = t" "tp_root (T type) t \<noteq> uint256_null"
    "tp_root (T type) t \<notin> st_anchors (c_state c) type" "st_best_anchor (c_state c) type \<noteq> uint256_null"
    "st_best_anchor (c_state c) type \<noteq> tp_root (T type) t"
  shows "\<exists>c'. PopAnchor V (PushAnchor V T c type t) (st_best_anchor (c_state c) type) type = Inr c' \<and> c_ok c' \<and> c_state c' = c_state c"
proof -
  note p = PushAnchor_state [where T = T and type = type and t = t, OF assms(1-3)]
  have "tp_root (T type) t \<noteq> empty_rt type"
    using assms(1,4) coins_view.empty_anchor [OF cache_view, of c type] by auto
  from PopAnchor_state [OF p(1) assms(5), of type, unfolded p(2)] this assms(4,6) show ?thesis by simp
qed

end

section \<open>The views of the node\<close>

text \<open>
  The cache of the active chain's tip lies over the database, and the view in which a block is
  connected over that cache.
\<close>

abbreviation tip_ok :: "(ShieldedType \<Rightarrow> tree_params) \<Rightarrow> (ShieldedType \<Rightarrow> uint256 \<Rightarrow> MerkleTree) \<Rightarrow> coins_db CCoinsViewCache \<Rightarrow> bool" where
  "tip_ok T tree_of \<equiv> cache_ok (db_ok T tree_of) (db_state T) (\<lambda>_ _. True) tree_of (\<lambda>type. tp_empty_root (T type))"

abbreviation tip_state :: "(ShieldedType \<Rightarrow> tree_params) \<Rightarrow> coins_db CCoinsViewCache \<Rightarrow> chain_state" where
  "tip_state T \<equiv> cache_state (db_state T)"

abbreviation tip_ops :: "(ShieldedType \<Rightarrow> tree_params) \<Rightarrow> (CCoins \<Rightarrow> u64) \<Rightarrow> coins_db CCoinsViewCache CCoinsView" where
  "tip_ops T U \<equiv> CCoinsViewCache_ops (CCoinsViewDB_ops T) U"

interpretation tip_view: coins_view "tip_ops T U" "tip_ok T tree_of" "tip_state T" cache_holds tree_of "\<lambda>type. tp_empty_root (T type)"
  for T U tree_of
  by (rule db_view.cache_view)

lemma Flush_base_hashes:
  assumes "Flush (tip_ops T U) c = Inr (f, c')"
  shows "hashBlock (cv_base c') = hashBlock c" "hashAnchor (cv_base c') = hashAnchor c"
proof -
  let ?b = "\<lparr>b_coins = cacheCoins c, b_hashBlock = hashBlock c, b_hashAnchor = hashAnchor c,
      b_anchors = cacheAnchors c, b_nullifiers = cacheNullifiers c\<rparr>"
  from assms have "\<exists>b. cache_BatchWrite U (cv_base c) ?b = Inr (f, b) \<and>
      c' = c\<lparr>cv_base := b, cacheCoins := [], cacheAnchors := (\<lambda>_. []), cacheNullifiers := (\<lambda>_. []), cachedCoinsUsage := 0\<rparr>"
    unfolding Flush_def CCoinsViewCache_ops_def by (auto simp: res_bind_Inr_iff)
  then obtain b where b: "cache_BatchWrite U (cv_base c) ?b = Inr (f, b)"
    "c' = c\<lparr>cv_base := b, cacheCoins := [], cacheAnchors := (\<lambda>_. []), cacheNullifiers := (\<lambda>_. []), cachedCoinsUsage := 0\<rparr>" by blast
  have "cv_base c' = b" unfolding b(2) by (cases c) simp
  with cache_BatchWrite_hashes [OF b(1)] show "hashBlock (cv_base c') = hashBlock c" "hashAnchor (cv_base c') = hashAnchor c" by simp_all
qed

section \<open>Properties\<close>

text \<open>
  C2. The changes of a block reach the database, all of them and nothing else. In a fresh view over the
  cache of the tip, whatever that cache holds, any sequence of operations that ends as every block
  does, with the two anchors and the best block, runs without an assertion failing; flushing the view
  into the tip's cache and that into the database fails no assertion either, the one about the
  \<open>FRESH\<close> flag included, and the database then stands for the state that the same operations give
  on plain maps and sets.
\<close>

theorem block_reaches_database:
  assumes "tip_ok T tree_of tip" "ops_ok T tree_of (tip_state T tip) (ops @ [OpPush SPROUT t1, OpPush SAPLING t2, OpBest h])"
  shows "\<exists>c c' tip'. run_ops (tip_ops T U) U T (cache_new tip) (ops @ [OpPush SPROUT t1, OpPush SAPLING t2, OpBest h]) = Inr c \<and>
    Flush (tip_ops T U) c = Inr (True, c') \<and> Flush (CCoinsViewDB_ops T) (cv_base c') = Inr (True, tip') \<and>
    db_state T (cv_base tip') = spec_ops T (ops @ [OpPush SPROUT t1, OpPush SAPLING t2, OpBest h]) (tip_state T tip)"
proof -
  let ?ops = "ops @ [OpPush SPROUT t1, OpPush SAPLING t2, OpBest h]"
  note new = tip_view.cache_new_ok [OF assms(1)]
  with assms(2) tip_view.run_ops_state [OF refl, where T = T and tree_of = tree_of and c = "cache_new tip" and ops = ?ops and U = U] obtain c where
    c: "run_ops (tip_ops T U) U T (cache_new tip) ?ops = Inr c" "tip_view.c_ok T tree_of c"
      "cache_state (tip_state T) c = spec_ops T ?ops (tip_state T tip)" by auto
  have ok: "h \<noteq> uint256_null" "tp_root (T SPROUT) t1 \<noteq> uint256_null" "tp_root (T SAPLING) t2 \<noteq> uint256_null"
  proof -
    have split: "ops_ok T tree_of A (xs @ ys) \<longleftrightarrow> ops_ok T tree_of A xs \<and> ops_ok T tree_of (spec_ops T xs A) ys" for A xs ys
      by (induction xs arbitrary: A) (auto simp: spec_ops_def)
    from assms(2) show "h \<noteq> uint256_null" "tp_root (T SPROUT) t1 \<noteq> uint256_null" "tp_root (T SAPLING) t2 \<noteq> uint256_null"
      unfolding split by simp_all
  qed
  note hs = block_end_hashes [OF c(1)]
  have hc: "hashBlock c \<noteq> uint256_null" "\<And>type. hashAnchor c type \<noteq> uint256_null"
    using hs ok by (auto split: ShieldedType.split)
  from tip_view.Flush_state [OF c(2) hc, where U = U] obtain c' where
    c': "Flush (tip_ops T U) c = Inr (True, c')" "tip_ok T tree_of (cv_base c')" "tip_state T (cv_base c') = cache_state (tip_state T) c" by auto
  note hb = Flush_base_hashes [OF c'(1)]
  from db_view.Flush_state [OF c'(2)] hc hb obtain tip' where
    "Flush (CCoinsViewDB_ops T) (cv_base c') = Inr (True, tip')" "db_state T (cv_base tip') = tip_state T (cv_base c')" by auto
  with c c' show ?thesis by metis
qed

text \<open>A database that holds nothing, and trees of depth one over a hash that keeps the left child.\<close>

definition small_params :: "ShieldedType \<Rightarrow> tree_params" where
  "small_params type = \<lparr>tp_hash = \<lparr>combine = (\<lambda>a b d. a), uncommitted = replicate 32 9\<rparr>, tp_depth = 1\<rparr>"

definition small_tree :: MerkleTree where
  "small_tree = \<lparr>left = Some (replicate 32 5), right = None, parents = []\<rparr>"

definition small_trees :: "ShieldedType \<Rightarrow> uint256 \<Rightarrow> MerkleTree" where
  "small_trees type rt = (if rt = replicate 32 5 then small_tree else tree_empty)"

definition empty_db :: coins_db where
  "empty_db = \<lparr>db_coins = Map.empty, db_anchors = (\<lambda>_. Map.empty), db_nullifiers = (\<lambda>_. {}), db_best_block = None, db_best_anchor = (\<lambda>_. None)\<rparr>"

lemma small_roots [simp]:
  "tp_root (small_params type) small_tree = replicate 32 5" "tp_root (small_params type) tree_empty = replicate 32 9"
  "tp_empty_root (small_params type) = replicate 32 9"
  by (simp_all add: tp_root_def small_params_def tree_root_def tree_root_with_def small_tree_def tree_empty_def filler_next_def root_fill.simps
      tp_empty_root_def)

lemma small_tip_ok: "tip_ok small_params small_trees (cache_new empty_db)" "tip_state small_params (cache_new empty_db) = db_state small_params empty_db"
proof -
  have "db_ok small_params small_trees empty_db" by (simp add: db_ok_def empty_db_def small_trees_def)
  from db_view.cache_new_ok [OF this] show "tip_ok small_params small_trees (cache_new empty_db)"
    "tip_state small_params (cache_new empty_db) = db_state small_params empty_db" by simp_all
qed

lemma small_state: "db_state small_params empty_db =
    \<lparr>st_coins = (\<lambda>_. None), st_anchors = (\<lambda>_. {replicate 32 9}), st_nullifiers = (\<lambda>_. {}), st_best_block = uint256_null, st_best_anchor = (\<lambda>_. replicate 32 9)\<rparr>"
  by (simp add: db_state_def empty_db_def db_GetBestBlock_def db_GetBestAnchor_def)

lemma not_null_hash [simp]: "[3] \<noteq> uint256_null"
  by (simp add: replicate_numeral)

theorem block_reaches_database_witness:
  "\<exists>c c' tip'. run_ops (tip_ops small_params (\<lambda>_. 1)) (\<lambda>_. 1) small_params (cache_new (cache_new empty_db))
       ([OpModify [1] (\<lambda>_. FromTx (tx_default\<lparr>vout := [\<lparr>nValue = 5, scriptPubKey = [OP_1]\<rparr>]\<rparr>) 7)] @ [OpPush SPROUT small_tree, OpPush SAPLING tree_empty, OpBest [3]]) = Inr c \<and>
     Flush (tip_ops small_params (\<lambda>_. 1)) c = Inr (True, c') \<and> Flush (CCoinsViewDB_ops small_params) (cv_base c') = Inr (True, tip') \<and>
     st_best_anchor (db_state small_params (cv_base tip')) SPROUT = replicate 32 5"
  using block_reaches_database [OF small_tip_ok(1), of "[OpModify [1] (\<lambda>_. FromTx (tx_default\<lparr>vout := [\<lparr>nValue = 5, scriptPubKey = [OP_1]\<rparr>]\<rparr>) 7)]"
      small_tree tree_empty "[3]" "\<lambda>_. 1", unfolded small_tip_ok(2) small_state]
  by (auto simp: small_trees_def spec_ops_def)

text \<open>
  Disconnecting restores the anchors. Pushing a tree whose root is not yet an anchor onto a cache and
  popping back to the anchor that was best before leaves the state the cache had.
\<close>

theorem PopAnchor_undoes_PushAnchor:
  assumes "tip_ok T tree_of c" "tree_of type (tp_root (T type) t) = t" "tp_root (T type) t \<noteq> uint256_null"
    "tp_root (T type) t \<notin> st_anchors (tip_state T c) type" "st_best_anchor (tip_state T c) type \<noteq> uint256_null"
    "st_best_anchor (tip_state T c) type \<noteq> tp_root (T type) t"
  shows "\<exists>c'. PopAnchor (CCoinsViewDB_ops T) (PushAnchor (CCoinsViewDB_ops T) T c type t) (st_best_anchor (tip_state T c) type) type = Inr c' \<and>
    tip_ok T tree_of c' \<and> tip_state T c' = tip_state T c"
  using assms by (rule db_view.pop_push)

theorem PopAnchor_undoes_PushAnchor_witness:
  "\<exists>c'. PopAnchor (CCoinsViewDB_ops small_params) (PushAnchor (CCoinsViewDB_ops small_params) small_params (cache_new empty_db) SPROUT small_tree) (replicate 32 9) SPROUT = Inr c' \<and>
    tip_ok small_params small_trees c' \<and> tip_state small_params c' = db_state small_params empty_db"
  using PopAnchor_undoes_PushAnchor [OF small_tip_ok(1), of SPROUT small_tree, unfolded small_tip_ok(2) small_state]
  by (simp add: small_trees_def small_state)

text \<open>
  C11. A nullifier is spent once. Once the nullifiers of a transaction are marked in a cache, no transaction
  that reveals one of them again, Sprout or Sapling, passes \<open>HaveJoinSplitRequirements\<close> there.
\<close>

theorem double_spend_refused:
  assumes "tip_ok T tree_of c" "nf \<in> tx_nullifiers tx1 type" "nf \<in> tx_nullifiers tx2 type"
  shows "HaveJoinSplitRequirements (CCoinsViewDB_ops T) T (SetNullifiers c tx1 True) tx2 \<noteq> Inr (True, c')"
  using assms by (rule db_view.double_spend)

definition spend_tx :: CMutableTransaction where
  "spend_tx = tx_default\<lparr>vShieldedSpend := [\<lparr>sd_cv = [], sd_anchor = replicate 32 9, sd_nullifier = [4], sd_rk = [], sd_zkproof = [], sd_spendAuthSig = []\<rparr>]\<rparr>"

theorem double_spend_refused_witness:
  "HaveJoinSplitRequirements (CCoinsViewDB_ops small_params) small_params (SetNullifiers (cache_new empty_db) spend_tx True) spend_tx \<noteq> Inr (True, cache_new empty_db) \<and>
   fst (spends_ok (CCoinsViewDB_ops small_params) (cache_new empty_db) (vShieldedSpend spend_tx))"
proof
  show "HaveJoinSplitRequirements (CCoinsViewDB_ops small_params) small_params (SetNullifiers (cache_new empty_db) spend_tx True) spend_tx \<noteq> Inr (True, cache_new empty_db)"
    by (rule double_spend_refused [OF small_tip_ok(1), of "[4]" _ SAPLING]) (simp_all add: tx_nullifiers_def spend_tx_def)
  show "fst (spends_ok (CCoinsViewDB_ops small_params) (cache_new empty_db) (vShieldedSpend spend_tx))"
    by (simp add: spend_tx_def cache_GetNullifier_def cache_GetAnchorAt_def cache_new_def empty_db_def CCoinsViewDB_ops_def db_GetNullifier_def db_GetAnchorAt_def)
qed

text \<open>
  \<open>HaveInputs\<close> is exact: it holds just if the transaction is a mint or every output it spends is
  available in the state the cache stands for, and it leaves that state as it was.
\<close>

theorem HaveInputs_exact:
  assumes "tip_ok T tree_of c" "HaveInputs (CCoinsViewDB_ops T) U c tx = (f, c')"
  shows "(f \<longleftrightarrow> tx_IsMint tx \<or> (\<forall>i. i \<in> set (vin tx) \<longrightarrow>
      (\<exists>coins. st_coins (tip_state T c) (op_hash (prevout i)) = Some coins \<and> IsAvailable coins (unat (op_n (prevout i)))))) \<and>
    tip_ok T tree_of c' \<and> tip_state T c' = tip_state T c"
  using assms db_view.have_inputs_keeps [OF assms(1), of U "vin tx" f c']
  by (auto simp: HaveInputs_def keeps_def split: if_splits)

theorem HaveInputs_exact_witness:
  "\<exists>f c'. HaveInputs (CCoinsViewDB_ops small_params) (\<lambda>_. 1) (cache_new empty_db) (tx_default\<lparr>vin := [\<lparr>prevout = COutPoint [1] 0, scriptSig = [], nSequence = 0\<rparr>]\<rparr>) = (f, c') \<and>
     \<not> f \<and> tip_state small_params c' = db_state small_params empty_db"
proof -
  obtain f c' where h: "HaveInputs (CCoinsViewDB_ops small_params) (\<lambda>_. 1) (cache_new empty_db) (tx_default\<lparr>vin := [\<lparr>prevout = COutPoint [1] 0, scriptSig = [], nSequence = 0\<rparr>]\<rparr>) = (f, c')"
    by fastforce
  from HaveInputs_exact [OF small_tip_ok(1) h] h show ?thesis
    by (auto simp: small_tip_ok(2) small_state tx_IsMint_def tx_IsCoinImport_def tx_IsCoinBase_def outpoint_IsNull_def)
qed



end
