(* ===== verification/ConnectUndo.thy ===== *)
theory ConnectUndo
  imports ConnectBlock CoinsViewProps
begin

text \<open>
  Disconnecting against connecting: an output that was spent is restored as it was, then all inputs of a transaction,
  the transactions of a block and the block with its anchors. The lemmas hold in the locale \<open>coins_view\<close>, for a
  cache over any view that keeps the contract.
\<close>

section \<open>Modifiers\<close>

context coins_view
begin

lemma modify_with_state:
  assumes "c_ok c"
  obtains coins where "unspent (Some coins) = st_coins (c_state c) k"
    "\<And>e. body coins = Inl e \<Longrightarrow> modify_with V U c k body = Inl e"
    "\<And>x coins'. body coins = Inr (x, coins') \<Longrightarrow> \<exists>c'. modify_with V U c k body = Inr (x, c') \<and> c_ok c' \<and>
       c_state c' = (c_state c)\<lparr>st_coins := (st_coins (c_state c))(k := unspent (Some (Cleanup coins')))\<rparr>"
proof -
  obtain c' u c1 e where e: "ModifyCoins V U c k = Inr (u, c1)" "map_of (cacheCoins c1) k = Some e"
    "unspent (Some (ce_coins e)) = st_coins (c_state c) k"
    using modify_coins_entry [OF assms, of U k "\<lambda>x. x"] by blast
  show thesis
  proof (rule that [OF e(3)])
    show "modify_with V U c k body = Inl err" if "body (ce_coins e) = Inl err" for err
      using e that by (simp add: modify_with_def lift_coins_def)
    fix x coins'
    assume b: "body (ce_coins e) = Inr (x, coins')"
    obtain c2 where c2: "modify_coins V U c k (\<lambda>_. coins') = Inr c2" "c_ok c2"
      "c_state c2 = (c_state c)\<lparr>st_coins := (st_coins (c_state c))(k := unspent (Some (Cleanup coins')))\<rparr>"
      using modify_coins_entry [OF assms, of U k "\<lambda>_. coins'"] by blast
    with e(1,2) b show "\<exists>c'. modify_with V U c k body = Inr (x, c') \<and> c_ok c' \<and>
       c_state c' = (c_state c)\<lparr>st_coins := (st_coins (c_state c))(k := unspent (Some (Cleanup coins')))\<rparr>"
      by (auto simp: modify_with_def modify_coins_def lift_coins_def)
  qed
qed

lemma modify_with_Inr:
  assumes "c_ok c" "modify_with V U c k body = Inr (x, c')"
  obtains coins coins' where "unspent (Some coins) = st_coins (c_state c) k" "body coins = Inr (x, coins')" "c_ok c'"
    "c_state c' = (c_state c)\<lparr>st_coins := (st_coins (c_state c))(k := unspent (Some (Cleanup coins')))\<rparr>"
proof -
  obtain coins where m: "unspent (Some coins) = st_coins (c_state c) k"
    "\<And>e. body coins = Inl e \<Longrightarrow> modify_with V U c k body = Inl e"
    "\<And>x coins'. body coins = Inr (x, coins') \<Longrightarrow> \<exists>c'. modify_with V U c k body = Inr (x, c') \<and> c_ok c' \<and>
       c_state c' = (c_state c)\<lparr>st_coins := (st_coins (c_state c))(k := unspent (Some (Cleanup coins')))\<rparr>"
    by (rule modify_with_state [OF assms(1), where k = k and body = body and U = U]) blast
  show thesis
  proof (cases "body coins")
    case (Inl e)
    with m(2) assms(2) show thesis by simp
  next
    case (Inr y)
    obtain x' coins' where y: "y = (x', coins')" by (cases y)
    with m(3) Inr assms(2) have "x' = x" "c_ok c'"
      "c_state c' = (c_state c)\<lparr>st_coins := (st_coins (c_state c))(k := unspent (Some (Cleanup coins')))\<rparr>" by fastforce+
    with that m(1) Inr y show thesis by blast
  qed
qed

end

section \<open>An output is restored\<close>

text \<open>What the state has for a transaction: outputs in the canonical form, and a height.\<close>

definition coins_canonical :: "CCoins \<Rightarrow> bool" where
  "coins_canonical c \<longleftrightarrow>
     Cleanup c = c \<and> (\<forall>out\<in>set (cc_vout c). txout_IsNull out \<longrightarrow> out = txout_null) \<and> length (cc_vout c) < 2 ^ 32 \<and>
     0 < cc_nHeight c \<and> cc_nHeight c < 2 ^ 31"

lemma canonical_outputs:
  assumes "drop_null outs = outs" "\<forall>out\<in>set outs. txout_IsNull out \<longrightarrow> out = txout_null" "n < length outs" "\<not> txout_IsNull (outs ! n)"
  defines "r \<equiv> drop_null (outs[n := txout_null])"
  shows "(if length r < Suc n then r @ replicate (Suc n - length r) txout_null else r)[n := outs ! n] = outs" (is "?l[n := _] = _")
proof (cases "Suc n = length outs")
  case True
  have null: "(outs[n := txout_null]) ! i = txout_null" if "length r \<le> i" "i < length outs" for i
  proof -
    have "txout_IsNull ((outs[n := txout_null]) ! i)"
      using drop_null_nth(2) [of i "outs[n := txout_null]"] that unfolding r_def by force
    then show ?thesis using assms(2) that by (cases "i = n") (auto simp: nth_list_update)
  qed
  have "length r \<le> n"
  proof (rule ccontr)
    assume "\<not> length r \<le> n"
    then have r: "length r = Suc n" using drop_null_nth(3) [of "outs[n := txout_null]"] True unfolding r_def by simp
    then have "last r = r ! n" by (subst last_conv_nth) auto
    with drop_null_is_clean [of "outs[n := txout_null]"] r have "\<not> txout_IsNull (r ! n)" unfolding r_def [symmetric] by auto
    moreover have "r ! n = txout_null" using drop_null_nth(1) [of n "outs[n := txout_null]"] r assms(3) unfolding r_def by simp
    ultimately show False by (simp add: txout_IsNull_def txout_null_def)
  qed
  then have "length ?l = length outs" using True by simp
  moreover have "?l[n := outs ! n] ! i = outs ! i" if "i < length outs" for i
    using that True \<open>length r \<le> n\<close> null [of i] drop_null_nth(1) [of i "outs[n := txout_null]"] unfolding r_def
    by (cases "i = n") (auto simp: nth_append nth_list_update)
  ultimately show ?thesis by (intro nth_equalityI) simp_all
next
  case False
  then have "last (outs[n := txout_null]) = last outs" using assms(3) by (cases outs rule: rev_cases) (auto simp: list_update_append)
  moreover have "\<not> txout_IsNull (last outs)" using drop_null_is_clean [of outs] assms(1,3) by auto
  ultimately have "r = outs[n := txout_null]" unfolding r_def by (intro drop_null_clean) simp
  with False assms(3) show ?thesis by simp
qed

lemma spend_undo_body:
  assumes can: "coins_canonical coins" and b: "spend_body (unat n) coins = Inr (undo, coins')" and x: "unspent (Some x) = unspent (Some coins')"
  shows "undo_body undo n x = Inr (True, coins)"
proof -
  have av: "unat n < length (cc_vout coins)" "\<not> txout_IsNull (cc_vout coins ! unat n)"
    using b by (auto simp: spend_body_def split: if_splits)
  let ?r = "drop_null ((cc_vout coins)[unat n := txout_null])"
  have c': "coins' = coins\<lparr>cc_vout := ?r\<rparr>"
    and u: "undo = (if ?r = [] then (undo_of_txout (cc_vout coins ! unat n))
        \<lparr>ui_nHeight := word_of_int (cc_nHeight coins), ui_fCoinBase := cc_fCoinBase coins, ui_nVersion := cc_nVersion coins\<rparr>
      else undo_of_txout (cc_vout coins ! unat n))"
    using b av by (auto simp: spend_body_def Spend_def Cleanup_def Let_def)
  have clean: "drop_null (cc_vout coins) = cc_vout coins" "\<forall>out\<in>set (cc_vout coins). txout_IsNull out \<longrightarrow> out = txout_null"
    "0 < cc_nHeight coins" "cc_nHeight coins < 2 ^ 31" "length (cc_vout coins) < 2 ^ 32"
    using can unfolding coins_canonical_def Cleanup_def by (auto simp: CCoins.equality dest: arg_cong [where f = cc_vout])
  note restored = canonical_outputs [OF clean(1,2) av]
  have n1: "unat (n + 1) = Suc (unat n)" using av(1) clean(5) by (simp add: unat_word_ariths)
  have pruned: "IsPruned coins' \<longleftrightarrow> ?r = []"
    unfolding c' using drop_null_is_clean [of "(cc_vout coins)[unat n := txout_null]"]
    by (auto simp: IsPruned_def intro: last_in_set)
  show ?thesis
  proof (cases "?r = []")
    case True
    with pruned x have p: "IsPruned x" by (auto simp: unspent_def split: if_splits)
    have h: "sint (word_of_int (cc_nHeight coins) :: u32) = cc_nHeight coins" using clean(3,4) by (simp add: int_word_sint)
    then have nz: "(word_of_int (cc_nHeight coins) :: u32) \<noteq> 0" using clean(3) by auto
    from True u h nz p n1 restored show ?thesis
      by (simp add: undo_body_def undo_of_txout_def Let_def IsAvailable_def)
  next
    case False
    with pruned x have "x = coins'" by (auto simp: unspent_def split: if_splits)
    moreover have "\<not> IsAvailable coins' (unat n)"
      unfolding c' using drop_null_nth(1) [of "unat n" "(cc_vout coins)[unat n := txout_null]"] av(1)
      by (auto simp: IsAvailable_def txout_IsNull_def txout_null_def)
    ultimately show ?thesis using False u pruned n1 restored
      by (simp add: undo_body_def undo_of_txout_def Let_def c' split: if_splits)
  qed
qed

lemma spend_body_coins:
  assumes "coins_canonical coins" "spend_body n coins = Inr (undo, coins')"
  shows "coins_canonical coins'" "Cleanup coins' = coins'" "\<not> IsPruned coins"
proof -
  have av: "n < length (cc_vout coins)" "\<not> txout_IsNull (cc_vout coins ! n)"
    and c': "coins' = Cleanup (coins\<lparr>cc_vout := (cc_vout coins)[n := txout_null]\<rparr>)"
    using assms(2) by (auto simp: spend_body_def Spend_def Let_def split: if_splits)
  show "\<not> IsPruned coins" using av by (auto simp: IsPruned_def)
  show cl: "Cleanup coins' = coins'" unfolding c' by simp
  have "length (cc_vout coins') < 2 ^ 32"
    using drop_null_nth(3) [of "(cc_vout coins)[n := txout_null]"] assms(1) unfolding c' coins_canonical_def by (simp add: Cleanup_def)
  moreover have "txout_IsNull out \<longrightarrow> out = txout_null" if "out \<in> set (cc_vout coins')" for out
    using that in_set_drop_null [of out "(cc_vout coins)[n := txout_null]"] set_update_subset_insert [of "cc_vout coins" n txout_null] assms(1)
    unfolding c' coins_canonical_def by (auto simp: Cleanup_def)
  ultimately show "coins_canonical coins'" using cl assms(1) unfolding coins_canonical_def by (simp add: c' Cleanup_def)
qed

definition st_good :: "chain_state \<Rightarrow> bool" where
  "st_good A \<longleftrightarrow> (\<forall>k coins. st_coins A k = Some coins \<longrightarrow> coins_canonical coins)"

lemma st_good_update:
  "st_good A \<Longrightarrow> (\<not> IsPruned coins \<Longrightarrow> coins_canonical coins) \<Longrightarrow> st_good (A\<lparr>st_coins := (st_coins A)(k := unspent (Some coins))\<rparr>)"
  by (auto simp: st_good_def unspent_def split: if_splits)

lemma unspent_eq_Some: "unspent (Some c) = r \<Longrightarrow> \<not> IsPruned c \<Longrightarrow> r = Some c"
  by auto

section \<open>The inputs of a transaction are restored\<close>

context coins_view
begin

text \<open>
  The change from \<open>c\<close> to \<open>c'\<close> can be taken back by \<open>g\<close>, cleanly, in any cache that stands for the
  result but for anchors and best block, which stay.
\<close>

definition undone_by :: "'v CCoinsViewCache \<Rightarrow> 'v CCoinsViewCache \<Rightarrow> ('v CCoinsViewCache \<Rightarrow> connect_error + bool \<times> 'v CCoinsViewCache) \<Rightarrow> bool" where
  "undone_by c c' g \<longleftrightarrow>
     (\<forall>d a r h. c_ok d \<longrightarrow> c_state d = (c_state c')\<lparr>st_anchors := a, st_best_anchor := r, st_best_block := h\<rparr> \<longrightarrow>
        (\<exists>d'. g d = Inr (True, d') \<and> c_ok d' \<and> c_state d' = (c_state c)\<lparr>st_anchors := a, st_best_anchor := r, st_best_block := h\<rparr>))"

lemma spend_input_undo:
  assumes "c_ok c" "st_good (c_state c)"
    "modify_with V U c (op_hash out) (spend_body (unat (op_n out))) = Inr (undo, c')"
  shows "c_ok c'" "st_good (c_state c')" "\<exists>m. c_state c' = (c_state c)\<lparr>st_coins := m\<rparr>"
    "st_coins (c_state c) k = None \<Longrightarrow> st_coins (c_state c') k = None"
    "undone_by c c' (\<lambda>d. ApplyTxInUndo V U undo d out)"
proof -
  obtain coins coins' where m: "unspent (Some coins) = st_coins (c_state c) (op_hash out)" "spend_body (unat (op_n out)) coins = Inr (undo, coins')"
    "c_ok c'" "c_state c' = (c_state c)\<lparr>st_coins := (st_coins (c_state c))(op_hash out := unspent (Some (Cleanup coins')))\<rparr>"
    by (rule modify_with_Inr [OF assms(1,3)])
  have "\<not> IsPruned coins" using m(2) by (auto simp: spend_body_def IsPruned_def split: if_splits)
  then have st: "st_coins (c_state c) (op_hash out) = Some coins" using m(1) by simp
  then have can: "coins_canonical coins" using assms(2) by (simp add: st_good_def)
  note sb = spend_body_coins [OF can m(2)]
  show "c_ok c'" by (rule m(3))
  show "st_good (c_state c')" unfolding m(4) using sb by (intro st_good_update assms(2)) simp
  show "\<exists>m. c_state c' = (c_state c)\<lparr>st_coins := m\<rparr>" using m(4) by blast
  show "st_coins (c_state c) k = None \<Longrightarrow> st_coins (c_state c') k = None" unfolding m(4) using st by auto
  show "undone_by c c' (\<lambda>d. ApplyTxInUndo V U undo d out)" unfolding undone_by_def
  proof (intro allI impI)
    fix d a r z
    assume d: "c_ok d" "c_state d = (c_state c')\<lparr>st_anchors := a, st_best_anchor := r, st_best_block := z\<rparr>"
    obtain x where x: "unspent (Some x) = st_coins (c_state d) (op_hash out)"
      "\<And>y coins'. undo_body undo (op_n out) x = Inr (y, coins') \<Longrightarrow> \<exists>c'. modify_with V U d (op_hash out) (undo_body undo (op_n out)) = Inr (y, c') \<and> c_ok c' \<and>
         c_state c' = (c_state d)\<lparr>st_coins := (st_coins (c_state d))(op_hash out := unspent (Some (Cleanup coins')))\<rparr>"
      by (rule modify_with_state [OF d(1), where k = "op_hash out" and body = "undo_body undo (op_n out)" and U = U]) blast
    have "unspent (Some x) = unspent (Some coins')" using x(1) d(2) m(4) sb(2) by simp
    from x(2) [OF spend_undo_body [OF can m(2) this]] obtain d' where
      d': "modify_with V U d (op_hash out) (undo_body undo (op_n out)) = Inr (True, d')" "c_ok d'"
      "c_state d' = (c_state d)\<lparr>st_coins := (st_coins (c_state d))(op_hash out := unspent (Some (Cleanup coins)))\<rparr>" by blast
    have "c_state d' = (c_state c)\<lparr>st_anchors := a, st_best_anchor := r, st_best_block := z\<rparr>"
      using d'(3) d(2) m(4) st can by (simp add: coins_canonical_def m(1) fun_upd_idem)
    with d'(1,2) show "\<exists>d'. ApplyTxInUndo V U undo d out = Inr (True, d') \<and> c_ok d' \<and> c_state d' = (c_state c)\<lparr>st_anchors := a, st_best_anchor := r, st_best_block := z\<rparr>"
      by (simp add: ApplyTxInUndo_def)
  qed
qed

lemma spend_inputs_undo:
  "c_ok c \<Longrightarrow> st_good (c_state c) \<Longrightarrow> spend_inputs V U c txins = Inr (undos, c') \<Longrightarrow>
    c_ok c' \<and> st_good (c_state c') \<and> (\<exists>m. c_state c' = (c_state c)\<lparr>st_coins := m\<rparr>) \<and> length undos = length txins \<and>
    (\<forall>k. st_coins (c_state c) k = None \<longrightarrow> st_coins (c_state c') k = None) \<and>
    undone_by c c' (\<lambda>d. restore_inputs V U d (zip txins undos))"
proof (induction txins arbitrary: c undos)
  case Nil
  moreover have "\<exists>m. A = A\<lparr>st_coins := m\<rparr>" for A :: chain_state by (rule exI [of _ "st_coins A"]) simp
  ultimately show ?case by (auto simp: undone_by_def)
next
  case (Cons txin txins)
  obtain undo c1 rest where u: "modify_with V U c (op_hash (prevout txin)) (spend_body (unat (op_n (prevout txin)))) = Inr (undo, c1)"
    "spend_inputs V U c1 txins = Inr (rest, c')" "undos = undo # rest"
    using Cons.prems(3) by (auto simp: res_bind_Inr_iff)
  note one = spend_input_undo [OF Cons.prems(1,2) u(1)]
  have more: "c_ok c'" "st_good (c_state c')" "\<exists>m. c_state c' = (c_state c1)\<lparr>st_coins := m\<rparr>" "length rest = length txins"
    "\<And>k. st_coins (c_state c1) k = None \<Longrightarrow> st_coins (c_state c') k = None"
    "undone_by c1 c' (\<lambda>d. restore_inputs V U d (zip txins rest))"
    using Cons.IH [OF one(1,2) u(2)] by auto
  have "undone_by c c' (\<lambda>d. restore_inputs V U d (zip (txin # txins) undos))" unfolding undone_by_def
  proof (intro allI impI)
    fix d a r z
    assume d: "c_ok d" "c_state d = (c_state c')\<lparr>st_anchors := a, st_best_anchor := r, st_best_block := z\<rparr>"
    then obtain d1 where d1: "restore_inputs V U d (zip txins rest) = Inr (True, d1)" "c_ok d1" "c_state d1 = (c_state c1)\<lparr>st_anchors := a, st_best_anchor := r, st_best_block := z\<rparr>"
      using more(6) unfolding undone_by_def by blast
    then obtain d2 where "ApplyTxInUndo V U undo d1 (prevout txin) = Inr (True, d2)" "c_ok d2" "c_state d2 = (c_state c)\<lparr>st_anchors := a, st_best_anchor := r, st_best_block := z\<rparr>"
      using one(5) unfolding undone_by_def by blast
    with d1(1) u(3) show "\<exists>d'. restore_inputs V U d (zip (txin # txins) undos) = Inr (True, d') \<and> c_ok d' \<and> c_state d' = (c_state c)\<lparr>st_anchors := a, st_best_anchor := r, st_best_block := z\<rparr>" by simp
  qed
  moreover have "\<exists>m. c_state c' = (c_state c)\<lparr>st_coins := m\<rparr>" using one(3) more(3) by force
  ultimately show ?case using one(4) more u(3) by simp
qed

end

section \<open>A transaction is undone\<close>

lemma IsUnspendable_null: "\<not> IsUnspendable (scriptPubKey txout_null)"
  by (simp add: IsUnspendable_def txout_null_def)

lemma ClearUnspendable_FromTx: "ClearUnspendable (FromTx tx h) = FromTx tx h"
proof -
  let ?f = "\<lambda>txout. if IsUnspendable (scriptPubKey txout) then txout_null else txout"
  have f: "?f (?f out) = ?f out" for out using IsUnspendable_null by simp
  have "?f out = out" if "out \<in> set (drop_null (map ?f (vout tx)))" for out
    using in_set_drop_null [OF that] f by auto
  then have "map ?f (drop_null (map ?f (vout tx))) = drop_null (map ?f (vout tx))" by (intro map_idI)
  moreover have "drop_null (drop_null outs) = drop_null outs" for outs using drop_null_is_clean by (rule drop_null_clean)
  ultimately show ?thesis by (simp add: FromTx_def ClearUnspendable_def Cleanup_def)
qed

lemma FromTx_Cleanup: "Cleanup (FromTx tx h) = FromTx tx h"
  by (simp add: FromTx_def ClearUnspendable_def)

lemma IsPruned_ClearUnspendable: "IsPruned c \<Longrightarrow> IsPruned (ClearUnspendable c)"
  by (auto simp: ClearUnspendable_def IsPruned_def Cleanup_def txout_IsNull_def txout_null_def dest!: in_set_drop_null)

lemma IsPruned_nVersion [simp]: "IsPruned (c\<lparr>cc_nVersion := v\<rparr>) = IsPruned c"
  by (simp add: IsPruned_def)

lemma outs_body_FromTx:
  assumes "unspent (Some x) = unspent (Some (FromTx tx h))"
  shows "outs_body tx h x = Inr (True, coins_empty)"
proof (cases "IsPruned (FromTx tx h)")
  case True
  with assms have "IsPruned (ClearUnspendable x)" by (intro IsPruned_ClearUnspendable) (auto simp: unspent_def split: if_splits)
  with True show ?thesis by (simp add: outs_body_def coins_eq_def Let_def)
next
  case False
  with assms have "x = FromTx tx h" by (auto simp: unspent_def split: if_splits)
  then show ?thesis by (simp add: outs_body_def coins_eq_def Let_def ClearUnspendable_FromTx)
qed

text \<open>What the checks of transactions guarantee of their outputs, and what keeps a coinbase apart.\<close>

definition tx_plain :: "CMutableTransaction \<Rightarrow> bool" where
  "tx_plain tx \<longleftrightarrow>
     (\<forall>out\<in>set (vout tx). \<not> txout_IsNull out) \<and> length (vout tx) < 2 ^ 32 \<and> \<not> tx_IsCoinImport tx \<and>
     (tx_IsCoinBase tx \<longrightarrow> vjoinsplit tx = [] \<and> vShieldedSpend tx = [])"

lemma FromTx_canonical:
  assumes "tx_plain tx" "0 < h" "h < 2 ^ 31"
  shows "coins_canonical (FromTx tx h)"
proof -
  let ?f = "\<lambda>txout. if IsUnspendable (scriptPubKey txout) then txout_null else txout"
  have "length (drop_null (map ?f (vout tx))) < 2 ^ 32"
    using drop_null_nth(3) [of "map ?f (vout tx)"] assms(1) by (simp add: tx_plain_def)
  moreover have "txout_IsNull out \<longrightarrow> out = txout_null" if "out \<in> set (drop_null (map ?f (vout tx)))" for out
    using in_set_drop_null [OF that] assms(1) by (auto simp: tx_plain_def)
  ultimately show ?thesis using FromTx_Cleanup [of tx h] assms(2,3)
    by (simp add: coins_canonical_def) (simp add: FromTx_def ClearUnspendable_def Cleanup_def)
qed

context coins_view
begin

lemma spend_part:
  assumes "c_ok c" "st_good (c_state c)" "(if \<not> tx_IsMint tx then spend_inputs V U c (vin tx) else Inr ([], c)) = Inr (undos, c1)"
  shows "c_ok c1 \<and> st_good (c_state c1) \<and> (\<exists>m. c_state c1 = (c_state c)\<lparr>st_coins := m\<rparr>) \<and>
    (\<forall>k. st_coins (c_state c) k = None \<longrightarrow> st_coins (c_state c1) k = None) \<and>
    (if tx_IsMint tx then c_state c1 = c_state c
     else length undos = length (vin tx) \<and> undone_by c c1 (\<lambda>d. restore_inputs V U d (zip (vin tx) undos)))"
proof (cases "tx_IsMint tx")
  case True
  then have "c1 = c" using assms(3) by simp
  moreover have "\<exists>m. c_state c = (c_state c)\<lparr>st_coins := m\<rparr>" by (rule exI [of _ "st_coins (c_state c)"]) simp
  ultimately show ?thesis using True assms(1,2) by simp
next
  case False
  then have "spend_inputs V U c (vin tx) = Inr (undos, c1)" using assms(3) by simp
  from spend_inputs_undo [OF assms(1,2) this] False show ?thesis by simp
qed

lemma UpdateCoins_undo:
  assumes c: "c_ok c" "st_good (c_state c)" and tx: "tx_plain (ct_tx tx)" "ct_hash tx = Inr h" "0 < nHeight" "nHeight < 2 ^ 31"
    and fresh: "st_coins (c_state c) h = None" "\<And>type. tx_nullifiers (ct_tx tx) type \<inter> st_nullifiers (c_state c) type = {}"
    and u: "UpdateCoins V U tx c nHeight = Inr (undo, c')"
    and uo: "\<not> tx_IsMint (ct_tx tx) \<Longrightarrow> uo = Some undo"
  shows "c_ok c'" "st_good (c_state c')" "\<And>k. k \<noteq> h \<Longrightarrow> st_coins (c_state c) k = None \<Longrightarrow> st_coins (c_state c') k = None"
    "\<exists>m n. c_state c' = (c_state c)\<lparr>st_coins := m, st_nullifiers := n\<rparr>"
    "undone_by c c' (\<lambda>d. disconnect_tx V U nHeight d tx uo)"
proof -
  let ?tx = "ct_tx tx"
  have ni: "\<not> tx_IsCoinImport ?tx" using tx(1) by (simp add: tx_plain_def)
  obtain undos c1 where s: "(if \<not> tx_IsMint ?tx then spend_inputs V U c (vin ?tx) else Inr ([], c)) = Inr (undos, c1)"
    "modify_with V U (SetNullifiers c1 ?tx True) h (\<lambda>_. Inr ((), FromTx ?tx nHeight)) = Inr ((), c')" "undo = \<lparr>vprevout = undos\<rparr>"
    using u tx(2) ni by (auto simp: UpdateCoins_def GetHash_def res_bind_Inr_iff)
  have c1: "c_ok c1" "st_good (c_state c1)" "\<exists>m. c_state c1 = (c_state c)\<lparr>st_coins := m\<rparr>"
    "\<And>k. st_coins (c_state c) k = None \<Longrightarrow> st_coins (c_state c1) k = None"
    "\<not> tx_IsMint ?tx \<Longrightarrow> length undos = length (vin ?tx) \<and> undone_by c c1 (\<lambda>d. restore_inputs V U d (zip (vin ?tx) undos))"
    "tx_IsMint ?tx \<Longrightarrow> c_state c1 = c_state c"
    using spend_part [OF c s(1)] by auto
  note n = SetNullifiers_state [OF c1(1), of ?tx True]
  obtain coins coins' where m: "unspent (Some coins) = st_coins (c_state (SetNullifiers c1 ?tx True)) h" "coins' = FromTx ?tx nHeight" "c_ok c'"
    "c_state c' = (c_state (SetNullifiers c1 ?tx True))\<lparr>st_coins := (st_coins (c_state (SetNullifiers c1 ?tx True)))(h := unspent (Some (Cleanup coins')))\<rparr>"
    by (rule modify_with_Inr [OF n(1) s(2)]) simp
  have c': "c_state c' = (c_state c1)\<lparr>st_coins := (st_coins (c_state c1))(h := unspent (Some (FromTx ?tx nHeight))),
      st_nullifiers := (\<lambda>type. st_nullifiers (c_state c1) type \<union> tx_nullifiers ?tx type)\<rparr>"
    using m(2,4) FromTx_Cleanup by (simp add: n(2))
  show "c_ok c'" by (rule m(3))
  show "st_good (c_state c')" using c1(2) FromTx_canonical [OF tx(1,3,4)] unfolding c' by (auto simp: st_good_def unspent_def split: if_splits)
  show "\<And>k. k \<noteq> h \<Longrightarrow> st_coins (c_state c) k = None \<Longrightarrow> st_coins (c_state c') k = None" using c1(4) by (simp add: c')
  show "\<exists>m n. c_state c' = (c_state c)\<lparr>st_coins := m, st_nullifiers := n\<rparr>" using c1(3) unfolding c' by force
  show "undone_by c c' (\<lambda>d. disconnect_tx V U nHeight d tx uo)" unfolding undone_by_def
  proof (intro allI impI)
    fix d a r z
    assume d: "c_ok d" "c_state d = (c_state c')\<lparr>st_anchors := a, st_best_anchor := r, st_best_block := z\<rparr>"
    obtain x where x: "unspent (Some x) = st_coins (c_state d) h"
      "\<And>y coins'. outs_body ?tx nHeight x = Inr (y, coins') \<Longrightarrow> \<exists>c'. modify_with V U d h (outs_body ?tx nHeight) = Inr (y, c') \<and> c_ok c' \<and>
         c_state c' = (c_state d)\<lparr>st_coins := (st_coins (c_state d))(h := unspent (Some (Cleanup coins')))\<rparr>"
      by (rule modify_with_state [OF d(1), where k = h and body = "outs_body ?tx nHeight" and U = U]) blast
    have "unspent (Some x) = unspent (Some (FromTx ?tx nHeight))" using x(1) d(2) c' by simp
    from x(2) [OF outs_body_FromTx [OF this]] obtain d1 where d1: "modify_with V U d h (outs_body ?tx nHeight) = Inr (True, d1)" "c_ok d1"
      "c_state d1 = (c_state d)\<lparr>st_coins := (st_coins (c_state d))(h := unspent (Some (Cleanup coins_empty)))\<rparr>" by blast
    note d2 = SetNullifiers_state [OF d1(2), of ?tx False]
    have "IsPruned coins_empty" by (simp add: IsPruned_def coins_empty_def)
    then have "unspent (Some (Cleanup coins_empty)) = None" by simp
    moreover have "st_nullifiers (c_state c1) type \<union> tx_nullifiers ?tx type - tx_nullifiers ?tx type = st_nullifiers (c_state c1) type" for type
      using fresh(2) [of type] c1(3) by force
    moreover have "(st_coins (c_state c1))(h := None) = st_coins (c_state c1)" using c1(4) fresh(1) by (simp add: fun_upd_idem)
    ultimately have prior: "c_state (SetNullifiers d1 ?tx False) = (c_state c1)\<lparr>st_anchors := a, st_best_anchor := r, st_best_block := z\<rparr>" using d1(3) d(2) c' by (simp add: d2(2))
    show "\<exists>d'. disconnect_tx V U nHeight d tx uo = Inr (True, d') \<and> c_ok d' \<and> c_state d' = (c_state c)\<lparr>st_anchors := a, st_best_anchor := r, st_best_block := z\<rparr>"
    proof (cases "tx_IsMint ?tx")
      case True
      with c1(6) prior d1(1) d2(1) ni tx(2) show ?thesis by (simp add: disconnect_tx_def GetHash_def)
    next
      case False
      with c1(5) prior d2(1) obtain d' where "restore_inputs V U (SetNullifiers d1 ?tx False) (zip (vin ?tx) undos) = Inr (True, d')" "c_ok d'" "c_state d' = (c_state c)\<lparr>st_anchors := a, st_best_anchor := r, st_best_block := z\<rparr>"
        unfolding undone_by_def by blast
      with False uo s(3) c1(5) d1(1) tx(2) show ?thesis by (simp add: disconnect_tx_def GetHash_def)
    qed
  qed
qed

end

section \<open>The transactions of a block are undone\<close>

text \<open>The undo records that go with the transactions of a block: none for the first.\<close>

definition undo_list :: "bool \<Rightarrow> CTxUndo list \<Rightarrow> CTxUndo option list" where
  "undo_list first us = (if first then None # map Some us else map Some us)"

context coins_reader
begin

lemma spends_ok_keeps:
  "c_ok c \<Longrightarrow> spends_ok V c sds = (f, c') \<Longrightarrow> c_ok c' \<and> c_state c' = c_state c"
proof (induction sds arbitrary: c)
  case (Cons sd sds)
  obtain g c1 where g: "cache_GetNullifier V c (sd_nullifier sd) SAPLING = (g, c1)" by fastforce
  have c1: "c_ok c1" "c_state c1 = c_state c" using cache_GetNullifier_keeps(2) [OF Cons.prems(1) g] by (simp_all add: keeps_def)
  obtain r c2 where r: "cache_GetAnchorAt V c1 SAPLING (sd_anchor sd) = (r, c2)" by fastforce
  have c2: "c_ok c2" "c_state c2 = c_state c" using cache_GetAnchorAt_keeps(2) [OF c1(1) r] c1(2) by (simp_all add: keeps_def)
  from Cons.prems(2) g r Cons.IH [OF c2(1)] c1 c2 show ?case by (auto split: bool.splits option.splits)
qed simp

end

context coins_view
begin

lemma check_inputs_keeps:
  assumes "c_ok c" "check_inputs V U T c tx = Inr c'" "tx_plain tx"
  shows "c_ok c'" "c_state c' = c_state c" "tx_nullifiers tx type \<inter> st_nullifiers (c_state c) type = {}"
proof -
  have "c_ok c' \<and> c_state c' = c_state c \<and> tx_nullifiers tx type \<inter> st_nullifiers (c_state c) type = {}"
  proof (cases "tx_IsMint tx")
    case True
    then have "vjoinsplit tx = []" "vShieldedSpend tx = []" using assms(3) by (auto simp: tx_plain_def tx_IsMint_def)
    with True assms(1,2) show ?thesis by (cases type) (auto simp: check_inputs_def tx_nullifiers_def)
  next
    case False
    obtain f c1 where h: "HaveInputs V U c tx = (f, c1)" by fastforce
    with False assms(2) have f: "f" "lift_coins (HaveJoinSplitRequirements V T c1 tx) = Inr (True, c')"
      by (auto simp: check_inputs_def res_bind_Inr_iff split: bool.splits if_splits)
    from h False have "have_inputs V U c (vin tx) = (f, c1)" by (simp add: HaveInputs_def)
    from have_inputs_keeps [OF assms(1) this] have c1: "c_ok c1" "c_state c1 = c_state c" by (simp_all add: keeps_def)
    from f(2) have j: "HaveJoinSplitRequirements V T c1 tx = Inr (True, c')" by (auto simp: lift_coins_def split: sum.splits)
    then obtain c2 where "joinsplits_ok V (T SPROUT) c1 [] (vjoinsplit tx) = Inr (True, c2)" "spends_ok V c2 (vShieldedSpend tx) = (True, c')"
      by (auto simp: HaveJoinSplitRequirements_def res_bind_Inr_iff split: if_splits)
    with joinsplits_ok_nullifiers [OF c1(1)] spends_ok_keeps c1(2) have "c_ok c'" "c_state c' = c_state c" by (metis)+
    with requirements_nullifiers [OF c1(1) j, of type] c1(2) show ?thesis by simp
  qed
  then show "c_ok c'" "c_state c' = c_state c" "tx_nullifiers tx type \<inter> st_nullifiers (c_state c) type = {}" by simp_all
qed

lemma connect_tx_undo:
  assumes s: "c_ok (cn_view s)" "st_good (c_state (cn_view s))" and tx: "tx_plain (ct_tx tx)" "ct_hash tx = Inr h" "0 < nHeight" "nHeight < 2 ^ 31"
    and first: "first \<Longrightarrow> tx_IsMint (ct_tx tx)" and fresh: "st_coins (c_state (cn_view s)) h = None"
    and ct: "connect_tx V U T nHeight first s tx = Inr s'"
  obtains uo where "c_ok (cn_view s')" "st_good (c_state (cn_view s'))"
    "\<And>k. k \<noteq> h \<Longrightarrow> st_coins (c_state (cn_view s)) k = None \<Longrightarrow> st_coins (c_state (cn_view s')) k = None"
    "\<exists>m n. c_state (cn_view s') = (c_state (cn_view s))\<lparr>st_coins := m, st_nullifiers := n\<rparr>"
    "undone_by (cn_view s) (cn_view s') (\<lambda>d. disconnect_tx V U nHeight d tx (if first then None else Some uo))"
    "cn_undo s' = (if first then cn_undo s else cn_undo s @ [uo])"
proof -
  obtain c undo c' where c: "check_inputs V U T (cn_view s) (ct_tx tx) = Inr c" "UpdateCoins V U tx c nHeight = Inr (undo, c')"
    and s': "cn_view s' = c'" "cn_undo s' = (if first then cn_undo s else cn_undo s @ [undo])"
    using ct by (auto simp: connect_tx_def res_bind_Inr_iff)
  note k = check_inputs_keeps [OF s(1) c(1) tx(1)]
  have uo: "\<not> tx_IsMint (ct_tx tx) \<Longrightarrow> (if first then None else Some undo) = Some undo" using first by auto
  note u = UpdateCoins_undo [OF k(1) _ tx _ _ c(2) uo, unfolded k(2), OF s(2) _ k(3), OF fresh]
  show thesis using that [of undo] u s' by (simp add: undone_by_def k(2))
qed

lemma connect_txs_undo:
  assumes "0 < nHeight" "nHeight < 2 ^ 31"
  shows "c_ok (cn_view s) \<Longrightarrow> st_good (c_state (cn_view s)) \<Longrightarrow> \<forall>tx\<in>set vtx. tx_plain (ct_tx tx) \<and> (\<exists>h. ct_hash tx = Inr h) \<Longrightarrow>
    distinct (map ct_hash vtx) \<Longrightarrow> \<forall>tx\<in>set vtx. st_coins (c_state (cn_view s)) (projr (ct_hash tx)) = None \<Longrightarrow>
    (first \<Longrightarrow> vtx \<noteq> [] \<and> tx_IsMint (ct_tx (hd vtx))) \<Longrightarrow> connect_txs V U T nHeight first s vtx = Inr s' \<Longrightarrow>
    \<exists>us. cn_undo s' = cn_undo s @ us \<and> length (undo_list first us) = length vtx \<and> c_ok (cn_view s') \<and>
      (\<exists>m n. c_state (cn_view s') = (c_state (cn_view s))\<lparr>st_coins := m, st_nullifiers := n\<rparr>) \<and>
      undone_by (cn_view s) (cn_view s') (\<lambda>d. disconnect_txs V U nHeight d (zip vtx (undo_list first us)))"
proof (induction vtx arbitrary: s first)
  case Nil
  moreover have "\<exists>m n. A = A\<lparr>st_coins := m, st_nullifiers := n\<rparr>" for A :: chain_state
    by (rule exI [of _ "st_coins A"], rule exI [of _ "st_nullifiers A"]) simp
  ultimately show ?case by (auto simp: undone_by_def undo_list_def)
next
  case (Cons tx vtx)
  from Cons.prems(3) obtain h where tx: "tx_plain (ct_tx tx)" "ct_hash tx = Inr h" by auto
  from Cons.prems(7) obtain s1 where s1: "connect_tx V U T nHeight first s tx = Inr s1" "connect_txs V U T nHeight False s1 vtx = Inr s'"
    by (auto simp: res_bind_Inr_iff)
  have fresh: "st_coins (c_state (cn_view s)) h = None" using Cons.prems(5) tx(2) by auto
  have first: "first \<Longrightarrow> tx_IsMint (ct_tx tx)" using Cons.prems(6) by simp
  obtain uo where one: "c_ok (cn_view s1)" "st_good (c_state (cn_view s1))"
    "\<And>k. k \<noteq> h \<Longrightarrow> st_coins (c_state (cn_view s)) k = None \<Longrightarrow> st_coins (c_state (cn_view s1)) k = None"
    "\<exists>m n. c_state (cn_view s1) = (c_state (cn_view s))\<lparr>st_coins := m, st_nullifiers := n\<rparr>"
    "undone_by (cn_view s) (cn_view s1) (\<lambda>d. disconnect_tx V U nHeight d tx (if first then None else Some uo))"
    "cn_undo s1 = (if first then cn_undo s else cn_undo s @ [uo])"
    by (rule connect_tx_undo [OF Cons.prems(1,2) tx assms first fresh s1(1)]) blast+
  have "\<forall>tx'\<in>set vtx. st_coins (c_state (cn_view s1)) (projr (ct_hash tx')) = None"
  proof
    fix tx'
    assume t: "tx' \<in> set vtx"
    then obtain h' where "ct_hash tx' = Inr h'" using Cons.prems(3) by auto
    moreover have "ct_hash tx \<notin> ct_hash ` set vtx" using Cons.prems(4) by simp
    then have "ct_hash tx' \<noteq> ct_hash tx" using t by (metis imageI)
    ultimately show "st_coins (c_state (cn_view s1)) (projr (ct_hash tx')) = None"
      using one(3) [of h'] Cons.prems(5) t tx(2) by fastforce
  qed
  with Cons.IH [OF one(1,2) _ _ _ _ s1(2)] Cons.prems(3,4) obtain us where us: "cn_undo s' = cn_undo s1 @ us" "length us = length vtx" "c_ok (cn_view s')"
    "\<exists>m n. c_state (cn_view s') = (c_state (cn_view s1))\<lparr>st_coins := m, st_nullifiers := n\<rparr>"
    "undone_by (cn_view s1) (cn_view s') (\<lambda>d. disconnect_txs V U nHeight d (zip vtx (map Some us)))"
    by (auto simp: undo_list_def)
  define us' where "us' = (if first then us else uo # us)"
  have ul: "undo_list first us' = (if first then None else Some uo) # map Some us" by (simp add: undo_list_def us'_def)
  have "undone_by (cn_view s) (cn_view s') (\<lambda>d. disconnect_txs V U nHeight d (zip (tx # vtx) (undo_list first us')))" unfolding undone_by_def
  proof (intro allI impI)
    fix d a r z
    assume d: "c_ok d" "c_state d = (c_state (cn_view s'))\<lparr>st_anchors := a, st_best_anchor := r, st_best_block := z\<rparr>"
    with us(5) obtain d1 where d1: "disconnect_txs V U nHeight d (zip vtx (map Some us)) = Inr (True, d1)" "c_ok d1" "c_state d1 = (c_state (cn_view s1))\<lparr>st_anchors := a, st_best_anchor := r, st_best_block := z\<rparr>"
      unfolding undone_by_def by blast
    with one(5) obtain d2 where "disconnect_tx V U nHeight d1 tx (if first then None else Some uo) = Inr (True, d2)" "c_ok d2" "c_state d2 = (c_state (cn_view s))\<lparr>st_anchors := a, st_best_anchor := r, st_best_block := z\<rparr>"
      unfolding undone_by_def by blast
    with d1(1) show "\<exists>d'. disconnect_txs V U nHeight d (zip (tx # vtx) (undo_list first us')) = Inr (True, d') \<and> c_ok d' \<and> c_state d' = (c_state (cn_view s))\<lparr>st_anchors := a, st_best_anchor := r, st_best_block := z\<rparr>"
      by (simp add: ul)
  qed
  moreover have "\<exists>m n. c_state (cn_view s') = (c_state (cn_view s))\<lparr>st_coins := m, st_nullifiers := n\<rparr>"
    using one(4) us(4) by force
  ultimately show ?case using us(1-3) one(6) ul by (intro exI [of _ us']) (simp add: us'_def)
qed

end

section \<open>A block is undone\<close>

definition block_commitments :: "CTransaction list \<Rightarrow> ShieldedType \<Rightarrow> uint256 list" where
  "block_commitments vtx type =
     (case type of
        SPROUT \<Rightarrow> concat (map (\<lambda>tx. concat (map js_commitments (vjoinsplit (ct_tx tx)))) vtx)
      | SAPLING \<Rightarrow> concat (map (\<lambda>tx. map od_cm (vShieldedOutput (ct_tx tx))) vtx))"

text \<open>
  What the anchors rest on: the tree a block's commitments give is the one its root stands for, and its root
  is not an anchor already, unless the block adds no commitments.
\<close>

definition anchors_fit :: "(ShieldedType \<Rightarrow> tree_params) \<Rightarrow> (ShieldedType \<Rightarrow> uint256 \<Rightarrow> MerkleTree) \<Rightarrow> chain_state \<Rightarrow> CTransaction list \<Rightarrow> bool" where
  "anchors_fit T tree_of A vtx \<longleftrightarrow>
     (\<forall>type. st_best_anchor A type \<noteq> uint256_null \<and>
        (\<forall>t. tree_append_all (T type) (tree_of type (st_best_anchor A type)) (block_commitments vtx type) = Inr t \<longrightarrow>
           tree_of type (tp_root (T type) t) = t \<and> tp_root (T type) t \<noteq> uint256_null \<and>
           (tp_root (T type) t = st_best_anchor A type \<or> tp_root (T type) t \<notin> st_anchors A type)))"

lemma tree_append_all_append: "tree_append_all p t (xs @ ys) = res_bind (tree_append_all p t xs) (\<lambda>t. tree_append_all p t ys)"
  by (induction xs arbitrary: t) (auto simp: res_bind_def split: sum.splits)

lemma lift_tree_Inr [simp]: "lift_tree r = Inr x \<longleftrightarrow> r = Inr x"
  by (auto simp: lift_tree_def split: sum.splits)

lemma connect_txs_trees:
  "connect_txs V U T nHeight first s vtx = Inr s' \<Longrightarrow>
    tree_append_all (T SPROUT) (cn_sprout s) (block_commitments vtx SPROUT) = Inr (cn_sprout s') \<and>
    tree_append_all (T SAPLING) (cn_sapling s) (block_commitments vtx SAPLING) = Inr (cn_sapling s')"
  by (induction vtx arbitrary: s first)
    (fastforce simp: block_commitments_def connect_tx_def res_bind_Inr_iff tree_append_all_append)+

context coins_view
begin

lemma overwrites_keeps:
  "c_ok c \<Longrightarrow> overwrites V U c vtx = Inr (False, c') \<Longrightarrow>
    c_ok c' \<and> c_state c' = c_state c \<and> (\<forall>tx\<in>set vtx. \<exists>h. ct_hash tx = Inr h \<and> st_coins (c_state c) h = None)"
proof (induction vtx arbitrary: c)
  case (Cons tx vtx)
  from Cons.prems(2) obtain h where h: "ct_hash tx = Inr h" by (auto simp: GetHash_def split: sum.splits)
  obtain r c1 where r: "FetchCoins V U c h = (r, c1)" by fastforce
  note k = FetchCoins_keeps [OF Cons.prems(1) r]
  have c1: "c_ok c1" "c_state c1 = c_state c" using k(3) by (simp_all add: keeps_def)
  have "unspent r = None" "overwrites V U c1 vtx = Inr (False, c')"
    using Cons.prems(2) h r by (auto simp: GetHash_def AccessCoins_def split: option.splits if_splits)
  with Cons.IH [OF c1(1)] k(1) c1(2) h show ?case by auto
qed simp

lemma best_tree_keeps:
  assumes "c_ok c" "best_tree V c type = Inr (rt, t, c')"
  shows "c_ok c'" "c_state c' = c_state c" "rt = st_best_anchor (c_state c) type" "t = tree_of type rt"
proof -
  obtain rt' c1 where g: "cache_GetBestAnchor V c type = (rt', c1)" by fastforce
  note k = cache_GetBestAnchor_keeps [OF assms(1) g]
  have c1: "c_ok c1" "c_state c1 = c_state c" using k(2) by (simp_all add: keeps_def)
  obtain r c2 where a: "cache_GetAnchorAt V c1 type rt' = (r, c2)" by fastforce
  note k2 = cache_GetAnchorAt_keeps [OF c1(1) a]
  have "rt = rt'" "r = Some t" "c' = c2" using assms(2) g a by (auto simp: best_tree_def split: option.splits)
  with k(1) k2 c1 show "c_ok c'" "c_state c' = c_state c" "rt = st_best_anchor (c_state c) type" "t = tree_of type rt"
    by (auto simp: keeps_def split: if_splits)
qed

text \<open>Popping brings back the anchor from before a push, whether or not the push had an effect.\<close>

lemma PopAnchor_back:
  assumes d: "c_ok d" "empty_rt = (\<lambda>type. tp_empty_root (T type))" "old \<noteq> uint256_null"
    and A: "st_best_anchor (c_state d) type = rt" "st_anchors (c_state d) type = (if rt = old then B else insert rt B)"
    and B: "rt = old \<or> rt \<notin> B" "empty_rt type \<in> B"
  shows "\<exists>d'. PopAnchor V d old type = Inr d' \<and> c_ok d' \<and>
    c_state d' = (c_state d)\<lparr>st_anchors := (st_anchors (c_state d))(type := B), st_best_anchor := (st_best_anchor (c_state d))(type := old)\<rparr>"
proof (cases "rt = old")
  case True
  obtain h c1 where g: "cache_GetBestAnchor V d type = (h, c1)" by fastforce
  note k = cache_GetBestAnchor_keeps [OF d(1) g]
  with True A g show ?thesis by (auto simp: PopAnchor_def keeps_def)
next
  case False
  then have "st_best_anchor (c_state d) type \<noteq> empty_rt type" "rt \<in> st_anchors (c_state d) type" using A B by auto
  with PopAnchor_state [OF d(1,3), of type] False A B show ?thesis by auto
qed

end

lemma upd_both: "f(SPROUT := g SPROUT, SAPLING := g SAPLING) = (g :: ShieldedType \<Rightarrow> 'a)"
proof (rule ext)
  show "(f(SPROUT := g SPROUT, SAPLING := g SAPLING)) type = g type" for type by (cases type) simp_all
qed

lemma ConnectBlock_steps:
  assumes "ConnectBlock V U T vtx hash nHeight hashPrev c = Inr (bu, c')" "cache_GetBestBlock V c = (best, c0)"
  obtains c1 c2 c3 rt sprout rt2 sapling s' where "hashPrev = best" "overwrites V U c0 vtx = Inr (False, c1)"
    "best_tree V c1 SPROUT = Inr (rt, sprout, c2)" "best_tree V c2 SAPLING = Inr (rt2, sapling, c3)"
    "connect_txs V U T nHeight True \<lparr>cn_view = c3, cn_undo = [], cn_sprout = sprout, cn_sapling = sapling\<rparr> vtx = Inr s'"
    "bu = \<lparr>vtxundo = cn_undo s', old_sprout_tree_root = rt\<rparr>"
    "c' = SetBestBlock (PushAnchor V T (PushAnchor V T (cn_view s') SPROUT (cn_sprout s')) SAPLING (cn_sapling s')) hash"
proof -
  note c = assms(1) [unfolded ConnectBlock_def assms(2) Let_def prod.case]
  have best: "hashPrev = best" using c by (rule contrapos_pp) simp
  obtain f c1 where o: "overwrites V U c0 vtx = Inr (f, c1)" using c best by (cases "overwrites V U c0 vtx") auto
  have f: "f = False" using c best o by (cases f) auto
  obtain rt sprout c2 where b1: "best_tree V c1 SPROUT = Inr (rt, sprout, c2)" using c best o f by (cases "best_tree V c1 SPROUT") auto
  have rt: "tp_root (T SPROUT) sprout = rt" using c best o f b1 by (cases "tp_root (T SPROUT) sprout = rt") auto
  obtain rt2 sapling c3 where b2: "best_tree V c2 SAPLING = Inr (rt2, sapling, c3)"
    using c best o f b1 rt by (cases "best_tree V c2 SAPLING") auto
  let ?s = "\<lparr>cn_view = c3, cn_undo = [], cn_sprout = sprout, cn_sapling = sapling\<rparr>"
  obtain s' where s': "connect_txs V U T nHeight True ?s vtx = Inr s'"
    using c best o f b1 rt b2 by (cases "connect_txs V U T nHeight True ?s vtx") auto
  from c best o f b1 rt b2 s' have "bu = \<lparr>vtxundo = cn_undo s', old_sprout_tree_root = rt\<rparr>"
    "c' = SetBestBlock (PushAnchor V T (PushAnchor V T (cn_view s') SPROUT (cn_sprout s')) SAPLING (cn_sapling s')) hash" by simp_all
  with that [OF best o [unfolded f] b1 b2 s'] show thesis by blast
qed

lemma PopAnchor_hash: "PopAnchor V c rt type = Inr c' \<Longrightarrow> hashAnchor c' = (hashAnchor c)(type := rt)"
  by (auto simp: PopAnchor_def cache_GetBestAnchor_def cache_GetAnchorAt_def Let_def split: prod.splits if_splits option.splits)

lemma anchors_fitD:
  assumes "anchors_fit T tree_of A vtx" "tree_append_all (T type) (tree_of type (st_best_anchor A type)) (block_commitments vtx type) = Inr t"
  shows "tree_of type (tp_root (T type) t) = t" "tp_root (T type) t \<noteq> uint256_null"
    "tp_root (T type) t = st_best_anchor A type \<or> tp_root (T type) t \<notin> st_anchors A type"
  using assms unfolding anchors_fit_def by blast+

context coins_view
begin

text \<open>The state a connected block leaves.\<close>

lemma ConnectBlock_state:
  assumes c: "c_ok c" "st_good (c_state c)" and fit: "anchors_fit T tree_of (c_state c) vtx"
    and vtx: "vtx \<noteq> []" "tx_IsMint (ct_tx (hd vtx))" "\<forall>tx\<in>set vtx. tx_plain (ct_tx tx)" "distinct (map ct_hash vtx)"
    and h: "0 < nHeight" "nHeight < 2 ^ 31" "hash \<noteq> uint256_null"
    and con: "ConnectBlock V U T vtx hash nHeight hashPrev c = Inr (bu, c')"
  obtains v v' rts where "c_ok c'" "c_state v = c_state c" "hashPrev = st_best_block (c_state c)"
    "c_state c' = (c_state v')\<lparr>st_anchors := (\<lambda>type. if rts type = st_best_anchor (c_state c) type then st_anchors (c_state c) type else insert (rts type) (st_anchors (c_state c) type)),
       st_best_anchor := rts, st_best_block := hash\<rparr>"
    "\<And>type. rts type = st_best_anchor (c_state c) type \<or> rts type \<notin> st_anchors (c_state c) type"
    "old_sprout_tree_root bu = st_best_anchor (c_state c) SPROUT" "length (vtxundo bu) + 1 = length vtx"
    "undone_by v v' (\<lambda>d. disconnect_txs V U nHeight d (zip vtx (None # map Some (vtxundo bu))))"
    "hashBlock c' = hash" "\<And>type. hashAnchor c' type \<noteq> uint256_null"
proof -
  let ?A = "c_state c"
  obtain best c0 where b: "cache_GetBestBlock V c = (best, c0)" by fastforce
  have c0: "c_ok c0" "c_state c0 = ?A" "best = st_best_block ?A" using cache_GetBestBlock_keeps [OF c(1) b] by (simp_all add: keeps_def)
  obtain c1 c2 c3 rt sprout rt2 sapling s' where st: "hashPrev = best" "overwrites V U c0 vtx = Inr (False, c1)"
    "best_tree V c1 SPROUT = Inr (rt, sprout, c2)" "best_tree V c2 SAPLING = Inr (rt2, sapling, c3)"
    "connect_txs V U T nHeight True \<lparr>cn_view = c3, cn_undo = [], cn_sprout = sprout, cn_sapling = sapling\<rparr> vtx = Inr s'"
    "bu = \<lparr>vtxundo = cn_undo s', old_sprout_tree_root = rt\<rparr>"
    "c' = SetBestBlock (PushAnchor V T (PushAnchor V T (cn_view s') SPROUT (cn_sprout s')) SAPLING (cn_sapling s')) hash"
    by (rule ConnectBlock_steps [OF con b]) blast
  have c1: "c_ok c1" "c_state c1 = ?A" "\<forall>tx\<in>set vtx. \<exists>h. ct_hash tx = Inr h \<and> st_coins ?A h = None"
    using overwrites_keeps [OF c0(1) st(2)] c0(2) by auto
  note t1 = best_tree_keeps [OF c1(1) st(3), unfolded c1(2)]
  note t2 = best_tree_keeps [OF t1(1) st(4), unfolded t1(2)]
  let ?s = "\<lparr>cn_view = c3, cn_undo = [], cn_sprout = sprout, cn_sapling = sapling\<rparr>"
  have "\<exists>us. cn_undo s' = cn_undo ?s @ us \<and> length (undo_list True us) = length vtx \<and> c_ok (cn_view s') \<and>
      (\<exists>m n. c_state (cn_view s') = (c_state (cn_view ?s))\<lparr>st_coins := m, st_nullifiers := n\<rparr>) \<and>
      undone_by (cn_view ?s) (cn_view s') (\<lambda>d. disconnect_txs V U nHeight d (zip vtx (undo_list True us)))"
  proof (rule connect_txs_undo [OF h(1,2) _ _ _ vtx(4) _ _ st(5)])
    show "c_ok (cn_view ?s)" "st_good (c_state (cn_view ?s))" using t2(1,2) c(2) by simp_all
    show "\<forall>tx\<in>set vtx. tx_plain (ct_tx tx) \<and> (\<exists>h. ct_hash tx = Inr h)" using vtx(3) c1(3) by blast
    show "\<forall>tx\<in>set vtx. st_coins (c_state (cn_view ?s)) (projr (ct_hash tx)) = None" using c1(3) t2(2) by fastforce
    show "vtx \<noteq> [] \<and> tx_IsMint (ct_tx (hd vtx))" using vtx(1,2) by simp
  qed
  then obtain us m n where us: "cn_undo s' = us" "length us + 1 = length vtx" "c_ok (cn_view s')"
    "c_state (cn_view s') = ?A\<lparr>st_coins := m, st_nullifiers := n\<rparr>"
    "undone_by c3 (cn_view s') (\<lambda>d. disconnect_txs V U nHeight d (zip vtx (None # map Some us)))"
    using t2(2) by (auto simp: undo_list_def)
  note trees = connect_txs_trees [OF st(5)]
  define rts where "rts = (\<lambda>type. tp_root (T type) (case type of SPROUT \<Rightarrow> cn_sprout s' | SAPLING \<Rightarrow> cn_sapling s'))"
  have r: "tree_of SPROUT (tp_root (T SPROUT) (cn_sprout s')) = cn_sprout s'" "tp_root (T SPROUT) (cn_sprout s') \<noteq> uint256_null"
    "tree_of SAPLING (tp_root (T SAPLING) (cn_sapling s')) = cn_sapling s'" "tp_root (T SAPLING) (cn_sapling s') \<noteq> uint256_null"
    and new: "\<And>type. rts type = st_best_anchor ?A type \<or> rts type \<notin> st_anchors ?A type"
    using anchors_fitD [OF fit, of SPROUT "cn_sprout s'"] anchors_fitD [OF fit, of SAPLING "cn_sapling s'"] trees t1(3,4) t2(3,4)
    unfolding rts_def by (simp_all split: ShieldedType.split)
  note p1 = PushAnchor_state [where T = T and type = SPROUT and t = "cn_sprout s'", OF us(3) r(1,2)]
  note p2 = PushAnchor_state [where T = T and type = SAPLING and t = "cn_sapling s'", OF p1(1) r(3,4)]
  note p3 = SetBestBlock_state [OF p2(1) h(3)]
  show thesis
  proof (rule that [where v = c3 and v' = "cn_view s'" and rts = rts])
    show "c_ok c'" using p3(1) by (simp add: st(7))
    show "c_state c3 = c_state c" by (rule t2(2))
    show "hashPrev = st_best_block ?A" using st(1) c0(3) by simp
    show "c_state c' = (c_state (cn_view s'))\<lparr>st_anchors := (\<lambda>type. if rts type = st_best_anchor ?A type then st_anchors ?A type else insert (rts type) (st_anchors ?A type)),
       st_best_anchor := rts, st_best_block := hash\<rparr>"
      unfolding st(7) p3(2) p2(2) p1(2) us(4) by (auto simp: rts_def fun_eq_iff split: ShieldedType.split)
    show "hashBlock c' = hash" by (simp add: st(7) SetBestBlock_def)
    show "hashAnchor c' type \<noteq> uint256_null" for type
      using r(2,4) by (cases type) (simp_all add: st(7) SetBestBlock_def PushAnchor_hash)
  qed (use new us st(6) t1(3) in auto)
qed

lemma disconnect_connect:
  assumes e: "empty_rt = (\<lambda>type. tp_empty_root (T type))" and c: "c_ok c" "st_good (c_state c)" and fit: "anchors_fit T tree_of (c_state c) vtx"
    and vtx: "vtx \<noteq> []" "tx_IsMint (ct_tx (hd vtx))" "\<forall>tx\<in>set vtx. tx_plain (ct_tx tx)" "distinct (map ct_hash vtx)"
    and h: "0 < nHeight" "nHeight < 2 ^ 31" "hash \<noteq> uint256_null" "hashPrev \<noteq> uint256_null"
    and con: "ConnectBlock V U T vtx hash nHeight hashPrev c = Inr (bu, c')"
    and d: "c_ok d" "c_state d = c_state c'"
  shows "\<exists>d'. DisconnectBlock V U vtx hash nHeight hashPrev (st_best_anchor (c_state c) SAPLING) (Some bu) d = Inr (True, d') \<and>
    c_ok d' \<and> c_state d' = c_state c \<and> hashBlock d' = hashPrev \<and> hashAnchor d' = st_best_anchor (c_state c)"
proof -
  let ?A = "c_state c"
  obtain v v' rts where s: "c_ok c'" "c_state v = ?A" "hashPrev = st_best_block ?A"
    "c_state c' = (c_state v')\<lparr>st_anchors := (\<lambda>type. if rts type = st_best_anchor ?A type then st_anchors ?A type else insert (rts type) (st_anchors ?A type)),
       st_best_anchor := rts, st_best_block := hash\<rparr>"
    "\<And>type. rts type = st_best_anchor ?A type \<or> rts type \<notin> st_anchors ?A type"
    "old_sprout_tree_root bu = st_best_anchor ?A SPROUT" "length (vtxundo bu) + 1 = length vtx"
    "undone_by v v' (\<lambda>d. disconnect_txs V U nHeight d (zip vtx (None # map Some (vtxundo bu))))"
    by (rule ConnectBlock_state [OF c fit vtx h(1-3) con]) blast
  let ?a = "\<lambda>type. if rts type = st_best_anchor ?A type then st_anchors ?A type else insert (rts type) (st_anchors ?A type)"
  obtain best d0 where b: "cache_GetBestBlock V d = (best, d0)" by fastforce
  have d0: "c_ok d0" "c_state d0 = c_state c'" "best = hash" using cache_GetBestBlock_keeps [OF d(1) b] d(2) s(4) by (simp_all add: keeps_def)
  have old: "st_best_anchor ?A type \<noteq> uint256_null" "empty_rt type \<in> st_anchors ?A type" for type
    using fit coins_view.empty_anchor [OF cache_view c(1)] by (auto simp: anchors_fit_def)
  obtain d1 where d1: "disconnect_txs V U nHeight d0 (zip vtx (None # map Some (vtxundo bu))) = Inr (True, d1)" "c_ok d1"
    "c_state d1 = ?A\<lparr>st_anchors := ?a, st_best_anchor := rts, st_best_block := hash\<rparr>"
    using s(8) [unfolded undone_by_def, rule_format, OF d0(1) d0(2) [unfolded s(4)]] unfolding s(2) by blast
  have a1: "st_best_anchor (c_state d1) SPROUT = rts SPROUT"
    "st_anchors (c_state d1) SPROUT = (if rts SPROUT = st_best_anchor ?A SPROUT then st_anchors ?A SPROUT else insert (rts SPROUT) (st_anchors ?A SPROUT))"
    by (simp_all add: d1(3))
  from PopAnchor_back [OF d1(2) e old(1) a1 s(5) old(2)] obtain d2 where d2: "PopAnchor V d1 (st_best_anchor ?A SPROUT) SPROUT = Inr d2" "c_ok d2"
    "c_state d2 = (c_state d1)\<lparr>st_anchors := (st_anchors (c_state d1))(SPROUT := st_anchors ?A SPROUT),
       st_best_anchor := (st_best_anchor (c_state d1))(SPROUT := st_best_anchor ?A SPROUT)\<rparr>" by blast
  have a2: "st_best_anchor (c_state d2) SAPLING = rts SAPLING"
    "st_anchors (c_state d2) SAPLING = (if rts SAPLING = st_best_anchor ?A SAPLING then st_anchors ?A SAPLING else insert (rts SAPLING) (st_anchors ?A SAPLING))"
    by (simp_all add: d1(3) d2(3))
  from PopAnchor_back [OF d2(2) e old(1) a2 s(5) old(2)] obtain d3 where d3: "PopAnchor V d2 (st_best_anchor ?A SAPLING) SAPLING = Inr d3" "c_ok d3"
    "c_state d3 = (c_state d2)\<lparr>st_anchors := (st_anchors (c_state d2))(SAPLING := st_anchors ?A SAPLING),
       st_best_anchor := (st_best_anchor (c_state d2))(SAPLING := st_best_anchor ?A SAPLING)\<rparr>" by blast
  have "DisconnectBlock V U vtx hash nHeight hashPrev (st_best_anchor ?A SAPLING) (Some bu) d = Inr (True, SetBestBlock d3 hashPrev)"
    using b d0(3) s(6,7) d1(1) d2(1) d3(1) by (simp add: DisconnectBlock_def lift_coins_def)
  moreover have "c_state (SetBestBlock d3 hashPrev) = ?A"
    unfolding SetBestBlock_state(2) [OF d3(2) h(4)] by (simp add: d3(3) d2(3) d1(3) upd_both s(3))
  moreover have "hashBlock (SetBestBlock d3 hashPrev) = hashPrev" "hashAnchor (SetBestBlock d3 hashPrev) = st_best_anchor ?A"
    using PopAnchor_hash [OF d2(1)] PopAnchor_hash [OF d3(1)] by (simp_all add: SetBestBlock_def upd_both)
  ultimately show ?thesis using SetBestBlock_state(1) [OF d3(2) h(4)] by blast
qed

end

end
