(* ===== verification/ConnectBlockProps.thy ===== *)
theory ConnectBlockProps
  imports ConnectUndo
begin

text \<open>
  Connecting runs without failing assertions, and the properties of connecting and disconnecting on the views the node
  uses: a fresh view over the cache of the tip, which lies over the database.
\<close>

section \<open>Connecting fails no assertion\<close>

text \<open>The ways in which connecting may refuse a block: all other errors are failing assertions.\<close>

fun rejection :: "connect_error \<Rightarrow> bool" where
  "rejection (AppendError e) = True"
| "rejection (CoinsError (TreeError e)) = True"
| "rejection e = (e \<in> {NotBestBlock, Overwrites, MissingInputs, JoinSplitRequirements})"

definition available :: "chain_state \<Rightarrow> COutPoint \<Rightarrow> bool" where
  "available A out \<longleftrightarrow> (\<exists>coins. st_coins A (op_hash out) = Some coins \<and> IsAvailable coins (unat (op_n out)))"

context coins_view
begin

lemma spend_input_runs:
  assumes "c_ok c" "available (c_state c) out"
  shows "\<exists>undo c'. modify_with V U c (op_hash out) (spend_body (unat (op_n out))) = Inr (undo, c') \<and> c_ok c' \<and>
    (\<forall>out'. out' \<noteq> out \<longrightarrow> available (c_state c) out' \<longrightarrow> available (c_state c') out')"
proof -
  obtain coins0 where st: "st_coins (c_state c) (op_hash out) = Some coins0" "IsAvailable coins0 (unat (op_n out))"
    using assms(2) by (auto simp: available_def)
  obtain coins where m: "unspent (Some coins) = st_coins (c_state c) (op_hash out)"
    "\<And>x coins'. spend_body (unat (op_n out)) coins = Inr (x, coins') \<Longrightarrow> \<exists>c'. modify_with V U c (op_hash out) (spend_body (unat (op_n out))) = Inr (x, c') \<and> c_ok c' \<and>
       c_state c' = (c_state c)\<lparr>st_coins := (st_coins (c_state c))(op_hash out := unspent (Some (Cleanup coins')))\<rparr>"
    by (rule modify_with_state [OF assms(1), where k = "op_hash out" and body = "spend_body (unat (op_n out))" and U = U]) blast
  have eq: "coins = coins0" using m(1) st(1) by (auto simp: unspent_def split: if_splits)
  obtain coins' where sp: "Spend coins (unat (op_n out)) = Some coins'" using Spend_None_iff [of coins "unat (op_n out)"] st(2) eq by auto
  then obtain undo where sb: "spend_body (unat (op_n out)) coins = Inr (undo, coins')" by (auto simp: spend_body_def Let_def Spend_def split: if_splits)
  obtain c' where c': "modify_with V U c (op_hash out) (spend_body (unat (op_n out))) = Inr (undo, c')" "c_ok c'"
    "c_state c' = (c_state c)\<lparr>st_coins := (st_coins (c_state c))(op_hash out := unspent (Some (Cleanup coins')))\<rparr>"
    using m(2) [OF sb] by blast
  have "available (c_state c') out'" if "out' \<noteq> out" "available (c_state c) out'" for out'
  proof (cases "op_hash out' = op_hash out")
    case True
    then have n: "unat (op_n out') \<noteq> unat (op_n out)" using that(1) by (cases out; cases out') (auto simp: word_unat_eq_iff)
    have "IsAvailable coins (unat (op_n out'))" using that(2) True st(1) eq by (auto simp: available_def)
    then have av: "IsAvailable coins' (unat (op_n out'))" using IsAvailable_Spend [OF sp] n by simp
    then have "\<not> IsPruned (Cleanup coins')" by (auto simp: IsPruned_iff)
    with av True show ?thesis by (simp add: available_def c'(3))
  qed (use that in \<open>simp add: available_def c'(3)\<close>)
  with c' show ?thesis by blast
qed

lemma spend_inputs_runs:
  "c_ok c \<Longrightarrow> distinct (map prevout txins) \<Longrightarrow> \<forall>i\<in>set txins. available (c_state c) (prevout i) \<Longrightarrow>
    \<exists>undos c'. spend_inputs V U c txins = Inr (undos, c') \<and> c_ok c'"
proof (induction txins arbitrary: c)
  case (Cons txin txins)
  from Cons.prems(3) have "available (c_state c) (prevout txin)" by simp
  from spend_input_runs [OF Cons.prems(1) this, of U] obtain undo c1 where
    c1: "modify_with V U c (op_hash (prevout txin)) (spend_body (unat (op_n (prevout txin)))) = Inr (undo, c1)" "c_ok c1"
      "\<And>out'. out' \<noteq> prevout txin \<Longrightarrow> available (c_state c) out' \<Longrightarrow> available (c_state c1) out'" by blast
  have "prevout txin \<notin> prevout ` set txins" using Cons.prems(2) by simp
  then have "\<forall>i\<in>set txins. available (c_state c1) (prevout i)" using Cons.prems(3) by (intro ballI c1(3)) (auto simp: image_iff)
  with Cons.IH [OF c1(2)] Cons.prems(2) c1(1) show ?case by auto
qed simp

lemma modify_const_runs:
  assumes "c_ok c"
  shows "\<exists>c'. modify_with V U c k (\<lambda>_. Inr ((), coins')) = Inr ((), c') \<and> c_ok c' \<and>
    c_state c' = (c_state c)\<lparr>st_coins := (st_coins (c_state c))(k := unspent (Some (Cleanup coins')))\<rparr>"
  by (rule modify_with_state [OF assms, where k = k and body = "\<lambda>_. Inr ((), coins')" and U = U]) blast

lemma UpdateCoins_runs:
  assumes "c_ok c" "\<not> tx_IsCoinImport (ct_tx tx)" "ct_hash tx = Inr h"
    "\<not> tx_IsMint (ct_tx tx) \<Longrightarrow> distinct (map prevout (vin (ct_tx tx))) \<and> (\<forall>i\<in>set (vin (ct_tx tx)). available (c_state c) (prevout i))"
  shows "\<exists>undo c'. UpdateCoins V U tx c nHeight = Inr (undo, c') \<and> c_ok c' \<and>
    (tx_IsMint (ct_tx tx) \<longrightarrow> st_coins (c_state c') = (st_coins (c_state c))(h := unspent (Some (Cleanup (FromTx (ct_tx tx) nHeight)))))"
proof -
  obtain undos c1 where c1: "(if \<not> tx_IsMint (ct_tx tx) then spend_inputs V U c (vin (ct_tx tx)) else Inr ([], c)) = Inr (undos, c1)" "c_ok c1"
    "tx_IsMint (ct_tx tx) \<Longrightarrow> c1 = c"
  proof (cases "tx_IsMint (ct_tx tx)")
    case False
    with spend_inputs_runs [OF assms(1), of "vin (ct_tx tx)" U] assms(4) that show thesis by auto
  qed (use that assms(1) in simp)
  note n = SetNullifiers_state [OF c1(2), of "ct_tx tx" True]
  from modify_const_runs [OF n(1), of U h "FromTx (ct_tx tx) nHeight"] c1 assms(2,3) n(2) show ?thesis
    by (auto simp: UpdateCoins_def GetHash_def)
qed

lemma joinsplits_ok_error: "joinsplits_ok V p c im jss = Inl e \<Longrightarrow> \<exists>t. e = TreeError t"
  by (induction jss arbitrary: c im) (auto split: prod.splits bool.splits option.splits sum.splits)

lemma check_inputs_cases:
  assumes "c_ok c" "tx_plain tx"
  obtains (rejected) e where "check_inputs V U T c tx = Inl e" "rejection e"
  | (passed) c' where "check_inputs V U T c tx = Inr c'" "c_ok c'" "c_state c' = c_state c"
      "\<not> tx_IsMint tx \<Longrightarrow> \<forall>i\<in>set (vin tx). available (c_state c) (prevout i)"
proof (cases "check_inputs V U T c tx")
  case (Inl e)
  obtain f c1 where h: "HaveInputs V U c tx = (f, c1)" by fastforce
  have "rejection e"
    using Inl h joinsplits_ok_error [of "T SPROUT" c1 "[]" "vjoinsplit tx"]
    by (auto simp: check_inputs_def lift_coins_def HaveJoinSplitRequirements_def res_bind_Inl_iff split: bool.splits if_splits sum.splits)
  with Inl that(1) show thesis by blast
next
  case (Inr c')
  note k = check_inputs_keeps [OF assms(1) Inr assms(2)]
  have "\<forall>i\<in>set (vin tx). available (c_state c) (prevout i)" if "\<not> tx_IsMint tx"
  proof -
    obtain f c1 where h: "HaveInputs V U c tx = (f, c1)" by fastforce
    with that Inr have "f" by (auto simp: check_inputs_def split: bool.splits)
    moreover from h that have "have_inputs V U c (vin tx) = (f, c1)" by (simp add: HaveInputs_def)
    ultimately show ?thesis using have_inputs_keeps [OF assms(1)] by (auto simp: available_def)
  qed
  with that(2) Inr k show thesis by blast
qed

definition safe_result :: "connect_error + 'v connecting \<Rightarrow> bool" where
  "safe_result r \<longleftrightarrow> (case r of Inl e \<Rightarrow> rejection e | Inr s \<Rightarrow> c_ok (cn_view s))"

lemma connect_tx_safe:
  assumes "c_ok (cn_view s)" "tx_plain (ct_tx tx)" "ct_hash tx = Inr h" "distinct (map prevout (vin (ct_tx tx)))"
  shows "safe_result (connect_tx V U T nHeight first s tx)"
  using assms(1,2)
proof (cases rule: check_inputs_cases [where U = U and T = T])
  case (passed c)
  have "\<not> tx_IsCoinImport (ct_tx tx)" using assms(2) by (simp add: tx_plain_def)
  from UpdateCoins_runs [OF passed(2) this assms(3), of U nHeight] passed(3,4) assms(4) obtain undo c' where
    "UpdateCoins V U tx c nHeight = Inr (undo, c')" "c_ok c'" by auto
  with passed(1) show ?thesis by (auto simp: safe_result_def connect_tx_def lift_tree_def res_bind_def split: sum.splits)
qed (simp add: safe_result_def connect_tx_def)

lemma connect_txs_safe:
  "c_ok (cn_view s) \<Longrightarrow> \<forall>tx\<in>set vtx. tx_plain (ct_tx tx) \<and> (\<exists>h. ct_hash tx = Inr h) \<and> distinct (map prevout (vin (ct_tx tx))) \<Longrightarrow>
    safe_result (connect_txs V U T nHeight first s vtx)"
proof (induction vtx arbitrary: s first)
  case (Cons tx vtx)
  from Cons.prems(2) obtain h where "tx_plain (ct_tx tx)" "ct_hash tx = Inr h" "distinct (map prevout (vin (ct_tx tx)))" by auto
  from connect_tx_safe [OF Cons.prems(1) this, of U T nHeight first] Cons.IH Cons.prems(2) show ?case
    by (cases "connect_tx V U T nHeight first s tx") (auto simp: safe_result_def)
qed (simp add: safe_result_def)

lemma overwrites_runs: "\<forall>tx\<in>set vtx. \<exists>h. ct_hash tx = Inr h \<Longrightarrow> \<exists>f c'. overwrites V U c vtx = Inr (f, c')"
  by (induction vtx arbitrary: c) (fastforce simp: GetHash_def split: prod.split option.split)+

lemma best_tree_runs:
  assumes d: "c_ok d" "c_state d = A" and tree: "st_best_anchor A type \<in> st_anchors A type"
  shows "\<exists>v. best_tree V d type = Inr (st_best_anchor A type, tree_of type (st_best_anchor A type), v) \<and> c_ok v \<and> c_state v = A"
proof -
  obtain rt d1 where g: "cache_GetBestAnchor V d type = (rt, d1)" by fastforce
  have d1: "c_ok d1" "c_state d1 = A" "rt = st_best_anchor A type" using cache_GetBestAnchor_keeps [OF d(1) g] d(2) by (simp_all add: keeps_def)
  obtain r d2 where a: "cache_GetAnchorAt V d1 type rt = (r, d2)" by fastforce
  from cache_GetAnchorAt_keeps [OF d1(1) a] d1 tree g a show ?thesis by (simp add: best_tree_def keeps_def)
qed

lemma ConnectBlock_safe:
  assumes c: "c_ok c" and tree: "\<And>type. st_best_anchor (c_state c) type \<in> st_anchors (c_state c) type"
      "tp_root (T SPROUT) (tree_of SPROUT (st_best_anchor (c_state c) SPROUT)) = st_best_anchor (c_state c) SPROUT"
    and vtx: "\<forall>tx\<in>set vtx. tx_plain (ct_tx tx) \<and> (\<exists>h. ct_hash tx = Inr h) \<and> distinct (map prevout (vin (ct_tx tx)))"
    and con: "ConnectBlock V U T vtx hash nHeight hashPrev c = Inl e"
  shows "rejection e"
proof -
  obtain best c0 where b: "cache_GetBestBlock V c = (best, c0)" by fastforce
  have c0: "c_ok c0" "c_state c0 = c_state c" using cache_GetBestBlock_keeps [OF c b] by (simp_all add: keeps_def)
  obtain f c1 where o: "overwrites V U c0 vtx = Inr (f, c1)" using overwrites_runs vtx by blast
  show ?thesis
  proof (cases "hashPrev = best \<and> \<not> f")
    case False
    with con b o show ?thesis by (auto simp: ConnectBlock_def split: if_splits)
  next
    case True
    from overwrites_keeps [OF c0(1), of U vtx c1] True o c0(2) have c1: "c_ok c1" "c_state c1 = c_state c" by auto
    note bt = best_tree_runs [OF _ _ tree(1)]
    obtain c2 where c2: "best_tree V c1 SPROUT = Inr (st_best_anchor (c_state c) SPROUT, tree_of SPROUT (st_best_anchor (c_state c) SPROUT), c2)" "c_ok c2" "c_state c2 = c_state c"
      using bt [OF c1] by blast
    obtain c3 where c3: "best_tree V c2 SAPLING = Inr (st_best_anchor (c_state c) SAPLING, tree_of SAPLING (st_best_anchor (c_state c) SAPLING), c3)" "c_ok c3"
      using bt [OF c2(2,3)] by blast
    let ?s = "\<lparr>cn_view = c3, cn_undo = [], cn_sprout = tree_of SPROUT (st_best_anchor (c_state c) SPROUT), cn_sapling = tree_of SAPLING (st_best_anchor (c_state c) SAPLING)\<rparr>"
    have "safe_result (connect_txs V U T nHeight True ?s vtx)" by (rule connect_txs_safe [OF _ vtx]) (simp add: c3(2))
    moreover have "connect_txs V U T nHeight True ?s vtx = Inl e"
      using con b o True c2(1) c3(1) tree(2) by (cases "connect_txs V U T nHeight True ?s vtx") (simp_all add: ConnectBlock_def Let_def)
    ultimately show ?thesis by (simp add: safe_result_def)
  qed
qed

end

text \<open>A block of a coinbase and one transaction without shielded parts is connected.\<close>

context coins_view
begin

lemma connect_tx_runs:
  assumes s: "c_ok (cn_view s)" and tx: "\<not> tx_IsCoinImport (ct_tx tx)" "ct_hash tx = Inr h"
      "vjoinsplit (ct_tx tx) = []" "vShieldedSpend (ct_tx tx) = []" "vShieldedOutput (ct_tx tx) = []"
    and ins: "\<not> tx_IsMint (ct_tx tx) \<Longrightarrow> distinct (map prevout (vin (ct_tx tx))) \<and> (\<forall>i\<in>set (vin (ct_tx tx)). available (c_state (cn_view s)) (prevout i))"
  shows "\<exists>s'. connect_tx V U T nHeight first s tx = Inr s' \<and> c_ok (cn_view s') \<and>
    (tx_IsMint (ct_tx tx) \<longrightarrow> st_coins (c_state (cn_view s')) = (st_coins (c_state (cn_view s)))(h := unspent (Some (Cleanup (FromTx (ct_tx tx) nHeight)))))"
proof -
  obtain c where c: "check_inputs V U T (cn_view s) (ct_tx tx) = Inr c" "c_ok c" "c_state c = c_state (cn_view s)"
  proof (cases "tx_IsMint (ct_tx tx)")
    case False
    obtain f c1 where h: "have_inputs V U (cn_view s) (vin (ct_tx tx)) = (f, c1)" by fastforce
    from have_inputs_keeps [OF s h] ins [OF False] have "f" "c_ok c1" "c_state c1 = c_state (cn_view s)" by (auto simp: available_def keeps_def)
    with that [of c1] False h tx(3,4) show thesis by (simp add: check_inputs_def HaveInputs_def HaveJoinSplitRequirements_def lift_coins_def)
  qed (use that [of "cn_view s"] s in \<open>simp add: check_inputs_def\<close>)
  from UpdateCoins_runs [OF c(2) tx(1,2), of U nHeight] ins c(1,3) tx(3-5) show ?thesis by (auto simp: connect_tx_def lift_tree_def)
qed

lemma ConnectBlock_runs:
  assumes c: "c_ok c" and tree: "\<And>type. st_best_anchor (c_state c) type \<in> st_anchors (c_state c) type"
      "tp_root (T SPROUT) (tree_of SPROUT (st_best_anchor (c_state c) SPROUT)) = st_best_anchor (c_state c) SPROUT"
    and cb: "tx_IsMint (ct_tx cb)" and h: "ct_hash cb = Inr hcb" "ct_hash tx = Inr htx" "st_coins (c_state c) hcb = None" "st_coins (c_state c) htx = None"
    and plain: "\<And>t. t \<in> {cb, tx} \<Longrightarrow> \<not> tx_IsCoinImport (ct_tx t) \<and> vjoinsplit (ct_tx t) = [] \<and> vShieldedSpend (ct_tx t) = [] \<and> vShieldedOutput (ct_tx t) = []"
    and ins: "distinct (map prevout (vin (ct_tx tx)))" "\<forall>i\<in>set (vin (ct_tx tx)). available (c_state c) (prevout i) \<and> op_hash (prevout i) \<noteq> hcb"
    and prev: "hashPrev = st_best_block (c_state c)"
  shows "\<exists>bu view. ConnectBlock V U T [cb, tx] hash nHeight hashPrev c = Inr (bu, view)"
proof -
  obtain best c0 where b: "cache_GetBestBlock V c = (best, c0)" by fastforce
  have c0: "c_ok c0" "c_state c0 = c_state c" "hashPrev = best" using cache_GetBestBlock_keeps [OF c b] prev by (simp_all add: keeps_def)
  obtain r1 d1 where f1: "FetchCoins V U c0 hcb = (r1, d1)" by fastforce
  have d1: "unspent r1 = None" "c_ok d1" "c_state d1 = c_state c" using FetchCoins_keeps [OF c0(1) f1] c0(2) h(3) by (simp_all add: keeps_def)
  obtain r2 d2 where f2: "FetchCoins V U d1 htx = (r2, d2)" by fastforce
  have d2: "unspent r2 = None" "c_ok d2" "c_state d2 = c_state c" using FetchCoins_keeps [OF d1(2) f2] d1(3) h(4) by (simp_all add: keeps_def)
  have o: "overwrites V U c0 [cb, tx] = Inr (False, d2)"
    using h(1,2) f1 f2 d1(1) d2(1) by (auto simp: GetHash_def AccessCoins_def unspent_def split: option.splits if_splits)
  obtain c2 where c2: "best_tree V d2 SPROUT = Inr (st_best_anchor (c_state c) SPROUT, tree_of SPROUT (st_best_anchor (c_state c) SPROUT), c2)" "c_ok c2" "c_state c2 = c_state c"
    using best_tree_runs [OF d2(2,3) tree(1)] by blast
  obtain c3 where c3: "best_tree V c2 SAPLING = Inr (st_best_anchor (c_state c) SAPLING, tree_of SAPLING (st_best_anchor (c_state c) SAPLING), c3)" "c_ok c3" "c_state c3 = c_state c"
    using best_tree_runs [OF c2(2,3) tree(1)] by blast
  let ?s = "\<lparr>cn_view = c3, cn_undo = [], cn_sprout = tree_of SPROUT (st_best_anchor (c_state c) SPROUT), cn_sapling = tree_of SAPLING (st_best_anchor (c_state c) SAPLING)\<rparr>"
  obtain s1 where s1: "connect_tx V U T nHeight True ?s cb = Inr s1" "c_ok (cn_view s1)"
    "st_coins (c_state (cn_view s1)) = (st_coins (c_state c))(hcb := unspent (Some (Cleanup (FromTx (ct_tx cb) nHeight))))"
    using connect_tx_runs [of ?s cb hcb U T nHeight True] c3(2,3) plain [of cb] h(1) cb by auto
  have "\<forall>i\<in>set (vin (ct_tx tx)). available (c_state (cn_view s1)) (prevout i)" using ins(2) s1(3) by (auto simp: available_def)
  then obtain s2 where "connect_tx V U T nHeight False s1 tx = Inr s2"
    using connect_tx_runs [of s1 tx htx U T nHeight False] s1(2) plain [of tx] h(2) ins(1) by auto
  with b c0(3) o c2(1) c3(1) tree(2) s1(1) show ?thesis by (simp add: ConnectBlock_def Let_def)
qed

end

text \<open>A coin import is connected whatever the view has for the transaction it imports from.\<close>

context coins_view
begin

lemma connect_import_runs:
  assumes s: "c_ok (cn_view s)" and tx: "tx_IsCoinImport (ct_tx tx)" "ct_hash tx = Inr h" "vjoinsplit (ct_tx tx) = []" "vShieldedOutput (ct_tx tx) = []"
  shows "\<exists>s'. connect_tx V U T nHeight first s tx = Inr s'"
proof -
  have mint: "tx_IsMint (ct_tx tx)" using tx(1) by (simp add: tx_IsMint_def)
  note n = SetNullifiers_state [OF s, of "ct_tx tx" True]
  obtain c' where c': "modify_with V U (SetNullifiers (cn_view s) (ct_tx tx) True) h (\<lambda>_. Inr ((), FromTx (ct_tx tx) nHeight)) = Inr ((), c')" "c_ok c'"
    using modify_const_runs [OF n(1), of U h "FromTx (ct_tx tx) nHeight"] by blast
  let ?body = "\<lambda>coins. Inr ((), coins\<lparr>cc_nHeight := nHeight, cc_nVersion := 4, cc_vout := cc_vout coins @ [\<lparr>nValue = 0, scriptPubKey = [OP_0]\<rparr>]\<rparr>) :: connect_error + unit \<times> CCoins"
  obtain c'' where "modify_with V U c' (op_hash (prevout (vin (ct_tx tx) ! 0))) ?body = Inr ((), c'')"
    by (rule modify_with_state [OF c'(2), where k = "op_hash (prevout (vin (ct_tx tx) ! 0))" and body = ?body and U = U]) blast
  with c' mint tx show ?thesis
    by (auto simp: connect_tx_def check_inputs_def UpdateCoins_def GetHash_def AddImportTombstone_def lift_tree_def)
qed

end

section \<open>Properties\<close>


text \<open>A database with one unspent output, and a block that spends it.\<close>

definition one_coins :: CCoins where
  "one_coins = \<lparr>cc_fCoinBase = False, cc_vout = [\<lparr>nValue = 9, scriptPubKey = [OP_1]\<rparr>], cc_nHeight = 3, cc_nVersion = 1\<rparr>"

definition one_db :: coins_db where
  "one_db = empty_db\<lparr>db_best_block := Some [2], db_coins := [[5] \<mapsto> one_coins]\<rparr>"

definition cb_tx :: CTransaction where
  "cb_tx = \<lparr>ct_tx = tx_default\<lparr>vin := [\<lparr>prevout = COutPoint uint256_null (- 1), scriptSig = [], nSequence = 0\<rparr>],
     vout := [\<lparr>nValue = 5, scriptPubKey = [OP_1]\<rparr>]\<rparr>, ct_hash = Inr [1]\<rparr>"

definition spending_tx :: CTransaction where
  "spending_tx = \<lparr>ct_tx = tx_default\<lparr>vin := [\<lparr>prevout = COutPoint [5] 0, scriptSig = [], nSequence = 0\<rparr>],
     vout := [\<lparr>nValue = 4, scriptPubKey = [OP_1]\<rparr>]\<rparr>, ct_hash = Inr [4]\<rparr>"

lemma one_coins_facts: "coins_canonical one_coins" "\<not> IsPruned one_coins" "IsAvailable one_coins 0"
proof -
  have "drop_null [\<lparr>nValue = 9, scriptPubKey = [OP_1]\<rparr>] = [\<lparr>nValue = 9, scriptPubKey = [OP_1]\<rparr>]" by (rule drop_null_clean) (simp add: txout_IsNull_def)
  then show "coins_canonical one_coins" by (simp add: coins_canonical_def one_coins_def Cleanup_def txout_IsNull_def)
qed (simp_all add: one_coins_def IsPruned_def IsAvailable_def txout_IsNull_def)

lemma one_state: "db_state small_params one_db =
    \<lparr>st_coins = [[5] \<mapsto> one_coins], st_anchors = (\<lambda>_. {replicate 32 9}), st_nullifiers = (\<lambda>_. {}), st_best_block = [2], st_best_anchor = (\<lambda>_. replicate 32 9)\<rparr>"
  using one_coins_facts(2)
  by (auto simp: db_state_def one_db_def empty_db_def db_GetBestBlock_def db_GetBestAnchor_def fun_eq_iff)

lemma one_tip: "tip_ok small_params small_trees (cache_new one_db)" "tip_state small_params (cache_new one_db) = db_state small_params one_db"
proof -
  have "db_ok small_params small_trees one_db" by (simp add: db_ok_def one_db_def empty_db_def small_trees_def)
  from db_view.cache_new_ok [OF this] show "tip_ok small_params small_trees (cache_new one_db)"
    "tip_state small_params (cache_new one_db) = db_state small_params one_db" by simp_all
qed

lemma one_txs:
  "tx_IsMint (ct_tx cb_tx)" "tx_plain (ct_tx cb_tx)" "tx_plain (ct_tx spending_tx)" "ct_hash cb_tx = Inr [1]" "ct_hash spending_tx = Inr [4]"
  "map prevout (vin (ct_tx spending_tx)) = [COutPoint [5] 0]" "map prevout (vin (ct_tx cb_tx)) = [COutPoint uint256_null (- 1)]"
  "vjoinsplit (ct_tx cb_tx) = []" "vShieldedSpend (ct_tx cb_tx) = []" "vShieldedOutput (ct_tx cb_tx) = []"
  "vjoinsplit (ct_tx spending_tx) = []" "vShieldedSpend (ct_tx spending_tx) = []" "vShieldedOutput (ct_tx spending_tx) = []"
  by (simp_all add: cb_tx_def spending_tx_def tx_default_def tx_IsMint_def tx_IsCoinBase_def tx_IsCoinImport_def tx_plain_def outpoint_IsNull_def txout_IsNull_def
      unsigned_minus_1_eq_mask mask_eq_exp_minus_1)

lemma one_fits: "anchors_fit small_params small_trees (db_state small_params one_db) [cb_tx, spending_tx]"
proof -
  have "block_commitments [cb_tx, spending_tx] type = []" for type by (cases type) (simp_all add: block_commitments_def one_txs)
  then show ?thesis by (simp add: anchors_fit_def one_state small_trees_def)
qed

lemma one_block_connects:
  "\<exists>bu view. ConnectBlock (tip_ops small_params (\<lambda>_. 1)) (\<lambda>_. 1) small_params [cb_tx, spending_tx] [3] 7 [2] (cache_new (cache_new one_db)) = Inr (bu, view)"
proof -
  note c = tip_view.cache_new_ok [OF one_tip(1)]
  have st: "cache_state (tip_state small_params) (cache_new (cache_new one_db)) = db_state small_params one_db" using c one_tip(2) by simp
  have "\<not> tx_IsCoinImport (ct_tx t) \<and> vjoinsplit (ct_tx t) = [] \<and> vShieldedSpend (ct_tx t) = [] \<and> vShieldedOutput (ct_tx t) = []"
    if "t \<in> {cb_tx, spending_tx}" for t using that one_txs by (auto simp: tx_plain_def)
  moreover have "\<forall>i\<in>set (vin (ct_tx spending_tx)). available (db_state small_params one_db) (prevout i) \<and> op_hash (prevout i) \<noteq> [1]"
    using one_coins_facts(3) by (simp add: spending_tx_def available_def one_state)
  ultimately show ?thesis
    by (intro tip_view.ConnectBlock_runs [OF conjunct1 [OF c], where hcb = "[1]" and htx = "[4]"])
      (simp_all add: st one_state small_trees_def one_txs)
qed


text \<open>
  Connecting a block fails no assertion. Whatever transactions a block has, as long as no transaction
  names an input twice, the view is updated, or the block is refused as one that does not extend the best block,
  overwrites a transaction, spends what is not there, or does not fit the trees: the assertions in \<open>UpdateCoins\<close>
  and about the anchors hold.
\<close>

theorem connect_fails_no_assertion:
  assumes "tip_ok T tree_of tip" "\<forall>type. st_best_anchor (tip_state T tip) type \<in> st_anchors (tip_state T tip) type"
    "tp_root (T SPROUT) (tree_of SPROUT (st_best_anchor (tip_state T tip) SPROUT)) = st_best_anchor (tip_state T tip) SPROUT"
    "\<forall>tx\<in>set vtx. tx_plain (ct_tx tx) \<and> (\<exists>h. ct_hash tx = Inr h) \<and> distinct (map prevout (vin (ct_tx tx)))"
  shows "(\<exists>bu view. ConnectBlock (tip_ops T U) U T vtx hash nHeight hashPrev (cache_new tip) = Inr (bu, view)) \<or>
    (\<exists>e. ConnectBlock (tip_ops T U) U T vtx hash nHeight hashPrev (cache_new tip) = Inl e \<and> rejection e)"
proof (cases "ConnectBlock (tip_ops T U) U T vtx hash nHeight hashPrev (cache_new tip)")
  case (Inl e)
  have c: "cache_state (tip_state T) (cache_new tip) = tip_state T tip" using tip_view.cache_new_ok [OF assms(1)] by simp
  have "rejection e"
    using assms(2-4) c by (intro tip_view.ConnectBlock_safe [OF conjunct1 [OF tip_view.cache_new_ok [OF assms(1)]] _ _ _ Inl]) simp_all
  with Inl show ?thesis by blast
next
  case (Inr x)
  then show ?thesis by (cases x) simp
qed

theorem connect_fails_no_assertion_witness:
  "ConnectBlock (tip_ops small_params (\<lambda>_. 1)) (\<lambda>_. 1) small_params [cb_tx, spending_tx] [3] 7 [8] (cache_new (cache_new one_db)) \<noteq> Inl AssertSpent \<and>
   ConnectBlock (tip_ops small_params (\<lambda>_. 1)) (\<lambda>_. 1) small_params [cb_tx, spending_tx, spending_tx] [3] 7 [2] (cache_new (cache_new one_db)) \<noteq> Inl AssertSpent"
proof -
  have "ConnectBlock (tip_ops small_params (\<lambda>_. 1)) (\<lambda>_. 1) small_params vtx [3] 7 prev (cache_new (cache_new one_db)) \<noteq> Inl AssertSpent"
    if "set vtx \<subseteq> {cb_tx, spending_tx}" for vtx prev
  proof -
    have "tx_plain (ct_tx tx) \<and> (\<exists>h. ct_hash tx = Inr h) \<and> distinct (map prevout (vin (ct_tx tx)))" if t: "tx \<in> set vtx" for tx
    proof -
      have "tx = cb_tx \<or> tx = spending_tx" using t \<open>set vtx \<subseteq> {cb_tx, spending_tx}\<close> by blast
      then show ?thesis by (elim disjE) (simp_all add: one_txs)
    qed
    then show ?thesis
      using connect_fails_no_assertion [OF one_tip(1), unfolded one_tip(2), of vtx "\<lambda>_. 1" "[3]" 7 prev] by (auto simp: one_state small_trees_def)
  qed
  then show ?thesis by simp
qed

text \<open>
  Connecting does not ask whether an import was made before. A coin import without shielded parts is
  connected although the view already has the tombstone of the transaction it imports from.
\<close>

theorem import_tombstone_not_asked:
  assumes "tip_ok T tree_of tip" "tx_IsCoinImport (ct_tx tx)" "ct_hash tx = Inr h" "vjoinsplit (ct_tx tx) = []" "vShieldedOutput (ct_tx tx) = []"
    "st_coins (tip_state T tip) (op_hash (prevout (vin (ct_tx tx) ! 0))) = Some tombstone"
  shows "\<exists>s'. connect_tx (tip_ops T U) U T nHeight first \<lparr>cn_view = cache_new tip, cn_undo = us, cn_sprout = t1, cn_sapling = t2\<rparr> tx = Inr s'"
  using conjunct1 [OF tip_view.cache_new_ok [OF assms(1)]] assms(2-5) by (intro tip_view.connect_import_runs) auto

theorem import_tombstone_not_asked_witness:
  "let tx = \<lparr>ct_tx = tx_default\<lparr>vin := [\<lparr>prevout = COutPoint [5] 1000000000, scriptSig = [], nSequence = 0\<rparr>]\<rparr>, ct_hash = Inr [6]\<rparr>
   in st_coins (tip_state small_params (cache_new one_db)) [5] = Some one_coins \<and>
      (\<exists>s'. connect_tx (tip_ops small_params (\<lambda>_. 1)) (\<lambda>_. 1) small_params 7 False
         \<lparr>cn_view = cache_new (cache_new one_db), cn_undo = [], cn_sprout = tree_empty, cn_sapling = tree_empty\<rparr> tx = Inr s')"
  using import_tombstone_not_asked [OF one_tip(1), unfolded one_tip(2),
      of "\<lparr>ct_tx = tx_default\<lparr>vin := [\<lparr>prevout = COutPoint [5] 1000000000, scriptSig = [], nSequence = 0\<rparr>]\<rparr>, ct_hash = Inr [6]\<rparr>"
        "[6]" one_coins "\<lambda>_. 1" 7 False "[]" tree_empty tree_empty]
  by (simp add: one_state one_tip(2) tx_IsCoinImport_def tx_default_def)

end
