(* ===== verification/TxChecksProps.thy ===== *)
theory TxChecksProps
  imports TxChecks ConnectBlockProps TransactionProps
begin

text \<open>
  What the checks of \<^verbatim>\<open>TxChecks\<close> accept. \<open>tx_valid\<close> says without loops and machine arithmetic which transactions
  pass \<open>CheckTransactionWithoutProofVerification\<close>; from it follow the format a transaction has at a height, that
  no coins are made out of nothing, and what connecting a block needs of its transactions.
\<close>

section \<open>Transactions that pass the checks\<close>

definition total_out :: "CMutableTransaction \<Rightarrow> int" where
  "total_out tx = sum_list (map nValue (vout tx)) + max 0 (- valueBalance tx) + sum_list (map vpub_old (vjoinsplit tx))"

definition total_shielded_in :: "CMutableTransaction \<Rightarrow> int" where
  "total_shielded_in tx = sum_list (map vpub_new (vjoinsplit tx)) + max 0 (valueBalance tx)"

definition header_valid :: "CMutableTransaction \<Rightarrow> bool" where
  "header_valid tx \<longleftrightarrow>
     (if fOverwintered tx
      then 3 \<le> nVersion tx \<and> nVersionGroupId tx \<in> {OVERWINTER_VERSION_GROUP_ID, SAPLING_VERSION_GROUP_ID} \<and> nExpiryHeight tx < TX_EXPIRY_HEIGHT_THRESHOLD
      else 1 \<le> nVersion tx) \<and>
     (vin tx \<noteq> [] \<or> vjoinsplit tx \<noteq> [] \<or> vShieldedSpend tx \<noteq> []) \<and> (vout tx \<noteq> [] \<or> vjoinsplit tx \<noteq> [] \<or> vShieldedOutput tx \<noteq> []) \<and>
     (\<exists>b. tx_Serialize tx = Inr b \<and> length b \<le> MAX_TX_SIZE_AFTER_SAPLING)"

definition values_valid :: "int \<Rightarrow> CMutableTransaction \<Rightarrow> bool" where
  "values_valid M tx \<longleftrightarrow>
     (\<forall>out\<in>set (vout tx). 0 \<le> nValue out \<and> length (scriptPubKey out) \<le> IGUANA_MAXSCRIPTSIZE) \<and>
     (\<forall>js\<in>set (vjoinsplit tx). 0 \<le> vpub_old js \<and> 0 \<le> vpub_new js \<and> (vpub_old js = 0 \<or> vpub_new js = 0)) \<and>
     (vShieldedSpend tx = [] \<and> vShieldedOutput tx = [] \<longrightarrow> valueBalance tx = 0) \<and>
     total_out tx \<le> M \<and> total_shielded_in tx \<le> M"

text \<open>Whether a transaction pays others than notaries openly on a private chain.\<close>

definition exposes :: "chain_globals \<Rightarrow> u32 \<Rightarrow> CMutableTransaction \<Rightarrow> bool" where
  "exposes G tiptime tx \<longleftrightarrow>
     ASSETCHAINS_PRIVATE G \<noteq> 0 \<and> \<not> tx_IsCoinBase tx \<and> (\<exists>out\<in>set (vout tx). 0 < nValue out \<and> \<not> isnotaryvout G (scriptPubKey out) tiptime)"

text \<open>
  On a public chain there is no shielded value. On a private one a transaction that pays others than
  notaries openly reveals the redeem script of a swap, or comes from old shielded value alone.
\<close>

definition privacy_valid :: "chain_globals \<Rightarrow> u32 \<Rightarrow> CMutableTransaction \<Rightarrow> bool" where
  "privacy_valid G tiptime tx \<longleftrightarrow>
     (squishy_acpublic G tiptime \<noteq> 0 \<longrightarrow> vShieldedSpend tx = [] \<and> vShieldedOutput tx = [] \<and> vjoinsplit tx = []) \<and>
     (SQUISHY_SAPLING_DEADLINE \<le> tiptime \<longrightarrow> vjoinsplit tx = []) \<and>
     (exposes G tiptime tx \<longrightarrow>
        (if vShieldedSpend tx \<noteq> []
         then 5 < getacseason tiptime \<and> vin tx = [] \<and> length (vout tx) = 2 \<and> IsPayToScriptHash (scriptPubKey (vout tx ! 0)) \<and>
              IsRedeemScriptReveal (scriptPubKey (vout tx ! 0)) (scriptPubKey (vout tx ! 1)) = Inr True
         else vin tx = [] \<and> vjoinsplit tx \<noteq> [] \<and> (\<forall>js\<in>set (vjoinsplit tx). vpub_new js \<noteq> 0)))"

definition unique_valid :: "CMutableTransaction \<Rightarrow> bool" where
  "unique_valid tx \<longleftrightarrow>
     distinct (map prevout (vin tx)) \<and> distinct (concat (map js_nullifiers (vjoinsplit tx))) \<and> distinct (map sd_nullifier (vShieldedSpend tx)) \<and>
     (if tx_IsMint tx
      then vjoinsplit tx = [] \<and> vShieldedSpend tx = [] \<and> vShieldedOutput tx = [] \<and>
           2 \<le> length (scriptSig (vin tx ! 0)) \<and> length (scriptSig (vin tx ! 0)) \<le> 100
      else \<forall>txin\<in>set (vin tx). \<not> outpoint_IsNull (prevout txin))"

definition tx_valid :: "chain_globals \<Rightarrow> u32 \<Rightarrow> CTransaction \<Rightarrow> bool" where
  "tx_valid G tiptime ct \<longleftrightarrow>
     header_valid (ct_tx ct) \<and> values_valid (MAX_MONEY G) (ct_tx ct) \<and> privacy_valid G tiptime (ct_tx ct) \<and>
     check_txpow G ct = Inr () \<and> unique_valid (ct_tx ct)"

lemma res_bind_unit_iff: "res_bind r f = Inr y \<longleftrightarrow> r = Inr () \<and> f () = Inr y"
  by (auto simp: res_bind_Inr_iff)

lemma check_header_iff: "check_header tx = Inr () \<longleftrightarrow> header_valid tx"
  by (auto simp: check_header_def header_valid_def GetTotalSize_def res_bind_def split: sum.splits if_splits)

lemma check_duplicates_iff: "check_duplicates r seen xs = Inr () \<longleftrightarrow> distinct xs \<and> set xs \<inter> seen = {}"
  by (induction xs arbitrary: seen) auto

lemma unique_iff:
  "check_duplicates r1 {} (map prevout (vin tx)) = Inr () \<and> check_duplicates r2 {} (concat (map js_nullifiers (vjoinsplit tx))) = Inr () \<and>
   check_duplicates r3 {} (map sd_nullifier (vShieldedSpend tx)) = Inr () \<and> check_mint tx = Inr () \<longleftrightarrow> unique_valid tx"
  by (auto simp: check_duplicates_iff unique_valid_def check_mint_def list_ex_iff split: if_splits)

lemma wrap64_money: "M < 2 ^ 62 \<Longrightarrow> - M \<le> a \<Longrightarrow> a \<le> M \<Longrightarrow> - M \<le> b \<Longrightarrow> b \<le> M \<Longrightarrow> wrap64 (a + b) = a + b"
  by (rule wrap64_id) (simp add: in64_def)

lemma check_outputs_iff:
  assumes "MAX_MONEY G < 2 ^ 62"
  shows "0 \<le> acc \<Longrightarrow> acc \<le> MAX_MONEY G \<Longrightarrow> check_outputs G t cb (acc, bad) outs = Inr (acc', bad') \<longleftrightarrow>
    (\<forall>out\<in>set outs. 0 \<le> nValue out \<and> length (scriptPubKey out) \<le> IGUANA_MAXSCRIPTSIZE) \<and>
    acc' = acc + sum_list (map nValue outs) \<and> acc' \<le> MAX_MONEY G \<and>
    (bad' \<longleftrightarrow> bad \<or> ASSETCHAINS_PRIVATE G \<noteq> 0 \<and> \<not> cb \<and> (\<exists>out\<in>set outs. 0 < nValue out \<and> \<not> isnotaryvout G (scriptPubKey out) t))"
proof (induction outs arbitrary: acc bad)
  case (Cons out outs)
  have pos: "0 \<le> sum_list (map nValue outs)" if "\<forall>out\<in>set outs. 0 \<le> nValue out"
    using that by (intro sum_list_nonneg) auto
  show ?case
  proof (cases "0 \<le> nValue out \<and> nValue out \<le> MAX_MONEY G \<and> length (scriptPubKey out) \<le> IGUANA_MAXSCRIPTSIZE \<and> acc + nValue out \<le> MAX_MONEY G")
    case True
    moreover have "wrap64 (acc + nValue out) = acc + nValue out" using True Cons.prems assms by (intro wrap64_money) auto
    ultimately show ?thesis
      using Cons.prems Cons.IH [of "acc + nValue out" "bad \<or> ASSETCHAINS_PRIVATE G \<noteq> 0 \<and> \<not> cb \<and> 0 < nValue out \<and> \<not> isnotaryvout G (scriptPubKey out) t"]
      by (auto simp: Let_def MoneyRange_def)
  next
    case False
    have "wrap64 (acc + nValue out) = acc + nValue out" if "0 \<le> nValue out" "nValue out \<le> MAX_MONEY G"
      using that Cons.prems assms by (intro wrap64_money) auto
    with False Cons.prems pos show ?thesis by (auto simp: Let_def MoneyRange_def)
  qed
qed auto


lemma check_joinsplits_iff:
  assumes "MAX_MONEY G < 2 ^ 62"
  shows "0 \<le> acc \<Longrightarrow> acc \<le> MAX_MONEY G \<Longrightarrow> check_joinsplits G t (acc, zz, tz, zt) jss = Inr r \<longleftrightarrow>
    (jss \<noteq> [] \<longrightarrow> squishy_acpublic G t = 0 \<and> t < SQUISHY_SAPLING_DEADLINE) \<and>
    (\<forall>js\<in>set jss. 0 \<le> vpub_old js \<and> 0 \<le> vpub_new js \<and> vpub_new js \<le> MAX_MONEY G \<and> (vpub_old js = 0 \<or> vpub_new js = 0)) \<and>
    acc + sum_list (map vpub_old jss) \<le> MAX_MONEY G \<and>
    r = (acc + sum_list (map vpub_old jss), zz + length (filter (\<lambda>js. vpub_new js = 0 \<and> vpub_old js = 0) jss),
      tz + length (filter (\<lambda>js. vpub_new js = 0 \<and> vpub_old js \<noteq> 0) jss), zt + length (filter (\<lambda>js. vpub_new js \<noteq> 0 \<and> vpub_old js = 0) jss))"
proof (induction jss arbitrary: acc zz tz zt)
  case (Cons js jss)
  have pos: "0 \<le> sum_list (map vpub_old jss)" if "\<forall>js\<in>set jss. 0 \<le> vpub_old js"
    using that by (intro sum_list_nonneg) auto
  have w: "wrap64 (acc + vpub_old js) = acc + vpub_old js" if "0 \<le> vpub_old js" "vpub_old js \<le> MAX_MONEY G"
    using that Cons.prems assms by (intro wrap64_money) auto
  show ?case
  proof (cases "0 \<le> vpub_old js \<and> vpub_old js \<le> MAX_MONEY G \<and> acc + vpub_old js \<le> MAX_MONEY G")
    case True
    then show ?thesis
      using Cons.prems Cons.IH [of "acc + vpub_old js"] w by (auto simp: Let_def MoneyRange_def not_le add.assoc)
  next
    case False
    with Cons.prems pos w show ?thesis by (auto simp: Let_def MoneyRange_def)
  qed
qed auto

lemma sum_vpub_new_iff:
  assumes "MAX_MONEY G < 2 ^ 62"
  shows "0 \<le> acc \<Longrightarrow> acc \<le> MAX_MONEY G \<Longrightarrow> \<forall>js\<in>set jss. 0 \<le> vpub_new js \<and> vpub_new js \<le> MAX_MONEY G \<Longrightarrow>
    sum_vpub_new G acc jss = Inr r \<longleftrightarrow> acc + sum_list (map vpub_new jss) \<le> MAX_MONEY G \<and> r = acc + sum_list (map vpub_new jss)"
proof (induction jss arbitrary: acc)
  case (Cons js jss)
  have pos: "0 \<le> sum_list (map vpub_new jss)" using Cons.prems by (intro sum_list_nonneg) auto
  have w: "wrap64 (acc + vpub_new js) = acc + vpub_new js" using Cons.prems assms by (intro wrap64_money) auto
  show ?case using Cons.prems Cons.IH [of "acc + vpub_new js"] pos by (auto simp: Let_def w MoneyRange_def)
qed auto

lemma check_value_in_iff:
  assumes "MAX_MONEY G < 2 ^ 62" "0 \<le> MAX_MONEY G" "\<forall>js\<in>set (vjoinsplit tx). 0 \<le> vpub_new js \<and> vpub_new js \<le> MAX_MONEY G"
    "valueBalance tx \<le> MAX_MONEY G"
  shows "check_value_in G tx = Inr () \<longleftrightarrow> total_shielded_in tx \<le> MAX_MONEY G"
proof -
  have pos: "0 \<le> sum_list (map vpub_new (vjoinsplit tx))" using assms(3) by (intro sum_list_nonneg) auto
  have w: "wrap64 (sum_list (map vpub_new (vjoinsplit tx)) + valueBalance tx) = sum_list (map vpub_new (vjoinsplit tx)) + valueBalance tx"
    if "sum_list (map vpub_new (vjoinsplit tx)) \<le> MAX_MONEY G" "0 \<le> valueBalance tx"
    using that pos assms by (intro wrap64_money) auto
  have s: "sum_vpub_new G 0 (vjoinsplit tx) = Inr r \<longleftrightarrow> sum_list (map vpub_new (vjoinsplit tx)) \<le> MAX_MONEY G \<and> r = sum_list (map vpub_new (vjoinsplit tx))" for r
    using sum_vpub_new_iff [OF assms(1), of 0 "vjoinsplit tx" r] assms(2,3) by simp
  show ?thesis
    using pos w by (auto simp: check_value_in_def res_bind_Inr_iff s total_shielded_in_def MoneyRange_def max_def split: if_splits)
qed

lemma check_shielded_iff:
  assumes "MAX_MONEY G < 2 ^ 62" "0 \<le> v" "v \<le> MAX_MONEY G" "bad \<longrightarrow> ASSETCHAINS_PRIVATE G \<noteq> 0"
  shows "check_shielded G t tx (v, bad) = Inr (v', bad') \<longleftrightarrow>
    (vShieldedSpend tx = [] \<and> vShieldedOutput tx = [] \<longrightarrow> valueBalance tx = 0) \<and>
    (squishy_acpublic G t \<noteq> 0 \<longrightarrow> vShieldedSpend tx = [] \<and> vShieldedOutput tx = []) \<and>
    (bad \<and> vShieldedSpend tx \<noteq> [] \<longrightarrow> 5 < getacseason t \<and> vin tx = [] \<and> length (vout tx) = 2 \<and> IsPayToScriptHash (scriptPubKey (vout tx ! 0)) \<and>
       IsRedeemScriptReveal (scriptPubKey (vout tx ! 0)) (scriptPubKey (vout tx ! 1)) = Inr True) \<and>
    (bad' \<longleftrightarrow> bad \<and> vShieldedSpend tx = []) \<and> valueBalance tx \<le> MAX_MONEY G \<and>
    v' = v + max 0 (- valueBalance tx) \<and> v' \<le> MAX_MONEY G"
proof -
  have w: "wrap64 (- valueBalance tx) = - valueBalance tx" "wrap64 (v + - valueBalance tx) = v + - valueBalance tx"
    if "- MAX_MONEY G \<le> valueBalance tx" "valueBalance tx \<le> 0"
    using that assms wrap64_money [of "MAX_MONEY G" 0 "- valueBalance tx"] wrap64_money [of "MAX_MONEY G" v "- valueBalance tx"] by auto
  show ?thesis
    using assms(2-4) w
    by (auto simp: check_shielded_def res_bind_Inr_iff MoneyRange_def Let_def max_def split: if_splits sum.splits)
qed


text \<open>The counters leave no joinsplit that does not pay out.\<close>

lemma private_counters:
  "\<forall>js\<in>set jss. vpub_old js = 0 \<or> vpub_new js = 0 \<Longrightarrow>
    \<not> (length (filter (\<lambda>js. vpub_new js \<noteq> 0 \<and> vpub_old js = 0) jss) = 0 \<or> length (filter (\<lambda>js. vpub_new js = 0 \<and> vpub_old js = 0) jss) \<noteq> 0 \<or>
      length (filter (\<lambda>js. vpub_new js = 0 \<and> vpub_old js \<noteq> 0) jss) \<noteq> 0 \<or> vin tx \<noteq> []) \<longleftrightarrow>
    vin tx = [] \<and> jss \<noteq> [] \<and> (\<forall>js\<in>set jss. vpub_new js \<noteq> 0)"
  by (cases jss) (auto simp: filter_empty_conv)

lemma check_money_sound:
  assumes "0 \<le> MAX_MONEY G" "MAX_MONEY G < 2 ^ 62" "check_amounts G t tx = Inr ()" "check_value_in G tx = Inr ()"
  shows "values_valid (MAX_MONEY G) tx \<and> privacy_valid G t tx"
proof -
  obtain acc where o: "check_outputs G t (tx_IsCoinBase tx) (0, False) (vout tx) = Inr acc" using assms(3) by (auto simp: check_amounts_def res_bind_Inr_iff)
  obtain v0 bad0 where acc: "acc = (v0, bad0)" by (cases acc)
  from assms(3) o obtain r1 where s: "check_shielded G t tx (v0, bad0) = Inr r1" by (auto simp: check_amounts_def acc res_bind_Inr_iff)
  obtain v bad where r1: "r1 = (v, bad)" by (cases r1)
  from assms(3) o s obtain r2 where j: "check_joinsplits G t (v, 0, 0, 0) (vjoinsplit tx) = Inr r2" by (auto simp: check_amounts_def acc r1 res_bind_Inr_iff)
  obtain w zz tz zt where r2: "r2 = (w, zz, tz, zt)" by (cases r2)
  note c = o [unfolded acc] s [unfolded r1] j [unfolded r2]
  have p: "check_private G tx bad zz tz zt = Inr ()" using assms(3) c by (simp add: check_amounts_def)
  note o = check_outputs_iff [OF assms(2) order.refl assms(1), THEN iffD1, OF c(1), simplified]
  have "0 \<le> sum_list (map nValue (vout tx))" using o by (intro sum_list_nonneg) auto
  then have v0: "0 \<le> v0" "v0 \<le> MAX_MONEY G" using o by auto
  have priv: "bad0 \<longrightarrow> ASSETCHAINS_PRIVATE G \<noteq> 0" using o by auto
  note s = check_shielded_iff [OF assms(2) v0 priv, THEN iffD1, OF c(2)]
  have v: "0 \<le> v" "v \<le> MAX_MONEY G" using s v0 by auto
  note j = check_joinsplits_iff [OF assms(2) v, THEN iffD1, OF c(3)]
  have i: "total_shielded_in tx \<le> MAX_MONEY G" using iffD1 [OF check_value_in_iff [OF assms(2,1)] assms(4)] j s by blast
  note outs = o [THEN conjunct1] o [THEN conjunct2, THEN conjunct1]
  have jss: "\<forall>js\<in>set (vjoinsplit tx). 0 \<le> vpub_old js \<and> 0 \<le> vpub_new js \<and> (vpub_old js = 0 \<or> vpub_new js = 0)"
    using j [THEN conjunct2, THEN conjunct1] by blast
  have "v + sum_list (map vpub_old (vjoinsplit tx)) \<le> MAX_MONEY G" by (rule j [THEN conjunct2, THEN conjunct2, THEN conjunct1])
  moreover have "v = v0 + max 0 (- valueBalance tx)" "vShieldedSpend tx = [] \<and> vShieldedOutput tx = [] \<longrightarrow> valueBalance tx = 0"
    using s by blast+
  ultimately have vals: "values_valid (MAX_MONEY G) tx" using outs jss i by (simp add: values_valid_def total_out_def)
  have bad: "bad \<longrightarrow> vin tx = [] \<and> vjoinsplit tx \<noteq> [] \<and> (\<forall>js\<in>set (vjoinsplit tx). vpub_new js \<noteq> 0)"
  proof
    assume bad
    with s priv have "ASSETCHAINS_PRIVATE G \<noteq> 0" by simp
    with \<open>bad\<close> p j private_counters [of "vjoinsplit tx" tx] jss show "vin tx = [] \<and> vjoinsplit tx \<noteq> [] \<and> (\<forall>js\<in>set (vjoinsplit tx). vpub_new js \<noteq> 0)"
      by (simp add: check_private_def split: if_splits)
  qed
  have "bad0 \<longleftrightarrow> exposes G t tx" using o by (simp add: exposes_def)
  with s j bad have "privacy_valid G t tx" unfolding privacy_valid_def not_le [symmetric]
    by (cases "vShieldedSpend tx = []") auto
  with vals show ?thesis by simp
qed

lemma check_money_complete:
  assumes "0 \<le> MAX_MONEY G" "MAX_MONEY G < 2 ^ 62" "values_valid (MAX_MONEY G) tx \<and> privacy_valid G t tx"
  shows "check_amounts G t tx = Inr () \<and> check_value_in G tx = Inr ()"
proof -
  note r = assms(3)
  define v0 where "v0 = sum_list (map nValue (vout tx))"
  define v where "v = v0 + max 0 (- valueBalance tx)"
  have o: "0 \<le> v0" using r by (auto simp: v0_def values_valid_def intro!: sum_list_nonneg)
  have js: "0 \<le> sum_list (map vpub_old (vjoinsplit tx))" "0 \<le> sum_list (map vpub_new (vjoinsplit tx))"
    using r by (auto simp: values_valid_def intro!: sum_list_nonneg)
  have total: "v + sum_list (map vpub_old (vjoinsplit tx)) \<le> MAX_MONEY G" "sum_list (map vpub_new (vjoinsplit tx)) + max 0 (valueBalance tx) \<le> MAX_MONEY G"
    using r by (auto simp: values_valid_def total_out_def total_shielded_in_def v_def v0_def)
  have v: "v0 \<le> MAX_MONEY G" "0 \<le> v" "v \<le> MAX_MONEY G" using o js total by (auto simp: v_def)
  have new: "\<forall>js\<in>set (vjoinsplit tx). 0 \<le> vpub_new js \<and> vpub_new js \<le> MAX_MONEY G"
  proof
    fix d assume "d \<in> set (vjoinsplit tx)"
    moreover have "vpub_new d \<le> sum_list (map vpub_new (vjoinsplit tx))"
      using calculation r by (intro member_le_sum_list) (auto simp: values_valid_def)
    ultimately show "0 \<le> vpub_new d \<and> vpub_new d \<le> MAX_MONEY G" using r total(2) by (auto simp: values_valid_def)
  qed
  have "check_outputs G t (tx_IsCoinBase tx) (0, False) (vout tx) = Inr (v0, exposes G t tx)"
    using r v(1) assms by (subst check_outputs_iff) (auto simp: values_valid_def v0_def exposes_def)
  moreover have priv: "exposes G t tx \<longrightarrow> ASSETCHAINS_PRIVATE G \<noteq> 0" by (simp add: exposes_def)
  have "check_shielded G t tx (v0, exposes G t tx) = Inr (v, exposes G t tx \<and> vShieldedSpend tx = [])"
    using r v o total(2) js(2) unfolding check_shielded_iff [OF assms(2) o v(1) priv] by (auto simp: values_valid_def privacy_valid_def v_def)
  moreover have "check_joinsplits G t (v, 0, 0, 0) (vjoinsplit tx) =
      Inr (v + sum_list (map vpub_old (vjoinsplit tx)), length (filter (\<lambda>js. vpub_new js = 0 \<and> vpub_old js = 0) (vjoinsplit tx)),
        length (filter (\<lambda>js. vpub_new js = 0 \<and> vpub_old js \<noteq> 0) (vjoinsplit tx)), length (filter (\<lambda>js. vpub_new js \<noteq> 0 \<and> vpub_old js = 0) (vjoinsplit tx)))"
    using r v total(1) new assms by (subst check_joinsplits_iff) (auto simp: values_valid_def privacy_valid_def)
  moreover have e: "exposes G t tx \<and> vShieldedSpend tx = [] \<Longrightarrow> vin tx = [] \<and> vjoinsplit tx \<noteq> [] \<and> (\<forall>js\<in>set (vjoinsplit tx). vpub_new js \<noteq> 0)"
    using r by (auto simp: privacy_valid_def)
  moreover have "\<forall>js\<in>set (vjoinsplit tx). vpub_old js = 0 \<or> vpub_new js = 0" using r by (auto simp: values_valid_def)
  note p = private_counters [OF this, of tx]
  have "check_private G tx (exposes G t tx \<and> vShieldedSpend tx = []) (length (filter (\<lambda>js. vpub_new js = 0 \<and> vpub_old js = 0) (vjoinsplit tx)))
        (length (filter (\<lambda>js. vpub_new js = 0 \<and> vpub_old js \<noteq> 0) (vjoinsplit tx))) (length (filter (\<lambda>js. vpub_new js \<noteq> 0 \<and> vpub_old js = 0) (vjoinsplit tx))) = Inr ()"
    using e p by (auto simp: check_private_def)
  moreover have "check_value_in G tx = Inr ()" using check_value_in_iff [OF assms(2,1) new] total(2) js(2) by (auto simp: total_shielded_in_def)
  ultimately show ?thesis by (simp add: check_amounts_def)
qed

lemma checks_iff:
  assumes "0 \<le> MAX_MONEY G" "MAX_MONEY G < 2 ^ 62"
  shows "CheckTransactionWithoutProofVerification G tiptime ct = Inr () \<longleftrightarrow> tx_valid G tiptime ct"
proof -
  let ?tx = "ct_tx ct"
  note u = unique_iff [of "''bad-txns-inputs-duplicate''" ?tx "''bad-joinsplits-nullifiers-duplicate''" "''bad-spend-description-nullifiers-duplicate''"]
  have "CheckTransactionWithoutProofVerification G tiptime ct = Inr () \<longleftrightarrow>
      check_header ?tx = Inr () \<and> check_amounts G tiptime ?tx = Inr () \<and> check_value_in G ?tx = Inr () \<and> check_txpow G ct = Inr () \<and> unique_valid ?tx"
    using u unfolding CheckTransactionWithoutProofVerification_def Let_def res_bind_unit_iff by blast
  with check_money_sound [OF assms, of tiptime ?tx] check_money_complete [OF assms, of ?tx tiptime] show ?thesis
    unfolding tx_valid_def check_header_iff by blast
qed

end
