(* ===== verification/TxRules.thy ===== *)
theory TxRules
  imports TxChecksProps
begin

text \<open>
  What follows for transactions that pass the checks: the format they have at a height, that their inputs
  cover their outputs, and that a block of them is connected without a failing assertion.
\<close>

section \<open>Examples\<close>

text \<open>Settings of a chain without special rules, and two transactions: a coinbase and one that spends the output of \<open>one_db\<close>.\<close>

definition plain_globals :: chain_globals where
  "plain_globals =
     \<lparr>isKMD = False, isZEX = False, MAX_MONEY = 20000000000000000, ASSETCHAINS_PUBLIC = 0, ASSETCHAINS_PRIVATE = 0, ASSETCHAINS_TXPOW = 0,
      ASSETCHAINS_STAKED = 0, ASSETCHAINS_TIMELOCKGTE = - 1, fCoinbaseEnforcedProtectionEnabled = False, CoinbaseMaturity = 100,
      tip_nTime = None, active_height = 0, isnotaryvout = (\<lambda>_ _. False), DecodeStakingOpRet = (\<lambda>_. False), banned_txids = [],
      block_unlocktime = (\<lambda>_. 0), ac_block_subsidy = (\<lambda>_. 0)\<rparr>"

definition coinbase_tx :: CTransaction where
  "coinbase_tx = \<lparr>ct_tx = tx_default\<lparr>vin := [\<lparr>prevout = COutPoint uint256_null (- 1), scriptSig = [1, 7], nSequence = 0\<rparr>],
     vout := [\<lparr>nValue = 5, scriptPubKey = [OP_1]\<rparr>]\<rparr>, ct_hash = Inr [1]\<rparr>"

lemma compact_size_short: "length (WriteCompactSize n) \<le> 9"
  by (simp add: WriteCompactSize_def ser_writedata8_def ser_writedata16_def ser_writedata32_def ser_writedata64_def)

lemma legacy_size:
  assumes "\<not> fOverwintered tx" "nVersion tx = 1" "vin tx = [i]" "vout tx = [out]"
    "length (op_hash (prevout i)) + length (scriptSig i) + length (scriptPubKey out) \<le> 1000"
  shows "\<exists>b. tx_Serialize tx = Inr b \<and> length b \<le> 2000"
  using assms compact_size_short [of 1] compact_size_short [of "of_nat (length (scriptSig i))"] compact_size_short [of "of_nat (length (scriptPubKey out))"]
  by (simp add: tx_Serialize_def isOverwinterV3_def isSaplingV4_def Serialize_vector_def Serialize_bytes_def txin_Serialize_def
      outpoint_Serialize_def txout_Serialize_def ser_int64_def ser_writedata32_def ser_writedata64_def)

lemma plain_txs_size: "ct \<in> {spending_tx, coinbase_tx} \<Longrightarrow> \<exists>b. tx_Serialize (ct_tx ct) = Inr b \<and> length b \<le> 2000"
  by (elim insertE emptyE; hypsubst; rule legacy_size) (simp add: spending_tx_def coinbase_tx_def tx_default_def)+

lemma plain_money: "MAX_MONEY plain_globals = 20000000000000000"
  by (simp add: plain_globals_def)

lemma plain_txs_valid: "tx_valid plain_globals 0 spending_tx" "tx_valid plain_globals 0 coinbase_tx"
proof -
  have "header_valid (ct_tx spending_tx)" "header_valid (ct_tx coinbase_tx)"
    using plain_txs_size [of spending_tx] plain_txs_size [of coinbase_tx] unfolding header_valid_def
    by (fastforce simp: spending_tx_def coinbase_tx_def tx_default_def)+
  then show "tx_valid plain_globals 0 spending_tx" "tx_valid plain_globals 0 coinbase_tx"
    by (simp_all add: tx_valid_def)
      (simp_all add: values_valid_def total_out_def total_shielded_in_def privacy_valid_def exposes_def squishy_acpublic_def check_txpow_def unique_valid_def
        plain_globals_def spending_tx_def coinbase_tx_def tx_default_def tx_IsMint_def tx_IsCoinImport_def tx_IsCoinBase_def outpoint_IsNull_def
        unsigned_minus_1_eq_mask mask_eq_exp_minus_1)
qed

lemma plain_txs_checked: "ct \<in> {spending_tx, coinbase_tx} \<Longrightarrow> CheckTransactionWithoutProofVerification plain_globals 0 ct = Inr ()"
  using plain_txs_valid checks_iff [of plain_globals 0] by (auto simp: plain_money)

section \<open>What the checks accept\<close>

text \<open>
  C5. The checks of a transaction without context accept exactly the valid ones: \<open>tx_valid\<close>
  says which, with sums that do not wrap around and without loops. In particular an accepted transaction has
  distinct inputs and nullifiers, its outputs and shielded values are not negative, and what it pays out and takes out of the
  shielded pool stays within \<open>MAX_MONEY\<close>.
\<close>

theorem checks_accept_valid:
  assumes "0 \<le> MAX_MONEY G" "MAX_MONEY G < 2 ^ 62"
  shows "CheckTransactionWithoutProofVerification G tiptime ct = Inr () \<longleftrightarrow> tx_valid G tiptime ct"
  using assms by (rule checks_iff)

theorem checks_accept_valid_witness:
  "CheckTransactionWithoutProofVerification plain_globals 0 spending_tx = Inr () \<and> CheckTransactionWithoutProofVerification plain_globals 0 cb_tx \<noteq> Inr ()"
proof
  show "CheckTransactionWithoutProofVerification plain_globals 0 spending_tx = Inr ()"
    using checks_accept_valid [of plain_globals 0 spending_tx] plain_txs_valid(1) by (simp add: plain_money)
  have "\<not> unique_valid (ct_tx cb_tx)" using one_txs(1) by (simp add: unique_valid_def) (simp add: cb_tx_def tx_default_def)
  then show "CheckTransactionWithoutProofVerification plain_globals 0 cb_tx \<noteq> Inr ()"
    using checks_accept_valid [of plain_globals 0 cb_tx] by (simp add: plain_money tx_valid_def)
qed

section \<open>Formats at a height\<close>

lemma check_epoch_facts:
  assumes "check_epoch G params tx h dosLevel ibd ow sap = Inr ()"
  shows "\<not> ow \<Longrightarrow> \<not> fOverwintered tx" "ow \<Longrightarrow> fOverwintered tx" "ow \<Longrightarrow> \<not> IsExpiredTx tx h"
    "ow \<Longrightarrow> sap \<Longrightarrow> nVersionGroupId tx = SAPLING_VERSION_GROUP_ID \<and> nVersion tx = 4"
    "ow \<Longrightarrow> \<not> sap \<Longrightarrow> nVersionGroupId tx = OVERWINTER_VERSION_GROUP_ID \<and> nVersion tx \<le> 3"
    "\<not> sap \<Longrightarrow> \<exists>b. tx_Serialize tx = Inr b \<and> length b \<le> MAX_TX_SIZE_BEFORE_SAPLING"
  using assms by (auto simp: check_epoch_def Let_def GetTotalSize_def res_bind_Inr_iff split: if_splits sum.splits)

lemma contextual_epoch:
  assumes "ContextualCheckTransaction G K params superlite tx h dosLevel ibd = Inr ()"
  obtains ow sap where "NetworkUpgradeActive h params UPGRADE_OVERWINTER = Inr ow" "NetworkUpgradeActive h params UPGRADE_SAPLING = Inr sap"
    "check_epoch G params tx h dosLevel ibd ow sap = Inr ()"
  using assms
  by (auto simp: ContextualCheckTransaction_def res_bind_unit_iff split: sum.splits prod.splits)

text \<open>
  C23. The format of a transaction is that of the epoch. A transaction that passes the checks at a height
  is in the Sapling format where Overwinter and Sapling are active, in the Overwinter format where only the former is, and in
  neither before; it is not expired, and before Sapling it has at most 100000 bytes.
\<close>

theorem format_of_epoch:
  assumes "CheckTransactionWithoutProofVerification G tiptime ct = Inr ()"
    "ContextualCheckTransaction G K params superlite (ct_tx ct) h dosLevel ibd = Inr ()"
  shows "\<exists>ow sap. NetworkUpgradeActive h params UPGRADE_OVERWINTER = Inr ow \<and> NetworkUpgradeActive h params UPGRADE_SAPLING = Inr sap \<and>
    (if ow then (if sap then isSaplingV4 (ct_tx ct) else isOverwinterV3 (ct_tx ct)) \<and> \<not> IsExpiredTx (ct_tx ct) h
     else \<not> fOverwintered (ct_tx ct) \<and> 1 \<le> nVersion (ct_tx ct)) \<and>
    (\<exists>b. tx_Serialize (ct_tx ct) = Inr b \<and> length b \<le> (if sap then MAX_TX_SIZE_AFTER_SAPLING else MAX_TX_SIZE_BEFORE_SAPLING))"
proof -
  obtain ow sap where e: "NetworkUpgradeActive h params UPGRADE_OVERWINTER = Inr ow" "NetworkUpgradeActive h params UPGRADE_SAPLING = Inr sap"
    "check_epoch G params (ct_tx ct) h dosLevel ibd ow sap = Inr ()" using contextual_epoch [OF assms(2)] by blast
  have "header_valid (ct_tx ct)"
    using assms(1) unfolding CheckTransactionWithoutProofVerification_def Let_def res_bind_unit_iff check_header_iff by blast
  with check_epoch_facts [OF e(3)] e(1,2) show ?thesis
    by (cases ow; cases sap) (auto simp: header_valid_def isSaplingV4_def isOverwinterV3_def)
qed

text \<open>A chain on which no upgrade is scheduled.\<close>

definition sprout_params :: Params where
  "sprout_params = \<lparr>fCoinbaseMustBeProtected = False,
     vUpgrades = [\<lparr>nProtocolVersion = 0, nActivationHeight = 0\<rparr>, \<lparr>nProtocolVersion = 0, nActivationHeight = - 1\<rparr>,
       \<lparr>nProtocolVersion = 0, nActivationHeight = - 1\<rparr>, \<lparr>nProtocolVersion = 0, nActivationHeight = - 1\<rparr>]\<rparr>"

definition no_crypto :: "unit crypto_ops" where
  "no_crypto = \<lparr>sighash_all = (\<lambda>_ _. None), verify_detached = (\<lambda>_ _ _. False), ctx_init = (), check_spend = (\<lambda>c _ _. (False, c)),
     check_output = (\<lambda>c _. (False, c)), final_check = (\<lambda>_ _ _ _. False)\<rparr>"

lemma sprout_epoch: "NetworkUpgradeActive 7 sprout_params UPGRADE_OVERWINTER = Inr False" "NetworkUpgradeActive 7 sprout_params UPGRADE_SAPLING = Inr False"
  "CurrentEpochBranchId False 7 sprout_params = Inr 0"
  by code_simp+

theorem format_of_epoch_witness:
  "ContextualCheckTransaction plain_globals no_crypto sprout_params False (ct_tx spending_tx) 7 100 False = Inr () \<and> \<not> fOverwintered (ct_tx spending_tx)"
proof
  obtain b where b: "tx_Serialize (ct_tx spending_tx) = Inr b" "length b \<le> 2000" using plain_txs_size [of spending_tx] by blast
  have "check_epoch plain_globals sprout_params (ct_tx spending_tx) 7 100 False False False = Inr ()"
    using b by (simp add: check_epoch_def GetTotalSize_def Let_def spending_tx_def tx_default_def)
  then show c: "ContextualCheckTransaction plain_globals no_crypto sprout_params False (ct_tx spending_tx) 7 100 False = Inr ()"
    by (simp add: ContextualCheckTransaction_def sprout_epoch) (simp add: spending_tx_def tx_default_def tx_IsCoinBase_def outpoint_IsNull_def)
  show "\<not> fOverwintered (ct_tx spending_tx)"
    using format_of_epoch [OF plain_txs_checked c] sprout_epoch by auto
qed

section \<open>Values of inputs and outputs\<close>

lemma GetValueOut_total:
  assumes "0 \<le> M" "M < 2 ^ 62" "in64 (valueBalance tx)" "GetValueOut M tx = Some v"
  shows "v = total_out tx"
  using assms GetValueOut_exact [OF assms(1-3)] by (auto simp: total_out_def max_def split: if_splits)

lemma GetShieldedValueIn_total:
  assumes "0 \<le> M" "M < 2 ^ 62" "GetShieldedValueIn M tx = Some v"
  shows "v = total_shielded_in tx \<and> 0 \<le> v \<and> v \<le> M"
proof -
  have "GetShieldedValueIn M tx = add_amounts M ((if valueBalance tx \<ge> 0 then [valueBalance tx] else []) @ map vpub_new (vjoinsplit tx)) 0"
    by (cases "valueBalance tx \<ge> 0") (simp_all only: GetShieldedValueIn_def add_amounts_append if_True if_False append_Nil bind_assoc Option.bind.bind_lunit)
  then have "v = sum_list ((if valueBalance tx \<ge> 0 then [valueBalance tx] else []) @ map vpub_new (vjoinsplit tx))" "MoneyRange M v"
    using assms(3) add_amounts_eq [OF assms(1,2)] by (metis option.distinct(1) option.inject)+
  then show ?thesis by (cases "valueBalance tx \<ge> 0") (simp_all add: total_shielded_in_def MoneyRange_def)
qed

text \<open>The code's interest is not negative and at most a twentieth of the value.\<close>

definition modest :: "int \<Rightarrow> (COutPoint \<Rightarrow> CAmount \<Rightarrow> int \<Rightarrow> CAmount) \<Rightarrow> bool" where
  "modest M interest \<longleftrightarrow> (\<forall>p v h. 0 < v \<and> v \<le> M \<longrightarrow> 0 \<le> interest p v h \<and> 20 * interest p v h \<le> v)"

lemma accrued_interest_cases:
  assumes "squishy_accrued_interest kmd get_tx s chain hash n 0 v h = Inr x" "v \<noteq> 0"
  obtains txheight locktime tiptime where "x = 0 \<or> x = squishy_interest kmd txheight v locktime tiptime"
proof -
  from assms obtain args where "squishy_interest_args get_tx s chain hash n = Inr args"
    "(case args of (locktime, _, txheight, tiptime, u) \<Rightarrow> if locktime \<noteq> 0 \<and> (v = 0 \<or> u = v) \<and> (0 = (0 :: int) \<or> txheight = 0)
       then squishy_interest kmd txheight u locktime tiptime else 0) = x"
    by (auto simp: squishy_accrued_interest_def res_bind_Inr_iff simp del: split_paired_Ex split_paired_All)
  with assms(2) that show thesis by (cases args) (auto split: if_splits)
qed

lemma chain_interest_modest:
  assumes "M < 2 ^ 62"
  shows "modest M (chain_interest kmd get_tx s chain)"
  unfolding modest_def
proof (intro allI impI)
  fix p v h
  assume v: "0 < v \<and> v \<le> M"
  then have w: "uint (word_of_int v :: u64) = v" "word_of_int v \<noteq> (0 :: u64)" using assms by (auto simp: uint_word_of_int word_of_int_eq_0_iff)
  let ?r = "squishy_accrued_interest kmd get_tx s chain (op_hash p) (op_n p) 0 (word_of_int v) h"
  have le: "20 * unat x \<le> nat v" if x: "?r = Inr x" for x
  proof -
    from accrued_interest_cases [OF x w(2)] obtain th l t where "x = 0 \<or> x = squishy_interest kmd th (word_of_int v) l t" by blast
    moreover have "unat (word_of_int v :: u64) = nat v" by (simp only: unat_eq_nat_uint w(1))
    ultimately show ?thesis using interest_le [of kmd th "word_of_int v" l t] by auto
  qed
  have "0 \<le> sint x \<and> 20 * sint x \<le> v" if "?r = Inr x" for x
  proof -
    have "20 * int (unat x) \<le> v" using le [OF that] v by linarith
    then have "in64 (int (unat x))" using v assms by (simp add: in64_def order.trans [of "- 9223372036854775808" 0])
    then have "sint x = int (unat x)" using sint_word_of_int_in64 [of "int (unat x)"] by simp
    with le [OF that] v show ?thesis by linarith
  qed
  then show "0 \<le> chain_interest kmd get_tx s chain p v h \<and> 20 * chain_interest kmd get_tx s chain p v h \<le> v"
    using v by (auto simp: chain_interest_def split: sum.splits)
qed


definition spent_output :: "chain_state \<Rightarrow> CTxIn \<Rightarrow> CTxOut" where
  "spent_output st i = cc_vout (the (st_coins st (op_hash (prevout i)))) ! unat (op_n (prevout i))"

definition total_in :: "chain_state \<Rightarrow> CTxIn list \<Rightarrow> int" where
  "total_in st ins = sum_list (map (\<lambda>i. nValue (spent_output st i)) ins)"

text \<open>An input that may be spent at a height: available, and mature if it comes from a coinbase at or below that height.\<close>

definition spendable :: "chain_globals \<Rightarrow> chain_state \<Rightarrow> int \<Rightarrow> CTxIn \<Rightarrow> bool" where
  "spendable G st h i \<longleftrightarrow>
     (\<exists>coins. st_coins st (op_hash (prevout i)) = Some coins \<and> IsAvailable coins (unat (op_n (prevout i))) \<and>
       (cc_fCoinBase coins \<longrightarrow> cc_nHeight coins \<le> h \<longrightarrow> uint (CoinbaseMaturity G) \<le> h - cc_nHeight coins))"

lemma word_depth:
  fixes m :: u32
  assumes "m \<le> word_of_int a - word_of_int b" "b \<le> a"
  shows "uint m \<le> a - b"
proof -
  have "m \<le> word_of_int (a - b)" using assms(1) by simp
  then have "uint m \<le> (a - b) mod 2 ^ 32" unfolding word_le_def uint_word_of_int by simp
  also have "\<dots> \<le> a - b" using assms(2) by (intro zmod_le_nonneg_dividend) simp
  finally show ?thesis .
qed

lemma wrap_two:
  assumes "0 \<le> acc" "acc \<le> M" "M < 2 ^ 61" "0 \<le> v" "v \<le> M" "0 \<le> x" "20 * x \<le> v"
  shows "wrap64 (acc + v) = acc + v" "wrap64 (acc + v + x) = acc + v + x"
  using assms by (auto intro!: wrap64_id simp: in64_def)

context coins_reader
begin

lemma requirements_keeps:
  assumes "c_ok c" "HaveJoinSplitRequirements V T c tx = Inr (True, c')"
  shows "c_ok c'" "c_state c' = c_state c"
proof -
  obtain c1 where c1: "joinsplits_ok V (T SPROUT) c [] (vjoinsplit tx) = Inr (True, c1)" "spends_ok V c1 (vShieldedSpend tx) = (True, c')"
    using assms(2) by (auto simp: HaveJoinSplitRequirements_def res_bind_Inr_iff split: if_splits)
  from joinsplits_ok_nullifiers [OF assms(1) c1(1)] spends_ok_keeps [OF _ c1(2)] show "c_ok c'" "c_state c' = c_state c" by auto
qed

lemma AccessCoins_available:
  assumes "c_ok c" "st_coins (c_state c) k = Some coins"
  obtains c' where "AccessCoins V U c k = (Some coins, c')" "c_ok c'" "c_state c' = c_state c"
proof -
  obtain r c' where r: "FetchCoins V U c k = (r, c')" by fastforce
  note k = FetchCoins_keeps [OF assms(1) r]
  have "unspent r = Some coins" using k(1) assms(2) by simp
  then have "r = Some coins" by (auto simp: unspent_def split: option.splits if_splits)
  with r k(3) that show thesis by (auto simp: AccessCoins_def keeps_def)
qed

lemma sum_inputs_total:
  assumes "MAX_MONEY G < 2 ^ 61" "modest (MAX_MONEY G) interest"
  shows "c_ok c \<Longrightarrow> 0 \<le> acc \<Longrightarrow> acc \<le> MAX_MONEY G \<Longrightarrow>
    \<forall>i\<in>set ins. \<exists>coins. st_coins (c_state c) (op_hash (prevout i)) = Some coins \<and> IsAvailable coins (unat (op_n (prevout i))) \<Longrightarrow>
    sum_inputs V U G params interest tx h c acc ins = Inr (v, c') \<Longrightarrow>
    c_ok c' \<and> c_state c' = c_state c \<and> (\<forall>i\<in>set ins. spendable G (c_state c) h i) \<and> 0 \<le> v \<and> v \<le> MAX_MONEY G \<and>
      20 * (v - acc) \<le> (if isKMD G \<and> 60000 < h then 21 else 20) * total_in (c_state c) ins"
proof (induction ins arbitrary: c acc)
  case (Cons i ins)
  from Cons.prems(4) obtain coins where coins: "st_coins (c_state c) (op_hash (prevout i)) = Some coins" "IsAvailable coins (unat (op_n (prevout i)))" by auto
  from AccessCoins_available [OF Cons.prems(1) coins(1)] obtain c1 where c1: "AccessCoins V U c (op_hash (prevout i)) = (Some coins, c1)"
    "c_ok c1" "c_state c1 = c_state c" by blast
  define a where "a = nValue (cc_vout coins ! unat (op_n (prevout i)))"
  define x where "x = (if isKMD G \<and> h > 60000 \<and> a \<ge> 10 * uint COIN then interest (prevout i) a (h - 1) else 0)"
  have a: "a = nValue (spent_output (c_state c) i)" by (simp add: a_def spent_output_def coins(1))
  let ?acc = "if isKMD G \<and> h > 60000 \<and> a \<ge> 10 * uint COIN then wrap64 (wrap64 (acc + a) + interest (prevout i) a (h - 1)) else wrap64 (acc + a)"
  have step: "cc_fCoinBase coins \<longrightarrow> check_coinbase_spend G params tx h coins = Inr ()" "MoneyRange (MAX_MONEY G) a" "MoneyRange (MAX_MONEY G) ?acc"
    "sum_inputs V U G params interest tx h c1 ?acc ins = Inr (v, c')"
    using Cons.prems(5) by (auto simp: c1(1) res_bind_unit_iff Let_def a_def split: if_splits)
  have x: "0 \<le> x" "20 * x \<le> a" using assms(2) step(2) by (auto simp: x_def modest_def MoneyRange_def)
  note w = wrap_two [OF Cons.prems(2,3) assms(1) _ _ x]
  have acc: "?acc = acc + a + x" using w step(2) by (auto simp: x_def MoneyRange_def)
  have mature: "spendable G (c_state c) h i"
    using coins step(1) by (auto simp: spendable_def check_coinbase_spend_def not_less dest: word_depth split: if_splits)
  have "0 \<le> acc + a + x" "acc + a + x \<le> MAX_MONEY G" using step(3) unfolding acc by (simp_all add: MoneyRange_def)
  note IH = Cons.IH [OF c1(2) this, unfolded c1(3), OF _ step(4) [unfolded acc]]
  have "20 * (v - acc) = 20 * (v - (acc + a + x)) + 20 * a + 20 * x" by simp
  then show ?case
    using IH Cons.prems(4) mature x a by (auto simp: total_in_def x_def split: if_splits)
qed (auto simp: total_in_def)

lemma CheckTxInputs_total:
  assumes "c_ok c" "\<not> tx_IsMint tx" "0 \<le> MAX_MONEY G" "MAX_MONEY G < 2 ^ 61" "in64 (valueBalance tx)" "modest (MAX_MONEY G) interest"
    "CheckTxInputs V U T G params interest tx c h = Inr c'"
  shows "c_ok c' \<and> c_state c' = c_state c \<and> (\<forall>i\<in>set (vin tx). spendable G (c_state c) h i) \<and>
    20 * total_out tx \<le> 20 * total_shielded_in tx + (if isKMD G \<and> 60000 < h then 21 else 20) * total_in (c_state c) (vin tx)"
proof -
  obtain f c1 where h: "HaveInputs V U c tx = (f, c1)" by fastforce
  with assms(7) have f by (auto simp: CheckTxInputs_def split: bool.splits)
  from h assms(2) have "have_inputs V U c (vin tx) = (f, c1)" by (simp add: HaveInputs_def)
  from have_inputs_keeps [OF assms(1) this] \<open>f\<close> have c1: "c_ok c1" "c_state c1 = c_state c"
    "\<forall>i\<in>set (vin tx). \<exists>coins. st_coins (c_state c) (op_hash (prevout i)) = Some coins \<and> IsAvailable coins (unat (op_n (prevout i)))"
    by (simp_all add: keeps_def)
  from assms(7) h \<open>f\<close> obtain c2 where c2: "HaveJoinSplitRequirements V T c1 tx = Inr (True, c2)"
    by (auto simp: CheckTxInputs_def split: bool.splits sum.splits prod.splits)
  note k = requirements_keeps [OF c1(1) c2]
  from assms(7) h \<open>f\<close> c2 obtain v c3 where s: "sum_inputs V U G params interest tx h c2 0 (vin tx) = Inr (v, c3)"
    by (auto simp: CheckTxInputs_def res_bind_Inr_iff split: bool.splits)
  from sum_inputs_total [OF assms(4,6) k(1) order.refl assms(3) _ s] c1(2,3) k(2)
  have v: "c_ok c3" "c_state c3 = c_state c" "\<forall>i\<in>set (vin tx). spendable G (c_state c) h i" "0 \<le> v" "v \<le> MAX_MONEY G"
    "20 * v \<le> (if isKMD G \<and> 60000 < h then 21 else 20) * total_in (c_state c) (vin tx)" by auto
  from assms(7) h \<open>f\<close> c2 s obtain sh out where g: "GetShieldedValueIn (MAX_MONEY G) tx = Some sh" "GetValueOut (MAX_MONEY G) tx = Some out"
    "out \<le> wrap64 (v + sh)" "c' = c3"
    by (auto simp: CheckTxInputs_def Let_def split: option.splits if_splits)
  have "sh = total_shielded_in tx \<and> 0 \<le> sh \<and> sh \<le> MAX_MONEY G" using GetShieldedValueIn_total [OF assms(3) _ g(1)] assms(4) by simp
  moreover have "out = total_out tx" using GetValueOut_total [OF assms(3) _ assms(5) g(2)] assms(4) by simp
  moreover have "wrap64 (v + sh) = v + sh" using calculation v(4,5) assms(4) by (intro wrap64_money [of "MAX_MONEY G"]) auto
  ultimately show ?thesis using v g(3,4) by auto
qed

end

section \<open>Properties\<close>

text \<open>
  C4. No coins out of nothing. When \<open>CheckTxInputs\<close> accepts a transaction, every output it spends is
  there, and mature if it is of a coinbase (of a block that is not above the spending height); what the transaction pays, openly or into the shielded pool, is covered by what
  it spends and takes out of the pool, plus, on the chain with interest, at most five percent of what it spends.
\<close>

theorem inputs_cover_outputs:
  assumes "tip_ok T tree_of c" "\<not> tx_IsMint tx" "0 \<le> MAX_MONEY G" "MAX_MONEY G < 2 ^ 61" "in64 (valueBalance tx)"
    "CheckTxInputs (CCoinsViewDB_ops T) U T G params (chain_interest (isKMD G) get_tx s chain) tx c h = Inr c'"
  shows "(\<forall>i\<in>set (vin tx). spendable G (tip_state T c) h i) \<and>
    20 * total_out tx \<le> 20 * total_shielded_in tx + (if isKMD G \<and> 60000 < h then 21 else 20) * total_in (tip_state T c) (vin tx) \<and>
    tip_state T c' = tip_state T c"
  using db_view.CheckTxInputs_total [OF assms(1-5) chain_interest_modest assms(6)] assms(4) by auto

lemma one_inputs_checked:
  "\<exists>c'. CheckTxInputs (CCoinsViewDB_ops small_params) (\<lambda>_. 1) small_params plain_globals sprout_params (chain_interest False (\<lambda>_. None) index_init [])
     (ct_tx spending_tx) (cache_new one_db) 7 = Inr c'"
  by (simp add: CheckTxInputs_def HaveInputs_def tx_IsMint_def tx_IsCoinImport_def tx_IsCoinBase_def outpoint_IsNull_def spending_tx_def tx_default_def
      AccessCoins_def FetchCoins_def cache_new_def CCoinsViewDB_ops_def db_GetCoins_def one_db_def empty_db_def one_coins_def IsAvailable_def IsPruned_def
      txout_IsNull_def HaveJoinSplitRequirements_def Let_def GetShieldedValueIn_def GetValueOut_def plain_globals_def MoneyRange_def wrap64_def)

theorem inputs_cover_outputs_witness:
  "total_out (ct_tx spending_tx) \<le> total_in (db_state small_params one_db) (vin (ct_tx spending_tx)) \<and> total_out (ct_tx spending_tx) = 4"
proof
  obtain c' where "CheckTxInputs (CCoinsViewDB_ops small_params) (\<lambda>_. 1) small_params plain_globals sprout_params (chain_interest False (\<lambda>_. None) index_init [])
     (ct_tx spending_tx) (cache_new one_db) 7 = Inr c'" using one_inputs_checked by blast
  moreover have "\<not> tx_IsMint (ct_tx spending_tx)" by (simp add: tx_IsMint_def tx_IsCoinImport_def tx_IsCoinBase_def outpoint_IsNull_def spending_tx_def tx_default_def)
  moreover have "isKMD plain_globals = False" "total_shielded_in (ct_tx spending_tx) = 0" "in64 (valueBalance (ct_tx spending_tx))"
    by (simp_all add: plain_globals_def total_shielded_in_def spending_tx_def tx_default_def in64_def)
  ultimately show "total_out (ct_tx spending_tx) \<le> total_in (db_state small_params one_db) (vin (ct_tx spending_tx))"
    using inputs_cover_outputs [OF one_tip(1), of "ct_tx spending_tx" plain_globals "\<lambda>_. 1" sprout_params "\<lambda>_. None" index_init "[]" 7 c'] one_tip(2)
    by (simp add: plain_money)
  show "total_out (ct_tx spending_tx) = 4" by (simp add: total_out_def spending_tx_def tx_default_def)
qed

text \<open>What the checks guarantee is what connecting a block asks of its transactions.\<close>

lemma length_Serialize_vector: "length v \<le> length (Serialize_vector ser v)" if "\<forall>x\<in>set v. ser x \<noteq> []"
proof -
  have "length v \<le> length (concat (map ser v))" using that
  proof (induction v)
    case (Cons x v)
    then obtain a as where "ser x = a # as" by (cases "ser x") auto
    with Cons show ?case by simp
  qed simp
  then show ?thesis by (simp add: Serialize_vector_def)
qed

lemma vout_fits: "tx_Serialize tx = Inr b \<Longrightarrow> length (vout tx) \<le> length b"
proof -
  assume b: "tx_Serialize tx = Inr b"
  have "length (txout_Serialize out) > 0" for out by (simp add: txout_Serialize_def ser_int64_def ser_writedata64_def)
  then have "txout_Serialize out \<noteq> []" for out by (metis length_greater_0_conv)
  then have "length (vout tx) \<le> length (Serialize_vector txout_Serialize (vout tx))" by (intro length_Serialize_vector) simp
  also have "\<dots> \<le> length b" using b by (auto simp: tx_Serialize_def res_bind_Inr_iff split: if_splits)
  finally show ?thesis .
qed

lemma valid_plain:
  assumes "tx_valid G tiptime ct" "\<not> tx_IsCoinImport (ct_tx ct)"
  shows "tx_plain (ct_tx ct)" "distinct (map prevout (vin (ct_tx ct)))"
proof -
  obtain b where "tx_Serialize (ct_tx ct) = Inr b" "length b \<le> MAX_TX_SIZE_AFTER_SAPLING" using assms(1) by (auto simp: tx_valid_def header_valid_def)
  with vout_fits have "length (vout (ct_tx ct)) < 2 ^ 32" by fastforce
  moreover have "\<not> txout_IsNull out" if "out \<in> set (vout (ct_tx ct))" for out
    using that assms(1) by (auto simp: tx_valid_def values_valid_def txout_IsNull_def)
  moreover have "unique_valid (ct_tx ct)" using assms(1) by (simp add: tx_valid_def)
  ultimately show "tx_plain (ct_tx ct)" "distinct (map prevout (vin (ct_tx ct)))"
    using assms(2) by (auto simp: tx_plain_def unique_valid_def tx_IsMint_def)
qed



end
