(* ===== verification/StdMap.thy ===== *)
theory StdMap
  imports Prelude "HOL-Library.List_Lexorder"
begin

text \<open>
  The ordered containers of the standard library, \<open>std::map\<close> and the ordered index of a
  \<open>boost::multi_index_container\<close>: a list of keys and values with ascending keys, which is
  the order in which the code iterates. A lookup is \<^const>\<open>map_of\<close>. The lemmas say that the operations
  keep the order and act on the lookups as on a finite map, so that clients reason with map updates.
\<close>

type_synonym ('k, 'v) std_map = "('k \<times> 'v) list"

text \<open>\<open>m[k] = v\<close>.\<close>

fun std_set :: "('k::linorder, 'v) std_map \<Rightarrow> 'k \<Rightarrow> 'v \<Rightarrow> ('k, 'v) std_map" where
  "std_set [] k v = [(k, v)]"
| "std_set ((k', v') # m) k v =
     (if k < k' then (k, v) # (k', v') # m else if k = k' then (k, v) # m else (k', v') # std_set m k v)"

text \<open>\<open>insert\<close> leaves an element with the same key as it is.\<close>

definition std_insert :: "('k::linorder, 'v) std_map \<Rightarrow> 'k \<Rightarrow> 'v \<Rightarrow> ('k, 'v) std_map" where
  "std_insert m k v = (if map_of m k = None then std_set m k v else m)"

definition std_erase :: "('k, 'v) std_map \<Rightarrow> 'k \<Rightarrow> ('k, 'v) std_map" where
  "std_erase m k = filter (\<lambda>(k', _). k' \<noteq> k) m"

text \<open>The elements from the iterator that \<open>lower_bound\<close> returns to the end.\<close>

definition std_lower_bound :: "('k::linorder, 'v) std_map \<Rightarrow> 'k \<Rightarrow> ('k, 'v) std_map" where
  "std_lower_bound m k = dropWhile (\<lambda>(k', _). k' < k) m"

definition std_ok :: "('k::linorder, 'v) std_map \<Rightarrow> bool" where
  "std_ok m \<longleftrightarrow> sorted_wrt (<) (map fst m)"

lemma std_ok_simps [simp]:
  "std_ok []"
  "std_ok ((k, v) # m) \<longleftrightarrow> (\<forall>k'\<in>fst ` set m. k < k') \<and> std_ok m"
  by (auto simp: std_ok_def)

lemma std_ok_distinct: "std_ok m \<Longrightarrow> distinct (map fst m)"
  by (simp add: std_ok_def strict_sorted_iff)

lemma std_set_keys [simp]: "fst ` set (std_set m k v) = insert k (fst ` set m)"
  by (induction m k v rule: std_set.induct) auto

lemma std_set_ok [simp]: "std_ok m \<Longrightarrow> std_ok (std_set m k v)"
  by (induction m k v rule: std_set.induct) auto

lemma std_set_lookup [simp]: "std_ok m \<Longrightarrow> map_of (std_set m k v) = (map_of m)(k \<mapsto> v)"
proof (induction m k v rule: std_set.induct)
  case (2 k' v' m k v)
  show ?case
  proof (cases "k' < k")
    case True
    with 2 show ?thesis by (auto simp: fun_eq_iff)
  next
    case False
    then show ?thesis by (auto simp: fun_eq_iff)
  qed
qed simp

lemma std_insert_simps [simp]:
  assumes "std_ok m"
  shows "std_ok (std_insert m k v)"
    and "map_of (std_insert m k v) = (if k \<in> dom (map_of m) then map_of m else (map_of m)(k \<mapsto> v))"
  using assms by (auto simp: std_insert_def)

lemma std_erase_ok [simp]: "std_ok m \<Longrightarrow> std_ok (std_erase m k)"
  by (auto simp: std_ok_def std_erase_def sorted_wrt_map intro: sorted_wrt_filter)

lemma std_erase_lookup [simp]: "map_of (std_erase m k) = (map_of m)(k := None)"
  by (induction m) (auto simp: std_erase_def fun_eq_iff)

lemma std_erase_set [simp]: "set (std_erase m k) = {(k', v)\<in>set m. k' \<noteq> k}"
  by (auto simp: std_erase_def)

lemma std_erase_absent: "map_of m k = None \<Longrightarrow> std_erase m k = m"
  by (force simp: std_erase_def map_of_eq_None_iff intro!: filter_True)

lemma std_erase_length: "map_of m k = Some v \<Longrightarrow> length (std_erase m k) < length m"
  unfolding std_erase_def by (rule length_filter_less [of "(k, v)"]) (auto dest: map_of_SomeD)

lemma std_set_member: "k \<notin> fst ` set m \<Longrightarrow> set (std_set m k v) = insert (k, v) (set m)"
  by (induction m k v rule: std_set.induct) auto

lemma std_lookup_member: "std_ok m \<Longrightarrow> map_of m k = Some v \<longleftrightarrow> (k, v) \<in> set m"
  by (rule map_of_eq_Some_iff) (rule std_ok_distinct)

lemma std_set_sum_list:
  fixes f :: "'k::linorder \<times> 'v \<Rightarrow> 'm::comm_monoid_add"
  assumes "k \<notin> fst ` set m"
  shows "sum_list (map f (std_set m k v)) = f (k, v) + sum_list (map f m)"
  using assms by (induction m k v rule: std_set.induct) (auto simp: algebra_simps)

lemma std_erase_sum_list:
  fixes f :: "'k::linorder \<times> 'v \<Rightarrow> 'm::ab_group_add"
  assumes "std_ok m" "map_of m k = Some v"
  shows "sum_list (map f (std_erase m k)) = sum_list (map f m) - f (k, v)"
  using assms
proof (induction m)
  case (Cons a m)
  obtain k' v' where a: "a = (k', v')" by force
  show ?case
  proof (cases "k' = k")
    case True
    with Cons.prems a have "map_of m k = None" by (auto simp: map_of_eq_None_iff)
    with Cons.prems a True show ?thesis using std_erase_absent [of m k] by (simp add: std_erase_def)
  next
    case False
    with Cons a show ?thesis by (simp add: std_erase_def algebra_simps)
  qed
qed simp

section \<open>Several keys\<close>

definition std_sets :: "('k::linorder, 'v) std_map \<Rightarrow> ('k \<times> 'v) list \<Rightarrow> ('k, 'v) std_map" where
  "std_sets m kvs = foldl (\<lambda>m (k, v). std_set m k v) m kvs"

definition std_erases :: "('k, 'v) std_map \<Rightarrow> 'k list \<Rightarrow> ('k, 'v) std_map" where
  "std_erases m ks = foldl std_erase m ks"

lemma std_sets_simps [simp]:
  "std_sets m [] = m"
  "std_sets m ((k, v) # kvs) = std_sets (std_set m k v) kvs"
  by (simp_all add: std_sets_def)

lemma std_erases_simps [simp]:
  "std_erases m [] = m"
  "std_erases m (k # ks) = std_erases (std_erase m k) ks"
  by (simp_all add: std_erases_def)

lemma std_sets_ok [simp]: "std_ok m \<Longrightarrow> std_ok (std_sets m kvs)"
  by (induction kvs arbitrary: m) auto

lemma std_erases_ok [simp]: "std_ok m \<Longrightarrow> std_ok (std_erases m ks)"
  by (induction ks arbitrary: m) auto

lemma std_sets_lookup: "std_ok m \<Longrightarrow> map_of (std_sets m kvs) = map_of m ++ map_of (rev kvs)"
  by (induction kvs arbitrary: m) (auto simp: map_of_append)

lemma std_erases_lookup: "map_of (std_erases m ks) k = (if k \<in> set ks then None else map_of m k)"
  by (induction ks arbitrary: m) auto

section \<open>Ranges\<close>

text \<open>An iteration from \<open>lower_bound\<close> as long as a property holds visits exactly the elements with it, if the keys with it are a range.\<close>

lemma std_range:
  assumes ok: "std_ok m" and low: "\<And>k'. in_range k' \<Longrightarrow> k \<le> k'"
    and conv: "\<And>a b. in_range b \<Longrightarrow> k \<le> a \<Longrightarrow> a \<le> b \<Longrightarrow> in_range a"
  shows "takeWhile (\<lambda>(k', _). in_range k') (std_lower_bound m k) = filter (\<lambda>(k', _). in_range k') m"
  using ok
proof (induction m)
  case (Cons a m)
  obtain k' v' where a: "a = (k', v')" by force
  show ?case
  proof (cases "k' < k")
    case True
    with low [of k'] have "\<not> in_range k'" by auto
    with True Cons a show ?thesis by (simp add: std_lower_bound_def)
  next
    case False
    show ?thesis
    proof (cases "in_range k'")
      case True
      have "std_lower_bound m k = m"
        using Cons.prems a False by (cases m) (fastforce simp: std_lower_bound_def)+
      with Cons a True False show ?thesis by (simp add: std_lower_bound_def)
    next
      case out: False
      have "\<not> in_range k2" if "k2 \<in> fst ` set m" for k2
        using conv [of k2 k'] that Cons.prems a False out by fastforce
      then have "filter (\<lambda>(k', _). in_range k') m = []" by (force simp: filter_empty_conv)
      with out False a show ?thesis by (simp add: std_lower_bound_def)
    qed
  qed
qed (simp add: std_lower_bound_def)

end
