(* ===== verification/Mempool.thy ===== *)
theory Mempool
  imports StdMap TxChecks
begin

text \<open>
  The memory pool of \<^verbatim>\<open>src/txmempool.cpp\<close> and \<^verbatim>\<open>src/txmempool.h\<close>: the transactions that
  wait for a block, and the indices that say which of them spends an output or reveals a nullifier.

  The indices hold pointers to the transactions that the nodes of \<open>mapTx\<close> own. A node has an address, which
  its insertion takes from the allocator (an argument), and \<open>deref\<close> finds the transaction at an
  address as long as the node lives: a pointer to a node that was erased dangles, and to follow it is an error. The
  transactions' hashes are cached by \<open>CTransaction\<close>; \<open>tx_hash\<close> reads them.

  Values of type \<open>double\<close> are of any type with an addition and a zero; the fee estimator, whose results
  nothing here uses, is a state and its three operations.
\<close>

section \<open>Entries\<close>

record 'd CTxMemPoolEntry =
  e_tx :: CTransaction
  e_nFee :: CAmount
  e_nTxSize :: u64
  e_nModSize :: u64
  e_nUsageSize :: u64
  e_feeRate :: CFeeRate
  e_nTime :: int
  e_dPriority :: 'd
  e_nHeight :: u32
  e_hadNoDependencies :: bool
  e_spendsCoinbase :: bool
  e_nBranchId :: u32

definition CTxMemPoolEntry_new ::
    "(CTransaction \<Rightarrow> u64) \<Rightarrow> CTransaction \<Rightarrow> CAmount \<Rightarrow> int \<Rightarrow> 'd \<Rightarrow> u32 \<Rightarrow> bool \<Rightarrow> bool \<Rightarrow> u32 \<Rightarrow> ser_error + 'd CTxMemPoolEntry" where
  "CTxMemPoolEntry_new RecursiveDynamicUsage tx nFee nTime dPriority height poolHasNoInputsOf spendsCoinbase nBranchId =
     res_bind (GetTotalSize (ct_tx tx)) (\<lambda>nTxSize.
     res_bind (CalculateModifiedSize (ct_tx tx) nTxSize) (\<lambda>nModSize.
       Inr \<lparr>e_tx = tx, e_nFee = nFee, e_nTxSize = of_nat nTxSize, e_nModSize = of_nat nModSize, e_nUsageSize = RecursiveDynamicUsage tx,
            e_feeRate = CFeeRate_of nFee nTxSize, e_nTime = nTime, e_dPriority = dPriority, e_nHeight = height,
            e_hadNoDependencies = poolHasNoInputsOf, e_spendsCoinbase = spendsCoinbase, e_nBranchId = nBranchId\<rparr>))"

text \<open>The order of the second index of \<open>mapTx\<close>.\<close>

definition CompareTxMemPoolEntryByFee :: "'d CTxMemPoolEntry \<Rightarrow> 'd CTxMemPoolEntry \<Rightarrow> bool" where
  "CompareTxMemPoolEntryByFee a b \<longleftrightarrow> (if nSatoshisPerK (e_feeRate a) = nSatoshisPerK (e_feeRate b) then e_nTime a < e_nTime b else nSatoshisPerK (e_feeRate a) > nSatoshisPerK (e_feeRate b))"

section \<open>The pool\<close>

type_synonym tx_ptr = nat

datatype CInPoint = CInPoint (ip_ptx: tx_ptr) (ip_n: u32)

record 'd pool_node =
  pn_addr :: tx_ptr
  pn_entry :: "'d CTxMemPoolEntry"

abbreviation node_tx :: "'d pool_node \<Rightarrow> CTransaction" where
  "node_tx node \<equiv> e_tx (pn_entry node)"

record CMempoolAddressDelta =
  ad_time :: int
  ad_amount :: CAmount
  ad_prevhash :: uint256
  ad_prevout :: u32

datatype CMempoolAddressDeltaKey =
  CMempoolAddressDeltaKey (ak_type: int) (ak_addressBytes: bytes) (ak_txhash: uint256) (ak_index: u32) (ak_spending: int)

definition address_key_less :: "CMempoolAddressDeltaKey \<Rightarrow> CMempoolAddressDeltaKey \<Rightarrow> bool" where
  "address_key_less a b =
     (if ak_type a = ak_type b
      then if ak_addressBytes a = ak_addressBytes b
           then if ak_txhash a = ak_txhash b
                then if ak_index a = ak_index b then ak_spending a < ak_spending b else ak_index a < ak_index b
                else ak_txhash a < ak_txhash b
           else ak_addressBytes a < ak_addressBytes b
      else ak_type a < ak_type b)"

instantiation CMempoolAddressDeltaKey :: linorder
begin

definition less_CMempoolAddressDeltaKey :: "CMempoolAddressDeltaKey \<Rightarrow> CMempoolAddressDeltaKey \<Rightarrow> bool" where
  "less_CMempoolAddressDeltaKey = address_key_less"

definition less_eq_CMempoolAddressDeltaKey :: "CMempoolAddressDeltaKey \<Rightarrow> CMempoolAddressDeltaKey \<Rightarrow> bool" where
  "less_eq_CMempoolAddressDeltaKey a b \<longleftrightarrow> address_key_less a b \<or> a = b"

instance
proof
  fix a b c :: CMempoolAddressDeltaKey
  show "(a < b) = (a \<le> b \<and> \<not> b \<le> a)"
    by (auto simp: less_CMempoolAddressDeltaKey_def less_eq_CMempoolAddressDeltaKey_def address_key_less_def split: if_splits)
  show "a \<le> a" by (simp add: less_eq_CMempoolAddressDeltaKey_def)
  show "a \<le> c" if "a \<le> b" "b \<le> c"
    using that unfolding less_eq_CMempoolAddressDeltaKey_def address_key_less_def by (cases a; cases b; cases c) (auto split: if_splits)
  show "a = b" if "a \<le> b" "b \<le> a"
    using that unfolding less_eq_CMempoolAddressDeltaKey_def address_key_less_def by (cases a; cases b) (auto split: if_splits)
  show "a \<le> b \<or> b \<le> a"
    unfolding less_eq_CMempoolAddressDeltaKey_def address_key_less_def by (cases a; cases b) (auto split: if_splits)
qed

end

text \<open>The key of a spent output is ordered as a \<open>COutPoint\<close> is, and has its two fields.\<close>

type_synonym CSpentIndexKey = COutPoint

record CSpentIndexValue =
  sv_txid :: uint256
  sv_inputIndex :: u32
  sv_blockHeight :: int
  sv_satoshis :: CAmount
  sv_addressType :: int
  sv_addressHash :: bytes

record ('d, 'e) CTxMemPool =
  nCheckFrequency :: u32
  nTransactionsUpdated :: u32
  minerPolicyEstimator :: 'e
  totalTxSize :: u64
  cachedInnerUsage :: u64
  mapRecentlyAddedTx :: "(uint256, tx_ptr) std_map"
  nRecentlyAddedSequence :: u64
  nNotifiedSequence :: u64
  mapNullifiers :: "ShieldedType \<Rightarrow> (uint256, tx_ptr) std_map"
  mapTx :: "(uint256, 'd pool_node) std_map"
  mapAddress :: "(CMempoolAddressDeltaKey, CMempoolAddressDelta) std_map"
  mapAddressInserted :: "(uint256, CMempoolAddressDeltaKey list) std_map"
  mapSpent :: "(CSpentIndexKey, CSpentIndexValue) std_map"
  mapSpentInserted :: "(uint256, CSpentIndexKey list) std_map"
  mapNextTx :: "(COutPoint, CInPoint) std_map"
  mapDeltas :: "(uint256, 'd \<times> CAmount) std_map"

record ('d, 'e) estimator_ops =
  processTransaction :: "'d CTxMemPoolEntry \<Rightarrow> bool \<Rightarrow> 'e \<Rightarrow> 'e"
  removeTx :: "uint256 \<Rightarrow> 'e \<Rightarrow> 'e"
  processBlock :: "u32 \<Rightarrow> 'd CTxMemPoolEntry list \<Rightarrow> bool \<Rightarrow> 'e \<Rightarrow> 'e"

text \<open>
  The end iterator of a map and a dangling pointer must not be followed; the tip must be there where the code follows the pointer to it;
  an assertion may fail.
\<close>

datatype pool_error = EndIterator | Dangling | NoTip | PoolAssert | OutputMissing

text \<open>The constructor does not initialise \<open>cachedInnerUsage\<close>.\<close>

definition CTxMemPool_new :: "'e \<Rightarrow> u64 \<Rightarrow> ('d, 'e) CTxMemPool" where
  "CTxMemPool_new estimator uninitialised =
     \<lparr>nCheckFrequency = 0, nTransactionsUpdated = 0, minerPolicyEstimator = estimator, totalTxSize = 0, cachedInnerUsage = uninitialised,
      mapRecentlyAddedTx = [], nRecentlyAddedSequence = 0, nNotifiedSequence = 0, mapNullifiers = (\<lambda>_. []), mapTx = [],
      mapAddress = [], mapAddressInserted = [], mapSpent = [], mapSpentInserted = [], mapNextTx = [], mapDeltas = []\<rparr>"

definition tx_hash :: "CTransaction \<Rightarrow> uint256" where
  "tx_hash tx = projr (ct_hash tx)"

definition nullifiers_of :: "CMutableTransaction \<Rightarrow> ShieldedType \<Rightarrow> uint256 list" where
  "nullifiers_of tx type = (case type of SPROUT \<Rightarrow> concat (map js_nullifiers (vjoinsplit tx)) | SAPLING \<Rightarrow> map sd_nullifier (vShieldedSpend tx))"

definition pool_nodes :: "('d, 'e) CTxMemPool \<Rightarrow> 'd pool_node list" where
  "pool_nodes P = map snd (mapTx P)"

definition deref :: "('d, 'e) CTxMemPool \<Rightarrow> tx_ptr \<Rightarrow> pool_error + CTransaction" where
  "deref P p = (case find (\<lambda>node. pn_addr node = p) (pool_nodes P) of None \<Rightarrow> Inl Dangling | Some node \<Rightarrow> Inr (node_tx node))"

definition GetTransactionsUpdated :: "('d, 'e) CTxMemPool \<Rightarrow> u32" where
  "GetTransactionsUpdated P = nTransactionsUpdated P"

definition AddTransactionsUpdated :: "u32 \<Rightarrow> ('d, 'e) CTxMemPool \<Rightarrow> ('d, 'e) CTxMemPool" where
  "AddTransactionsUpdated n P = P\<lparr>nTransactionsUpdated := nTransactionsUpdated P + n\<rparr>"

text \<open>The outputs of a transaction that the pool spends, in the order of \<open>mapNextTx\<close>; \<open>Spend\<close> may return false.\<close>

definition pruneSpent :: "('d, 'e) CTxMemPool \<Rightarrow> uint256 \<Rightarrow> CCoins \<Rightarrow> CCoins" where
  "pruneSpent P hashTx coins =
     foldl (\<lambda>coins (out, _). case Spend coins (unat (op_n out)) of None \<Rightarrow> coins | Some coins \<Rightarrow> coins) coins
       (takeWhile (\<lambda>(out, _). op_hash out = hashTx) (std_lower_bound (mapNextTx P) (COutPoint hashTx 0)))"

section \<open>Adding a transaction\<close>

definition input_marks :: "tx_ptr \<Rightarrow> CTransaction \<Rightarrow> (COutPoint \<times> CInPoint) list" where
  "input_marks p tx =
     (if tx_IsCoinImport (ct_tx tx) then []
      else map (\<lambda>i. (prevout (vin (ct_tx tx) ! i), CInPoint p (of_nat i))) [0..<length (vin (ct_tx tx))])"

definition nullifier_marks :: "ShieldedType \<Rightarrow> tx_ptr \<Rightarrow> CTransaction \<Rightarrow> (uint256 \<times> tx_ptr) list" where
  "nullifier_marks type p tx = map (\<lambda>nf. (nf, p)) (nullifiers_of (ct_tx tx) type)"

definition addUnchecked ::
    "('d, 'e) estimator_ops \<Rightarrow> tx_ptr \<Rightarrow> uint256 \<Rightarrow> 'd CTxMemPoolEntry \<Rightarrow> bool \<Rightarrow> ('d, 'e) CTxMemPool \<Rightarrow> pool_error + ('d, 'e) CTxMemPool" where
  "addUnchecked E addr hash entry fCurrentEstimate P =
     (let P = P\<lparr>mapTx := std_insert (mapTx P) (tx_hash (e_tx entry)) \<lparr>pn_addr = addr, pn_entry = entry\<rparr>\<rparr>
      in case map_of (mapTx P) hash of
           None \<Rightarrow> Inl EndIterator
         | Some node \<Rightarrow>
             let tx = node_tx node; p = pn_addr node
             in Inr (P\<lparr>mapRecentlyAddedTx := std_set (mapRecentlyAddedTx P) (tx_hash tx) p,
                       nRecentlyAddedSequence := nRecentlyAddedSequence P + 1,
                       mapNextTx := std_sets (mapNextTx P) (input_marks p tx),
                       mapNullifiers := (\<lambda>type. std_sets (mapNullifiers P type) (nullifier_marks type p tx)),
                       nTransactionsUpdated := nTransactionsUpdated P + 1,
                       totalTxSize := totalTxSize P + e_nTxSize entry,
                       cachedInnerUsage := cachedInnerUsage P + e_nUsageSize entry,
                       minerPolicyEstimator := processTransaction E entry fCurrentEstimate (minerPolicyEstimator P)\<rparr>))"

section \<open>The address and spent indices\<close>

text \<open>
  The keys that \<open>Solver\<close>, \<open>ExtractDestination\<close> and \<open>CBitcoinAddress\<close> give for a script: types and hashes of
  the addresses of an input and of an output, and those of an input for the spent index, \<open>None\<close> when the script
  is not understood.
\<close>

record script_addresses =
  input_addresses :: "script \<Rightarrow> (int \<times> bytes) list"
  output_addresses :: "script \<Rightarrow> (int \<times> bytes) list"
  spent_addresses :: "script \<Rightarrow> (int \<times> bytes) list option"

definition insert_all :: "('k::linorder, 'v) std_map \<Rightarrow> ('k \<times> 'v) list \<Rightarrow> ('k, 'v) std_map" where
  "insert_all m kvs = foldl (\<lambda>m (k, v). std_insert m k v) m kvs"

fun previous_outputs ::
    "'v CCoinsView \<Rightarrow> (CCoins \<Rightarrow> u64) \<Rightarrow> 'v CCoinsViewCache \<Rightarrow> nat \<Rightarrow> CTxIn list \<Rightarrow> pool_error + (nat \<times> CTxIn \<times> CTxOut) list \<times> 'v CCoinsViewCache" where
  "previous_outputs V U view j [] = Inr ([], view)"
| "previous_outputs V U view j (input # inputs) =
     (case GetOutputFor V U view input of
        Inl e \<Rightarrow> Inl OutputMissing
      | Inr (out, view) \<Rightarrow>
          res_bind (previous_outputs V U view (j + 1) inputs) (\<lambda>(outs, view). Inr ((j, input, out) # outs, view)))"

definition addAddressIndex ::
    "'v CCoinsView \<Rightarrow> (CCoins \<Rightarrow> u64) \<Rightarrow> script_addresses \<Rightarrow> 'd CTxMemPoolEntry \<Rightarrow> 'v CCoinsViewCache \<Rightarrow> ('d, 'e) CTxMemPool \<Rightarrow>
     pool_error + 'v CCoinsViewCache \<times> ('d, 'e) CTxMemPool" where
  "addAddressIndex V U A entry view P =
     (let tx = e_tx entry; txhash = tx_hash tx
      in res_bind (previous_outputs V U view 0 (vin (ct_tx tx))) (\<lambda>(prev, view).
           let ins = concat (map (\<lambda>(j, input, out). map (\<lambda>(type, addr).
                       (CMempoolAddressDeltaKey type addr txhash (of_nat j) 1,
                        \<lparr>ad_time = e_nTime entry, ad_amount = - nValue out, ad_prevhash = op_hash (prevout input), ad_prevout = op_n (prevout input)\<rparr>))
                       (input_addresses A (scriptPubKey out))) prev);
               outs = concat (map (\<lambda>(k, out). map (\<lambda>(type, addr).
                       (CMempoolAddressDeltaKey type addr txhash (of_nat k) 0,
                        \<lparr>ad_time = e_nTime entry, ad_amount = nValue out, ad_prevhash = uint256_null, ad_prevout = 0\<rparr>))
                       (output_addresses A (scriptPubKey out))) (zip [0..<length (vout (ct_tx tx))] (vout (ct_tx tx))))
           in Inr (view, P\<lparr>mapAddress := insert_all (mapAddress P) (ins @ outs),
                           mapAddressInserted := std_insert (mapAddressInserted P) txhash (map fst (ins @ outs))\<rparr>)))"

definition getAddressIndex :: "('d, 'e) CTxMemPool \<Rightarrow> (bytes \<times> int) list \<Rightarrow> (CMempoolAddressDeltaKey \<times> CMempoolAddressDelta) list" where
  "getAddressIndex P addresses =
     concat (map (\<lambda>(addr, type). takeWhile (\<lambda>(k, _). ak_addressBytes k = addr \<and> ak_type k = type)
       (std_lower_bound (mapAddress P) (CMempoolAddressDeltaKey type addr uint256_null 0 0))) addresses)"

definition removeAddressIndex :: "uint256 \<Rightarrow> ('d, 'e) CTxMemPool \<Rightarrow> ('d, 'e) CTxMemPool" where
  "removeAddressIndex txhash P =
     (case map_of (mapAddressInserted P) txhash of
        None \<Rightarrow> P
      | Some keys \<Rightarrow> P\<lparr>mapAddress := std_erases (mapAddress P) keys, mapAddressInserted := std_erase (mapAddressInserted P) txhash\<rparr>)"

definition addSpentIndex ::
    "'v CCoinsView \<Rightarrow> (CCoins \<Rightarrow> u64) \<Rightarrow> script_addresses \<Rightarrow> 'd CTxMemPoolEntry \<Rightarrow> 'v CCoinsViewCache \<Rightarrow> ('d, 'e) CTxMemPool \<Rightarrow>
     pool_error + 'v CCoinsViewCache \<times> ('d, 'e) CTxMemPool" where
  "addSpentIndex V U A entry view P =
     (let tx = e_tx entry; txhash = tx_hash tx
      in res_bind (previous_outputs V U view 0 (vin (ct_tx tx))) (\<lambda>(prev, view).
           let ins = concat (map (\<lambda>(j, input, out). map (\<lambda>(type, addr).
                       (prevout input,
                        \<lparr>sv_txid = txhash, sv_inputIndex = of_nat j, sv_blockHeight = - 1, sv_satoshis = nValue out, sv_addressType = type, sv_addressHash = addr\<rparr>))
                       (case spent_addresses A (scriptPubKey out) of Some addrs \<Rightarrow> addrs | None \<Rightarrow> [(0, replicate 20 0)])) prev)
           in Inr (view, P\<lparr>mapSpent := insert_all (mapSpent P) ins,
                           mapSpentInserted := std_insert (mapSpentInserted P) txhash (map fst ins)\<rparr>)))"

definition getSpentIndex :: "('d, 'e) CTxMemPool \<Rightarrow> CSpentIndexKey \<Rightarrow> CSpentIndexValue option" where
  "getSpentIndex P key = map_of (mapSpent P) key"

definition removeSpentIndex :: "uint256 \<Rightarrow> ('d, 'e) CTxMemPool \<Rightarrow> ('d, 'e) CTxMemPool" where
  "removeSpentIndex txhash P =
     (case map_of (mapSpentInserted P) txhash of
        None \<Rightarrow> P
      | Some keys \<Rightarrow> P\<lparr>mapSpent := std_erases (mapSpent P) keys, mapSpentInserted := std_erase (mapSpentInserted P) txhash\<rparr>)"

section \<open>Removing transactions\<close>

text \<open>The hashes of the pool's transactions that spend one of the outputs from \<open>i\<close> on.\<close>

fun spenders :: "('d, 'e) CTxMemPool \<Rightarrow> uint256 \<Rightarrow> nat list \<Rightarrow> pool_error + uint256 list" where
  "spenders P hash [] = Inr []"
| "spenders P hash (i # is) =
     (case map_of (mapNextTx P) (COutPoint hash (of_nat i)) of
        None \<Rightarrow> spenders P hash is
      | Some inp \<Rightarrow> res_bind (deref P (ip_ptx inp)) (\<lambda>tx. res_bind (spenders P hash is) (\<lambda>hashes. Inr (tx_hash tx # hashes))))"

text \<open>What one round of the loop does to the pool, with the transaction's node.\<close>

definition remove_node :: "('d, 'e) estimator_ops \<Rightarrow> uint256 \<Rightarrow> 'd pool_node \<Rightarrow> ('d, 'e) CTxMemPool \<Rightarrow> ('d, 'e) CTxMemPool" where
  "remove_node E hash node P =
     (let tx = ct_tx (node_tx node)
      in removeSpentIndex hash (removeAddressIndex hash
           (P\<lparr>mapRecentlyAddedTx := std_erase (mapRecentlyAddedTx P) hash,
              mapNextTx := std_erases (mapNextTx P) (map prevout (vin tx)),
              mapNullifiers := (\<lambda>type. std_erases (mapNullifiers P type) (nullifiers_of tx type)),
              totalTxSize := totalTxSize P - e_nTxSize (pn_entry node),
              cachedInnerUsage := cachedInnerUsage P - e_nUsageSize (pn_entry node),
              mapTx := std_erase (mapTx P) hash,
              nTransactionsUpdated := nTransactionsUpdated P + 1,
              minerPolicyEstimator := removeTx E hash (minerPolicyEstimator P)\<rparr>)))"

lemma remove_node_mapTx [simp]: "mapTx (remove_node E hash node P) = std_erase (mapTx P) hash"
  by (simp add: remove_node_def removeSpentIndex_def removeAddressIndex_def Let_def split: option.split)

text \<open>The loop over \<open>txToRemove\<close>: a round takes a node off the pool or only a hash off the queue.\<close>

function remove_loop ::
    "('d, 'e) estimator_ops \<Rightarrow> bool \<Rightarrow> uint256 list \<Rightarrow> CTransaction list \<Rightarrow> ('d, 'e) CTxMemPool \<Rightarrow> pool_error + CTransaction list \<times> ('d, 'e) CTxMemPool" where
  "remove_loop E fRecursive [] removed P = Inr (removed, P)"
| "remove_loop E fRecursive (hash # txToRemove) removed P =
     (case map_of (mapTx P) hash of
        None \<Rightarrow> remove_loop E fRecursive txToRemove removed P
      | Some node \<Rightarrow>
          res_bind (if fRecursive then spenders P hash [0..<length (vout (ct_tx (node_tx node)))] else Inr []) (\<lambda>children.
            remove_loop E fRecursive (txToRemove @ children) (removed @ [node_tx node]) (remove_node E hash node P)))"
  by pat_completeness auto
termination
  by (relation "measures [\<lambda>(E, f, queue, removed, P). length (mapTx P), \<lambda>(E, f, queue, removed, P). length queue]")
    (auto dest: std_erase_length)

definition remove ::
    "('d, 'e) estimator_ops \<Rightarrow> CTransaction \<Rightarrow> CTransaction list \<Rightarrow> bool \<Rightarrow> ('d, 'e) CTxMemPool \<Rightarrow> pool_error + CTransaction list \<times> ('d, 'e) CTxMemPool" where
  "remove E origTx removed fRecursive P =
     res_bind (if fRecursive \<and> map_of (mapTx P) (tx_hash origTx) = None
               then spenders P (tx_hash origTx) [0..<length (vout (ct_tx origTx))] else Inr []) (\<lambda>children.
       remove_loop E fRecursive (tx_hash origTx # children) removed P)"

text \<open>The loop with which several operations end.\<close>

fun remove_each :: "('d, 'e) estimator_ops \<Rightarrow> CTransaction list \<Rightarrow> ('d, 'e) CTxMemPool \<Rightarrow> pool_error + ('d, 'e) CTxMemPool" where
  "remove_each E [] P = Inr P"
| "remove_each E (tx # transactionsToRemove) P =
     res_bind (remove E tx [] True P) (\<lambda>(removed, P). remove_each E transactionsToRemove P)"

section \<open>Reorganisations\<close>

text \<open>\<open>median\<close> is the tip's \<open>GetMedianTimePast\<close>, \<open>None\<close> without a tip, and \<open>now\<close> what \<open>GetTime\<close> returns.\<close>

definition CheckFinalTx :: "chain_globals \<Rightarrow> int option \<Rightarrow> int \<Rightarrow> CMutableTransaction \<Rightarrow> int \<Rightarrow> pool_error + bool" where
  "CheckFinalTx G median now tx flags =
     (let nBlockHeight = active_height G + 1
      in if bit (max flags 0) 1
         then case median of None \<Rightarrow> Inl NoTip | Some t \<Rightarrow> Inr (IsFinalTx G tx nBlockHeight t)
         else Inr (IsFinalTx G tx nBlockHeight now))"

text \<open>The condition on the coins of an input; without coins the input is gone.\<close>

definition reorg_spoils :: "chain_globals \<Rightarrow> u32 \<Rightarrow> CCoins option \<Rightarrow> bool" where
  "reorg_spoils G nMemPoolHeight coins =
     (case coins of
        None \<Rightarrow> True
      | Some coins \<Rightarrow>
          cc_fCoinBase coins \<and> uint nMemPoolHeight - cc_nHeight coins < uint (CoinbaseMaturity G) \<and>
          (ucast nMemPoolHeight < block_unlocktime G (word_of_int (cc_nHeight coins)) \<and>
           IsAvailable coins 0 \<and> word_of_int (nValue (cc_vout coins ! 0)) \<ge> ASSETCHAINS_TIMELOCKGTE G))"

fun reorg_inputs ::
    "'v CCoinsView \<Rightarrow> (CCoins \<Rightarrow> u64) \<Rightarrow> chain_globals \<Rightarrow> u32 \<Rightarrow> ('d, 'e) CTxMemPool \<Rightarrow> 'v CCoinsViewCache \<Rightarrow> CTxIn list \<Rightarrow>
     pool_error + bool \<times> 'v CCoinsViewCache" where
  "reorg_inputs V U G nMemPoolHeight P pcoins [] = Inr (False, pcoins)"
| "reorg_inputs V U G nMemPoolHeight P pcoins (txin # txins) =
     (if map_of (mapTx P) (op_hash (prevout txin)) \<noteq> None then reorg_inputs V U G nMemPoolHeight P pcoins txins
      else case AccessCoins V U pcoins (op_hash (prevout txin)) of
             (coins, pcoins) \<Rightarrow>
               if nCheckFrequency P \<noteq> 0 \<and> coins = None then Inl PoolAssert
               else if reorg_spoils G nMemPoolHeight coins then Inr (True, pcoins)
               else reorg_inputs V U G nMemPoolHeight P pcoins txins)"

fun reorg_select ::
    "'v CCoinsView \<Rightarrow> (CCoins \<Rightarrow> u64) \<Rightarrow> chain_globals \<Rightarrow> int option \<Rightarrow> int \<Rightarrow> u32 \<Rightarrow> int \<Rightarrow> ('d, 'e) CTxMemPool \<Rightarrow> 'v CCoinsViewCache \<Rightarrow>
     'd pool_node list \<Rightarrow> pool_error + CTransaction list \<times> 'v CCoinsViewCache" where
  "reorg_select V U G median now nMemPoolHeight flags P pcoins [] = Inr ([], pcoins)"
| "reorg_select V U G median now nMemPoolHeight flags P pcoins (node # nodes) =
     res_bind (CheckFinalTx G median now (ct_tx (node_tx node)) flags) (\<lambda>final.
     res_bind (if \<not> final then Inr (True, pcoins)
               else if e_spendsCoinbase (pn_entry node) then reorg_inputs V U G nMemPoolHeight P pcoins (vin (ct_tx (node_tx node)))
               else Inr (False, pcoins)) (\<lambda>(spoilt, pcoins).
     res_bind (reorg_select V U G median now nMemPoolHeight flags P pcoins nodes) (\<lambda>(txs, pcoins).
       Inr (if spoilt then node_tx node # txs else txs, pcoins))))"

definition removeForReorg ::
    "('d, 'e) estimator_ops \<Rightarrow> 'v CCoinsView \<Rightarrow> (CCoins \<Rightarrow> u64) \<Rightarrow> chain_globals \<Rightarrow> int option \<Rightarrow> int \<Rightarrow> 'v CCoinsViewCache \<Rightarrow> u32 \<Rightarrow> int \<Rightarrow>
     ('d, 'e) CTxMemPool \<Rightarrow> pool_error + 'v CCoinsViewCache \<times> ('d, 'e) CTxMemPool" where
  "removeForReorg E V U G median now pcoins nMemPoolHeight flags P =
     res_bind (reorg_select V U G median now nMemPoolHeight flags P pcoins (pool_nodes P)) (\<lambda>(transactionsToRemove, pcoins).
     res_bind (remove_each E transactionsToRemove P) (\<lambda>P. Inr (pcoins, P)))"

definition anchors_used :: "CMutableTransaction \<Rightarrow> ShieldedType \<Rightarrow> uint256 list" where
  "anchors_used tx type = (case type of SPROUT \<Rightarrow> map js_anchor (vjoinsplit tx) | SAPLING \<Rightarrow> map sd_anchor (vShieldedSpend tx))"

definition removeWithAnchor ::
    "('d, 'e) estimator_ops \<Rightarrow> uint256 \<Rightarrow> ShieldedType \<Rightarrow> ('d, 'e) CTxMemPool \<Rightarrow> pool_error + ('d, 'e) CTxMemPool" where
  "removeWithAnchor E invalidRoot type P =
     remove_each E (map node_tx (filter (\<lambda>node. invalidRoot \<in> set (anchors_used (ct_tx (node_tx node)) type)) (pool_nodes P))) P"

section \<open>New blocks\<close>

fun remove_conflicting ::
    "('d, 'e) estimator_ops \<Rightarrow> (('d, 'e) CTxMemPool \<Rightarrow> 'k \<Rightarrow> tx_ptr option) \<Rightarrow> CTransaction \<Rightarrow> 'k list \<Rightarrow> CTransaction list \<Rightarrow> ('d, 'e) CTxMemPool \<Rightarrow>
     pool_error + CTransaction list \<times> ('d, 'e) CTxMemPool" where
  "remove_conflicting E find_spender tx [] removed P = Inr (removed, P)"
| "remove_conflicting E find_spender tx (k # ks) removed P =
     res_bind (case find_spender P k of
                 None \<Rightarrow> Inr (removed, P)
               | Some p \<Rightarrow> res_bind (deref P p) (\<lambda>txConflict.
                   if tx_hash txConflict \<noteq> tx_hash tx then remove E txConflict removed True P else Inr (removed, P))) (\<lambda>(removed, P).
       remove_conflicting E find_spender tx ks removed P)"

definition input_spender :: "('d, 'e) CTxMemPool \<Rightarrow> COutPoint \<Rightarrow> tx_ptr option" where
  "input_spender P out = map_option ip_ptx (map_of (mapNextTx P) out)"

definition nullifier_spender :: "ShieldedType \<Rightarrow> ('d, 'e) CTxMemPool \<Rightarrow> uint256 \<Rightarrow> tx_ptr option" where
  "nullifier_spender type P nf = map_of (mapNullifiers P type) nf"

definition removeConflicts ::
    "('d, 'e) estimator_ops \<Rightarrow> CTransaction \<Rightarrow> CTransaction list \<Rightarrow> ('d, 'e) CTxMemPool \<Rightarrow> pool_error + CTransaction list \<times> ('d, 'e) CTxMemPool" where
  "removeConflicts E tx removed P =
     res_bind (remove_conflicting E input_spender tx (map prevout (vin (ct_tx tx))) removed P) (\<lambda>(removed, P).
     res_bind (remove_conflicting E (nullifier_spender SPROUT) tx (nullifiers_of (ct_tx tx) SPROUT) removed P) (\<lambda>(removed, P).
       remove_conflicting E (nullifier_spender SAPLING) tx (nullifiers_of (ct_tx tx) SAPLING) removed P))"

text \<open>\<open>tip\<close> has the tip's height and its \<open>GetMedianTimePast\<close>; \<open>rewind\<close> is the global \<open>SQUISHY_REWIND\<close>.\<close>

definition squishy_validate_interest :: "chain_globals \<Rightarrow> int \<Rightarrow> CMutableTransaction \<Rightarrow> int \<Rightarrow> u32 \<Rightarrow> bool" where
  "squishy_validate_interest G rewind tx txheight cmptime \<longleftrightarrow>
     \<not> (rewind = 0 \<and> isKMD G \<and> uint (nLockTime tx) \<ge> int LOCKTIME_THRESHOLD \<and> txheight > 246748 \<and>
        uint (nLockTime tx) < uint ((if txheight < 247205 then cmptime - 16000 else cmptime) - 3600))"

definition expired_node :: "chain_globals \<Rightarrow> int \<Rightarrow> (int \<times> int) option \<Rightarrow> u32 \<Rightarrow> 'd pool_node \<Rightarrow> bool" where
  "expired_node G rewind tip nBlockHeight node \<longleftrightarrow>
     (let tx = ct_tx (node_tx node);
          fInterestNotValidated = (isKMD G \<and>
            (case tip of None \<Rightarrow> False | Some (h, median) \<Rightarrow> \<not> squishy_validate_interest G rewind tx (h + 1) (word_of_int (median + 777))))
      in IsExpiredTx tx (sint nBlockHeight) \<or> fInterestNotValidated)"

definition removeExpired ::
    "('d, 'e) estimator_ops \<Rightarrow> chain_globals \<Rightarrow> int \<Rightarrow> (int \<times> int) option \<Rightarrow> u32 \<Rightarrow> ('d, 'e) CTxMemPool \<Rightarrow> pool_error + ('d, 'e) CTxMemPool" where
  "removeExpired E G rewind tip nBlockHeight P =
     remove_each E (map node_tx (filter (expired_node G rewind tip nBlockHeight) (pool_nodes P))) P"

definition ClearPrioritisation :: "uint256 \<Rightarrow> ('d, 'e) CTxMemPool \<Rightarrow> ('d, 'e) CTxMemPool" where
  "ClearPrioritisation hash P = P\<lparr>mapDeltas := std_erase (mapDeltas P) hash\<rparr>"

fun remove_block_txs ::
    "('d, 'e) estimator_ops \<Rightarrow> CTransaction list \<Rightarrow> CTransaction list \<Rightarrow> ('d, 'e) CTxMemPool \<Rightarrow> pool_error + CTransaction list \<times> ('d, 'e) CTxMemPool" where
  "remove_block_txs E [] conflicts P = Inr (conflicts, P)"
| "remove_block_txs E (tx # vtx) conflicts P =
     res_bind (remove E tx [] False P) (\<lambda>(_, P).
     res_bind (removeConflicts E tx conflicts P) (\<lambda>(conflicts, P).
       remove_block_txs E vtx conflicts (ClearPrioritisation (tx_hash tx) P)))"

definition removeForBlock ::
    "('d, 'e) estimator_ops \<Rightarrow> CTransaction list \<Rightarrow> u32 \<Rightarrow> CTransaction list \<Rightarrow> bool \<Rightarrow> ('d, 'e) CTxMemPool \<Rightarrow>
     pool_error + CTransaction list \<times> ('d, 'e) CTxMemPool" where
  "removeForBlock E vtx nBlockHeight conflicts fCurrentEstimate P =
     (let entries = List.map_filter (\<lambda>tx. map_option pn_entry (map_of (mapTx P) (tx_hash tx))) vtx
      in res_bind (remove_block_txs E vtx conflicts P) (\<lambda>(conflicts, P).
           Inr (conflicts, P\<lparr>minerPolicyEstimator := processBlock E nBlockHeight entries fCurrentEstimate (minerPolicyEstimator P)\<rparr>)))"

definition removeWithoutBranchId :: "('d, 'e) estimator_ops \<Rightarrow> u32 \<Rightarrow> ('d, 'e) CTxMemPool \<Rightarrow> pool_error + ('d, 'e) CTxMemPool" where
  "removeWithoutBranchId E nMemPoolBranchId P =
     remove_each E (map node_tx (filter (\<lambda>node. e_nBranchId (pn_entry node) \<noteq> nMemPoolBranchId) (pool_nodes P))) P"

definition clear :: "('d, 'e) CTxMemPool \<Rightarrow> ('d, 'e) CTxMemPool" where
  "clear P = P\<lparr>mapTx := [], mapNextTx := [], totalTxSize := 0, cachedInnerUsage := 0, nTransactionsUpdated := nTransactionsUpdated P + 1\<rparr>"

section \<open>Queries\<close>

text \<open>The assertions that \<open>check\<close> makes about \<open>mapNextTx\<close> and the nullifiers, after it has followed their pointers.\<close>

definition check_next :: "('d, 'e) CTxMemPool \<Rightarrow> bool" where
  "check_next P \<longleftrightarrow>
     list_all (\<lambda>(out, inp). case deref P (ip_ptx inp) of
         Inl e \<Rightarrow> False
       | Inr tx \<Rightarrow> (case map_of (mapTx P) (tx_hash tx) of
             None \<Rightarrow> False
           | Some node \<Rightarrow> pn_addr node = ip_ptx inp \<and> length (vin (ct_tx (node_tx node))) > unat (ip_n inp) \<and>
               out = prevout (vin (ct_tx tx) ! unat (ip_n inp)))) (mapNextTx P)"

definition checkNullifiers :: "('d, 'e) CTxMemPool \<Rightarrow> ShieldedType \<Rightarrow> bool" where
  "checkNullifiers P type \<longleftrightarrow>
     list_all (\<lambda>(nf, p). case deref P p of
         Inl e \<Rightarrow> False
       | Inr tx \<Rightarrow> (case map_of (mapTx P) (tx_hash tx) of None \<Rightarrow> False | Some node \<Rightarrow> pn_addr node = p)) (mapNullifiers P type)"

definition check_totals :: "('d, 'e) CTxMemPool \<Rightarrow> bool" where
  "check_totals P \<longleftrightarrow>
     totalTxSize P = foldl (\<lambda>checkTotal node. checkTotal + e_nTxSize (pn_entry node)) 0 (pool_nodes P) \<and>
     foldl (\<lambda>innerUsage node. innerUsage + e_nUsageSize (pn_entry node)) 0 (pool_nodes P) = cachedInnerUsage P"

definition queryHashes :: "('d, 'e) CTxMemPool \<Rightarrow> uint256 list" where
  "queryHashes P = map (\<lambda>node. tx_hash (node_tx node)) (pool_nodes P)"

definition pool_exists :: "('d, 'e) CTxMemPool \<Rightarrow> uint256 \<Rightarrow> bool" where
  "pool_exists P hash \<longleftrightarrow> map_of (mapTx P) hash \<noteq> None"

definition pool_lookup_tx :: "('d, 'e) CTxMemPool \<Rightarrow> uint256 \<Rightarrow> CTransaction option" where
  "pool_lookup_tx P hash = map_option node_tx (map_of (mapTx P) hash)"

definition PrioritiseTransaction :: "uint256 \<Rightarrow> 'd::{plus,zero} \<Rightarrow> CAmount \<Rightarrow> ('d, 'e) CTxMemPool \<Rightarrow> ('d, 'e) CTxMemPool" where
  "PrioritiseTransaction hash dPriorityDelta nFeeDelta P =
     (let (d, f) = (case map_of (mapDeltas P) hash of None \<Rightarrow> (0, 0) | Some deltas \<Rightarrow> deltas)
      in P\<lparr>mapDeltas := std_set (mapDeltas P) hash (d + dPriorityDelta, wrap64 (f + nFeeDelta))\<rparr>)"

definition ApplyDeltas :: "('d::{plus,zero}, 'e) CTxMemPool \<Rightarrow> uint256 \<Rightarrow> 'd \<times> CAmount \<Rightarrow> 'd \<times> CAmount" where
  "ApplyDeltas P hash delta =
     (case map_of (mapDeltas P) hash of None \<Rightarrow> delta | Some (d, f) \<Rightarrow> (fst delta + d, wrap64 (snd delta + f)))"

definition HasNoInputsOf :: "('d, 'e) CTxMemPool \<Rightarrow> CMutableTransaction \<Rightarrow> bool" where
  "HasNoInputsOf P tx \<longleftrightarrow> list_all (\<lambda>txin. \<not> pool_exists P (op_hash (prevout txin))) (vin tx)"

definition nullifierExists :: "('d, 'e) CTxMemPool \<Rightarrow> uint256 \<Rightarrow> ShieldedType \<Rightarrow> bool" where
  "nullifierExists P nullifier type \<longleftrightarrow> map_of (mapNullifiers P type) nullifier \<noteq> None"

text \<open>The transactions of which the wallets are told, and the pool afterwards; the wallets are told without the lock.\<close>

fun deref_all :: "('d, 'e) CTxMemPool \<Rightarrow> tx_ptr list \<Rightarrow> pool_error + CTransaction list" where
  "deref_all P [] = Inr []"
| "deref_all P (p # ps) = res_bind (deref P p) (\<lambda>tx. res_bind (deref_all P ps) (\<lambda>txs. Inr (tx # txs)))"

definition NotifyRecentlyAdded :: "bool \<Rightarrow> ('d, 'e) CTxMemPool \<Rightarrow> pool_error + CTransaction list \<times> ('d, 'e) CTxMemPool" where
  "NotifyRecentlyAdded regtest P =
     (let recentlyAddedSequence = nRecentlyAddedSequence P
      in res_bind (deref_all P (map snd (mapRecentlyAddedTx P))) (\<lambda>txs.
           let P = P\<lparr>mapRecentlyAddedTx := []\<rparr>
           in Inr (txs, if regtest then P\<lparr>nNotifiedSequence := recentlyAddedSequence\<rparr> else P)))"

definition IsFullyNotified :: "bool \<Rightarrow> ('d, 'e) CTxMemPool \<Rightarrow> pool_error + bool" where
  "IsFullyNotified regtest P = (if regtest then Inr (nRecentlyAddedSequence P = nNotifiedSequence P) else Inl PoolAssert)"

section \<open>The pool as a view\<close>

abbreviation MEMPOOL_HEIGHT :: int where "MEMPOOL_HEIGHT \<equiv> 0x7FFFFFFF"

definition mempool_GetNullifier :: "'v CCoinsView \<Rightarrow> ('d, 'e) CTxMemPool \<Rightarrow> 'v \<Rightarrow> uint256 \<Rightarrow> ShieldedType \<Rightarrow> bool \<times> 'v" where
  "mempool_GetNullifier V mempool base nf type = (if nullifierExists mempool nf type then (True, base) else v_GetNullifier V base nf type)"

definition mempool_GetCoins :: "'v CCoinsView \<Rightarrow> ('d, 'e) CTxMemPool \<Rightarrow> 'v \<Rightarrow> uint256 \<Rightarrow> CCoins option \<times> 'v" where
  "mempool_GetCoins V mempool base txid =
     (case pool_lookup_tx mempool txid of
        Some tx \<Rightarrow> (Some (FromTx (ct_tx tx) MEMPOOL_HEIGHT), base)
      | None \<Rightarrow>
        (case v_GetCoins V base txid of
           (Some coins, base) \<Rightarrow> (if \<not> IsPruned coins then Some coins else None, base)
         | (None, base) \<Rightarrow> (None, base)))"

definition mempool_HaveCoins :: "'v CCoinsView \<Rightarrow> ('d, 'e) CTxMemPool \<Rightarrow> 'v \<Rightarrow> uint256 \<Rightarrow> bool \<times> 'v" where
  "mempool_HaveCoins V mempool base txid = (if pool_exists mempool txid then (True, base) else v_HaveCoins V base txid)"

definition CCoinsViewMemPool_ops :: "'v CCoinsView \<Rightarrow> ('d, 'e) CTxMemPool \<Rightarrow> 'v CCoinsView" where
  "CCoinsViewMemPool_ops V mempool =
     V\<lparr>v_GetNullifier := mempool_GetNullifier V mempool, v_GetCoins := mempool_GetCoins V mempool, v_HaveCoins := mempool_HaveCoins V mempool\<rparr>"

end
