(* ===== verification/MempoolRemove.thy ===== *)
theory MempoolRemove
  imports Mempool
begin

text \<open>
  Consistency of the memory pool: its indices hold exactly the inputs and nullifiers of its transactions and point
  to nodes that live, and its totals are sums over its transactions. The three indices obey one contract, the locale
  \<open>pool_index\<close>. Adding a transaction and taking one out keep the pool consistent, and a recursive removal takes
  exactly the descendants.
\<close>

section \<open>An index over the pool\<close>

text \<open>\<open>marks\<close> are the elements that a transaction at an address adds to the index.\<close>

definition index_ok :: "(tx_ptr \<Rightarrow> CTransaction \<Rightarrow> ('k::linorder \<times> 'v) list) \<Rightarrow> (tx_ptr \<times> CTransaction) set \<Rightarrow> ('k, 'v) std_map \<Rightarrow> bool" where
  "index_ok marks N m \<longleftrightarrow> std_ok m \<and> (\<forall>k v. map_of m k = Some v \<longleftrightarrow> (\<exists>(p, tx)\<in>N. (k, v) \<in> set (marks p tx)))"

lemma index_member:
  assumes "index_ok marks N m" "(k, v) \<in> set m"
  shows "map_of m k = Some v"
proof -
  from assms(1) have "std_ok m" by (simp add: index_ok_def)
  from std_lookup_member [OF this] assms(2) show ?thesis by simp
qed

locale pool_index =
  fixes marks :: "tx_ptr \<Rightarrow> CTransaction \<Rightarrow> ('k::linorder \<times> 'v) list"
    and drops :: "CTransaction \<Rightarrow> 'k list"
    and owner :: "'v \<Rightarrow> tx_ptr"
  assumes marked_dropped: "(k, v) \<in> set (marks p tx) \<Longrightarrow> k \<in> set (drops tx)"
    and marked_owner: "(k, v) \<in> set (marks p tx) \<Longrightarrow> owner v = p"
begin

lemma index_add:
  assumes "index_ok marks N m" "distinct (map fst (marks p tx))" "\<forall>k\<in>fst ` set (marks p tx). map_of m k = None"
  shows "index_ok marks (insert (p, tx) N) (std_sets m (marks p tx))"
proof -
  have m: "std_ok m" "\<And>k v. map_of m k = Some v \<longleftrightarrow> (\<exists>(p, tx)\<in>N. (k, v) \<in> set (marks p tx))"
    using assms(1) by (auto simp: index_ok_def)
  have "distinct (map fst (rev (marks p tx)))" using assms(2) by (simp add: rev_map [symmetric])
  then have r: "map_of (rev (marks p tx)) k = Some v \<longleftrightarrow> (k, v) \<in> set (marks p tx)" for k v
    by (simp add: map_of_eq_Some_iff)
  have n: "map_of (rev (marks p tx)) k = None \<longleftrightarrow> k \<notin> fst ` set (marks p tx)" for k
    by (simp add: map_of_eq_None_iff)
  have "map_of (std_sets m (marks p tx)) k = Some v \<longleftrightarrow> (\<exists>(q, t)\<in>insert (p, tx) N. (k, v) \<in> set (marks q t))" for k v
    using assms(3) m(2) [of k v] r [of k v] n [of k] by (force simp: std_sets_lookup [OF m(1)] map_add_Some_iff)
  with m(1) show ?thesis by (simp add: index_ok_def)
qed

lemma index_remove:
  assumes "index_ok marks N m" "(p, tx) \<in> N" "\<And>t. (p, t) \<in> N \<Longrightarrow> t = tx"
    "\<And>k. k \<in> set (drops tx) \<Longrightarrow> k \<notin> fst ` set (marks p tx) \<Longrightarrow> map_of m k = None"
  shows "index_ok marks (N - {(p, tx)}) (std_erases m (drops tx))"
proof -
  have m: "std_ok m" "\<And>k v. map_of m k = Some v \<longleftrightarrow> (\<exists>(p, tx)\<in>N. (k, v) \<in> set (marks p tx))"
    using assms(1) by (auto simp: index_ok_def)
  have sep: "k \<notin> set (drops tx)" if q: "(q, t) \<in> N" "(q, t) \<noteq> (p, tx)" "(k, v) \<in> set (marks q t)" for q t k v
  proof
    assume d: "k \<in> set (drops tx)"
    have s: "map_of m k = Some v" using q m(2) by auto
    then obtain w where w: "(k, w) \<in> set (marks p tx)" using assms(4) [OF d] by force
    then have "map_of m k = Some w" using assms(2) m(2) by auto
    with s w q(3) have "q = p" using marked_owner by (metis option.inject)
    with q assms(3) show False by auto
  qed
  have "map_of (std_erases m (drops tx)) k = Some v \<longleftrightarrow> (\<exists>(q, t)\<in>N - {(p, tx)}. (k, v) \<in> set (marks q t))" for k v
  proof
    assume "map_of (std_erases m (drops tx)) k = Some v"
    then have "map_of m k = Some v" "k \<notin> set (drops tx)" by (auto simp: std_erases_lookup split: if_splits)
    with m(2) marked_dropped show "\<exists>(q, t)\<in>N - {(p, tx)}. (k, v) \<in> set (marks q t)" by blast
  next
    assume "\<exists>(q, t)\<in>N - {(p, tx)}. (k, v) \<in> set (marks q t)"
    then obtain q t where q: "(q, t) \<in> N" "(q, t) \<noteq> (p, tx)" "(k, v) \<in> set (marks q t)" by auto
    then have "map_of m k = Some v" using m(2) by auto
    with sep [OF q] show "map_of (std_erases m (drops tx)) k = Some v" by (simp add: std_erases_lookup)
  qed
  with m(1) show ?thesis by (simp add: index_ok_def)
qed

lemma index_lookup:
  assumes "index_ok marks N m" "map_of m k = Some v"
  obtains tx where "(owner v, tx) \<in> N" "(k, v) \<in> set (marks (owner v) tx)"
  using assms marked_owner by (fastforce simp: index_ok_def)

end

interpretation input_index: pool_index input_marks "\<lambda>tx. map prevout (vin (ct_tx tx))" ip_ptx
  by unfold_locales (auto simp: input_marks_def split: if_splits)

interpretation nullifier_index: pool_index "nullifier_marks type" "\<lambda>tx. nullifiers_of (ct_tx tx) type" "\<lambda>p. p" for type
  by unfold_locales (auto simp: nullifier_marks_def)

section \<open>Consistency\<close>

definition node_set :: "('d, 'e) CTxMemPool \<Rightarrow> (tx_ptr \<times> CTransaction) set" where
  "node_set P = (\<lambda>node. (pn_addr node, node_tx node)) ` set (pool_nodes P)"

text \<open>Counts fit into 32 bits, and only an import spends an output with the number that marks imports.\<close>

definition tx_fits :: "CTransaction \<Rightarrow> bool" where
  "tx_fits tx \<longleftrightarrow> length (vin (ct_tx tx)) < 2 ^ 32 \<and> length (vout (ct_tx tx)) < 1000000000 \<and>
     (\<not> tx_IsCoinImport (ct_tx tx) \<longrightarrow> (\<forall>txin\<in>set (vin (ct_tx tx)). unat (op_n (prevout txin)) \<noteq> 1000000000))"

definition nodes_ok :: "(uint256, 'd pool_node) std_map \<Rightarrow> bool" where
  "nodes_ok m \<longleftrightarrow> std_ok m \<and> (\<forall>(h, node)\<in>set m. h = tx_hash (node_tx node) \<and> tx_fits (node_tx node)) \<and> distinct (map (pn_addr \<circ> snd) m)"

definition pool_ok :: "('d, 'e) CTxMemPool \<Rightarrow> bool" where
  "pool_ok P \<longleftrightarrow> nodes_ok (mapTx P) \<and>
     index_ok input_marks (node_set P) (mapNextTx P) \<and>
     (\<forall>type. index_ok (nullifier_marks type) (node_set P) (mapNullifiers P type)) \<and>
     (std_ok (mapRecentlyAddedTx P) \<and> (\<forall>(h, p)\<in>set (mapRecentlyAddedTx P). \<exists>node. map_of (mapTx P) h = Some node \<and> pn_addr node = p)) \<and>
     totalTxSize P = sum_list (map (\<lambda>(h, node). e_nTxSize (pn_entry node)) (mapTx P)) \<and>
     cachedInnerUsage P = sum_list (map (\<lambda>(h, node). e_nUsageSize (pn_entry node)) (mapTx P))"

lemma pool_okD:
  assumes "pool_ok P"
  shows "std_ok (mapTx P)" "nodes_ok (mapTx P)" "distinct (map (pn_addr \<circ> snd) (mapTx P))"
    "\<And>h node. map_of (mapTx P) h = Some node \<Longrightarrow> h = tx_hash (node_tx node) \<and> tx_fits (node_tx node)"
    "index_ok input_marks (node_set P) (mapNextTx P)" "index_ok (nullifier_marks type) (node_set P) (mapNullifiers P type)"
  using assms by (fastforce simp: pool_ok_def nodes_ok_def dest: map_of_SomeD)+

lemma node_set_iff:
  assumes "pool_ok P"
  shows "(p, tx) \<in> node_set P \<longleftrightarrow> (\<exists>node. map_of (mapTx P) (tx_hash tx) = Some node \<and> pn_addr node = p \<and> node_tx node = tx)"
proof -
  note ok = pool_okD [OF assms]
  have "(p, tx) \<in> node_set P \<longleftrightarrow> (\<exists>h node. map_of (mapTx P) h = Some node \<and> pn_addr node = p \<and> node_tx node = tx)"
    using std_lookup_member [OF ok(1)] by (force simp: node_set_def pool_nodes_def)
  with ok(4) show ?thesis by blast
qed

lemma same_address:
  assumes "pool_ok P" "(h, a) \<in> set (mapTx P)" "(k, b) \<in> set (mapTx P)" "pn_addr a = pn_addr b"
  shows "h = k \<and> a = b"
proof -
  have "inj_on (pn_addr \<circ> snd) (set (mapTx P))" using pool_okD(3) [OF assms(1)] by (simp add: distinct_map)
  from inj_onD [OF this _ assms(2,3)] assms(4) show ?thesis by simp
qed

lemma find_member: "find Q xs = Some x \<Longrightarrow> x \<in> set xs \<and> Q x"
  by (auto simp: find_Some_iff)

lemma deref_iff:
  assumes "pool_ok P"
  shows "deref P p = Inr tx \<longleftrightarrow> (p, tx) \<in> node_set P"
proof
  assume "deref P p = Inr tx"
  then obtain node where "find (\<lambda>node. pn_addr node = p) (pool_nodes P) = Some node" "tx = node_tx node"
    by (auto simp: deref_def split: option.splits)
  then show "(p, tx) \<in> node_set P" by (force simp: find_Some_iff node_set_def)
next
  assume "(p, tx) \<in> node_set P"
  then obtain h node where n: "(h, node) \<in> set (mapTx P)" "pn_addr node = p" "node_tx node = tx" by (auto simp: node_set_def pool_nodes_def)
  then obtain node' where f: "find (\<lambda>node. pn_addr node = p) (pool_nodes P) = Some node'"
    by (cases "find (\<lambda>node. pn_addr node = p) (pool_nodes P)") (force simp: find_None_iff pool_nodes_def)+
  then obtain h' where "(h', node') \<in> set (mapTx P)" "pn_addr node' = p" using find_member [OF f] by (auto simp: pool_nodes_def)
  with same_address [OF assms n(1) this(1)] n f show "deref P p = Inr tx" by (simp add: deref_def)
qed

lemma node_set_fits: "pool_ok P \<Longrightarrow> (p, tx) \<in> node_set P \<Longrightarrow> tx_fits tx"
  by (force simp: node_set_def pool_nodes_def pool_ok_def nodes_ok_def)

section \<open>Removing a node and adding one\<close>

lemma remove_node_simps [simp]:
  "mapNextTx (remove_node E hash node P) = std_erases (mapNextTx P) (map prevout (vin (ct_tx (node_tx node))))"
  "mapNullifiers (remove_node E hash node P) = (\<lambda>type. std_erases (mapNullifiers P type) (nullifiers_of (ct_tx (node_tx node)) type))"
  "mapRecentlyAddedTx (remove_node E hash node P) = std_erase (mapRecentlyAddedTx P) hash"
  "totalTxSize (remove_node E hash node P) = totalTxSize P - e_nTxSize (pn_entry node)"
  "cachedInnerUsage (remove_node E hash node P) = cachedInnerUsage P - e_nUsageSize (pn_entry node)"
  "mapDeltas (remove_node E hash node P) = mapDeltas P"
  "nCheckFrequency (remove_node E hash node P) = nCheckFrequency P"
  by (simp_all add: remove_node_def removeSpentIndex_def removeAddressIndex_def Let_def split: option.splits)

lemma node_set_remove:
  assumes "pool_ok P" "map_of (mapTx P) hash = Some node"
  shows "node_set (remove_node E hash node P) = node_set P - {(pn_addr node, node_tx node)}"
proof -
  have n: "(hash, node) \<in> set (mapTx P)" using assms(2) by (rule map_of_SomeD)
  have *: "(h, m) \<in> set (mapTx P) \<Longrightarrow> h \<noteq> hash \<longleftrightarrow> (pn_addr m, node_tx m) \<noteq> (pn_addr node, node_tx node)" for h m
    using same_address [OF assms(1) _ n, of h m] map_of_SomeD [OF assms(2)] std_ok_distinct [OF pool_okD(1) [OF assms(1)]]
    by (auto dest: eq_key_imp_eq_value)
  show ?thesis
  proof (intro set_eqI iffI)
    fix x assume "x \<in> node_set (remove_node E hash node P)"
    then show "x \<in> node_set P - {(pn_addr node, node_tx node)}" using * by (force simp: node_set_def pool_nodes_def)
  next
    fix x assume x: "x \<in> node_set P - {(pn_addr node, node_tx node)}"
    then obtain h m where m: "(h, m) \<in> set (mapTx P)" "x = (pn_addr m, node_tx m)" unfolding node_set_def pool_nodes_def by force
    with x * have "(h, m) \<in> set (std_erase (mapTx P) hash)" by auto
    with m(2) show "x \<in> node_set (remove_node E hash node P)" by (force simp: node_set_def pool_nodes_def simp del: std_erase_set)
  qed
qed

text \<open>What an import erases from \<open>mapNextTx\<close> without having added it is not there.\<close>

lemma import_drops_nothing:
  assumes "pool_ok P" "(p, tx) \<in> node_set P" "out \<in> set (map prevout (vin (ct_tx tx)))" "out \<notin> fst ` set (input_marks p tx)"
  shows "map_of (mapNextTx P) out = None"
proof (rule ccontr)
  assume "map_of (mapNextTx P) out \<noteq> None"
  then obtain v where v: "map_of (mapNextTx P) out = Some v" by auto
  from assms(3,4) have imp: "tx_IsCoinImport (ct_tx tx)" by (force simp: input_marks_def in_set_conv_nth split: if_splits)
  then obtain i where "vin (ct_tx tx) = [i]" "unat (op_n (prevout i)) = 1000000000" by (auto simp: tx_IsCoinImport_def length_Suc_conv)
  with assms(3) have n: "unat (op_n out) = 1000000000" by simp
  obtain t where t: "(ip_ptx v, t) \<in> node_set P" "(out, v) \<in> set (input_marks (ip_ptx v) t)"
    using input_index.index_lookup [OF pool_okD(5) [OF assms(1)] v] .
  then have "\<not> tx_IsCoinImport (ct_tx t)" "\<exists>txin\<in>set (vin (ct_tx t)). prevout txin = out" by (auto simp: input_marks_def split: if_splits)
  with node_set_fits [OF assms(1) t(1)] n show False by (auto simp: tx_fits_def)
qed

lemma nodes_ok_erase: "nodes_ok m \<Longrightarrow> nodes_ok (std_erase m k)"
  by (auto simp: nodes_ok_def std_erase_def distinct_map intro: inj_on_subset std_erase_ok [unfolded std_erase_def])

lemma remove_node_ok:
  assumes "pool_ok P" "map_of (mapTx P) hash = Some node"
  shows "pool_ok (remove_node E hash node P)"
proof -
  let ?p = "pn_addr node" and ?tx = "node_tx node"
  have n: "(?p, ?tx) \<in> node_set P" using assms(2) pool_okD(4) [OF assms] node_set_iff [OF assms(1)] by blast
  have u: "t = ?tx" if "(?p, t) \<in> node_set P" for t
    using that n deref_iff [OF assms(1)] by (metis sum.inject(2))
  note ns = node_set_remove [OF assms]
  have "index_ok input_marks (node_set (remove_node E hash node P)) (mapNextTx (remove_node E hash node P))"
    using input_index.index_remove [OF pool_okD(5) [OF assms(1)] n u import_drops_nothing [OF assms(1) n]] by (simp add: ns)
  moreover have "index_ok (nullifier_marks type) (node_set (remove_node E hash node P)) (mapNullifiers (remove_node E hash node P) type)" for type
    using nullifier_index.index_remove [OF pool_okD(6) [OF assms(1)] n u, of type] by (force simp: ns nullifier_marks_def)
  ultimately show ?thesis
    using assms nodes_ok_erase [of "mapTx P" hash] unfolding pool_ok_def
    by (auto simp: case_prod_unfold std_erase_sum_list [OF pool_okD(1) [OF assms(1)] assms(2)])
qed

text \<open>What \<open>AcceptToMemoryPool\<close> makes sure of before it adds a transaction.\<close>

definition addable :: "('d, 'e) CTxMemPool \<Rightarrow> CTransaction \<Rightarrow> bool" where
  "addable P tx \<longleftrightarrow> map_of (mapTx P) (tx_hash tx) = None \<and> tx_fits tx \<and>
     distinct (map prevout (vin (ct_tx tx))) \<and> (\<forall>txin\<in>set (vin (ct_tx tx)). map_of (mapNextTx P) (prevout txin) = None) \<and>
     (\<forall>type. distinct (nullifiers_of (ct_tx tx) type) \<and> (\<forall>nf\<in>set (nullifiers_of (ct_tx tx) type). map_of (mapNullifiers P type) nf = None))"

lemma input_marks_keys: "map fst (input_marks p tx) = (if tx_IsCoinImport (ct_tx tx) then [] else map prevout (vin (ct_tx tx)))"
  by (auto simp: input_marks_def intro!: nth_equalityI)

lemma nullifier_marks_keys: "map fst (nullifier_marks type p tx) = nullifiers_of (ct_tx tx) type"
  by (simp add: nullifier_marks_def comp_def)

lemma marks_dom:
  "fst ` set (input_marks p tx) = (if tx_IsCoinImport (ct_tx tx) then {} else prevout ` set (vin (ct_tx tx)))"
  "fst ` set (nullifier_marks type p tx) = set (nullifiers_of (ct_tx tx) type)"
  unfolding set_map [symmetric] input_marks_keys nullifier_marks_keys by simp_all

lemma std_set_distinct:
  assumes "distinct (map f m)" "f (k, v) \<notin> f ` set m" "k \<notin> fst ` set m"
  shows "distinct (map f (std_set m k v))"
  using assms
proof (induction m k v rule: std_set.induct)
  case (2 k' v' m k v)
  then show ?case by (auto simp: std_set_member image_iff)
qed simp

lemma addUnchecked_ok:
  assumes "pool_ok P" "addable P (e_tx entry)" "addr \<notin> pn_addr ` set (pool_nodes P)"
  shows "\<exists>P'. addUnchecked E addr (tx_hash (e_tx entry)) entry fCurrentEstimate P = Inr P' \<and> pool_ok P' \<and>
    mapTx P' = std_set (mapTx P) (tx_hash (e_tx entry)) \<lparr>pn_addr = addr, pn_entry = entry\<rparr>"
proof -
  let ?tx = "e_tx entry" and ?h = "tx_hash (e_tx entry)" and ?node = "\<lparr>pn_addr = addr, pn_entry = entry\<rparr>"
  note ok = pool_okD [OF assms(1)]
  from assms(2) have new: "map_of (mapTx P) ?h = None" "?h \<notin> fst ` set (mapTx P)" by (auto simp: addable_def map_of_eq_None_iff)
  obtain P' where P': "addUnchecked E addr ?h entry fCurrentEstimate P = Inr P'" "mapTx P' = std_set (mapTx P) ?h ?node"
    "mapNextTx P' = std_sets (mapNextTx P) (input_marks addr ?tx)"
    "mapNullifiers P' = (\<lambda>type. std_sets (mapNullifiers P type) (nullifier_marks type addr ?tx))"
    "mapRecentlyAddedTx P' = std_set (mapRecentlyAddedTx P) ?h addr" "totalTxSize P' = totalTxSize P + e_nTxSize entry"
    "cachedInnerUsage P' = cachedInnerUsage P + e_nUsageSize entry"
    using new ok(1) by (simp add: addUnchecked_def std_insert_def Let_def)
  have ns: "node_set P' = insert (addr, ?tx) (node_set P)"
    using std_set_member [OF new(2), of ?node] by (simp add: node_set_def pool_nodes_def P'(2))
  have "index_ok input_marks (node_set P') (mapNextTx P')"
    unfolding ns P'(3) using assms(2) by (intro input_index.index_add ok(5)) (auto simp: addable_def input_marks_keys marks_dom)
  moreover have "index_ok (nullifier_marks type) (node_set P') (mapNullifiers P' type)" for type
    unfolding ns P'(4) using assms(2) by (intro nullifier_index.index_add ok(6)) (auto simp: addable_def nullifier_marks_keys marks_dom)
  moreover have "distinct (map (pn_addr \<circ> snd) (mapTx P'))"
    unfolding P'(2) using ok(3) new(2) assms(3) by (intro std_set_distinct) (auto simp: pool_nodes_def)
  then have "nodes_ok (mapTx P')"
    using ok(2) assms(2) by (auto simp: nodes_ok_def P'(2) addable_def std_set_member [OF new(2)])
  moreover have "\<forall>(h, p)\<in>set (mapRecentlyAddedTx P'). \<exists>node. map_of (mapTx P') h = Some node \<and> pn_addr node = p"
  proof -
    have r: "std_ok (mapRecentlyAddedTx P)" "\<forall>(h, p)\<in>set (mapRecentlyAddedTx P). \<exists>node. map_of (mapTx P) h = Some node \<and> pn_addr node = p"
      using assms(1) by (auto simp: pool_ok_def)
    then have "?h \<notin> fst ` set (mapRecentlyAddedTx P)" using new(1) by force
    then show ?thesis using r new(1) ok(1) by (fastforce simp: P'(2,5) std_set_member)
  qed
  ultimately have "pool_ok P'"
    using assms(1) new(2) unfolding pool_ok_def by (auto simp: P'(2,5,6,7) std_set_sum_list)
  with P'(1,2) show ?thesis by blast
qed

section \<open>Recursive removal\<close>

text \<open>The pool's transactions with a given input, and the relation from a transaction to those that spend its outputs.\<close>

definition takers :: "('d, 'e) CTxMemPool \<Rightarrow> COutPoint \<Rightarrow> uint256 set" where
  "takers P out = {b. \<exists>node. map_of (mapTx P) b = Some node \<and> \<not> tx_IsCoinImport (ct_tx (node_tx node)) \<and> out \<in> prevout ` set (vin (ct_tx (node_tx node)))}"

definition children :: "('d, 'e) CTxMemPool \<Rightarrow> uint256 \<Rightarrow> nat \<Rightarrow> uint256 set" where
  "children P hash n = (\<Union>i<n. takers P (COutPoint hash (of_nat i)))"

definition parent_rel :: "('d, 'e) CTxMemPool \<Rightarrow> (uint256 \<times> uint256) set" where
  "parent_rel P = {(a, b). \<exists>node. map_of (mapTx P) a = Some node \<and> b \<in> children P a (length (vout (ct_tx (node_tx node))))}"

lemma takers_lookup:
  assumes "pool_ok P"
  shows "map_of (mapNextTx P) out = None \<Longrightarrow> takers P out = {}"
    "map_of (mapNextTx P) out = Some inp \<Longrightarrow> \<exists>tx. deref P (ip_ptx inp) = Inr tx \<and> takers P out = {tx_hash tx}"
proof -
  have mark: "\<exists>inp. map_of (mapNextTx P) out = Some inp \<and> ip_ptx inp = pn_addr node"
    if n: "map_of (mapTx P) b = Some node" "\<not> tx_IsCoinImport (ct_tx (node_tx node))" "out \<in> prevout ` set (vin (ct_tx (node_tx node)))" for b node
  proof -
    have "(pn_addr node, node_tx node) \<in> node_set P" using n(1) pool_okD(4) [OF assms n(1)] node_set_iff [OF assms] by blast
    moreover obtain inp where "(out, inp) \<in> set (input_marks (pn_addr node) (node_tx node))"
      using n(2,3) by (force simp: input_marks_def in_set_conv_nth)
    ultimately show ?thesis using pool_okD(5) [OF assms] input_index.marked_owner by (fastforce simp: index_ok_def)
  qed
  show "takers P out = {}" if "map_of (mapNextTx P) out = None"
    using mark that by (fastforce simp: takers_def)
  assume m: "map_of (mapNextTx P) out = Some inp"
  obtain tx where tx: "(ip_ptx inp, tx) \<in> node_set P" "(out, inp) \<in> set (input_marks (ip_ptx inp) tx)"
    using input_index.index_lookup [OF pool_okD(5) [OF assms] m] .
  then obtain node where n: "map_of (mapTx P) (tx_hash tx) = Some node" "pn_addr node = ip_ptx inp" "node_tx node = tx"
    using node_set_iff [OF assms] by blast
  have "tx_hash tx \<in> takers P out" using tx(2) n by (auto simp: takers_def input_marks_def split: if_splits)
  moreover have "b = tx_hash tx" if "b \<in> takers P out" for b
  proof -
    from that obtain node' where n': "map_of (mapTx P) b = Some node'" "pn_addr node' = ip_ptx inp"
      using mark m by (fastforce simp: takers_def)
    with same_address [OF assms map_of_SomeD [OF n'(1)] map_of_SomeD [OF n(1)]] n(2) show ?thesis by simp
  qed
  ultimately show "\<exists>tx. deref P (ip_ptx inp) = Inr tx \<and> takers P out = {tx_hash tx}" using deref_iff [OF assms] tx(1) by blast
qed

lemma spenders_exact:
  assumes "pool_ok P"
  shows "\<exists>hashes. spenders P hash is = Inr hashes \<and> set hashes = (\<Union>i\<in>set is. takers P (COutPoint hash (of_nat i)))"
proof (induction "is")
  case (Cons i "is")
  then show ?case
    using takers_lookup [OF assms, of "COutPoint hash (of_nat i)"] by (cases "map_of (mapNextTx P) (COutPoint hash (of_nat i))") auto
qed simp

lemma spenders_children:
  assumes "pool_ok P"
  obtains hashes where "spenders P hash [0..<n] = Inr hashes" "set hashes = children P hash n"
  using spenders_exact [OF assms, of hash "[0..<n]"] by (auto simp: children_def atLeast0LessThan)

lemma reach_remove:
  fixes E :: "('a \<times> 'a) set" and h :: 'a
  defines "E' \<equiv> {(a, b)\<in>E. a \<noteq> h \<and> b \<noteq> h}"
  shows "E\<^sup>* `` insert h A = insert h (E'\<^sup>* `` ((A \<union> E `` {h}) - {h}))"
proof (intro set_eqI iffI)
  fix b assume "b \<in> E\<^sup>* `` insert h A"
  then obtain a where a: "a \<in> insert h A" "(a, b) \<in> E\<^sup>*" by auto
  from a(2) show "b \<in> insert h (E'\<^sup>* `` ((A \<union> E `` {h}) - {h}))"
  proof (induction rule: rtrancl_induct)
    case base
    with a(1) show ?case by auto
  next
    case (step y z)
    consider "z = h" | "z \<noteq> h" "y = h" | "z \<noteq> h" "y \<noteq> h" by blast
    then show ?case
    proof cases
      case 3
      with step obtain x where "x \<in> (A \<union> E `` {h}) - {h}" "(x, y) \<in> E'\<^sup>*" by auto
      moreover have "(y, z) \<in> E'" using 3 step.hyps by (simp add: E'_def)
      ultimately show ?thesis by (meson Image_iff insertCI rtrancl.rtrancl_into_rtrancl)
    qed (use step.hyps in auto)
  qed
next
  fix b assume b: "b \<in> insert h (E'\<^sup>* `` ((A \<union> E `` {h}) - {h}))"
  have sub: "E'\<^sup>* \<subseteq> E\<^sup>*" by (rule rtrancl_mono) (auto simp: E'_def)
  show "b \<in> E\<^sup>* `` insert h A"
  proof (cases "b = h")
    case False
    with b obtain x where x: "x \<in> A \<or> (h, x) \<in> E" "(x, b) \<in> E'\<^sup>*" by auto
    then show ?thesis using sub by (meson Image_iff converse_rtrancl_into_rtrancl insertCI subsetD)
  qed auto
qed

lemma takers_remove: "takers (remove_node E hash node P) out = takers P out - {hash}"
  by (auto simp: takers_def split: if_splits)

lemma parent_rel_remove: "parent_rel (remove_node E hash node P) = {(a, b)\<in>parent_rel P. a \<noteq> hash \<and> b \<noteq> hash}"
  by (auto simp: parent_rel_def children_def takers_remove split: if_splits)

lemma parent_rel_pool: "(a, b) \<in> parent_rel P \<Longrightarrow> b \<in> dom (map_of (mapTx P))"
  by (auto simp: parent_rel_def children_def takers_def)

text \<open>The part of a pool outside a set of hashes.\<close>

definition without :: "uint256 set \<Rightarrow> (uint256, 'v) std_map \<Rightarrow> (uint256, 'v) std_map" where
  "without D m = filter (\<lambda>(b, _). b \<notin> D) m"

definition removes :: "('d, 'e) CTxMemPool \<Rightarrow> uint256 set \<Rightarrow> CTransaction list \<Rightarrow> ('d, 'e) CTxMemPool \<Rightarrow> bool" where
  "removes P D R P' \<longleftrightarrow> pool_ok P' \<and> mapTx P' = without D (mapTx P) \<and> set R = {node_tx node |b node. (b, node) \<in> set (mapTx P) \<and> b \<in> D}"

lemma without_lookup [simp]: "map_of (without D m) = map_of m |` (- D)"
  by (induction m) (auto simp: without_def restrict_map_def fun_eq_iff)

lemma removes_step:
  assumes "pool_ok P" "map_of (mapTx P) hash = Some node" "removes (remove_node E hash node P) D R P'"
  shows "removes P (insert hash D) (node_tx node # R) P'"
proof -
  note m = map_of_SomeD [OF assms(2)] and d = std_ok_distinct [OF pool_okD(1) [OF assms(1)]]
  have u: "(hash, n) \<in> set (mapTx P) \<longleftrightarrow> n = node" for n using m eq_key_imp_eq_value [OF d] by blast
  have "without D (std_erase (mapTx P) hash) = without (insert hash D) (mapTx P)"
    by (simp add: without_def std_erase_def case_prod_unfold)
  moreover have "{node_tx node |b node. (b, node) \<in> set (mapTx P) \<and> b \<in> insert hash D} =
    insert (node_tx node) {node_tx node |b node. (b, node) \<in> set (std_erase (mapTx P) hash) \<and> b \<in> D}" (is "?l = ?r")
  proof (intro set_eqI iffI)
    fix t assume "t \<in> ?l"
    then obtain b n where "(b, n) \<in> set (mapTx P)" "b = hash \<or> b \<in> D" "t = node_tx n" by blast
    then show "t \<in> ?r" using u by (cases "b = hash") auto
  next
    fix t assume "t \<in> ?r"
    then show "t \<in> ?l" using m by auto
  qed
  ultimately show ?thesis using assms(3) by (simp add: removes_def)
qed

lemma removes_trans:
  assumes "removes P D R P1" "removes P1 D' R' P2"
  shows "removes P (D \<union> D') (R @ R') P2"
  using assms by (auto simp: removes_def without_def case_prod_unfold intro!: filter_cong) blast

lemma removes_nothing: "pool_ok P \<Longrightarrow> removes P {} [] P"
  by (simp add: removes_def without_def)

definition reach :: "('d, 'e) CTxMemPool \<Rightarrow> uint256 set \<Rightarrow> uint256 set" where
  "reach P A = (parent_rel P)\<^sup>* `` (A \<inter> dom (map_of (mapTx P)))"

lemma remove_loop_exact:
  assumes "pool_ok P"
  shows "\<exists>R P'. remove_loop E True queue removed P = Inr (removed @ R, P') \<and> removes P (reach P (set queue)) R P'"
  using assms
proof (induction E True queue removed P rule: remove_loop.induct)
  case (1 E removed P)
  then show ?case by (auto simp: removes_nothing reach_def)
next
  case (2 E hash queue removed P)
  show ?case
  proof (cases "map_of (mapTx P) hash")
    case None
    then have "reach P (set (hash # queue)) = reach P (set queue)" unfolding reach_def by (intro arg_cong2 [of _ _ _ _ Image]) auto
    with "2.hyps"(1) [OF None "2.prems"] None show ?thesis by (simp only: remove_loop.simps option.case)
  next
    case (Some node)
    let ?P = "remove_node E hash node P"
    obtain hs where hs: "spenders P hash [0..<length (vout (ct_tx (node_tx node)))] = Inr hs"
      "set hs = children P hash (length (vout (ct_tx (node_tx node))))" by (rule spenders_children [OF "2.prems"])
    from hs(2) Some have c: "set hs = parent_rel P `` {hash}" by (auto simp: parent_rel_def)
    have "parent_rel P `` {hash} \<subseteq> dom (map_of (mapTx P))" using parent_rel_pool by blast
    moreover have "dom (map_of (mapTx ?P)) = dom (map_of (mapTx P)) - {hash}" by simp
    ultimately have "((set queue \<inter> dom (map_of (mapTx P))) \<union> parent_rel P `` {hash}) - {hash} = set (queue @ hs) \<inter> dom (map_of (mapTx ?P))"
      unfolding c set_append by blast
    moreover have "set (hash # queue) \<inter> dom (map_of (mapTx P)) = insert hash (set queue \<inter> dom (map_of (mapTx P)))" using Some by auto
    ultimately have D: "reach P (set (hash # queue)) = insert hash (reach ?P (set (queue @ hs)))"
      unfolding reach_def parent_rel_remove using reach_remove [of "parent_rel P" hash "set queue \<inter> dom (map_of (mapTx P))"] by simp
    have i: "(if True then spenders P hash [0..<length (vout (ct_tx (node_tx node)))] else Inr []) = Inr hs" by (simp add: hs(1))
    from "2.hyps"(2) [OF Some i remove_node_ok [OF "2.prems" Some]]
    obtain R P' where R: "remove_loop E True (queue @ hs) (removed @ [node_tx node]) ?P = Inr ((removed @ [node_tx node]) @ R, P')"
      "removes ?P (reach ?P (set (queue @ hs))) R P'" by blast
    have "remove_loop E True (hash # queue) removed P = Inr (removed @ (node_tx node # R), P')" using Some hs(1) R(1) by simp
    with removes_step [OF "2.prems" Some R(2)] show ?thesis unfolding D by blast
  qed
qed

text \<open>What a recursive removal takes: the transaction, if it is there, and all that descends from it.\<close>

definition descendants :: "('d, 'e) CTxMemPool \<Rightarrow> CTransaction \<Rightarrow> uint256 set" where
  "descendants P tx =
     (parent_rel P)\<^sup>* `` (if map_of (mapTx P) (tx_hash tx) = None then children P (tx_hash tx) (length (vout (ct_tx tx))) else {tx_hash tx})"

lemma remove_recursive:
  assumes "pool_ok P"
  shows "\<exists>R P'. remove E tx removed True P = Inr (removed @ R, P') \<and> removes P (descendants P tx) R P'"
proof -
  obtain hs where hs: "(if map_of (mapTx P) (tx_hash tx) = None then spenders P (tx_hash tx) [0..<length (vout (ct_tx tx))] else Inr []) = Inr hs"
    "descendants P tx = reach P (set (tx_hash tx # hs))"
  proof (cases "map_of (mapTx P) (tx_hash tx)")
    case None
    obtain hs where "spenders P (tx_hash tx) [0..<length (vout (ct_tx tx))] = Inr hs" "set hs = children P (tx_hash tx) (length (vout (ct_tx tx)))"
      by (rule spenders_children [OF assms])
    moreover have "set (tx_hash tx # hs) \<inter> dom (map_of (mapTx P)) = set hs"
      using None calculation(2) by (auto simp: children_def takers_def)
    ultimately show thesis using None that [of hs] by (simp add: descendants_def reach_def)
  next
    case (Some node)
    then have "set [tx_hash tx] \<inter> dom (map_of (mapTx P)) = {tx_hash tx}" by auto
    with Some that [of "[]"] show thesis by (simp add: descendants_def reach_def)
  qed
  with remove_loop_exact [OF assms, of E "tx_hash tx # hs" removed] show ?thesis by (auto simp: remove_def)
qed

lemma remove_single:
  assumes "pool_ok P"
  shows "\<exists>R P'. remove E tx removed False P = Inr (removed @ R, P') \<and> removes P ({tx_hash tx} \<inter> dom (map_of (mapTx P))) R P'"
proof (cases "map_of (mapTx P) (tx_hash tx)")
  case None
  then have "{tx_hash tx} \<inter> dom (map_of (mapTx P)) = {}" by auto
  with None removes_nothing [OF assms] show ?thesis by (auto simp: remove_def)
next
  case (Some node)
  then have "{tx_hash tx} \<inter> dom (map_of (mapTx P)) = {tx_hash tx}" by auto
  with Some removes_step [OF assms Some removes_nothing [OF remove_node_ok [OF assms Some]]] show ?thesis by (auto simp: remove_def)
qed

section \<open>Removals of several transactions\<close>

lemma reach_outside:
  fixes E :: "('a \<times> 'a) set" and D :: "'a set"
  defines "E' \<equiv> {(a, b)\<in>E. a \<notin> D \<and> b \<notin> D}"
  assumes "E `` D \<subseteq> D" "h \<notin> D"
  shows "D \<union> E'\<^sup>* `` {h} = D \<union> E\<^sup>* `` {h}"
proof -
  have "b \<in> D \<or> (h, b) \<in> E'\<^sup>*" if "(h, b) \<in> E\<^sup>*" for b
    using that
  proof (induction rule: rtrancl_induct)
    case (step y z)
    consider "z \<in> D" | "z \<notin> D" "y \<notin> D" using step.hyps(2) assms(2) by blast
    then show ?case
    proof cases
      case 2
      with step have "(y, z) \<in> E'" "(h, y) \<in> E'\<^sup>*" by (auto simp: E'_def)
      then show ?thesis by (meson rtrancl.rtrancl_into_rtrancl)
    qed simp
  qed simp
  moreover have "E'\<^sup>* \<subseteq> E\<^sup>*" by (rule rtrancl_mono) (auto simp: E'_def)
  ultimately show ?thesis by blast
qed

lemma removes_takers:
  assumes "removes P D R P1"
  shows "takers P1 out = takers P out - D"
  using assms by (auto simp: removes_def takers_def restrict_map_def split: if_splits)

lemma removes_parent_rel:
  assumes "removes P D R P1"
  shows "parent_rel P1 = {(a, b)\<in>parent_rel P. a \<notin> D \<and> b \<notin> D}"
  using assms by (auto simp: parent_rel_def children_def removes_takers [OF assms] removes_def restrict_map_def split: if_splits)

lemma removes_descendants:
  assumes "removes P D R P1" "parent_rel P `` D \<subseteq> D" "(h, node) \<in> set (mapTx P)" "pool_ok P"
  shows "D \<union> descendants P1 (node_tx node) = D \<union> (parent_rel P)\<^sup>* `` {tx_hash (node_tx node)}"
proof -
  let ?h = "tx_hash (node_tx node)"
  have "map_of (mapTx P) h = Some node" using std_lookup_member [OF pool_okD(1) [OF assms(4)]] assms(3) by simp
  with pool_okD(4) [OF assms(4) this] have m: "map_of (mapTx P) ?h = Some node" by simp
  have l: "map_of (mapTx P1) = map_of (mapTx P) |` (- D)" using assms(1) by (simp add: removes_def)
  show ?thesis
  proof (cases "?h \<in> D")
    case True
    then have "parent_rel P `` {?h} \<subseteq> D" using assms(2) by auto
    then have "children P ?h (length (vout (ct_tx (node_tx node)))) \<subseteq> D" using m by (auto simp: parent_rel_def)
    then have "children P1 ?h (length (vout (ct_tx (node_tx node)))) = {}" unfolding children_def removes_takers [OF assms(1)] by blast
    then have "descendants P1 (node_tx node) = {}" using True l by (simp add: descendants_def restrict_map_def)
    moreover have "(parent_rel P)\<^sup>* `` {?h} \<subseteq> (parent_rel P)\<^sup>* `` D" using True by (intro Image_mono) auto
    ultimately show ?thesis unfolding Image_closed_trancl [OF assms(2)] by auto
  next
    case False
    then have "descendants P1 (node_tx node) = (parent_rel P1)\<^sup>* `` {?h}" using m l by (simp add: descendants_def)
    with reach_outside [OF assms(2) False] show ?thesis by (simp add: removes_parent_rel [OF assms(1)])
  qed
qed

lemma remove_each_from:
  assumes "pool_ok P" "\<forall>tx\<in>set txs. \<exists>h node. (h, node) \<in> set (mapTx P) \<and> tx = node_tx node" "removes P D R P1" "parent_rel P `` D \<subseteq> D"
  shows "\<exists>R' P2. remove_each E txs P1 = Inr P2 \<and> removes P (D \<union> (parent_rel P)\<^sup>* `` (tx_hash ` set txs)) R' P2"
  using assms(2-)
proof (induction txs arbitrary: D R P1)
  case Nil
  then show ?case by auto
next
  case (Cons tx txs)
  let ?D = "D \<union> (parent_rel P)\<^sup>* `` {tx_hash tx}"
  from Cons.prems(1) obtain h node where n: "(h, node) \<in> set (mapTx P)" "tx = node_tx node" by auto
  have ok: "pool_ok P1" using Cons.prems(2) by (simp add: removes_def)
  from remove_recursive [OF ok, of E tx "[]"] obtain R1 P2 where R1: "remove E tx [] True P1 = Inr (R1, P2)" "removes P1 (descendants P1 tx) R1 P2" by auto
  have r: "removes P ?D (R @ R1) P2"
    using removes_trans [OF Cons.prems(2) R1(2)] removes_descendants [OF Cons.prems(2,3) n(1) assms(1)] n(2) by simp
  have "parent_rel P `` ?D \<subseteq> ?D" using Cons.prems(3) by (auto intro: rtrancl_into_rtrancl)
  from Cons.IH [OF _ r this] Cons.prems(1) obtain R' P3 where "remove_each E txs P2 = Inr P3"
    "removes P (?D \<union> (parent_rel P)\<^sup>* `` (tx_hash ` set txs)) R' P3" by auto
  moreover have "?D \<union> (parent_rel P)\<^sup>* `` (tx_hash ` set txs) = D \<union> (parent_rel P)\<^sup>* `` (tx_hash ` set (tx # txs))" by auto
  ultimately show ?case using R1(1) by auto
qed

text \<open>What a removal of the transactions with a property takes.\<close>

definition affected :: "('d, 'e) CTxMemPool \<Rightarrow> ('d pool_node \<Rightarrow> bool) \<Rightarrow> uint256 set" where
  "affected P Q = (parent_rel P)\<^sup>* `` {b. \<exists>node. map_of (mapTx P) b = Some node \<and> Q node}"

lemma remove_each_exact:
  assumes "pool_ok P"
  shows "\<exists>R P'. remove_each E (map node_tx (filter Q (pool_nodes P))) P = Inr P' \<and> removes P (affected P Q) R P'"
proof -
  have eq: "{b. \<exists>node. map_of (mapTx P) b = Some node \<and> Q node} = tx_hash ` set (map node_tx (filter Q (pool_nodes P)))"
  proof (intro set_eqI iffI)
    fix b assume "b \<in> {b. \<exists>node. map_of (mapTx P) b = Some node \<and> Q node}"
    then obtain node where "map_of (mapTx P) b = Some node" "Q node" by auto
    with pool_okD(4) [OF assms this(1)] map_of_SomeD [OF this(1)]
    show "b \<in> tx_hash ` set (map node_tx (filter Q (pool_nodes P)))" by (force simp: pool_nodes_def)
  next
    fix b assume "b \<in> tx_hash ` set (map node_tx (filter Q (pool_nodes P)))"
    then obtain h node where n: "(h, node) \<in> set (mapTx P)" "Q node" "b = tx_hash (node_tx node)" by (auto simp: pool_nodes_def)
    then have "map_of (mapTx P) h = Some node" using std_lookup_member [OF pool_okD(1) [OF assms]] by simp
    with pool_okD(4) [OF assms this] n show "b \<in> {b. \<exists>node. map_of (mapTx P) b = Some node \<and> Q node}" by auto
  qed
  have mem: "\<forall>tx\<in>set (map node_tx (filter Q (pool_nodes P))). \<exists>h node. (h, node) \<in> set (mapTx P) \<and> tx = node_tx node"
    by (fastforce simp: pool_nodes_def)
  from remove_each_from [OF assms mem removes_nothing [OF assms], of E] show ?thesis unfolding affected_def eq by auto
qed

end
