(* ===== verification/MempoolProps.thy ===== *)
theory MempoolProps
  imports MempoolRemove
begin

text \<open>
  The memory pool stays consistent under every operation: conflicts, new blocks, reorganisations, expiry. A new
  block leaves nothing that it contains or conflicts with, and a removal by a property takes exactly what has it and
  what descends from that.
\<close>

section \<open>Conflicts\<close>

lemma removes_nodes:
  assumes "pool_ok P" "removes P D R P'"
  shows "(p, tx) \<in> node_set P' \<longleftrightarrow> (p, tx) \<in> node_set P \<and> tx_hash tx \<notin> D"
proof -
  have ok: "pool_ok P'" and m: "map_of (mapTx P') = map_of (mapTx P) |` (- D)" using assms(2) by (simp_all add: removes_def)
  show ?thesis unfolding node_set_iff [OF ok] node_set_iff [OF assms(1)] m by (auto simp: restrict_map_def)
qed

text \<open>A transaction of the pool that can stay when another is in a block: no common input and no common nullifier.\<close>

definition compatible :: "CTransaction \<Rightarrow> CTransaction \<Rightarrow> bool" where
  "compatible t tx \<longleftrightarrow>
     (\<not> tx_IsCoinImport (ct_tx t) \<longrightarrow> prevout ` set (vin (ct_tx t)) \<inter> prevout ` set (vin (ct_tx tx)) = {}) \<and>
     (\<forall>type. set (nullifiers_of (ct_tx t) type) \<inter> set (nullifiers_of (ct_tx tx) type) = {})"

definition conflicting :: "('d, 'e) CTxMemPool \<Rightarrow> CTransaction \<Rightarrow> uint256 set" where
  "conflicting P tx = {b. \<exists>node. map_of (mapTx P) b = Some node \<and> b \<noteq> tx_hash tx \<and> \<not> compatible (node_tx node) tx}"

lemma conflicting_removes: "removes P D R P' \<Longrightarrow> conflicting P' tx \<subseteq> conflicting P tx"
  by (auto simp: conflicting_def removes_def restrict_map_def split: if_splits)

lemma reach_removes: "removes P D R P' \<Longrightarrow> A \<subseteq> B \<Longrightarrow> (parent_rel P')\<^sup>* `` A \<subseteq> (parent_rel P)\<^sup>* `` B"
  by (intro Image_mono rtrancl_mono) (auto simp: removes_parent_rel)

text \<open>A pool after a removal of conflicting transactions and what descends from them, and of nothing else.\<close>

definition purged :: "('d, 'e) CTxMemPool \<Rightarrow> CTransaction \<Rightarrow> CTransaction list \<Rightarrow> ('d, 'e) CTxMemPool \<Rightarrow> bool" where
  "purged P tx R P' \<longleftrightarrow> (\<exists>D. removes P D R P' \<and> D \<subseteq> (parent_rel P)\<^sup>* `` conflicting P tx)"

lemma purged_nothing: "pool_ok P \<Longrightarrow> purged P tx [] P"
  unfolding purged_def using removes_nothing by blast

text \<open>The hashes of the pool's transactions with one of the keys, and keys that no transaction but the given one holds.\<close>

definition holders :: "(tx_ptr \<Rightarrow> CTransaction \<Rightarrow> ('k \<times> 'v) list) \<Rightarrow> ('d, 'e) CTxMemPool \<Rightarrow> 'k set \<Rightarrow> uint256 set" where
  "holders marks P ks = {b. \<exists>node. map_of (mapTx P) b = Some node \<and> fst ` set (marks (pn_addr node) (node_tx node)) \<inter> ks \<noteq> {}}"

definition settled :: "(('d, 'e) CTxMemPool \<Rightarrow> ('k, 'v) std_map) \<Rightarrow> ('v \<Rightarrow> tx_ptr) \<Rightarrow> ('d, 'e) CTxMemPool \<Rightarrow> CTransaction \<Rightarrow> 'k \<Rightarrow> bool" where
  "settled ix owner P tx k \<longleftrightarrow> (\<forall>v. map_of (ix P) k = Some v \<longrightarrow> (\<exists>t. deref P (owner v) = Inr t \<and> tx_hash t = tx_hash tx))"

text \<open>The pool's indices, with the lookups that find a conflicting transaction.\<close>

locale pool_lookup = pool_index marks drops owner
  for marks :: "tx_ptr \<Rightarrow> CTransaction \<Rightarrow> ('k::linorder \<times> 'v) list" and drops and owner +
  fixes ix :: "('d, 'e) CTxMemPool \<Rightarrow> ('k, 'v) std_map"
  assumes ix_ok: "pool_ok P \<Longrightarrow> index_ok marks (node_set P) (ix P)"
begin

lemma lookup_iff:
  assumes "pool_ok P"
  shows "map_of (ix P) k = Some v \<longleftrightarrow> (\<exists>tx. (owner v, tx) \<in> node_set P \<and> (k, v) \<in> set (marks (owner v) tx))"
  using ix_ok [OF assms] marked_owner unfolding index_ok_def by blast

lemma marked_lookup:
  assumes "pool_ok P" "(p, tx) \<in> node_set P" "(k, v) \<in> set (marks p tx)"
  shows "map_of (ix P) k = Some v" "owner v = p"
  using assms lookup_iff [OF assms(1)] marked_owner [OF assms(3)] by blast+

lemma lookup_live:
  assumes "pool_ok P" "map_of (ix P) k = Some v"
  obtains tx where "deref P (owner v) = Inr tx" "(owner v, tx) \<in> node_set P" "(k, v) \<in> set (marks (owner v) tx)"
  using assms lookup_iff deref_iff by blast

lemma lookup_removes:
  assumes "pool_ok P" "removes P D R P'" "map_of (ix P') k = Some v"
  obtains tx where "map_of (ix P) k = Some v" "deref P (owner v) = Inr tx" "deref P' (owner v) = Inr tx" "tx_hash tx \<notin> D"
proof -
  have ok: "pool_ok P'" using assms(2) by (simp add: removes_def)
  from lookup_live [OF ok assms(3)] obtain tx where tx: "deref P' (owner v) = Inr tx" "(owner v, tx) \<in> node_set P'"
    "(k, v) \<in> set (marks (owner v) tx)" .
  with removes_nodes [OF assms(1,2)] have "(owner v, tx) \<in> node_set P" "tx_hash tx \<notin> D" by auto
  with tx lookup_iff [OF assms(1)] deref_iff [OF assms(1)] that show thesis by blast
qed

lemma holders_removes: "removes P D R P' \<Longrightarrow> holders marks P' ks \<subseteq> holders marks P ks"
  by (auto simp: holders_def removes_def restrict_map_def split: if_splits)

lemma settled_removes:
  assumes "pool_ok P" "removes P D R P'" "settled ix owner P tx k"
  shows "settled ix owner P' tx k"
  using assms(3) lookup_removes [OF assms(1,2)] unfolding settled_def by (metis sum.inject(2))

lemma holders_mono: "A \<subseteq> B \<Longrightarrow> holders marks P A \<subseteq> holders marks P B"
  unfolding holders_def by blast

lemma conflict_step:
  assumes "pool_ok P"
  shows "\<exists>D R P'. (case map_option owner (map_of (ix P) k) of None \<Rightarrow> Inr (removed, P) | Some p \<Rightarrow> res_bind (deref P p) (\<lambda>txConflict.
       if tx_hash txConflict \<noteq> tx_hash tx then remove E txConflict removed True P else Inr (removed, P))) = Inr (removed @ R, P') \<and>
    removes P D R P' \<and> settled ix owner P' tx k \<and> D \<subseteq> (parent_rel P)\<^sup>* `` (holders marks P {k} - {tx_hash tx})"
proof (cases "map_of (ix P) k")
  case None
  then have "settled ix owner P tx k" by (simp add: settled_def)
  with None removes_nothing [OF assms] show ?thesis by (intro exI [of _ "{}"] exI [of _ "[]"]) simp
next
  case (Some v)
  obtain t where t: "deref P (owner v) = Inr t" "(owner v, t) \<in> node_set P" "(k, v) \<in> set (marks (owner v) t)" by (rule lookup_live [OF assms Some])
  show ?thesis
  proof (cases "tx_hash t = tx_hash tx")
    case True
    then have "settled ix owner P tx k" using t(1) Some by (simp add: settled_def)
    with True t(1) Some removes_nothing [OF assms] show ?thesis by (intro exI [of _ "{}"] exI [of _ "[]"]) simp
  next
    case False
    obtain node where n: "map_of (mapTx P) (tx_hash t) = Some node" "pn_addr node = owner v" "node_tx node = t"
      using t(2) node_set_iff [OF assms] by blast
    have d: "descendants P t = (parent_rel P)\<^sup>* `` {tx_hash t}" using n by (simp add: descendants_def)
    from remove_recursive [OF assms, of E t removed] obtain R P1 where r: "remove E t removed True P = Inr (removed @ R, P1)"
      "removes P (descendants P t) R P1" by auto
    have "tx_hash t \<in> holders marks P {k}" using n t(3) by (force simp: holders_def)
    with False have D: "descendants P t \<subseteq> (parent_rel P)\<^sup>* `` (holders marks P {k} - {tx_hash tx})" unfolding d by (intro Image_mono) auto
    have "map_of (ix P1) k = None"
    proof (rule ccontr)
      assume "map_of (ix P1) k \<noteq> None"
      then obtain w where w: "map_of (ix P1) k = Some w" by auto
      obtain t' where "map_of (ix P) k = Some w" "deref P (owner w) = Inr t'" "tx_hash t' \<notin> descendants P t" by (rule lookup_removes [OF assms r(2) w])
      with Some t(1) d show False by simp
    qed
    then have "settled ix owner P1 tx k" by (simp add: settled_def)
    with r D t(1) Some False show ?thesis by (intro exI [of _ "descendants P t"] exI [of _ R] exI [of _ P1]) simp
  qed
qed

lemma remove_conflicting_exact:
  assumes "pool_ok P"
  shows "\<exists>D R P'. remove_conflicting E (\<lambda>P k. map_option owner (map_of (ix P) k)) tx ks removed P = Inr (removed @ R, P') \<and> removes P D R P' \<and>
    (\<forall>k\<in>set ks. settled ix owner P' tx k) \<and> D \<subseteq> (parent_rel P)\<^sup>* `` (holders marks P (set ks) - {tx_hash tx})"
  using assms
proof (induction ks arbitrary: removed P)
  case Nil
  then show ?case using removes_nothing [OF Nil] by (intro exI [of _ "{}"] exI [of _ "[]"]) simp
next
  case (Cons k ks)
  let ?find = "\<lambda>P k. map_option owner (map_of (ix P) k)"
  from conflict_step [OF Cons.prems, where k = k and removed = removed and tx = tx and E = E] obtain D R P1 where step:
    "(case ?find P k of None \<Rightarrow> Inr (removed, P) | Some p \<Rightarrow> res_bind (deref P p) (\<lambda>txConflict.
       if tx_hash txConflict \<noteq> tx_hash tx then remove E txConflict removed True P else Inr (removed, P))) = Inr (removed @ R, P1)"
    "removes P D R P1" "settled ix owner P1 tx k" "D \<subseteq> (parent_rel P)\<^sup>* `` (holders marks P {k} - {tx_hash tx})" by blast
  have ok: "pool_ok P1" using step(2) by (simp add: removes_def)
  from Cons.IH [OF ok, of "removed @ R"] obtain D' R' P2 where rest: "remove_conflicting E ?find tx ks (removed @ R) P1 = Inr ((removed @ R) @ R', P2)"
    "removes P1 D' R' P2" "\<forall>k\<in>set ks. settled ix owner P2 tx k" "D' \<subseteq> (parent_rel P1)\<^sup>* `` (holders marks P1 (set ks) - {tx_hash tx})" by blast
  have "(parent_rel P1)\<^sup>* \<subseteq> (parent_rel P)\<^sup>*" unfolding removes_parent_rel [OF step(2)] by (rule rtrancl_mono) auto
  moreover have "holders marks P1 (set ks) \<subseteq> holders marks P (set (k # ks))" using holders_removes [OF step(2)] holders_mono [of "set ks" "set (k # ks)" P] by auto
  ultimately have "D' \<subseteq> (parent_rel P)\<^sup>* `` (holders marks P (set (k # ks)) - {tx_hash tx})" using rest(4) by blast
  moreover have "D \<subseteq> (parent_rel P)\<^sup>* `` (holders marks P (set (k # ks)) - {tx_hash tx})"
    using step(4) holders_mono [of "{k}" "set (k # ks)" P] by auto
  moreover have "remove_conflicting E ?find tx (k # ks) removed P = Inr (removed @ (R @ R'), P2)" using step(1) rest(1) by simp
  moreover have "\<forall>k'\<in>set (k # ks). settled ix owner P2 tx k'" using rest(3) settled_removes [OF ok rest(2) step(3)] by simp
  ultimately show ?case using removes_trans [OF step(2) rest(2)] by (intro exI [of _ "D \<union> D'"] exI [of _ "R @ R'"] exI [of _ P2]) blast
qed

lemma conflict_stage:
  assumes "pool_ok P0" "purged P0 tx R P" "\<And>Q :: ('d, 'e) CTxMemPool. holders marks Q (set ks) - {tx_hash tx} \<subseteq> conflicting Q tx"
  shows "\<exists>R' P' D. remove_conflicting E (\<lambda>P k. map_option owner (map_of (ix P) k)) tx ks removed P = Inr (removed @ R', P') \<and>
    purged P0 tx (R @ R') P' \<and> removes P D R' P' \<and> (\<forall>k\<in>set ks. settled ix owner P' tx k)"
proof -
  from assms(2) obtain D0 where D0: "removes P0 D0 R P" "D0 \<subseteq> (parent_rel P0)\<^sup>* `` conflicting P0 tx" by (auto simp: purged_def)
  then have ok: "pool_ok P" by (simp add: removes_def)
  from remove_conflicting_exact [OF ok, of E tx ks removed] obtain D R' P' where
    s: "remove_conflicting E (\<lambda>P k. map_option owner (map_of (ix P) k)) tx ks removed P = Inr (removed @ R', P')" "removes P D R' P'"
      "\<forall>k\<in>set ks. settled ix owner P' tx k" "D \<subseteq> (parent_rel P)\<^sup>* `` (holders marks P (set ks) - {tx_hash tx})" by blast
  have "D \<subseteq> (parent_rel P0)\<^sup>* `` conflicting P0 tx"
    using s(4) reach_removes [OF D0(1) order.trans [OF assms(3) conflicting_removes [OF D0(1)]]] by blast
  with D0(2) have "purged P0 tx (R @ R') P'" unfolding purged_def using removes_trans [OF D0(1) s(2)] by blast
  with s show ?thesis by blast
qed

end

interpretation next_lookup: pool_lookup input_marks "\<lambda>tx. map prevout (vin (ct_tx tx))" ip_ptx mapNextTx
  by unfold_locales (rule pool_okD(5))

interpretation nullifier_lookup: pool_lookup "nullifier_marks type" "\<lambda>tx. nullifiers_of (ct_tx tx) type" "\<lambda>p. p" "\<lambda>P. mapNullifiers P type" for type
  by unfold_locales (rule pool_okD(6))

section \<open>New blocks\<close>

lemma holders_conflicting:
  "holders input_marks P (prevout ` set (vin (ct_tx tx))) - {tx_hash tx} \<subseteq> conflicting P tx"
  "holders (nullifier_marks type) P (set (nullifiers_of (ct_tx tx) type)) - {tx_hash tx} \<subseteq> conflicting P tx"
  unfolding holders_def conflicting_def compatible_def marks_dom by (auto split: if_splits) blast+

lemma settled_compatible:
  assumes "pool_ok P" "map_of (mapTx P) b = Some node" "b \<noteq> tx_hash tx"
    "\<forall>k\<in>prevout ` set (vin (ct_tx tx)). settled mapNextTx ip_ptx P tx k"
    "\<And>type. \<forall>k\<in>set (nullifiers_of (ct_tx tx) type). settled (\<lambda>P. mapNullifiers P type) (\<lambda>p. p) P tx k"
  shows "compatible (node_tx node) tx"
proof -
  have b: "b = tx_hash (node_tx node)" "(pn_addr node, node_tx node) \<in> node_set P"
    using assms(2) pool_okD(4) [OF assms(1,2)] node_set_iff [OF assms(1)] by auto
  then have n: "deref P (pn_addr node) = Inr (node_tx node)" using deref_iff [OF assms(1)] by simp
  have "k \<notin> prevout ` set (vin (ct_tx tx))" if k: "k \<in> prevout ` set (vin (ct_tx (node_tx node)))" "\<not> tx_IsCoinImport (ct_tx (node_tx node))" for k
  proof
    assume "k \<in> prevout ` set (vin (ct_tx tx))"
    moreover from k obtain v where v: "(k, v) \<in> set (input_marks (pn_addr node) (node_tx node))" using marks_dom(1) [of "pn_addr node" "node_tx node"] by force
    then have "map_of (mapNextTx P) k = Some v" "ip_ptx v = pn_addr node"
      using next_lookup.lookup_iff [OF assms(1)] b(2) input_index.marked_owner by auto
    ultimately show False using assms(3,4) n b(1) unfolding settled_def by fastforce
  qed
  moreover have "k \<notin> set (nullifiers_of (ct_tx tx) type)" if k: "k \<in> set (nullifiers_of (ct_tx (node_tx node)) type)" for k type
  proof
    assume "k \<in> set (nullifiers_of (ct_tx tx) type)"
    moreover have "(k, pn_addr node) \<in> set (nullifier_marks type (pn_addr node) (node_tx node))" using k by (simp add: nullifier_marks_def)
    then have "map_of (mapNullifiers P type) k = Some (pn_addr node)" using nullifier_lookup.lookup_iff [OF assms(1)] b(2) by blast
    ultimately show False using assms(3) assms(5) [of type] n b(1) unfolding settled_def by fastforce
  qed
  ultimately show ?thesis unfolding compatible_def by blast
qed

lemma removeConflicts_exact:
  fixes P :: "('d, 'e) CTxMemPool"
  assumes "pool_ok P"
  shows "\<exists>R P'. removeConflicts E tx removed P = Inr (removed @ R, P') \<and> purged P tx R P' \<and>
    (\<forall>b node. map_of (mapTx P') b = Some node \<longrightarrow> b \<noteq> tx_hash tx \<longrightarrow> compatible (node_tx node) tx)"
proof -
  have f: "input_spender = (\<lambda>P k. map_option ip_ptx (map_of (mapNextTx P) k))"
    "nullifier_spender type = (\<lambda>P k. map_option (\<lambda>p. p) (map_of (mapNullifiers P type) k))" for type
    by (simp_all add: fun_eq_iff input_spender_def nullifier_spender_def option.map_ident)
  have h: "holders input_marks Q (set (map prevout (vin (ct_tx tx)))) - {tx_hash tx} \<subseteq> conflicting Q tx" for Q :: "('d, 'e) CTxMemPool"
    using holders_conflicting(1) by simp
  obtain R1 P1 D1 where
    1: "remove_conflicting E input_spender tx (map prevout (vin (ct_tx tx))) removed P = Inr (removed @ R1, P1)" "purged P tx R1 P1" "removes P D1 R1 P1"
      "\<forall>k\<in>prevout ` set (vin (ct_tx tx)). settled mapNextTx ip_ptx P1 tx k"
    using next_lookup.conflict_stage [OF assms purged_nothing [OF assms] h, of E removed] unfolding f(1) by auto
  have ok1: "pool_ok P1" using 1(3) by (simp add: removes_def)
  obtain R2 P2 D2 where
    2: "remove_conflicting E (nullifier_spender SPROUT) tx (nullifiers_of (ct_tx tx) SPROUT) (removed @ R1) P1 = Inr ((removed @ R1) @ R2, P2)"
      "purged P tx (R1 @ R2) P2" "removes P1 D2 R2 P2" "\<forall>k\<in>set (nullifiers_of (ct_tx tx) SPROUT). settled (\<lambda>P. mapNullifiers P SPROUT) (\<lambda>p. p) P2 tx k"
    using nullifier_lookup.conflict_stage [OF assms 1(2) holders_conflicting(2) [of SPROUT], of E "removed @ R1"] unfolding f(2) by auto
  have ok2: "pool_ok P2" using 2(3) by (simp add: removes_def)
  obtain R3 P3 D3 where
    3: "remove_conflicting E (nullifier_spender SAPLING) tx (nullifiers_of (ct_tx tx) SAPLING) ((removed @ R1) @ R2) P2 = Inr (((removed @ R1) @ R2) @ R3, P3)"
      "purged P tx ((R1 @ R2) @ R3) P3" "removes P2 D3 R3 P3" "\<forall>k\<in>set (nullifiers_of (ct_tx tx) SAPLING). settled (\<lambda>P. mapNullifiers P SAPLING) (\<lambda>p. p) P3 tx k"
    using nullifier_lookup.conflict_stage [OF assms 2(2) holders_conflicting(2) [of SAPLING], of E "(removed @ R1) @ R2"] unfolding f(2) by auto
  have ok3: "pool_ok P3" using 3(3) by (simp add: removes_def)
  have n: "\<forall>k\<in>set (nullifiers_of (ct_tx tx) type). settled (\<lambda>P. mapNullifiers P type) (\<lambda>p. p) P3 tx k" for type
    using 2(4) 3(4) nullifier_lookup.settled_removes [OF ok2 3(3)] by (cases type) auto
  have i: "\<forall>k\<in>prevout ` set (vin (ct_tx tx)). settled mapNextTx ip_ptx P3 tx k"
    using next_lookup.settled_removes [OF ok2 3(3)] next_lookup.settled_removes [OF ok1 2(3)] 1(4) by blast
  have "removeConflicts E tx removed P = Inr (removed @ (R1 @ R2) @ R3, P3)" using 1(1) 2(1) 3(1) by (simp add: removeConflicts_def)
  with 3(2) settled_compatible [OF ok3 _ _ i n] show ?thesis by (intro exI [of _ "(R1 @ R2) @ R3"] exI [of _ P3]) simp
qed

lemma deltas_irrelevant [simp]:
  "node_set (P\<lparr>mapDeltas := m\<rparr>) = node_set P" "pool_ok (P\<lparr>mapDeltas := m\<rparr>) = pool_ok P"
  "parent_rel (P\<lparr>mapDeltas := m\<rparr>) = parent_rel P" "conflicting (P\<lparr>mapDeltas := m\<rparr>) tx = conflicting P tx"
  by (simp_all add: node_set_def pool_nodes_def pool_ok_def parent_rel_def children_def takers_def conflicting_def)

lemma removes_deltas [simp]:
  "removes P D R (P'\<lparr>mapDeltas := m\<rparr>) = removes P D R P'" "removes (P\<lparr>mapDeltas := m\<rparr>) D R P' = removes P D R P'"
  by (simp_all add: removes_def)

text \<open>A pool in which nothing is, or conflicts with, a transaction of the block.\<close>

definition clean_of :: "CTransaction \<Rightarrow> ('d, 'e) CTxMemPool \<Rightarrow> bool" where
  "clean_of tx P \<longleftrightarrow> (\<forall>b node. map_of (mapTx P) b = Some node \<longrightarrow> b \<noteq> tx_hash tx \<and> compatible (node_tx node) tx)"

lemma clean_of_removes: "removes P D R P' \<Longrightarrow> clean_of tx P \<Longrightarrow> clean_of tx P'"
  by (auto simp: clean_of_def removes_def restrict_map_def split: if_splits)

lemma block_tx_removed:
  assumes "pool_ok P"
  shows "\<exists>R P1 R' P2 D. remove E tx [] False P = Inr (R, P1) \<and> removeConflicts E tx conflicts P1 = Inr (conflicts @ R', P2) \<and>
    removes P D (R @ R') P2 \<and> D \<subseteq> {tx_hash tx} \<union> (parent_rel P)\<^sup>* `` conflicting P tx \<and> clean_of tx P2"
proof -
  from remove_single [OF assms, of E tx "[]"] obtain R P1 where 1: "remove E tx [] False P = Inr (R, P1)"
    "removes P ({tx_hash tx} \<inter> dom (map_of (mapTx P))) R P1" by auto
  have ok: "pool_ok P1" using 1(2) by (simp add: removes_def)
  from removeConflicts_exact [OF ok, of E tx conflicts] obtain R' P2 D where 2: "removeConflicts E tx conflicts P1 = Inr (conflicts @ R', P2)"
    "removes P1 D R' P2" "D \<subseteq> (parent_rel P1)\<^sup>* `` conflicting P1 tx"
    "\<forall>b node. map_of (mapTx P2) b = Some node \<longrightarrow> b \<noteq> tx_hash tx \<longrightarrow> compatible (node_tx node) tx" by (auto simp: purged_def)
  have "D \<subseteq> (parent_rel P)\<^sup>* `` conflicting P tx" using 2(3) reach_removes [OF 1(2) conflicting_removes [OF 1(2)]] by blast
  moreover have "b \<noteq> tx_hash tx" if "map_of (mapTx P2) b = Some node" for b node
    using that 1(2) 2(2) by (auto simp: removes_def restrict_map_def split: if_splits)
  ultimately show ?thesis using 1(1) 2(1,4) removes_trans [OF 1(2) 2(2)] unfolding clean_of_def by blast
qed

lemma remove_block_exact:
  assumes "pool_ok P"
  shows "\<exists>R P' R' D. remove_block_txs E vtx conflicts P = Inr (conflicts @ R, P') \<and> removes P D R' P' \<and>
    D \<subseteq> tx_hash ` set vtx \<union> (parent_rel P)\<^sup>* `` (\<Union>tx\<in>set vtx. conflicting P tx) \<and> (\<forall>tx\<in>set vtx. clean_of tx P')"
  using assms
proof (induction vtx arbitrary: conflicts P)
  case Nil
  then show ?case using removes_nothing [OF Nil] by (intro exI [of _ "[]"] exI [of _ P] exI [of _ "{}"]) simp
next
  case (Cons tx vtx)
  from block_tx_removed [OF Cons.prems, of E tx conflicts] obtain R0 P1 R1 P2 D where
    1: "remove E tx [] False P = Inr (R0, P1)" "removeConflicts E tx conflicts P1 = Inr (conflicts @ R1, P2)"
      "removes P D (R0 @ R1) P2" "D \<subseteq> {tx_hash tx} \<union> (parent_rel P)\<^sup>* `` conflicting P tx" "clean_of tx P2" by blast
  have ok: "pool_ok (ClearPrioritisation (tx_hash tx) P2)" using 1(3) by (simp add: removes_def ClearPrioritisation_def)
  from Cons.IH [OF ok, of "conflicts @ R1"] obtain R P' R' D' where
    2: "remove_block_txs E vtx (conflicts @ R1) (ClearPrioritisation (tx_hash tx) P2) = Inr ((conflicts @ R1) @ R, P')"
      "removes P2 D' R' P'" "D' \<subseteq> tx_hash ` set vtx \<union> (parent_rel P2)\<^sup>* `` (\<Union>tx\<in>set vtx. conflicting P2 tx)" "\<forall>tx\<in>set vtx. clean_of tx P'"
    by (auto simp: ClearPrioritisation_def)
  define Z where "Z = (parent_rel P)\<^sup>* `` (\<Union>tx\<in>set (tx # vtx). conflicting P tx)"
  have "(parent_rel P)\<^sup>* `` conflicting P tx \<subseteq> Z" unfolding Z_def by (intro Image_mono) auto
  note DZ = order.trans [OF 1(4) Un_mono [OF order.refl this]]
  have "(\<Union>tx\<in>set vtx. conflicting P2 tx) \<subseteq> (\<Union>tx\<in>set (tx # vtx). conflicting P tx)" using conflicting_removes [OF 1(3)] by auto
  then have "(parent_rel P2)\<^sup>* `` (\<Union>tx\<in>set vtx. conflicting P2 tx) \<subseteq> Z" unfolding Z_def by (rule reach_removes [OF 1(3)])
  from order.trans [OF 2(3) Un_mono [OF order.refl this]] DZ have "D \<union> D' \<subseteq> tx_hash ` set (tx # vtx) \<union> Z" by auto
  moreover have "\<forall>t\<in>set (tx # vtx). clean_of t P'" using 2(4) clean_of_removes [OF 2(2) 1(5)] by simp
  moreover have "remove_block_txs E (tx # vtx) conflicts P = Inr (conflicts @ (R1 @ R), P')" using 1(1,2) 2(1) by simp
  ultimately show ?case using removes_trans [OF 1(3) 2(2)] unfolding Z_def by blast
qed

lemma estimator_irrelevant [simp]:
  "pool_ok (P\<lparr>minerPolicyEstimator := e\<rparr>) = pool_ok P" "removes P D R (P'\<lparr>minerPolicyEstimator := e\<rparr>) = removes P D R P'"
  "clean_of tx (P\<lparr>minerPolicyEstimator := e\<rparr>) = clean_of tx P"
  by (simp_all add: pool_ok_def removes_def clean_of_def node_set_def pool_nodes_def)

lemma removeForBlock_exact:
  assumes "pool_ok P"
  shows "\<exists>R P' R' D. removeForBlock E vtx nBlockHeight conflicts f P = Inr (conflicts @ R, P') \<and> removes P D R' P' \<and>
    D \<subseteq> tx_hash ` set vtx \<union> (parent_rel P)\<^sup>* `` (\<Union>tx\<in>set vtx. conflicting P tx) \<and> (\<forall>tx\<in>set vtx. clean_of tx P')"
proof -
  from remove_block_exact [OF assms, of E vtx conflicts] obtain R P' R' D where
    r: "remove_block_txs E vtx conflicts P = Inr (conflicts @ R, P')" "removes P D R' P'"
      "D \<subseteq> tx_hash ` set vtx \<union> (parent_rel P)\<^sup>* `` (\<Union>tx\<in>set vtx. conflicting P tx)" "\<forall>tx\<in>set vtx. clean_of tx P'" by blast
  let ?P = "P'\<lparr>minerPolicyEstimator := processBlock E nBlockHeight
    (List.map_filter (\<lambda>tx. map_option pn_entry (map_of (mapTx P) (tx_hash tx))) vtx) f (minerPolicyEstimator P')\<rparr>"
  have "removeForBlock E vtx nBlockHeight conflicts f P = Inr (conflicts @ R, ?P)" using r(1) by (simp add: removeForBlock_def Let_def)
  moreover have "removes P D R' ?P" "\<forall>tx\<in>set vtx. clean_of tx ?P" using r(2,4) by simp_all
  ultimately show ?thesis using r(3) by blast
qed

section \<open>The life of the pool\<close>

text \<open>
  One operation on the pool. A transaction is added when \<open>addable\<close> holds, at an address that no node has.
  A pool is cleared when it has no shielded transaction and nothing to tell the wallets: \<open>clear\<close> leaves those maps
  as they are.
\<close>

inductive pool_step ::
    "('d::{plus,zero}, 'e) estimator_ops \<Rightarrow> 'v CCoinsView \<Rightarrow> (CCoins \<Rightarrow> u64) \<Rightarrow> ('d, 'e) CTxMemPool \<Rightarrow> ('d, 'e) CTxMemPool \<Rightarrow> bool"
  for E V U where
  step_add: "addable P (e_tx entry) \<Longrightarrow> addr \<notin> pn_addr ` set (pool_nodes P) \<Longrightarrow>
    addUnchecked E addr (tx_hash (e_tx entry)) entry f P = Inr P' \<Longrightarrow> pool_step E V U P P'"
| step_address: "addAddressIndex V U A entry view P = Inr (view', P') \<Longrightarrow> pool_step E V U P P'"
| step_spent: "addSpentIndex V U A entry view P = Inr (view', P') \<Longrightarrow> pool_step E V U P P'"
| step_remove: "remove E tx removed fRecursive P = Inr (removed', P') \<Longrightarrow> pool_step E V U P P'"
| step_reorg: "removeForReorg E V U G median now pcoins h flags P = Inr (pcoins', P') \<Longrightarrow> pool_step E V U P P'"
| step_anchor: "removeWithAnchor E root type P = Inr P' \<Longrightarrow> pool_step E V U P P'"
| step_expired: "removeExpired E G rewind tip h P = Inr P' \<Longrightarrow> pool_step E V U P P'"
| step_block: "removeForBlock E vtx h conflicts f P = Inr (conflicts', P') \<Longrightarrow> pool_step E V U P P'"
| step_branch: "removeWithoutBranchId E branch P = Inr P' \<Longrightarrow> pool_step E V U P P'"
| step_clear: "mapNullifiers P = (\<lambda>_. []) \<Longrightarrow> mapRecentlyAddedTx P = [] \<Longrightarrow> pool_step E V U P (clear P)"
| step_prioritise: "pool_step E V U P (PrioritiseTransaction hash d fee P)"
| step_forget: "pool_step E V U P (ClearPrioritisation hash P)"
| step_notify: "NotifyRecentlyAdded regtest P = Inr (txs, P') \<Longrightarrow> pool_step E V U P P'"
| step_updated: "pool_step E V U P (AddTransactionsUpdated n P)"

lemma remove_total:
  assumes "pool_ok P"
  shows "\<exists>R P'. remove E tx removed fRecursive P = Inr (R, P') \<and> pool_ok P'"
  using remove_recursive [OF assms, of E tx removed] remove_single [OF assms, of E tx removed] by (cases fRecursive) (auto simp: removes_def)

lemma reorg_select_nodes:
  "reorg_select V U G median now h flags P pcoins nodes = Inr (txs, pcoins') \<Longrightarrow> set txs \<subseteq> node_tx ` set nodes"
  by (induction nodes arbitrary: pcoins txs pcoins') (fastforce simp: res_bind_Inr_iff split: if_splits)+

lemma removeForReorg_ok:
  assumes "pool_ok P" "removeForReorg E V U G median now pcoins h flags P = Inr (pcoins', P')"
  shows "pool_ok P'"
proof -
  from assms(2) obtain txs where s: "reorg_select V U G median now h flags P pcoins (pool_nodes P) = Inr (txs, pcoins')" "remove_each E txs P = Inr P'"
    by (auto simp: removeForReorg_def res_bind_Inr_iff)
  have "\<forall>tx\<in>set txs. \<exists>h node. (h, node) \<in> set (mapTx P) \<and> tx = node_tx node"
    using reorg_select_nodes [OF s(1)] by (fastforce simp: pool_nodes_def)
  from remove_each_from [OF assms(1) this removes_nothing [OF assms(1)], of E] s(2) show ?thesis by (auto simp: removes_def)
qed

lemma remove_each_ok:
  assumes "pool_ok P" "remove_each E (map node_tx (filter Q (pool_nodes P))) P = Inr P'"
  shows "pool_ok P'"
  using remove_each_exact [OF assms(1), of E Q] assms(2) by (auto simp: removes_def)

lemma same_core_ok:
  assumes "pool_ok P" "mapTx P' = mapTx P" "mapNextTx P' = mapNextTx P" "mapNullifiers P' = mapNullifiers P"
    "mapRecentlyAddedTx P' = mapRecentlyAddedTx P \<or> mapRecentlyAddedTx P' = []" "totalTxSize P' = totalTxSize P" "cachedInnerUsage P' = cachedInnerUsage P"
  shows "pool_ok P'"
  using assms by (auto simp: pool_ok_def node_set_def pool_nodes_def)

lemma pool_ok_empty:
  assumes "mapTx P = []" "mapNextTx P = []" "mapNullifiers P = (\<lambda>_. [])" "mapRecentlyAddedTx P = []" "totalTxSize P = 0" "cachedInnerUsage P = 0"
  shows "pool_ok P"
  using assms by (auto simp: pool_ok_def nodes_ok_def index_ok_def node_set_def pool_nodes_def)

lemma pool_step_ok: "pool_step E V U P P' \<Longrightarrow> pool_ok P \<Longrightarrow> pool_ok P'"
proof (induction rule: pool_step.induct)
  case (step_add P entry addr f P')
  then show ?case using addUnchecked_ok [of P entry addr E f] by auto
next
  case (step_address A entry view P view' P')
  from step_address.hyps show ?case
    by (auto simp: addAddressIndex_def Let_def res_bind_Inr_iff intro!: same_core_ok [OF step_address.prems])
next
  case (step_spent A entry view P view' P')
  from step_spent.hyps show ?case
    by (auto simp: addSpentIndex_def Let_def res_bind_Inr_iff intro!: same_core_ok [OF step_spent.prems])
next
  case (step_remove tx removed fRecursive P removed' P')
  then show ?case using remove_total [of P E tx removed fRecursive] by auto
next
  case (step_block vtx h conflicts f P conflicts' P')
  then show ?case using removeForBlock_exact [of P E vtx h conflicts f] by (auto simp: removes_def)
next
  case (step_notify regtest P txs P')
  from step_notify.hyps show ?case
    by (auto simp: NotifyRecentlyAdded_def Let_def res_bind_Inr_iff intro!: same_core_ok [OF step_notify.prems])
next
  case (step_clear P)
  then show ?case by (intro pool_ok_empty) (simp_all add: clear_def)
next
  case (step_prioritise P hash d fee)
  then show ?case by (simp add: PrioritiseTransaction_def case_prod_unfold Let_def)
qed (auto simp: removeWithAnchor_def removeExpired_def removeWithoutBranchId_def ClearPrioritisation_def AddTransactionsUpdated_def
    intro: removeForReorg_ok remove_each_ok same_core_ok)

lemma reachable_ok:
  assumes "(pool_step E V U)\<^sup>*\<^sup>* (CTxMemPool_new est 0) P"
  shows "pool_ok P"
  using assms
proof (induction rule: rtranclp_induct)
  case base
  show ?case by (rule pool_ok_empty) (simp_all add: CTxMemPool_new_def)
qed (rule pool_step_ok)

section \<open>What consistency gives\<close>

lemma pool_ok_compatible:
  assumes "pool_ok P" "map_of (mapTx P) a = Some x" "map_of (mapTx P) b = Some y" "a \<noteq> b"
  shows "compatible (node_tx x) (node_tx y)"
proof -
  have n: "a = tx_hash (node_tx x)" "(pn_addr x, node_tx x) \<in> node_set P" "tx_fits (node_tx x)" "b = tx_hash (node_tx y)" "(pn_addr y, node_tx y) \<in> node_set P"
    using assms(2,3) pool_okD(4) [OF assms(1,2)] pool_okD(4) [OF assms(1,3)] node_set_iff [OF assms(1)] by auto
  have addr: "pn_addr x \<noteq> pn_addr y" using same_address [OF assms(1) map_of_SomeD [OF assms(2)] map_of_SomeD [OF assms(3)]] assms(4) by blast
  have "k \<notin> prevout ` set (vin (ct_tx (node_tx y)))" if k: "k \<in> prevout ` set (vin (ct_tx (node_tx x)))" "\<not> tx_IsCoinImport (ct_tx (node_tx x))" for k
  proof
    assume y: "k \<in> prevout ` set (vin (ct_tx (node_tx y)))"
    have "unat (op_n k) \<noteq> 1000000000" using n(3) k by (auto simp: tx_fits_def)
    with y have "\<not> tx_IsCoinImport (ct_tx (node_tx y))" by (auto simp: tx_IsCoinImport_def length_Suc_conv)
    with y obtain w where w: "(k, w) \<in> set (input_marks (pn_addr y) (node_tx y))" using marks_dom(1) [of "pn_addr y" "node_tx y"] by force
    from k obtain v where v: "(k, v) \<in> set (input_marks (pn_addr x) (node_tx x))" using marks_dom(1) [of "pn_addr x" "node_tx x"] by force
    from next_lookup.marked_lookup [OF assms(1) n(2) v] next_lookup.marked_lookup [OF assms(1) n(5) w] addr show False by simp
  qed
  moreover have "k \<notin> set (nullifiers_of (ct_tx (node_tx y)) type)" if "k \<in> set (nullifiers_of (ct_tx (node_tx x)) type)" for k type
  proof
    assume "k \<in> set (nullifiers_of (ct_tx (node_tx y)) type)"
    with that have v: "(k, pn_addr x) \<in> set (nullifier_marks type (pn_addr x) (node_tx x))" "(k, pn_addr y) \<in> set (nullifier_marks type (pn_addr y) (node_tx y))"
      by (simp_all add: nullifier_marks_def)
    from nullifier_lookup.marked_lookup(1) [OF assms(1) n(2) v(1)] nullifier_lookup.marked_lookup(1) [OF assms(1) n(5) v(2)] addr show False by simp
  qed
  ultimately show ?thesis unfolding compatible_def by blast
qed

lemma check_next_ok:
  assumes "pool_ok P"
  shows "check_next P"
  unfolding check_next_def list_all_iff
proof (clarify)
  fix out inp assume "(out, inp) \<in> set (mapNextTx P)"
  note l = index_member [OF pool_okD(5) [OF assms] this]
  obtain tx where tx: "deref P (ip_ptx inp) = Inr tx" "(ip_ptx inp, tx) \<in> node_set P" "(out, inp) \<in> set (input_marks (ip_ptx inp) tx)"
    by (rule next_lookup.lookup_live [OF assms l])
  obtain node where n: "map_of (mapTx P) (tx_hash tx) = Some node" "pn_addr node = ip_ptx inp" "node_tx node = tx"
    using tx(2) node_set_iff [OF assms] by blast
  from tx(3) obtain i where i: "i < length (vin (ct_tx tx))" "out = prevout (vin (ct_tx tx) ! i)" "inp = CInPoint (ip_ptx inp) (of_nat i)"
    by (auto simp: input_marks_def split: if_splits)
  then have "ip_n inp = of_nat i" by (metis CInPoint.sel(2))
  then have "unat (ip_n inp) = i" using i node_set_fits [OF assms tx(2)] by (simp add: tx_fits_def unsigned_of_nat take_bit_nat_eq_self)
  with i tx(1) n show "case deref P (ip_ptx inp) of Inl e \<Rightarrow> False | Inr tx \<Rightarrow> (case map_of (mapTx P) (tx_hash tx) of None \<Rightarrow> False
      | Some node \<Rightarrow> pn_addr node = ip_ptx inp \<and> unat (ip_n inp) < length (vin (ct_tx (node_tx node))) \<and> out = prevout (vin (ct_tx tx) ! unat (ip_n inp)))"
    by simp
qed

lemma checkNullifiers_ok:
  assumes "pool_ok P"
  shows "checkNullifiers P type"
  unfolding checkNullifiers_def list_all_iff
proof (clarify)
  fix nf p assume "(nf, p) \<in> set (mapNullifiers P type)"
  note l = index_member [OF pool_okD(6) [OF assms] this]
  obtain tx where tx: "deref P p = Inr tx" "(p, tx) \<in> node_set P" by (rule nullifier_lookup.lookup_live [OF assms l])
  obtain node where "map_of (mapTx P) (tx_hash tx) = Some node" "pn_addr node = p" using tx(2) node_set_iff [OF assms] by blast
  with tx(1) show "case deref P p of Inl e \<Rightarrow> False | Inr tx \<Rightarrow> (case map_of (mapTx P) (tx_hash tx) of None \<Rightarrow> False | Some node \<Rightarrow> pn_addr node = p)"
    by simp
qed

lemma foldl_sum: "foldl (\<lambda>a x. a + f x) (s :: 'a::comm_monoid_add) xs = s + sum_list (map f xs)"
  by (induction xs arbitrary: s) (simp_all add: algebra_simps)

lemma check_totals_ok: "pool_ok P \<Longrightarrow> check_totals P"
  by (simp add: check_totals_def pool_ok_def foldl_sum pool_nodes_def comp_def case_prod_unfold)

lemma deref_all_total: "\<forall>p\<in>set ps. \<exists>tx. deref P p = Inr tx \<Longrightarrow> \<exists>txs. deref_all P ps = Inr txs"
  by (induction ps) auto

lemma notify_total:
  assumes "pool_ok P"
  shows "\<exists>txs P'. NotifyRecentlyAdded regtest P = Inr (txs, P')"
proof -
  have "\<exists>tx. deref P p = Inr tx" if "p \<in> set (map snd (mapRecentlyAddedTx P))" for p
  proof -
    from that obtain h node where "map_of (mapTx P) h = Some node" "pn_addr node = p" using assms by (force simp: pool_ok_def)
    with pool_okD(4) [OF assms this(1)] node_set_iff [OF assms] deref_iff [OF assms] show ?thesis by blast
  qed
  then obtain txs where "deref_all P (map snd (mapRecentlyAddedTx P)) = Inr txs" using deref_all_total [of _ P] by blast
  then show ?thesis by (simp add: NotifyRecentlyAdded_def Let_def)
qed

text \<open>
  \<open>clear\<close> keeps the pointers of \<open>mapRecentlyAddedTx\<close> and of the nullifiers to nodes that it deletes. They
  are followed later.
\<close>

lemma deref_clear: "deref (clear P) p = Inl Dangling"
  by (simp add: deref_def clear_def pool_nodes_def)

lemma clear_leaves_dangling:
  "mapRecentlyAddedTx P \<noteq> [] \<Longrightarrow> NotifyRecentlyAdded regtest (clear P) = Inl Dangling"
  "map_of (mapNullifiers P SPROUT) nf = Some p \<Longrightarrow> vin (ct_tx tx) = [] \<Longrightarrow> nullifiers_of (ct_tx tx) SPROUT = [nf] \<Longrightarrow>
    removeConflicts E tx [] (clear P) = Inl Dangling"
proof -
  have c: "mapRecentlyAddedTx (clear P) = mapRecentlyAddedTx P" "mapNullifiers (clear P) = mapNullifiers P" by (simp_all add: clear_def)
  show "NotifyRecentlyAdded regtest (clear P) = Inl Dangling" if "mapRecentlyAddedTx P \<noteq> []"
    using that by (cases "mapRecentlyAddedTx P") (simp_all add: NotifyRecentlyAdded_def Let_def c deref_clear)
  show "removeConflicts E tx [] (clear P) = Inl Dangling"
    if "map_of (mapNullifiers P SPROUT) nf = Some p" "vin (ct_tx tx) = []" "nullifiers_of (ct_tx tx) SPROUT = [nf]"
    using that by (simp add: removeConflicts_def nullifier_spender_def c deref_clear)
qed

text \<open>After a reorganisation a transaction that spends an immature coinbase stays, unless the coinbase is under a time lock that has not ended.\<close>

lemma reorg_keeps_immature:
  "block_unlocktime G (word_of_int (cc_nHeight coins)) \<le> ucast nMemPoolHeight \<Longrightarrow> \<not> reorg_spoils G nMemPoolHeight (Some coins)"
  by (simp add: reorg_spoils_def not_less)

section \<open>A small pool\<close>

text \<open>A transaction, one that spends its output, and one apart; priorities are numbers, and the estimator does nothing.\<close>

definition simple_tx :: "uint256 \<Rightarrow> COutPoint \<Rightarrow> CTransaction" where
  "simple_tx hash out =
     \<lparr>ct_tx = tx_default\<lparr>vin := [\<lparr>prevout = out, scriptSig = [], nSequence = 0\<rparr>], vout := [\<lparr>nValue = 5, scriptPubKey = []\<rparr>]\<rparr>, ct_hash = Inr hash\<rparr>"

definition simple_entry :: "CTransaction \<Rightarrow> nat CTxMemPoolEntry" where
  "simple_entry tx =
     \<lparr>e_tx = tx, e_nFee = 1, e_nTxSize = 100, e_nModSize = 100, e_nUsageSize = 10, e_feeRate = CFeeRate_of 1 100, e_nTime = 0, e_dPriority = 0,
      e_nHeight = 0, e_hadNoDependencies = True, e_spendsCoinbase = False, e_nBranchId = 7\<rparr>"

definition simple_estimator :: "(nat, unit) estimator_ops" where
  "simple_estimator = \<lparr>processTransaction = (\<lambda>_ _ e. e), removeTx = (\<lambda>_ e. e), processBlock = (\<lambda>_ _ _ e. e)\<rparr>"

abbreviation parent_tx :: CTransaction where "parent_tx \<equiv> simple_tx [1] (COutPoint [7] 0)"
abbreviation child_tx :: CTransaction where "child_tx \<equiv> simple_tx [2] (COutPoint [1] 0)"
abbreviation other_tx :: CTransaction where "other_tx \<equiv> simple_tx [3] (COutPoint [8] 0)"

definition add_simple :: "tx_ptr \<Rightarrow> CTransaction \<Rightarrow> (nat, unit) CTxMemPool \<Rightarrow> (nat, unit) CTxMemPool" where
  "add_simple addr tx P = projr (addUnchecked simple_estimator addr (tx_hash tx) (simple_entry tx) False P)"

definition simple_pool :: "(nat, unit) CTxMemPool" where
  "simple_pool = add_simple 30 other_tx (add_simple 20 child_tx (add_simple 10 parent_tx (CTxMemPool_new () 0)))"

lemma simple_facts [simp]:
  "tx_hash (simple_tx h out) = h" "vin (ct_tx (simple_tx h out)) = [\<lparr>prevout = out, scriptSig = [], nSequence = 0\<rparr>]"
  "length (vout (ct_tx (simple_tx h out))) = 1" "nullifiers_of (ct_tx (simple_tx h out)) type = []" "e_tx (simple_entry tx) = tx"
  "tx_IsCoinImport (ct_tx (simple_tx h out)) \<longleftrightarrow> unat (op_n out) = 1000000000"
  by (simp_all add: tx_hash_def simple_tx_def simple_entry_def nullifiers_of_def tx_default_def tx_IsCoinImport_def split: ShieldedType.split)

lemma outpoint_order [simp]: "COutPoint h n < COutPoint k m \<longleftrightarrow> h < k \<or> h = k \<and> n < m"
  by (simp add: less_COutPoint_def outpoint_less_def)

lemma add_simple_maps:
  assumes "map_of (mapTx P) (tx_hash tx) = None" "std_ok (mapTx P)"
  shows "mapTx (add_simple addr tx P) = std_set (mapTx P) (tx_hash tx) \<lparr>pn_addr = addr, pn_entry = simple_entry tx\<rparr>"
    "mapNextTx (add_simple addr tx P) = std_sets (mapNextTx P) (input_marks addr tx)"
    "mapNullifiers (add_simple addr tx P) = (\<lambda>type. std_sets (mapNullifiers P type) (nullifier_marks type addr tx))"
  using assms by (simp_all add: add_simple_def addUnchecked_def std_insert_def Let_def)

abbreviation simple_pool1 :: "(nat, unit) CTxMemPool" where "simple_pool1 \<equiv> add_simple 10 parent_tx (CTxMemPool_new () 0)"
abbreviation simple_pool2 :: "(nat, unit) CTxMemPool" where "simple_pool2 \<equiv> add_simple 20 child_tx simple_pool1"

lemma simple_pool1_maps:
  "mapTx simple_pool1 = [([1], \<lparr>pn_addr = 10, pn_entry = simple_entry parent_tx\<rparr>)]" "mapNextTx simple_pool1 = [(COutPoint [7] 0, CInPoint 10 0)]"
  "mapNullifiers simple_pool1 = (\<lambda>_. [])"
  by (simp_all add: add_simple_maps CTxMemPool_new_def input_marks_def nullifier_marks_def)

lemma simple_pool2_maps:
  "mapTx simple_pool2 = [([1], \<lparr>pn_addr = 10, pn_entry = simple_entry parent_tx\<rparr>), ([2], \<lparr>pn_addr = 20, pn_entry = simple_entry child_tx\<rparr>)]"
  "mapNextTx simple_pool2 = [(COutPoint [1] 0, CInPoint 20 0), (COutPoint [7] 0, CInPoint 10 0)]" "mapNullifiers simple_pool2 = (\<lambda>_. [])"
  by (simp_all add: add_simple_maps simple_pool1_maps input_marks_def nullifier_marks_def)

lemma simple_pool_maps:
  "mapTx simple_pool = [([1], \<lparr>pn_addr = 10, pn_entry = simple_entry parent_tx\<rparr>), ([2], \<lparr>pn_addr = 20, pn_entry = simple_entry child_tx\<rparr>),
     ([3], \<lparr>pn_addr = 30, pn_entry = simple_entry other_tx\<rparr>)]"
  "mapNextTx simple_pool = [(COutPoint [1] 0, CInPoint 20 0), (COutPoint [7] 0, CInPoint 10 0), (COutPoint [8] 0, CInPoint 30 0)]"
  by (simp_all add: simple_pool_def add_simple_maps simple_pool2_maps input_marks_def nullifier_marks_def)

lemma simple_step:
  assumes "addable P tx" "addr \<notin> pn_addr ` set (pool_nodes P)" "std_ok (mapTx P)"
  shows "pool_step simple_estimator V U P (add_simple addr tx P)"
proof (rule step_add [where entry = "simple_entry tx" and f = False and addr = addr])
  show "addUnchecked simple_estimator addr (tx_hash (e_tx (simple_entry tx))) (simple_entry tx) False P = Inr (add_simple addr tx P)"
    using assms by (simp add: add_simple_def addUnchecked_def std_insert_def addable_def Let_def)
qed (use assms in simp_all)

lemma simple_reachable: "(pool_step simple_estimator CCoinsView_none (\<lambda>_. 0))\<^sup>*\<^sup>* (CTxMemPool_new () 0) simple_pool"
proof -
  note eval = addable_def tx_fits_def pool_nodes_def
  have "pool_step simple_estimator CCoinsView_none (\<lambda>_. 0) (CTxMemPool_new () 0) simple_pool1"
    by (rule simple_step) (simp_all add: eval CTxMemPool_new_def)
  moreover have "pool_step simple_estimator CCoinsView_none (\<lambda>_. 0) simple_pool1 simple_pool2"
    by (rule simple_step) (simp_all add: eval simple_pool1_maps)
  moreover have "pool_step simple_estimator CCoinsView_none (\<lambda>_. 0) simple_pool2 simple_pool"
    unfolding simple_pool_def by (rule simple_step) (simp_all add: eval simple_pool2_maps)
  ultimately show ?thesis by (meson rtranclp.rtrancl_into_rtrancl rtranclp.rtrancl_refl)
qed

lemmas simple_ok = reachable_ok [OF simple_reachable]

lemma simple_relations:
  "parent_rel simple_pool = {([1], [2])}" "descendants simple_pool parent_tx = {[1], [2]}"
proof -
  show r: "parent_rel simple_pool = {([1], [2])}"
    by (auto simp: parent_rel_def children_def takers_def simple_pool_maps split: if_splits)
  have "{([1], [2])}\<^sup>* `` {[1 :: u8]} = {[1], [2 :: u8]}" by (auto elim: rtranclE)
  then show "descendants simple_pool parent_tx = {[1], [2]}" by (simp add: descendants_def r simple_pool_maps)
qed

section \<open>Properties\<close>



text \<open>
  C13. A recursive removal takes a transaction and everything that descends from it, and nothing else. It ends,
  returns exactly the transactions it took, and no transaction that stays spends an output of one that went.
\<close>

theorem recursive_removal_exact:
  assumes "pool_ok P"
  shows "\<exists>R P'. remove E tx removed True P = Inr (removed @ R, P') \<and> pool_ok P' \<and>
    mapTx P' = filter (\<lambda>(hash, node). hash \<notin> descendants P tx) (mapTx P) \<and>
    set R = {node_tx node |hash node. (hash, node) \<in> set (mapTx P) \<and> hash \<in> descendants P tx} \<and>
    (\<forall>a\<in>descendants P tx. \<forall>b\<in>dom (map_of (mapTx P')). (a, b) \<notin> parent_rel P)"
proof -
  from remove_recursive [OF assms, of E tx removed] obtain R P' where
    r: "remove E tx removed True P = Inr (removed @ R, P')" "removes P (descendants P tx) R P'" by blast
  have "b \<in> descendants P tx" if "a \<in> descendants P tx" "(a, b) \<in> parent_rel P" for a b
    using that unfolding descendants_def by (meson Image_iff rtrancl_into_rtrancl)
  moreover have "b \<notin> descendants P tx" if "b \<in> dom (map_of (mapTx P'))" for b using that r(2) by (auto simp: removes_def restrict_map_def split: if_splits)
  ultimately have "\<forall>a\<in>descendants P tx. \<forall>b\<in>dom (map_of (mapTx P')). (a, b) \<notin> parent_rel P" by blast
  moreover have "pool_ok P'" "mapTx P' = filter (\<lambda>(hash, node). hash \<notin> descendants P tx) (mapTx P)"
    "set R = {node_tx node |hash node. (hash, node) \<in> set (mapTx P) \<and> hash \<in> descendants P tx}"
    using r(2) by (simp_all add: removes_def without_def)
  ultimately show ?thesis by (intro exI [of _ R] exI [of _ P'] conjI r(1))
qed

theorem recursive_removal_exact_witness:
  "\<exists>R P'. remove simple_estimator parent_tx [] True simple_pool = Inr (R, P') \<and> map fst (mapTx P') = [[3]] \<and> set R = {parent_tx, child_tx}"
proof -
  from recursive_removal_exact [OF simple_ok, of simple_estimator parent_tx "[]"] obtain R P' where
    r: "remove simple_estimator parent_tx [] True simple_pool = Inr (R, P')"
      "mapTx P' = filter (\<lambda>(hash, node). hash \<notin> {[1], [2]}) (mapTx simple_pool)"
      "set R = {node_tx node |hash node. (hash, node) \<in> set (mapTx simple_pool) \<and> hash \<in> {[1], [2]}}" by (auto simp: simple_relations)
  have "set R = {parent_tx, child_tx}" unfolding r(3) simple_pool_maps by auto force+
  moreover have "map fst (mapTx P') = [[3]]" unfolding r(2) simple_pool_maps by simp
  ultimately show ?thesis by (intro exI [of _ R] exI [of _ P'] conjI r(1))
qed



text \<open>
  C14. Removals by a property are exact. A changed anchor, a changed branch and expiry take exactly the transactions they concern
  and those that descend from them, and leave every other.
\<close>

theorem selective_removals_exact:
  assumes "pool_ok P"
  shows "(\<exists>P'. removeWithAnchor E root type P = Inr P' \<and> pool_ok P' \<and>
      mapTx P' = filter (\<lambda>(hash, node). hash \<notin> affected P (\<lambda>node. root \<in> set (anchors_used (ct_tx (node_tx node)) type))) (mapTx P)) \<and>
    (\<exists>P'. removeWithoutBranchId E branch P = Inr P' \<and> pool_ok P' \<and>
      mapTx P' = filter (\<lambda>(hash, node). hash \<notin> affected P (\<lambda>node. e_nBranchId (pn_entry node) \<noteq> branch)) (mapTx P)) \<and>
    (\<exists>P'. removeExpired E G rewind tip h P = Inr P' \<and> pool_ok P' \<and>
      mapTx P' = filter (\<lambda>(hash, node). hash \<notin> affected P (expired_node G rewind tip h)) (mapTx P))"
proof -
  have each: "\<exists>P'. remove_each E (map node_tx (filter Q (pool_nodes P))) P = Inr P' \<and> pool_ok P' \<and>
    mapTx P' = filter (\<lambda>(hash, node). hash \<notin> affected P Q) (mapTx P)" for Q
    using remove_each_exact [OF assms, of E Q] by (auto simp: removes_def without_def)
  show ?thesis
    using each [of "\<lambda>node. root \<in> set (anchors_used (ct_tx (node_tx node)) type)"] each [of "\<lambda>node. e_nBranchId (pn_entry node) \<noteq> branch"]
      each [of "expired_node G rewind tip h"]
    by (simp add: removeWithAnchor_def removeWithoutBranchId_def removeExpired_def)
qed

theorem selective_removals_exact_witness:
  "(\<exists>P'. removeWithoutBranchId simple_estimator 8 simple_pool = Inr P' \<and> mapTx P' = []) \<and>
   (\<exists>P'. removeWithAnchor simple_estimator [9] SPROUT simple_pool = Inr P' \<and> mapTx P' = mapTx simple_pool)"
proof -
  have "{b. \<exists>node. map_of (mapTx simple_pool) b = Some node \<and> e_nBranchId (pn_entry node) \<noteq> 8} = {[1], [2], [3]}"
    by (auto simp: simple_pool_maps simple_entry_def split: if_splits)
  moreover have "{([1], [2 :: u8])}\<^sup>* `` {[1], [2], [3]} = {[1], [2], [3]}" by (auto elim: rtranclE)
  ultimately have b: "affected simple_pool (\<lambda>node. e_nBranchId (pn_entry node) \<noteq> 8) = {[1], [2], [3]}" by (simp add: affected_def simple_relations)
  have a: "affected simple_pool (\<lambda>node. [9] \<in> set (anchors_used (ct_tx (node_tx node)) SPROUT)) = {}"
    by (auto simp: affected_def simple_pool_maps anchors_used_def simple_tx_def tx_default_def split: if_splits)
  note s = selective_removals_exact [OF simple_ok, of simple_estimator "[9]" SPROUT 8, unfolded a b]
  obtain P' where "removeWithoutBranchId simple_estimator 8 simple_pool = Inr P'"
    "mapTx P' = filter (\<lambda>(hash, node). hash \<notin> {[1], [2], [3]}) (mapTx simple_pool)" using s by blast
  moreover have "filter (\<lambda>(hash, node). hash \<notin> {[1], [2], [3]}) (mapTx simple_pool) = []" by (simp add: simple_pool_maps)
  moreover obtain P'' where "removeWithAnchor simple_estimator [9] SPROUT simple_pool = Inr P''" "mapTx P'' = mapTx simple_pool"
    using s [THEN conjunct1] by auto
  ultimately show ?thesis by auto
qed

end
