(* ===== verification/Spec2Isabelle.thy ===== *)
theory Spec2Isabelle
  imports InterpreterProps MerkleBlockProps IncrementalMerkleTreeProps BlockIndexProps TxRules MempoolProps
begin

text \<open>
  A verification library for the consensus core of SquishyCoin, a node of the Bitcoin, Zcash and Komodo
  family. All source paths below are relative to \<^verbatim>\<open>src/src/\<close>.

  \<^bold>\<open>The program.\<close> A node receives transactions and blocks as bytes, hashes them, runs the scripts
  that guard the outputs they spend, and applies them to the set of unspent coins, note commitments and
  nullifiers, which it keeps in caches over a database. The library follows that path from the bottom:
  integers and hashes, the serialisation format, transactions and blocks, scripts and their interpreter,
  the Merkle tree of a block and the incremental tree of note commitments, coins with their stored form,
  and the stack of coin views down to the database.

  \<^bold>\<open>Modelling conventions.\<close> A C++ class is a record, an enumeration a datatype, a method a function
  that takes the object and returns it changed. Fixed-width integers are words where the width matters
  and otherwise numbers with the wrap-around written out (\<open>wrap64\<close>). A \<open>uint256\<close> is its 32 bytes.
  Exceptions and failing assertions are \<open>Inl\<close> results; a method that returns false with its object
  unchanged yields \<open>None\<close>. Reading from a stream is a function from the bytes left to a value and the
  remaining bytes. Every loop is a total function. Only the loops that follow \<open>pprev\<close> through the block index
  carry a bound on their steps, one or two more than the height they start from; running out of it is an error
  value, and the properties show that it does not occur. Objects the code shares through pointers (block index
  entries, transactions of the memory pool) have addresses; following a pointer to an object that is gone is an error. Code outside the repository's own
  sources (signature checking, public key validation and decompression by libsecp256k1, crypto-condition
  checks, the hash of the Sapling tree, memory usage estimates) is an argument of the definitions that
  use it.

  \<^bold>\<open>Theories and sources.\<close>
  \<^item> \<open>Prelude\<close>: word types, results, little-endian digit sequences; the collections \<open>le_simps\<close> and
    \<open>res_simps\<close>.
  \<^item> \<open>CryptoCommon\<close>: \<^verbatim>\<open>crypto/common.h\<close>.
  \<^item> \<open>ArithUint256\<close>, \<open>ArithCompact\<close>: \<^verbatim>\<open>arith_uint256.h\<close> and \<^verbatim>\<open>arith_uint256.cpp\<close>, every
    operator on eight 32-bit limbs, and the compact form of targets. The operators are arithmetic modulo
    \<open>2 ^ 256\<close>, division is exact, the compact form decodes to what it denotes and re-encodes.
  \<^item> \<open>BlockHash\<close>, \<open>Sha256\<close>, \<open>Sha1\<close>, \<open>Ripemd160\<close>, \<open>Sha512\<close>: the hash functions of
    \<^verbatim>\<open>crypto/\<close>. \<open>BlockHash\<close> has the buffering of partial blocks, shared by the classes, as the
    locale \<open>block_hasher\<close>, interpreted for each of them; SHA-256 is shown to be that of FIPS 180-4 and
    \<open>SHA256D64\<close> to be its double application.
  \<^item> \<open>Hash\<close>: \<^verbatim>\<open>hash.h\<close>, \<^verbatim>\<open>hash.cpp\<close> and \<^verbatim>\<open>crypto/hmac_sha256.cpp\<close>,
    \<^verbatim>\<open>crypto/hmac_sha512.cpp\<close>. Hash objects are streaming; HMAC is that of RFC 2104.
  \<^item> \<open>Script\<close>, \<open>ScriptProps\<close>: \<^verbatim>\<open>script/script.h\<close> and \<^verbatim>\<open>script/script.cpp\<close>: numbers, building and
    parsing scripts, the standard templates, counting signature operations.
  \<^item> \<open>Interpreter\<close>, \<open>InterpreterProps\<close>: \<^verbatim>\<open>script/interpreter.cpp\<close>: \<open>EvalScript\<close> with every
    opcode, the encoding checks, \<open>VerifyScript\<close>. The runs are also a step relation
    (\<open>eval_reaches\<close>), on which the limits are an invariant.
  \<^item> \<open>Serialize\<close>: \<^verbatim>\<open>serialize.h\<close> and the data stream of \<^verbatim>\<open>streams.h\<close>. The locale \<open>codec\<close> says
    that a reader returns what was written, \<open>strict_codec\<close> that it accepts nothing else; every format
    below is an interpretation of one of them.
  \<^item> \<open>Transaction\<close>, \<open>TransactionProps\<close>: \<^verbatim>\<open>primitives/transaction.h\<close>,
    \<^verbatim>\<open>primitives/transaction.cpp\<close>, the proofs of \<^verbatim>\<open>zcash/Proof.hpp\<close>: the three formats are
    canonical, the amounts are added without overflow.
  \<^item> \<open>Block\<close>, \<open>BlockMerkle\<close>, \<open>BlockProps\<close>: \<^verbatim>\<open>primitives/block.h\<close>,
    \<^verbatim>\<open>primitives/block.cpp\<close>, \<^verbatim>\<open>consensus/merkle.cpp\<close>: the hash of a block commits to its
    transactions, Merkle branches are exact. Statements about collisions name the inputs that were
    hashed, since a claim that some collision exists is true of every hash function.
  \<^item> \<open>MerkleBlock\<close>, \<open>MerkleBlockProps\<close>: \<^verbatim>\<open>merkleblock.h\<close> and \<^verbatim>\<open>merkleblock.cpp\<close>: partial
    Merkle trees come back with the ids that were selected, and a tree a peer made up cannot prove a foreign id.
  \<^item> \<open>BlockIndex\<close>, \<open>BlockTree\<close>, \<open>BlockIndexProps\<close>: \<^verbatim>\<open>chain.h\<close>, \<^verbatim>\<open>chain.cpp\<close>, \<open>GetBlockProof\<close> of
    \<^verbatim>\<open>pow.cpp\<close>, \<open>AddToBlockIndex\<close>, \<open>LastCommonAncestor\<close> and \<open>FindForkInGlobalIndex\<close> of \<^verbatim>\<open>main.cpp\<close>.
    The states that adding headers and moving the tip reach are an inductive set (\<open>index_reach\<close>); in all of them
    the skip list, the active chain, fork points and locators are exact and work adds up.
  \<^item> \<open>Compressor\<close>: \<^verbatim>\<open>compressor.h\<close> and \<^verbatim>\<open>compressor.cpp\<close>.
  \<^item> \<open>Coins\<close>, \<open>CoinsProps\<close>: \<open>CCoins\<close> of \<^verbatim>\<open>coins.h\<close> and the undo records of \<^verbatim>\<open>undo.h\<close>.
  \<^item> \<open>CoinsView\<close>, \<open>CoinsViewSpec\<close>, \<open>CoinsViewProps\<close>: the views and caches of \<^verbatim>\<open>coins.h\<close>,
    \<^verbatim>\<open>coins.cpp\<close> and the database view of \<^verbatim>\<open>txdb.cpp\<close>. The locale \<open>coins_reader\<close> is the contract of
    a view that is read, \<open>coins_view\<close> of one that is also written; the database satisfies it (\<open>db_view\<close>) and so does a cache over any view that satisfies it,
    which gives the stack the node uses (\<open>tip_view\<close>). Sequences of operations refine the same changes
    of plain maps and sets.
  \<^item> \<open>ConnectBlock\<close>, \<open>ConnectUndo\<close>, \<open>ConnectBlockProps\<close>: \<open>UpdateCoins\<close>, \<open>ApplyTxInUndo\<close>,
    \<open>DisconnectBlock\<close> and what \<open>ConnectBlock\<close> does to the view, of \<^verbatim>\<open>main.cpp\<close>, with the tombstones of
    \<^verbatim>\<open>importcoin.cpp\<close>. Disconnecting undoes connecting, and connecting fails no assertion; both are proved for a
    cache over any view of the contract and stated for the node's.
  \<^item> \<open>Upgrades\<close>: \<^verbatim>\<open>consensus/upgrades.cpp\<close> and \<open>CValidationState\<close> of \<^verbatim>\<open>consensus/validation.h\<close>: the schedule
    of upgrades. The consensus branch changes where an upgrade activates and nowhere else.
  \<^item> \<open>Interest\<close>: \<^verbatim>\<open>squishy_interest.cpp\<close>, on words: interest is at most five percent of the value.
  \<^item> \<open>TxChecks\<close>, \<open>TxChecksProps\<close>, \<open>TxRules\<close>: the checks of transactions of \<^verbatim>\<open>main.cpp\<close>, without context
    (\<open>CheckTransaction\<close>), at a height (\<open>ContextualCheckTransaction\<close>) and of inputs (\<open>CheckTxInputs\<close>). They accept
    exactly what the predicate \<open>tx_valid\<close> describes; accepted transactions have the format of the epoch, pay
    out no more than they take in, and are what connecting a block relies on.
  \<^item> \<open>StdMap\<close>, \<open>Mempool\<close>, \<open>MempoolRemove\<close>, \<open>MempoolProps\<close>: \<^verbatim>\<open>txmempool.h\<close> and \<^verbatim>\<open>txmempool.cpp\<close>. The
    ordered maps of the standard library are sorted lists (\<open>StdMap\<close>); the maps that point into the pool obey the contracts
    \<open>pool_index\<close> and \<open>pool_lookup\<close>. The pools that the operations reach (\<open>pool_step\<close>) are consistent and have no
    dangling pointers, a removal takes exactly the descendants, and a new block leaves no conflict.
  \<^item> \<open>IncrementalMerkleTree\<close>, \<open>IncrementalMerkleTreeProps\<close>: \<^verbatim>\<open>zcash/IncrementalMerkleTree.hpp\<close> and
    its \<^verbatim>\<open>.cpp\<close>: the tree of note commitments and its witnesses, for any hash, through the locale
    \<open>accumulator\<close>.

  \<^bold>\<open>Bounds.\<close> Positions and counts that the code keeps in \<open>int\<close> or \<open>unsigned int\<close> are natural
  numbers where the code's own limits (block and script sizes, \<open>MAX_SIZE\<close>, tree depth) keep them far
  below the width; where they meet an encoding they are words.

  \<^bold>\<open>Not modelled.\<close> The node around this core: the checks of blocks, admission to the memory
  pool (\<open>AcceptToMemoryPool\<close>), standardness and chain selection (most of \<^verbatim>\<open>main.cpp\<close>), proof of work and staking, fee estimation, the network, the wallet, RPC, mining,
  the notary and cross-chain code, the contract modules under \<^verbatim>\<open>cc/\<close>, the Qt interface. Vendored
  code (LevelDB, libsecp256k1, univalue, libsnark, the crypto-conditions library, cJSON, mini-gmp) is not
  this program's. Within the modelled parts: printers and debug output, the vectorised SHA-256 routines
  and their selection at run time, \<open>SignatureHash\<close>, write failures of the database.
\<close>

end
